(* ===== verification/Hdlc_Prelude.thy ===== *)
theory Hdlc_Prelude
  imports Main "HOL-Library.Word" "HOL-Library.State_Monad"
begin

text \<open>
  Shared vocabulary of the development: the fixed-width integer types of the C sources, the
  lemma collections that the component theories fill, and generic facts about machine words,
  bit masks and lists that more than one component uses.
\<close>

unbundle bit_operations_syntax

type_synonym u8 = "8 word"
type_synonym u16 = "16 word"
type_synonym u32 = "32 word"
type_synonym u64 = "64 word"

named_theorems flag_simps \<open>bit-mask tests on flag words after a set or a clear\<close>
named_theorems pool_simps \<open>effect of the frame pool operations on each part of the pool\<close>
named_theorems frame_simps \<open>read-after-write facts on the control field of a frame\<close>

section \<open>Flag words\<close>

text \<open>
  \<open>has w m\<close> is the C test \<open>w & m\<close> used as a condition.
\<close>

definition has :: "'a::len word \<Rightarrow> 'a word \<Rightarrow> bool" where
  "has w m = (w AND m \<noteq> 0)"

lemma has_zero [simp]: "\<not> has 0 m"
  by (simp add: has_def)

lemma and_or_self: "((w OR m) AND m :: 'a::len word) = m"
  by (rule bit_word_eqI) (auto simp: bit_simps)

lemma has_or_same [flag_simps, simp]: "m \<noteq> 0 \<Longrightarrow> has (w OR m) m"
  by (simp add: has_def and_or_self)

lemma and_or_other: "m AND k = 0 \<Longrightarrow> ((w OR m) AND k :: 'a::len word) = w AND k"
  by (simp add: bit.conj_disj_distrib2)

lemma has_or_other [flag_simps, simp]: "m AND k = 0 \<Longrightarrow> has (w OR m) k = has w k"
  by (simp add: has_def and_or_other)

lemma and_clear_same: "((w AND NOT m) AND m :: 'a::len word) = 0"
  by (rule bit_word_eqI) (auto simp: bit_simps)

lemma has_clear_same [flag_simps, simp]: "\<not> has (w AND NOT m) m"
  by (simp add: has_def and_clear_same)

lemma and_clear_other: "m AND k = 0 \<Longrightarrow> ((w AND NOT m) AND k :: 'a::len word) = w AND k"
proof -
  assume h: "m AND k = 0"
  show "((w AND NOT m) AND k :: 'a::len word) = w AND k"
  proof (rule bit_word_eqI)
    fix n assume "n < LENGTH('a)"
    have "\<not> (bit m n \<and> bit k n)"
      using h by (metis bit_and_iff bit_0_eq bot_apply bot_bool_def)
    then show "bit ((w AND NOT m) AND k) n = bit (w AND k) n"
      using \<open>n < LENGTH('a)\<close> by (auto simp: bit_simps)
  qed
qed

lemma has_clear_other [flag_simps, simp]: "m AND k = 0 \<Longrightarrow> has (w AND NOT m) k = has w k"
  by (simp add: has_def and_clear_other)

lemma has_or: "has (w OR v) m \<longleftrightarrow> has w m \<or> has v m"
  by (auto simp: has_def bit.conj_disj_distrib2 or_eq_0_iff)

section \<open>Sequence numbers\<close>

text \<open>
  The code keeps V(S), V(R), N(R) in \<open>uint32_t\<close> variables and reduces every sum and
  difference with \<open>& modmask\<close>, where \<open>modmask = 2^n - 1\<close>. These facts read such
  words as natural numbers modulo \<open>2^n\<close>.
\<close>

lemma unat_and_mask: "unat ((w :: u32) AND mask n) = unat w mod 2 ^ n"
  by (simp flip: take_bit_eq_mask take_bit_eq_mod add: unsigned_take_bit_eq)

lemma dvd_pow_32: "n \<le> 32 \<Longrightarrow> (2::nat) ^ n dvd 4294967296"
  using le_imp_power_dvd [of n 32 "2::nat"] by simp

lemma unat_add_mask:
  assumes "n \<le> 32"
  shows "unat ((a + b :: u32) AND mask n) = (unat a + unat b) mod 2 ^ n"
proof -
  have "unat (a + b) mod 2 ^ n = (unat a + unat b) mod 4294967296 mod 2 ^ n"
    by (simp add: unat_word_ariths)
  also have "\<dots> = (unat a + unat b) mod 2 ^ n"
    using dvd_pow_32 [OF assms] by (rule mod_mod_cancel)
  finally show ?thesis by (simp add: unat_and_mask)
qed

lemma unat_sub_mask:
  assumes "n \<le> 32"
  shows "int (unat ((a - b :: u32) AND mask n)) = (int (unat a) - int (unat b)) mod 2 ^ n"
proof -
  have d: "(2::int) ^ n dvd 4294967296"
    using le_imp_power_dvd [OF assms, of "2::int"] by simp
  have "int (unat (a - b)) = (int (unat a) - int (unat b)) mod 4294967296"
    by (simp add: uint_word_ariths(2) flip: uint_nat)
  then have "int (unat (a - b)) mod 2 ^ n
      = (int (unat a) - int (unat b)) mod 4294967296 mod 2 ^ n"
    by simp
  also have "\<dots> = (int (unat a) - int (unat b)) mod 2 ^ n"
    using d by (rule mod_mod_cancel)
  finally show ?thesis
    by (simp add: unat_and_mask of_nat_mod)
qed

lemma unat_lt: "unat (y :: 'a::len word) < 2 ^ LENGTH('a)"
  by (rule unsigned_less)

lemma unat_inc:
  assumes "unat (x :: 'a::len word) < unat (y :: 'a::len word)"
  shows "unat (x + 1) = Suc (unat x)"
proof -
  have "unat x + 1 < 2 ^ LENGTH('a)" using assms unat_lt [of y] by linarith
  then show ?thesis by (simp add: unat_word_ariths)
qed

lemma unat_dec: "(x :: 'a::len word) \<noteq> 0 \<Longrightarrow> unat (x - 1) = unat x - 1"
  by (simp add: unat_minus_one)

section \<open>Lists\<close>

lemma take_update_snoc:
  "j < length xs \<Longrightarrow> take (Suc j) (xs[j := v]) = take j xs @ [v]"
  by (simp add: take_Suc_conv_app_nth)

lemma drop_update_before: "j < i \<Longrightarrow> drop i (xs[j := v]) = drop i xs"
  by simp

lemma take_append_update:
  "length ys = k \<Longrightarrow> take k (ys @ zs) = ys"
  by simp

lemma count_list_append: "count_list (xs @ ys) x = count_list xs x + count_list ys x"
  by (induction xs) auto

lemma count_list_distinct: "distinct xs \<Longrightarrow> count_list xs x = (if x \<in> set xs then 1 else 0)"
  by (induction xs) auto

end
