(* ===== verification/Hdlc_LowLevel.thy ===== *)
theory Hdlc_LowLevel
  imports Hdlc_Prelude
begin

text \<open>
  The low-level octet transformations of \<^verbatim>\<open>src/ioHdlcll.c\<close>: the table-driven CRC/X.25
  (FCS-16) and the software transparency (octet stuffing) codec.

  A byte range (pointer and length) is the list of its octets; a frame buffer is the list
  \<open>frame[]\<close> with its \<open>elen\<close>. A read or write outside the buffer, which the C code does not
  check, is the value \<open>None\<close>.

  The main results: the table is the one the generator at the end of the C file computes, an
  appended FCS is accepted and any other pair of trailing octets is rejected, a corruption
  confined to two consecutive octets is always detected, the encoder never emits a flag octet and
  decoding in place undoes it.
\<close>

section \<open>Constants\<close>

definition IOHDLC_FLAG :: u8 where "IOHDLC_FLAG = 0x7E"
definition IOHDLC_CTLESC :: u8 where "IOHDLC_CTLESC = 0x7D"
definition IOHDLC_TMASK :: u8 where "IOHDLC_TMASK = 0x20"

lemmas ll_consts = IOHDLC_FLAG_def IOHDLC_CTLESC_def IOHDLC_TMASK_def

section \<open>The frame check sequence\<close>

definition fcstab :: "u16 list" where
  "fcstab =
    [0x0000, 0x1189, 0x2312, 0x329b, 0x4624, 0x57ad, 0x6536, 0x74bf,
     0x8c48, 0x9dc1, 0xaf5a, 0xbed3, 0xca6c, 0xdbe5, 0xe97e, 0xf8f7,
     0x1081, 0x0108, 0x3393, 0x221a, 0x56a5, 0x472c, 0x75b7, 0x643e,
     0x9cc9, 0x8d40, 0xbfdb, 0xae52, 0xdaed, 0xcb64, 0xf9ff, 0xe876,
     0x2102, 0x308b, 0x0210, 0x1399, 0x6726, 0x76af, 0x4434, 0x55bd,
     0xad4a, 0xbcc3, 0x8e58, 0x9fd1, 0xeb6e, 0xfae7, 0xc87c, 0xd9f5,
     0x3183, 0x200a, 0x1291, 0x0318, 0x77a7, 0x662e, 0x54b5, 0x453c,
     0xbdcb, 0xac42, 0x9ed9, 0x8f50, 0xfbef, 0xea66, 0xd8fd, 0xc974,
     0x4204, 0x538d, 0x6116, 0x709f, 0x0420, 0x15a9, 0x2732, 0x36bb,
     0xce4c, 0xdfc5, 0xed5e, 0xfcd7, 0x8868, 0x99e1, 0xab7a, 0xbaf3,
     0x5285, 0x430c, 0x7197, 0x601e, 0x14a1, 0x0528, 0x37b3, 0x263a,
     0xdecd, 0xcf44, 0xfddf, 0xec56, 0x98e9, 0x8960, 0xbbfb, 0xaa72,
     0x6306, 0x728f, 0x4014, 0x519d, 0x2522, 0x34ab, 0x0630, 0x17b9,
     0xef4e, 0xfec7, 0xcc5c, 0xddd5, 0xa96a, 0xb8e3, 0x8a78, 0x9bf1,
     0x7387, 0x620e, 0x5095, 0x411c, 0x35a3, 0x242a, 0x16b1, 0x0738,
     0xffcf, 0xee46, 0xdcdd, 0xcd54, 0xb9eb, 0xa862, 0x9af9, 0x8b70,
     0x8408, 0x9581, 0xa71a, 0xb693, 0xc22c, 0xd3a5, 0xe13e, 0xf0b7,
     0x0840, 0x19c9, 0x2b52, 0x3adb, 0x4e64, 0x5fed, 0x6d76, 0x7cff,
     0x9489, 0x8500, 0xb79b, 0xa612, 0xd2ad, 0xc324, 0xf1bf, 0xe036,
     0x18c1, 0x0948, 0x3bd3, 0x2a5a, 0x5ee5, 0x4f6c, 0x7df7, 0x6c7e,
     0xa50a, 0xb483, 0x8618, 0x9791, 0xe32e, 0xf2a7, 0xc03c, 0xd1b5,
     0x2942, 0x38cb, 0x0a50, 0x1bd9, 0x6f66, 0x7eef, 0x4c74, 0x5dfd,
     0xb58b, 0xa402, 0x9699, 0x8710, 0xf3af, 0xe226, 0xd0bd, 0xc134,
     0x39c3, 0x284a, 0x1ad1, 0x0b58, 0x7fe7, 0x6e6e, 0x5cf5, 0x4d7c,
     0xc60c, 0xd785, 0xe51e, 0xf497, 0x8028, 0x91a1, 0xa33a, 0xb2b3,
     0x4a44, 0x5bcd, 0x6956, 0x78df, 0x0c60, 0x1de9, 0x2f72, 0x3efb,
     0xd68d, 0xc704, 0xf59f, 0xe416, 0x90a9, 0x8120, 0xb3bb, 0xa232,
     0x5ac5, 0x4b4c, 0x79d7, 0x685e, 0x1ce1, 0x0d68, 0x3ff3, 0x2e7a,
     0xe70e, 0xf687, 0xc41c, 0xd595, 0xa12a, 0xb0a3, 0x8238, 0x93b1,
     0x6b46, 0x7acf, 0x4854, 0x59dd, 0x2d62, 0x3ceb, 0x0e70, 0x1ff9,
     0xf78f, 0xe606, 0xd49d, 0xc514, 0xb1ab, 0xa022, 0x92b9, 0x8330,
     0x7bc7, 0x6a4e, 0x58d5, 0x495c, 0x3de3, 0x2c6a, 0x1ef1, 0x0f78]"

text \<open>
  \<open>updateFCS\<close> folds the table over the range; the bit generator is the one of the \<open>#if 0\<close>
  program at the end of the file.
\<close>

definition fcs_octet :: "u16 \<Rightarrow> u8 \<Rightarrow> u16" where
  "fcs_octet val b =
     ((drop_bit 8 val AND 0xff) XOR fcstab ! unat ((val XOR ucast b) AND 0xff))"

fun updateFCS :: "u16 \<Rightarrow> u8 list \<Rightarrow> u16" where
  "updateFCS val [] = val"
| "updateFCS val (b # buf) = updateFCS (fcs_octet val b) buf"

definition ioHdlcFcsInit :: "u16 option \<Rightarrow> u16 option" where
  "ioHdlcFcsInit crc = (case crc of None \<Rightarrow> None | Some _ \<Rightarrow> Some 0xFFFF)"

definition ioHdlcFcsUpdate :: "u16 option \<Rightarrow> u8 list \<Rightarrow> u16 option" where
  "ioHdlcFcsUpdate crc buf = (case crc of None \<Rightarrow> None | Some c \<Rightarrow> Some (updateFCS c buf))"

definition ioHdlcFcsFinalize :: "u16 \<Rightarrow> u16" where
  "ioHdlcFcsFinalize crc = crc XOR 0xFFFF"

definition ioHdlcComputeFCS :: "u8 list \<Rightarrow> u16" where
  "ioHdlcComputeFCS buf = ioHdlcFcsFinalize (updateFCS 0xFFFF buf)"

definition ioHdlcFrameAddFCS_at :: "u8 list \<Rightarrow> nat \<Rightarrow> u8 list option" where
  "ioHdlcFrameAddFCS_at frame offset =
     (if offset + 1 < length frame then
        let crc = ioHdlcFcsFinalize (updateFCS 0xFFFF (take offset frame))
        in Some (frame[offset := ucast (crc AND 0xff), offset + 1 := ucast (drop_bit 8 crc)])
      else None)"

definition ioHdlcFrameCheckFCS_at :: "u8 list \<Rightarrow> nat \<Rightarrow> bool option" where
  "ioHdlcFrameCheckFCS_at frame total_len =
     (if total_len \<le> length frame
      then Some (updateFCS 0xFFFF (take total_len frame) = 0xf0b8) else None)"

definition fcs_gen_step :: "u16 \<Rightarrow> u16" where
  "fcs_gen_step v = (if v AND 1 \<noteq> 0 then drop_bit 1 v XOR 0x8408 else drop_bit 1 v)"

definition fcs_gen :: "u16 \<Rightarrow> u16" where
  "fcs_gen v = (fcs_gen_step ^^ 8) v"

text \<open>The two octets in which a 16-bit FCS is put on the wire, low octet first.\<close>

definition fcs_octets :: "u16 \<Rightarrow> u8 list" where
  "fcs_octets crc = [ucast (crc AND 0xff), ucast (drop_bit 8 crc)]"

section \<open>Transparency\<close>

function enc_loop :: "u8 list \<Rightarrow> nat \<Rightarrow> nat \<Rightarrow> u8 list \<Rightarrow> nat \<Rightarrow> bool
    \<Rightarrow> (u8 list \<times> nat \<times> bool) option" where
  "enc_loop src n i dst j encoded =
     (if i < n then
        if length src \<le> i \<or> length dst \<le> j then None
        else if src ! i = IOHDLC_FLAG \<or> src ! i = IOHDLC_CTLESC then
          if length dst \<le> j + 1 then None
          else enc_loop src n (i + 1)
                 (dst[j := IOHDLC_CTLESC, j + 1 := src ! i XOR IOHDLC_TMASK]) (j + 2) True
        else enc_loop src n (i + 1) (dst[j := src ! i]) (j + 1) encoded
      else Some (dst, j, encoded))"
  by pat_completeness auto
termination
  by (relation "measure (\<lambda>(src, n, i, dst, j, e). n - i)") auto

declare enc_loop.simps [simp del]

definition ioHdlcFrameTransparentEncode ::
    "u8 list \<Rightarrow> u8 list \<Rightarrow> u16 \<Rightarrow> (u8 list \<times> u16 \<times> bool) option" where
  "ioHdlcFrameTransparentEncode dst src src_elen =
     (case enc_loop src (unat src_elen) 0 dst 0 False of
        None \<Rightarrow> None
      | Some (dst', j, encoded) \<Rightarrow> Some (dst', word_of_nat j, encoded))"

text \<open>
  The driver decodes in place (\<open>dst = src\<close>), so the loop reads from the buffer it writes.
\<close>

function dec_loop :: "u8 list \<Rightarrow> nat \<Rightarrow> nat \<Rightarrow> nat \<Rightarrow> (u8 list \<times> nat) option" where
  "dec_loop buf n i j =
     (if i < n then
        if length buf \<le> i then None
        else if buf ! i = IOHDLC_CTLESC then
          if length buf \<le> i + 1 then None
          else dec_loop (buf[j := buf ! (i + 1) XOR IOHDLC_TMASK]) n (i + 2) (j + 1)
        else dec_loop (buf[j := buf ! i]) n (i + 1) (j + 1)
      else Some (buf, j))"
  by pat_completeness auto
termination
  by (relation "measure (\<lambda>(buf, n, i, j). n - i)") auto

declare dec_loop.simps [simp del]

definition ioHdlcFrameTransparentDecode :: "u8 list \<Rightarrow> u16 \<Rightarrow> (u8 list \<times> u16) option" where
  "ioHdlcFrameTransparentDecode buf elen =
     (case dec_loop buf (unat elen) 0 0 of
        None \<Rightarrow> None
      | Some (buf', j) \<Rightarrow> Some (buf', word_of_nat j))"

text \<open>Reference definitions: stuffing and unstuffing of octet strings.\<close>

fun stuff :: "u8 list \<Rightarrow> u8 list" where
  "stuff [] = []"
| "stuff (b # bs) =
     (if b = IOHDLC_FLAG \<or> b = IOHDLC_CTLESC
      then IOHDLC_CTLESC # (b XOR IOHDLC_TMASK) # stuff bs
      else b # stuff bs)"

fun unstuff :: "u8 list \<Rightarrow> u8 list" where
  "unstuff [] = []"
| "unstuff [b] = [b]"
| "unstuff (b # c # bs) =
     (if b = IOHDLC_CTLESC then (c XOR IOHDLC_TMASK) # unstuff bs else b # unstuff (c # bs))"

section \<open>The table and the generator\<close>

lemma fcs_gen_step_if: "fcs_gen_step v = drop_bit 1 v XOR (if bit v 0 then 0x8408 else 0)"
  by (simp add: fcs_gen_step_def and_one_eq bit_0 odd_iff_mod_2_eq_one)
lemma fcs_gen_step_xor: "fcs_gen_step (x XOR y) = fcs_gen_step x XOR fcs_gen_step y"
  by (auto simp: fcs_gen_step_if bit_xor_iff ac_simps)
lemma fcs_gen_steps_xor:
  "(fcs_gen_step ^^ n) (x XOR y) = (fcs_gen_step ^^ n) x XOR (fcs_gen_step ^^ n) y"
  by (induction n) (simp_all add: fcs_gen_step_xor)
lemma fcs_gen_xor: "fcs_gen (x XOR y) = fcs_gen x XOR fcs_gen y"
  by (simp add: fcs_gen_def fcs_gen_steps_xor)

lemma fcs_gen_unfold: "fcs_gen v = (let s = fcs_gen_step in s (s (s (s (s (s (s (s v))))))))"
  by (simp add: fcs_gen_def numeral_eq_Suc)
lemma fcs_gen_pows:
  "fcs_gen 0 = 0" "fcs_gen 1 = 0x1189" "fcs_gen 2 = 0x2312" "fcs_gen 4 = 0x4624" "fcs_gen 8 = 0x8c48"
  "fcs_gen 16 = 0x1081" "fcs_gen 32 = 0x2102" "fcs_gen 64 = 0x4204" "fcs_gen 128 = 0x8408"
  by (simp_all add: fcs_gen_unfold fcs_gen_step_def)

definition gen_tab :: "nat \<Rightarrow> u16 list" where
  "gen_tab n = map (\<lambda>i. fcs_gen (word_of_nat i)) [0..<n]"

lemma word_of_nat_pow_xor:
  assumes "i < 2 ^ k"
  shows "(word_of_nat (2 ^ k + i) :: 'a::len word) = word_of_nat (2 ^ k) XOR word_of_nat i"
proof -
  have i: "take_bit k i = i"
    using assms by (simp add: take_bit_nat_eq_self)
  have "word_of_nat (2 ^ k) AND (word_of_nat i :: 'a word) = 0"
  proof (rule bit_word_eqI)
    fix n assume "n < LENGTH('a)"
    have "bit i n \<Longrightarrow> n < k" using i by (metis bit_take_bit_iff)
    then show "bit (word_of_nat (2 ^ k) AND (word_of_nat i :: 'a word)) n = bit (0 :: 'a word) n"
      by (auto simp: bit_simps)
  qed
  then show ?thesis by (simp add: disjunctive_add_eq_xor)
qed
lemma gen_tab_double:
  assumes "k < 16"
  shows "gen_tab (2 ^ k + 2 ^ k) = gen_tab (2 ^ k) @ map (\<lambda>x. fcs_gen (2 ^ k) XOR x) (gen_tab (2 ^ k))"
proof -
  have "[0..<2 ^ k + 2 ^ k] = [0..<2 ^ k] @ map (\<lambda>i. 2 ^ k + i) [0..<(2::nat) ^ k]"
    by (rule nth_equalityI) (auto simp: nth_append)
  then show ?thesis
    by (simp add: gen_tab_def word_of_nat_pow_xor fcs_gen_xor comp_def del: of_nat_add)
qed
lemma gen_tab_256: "gen_tab 256 = fcstab"
proof -
  have 1: "gen_tab 1 = [0]" by (simp add: gen_tab_def fcs_gen_pows)
  note d = gen_tab_double [of 0] gen_tab_double [of 1] gen_tab_double [of 2] gen_tab_double [of 3]
    gen_tab_double [of 4] gen_tab_double [of 5] gen_tab_double [of 6] gen_tab_double [of 7]
  have 2: "gen_tab 2 = take 2 fcstab" using gen_tab_double [of 0] 1 by (simp add: fcs_gen_pows fcstab_def numeral_2_eq_2)
  have 4: "gen_tab 4 = take 4 fcstab" using gen_tab_double [of 1] 2 by (simp add: fcs_gen_pows fcstab_def)
  have 8: "gen_tab 8 = take 8 fcstab" using gen_tab_double [of 2] 4 by (simp add: fcs_gen_pows fcstab_def)
  have 16: "gen_tab 16 = take 16 fcstab" using gen_tab_double [of 3] 8 by (simp add: fcs_gen_pows fcstab_def)
  have 32: "gen_tab 32 = take 32 fcstab" using gen_tab_double [of 4] 16 by (simp add: fcs_gen_pows fcstab_def)
  have 64: "gen_tab 64 = take 64 fcstab" using gen_tab_double [of 5] 32 by (simp add: fcs_gen_pows fcstab_def)
  have 128: "gen_tab 128 = take 128 fcstab" using gen_tab_double [of 6] 64 by (simp add: fcs_gen_pows fcstab_def)
  show ?thesis using gen_tab_double [of 7] 128 by (simp add: fcs_gen_pows fcstab_def)
qed

text \<open>C24: the table stored in the source is the table its generator program computes: entry
  \<open>i\<close> is eight steps of the reflected polynomial division started from \<open>i\<close>.\<close>

theorem fcstab_is_generated: "fcstab = map (\<lambda>i. fcs_gen (word_of_nat i)) [0..<256]"
  by (simp only: gen_tab_256 [symmetric] gen_tab_def)

lemma fcstab_nth: "w < 256 \<Longrightarrow> fcstab ! unat w = fcs_gen (w :: u16)"
proof -
  assume w: "w < 256"
  then have "unat w < 256" by (simp add: word_less_nat_alt)
  then show ?thesis
    by (simp flip: gen_tab_256 add: gen_tab_def)
qed

lemma fcs_gen_steps_push:
  "n \<le> 8 \<Longrightarrow> (fcs_gen_step ^^ n) (push_bit 8 (ucast (b::u8))) = push_bit (8 - n) (ucast b)"
proof (induction n)
  case (Suc n)
  have "fcs_gen_step (push_bit (8 - n) (ucast b)) = push_bit (8 - Suc n) (ucast b)"
    using Suc.prems
    by (intro bit_word_eqI) (auto simp: fcs_gen_step_if bit_simps dest: bit_imp_le_length)
  with Suc show ?case by simp
qed simp

lemma fcs_gen_push: "fcs_gen (push_bit 8 (ucast (b::u8))) = ucast b"
  using fcs_gen_steps_push [of 8 b] by (simp add: fcs_gen_def)

lemma mask_u16_ff: "(0xff :: u16) = mask 8"
  by (simp add: mask_eq_exp_minus_1)

lemma word16_split: "push_bit 8 (ucast (ucast (drop_bit 8 x) :: u8)) XOR (x AND 0xff) = (x :: u16)"
  unfolding mask_u16_ff by (rule bit_word_eqI) (auto simp: bit_simps dest: le_Suc_ex)

lemma fcs_gen_split: "fcs_gen x = drop_bit 8 x XOR fcs_gen (x AND 0xff)"
proof -
  have "fcs_gen x = fcs_gen (push_bit 8 (ucast (ucast (drop_bit 8 x) :: u8)) XOR (x AND 0xff))"
    by (simp only: word16_split)
  also have "\<dots> = ucast (ucast (drop_bit 8 x) :: u8) XOR fcs_gen (x AND 0xff)"
    by (simp only: fcs_gen_xor fcs_gen_push)
  also have "(ucast (ucast (drop_bit 8 x) :: u8) :: u16) = drop_bit 8 x"
    by (rule bit_word_eqI) (auto simp: bit_simps dest: bit_imp_le_length)
  finally show ?thesis .
qed

lemma fcs_octet_gen: "fcs_octet val b = fcs_gen (val XOR ucast b)"
proof -
  have d: "drop_bit 8 (val XOR ucast b) = drop_bit 8 val AND 0xff" (is "?l = ?r")
    unfolding mask_u16_ff
    by (rule bit_word_eqI) (auto simp: bit_simps dest: bit_imp_le_length)
  have "(val XOR ucast b) AND 0xff < 256"
    unfolding mask_u16_ff by (rule and_mask_less_size [of 8, simplified]) (simp add: word_size)
  then show ?thesis
    by (subst fcs_gen_split) (simp add: fcs_octet_def fcstab_nth d del: drop_bit_xor)
qed

lemma updateFCS_append: "updateFCS c (xs @ ys) = updateFCS (updateFCS c xs) ys"
  by (induction xs arbitrary: c) auto

lemma updateFCS_xor:
  "length xs = length ys \<Longrightarrow>
   updateFCS (c XOR d) (map2 (XOR) xs ys) = updateFCS c xs XOR updateFCS d ys"
proof (induction xs ys arbitrary: c d rule: list_induct2)
  case (Cons x xs y ys)
  have "fcs_octet (c XOR d) (x XOR y) = fcs_octet c x XOR fcs_octet d y"
    by (simp add: fcs_octet_gen unsigned_xor_eq ac_simps flip: fcs_gen_xor)
  with Cons.IH show ?case by simp
qed simp

lemma fcs_gen_step_zero: "fcs_gen_step x = 0 \<Longrightarrow> x = 0"
proof -
  assume h: "fcs_gen_step x = 0"
  have "bit (fcs_gen_step x) 15 = bit x 0"
    by (auto simp: fcs_gen_step_if bit_simps dest: bit_imp_le_length)
  with h have b0: "\<not> bit x 0" by simp
  with h have "drop_bit 1 x = 0" by (simp add: fcs_gen_step_if)
  then have bS: "\<not> bit x (Suc n)" for n
    by (cases "n < 16") (auto simp: bit_eq_iff bit_drop_bit_eq dest: bit_imp_le_length)
  show "x = 0"
  proof (rule bit_word_eqI)
    fix n show "bit x n = bit (0 :: u16) n"
      using b0 bS by (cases n) simp_all
  qed
qed

lemma fcs_gen_steps_zero: "(fcs_gen_step ^^ n) x = 0 \<Longrightarrow> x = 0"
  by (induction n) (auto dest: fcs_gen_step_zero)

lemma fcs_gen_zero_iff: "fcs_gen x = 0 \<longleftrightarrow> x = 0"
  using fcs_gen_steps_zero [of 8 x] by (auto simp: fcs_gen_def fcs_gen_pows(1) [unfolded fcs_gen_def])

lemma word_xor_eq_0: "(x :: 'a::len word) XOR y = 0 \<longleftrightarrow> x = y"
  by (metis xor.assoc xor.left_neutral xor.right_neutral xor_self_eq)

lemma word_xor_shift: "(c :: 'a::len word) XOR w = d \<longleftrightarrow> w = c XOR d"
  by (auto simp flip: xor.assoc)

lemma fcs_gen_inj: "fcs_gen x = fcs_gen y \<longleftrightarrow> x = y"
proof -
  have "fcs_gen (x XOR y) = 0 \<longleftrightarrow> x XOR y = 0" by (rule fcs_gen_zero_iff)
  then show ?thesis by (simp add: fcs_gen_xor word_xor_eq_0)
qed

lemma updateFCS_two:
  "updateFCS c [a, b] = fcs_gen (fcs_gen (c XOR (ucast a XOR push_bit 8 (ucast b))))"
  by (simp add: fcs_octet_gen fcs_gen_xor fcs_gen_push xor.assoc)

lemma fcs_octets_join:
  "(ucast (ucast (crc AND 0xff) :: u8) XOR push_bit 8 (ucast (ucast (drop_bit 8 crc) :: u8)) :: u16) = crc"
  unfolding mask_u16_ff by (rule bit_word_eqI) (auto simp: bit_simps dest: le_Suc_ex)

lemma fcs_residue_const: "fcs_gen (fcs_gen 0xFFFF) = 0xf0b8"
  by (simp add: fcs_gen_unfold fcs_gen_step_def)

lemma octet_pair_eq:
  "(ucast (a :: u8) XOR push_bit 8 (ucast (b :: u8)) :: u16) = crc \<longleftrightarrow> [a, b] = fcs_octets crc"
proof
  assume h: "ucast a XOR push_bit 8 (ucast b) = crc"
  have "ucast (crc AND 0xff) = a" "ucast (drop_bit 8 crc) = b"
    unfolding h [symmetric] mask_u16_ff
    by (rule bit_word_eqI; auto simp: bit_simps dest: bit_imp_le_length)+
  then show "[a, b] = fcs_octets crc" by (simp add: fcs_octets_def)
next
  assume "[a, b] = fcs_octets crc"
  then show "ucast a XOR push_bit 8 (ucast b) = crc"
    using fcs_octets_join [of crc] by (simp add: fcs_octets_def)
qed

lemma updateFCS_check_iff:
  "updateFCS c [a, b] = 0xf0b8 \<longleftrightarrow> [a, b] = fcs_octets (ioHdlcFcsFinalize c)"
proof -
  have "updateFCS c [a, b] = 0xf0b8
      \<longleftrightarrow> c XOR (ucast a XOR push_bit 8 (ucast b)) = 0xFFFF"
    by (simp only: updateFCS_two fcs_residue_const [symmetric] fcs_gen_inj)
  also have "\<dots> \<longleftrightarrow> ucast a XOR push_bit 8 (ucast b) = c XOR 0xFFFF"
    by (rule word_xor_shift)
  finally show ?thesis by (simp only: octet_pair_eq ioHdlcFcsFinalize_def)
qed

lemma updateFCS_zeros_nonzero: "c \<noteq> 0 \<Longrightarrow> updateFCS c (replicate n 0) \<noteq> 0"
  by (induction n arbitrary: c) (auto simp: fcs_octet_gen fcs_gen_zero_iff)

lemma updateFCS_zeros_zero: "updateFCS 0 (replicate n 0) = 0"
  by (induction n) (auto simp: fcs_octet_gen fcs_gen_pows)

lemma updateFCS_pair_nonzero:
  assumes "a \<noteq> 0 \<or> b \<noteq> (0 :: u8)"
  shows "updateFCS 0 [a, b] \<noteq> 0"
proof
  assume "updateFCS 0 [a, b] = 0"
  then have "ucast a XOR push_bit 8 (ucast b) = (0 :: u16)"
    by (simp only: updateFCS_two fcs_gen_zero_iff xor.left_neutral)
  then have "[a, b] = fcs_octets 0" by (simp add: octet_pair_eq)
  with assms show False by (simp add: fcs_octets_def)
qed

section \<open>Check sequence properties\<close>

lemma fcs_check_append:
  "updateFCS c (xs @ [a, b]) = 0xf0b8 \<longleftrightarrow> [a, b] = fcs_octets (ioHdlcFcsFinalize (updateFCS c xs))"
  by (simp only: updateFCS_append updateFCS_check_iff)

text \<open>C18: a frame to which the FCS has been appended passes the check over payload and FCS, the
  payload is untouched, and among all pairs of trailing octets only that FCS passes.\<close>

theorem fcs_append_accepted:
  assumes "ioHdlcFrameAddFCS_at frame off = Some frame'"
  shows "ioHdlcFrameCheckFCS_at frame' (off + 2) = Some True
    \<and> take off frame' = take off frame \<and> length frame' = length frame
    \<and> (\<forall>a b rest. ioHdlcFrameCheckFCS_at (take off frame @ [a, b] @ rest) (off + 2)
         = Some ([a, b] = fcs_octets (ioHdlcComputeFCS (take off frame))))"
proof -
  have off: "off + 1 < length frame"
    using assms by (simp add: ioHdlcFrameAddFCS_at_def split: if_splits)
  let ?crc = "ioHdlcComputeFCS (take off frame)"
  obtain lo hi where lh: "fcs_octets ?crc = [lo, hi]" by (simp add: fcs_octets_def)
  have f': "frame' = frame[off := lo, off + 1 := hi]"
    using assms off lh
    by (simp add: ioHdlcFrameAddFCS_at_def ioHdlcComputeFCS_def fcs_octets_def Let_def)
  have t: "take (off + 2) frame' = take off frame @ [lo, hi]"
    using off by (simp add: f' take_Suc_conv_app_nth)
  have chk: "ioHdlcFrameCheckFCS_at (take off frame @ [a, b] @ rest) (off + 2)
      = Some ([a, b] = fcs_octets ?crc)" for a b rest
  proof -
    have "take (off + 2) (take off frame @ [a, b] @ rest) = take off frame @ [a, b]"
      using off by simp
    then show ?thesis
      using off by (simp add: ioHdlcFrameCheckFCS_at_def fcs_check_append ioHdlcComputeFCS_def)
  qed
  have "frame' = take off frame @ [lo, hi] @ drop (off + 2) frame'"
    using t by (metis append.assoc append_take_drop_id)
  then have "ioHdlcFrameCheckFCS_at frame' (off + 2) = Some True"
    using chk [of lo hi "drop (off + 2) frame'"] lh by simp
  then show ?thesis using chk by (simp add: f')
qed

theorem fcs_append_accepted_witness:
  "ioHdlcFrameCheckFCS_at [1, 3, 4, 0x24, 0] 4 = Some True"
proof -
  have "ioHdlcFrameAddFCS_at [1, 3, 0, 0, 0] 2
      = Some [1, 3, ucast (ioHdlcComputeFCS [1, 3] AND 0xff), ucast (drop_bit 8 (ioHdlcComputeFCS [1, 3])), 0]"
    by (simp add: ioHdlcFrameAddFCS_at_def ioHdlcComputeFCS_def Let_def)
  from fcs_append_accepted [OF this] show ?thesis
    by (simp add: ioHdlcComputeFCS_def ioHdlcFcsFinalize_def fcs_octet_gen fcs_gen_unfold fcs_gen_step_def
        fcs_octets_def)
qed

lemma updateFCS_same_start:
  assumes "length xs = length ys"
  shows "updateFCS c xs = updateFCS c ys \<longleftrightarrow> updateFCS 0 (map2 (XOR) xs ys) = 0"
  using updateFCS_xor [OF assms, of c c] by (simp add: word_xor_eq_0)

lemma map2_xor_same: "map2 (XOR) xs xs = replicate (length xs) (0 :: u8)"
  by (induction xs) auto

text \<open>C23: an error confined to two consecutive octets of an otherwise valid frame is always
  detected, whatever the octets around it.\<close>

theorem fcs_detects_double_octet_error:
  assumes "ioHdlcFrameCheckFCS_at (xs @ [a, b] @ ys) (length (xs @ [a, b] @ ys)) = Some True"
    and "[a', b'] \<noteq> [a, b]"
  shows "ioHdlcFrameCheckFCS_at (xs @ [a', b'] @ ys) (length (xs @ [a', b'] @ ys)) = Some False"
proof -
  let ?d = "updateFCS 0 [a XOR a', b XOR b']"
  have "?d \<noteq> 0"
    using assms(2) by (intro updateFCS_pair_nonzero) (auto simp: word_xor_eq_0)
  then have "updateFCS 0 (map2 (XOR) (xs @ [a, b] @ ys) (xs @ [a', b'] @ ys)) \<noteq> 0"
    by (simp add: map2_xor_same updateFCS_append updateFCS_zeros_zero updateFCS_zeros_nonzero
        del: updateFCS.simps flip: append_Cons)
  then have "updateFCS 0xFFFF (xs @ [a, b] @ ys) \<noteq> updateFCS 0xFFFF (xs @ [a', b'] @ ys)"
    by (subst updateFCS_same_start) simp_all
  with assms(1) show ?thesis by (simp add: ioHdlcFrameCheckFCS_at_def)
qed

theorem fcs_detects_double_octet_error_witness:
  "ioHdlcFrameCheckFCS_at [1, 7, 9, 0x24] 4 = Some False"
proof -
  have "ioHdlcFrameCheckFCS_at ([1] @ [3, 4] @ [0x24]) (length ([1] @ [3, 4] @ [0x24 :: u8])) = Some True"
    by (simp add: ioHdlcFrameCheckFCS_at_def fcs_octet_gen fcs_gen_unfold fcs_gen_step_def)
  moreover have "length ([1] @ [7, 9] @ [0x24 :: u8]) = 4"
    by simp
  ultimately show ?thesis
    using fcs_detects_double_octet_error [of "[1]" 3 4 "[0x24]" 7 9] by (simp only:) simp
qed

section \<open>Transparency properties\<close>

lemma esc_roundtrip: "(b XOR IOHDLC_TMASK) XOR IOHDLC_TMASK = b"
  by (simp add: xor.assoc)

lemma unstuff_stuff: "unstuff (stuff bs) = bs"
proof (induction bs)
  case (Cons b bs)
  then show ?case
    by (cases "stuff bs") (auto simp: esc_roundtrip)
qed simp

lemma length_stuff: "length (stuff bs) \<le> 2 * length bs"
  by (induction bs) auto

lemma length_stuff_ge: "length bs \<le> length (stuff bs)"
  by (induction bs) auto

lemma stuff_append: "stuff (xs @ ys) = stuff xs @ stuff ys"
  by (induction xs) auto

lemma stuff_no_flag: "IOHDLC_FLAG \<notin> set (stuff bs)"
  by (induction bs) (auto simp: ll_consts)

lemma take_two_updates:
  "j + 1 < length xs \<Longrightarrow> take (j + 2) (xs[j := a, j + 1 := b]) = take j xs @ [a, b]"
  by (simp add: take_Suc_conv_app_nth)

lemma enc_loop_stuff:
  assumes "i \<le> n" "n \<le> length src"
    and "j + length (stuff (drop i (take n src))) \<le> length dst"
  shows "\<exists>e'. enc_loop src n i dst j e = Some (take j dst @ stuff (drop i (take n src))
      @ drop (j + length (stuff (drop i (take n src)))) dst,
      j + length (stuff (drop i (take n src))), e')"
  using assms
proof (induction src n i dst j e rule: enc_loop.induct)
  case (1 src n i dst j e)
  show ?case
  proof (cases "i < n")
    case False
    then show ?thesis using "1.prems" by (subst enc_loop.simps) simp
  next
    case True
    then have d: "drop i (take n src) = src ! i # drop (i + 1) (take n src)"
      using "1.prems" by (metis Cons_nth_drop_Suc Suc_eq_plus1 length_take min.absorb2 nth_take)
    show ?thesis
    proof (cases "src ! i = IOHDLC_FLAG \<or> src ! i = IOHDLC_CTLESC")
      case esc: True
      let ?dst = "dst[j := IOHDLC_CTLESC, j + 1 := src ! i XOR IOHDLC_TMASK]"
      have len: "j + 2 + length (stuff (drop (i + 1) (take n src))) \<le> length dst"
        using "1.prems"(3) d esc by auto
      have t: "take (j + 2) ?dst = take j dst @ [IOHDLC_CTLESC, src ! i XOR IOHDLC_TMASK]"
        using len by (intro take_two_updates) simp
      from "1.IH"(1) [OF True _ esc] len "1.prems" True
      obtain e' where "enc_loop src n (i + 1) ?dst (j + 2) True
        = Some (take (j + 2) ?dst @ stuff (drop (i + 1) (take n src))
          @ drop (j + 2 + length (stuff (drop (i + 1) (take n src)))) ?dst,
          j + 2 + length (stuff (drop (i + 1) (take n src))), e')"
        by auto
      with True esc d len "1.prems" show ?thesis
        by (subst enc_loop.simps) (auto simp: t [simplified])
    next
      case raw: False
      let ?dst = "dst[j := src ! i]"
      have len: "j + 1 + length (stuff (drop (i + 1) (take n src))) \<le> length dst"
        using "1.prems"(3) d raw by auto
      have t: "take (j + 1) ?dst = take j dst @ [src ! i]"
        using len by (simp add: take_Suc_conv_app_nth)
      from "1.IH"(2) [OF True _ raw] len "1.prems" True
      obtain e' where "enc_loop src n (i + 1) ?dst (j + 1) e
        = Some (take (j + 1) ?dst @ stuff (drop (i + 1) (take n src))
          @ drop (j + 1 + length (stuff (drop (i + 1) (take n src)))) ?dst,
          j + 1 + length (stuff (drop (i + 1) (take n src))), e')"
        by auto
      with True raw d len "1.prems" show ?thesis
        by (subst enc_loop.simps) (auto simp: t [simplified])
    qed
  qed
qed

lemma dec_loop_stuff:
  assumes "j \<le> i" "n \<le> length buf" "i \<le> n" "drop i (take n buf) = stuff xs"
  shows "\<exists>buf'. dec_loop buf n i j = Some (buf', j + length xs)
    \<and> take (j + length xs) buf' = take j buf @ xs \<and> length buf' = length buf
    \<and> drop n buf' = drop n buf"
  using assms
proof (induction xs arbitrary: buf i j)
  case Nil
  then have "n \<le> i" by (metis drop_eq_Nil length_take min.absorb2 stuff.simps(1))
  with Nil show ?case by (subst dec_loop.simps) simp
next
  case (Cons x xs)
  from Cons.prems have lt: "i < n" by (metis drop_eq_Nil2 length_take linorder_not_le min.absorb2
        length_0_conv length_stuff_ge length_Cons le_zero_eq nat.distinct(1))
  then have d: "drop i (take n buf) = buf ! i # drop (i + 1) (take n buf)"
    using Cons.prems by (metis Cons_nth_drop_Suc Suc_eq_plus1 length_take min.absorb2 nth_take)
  show ?case
  proof (cases "x = IOHDLC_FLAG \<or> x = IOHDLC_CTLESC")
    case True
    then have b: "buf ! i = IOHDLC_CTLESC"
      and r: "drop (i + 1) (take n buf) = (x XOR IOHDLC_TMASK) # stuff xs"
      using d Cons.prems(4) by auto
    have lt2: "i + 1 < n" using r by (metis drop_eq_Nil2 length_take leI min.absorb2 Cons.prems(2) list.distinct(1))
    then have "drop (i + 1) (take n buf) = buf ! (i + 1) # drop (i + 2) (take n buf)"
      using Cons.prems by (metis Cons_nth_drop_Suc add_2_eq_Suc' Suc_eq_plus1 length_take min.absorb2 nth_take)
    with r have b2: "buf ! (i + 1) = x XOR IOHDLC_TMASK"
      and r2: "drop (i + 2) (take n buf) = stuff xs" by auto
    let ?buf = "buf[j := x]"
    have "drop (i + 2) (take n ?buf) = stuff xs"
      using r2 Cons.prems(1) by (simp add: take_update_swap drop_update_cancel)
    from Cons.IH [OF _ _ _ this, of "j + 1"] Cons.prems lt2
    obtain buf' where "dec_loop ?buf n (i + 2) (j + 1) = Some (buf', j + 1 + length xs)"
      "take (j + 1 + length xs) buf' = take (j + 1) ?buf @ xs"
      "length buf' = length ?buf" "drop n buf' = drop n ?buf" by auto
    with b b2 lt lt2 Cons.prems show ?thesis
      by (subst dec_loop.simps) (auto simp: esc_roundtrip take_Suc_conv_app_nth)
  next
    case False
    then have b: "buf ! i = x" "x \<noteq> IOHDLC_CTLESC"
      and r: "drop (i + 1) (take n buf) = stuff xs"
      using d Cons.prems(4) by auto
    let ?buf = "buf[j := x]"
    have "drop (i + 1) (take n ?buf) = stuff xs"
      using r Cons.prems(1) by (simp add: take_update_swap drop_update_cancel)
    from Cons.IH [OF _ _ _ this, of "j + 1"] Cons.prems lt
    obtain buf' where "dec_loop ?buf n (i + 1) (j + 1) = Some (buf', j + 1 + length xs)"
      "take (j + 1 + length xs) buf' = take (j + 1) ?buf @ xs"
      "length buf' = length ?buf" "drop n buf' = drop n ?buf" by auto
    with b lt Cons.prems show ?thesis
      by (subst dec_loop.simps) (auto simp: take_Suc_conv_app_nth)
  qed
qed

text \<open>C19: with a destination of twice the payload, the encoder succeeds, its output holds no flag
  octet, and the in-place decoder run on it gives back exactly the payload.\<close>

theorem transparency_roundtrip:
  assumes "unat n \<le> length src" "2 * unat n \<le> length dst" "length dst < 65536"
  shows "\<exists>dst' m e dst''. ioHdlcFrameTransparentEncode dst src n = Some (dst', m, e)
    \<and> length dst' = length dst \<and> take (unat m) dst' = stuff (take (unat n) src)
    \<and> IOHDLC_FLAG \<notin> set (take (unat m) dst')
    \<and> ioHdlcFrameTransparentDecode dst' m = Some (dst'', n)
    \<and> take (unat n) dst'' = take (unat n) src"
proof -
  let ?p = "take (unat n) src"
  have p: "length ?p = unat n" using assms(1) by simp
  have le: "length (stuff ?p) \<le> length dst"
    using length_stuff [of ?p] assms(2) p by linarith
  from enc_loop_stuff [of 0 "unat n" src 0 dst False] assms(1) le
  obtain e where enc: "enc_loop src (unat n) 0 dst 0 False
      = Some (stuff ?p @ drop (length (stuff ?p)) dst, length (stuff ?p), e)"
    by auto
  let ?m = "word_of_nat (length (stuff ?p)) :: u16"
  have m: "unat ?m = length (stuff ?p)"
    using le assms(3) by (simp add: unsigned_of_nat take_bit_nat_eq_self)
  let ?dst = "stuff ?p @ drop (length (stuff ?p)) dst"
  from dec_loop_stuff [of 0 0 "unat ?m" ?dst ?p] m
  obtain b' where "dec_loop ?dst (unat ?m) 0 0 = Some (b', length ?p)" "take (length ?p) b' = ?p"
    by auto
  then have "ioHdlcFrameTransparentDecode ?dst ?m = Some (b', n) \<and> take (unat n) b' = ?p"
    using p by (simp add: ioHdlcFrameTransparentDecode_def)
  moreover have "ioHdlcFrameTransparentEncode dst src n = Some (?dst, ?m, e)"
    using enc by (simp add: ioHdlcFrameTransparentEncode_def)
  moreover have "length ?dst = length dst" "take (unat ?m) ?dst = stuff ?p"
    using le m by auto
  ultimately show ?thesis using stuff_no_flag by metis
qed

theorem transparency_roundtrip_witness:
  "\<exists>dst' m e dst''. ioHdlcFrameTransparentEncode (replicate 6 0) [0x7E, 1, 0x7D] 3 = Some (dst', m, e)
    \<and> take (unat m) dst' = [0x7D, 0x5E, 1, 0x7D, 0x5D]
    \<and> ioHdlcFrameTransparentDecode dst' m = Some (dst'', 3)
    \<and> take 3 dst'' = [0x7E, 1, 0x7D]"
  using transparency_roundtrip [of 3 "[0x7E, 1, 0x7D]" "replicate 6 0"]
  by (simp add: ll_consts) blast

end
