(* ===== verification/Hdlc_Queue.thy ===== *)
theory Hdlc_Queue
  imports Hdlc_Prelude
begin

text \<open>
  The intrusive circular queues of \<open>include/ioHdlcqueue.h\<close> and the peer list of
  \<open>include/ioHdlclist.h\<close>. A queue header is an address; the heap gives its \<open>next\<close> and
  \<open>prev\<close> links. Every helper is the sequence of link assignments of the C code. The relation
  \<open>qlist h q xs\<close> says that the ring headed by \<open>q\<close> holds the headers \<open>xs\<close> in order, and
  each helper is shown to be the list operation it stands for. The locale \<open>frame_queue\<close> is
  the contract the protocol core relies on; it is interpreted on the linked representation and
  on the plain lists with which the core models its queues.
\<close>

section \<open>Heap of queue headers\<close>

record qheap =
  nxt :: "nat \<Rightarrow> nat"
  prv :: "nat \<Rightarrow> nat"

definition set_next :: "nat \<Rightarrow> nat \<Rightarrow> qheap \<Rightarrow> qheap" where
  "set_next a v h = h\<lparr>nxt := (nxt h)(a := v)\<rparr>"

definition set_prev :: "nat \<Rightarrow> nat \<Rightarrow> qheap \<Rightarrow> qheap" where
  "set_prev a v h = h\<lparr>prv := (prv h)(a := v)\<rparr>"

lemma link_simps [simp]:
  "nxt (set_next a v h) = (nxt h)(a := v)" "prv (set_next a v h) = prv h"
  "nxt (set_prev a v h) = nxt h" "prv (set_prev a v h) = (prv h)(a := v)"
  by (simp_all add: set_next_def set_prev_def)

section \<open>Queue helpers\<close>

definition ioHdlc_frameq_init :: "nat \<Rightarrow> qheap \<Rightarrow> qheap" where
  "ioHdlc_frameq_init qp h = set_prev qp qp (set_next qp qp h)"

definition ioHdlc_frameq_isempty :: "nat \<Rightarrow> qheap \<Rightarrow> bool" where
  "ioHdlc_frameq_isempty qp h = (nxt h qp = qp)"

definition ioHdlc_frameq_insert :: "nat \<Rightarrow> nat \<Rightarrow> qheap \<Rightarrow> qheap" where
  "ioHdlc_frameq_insert qp fqp h =
     (let h1 = set_next fqp qp h;
          h2 = set_prev fqp (prv h1 qp) h1;
          h3 = set_next (prv h2 fqp) fqp h2
      in set_prev qp fqp h3)"

definition ioHdlc_frameq_insert_head :: "nat \<Rightarrow> nat \<Rightarrow> qheap \<Rightarrow> qheap" where
  "ioHdlc_frameq_insert_head qp fqp h =
     (let h1 = set_next fqp (nxt h qp) h;
          h2 = set_prev fqp qp h1;
          h3 = set_prev (nxt h2 fqp) fqp h2
      in set_next qp fqp h3)"

definition ioHdlc_frameq_remove :: "nat \<Rightarrow> qheap \<Rightarrow> nat \<times> qheap" where
  "ioHdlc_frameq_remove qp h =
     (let rfqp = nxt h qp;
          h1 = set_next qp (nxt h rfqp) h;
          h2 = set_prev (nxt h1 qp) qp h1
      in (rfqp, h2))"

definition ioHdlc_frameq_remove_la :: "nat \<Rightarrow> qheap \<Rightarrow> nat \<times> nat option \<times> qheap" where
  "ioHdlc_frameq_remove_la qp h =
     (let rfqp = nxt h qp;
          h1 = set_next qp (nxt h rfqp) h;
          h2 = set_prev (nxt h1 qp) qp h1
      in (rfqp, if ioHdlc_frameq_isempty qp h2 then None else Some (nxt h2 qp), h2))"

definition ioHdlc_frameq_lifo_remove :: "nat \<Rightarrow> qheap \<Rightarrow> nat \<times> qheap" where
  "ioHdlc_frameq_lifo_remove qp h =
     (let rfqp = prv h qp;
          h1 = set_prev qp (prv h rfqp) h;
          h2 = set_next (prv h1 qp) qp h1
      in (rfqp, h2))"

definition ioHdlc_frameq_delete :: "nat \<Rightarrow> qheap \<Rightarrow> qheap" where
  "ioHdlc_frameq_delete fqp h =
     (let h1 = set_next (prv h fqp) (nxt h fqp) h
      in set_prev (nxt h1 fqp) (prv h1 fqp) h1)"

definition ioHdlc_frameq_move :: "nat \<Rightarrow> nat \<Rightarrow> nat \<Rightarrow> qheap \<Rightarrow> qheap" where
  "ioHdlc_frameq_move dest_qp source_from source_to h =
     (let h1 = set_next (prv h source_from) (nxt h source_to) h;
          h2 = set_prev (nxt h1 source_to) (prv h1 source_from) h1;
          h3 = set_next source_to (nxt h2 dest_qp) h2;
          h4 = set_prev (nxt h3 dest_qp) source_to h3;
          h5 = set_next dest_qp source_from h4
      in set_prev source_from dest_qp h5)"

definition ioHdlc_frameq_move_tail :: "nat \<Rightarrow> nat \<Rightarrow> qheap \<Rightarrow> qheap" where
  "ioHdlc_frameq_move_tail dest_qp fqp h =
     (let h1 = set_next (prv h fqp) (nxt h fqp) h;
          h2 = set_prev (nxt h1 fqp) (prv h1 fqp) h1;
          h3 = set_next fqp dest_qp h2;
          h4 = set_prev fqp (prv h3 dest_qp) h3;
          h5 = set_next (prv h4 fqp) fqp h4
      in set_prev dest_qp fqp h5)"

text \<open>The peer list uses the same representation.\<close>

definition ioHdlc_peerl_init :: "nat \<Rightarrow> qheap \<Rightarrow> qheap" where
  "ioHdlc_peerl_init lp h = set_prev lp lp (set_next lp lp h)"

definition ioHdlc_peerl_isempty :: "nat \<Rightarrow> qheap \<Rightarrow> bool" where
  "ioHdlc_peerl_isempty lp h = (nxt h lp = lp)"

definition ioHdlc_peerl_insert :: "nat \<Rightarrow> nat \<Rightarrow> qheap \<Rightarrow> qheap" where
  "ioHdlc_peerl_insert lp ssp h =
     (let h1 = set_next ssp lp h;
          h2 = set_prev ssp (prv h1 lp) h1;
          h3 = set_next (prv h2 ssp) ssp h2
      in set_prev lp ssp h3)"

definition ioHdlc_peerl_delete :: "nat \<Rightarrow> qheap \<Rightarrow> qheap" where
  "ioHdlc_peerl_delete ssp h =
     (let h1 = set_next (prv h ssp) (nxt h ssp) h
      in set_prev (nxt h1 ssp) (prv h1 ssp) h1)"

section \<open>Rings as lists\<close>

fun linked :: "qheap \<Rightarrow> nat list \<Rightarrow> bool" where
  "linked h [] = True"
| "linked h [x] = True"
| "linked h (x # y # zs) = (nxt h x = y \<and> prv h y = x \<and> linked h (y # zs))"

definition qlist :: "qheap \<Rightarrow> nat \<Rightarrow> nat list \<Rightarrow> bool" where
  "qlist h q xs = (distinct (q # xs) \<and> linked h (q # xs @ [q]))"

lemma linked_append:
  "linked h (xs @ ys) \<longleftrightarrow> linked h xs \<and> linked h ys
    \<and> (xs \<noteq> [] \<and> ys \<noteq> [] \<longrightarrow> nxt h (last xs) = hd ys \<and> prv h (hd ys) = last xs)"
proof (induction xs)
  case (Cons x xs)
  then show ?case by (cases xs; cases ys) auto
qed simp

lemma linked_Cons:
  "linked h (x # ys) \<longleftrightarrow> linked h ys \<and> (ys \<noteq> [] \<longrightarrow> nxt h x = hd ys \<and> prv h (hd ys) = x)"
  by (cases ys) auto

lemma linked_cong:
  assumes "\<And>n. n \<in> set (butlast L) \<Longrightarrow> nxt h' n = nxt h n"
    and "\<And>n. n \<in> set (tl L) \<Longrightarrow> prv h' n = prv h n"
  shows "linked h' L = linked h L"
  using assms
proof (induction h L rule: linked.induct)
  case (3 h x y zs)
  then have "linked h' (y # zs) = linked h (y # zs)" by (cases zs) auto
  with 3 show ?case by simp
qed auto

lemma last_notin_butlast: "distinct L \<Longrightarrow> L \<noteq> [] \<Longrightarrow> last L \<notin> set (butlast L)"
  by (cases L rule: rev_cases) auto

lemma hd_notin_tl: "distinct L \<Longrightarrow> L \<noteq> [] \<Longrightarrow> hd L \<notin> set (tl L)"
  by (cases L) auto

lemma in_butlast: "n \<in> set (butlast L) \<Longrightarrow> n \<in> set L"
  by (rule in_set_butlastD)

lemma in_tl: "n \<in> set (tl L) \<Longrightarrow> n \<in> set L"
  by (cases L) auto

text \<open>A ring as the open list of its headers, closed by one link from the last to the first.\<close>

lemma qlist_open:
  "qlist h q xs \<longleftrightarrow> distinct (q # xs) \<and> linked h (q # xs)
    \<and> nxt h (last (q # xs)) = q \<and> prv h q = last (q # xs)"
  using linked_append [of h "q # xs" "[q]"] by (auto simp: qlist_def)

text \<open>A ring is untouched by link updates of headers outside it.\<close>

lemma qlist_frame:
  assumes "\<And>n. n \<in> set (q # xs) \<Longrightarrow> nxt h' n = nxt h n \<and> prv h' n = prv h n"
  shows "qlist h' q xs = qlist h q xs"
proof -
  have "linked h' (q # xs) = linked h (q # xs)"
    using assms by (intro linked_cong) (auto dest!: in_butlast split: if_splits)
  with assms show ?thesis by (simp add: qlist_open)
qed

lemma qlist_next: "qlist h q xs \<Longrightarrow> nxt h q = hd (xs @ [q])"
  by (cases xs) (auto simp: qlist_open)

lemma frameq_init_list: "qlist (ioHdlc_frameq_init q h) q []"
  by (simp add: ioHdlc_frameq_init_def qlist_open)

lemma frameq_isempty_list: "qlist h q xs \<Longrightarrow> ioHdlc_frameq_isempty q h \<longleftrightarrow> xs = []"
  by (cases xs) (auto simp: ioHdlc_frameq_isempty_def qlist_open)

text \<open>
  The two steps all the helpers share: splicing an open segment \<open>S\<close> into a ring between
  \<open>xs\<close> and \<open>ys\<close>, and cutting it out.
\<close>

lemma qlist_splice:
  assumes r: "qlist h q (xs @ ys)" and S: "linked h S" "S \<noteq> []" "distinct S" "set S \<inter> set (q # xs @ ys) = {}"
    and n: "nxt h' = (nxt h)(last (q # xs) := hd S, last S := hd (ys @ [q]))"
    and p: "prv h' = (prv h)(hd S := last (q # xs), hd (ys @ [q]) := last S)"
  shows "qlist h' q (xs @ S @ ys)"
proof -
  let ?A = "q # xs"
  have d: "distinct (?A @ S @ ys)" using r S(3,4) by (auto simp: qlist_open)
  have o: "linked h ?A" "linked h ys" "nxt h (last (?A @ ys)) = q" "prv h q = last (?A @ ys)"
    using r linked_append [of h ?A ys] by (auto simp: qlist_open)
  have la: "last ?A \<in> set ?A" by (rule last_in_set) simp
  have ls: "last S \<in> set S" "hd S \<in> set S" using S(2) by auto
  have b: "last ?A \<notin> set (butlast ?A)" "last S \<notin> set (butlast S)" "hd S \<notin> set (tl S)"
    using d S(2,3) by (auto dest: last_notin_butlast hd_notin_tl)
  have hy: "hd (ys @ [q]) = (if ys = [] then q else hd ys)" by simp
  have "linked h' ?A = linked h ?A"
    using d b(1) ls S(2) by (intro linked_cong) (auto simp: n p hy simp del: last.simps dest: in_butlast split: if_splits)
  moreover have "linked h' S = linked h S"
    using d b la ls by (intro linked_cong) (auto simp: n p hy simp del: last.simps dest: in_butlast in_tl)
  moreover have "linked h' ys = linked h ys"
    using d la ls hd_notin_tl [of ys]
    by (intro linked_cong) (auto simp: n p hy simp del: last.simps dest: in_butlast in_tl)
  ultimately have l: "linked h' ?A" "linked h' S" "linked h' ys" using o S(1) by auto
  have lys: "ys \<noteq> [] \<Longrightarrow> last ys \<in> set ys" by simp
  have c: "nxt h' (last ?A) = hd S" "prv h' (hd S) = last ?A"
    "nxt h' (last S) = hd (ys @ [q])" "prv h' (hd (ys @ [q])) = last S"
    using d la ls by (auto simp: n p hy simp del: last.simps)
  then have "linked h' (?A @ S @ ys)" using l S(2) by (auto simp: linked_append simp del: append_Cons)
  moreover have "nxt h' (last (?A @ S @ ys)) = q \<and> prv h' q = last (?A @ S @ ys)"
  proof (cases "ys = []")
    case True
    then show ?thesis using c(3,4) S(2) by (simp add: last_append del: last.simps append_Cons)
  next
    case False
    have "last ys \<noteq> last ?A" "last ys \<noteq> last S" "q \<noteq> hd S" "q \<noteq> hd ys"
      using d la ls lys [OF False] hd_in_set [OF False] by auto
    then show ?thesis using o(3,4) False S(2)
      by (simp add: n p hy last_append del: last.simps append_Cons)
  qed
  ultimately show ?thesis using d by (simp add: qlist_open)
qed

lemma qlist_links:
  assumes "qlist h q (xs @ S @ ys)" "S \<noteq> []"
  shows "nxt h (last (q # xs)) = hd S" "prv h (hd S) = last (q # xs)"
    "nxt h (last S) = hd (ys @ [q])" "prv h (hd (ys @ [q])) = last S" "linked h S"
proof -
  have l: "linked h ((q # xs) @ S @ ys)" "nxt h (last ((q # xs) @ S @ ys)) = q"
    "prv h q = last ((q # xs) @ S @ ys)"
    using assms(1) by (simp_all add: qlist_open)
  show "nxt h (last (q # xs)) = hd S" "prv h (hd S) = last (q # xs)" "linked h S"
    using l(1) assms(2) by (simp_all add: linked_append del: append_Cons last.simps)
  show "nxt h (last S) = hd (ys @ [q])" "prv h (hd (ys @ [q])) = last S"
    using l assms(2) by (cases "ys = []"; simp add: linked_append last_append del: append_Cons last.simps)+
qed

lemma qlist_cut:
  assumes r: "qlist h q (xs @ S @ ys)" and S: "S \<noteq> []"
    and n: "nxt h' = (nxt h)(last (q # xs) := hd (ys @ [q]))"
    and p: "prv h' = (prv h)(hd (ys @ [q]) := last (q # xs))"
  shows "qlist h' q (xs @ ys)" "linked h' S"
proof -
  let ?A = "q # xs"
  have d: "distinct (?A @ S @ ys)" using r by (auto simp: qlist_open)
  have o: "linked h ?A" "linked h S" "linked h ys" "nxt h (last (?A @ S @ ys)) = q" "prv h q = last (?A @ S @ ys)"
    using r linked_append [of h ?A "S @ ys"] linked_append [of h S ys] by (auto simp: qlist_open)
  have la: "last ?A \<in> set ?A" by (rule last_in_set) simp
  have b: "last ?A \<notin> set (butlast ?A)" using d by (auto dest: last_notin_butlast)
  have hy: "hd (ys @ [q]) = (if ys = [] then q else hd ys)" by simp
  have lS: "ys \<noteq> [] \<Longrightarrow> last ys \<in> set ys" by simp
  have "linked h' ?A = linked h ?A"
    using d b by (intro linked_cong) (auto simp: n p hy simp del: last.simps dest: in_butlast split: if_splits)
  moreover have "linked h' S = linked h S"
    using d la by (intro linked_cong) (auto simp: n p hy simp del: last.simps dest: in_butlast in_tl split: if_splits)
  moreover have "linked h' ys = linked h ys"
    using d la hd_notin_tl [of ys]
    by (intro linked_cong) (auto simp: n p hy simp del: last.simps dest: in_butlast in_tl)
  ultimately have l: "linked h' ?A" "linked h' S" "linked h' ys" using o by auto
  have c: "nxt h' (last ?A) = hd (ys @ [q])" "prv h' (hd (ys @ [q])) = last ?A"
    by (auto simp: n p simp del: last.simps)
  then have "linked h' (?A @ ys)" using l by (auto simp: linked_append simp del: append_Cons)
  moreover have "nxt h' (last (?A @ ys)) = q \<and> prv h' q = last (?A @ ys)"
  proof (cases "ys = []")
    case True
    then show ?thesis using c by (simp add: last_append del: last.simps append_Cons)
  next
    case False
    have "last ys \<noteq> last ?A" "q \<noteq> hd ys"
      using d la lS [OF False] hd_in_set [OF False] by auto
    then show ?thesis using o(4,5) False S
      by (simp add: n p hy last_append del: last.simps append_Cons)
  qed
  ultimately show "qlist h' q (xs @ ys)" using d by (auto simp: qlist_open)
  show "linked h' S" by (rule l)
qed

section \<open>The helpers are list operations\<close>

lemma frameq_insert_list:
  assumes "qlist h q xs" "f \<notin> set (q # xs)"
  shows "qlist (ioHdlc_frameq_insert q f h) q (xs @ [f])"
  using qlist_splice [of h q xs "[]" "[f]" "ioHdlc_frameq_insert q f h"] assms
  by (auto simp: ioHdlc_frameq_insert_def Let_def qlist_open fun_upd_twist split: if_splits)

lemma frameq_insert_head_list:
  assumes "qlist h q xs" "f \<notin> set (q # xs)"
  shows "qlist (ioHdlc_frameq_insert_head q f h) q (f # xs)"
  using qlist_splice [of h q "[]" xs "[f]" "ioHdlc_frameq_insert_head q f h"] assms
  by (simp add: ioHdlc_frameq_insert_head_def Let_def qlist_next fun_upd_twist)

lemma frameq_delete_list:
  assumes "qlist h q (xs @ x # ys)"
  shows "qlist (ioHdlc_frameq_delete x h) q (xs @ ys)"
proof -
  have l: "prv h x = last (q # xs)" "nxt h x = hd (ys @ [q])"
    using qlist_links [of h q xs "[x]" ys] assms by (simp_all add: last_ConsL del: last.simps)
  have "last (q # xs) \<noteq> x" using assms
    by (auto simp: qlist_open split: if_splits)
  then show ?thesis
    using qlist_cut(1) [of h q xs "[x]" ys "ioHdlc_frameq_delete x h"] assms l
    by (simp add: ioHdlc_frameq_delete_def Let_def del: last.simps)
qed

lemma frameq_remove_list:
  assumes "qlist h q (x # xs)"
  shows "ioHdlc_frameq_remove q h = (x, ioHdlc_frameq_delete x h)"
  using qlist_links [of h q "[]" "[x]" xs] assms
  by (auto simp: ioHdlc_frameq_remove_def ioHdlc_frameq_delete_def Let_def qlist_open)

lemma frameq_remove_la_list:
  assumes "qlist h q (x # xs)"
  shows "ioHdlc_frameq_remove_la q h
    = (x, if xs = [] then None else Some (hd xs), ioHdlc_frameq_delete x h)"
proof -
  let ?h = "snd (ioHdlc_frameq_remove q h)"
  have "ioHdlc_frameq_remove_la q h
      = (fst (ioHdlc_frameq_remove q h), if ioHdlc_frameq_isempty q ?h then None else Some (nxt ?h q), ?h)"
    by (simp add: ioHdlc_frameq_remove_la_def ioHdlc_frameq_remove_def Let_def)
  with frameq_remove_list [OF assms] frameq_delete_list [of h q "[]" x xs] assms show ?thesis
    by (auto simp: frameq_isempty_list qlist_next neq_Nil_conv)
qed

lemma frameq_lifo_remove_list:
  assumes "qlist h q (xs @ [x])"
  shows "ioHdlc_frameq_lifo_remove q h = (x, ioHdlc_frameq_delete x h)"
proof -
  have "last (q # xs) \<noteq> x" using assms
    by (auto simp: qlist_open split: if_splits)
  then show ?thesis using qlist_links [of h q xs "[x]" "[]"] assms
    by (simp add: ioHdlc_frameq_lifo_remove_def ioHdlc_frameq_delete_def Let_def
        set_next_def set_prev_def last_ConsL del: last.simps)
qed

lemma frameq_remove_ring:
  assumes "qlist h q (x # xs)"
  shows "fst (ioHdlc_frameq_remove q h) = x" "qlist (snd (ioHdlc_frameq_remove q h)) q xs"
  using frameq_remove_list [OF assms] frameq_delete_list [of h q "[]" x xs] assms by simp_all

lemma frameq_move_tail_eq:
  "ioHdlc_frameq_move_tail d f h = ioHdlc_frameq_insert d f (ioHdlc_frameq_delete f h)"
  by (simp add: ioHdlc_frameq_move_tail_def ioHdlc_frameq_insert_def ioHdlc_frameq_delete_def Let_def)

lemma frameq_move_list:
  assumes q: "qlist h q (xs @ S @ ys)" and d: "qlist h d ws" and S: "S \<noteq> []"
    and dj: "set (q # xs @ S @ ys) \<inter> set (d # ws) = {}"
  shows "qlist (ioHdlc_frameq_move d (hd S) (last S) h) q (xs @ ys)"
    "qlist (ioHdlc_frameq_move d (hd S) (last S) h) d (S @ ws)"
proof -
  let ?A = "q # xs"
  obtain a where a: "last ?A = a" "a \<in> set ?A" by (metis last_in_set list.distinct(1))
  obtain b where b: "hd (ys @ [q]) = b" "b \<in> set (q # ys)" by (cases ys) auto
  obtain c where c: "hd (ws @ [d]) = c" "c \<in> set (d # ws)" by (cases ws) auto
  note l = qlist_links [OF q S, unfolded a b]
  have nd: "nxt h d = c" using qlist_next [OF d] c by simp
  have dist: "distinct (?A @ S @ ys)" using q by (auto simp: qlist_open)
  have hl: "hd S \<in> set S" "last S \<in> set S" using S by auto
  let ?h2 = "set_prev b a (set_next a b h)"
  have cut: "qlist ?h2 q (xs @ ys)" "linked ?h2 S"
    using qlist_cut [OF q S, of ?h2] a b by simp_all
  have "a \<notin> set (d # ws)" "b \<notin> set (d # ws)" using a b dj by auto
  then have d2: "qlist ?h2 d ws" using d by (subst qlist_frame [where h = h]) auto
  let ?h' = "ioHdlc_frameq_move d (hd S) (last S) h"
  have ne: "last S \<noteq> a" "hd S \<noteq> b" "last S \<noteq> d" "hd S \<noteq> c" "a \<noteq> d" "b \<noteq> c"
  proof -
    have D: "set S \<inter> set ?A = {}" "set S \<inter> set (q # ys) = {}" "set S \<inter> set (d # ws) = {}"
      "set ?A \<inter> set (d # ws) = {}" "set (q # ys) \<inter> set (d # ws) = {}" "d \<in> set (d # ws)"
      using dist dj by auto
    show "last S \<noteq> a" using D(1) hl a(2) by blast
    show "hd S \<noteq> b" using D(2) hl b(2) by blast
    show "last S \<noteq> d" "hd S \<noteq> c" using D(3,6) hl c(2) by blast+
    show "a \<noteq> d" using D(4,6) a(2) by blast
    show "b \<noteq> c" using D(5) b(2) c(2) by blast
  qed
  have "nxt ?h' = (nxt ?h2)(last S := c, d := hd S)" "prv ?h' = (prv ?h2)(c := last S, hd S := d)"
    using ne l(2,3) nd by (simp_all add: ioHdlc_frameq_move_def Let_def)
  then have h': "nxt ?h' = (nxt ?h2)(d := hd S, last S := c)" "prv ?h' = (prv ?h2)(hd S := d, c := last S)"
    using ne(3,4) by (metis fun_upd_twist)+
  have "distinct S" "set S \<inter> set (d # [] @ ws) = {}" using dist dj by auto
  then have "qlist ?h' d ([] @ S @ ws)"
    using qlist_splice [of ?h2 d "[]" ws S ?h'] d2 cut(2) S h' c(1)
    by (simp only: append_Nil last_ConsL simp_thms)
  then show "qlist ?h' d (S @ ws)" by simp
  have "\<And>n. n \<in> set (q # xs @ ys) \<Longrightarrow> n \<noteq> d \<and> n \<noteq> hd S \<and> n \<noteq> last S \<and> n \<noteq> c"
    using hl c dj dist by auto
  then show "qlist ?h' q (xs @ ys)"
    using cut(1) by (subst qlist_frame [where h = ?h2]) (auto simp: h')
qed

lemma peerl_eqs:
  "ioHdlc_peerl_init = ioHdlc_frameq_init" "ioHdlc_peerl_isempty = ioHdlc_frameq_isempty"
  "ioHdlc_peerl_insert = ioHdlc_frameq_insert" "ioHdlc_peerl_delete = ioHdlc_frameq_delete"
  by (simp_all add: fun_eq_iff ioHdlc_peerl_init_def ioHdlc_frameq_init_def ioHdlc_peerl_isempty_def
      ioHdlc_frameq_isempty_def ioHdlc_peerl_insert_def ioHdlc_frameq_insert_def
      ioHdlc_peerl_delete_def ioHdlc_frameq_delete_def)

text \<open>Headers outside the rings an operation works on keep their links.\<close>

lemma insert_other:
  assumes "qlist h q xs" "n \<notin> set (f # q # xs)"
  shows "nxt (ioHdlc_frameq_insert q f h) n = nxt h n \<and> prv (ioHdlc_frameq_insert q f h) n = prv h n"
proof -
  obtain a where a: "last (q # xs) = a" "a \<in> set (q # xs)" by (metis last_in_set list.distinct(1))
  with assms have "prv h q = a" "n \<noteq> a" by (auto simp: qlist_open)
  with assms(2) show ?thesis by (auto simp: ioHdlc_frameq_insert_def Let_def)
qed

lemma delete_other:
  assumes "qlist h q (xs @ x # ys)" "n \<notin> set (q # xs @ ys)"
  shows "nxt (ioHdlc_frameq_delete x h) n = nxt h n \<and> prv (ioHdlc_frameq_delete x h) n = prv h n"
proof -
  obtain a where a: "last (q # xs) = a" "a \<in> set (q # xs)" by (metis last_in_set list.distinct(1))
  obtain b where b: "hd (ys @ [q]) = b" "b \<in> set (q # ys)" by (cases ys) auto
  have "prv h x = a" "nxt h x = b" "x \<notin> set (q # xs)"
    using qlist_links [of h q xs "[x]" ys] assms(1) a b by (auto simp: qlist_open last_ConsL simp del: last.simps)
  with a b assms(2) show ?thesis by (auto simp: ioHdlc_frameq_delete_def Let_def)
qed

section \<open>The contract of a frame queue\<close>

text \<open>
  The loop of \<open>clearFrameQ\<close> and of every consumer that empties a queue: remove until empty.
  \<open>n\<close> bounds the number of rounds.
\<close>

fun drain :: "('h \<Rightarrow> bool) \<Rightarrow> ('h \<Rightarrow> nat \<times> 'h) \<Rightarrow> nat \<Rightarrow> 'h \<Rightarrow> nat list \<times> 'h" where
  "drain emp rem 0 h = ([], h)"
| "drain emp rem (Suc n) h =
     (if emp h then ([], h)
      else let (x, h1) = rem h; (xs, h2) = drain emp rem n h1 in (x # xs, h2))"

fun enqueue_all :: "(nat \<Rightarrow> 'h \<Rightarrow> 'h) \<Rightarrow> nat list \<Rightarrow> 'h \<Rightarrow> 'h" where
  "enqueue_all ins [] h = h"
| "enqueue_all ins (f # fs) h = enqueue_all ins fs (ins f h)"

locale frame_queue =
  fixes Q :: "'h \<Rightarrow> nat \<Rightarrow> nat list \<Rightarrow> bool"
    and emp :: "nat \<Rightarrow> 'h \<Rightarrow> bool"
    and ins :: "nat \<Rightarrow> nat \<Rightarrow> 'h \<Rightarrow> 'h"
    and rem :: "nat \<Rightarrow> 'h \<Rightarrow> nat \<times> 'h"
  assumes emp_iff: "Q h q xs \<Longrightarrow> emp q h \<longleftrightarrow> xs = []"
    and ins_tail: "Q h q xs \<Longrightarrow> f \<notin> set (q # xs) \<Longrightarrow> Q (ins q f h) q (xs @ [f])"
    and ins_other: "Q h q xs \<Longrightarrow> f \<notin> set (q # xs) \<Longrightarrow> Q h r ys \<Longrightarrow>
      set (r # ys) \<inter> set (f # q # xs) = {} \<Longrightarrow> Q (ins q f h) r ys"
    and rem_head: "Q h q (x # xs) \<Longrightarrow> fst (rem q h) = x \<and> Q (snd (rem q h)) q xs"
    and rem_other: "Q h q (x # xs) \<Longrightarrow> Q h r ys \<Longrightarrow>
      set (r # ys) \<inter> set (q # x # xs) = {} \<Longrightarrow> Q (snd (rem q h)) r ys"
begin

lemma drain_all:
  assumes "Q h q xs" "length xs \<le> n"
  shows "fst (drain (emp q) (rem q) n h) = xs \<and> Q (snd (drain (emp q) (rem q) n h)) q []"
  using assms
proof (induction n arbitrary: h xs)
  case (Suc n)
  show ?case
  proof (cases xs)
    case Nil
    with Suc.prems emp_iff show ?thesis by simp
  next
    case (Cons x ys)
    with Suc.prems emp_iff [of h q xs] rem_head [of h q x ys] Suc.IH [of "snd (rem q h)" ys]
    show ?thesis by (auto simp: case_prod_beta Let_def)
  qed
qed simp

lemma enqueue_all_tail:
  assumes "Q h q xs" "distinct fs" "set fs \<inter> set (q # xs) = {}"
  shows "Q (enqueue_all (ins q) fs h) q (xs @ fs)"
  using assms
proof (induction fs arbitrary: h xs)
  case (Cons f fs)
  then have "Q (ins q f h) q (xs @ [f])" by (intro ins_tail) auto
  from Cons.IH [OF this] Cons.prems show ?case by auto
qed simp

text \<open>First in, first out, whatever is enqueued before the queue is emptied.\<close>

lemma fifo:
  assumes "Q h q xs" "distinct fs" "set fs \<inter> set (q # xs) = {}"
    and "length xs + length fs \<le> n"
  shows "fst (drain (emp q) (rem q) n (enqueue_all (ins q) fs h)) = xs @ fs"
  using drain_all [OF enqueue_all_tail [OF assms(1-3)], of n] assms(4) by simp

end

interpretation linkq: frame_queue qlist ioHdlc_frameq_isempty ioHdlc_frameq_insert ioHdlc_frameq_remove
proof (unfold_locales, goal_cases)
  case (3 h q xs f r ys)
  have "qlist (ioHdlc_frameq_insert q f h) r ys = qlist h r ys"
  proof (rule qlist_frame)
    fix n assume "n \<in> set (r # ys)"
    with 3(4) have "n \<notin> set (f # q # xs)" by blast
    then show "nxt (ioHdlc_frameq_insert q f h) n = nxt h n \<and> prv (ioHdlc_frameq_insert q f h) n = prv h n"
      by (rule insert_other [OF 3(1)])
  qed
  with 3 show ?case by simp
next
  case (5 h q x xs r ys)
  have "qlist (snd (ioHdlc_frameq_remove q h)) r ys = qlist h r ys"
  proof (rule qlist_frame)
    fix n assume "n \<in> set (r # ys)"
    with 5(3) have "n \<notin> set (q # [] @ xs)" by auto
    then show "nxt (snd (ioHdlc_frameq_remove q h)) n = nxt h n \<and> prv (snd (ioHdlc_frameq_remove q h)) n = prv h n"
      using delete_other [of h q "[]" x xs n] 5(1) by (simp add: frameq_remove_list)
  qed
  with 5 show ?case by simp
qed (auto intro: frameq_isempty_list [THEN iffD1] frameq_isempty_list [THEN iffD2]
      frameq_insert_list frameq_remove_ring)

text \<open>The core keeps its queues as plain lists of frame identifiers, under the same contract.\<close>

definition lq_remove :: "nat \<Rightarrow> (nat \<Rightarrow> nat list) \<Rightarrow> nat \<times> (nat \<Rightarrow> nat list)" where
  "lq_remove q h = (hd (h q), h(q := tl (h q)))"

interpretation listq: frame_queue "\<lambda>h q xs. h q = xs" "\<lambda>q h. h q = []" "\<lambda>q f h. h(q := h q @ [f])" lq_remove
  by unfold_locales (auto simp: lq_remove_def)

text \<open>C22: after any frames are inserted, emptying a linked queue yields the frames it held
  followed by the inserted ones, in order, and each was handed out exactly once.\<close>

theorem frameq_fifo:
  assumes "qlist h q xs" "distinct fs" "set fs \<inter> set (q # xs) = {}"
  shows "fst (drain (ioHdlc_frameq_isempty q) (ioHdlc_frameq_remove q) (length xs + length fs)
      (enqueue_all (ioHdlc_frameq_insert q) fs h)) = xs @ fs"
  by (rule linkq.fifo [OF assms]) simp

theorem frameq_fifo_witness:
  "fst (drain (ioHdlc_frameq_isempty 9) (ioHdlc_frameq_remove 9) 2
      (enqueue_all (ioHdlc_frameq_insert 9) [4, 2] (ioHdlc_frameq_init 9 \<lparr>nxt = \<lambda>_. 0, prv = \<lambda>_. 0\<rparr>))) = [4, 2]"
  using frameq_fifo [OF frameq_init_list, of "[4, 2]" 9 "\<lparr>nxt = \<lambda>_. 0, prv = \<lambda>_. 0\<rparr>"] by (simp add: numeral_2_eq_2)

text \<open>Moving the segment \<open>S\<close> of one ring puts it, in order, at the head of the other ring
  and closes the ring it came from; this is the retransmission step of go-back-N.\<close>

theorem frameq_move_splices:
  assumes "qlist h q (xs @ S @ ys)" "qlist h d ws" "S \<noteq> []"
    and "set (q # xs @ S @ ys) \<inter> set (d # ws) = {}"
  shows "qlist (ioHdlc_frameq_move d (hd S) (last S) h) q (xs @ ys)
    \<and> qlist (ioHdlc_frameq_move d (hd S) (last S) h) d (S @ ws)"
  using frameq_move_list [OF assms] by blast

theorem frameq_move_splices_witness:
  "\<exists>h. qlist (ioHdlc_frameq_move 8 1 2 h) 9 [] \<and> qlist (ioHdlc_frameq_move 8 1 2 h) 8 [1, 2, 3]"
proof -
  let ?h = "\<lparr>nxt = (\<lambda>_. 0)(9 := 1, 1 := 2, 2 := 9, 8 := 3, 3 := 8),
             prv = (\<lambda>_. 0)(1 := 9, 2 := 1, 9 := 2, 3 := 8, 8 := 3)\<rparr>"
  have "qlist ?h 9 ([] @ [1, 2] @ [])" "qlist ?h 8 [3]" by (simp_all add: qlist_def)
  from frameq_move_splices [OF this] show ?thesis by (intro exI [of _ ?h]) simp
qed

end
