(* ===== verification/Hdlc_Frame.thy ===== *)
theory Hdlc_Frame
  imports Hdlc_Prelude
begin

text \<open>
  Frames and the layout of their control field (\<open>include/ioHdlcframe.h\<close>, the control-field
  constants of \<open>include/ioHdlc.h\<close>, and the codec helpers at the top of \<open>src/ioHdlc_core.c\<close>).
  A frame buffer is the list of its octets; the setters write the bit masks of the C macros.
  The lemmas read every setter as an update of one bit field and show which getters it changes.
\<close>

section \<open>Data\<close>

record framing =
  modmask :: u32
  pfoctet :: u8
  ctrl_size :: u8
  frame_offset :: u8

record frame =
  f_bytes :: "u8 list"
  f_elen :: u16
  f_tx_len :: u16
  f_refs :: u8
  f_tx_ctrl_len :: u8
  f_openingflag :: u8
  f_gate_free :: bool
  f_qaux_linked :: bool

text \<open>Reading an octet outside the buffer gives 0; the handlers only read header octets, which
  the pool invariant keeps inside.\<close>

definition byte_at :: "u8 list \<Rightarrow> nat \<Rightarrow> u8" where
  "byte_at bs i = (if i < length bs then bs ! i else 0)"

section \<open>Control field constants\<close>

definition IOHDLC_I_ID :: u8 where "IOHDLC_I_ID = 0x00"
definition IOHDLC_I_MASK :: u8 where "IOHDLC_I_MASK = 0x01"
definition IOHDLC_S_ID :: u8 where "IOHDLC_S_ID = 0x01"
definition IOHDLC_S_MASK :: u8 where "IOHDLC_S_MASK = 0x03"
definition IOHDLC_U_ID :: u8 where "IOHDLC_U_ID = 0x03"
definition IOHDLC_U_MASK :: u8 where "IOHDLC_U_MASK = 0x03"
definition IOHDLC_S_FUN_MASK :: u8 where "IOHDLC_S_FUN_MASK = 0x0C"
definition IOHDLC_S_RR :: u8 where "IOHDLC_S_RR = 0x00"
definition IOHDLC_S_REJ :: u8 where "IOHDLC_S_REJ = 0x08"
definition IOHDLC_S_RNR :: u8 where "IOHDLC_S_RNR = 0x04"
definition IOHDLC_S_SREJ :: u8 where "IOHDLC_S_SREJ = 0x0C"
definition IOHDLC_U_FUN_MASK :: u8 where "IOHDLC_U_FUN_MASK = 0xEC"
definition IOHDLC_U_SNRM :: u8 where "IOHDLC_U_SNRM = 0x80"
definition IOHDLC_U_SARM :: u8 where "IOHDLC_U_SARM = 0x0C"
definition IOHDLC_U_SABM :: u8 where "IOHDLC_U_SABM = 0x2C"
definition IOHDLC_U_DISC :: u8 where "IOHDLC_U_DISC = 0x40"
definition IOHDLC_U_UI :: u8 where "IOHDLC_U_UI = 0x00"
definition IOHDLC_U_TEST :: u8 where "IOHDLC_U_TEST = 0xE0"
definition IOHDLC_U_UA :: u8 where "IOHDLC_U_UA = 0x60"
definition IOHDLC_U_FRMR :: u8 where "IOHDLC_U_FRMR = 0x84"
definition IOHDLC_U_DM :: u8 where "IOHDLC_U_DM = 0x0C"
definition IOHDLC_PF_BIT :: u8 where "IOHDLC_PF_BIT = 0x10"
definition IOHDLC_PFx_BIT :: u8 where "IOHDLC_PFx_BIT = 0x01"
definition IOHDLC_FRMR_Y :: u8 where "IOHDLC_FRMR_Y = 0x04"

lemmas ctrl_consts = IOHDLC_I_ID_def IOHDLC_I_MASK_def IOHDLC_S_ID_def IOHDLC_S_MASK_def
  IOHDLC_U_ID_def IOHDLC_U_MASK_def IOHDLC_S_FUN_MASK_def IOHDLC_S_RR_def IOHDLC_S_REJ_def
  IOHDLC_S_RNR_def IOHDLC_S_SREJ_def IOHDLC_U_FUN_MASK_def IOHDLC_U_SNRM_def IOHDLC_U_SARM_def
  IOHDLC_U_SABM_def IOHDLC_U_DISC_def IOHDLC_U_UI_def IOHDLC_U_TEST_def IOHDLC_U_UA_def
  IOHDLC_U_FRMR_def IOHDLC_U_DM_def IOHDLC_PF_BIT_def IOHDLC_PFx_BIT_def IOHDLC_FRMR_Y_def

definition IOHDLC_IS_I_FRM :: "u8 \<Rightarrow> bool" where
  "IOHDLC_IS_I_FRM ctrl = (ctrl AND IOHDLC_I_MASK = IOHDLC_I_ID)"

definition IOHDLC_IS_S_FRM :: "u8 \<Rightarrow> bool" where
  "IOHDLC_IS_S_FRM ctrl = (ctrl AND IOHDLC_S_MASK = IOHDLC_S_ID)"

definition IOHDLC_IS_U_FRM :: "u8 \<Rightarrow> bool" where
  "IOHDLC_IS_U_FRM ctrl = (ctrl AND IOHDLC_U_MASK = IOHDLC_U_ID)"

section \<open>Field access macros\<close>

definition addr_pos :: "framing \<Rightarrow> nat" where
  "addr_pos fr = unat (frame_offset fr)"

definition ctrl_pos :: "framing \<Rightarrow> nat \<Rightarrow> nat" where
  "ctrl_pos fr idx = unat (frame_offset fr) + 1 + idx"

definition IOHDLC_FRAME_ADDR :: "framing \<Rightarrow> u8 list \<Rightarrow> u8" where
  "IOHDLC_FRAME_ADDR fr bs = byte_at bs (addr_pos fr)"

definition IOHDLC_FRAME_CTRL :: "framing \<Rightarrow> u8 list \<Rightarrow> nat \<Rightarrow> u8" where
  "IOHDLC_FRAME_CTRL fr bs idx = byte_at bs (ctrl_pos fr idx)"

definition IOHDLC_FRAME_INFO_pos :: "framing \<Rightarrow> nat" where
  "IOHDLC_FRAME_INFO_pos fr = unat (frame_offset fr) + 1 + unat (ctrl_size fr)"

definition IOHDLC_FRAME_SET_NS :: "framing \<Rightarrow> u8 list \<Rightarrow> u32 \<Rightarrow> u8 list" where
  "IOHDLC_FRAME_SET_NS fr bs ns =
     (if modmask fr = 7
      then bs[ctrl_pos fr 0 :=
             (byte_at bs (ctrl_pos fr 0) AND NOT 0x0E) OR ucast (push_bit 1 (ns AND 0x07))]
      else bs[ctrl_pos fr 0 :=
             (byte_at bs (ctrl_pos fr 0) AND NOT 0xFE) OR ucast (push_bit 1 (ns AND 0x7F))])"

definition IOHDLC_FRAME_SET_NR :: "framing \<Rightarrow> u8 list \<Rightarrow> u32 \<Rightarrow> u8 list" where
  "IOHDLC_FRAME_SET_NR fr bs nr =
     (if modmask fr = 7
      then bs[ctrl_pos fr 0 :=
             (byte_at bs (ctrl_pos fr 0) AND NOT 0xE0) OR ucast (push_bit 5 (nr AND 0x07))]
      else bs[ctrl_pos fr 1 :=
             (byte_at bs (ctrl_pos fr 1) AND NOT 0xFE) OR ucast (push_bit 1 (nr AND 0x7F))])"

definition IOHDLC_FRAME_SET_PF :: "framing \<Rightarrow> u8 list \<Rightarrow> bool \<Rightarrow> u8 list" where
  "IOHDLC_FRAME_SET_PF fr bs pf =
     (if pfoctet fr = 0 then
        (let c = byte_at bs (ctrl_pos fr 0) in
         bs[ctrl_pos fr 0 := if pf then c OR IOHDLC_PF_BIT else c AND NOT IOHDLC_PF_BIT])
      else
        (let i = ctrl_pos fr (unat (pfoctet fr)); c = byte_at bs i in
         bs[i := if pf then c OR IOHDLC_PFx_BIT else c AND NOT IOHDLC_PFx_BIT]))"

definition IOHDLC_FRAME_GET_PF :: "framing \<Rightarrow> u8 list \<Rightarrow> bool" where
  "IOHDLC_FRAME_GET_PF fr bs =
     (if pfoctet fr = 0 then byte_at bs (ctrl_pos fr 0) AND IOHDLC_PF_BIT \<noteq> 0
      else byte_at bs (ctrl_pos fr (unat (pfoctet fr))) AND IOHDLC_PFx_BIT \<noteq> 0)"

text \<open>
  The helpers of \<open>ioHdlc_core.c\<close> take a pointer \<open>ctrl\<close> into the buffer; here it is
  the position \<open>c\<close> of \<open>ctrl[0]\<close>.
\<close>

definition setNSInCtrl :: "framing \<Rightarrow> nat \<Rightarrow> u8 list \<Rightarrow> u32 \<Rightarrow> u8 list" where
  "setNSInCtrl fr c bs ns =
     (if modmask fr = 7
      then bs[c := (byte_at bs c AND NOT 0x0E) OR ucast (push_bit 1 (ns AND 0x07))]
      else bs[c := (byte_at bs c AND NOT 0xFE) OR ucast (push_bit 1 (ns AND 0x7F))])"

definition setNRInCtrl :: "framing \<Rightarrow> nat \<Rightarrow> u8 list \<Rightarrow> u32 \<Rightarrow> u8 list" where
  "setNRInCtrl fr c bs nr =
     (if modmask fr = 7
      then bs[c := (byte_at bs c AND NOT 0xE0) OR ucast (push_bit 5 (nr AND 0x07))]
      else bs[c + 1 := (byte_at bs (c + 1) AND NOT 0xFE) OR ucast (push_bit 1 (nr AND 0x7F))])"

definition setPFInCtrl :: "framing \<Rightarrow> nat \<Rightarrow> u8 list \<Rightarrow> bool \<Rightarrow> u8 list" where
  "setPFInCtrl fr c bs pf =
     (if pfoctet fr = 0 then
        bs[c := if pf then byte_at bs c OR IOHDLC_PF_BIT else byte_at bs c AND NOT IOHDLC_PF_BIT]
      else
        (let i = c + unat (pfoctet fr) in
         bs[i := if pf then byte_at bs i OR IOHDLC_PFx_BIT else byte_at bs i AND NOT IOHDLC_PFx_BIT]))"

definition extractNS :: "framing \<Rightarrow> u8 list \<Rightarrow> u32" where
  "extractNS fr bs =
     (if modmask fr = 7 then ucast (drop_bit 1 (IOHDLC_FRAME_CTRL fr bs 0) AND 0x07)
      else ucast (drop_bit 1 (IOHDLC_FRAME_CTRL fr bs 0) AND 0x7F))"

definition extractNR :: "framing \<Rightarrow> u8 list \<Rightarrow> u32" where
  "extractNR fr bs =
     (if modmask fr = 7 then ucast (drop_bit 5 (IOHDLC_FRAME_CTRL fr bs 0) AND 0x07)
      else ucast (drop_bit 1 (IOHDLC_FRAME_CTRL fr bs 1) AND 0x7F))"

text \<open>The two configurations the code supports: modulo 8 and modulo 128.\<close>

definition framing_ok :: "framing \<Rightarrow> bool" where
  "framing_ok fr \<longleftrightarrow>
     (modmask fr = 7 \<and> pfoctet fr = 0 \<and> ctrl_size fr = 1
      \<or> modmask fr = 127 \<and> pfoctet fr = 1 \<and> ctrl_size fr = 2) \<and> frame_offset fr \<le> 2"

section \<open>Bit fields of an octet\<close>

definition fld_get :: "u8 \<Rightarrow> nat \<Rightarrow> nat \<Rightarrow> u8" where
  "fld_get b p w = drop_bit p b AND mask w"

definition fld_set :: "u8 \<Rightarrow> nat \<Rightarrow> nat \<Rightarrow> u8 \<Rightarrow> u8" where
  "fld_set b p w v = (b AND NOT (push_bit p (mask w))) OR push_bit p (v AND mask w)"

lemma fld_get_set [simp]: "p + w \<le> 8 \<Longrightarrow> fld_get (fld_set b p w v) p w = v AND mask w"
  by (rule bit_word_eqI) (auto simp: fld_get_def fld_set_def bit_simps)

lemma fld_get_set_other [simp]:
  "p + w \<le> q \<or> q + x \<le> p \<Longrightarrow> fld_get (fld_set b p w v) q x = fld_get b q x"
  by (rule bit_word_eqI) (auto simp: fld_get_def fld_set_def bit_simps dest: bit_imp_le_length)

lemma fld_masks:
  "push_bit 1 (mask 3) = (0x0E :: u8)" "push_bit 1 (mask 7) = (0xFE :: u8)"
  "push_bit 5 (mask 3) = (0xE0 :: u8)" "push_bit 4 (mask 1) = (0x10 :: u8)"
  "push_bit 0 (mask 1) = (0x01 :: u8)" "push_bit 0 (mask 2) = (0x03 :: u8)"
  "mask 3 = (7 :: u8)" "mask 7 = (0x7F :: u8)" "mask 3 = (7 :: u32)" "mask 7 = (0x7F :: u32)"
  "mask 1 = (1 :: u8)" "mask 2 = (3 :: u8)"
  by (simp_all add: mask_eq_decr_exp)

lemma fld_set_or1: "b OR push_bit p (mask w) = fld_set b p w (mask w)"
  by (rule bit_word_eqI) (auto simp: fld_set_def bit_simps)

lemma fld_set_and0: "b AND NOT (push_bit p (mask w)) = fld_set b p w 0"
  by (simp add: fld_set_def)

lemma ucast_push_mask:
  "p + w \<le> 8 \<Longrightarrow> (ucast (push_bit p ((v :: u32) AND mask w)) :: u8) = push_bit p (ucast v AND mask w)"
  by (rule bit_word_eqI) (auto simp: bit_simps)

lemma ucast_fld: "w \<le> 8 \<Longrightarrow> (ucast ((ucast (v :: u32) :: u8) AND mask w) :: u32) = v AND mask w"
  by (rule bit_word_eqI) (auto simp: bit_simps)

definition nw :: "framing \<Rightarrow> nat" where
  "nw fr = (if modmask fr = 7 then 3 else 7)"

text \<open>The setters and getters as bit fields.\<close>

definition flagv :: "bool \<Rightarrow> u8" where
  "flagv pf = (if pf then 1 else 0)"

lemma flagv_simps [simp]: "flagv True = 1" "flagv False = 0" "flagv pf AND mask (Suc 0) = flagv pf"
  "flagv pf AND 1 = flagv pf"
  "flagv pf = 1 \<longleftrightarrow> pf" "flagv pf = 0 \<longleftrightarrow> \<not> pf"
  by (simp_all add: flagv_def)

lemma setNSInCtrl_fld:
  "setNSInCtrl fr c bs ns = bs[c := fld_set (byte_at bs c) 1 (nw fr) (ucast ns)]"
  using ucast_push_mask [of 1 3 ns] ucast_push_mask [of 1 7 ns]
  by (simp add: setNSInCtrl_def nw_def fld_set_def fld_masks)

lemma setNRInCtrl_fld:
  "setNRInCtrl fr c bs nr =
    (if modmask fr = 7 then bs[c := fld_set (byte_at bs c) 5 3 (ucast nr)]
     else bs[c + 1 := fld_set (byte_at bs (c + 1)) 1 7 (ucast nr)])"
  using ucast_push_mask [of 5 3 nr] ucast_push_mask [of 1 7 nr]
  by (simp add: setNRInCtrl_def fld_set_def fld_masks)

lemma pf_upd_fld:
  "(if pf then b OR IOHDLC_PF_BIT else b AND NOT IOHDLC_PF_BIT) = fld_set b 4 1 (flagv pf)"
  "(if pf then b OR IOHDLC_PFx_BIT else b AND NOT IOHDLC_PFx_BIT) = fld_set b 0 1 (flagv pf)"
  using fld_set_or1 [of b 4 1] fld_set_and0 [of b 4 1] fld_set_or1 [of b 0 1] fld_set_and0 [of b 0 1]
  by (auto simp: fld_masks ctrl_consts fld_set_def)

lemma setPFInCtrl_fld:
  "setPFInCtrl fr c bs pf =
    (if pfoctet fr = 0 then bs[c := fld_set (byte_at bs c) 4 1 (flagv pf)]
     else let i = c + unat (pfoctet fr) in bs[i := fld_set (byte_at bs i) 0 1 (flagv pf)])"
  by (simp add: setPFInCtrl_def pf_upd_fld Let_def)

lemma extractNS_fld: "extractNS fr bs = ucast (fld_get (IOHDLC_FRAME_CTRL fr bs 0) 1 (nw fr))"
  by (simp add: extractNS_def fld_get_def nw_def fld_masks)

lemma extractNR_fld:
  "extractNR fr bs = (if modmask fr = 7 then ucast (fld_get (IOHDLC_FRAME_CTRL fr bs 0) 5 3)
     else ucast (fld_get (IOHDLC_FRAME_CTRL fr bs 1) 1 7))"
  by (simp add: extractNR_def fld_get_def fld_masks)

lemma and_bit_ne0: "(b AND push_bit p 1 \<noteq> 0) = (fld_get b p 1 = 1)" for b :: u8
proof -
  have "fld_get b p 1 = of_bool (odd (drop_bit p b))"
    by (simp add: fld_get_def fld_masks and_one_eq odd_iff_mod_2_eq_one even_iff_mod_2_eq_zero)
  with bit_iff_and_push_bit_not_eq_0 [of b p] show ?thesis
    by (simp add: bit_iff_odd_drop_bit)
qed

lemma get_pf_fld:
  "IOHDLC_FRAME_GET_PF fr bs =
    (if pfoctet fr = 0 then fld_get (IOHDLC_FRAME_CTRL fr bs 0) 4 1 = 1
     else fld_get (IOHDLC_FRAME_CTRL fr bs (unat (pfoctet fr))) 0 1 = 1)"
  using and_bit_ne0 [of _ 4] and_bit_ne0 [of _ 0]
  by (simp add: IOHDLC_FRAME_GET_PF_def IOHDLC_FRAME_CTRL_def ctrl_consts)

lemma is_I_fld: "IOHDLC_IS_I_FRM c \<longleftrightarrow> fld_get c 0 1 = 0"
  by (simp add: IOHDLC_IS_I_FRM_def fld_get_def fld_masks ctrl_consts)

lemma is_S_fld: "IOHDLC_IS_S_FRM c \<longleftrightarrow> fld_get c 0 2 = 1"
  by (simp add: IOHDLC_IS_S_FRM_def fld_get_def fld_masks ctrl_consts)

lemma is_U_fld: "IOHDLC_IS_U_FRM c \<longleftrightarrow> fld_get c 0 2 = 3"
  by (simp add: IOHDLC_IS_U_FRM_def fld_get_def fld_masks ctrl_consts)

lemma set_macros_eq:
  "IOHDLC_FRAME_SET_NS fr bs n = setNSInCtrl fr (ctrl_pos fr 0) bs n"
  "IOHDLC_FRAME_SET_NR fr bs n = setNRInCtrl fr (ctrl_pos fr 0) bs n"
  "IOHDLC_FRAME_SET_PF fr bs pf = setPFInCtrl fr (ctrl_pos fr 0) bs pf"
  by (simp_all add: IOHDLC_FRAME_SET_NS_def setNSInCtrl_def IOHDLC_FRAME_SET_NR_def
      setNRInCtrl_def IOHDLC_FRAME_SET_PF_def setPFInCtrl_def ctrl_pos_def Let_def)

section \<open>Getters after setters\<close>

lemma byte_at_update [simp]:
  "byte_at (bs[i := v]) j = (if i = j \<and> j < length bs then v else byte_at bs j)"
  by (simp add: byte_at_def)

lemma length_setters [simp]:
  "length (setNSInCtrl fr c bs n) = length bs" "length (setNRInCtrl fr c bs n) = length bs"
  "length (setPFInCtrl fr c bs pf) = length bs"
  by (simp_all add: setNSInCtrl_def setNRInCtrl_def setPFInCtrl_def Let_def)

lemma pos_simps [simp]:
  "ctrl_pos fr i = ctrl_pos fr j \<longleftrightarrow> i = j" "addr_pos fr \<noteq> ctrl_pos fr i" "ctrl_pos fr i \<noteq> addr_pos fr"
  "ctrl_pos fr 0 + i = ctrl_pos fr i" "Suc (ctrl_pos fr 0) = ctrl_pos fr (Suc 0)"
  by (auto simp: ctrl_pos_def addr_pos_def)

lemma nw_le [simp]: "nw fr \<le> 7"
  by (simp add: nw_def)

lemma framing_cases:
  assumes "framing_ok fr"
  obtains "modmask fr = 7" "pfoctet fr = 0" "ctrl_size fr = 1" "nw fr = 3"
  | "modmask fr = 127" "pfoctet fr = 1" "ctrl_size fr = 2" "nw fr = 7"
  using assms by (auto simp: framing_ok_def nw_def)

lemma modmask_mask: "framing_ok fr \<Longrightarrow> modmask fr = mask (nw fr)"
  by (erule framing_cases) (simp_all add: fld_masks)

text \<open>Room for the longest header in the buffer.\<close>

definition hdr_room :: "framing \<Rightarrow> u8 list \<Rightarrow> bool" where
  "hdr_room fr bs \<longleftrightarrow> ctrl_pos fr 1 < length bs"

lemma hdr_room_lt: "hdr_room fr bs \<Longrightarrow> ctrl_pos fr 0 < length bs"
  "hdr_room fr bs \<Longrightarrow> ctrl_pos fr 1 < length bs" "hdr_room fr bs \<Longrightarrow> addr_pos fr < length bs"
  "hdr_room fr bs \<Longrightarrow> ctrl_pos fr (Suc 0) < length bs"
  by (simp_all add: hdr_room_def ctrl_pos_def addr_pos_def)

lemma hdr_room_length: "length bs = length bs' \<Longrightarrow> hdr_room fr bs = hdr_room fr bs'"
  by (simp add: hdr_room_def)

lemmas codec_flds = setNSInCtrl_fld setNRInCtrl_fld setPFInCtrl_fld extractNS_fld extractNR_fld
  get_pf_fld IOHDLC_FRAME_CTRL_def IOHDLC_FRAME_ADDR_def is_I_fld is_S_fld is_U_fld

lemma extractNS_setNS [frame_simps]:
  assumes "framing_ok fr" "hdr_room fr bs"
  shows "extractNS fr (setNSInCtrl fr (ctrl_pos fr 0) bs n) = n AND modmask fr"
  using assms(1) by (rule framing_cases)
    (use ucast_fld [of 3 n] ucast_fld [of 7 n] hdr_room_lt [OF assms(2)] in
      \<open>simp_all add: codec_flds fld_masks\<close>)

lemma extractNS_other [frame_simps]:
  assumes "framing_ok fr"
  shows "extractNS fr (setNRInCtrl fr (ctrl_pos fr 0) bs n) = extractNS fr bs"
    and "extractNS fr (setPFInCtrl fr (ctrl_pos fr 0) bs pf) = extractNS fr bs"
    and "extractNS fr (bs[addr_pos fr := a]) = extractNS fr bs"
  using assms by (auto elim!: framing_cases simp: codec_flds Let_def)

lemma extractNR_setNR [frame_simps]:
  assumes "framing_ok fr" "hdr_room fr bs"
  shows "extractNR fr (setNRInCtrl fr (ctrl_pos fr 0) bs n) = n AND modmask fr"
  using assms(1) by (rule framing_cases)
    (use ucast_fld [of 3 n] ucast_fld [of 7 n] hdr_room_lt [OF assms(2)] in
      \<open>simp_all add: codec_flds fld_masks\<close>)

lemma extractNR_other [frame_simps]:
  assumes "framing_ok fr"
  shows "extractNR fr (setNSInCtrl fr (ctrl_pos fr 0) bs n) = extractNR fr bs"
    and "extractNR fr (setPFInCtrl fr (ctrl_pos fr 0) bs pf) = extractNR fr bs"
    and "extractNR fr (bs[addr_pos fr := a]) = extractNR fr bs"
  using assms by (auto elim!: framing_cases simp: codec_flds Let_def)

lemma get_pf_setPF [frame_simps]:
  assumes "framing_ok fr" "hdr_room fr bs"
  shows "IOHDLC_FRAME_GET_PF fr (setPFInCtrl fr (ctrl_pos fr 0) bs pf) = pf"
  using assms(1) by (rule framing_cases)
    (use hdr_room_lt [OF assms(2)] in \<open>simp_all add: codec_flds Let_def\<close>)

lemma get_pf_other [frame_simps]:
  assumes "framing_ok fr"
  shows "IOHDLC_FRAME_GET_PF fr (setNSInCtrl fr (ctrl_pos fr 0) bs n) = IOHDLC_FRAME_GET_PF fr bs"
    and "IOHDLC_FRAME_GET_PF fr (setNRInCtrl fr (ctrl_pos fr 0) bs n) = IOHDLC_FRAME_GET_PF fr bs"
    and "IOHDLC_FRAME_GET_PF fr (bs[addr_pos fr := a]) = IOHDLC_FRAME_GET_PF fr bs"
  using assms by (auto elim!: framing_cases simp: codec_flds)

lemma is_I_setters [frame_simps]:
  assumes "framing_ok fr"
  shows "IOHDLC_IS_I_FRM (IOHDLC_FRAME_CTRL fr (setNSInCtrl fr (ctrl_pos fr 0) bs n) 0) = IOHDLC_IS_I_FRM (IOHDLC_FRAME_CTRL fr bs 0)"
    and "IOHDLC_IS_I_FRM (IOHDLC_FRAME_CTRL fr (setNRInCtrl fr (ctrl_pos fr 0) bs n) 0) = IOHDLC_IS_I_FRM (IOHDLC_FRAME_CTRL fr bs 0)"
    and "IOHDLC_IS_I_FRM (IOHDLC_FRAME_CTRL fr (setPFInCtrl fr (ctrl_pos fr 0) bs pf) 0) = IOHDLC_IS_I_FRM (IOHDLC_FRAME_CTRL fr bs 0)"
    and "IOHDLC_IS_I_FRM (IOHDLC_FRAME_CTRL fr (bs[addr_pos fr := a]) 0) = IOHDLC_IS_I_FRM (IOHDLC_FRAME_CTRL fr bs 0)"
  using assms by (auto elim!: framing_cases simp: codec_flds Let_def)

lemma is_S_setters [frame_simps]:
  assumes "framing_ok fr"
  shows "IOHDLC_IS_S_FRM (IOHDLC_FRAME_CTRL fr (setNRInCtrl fr (ctrl_pos fr 0) bs n) 0) = IOHDLC_IS_S_FRM (IOHDLC_FRAME_CTRL fr bs 0)"
    and "IOHDLC_IS_S_FRM (IOHDLC_FRAME_CTRL fr (setPFInCtrl fr (ctrl_pos fr 0) bs pf) 0) = IOHDLC_IS_S_FRM (IOHDLC_FRAME_CTRL fr bs 0)"
  using assms by (auto elim!: framing_cases simp: codec_flds Let_def)

lemma addr_setters [frame_simps]:
  assumes "framing_ok fr"
  shows "IOHDLC_FRAME_ADDR fr (setNSInCtrl fr (ctrl_pos fr 0) bs n) = IOHDLC_FRAME_ADDR fr bs"
    and "IOHDLC_FRAME_ADDR fr (setNRInCtrl fr (ctrl_pos fr 0) bs n) = IOHDLC_FRAME_ADDR fr bs"
    and "IOHDLC_FRAME_ADDR fr (setPFInCtrl fr (ctrl_pos fr 0) bs pf) = IOHDLC_FRAME_ADDR fr bs"
  using assms by (auto elim!: framing_cases simp: codec_flds Let_def)

lemma addr_set [frame_simps]:
  "hdr_room fr bs \<Longrightarrow> IOHDLC_FRAME_ADDR fr (bs[addr_pos fr := a]) = a"
  by (simp add: IOHDLC_FRAME_ADDR_def hdr_room_lt)

text \<open>C20: a control field written with the setters reads back N(S), N(R) and P/F unchanged, for
  both moduli, and is still recognised as an I-frame.\<close>

theorem iframe_ctrl_roundtrip:
  assumes "framing_ok fr" "hdr_room fr bs" "IOHDLC_IS_I_FRM (IOHDLC_FRAME_CTRL fr bs 0)"
  shows "let bs' = IOHDLC_FRAME_SET_PF fr (IOHDLC_FRAME_SET_NR fr (IOHDLC_FRAME_SET_NS fr bs ns) nr) pf
    in extractNS fr bs' = ns AND modmask fr \<and> extractNR fr bs' = nr AND modmask fr
      \<and> IOHDLC_FRAME_GET_PF fr bs' = pf \<and> IOHDLC_IS_I_FRM (IOHDLC_FRAME_CTRL fr bs' 0)
      \<and> IOHDLC_FRAME_ADDR fr bs' = IOHDLC_FRAME_ADDR fr bs"
proof -
  have "hdr_room fr (setNSInCtrl fr (ctrl_pos fr 0) bs ns)"
    "hdr_room fr (setNRInCtrl fr (ctrl_pos fr 0) (setNSInCtrl fr (ctrl_pos fr 0) bs ns) nr)"
    using assms(2) by (simp_all add: hdr_room_def)
  with assms show ?thesis by (simp add: set_macros_eq frame_simps)
qed

theorem iframe_ctrl_roundtrip_witness:
  "let fr = \<lparr>modmask = 7, pfoctet = 0, ctrl_size = 1, frame_offset = 1\<rparr>;
       bs' = IOHDLC_FRAME_SET_PF fr (IOHDLC_FRAME_SET_NR fr (IOHDLC_FRAME_SET_NS fr [9, 1, 0xF0, 0, 0] 13) 6) True
   in extractNS fr bs' = 5 \<and> extractNR fr bs' = 6 \<and> IOHDLC_FRAME_GET_PF fr bs'"
proof -
  let ?fr = "\<lparr>modmask = 7, pfoctet = 0, ctrl_size = 1, frame_offset = 1\<rparr>"
  have "framing_ok ?fr" "hdr_room ?fr [9, 1, 0xF0, 0, 0]"
    "IOHDLC_IS_I_FRM (IOHDLC_FRAME_CTRL ?fr [9, 1, 0xF0, 0, 0] 0)"
    by (simp_all add: framing_ok_def hdr_room_def ctrl_pos_def IOHDLC_IS_I_FRM_def
        IOHDLC_FRAME_CTRL_def byte_at_def ctrl_consts)
  from iframe_ctrl_roundtrip [OF this, of 13 6 True] show ?thesis by (simp add: Let_def)
qed

end
