(* ===== verification/Hdlc_Pool.thy ===== *)
theory Hdlc_Pool
  imports Hdlc_Frame
begin

text \<open>
  The fixed-memory frame pool: the base class of \<open>include/ioHdlcframepool.h\<close>, the watermark
  logic of \<open>src/ioHdlcpool_common.c\<close>, the arena layout of
  \<open>include/ioHdlcfmempool_layout.h\<close> and the backend \<open>os/linux/src/ioHdlcfmempool.c\<close>
  (with the differing configuration routine of the ChibiOS backend). Frames are identified by
  their slot number; the heap gives the frame in each slot and the free list the slots not in
  use. The callbacks an operation dispatches are returned as a list of (callback, argument)
  pairs. A failed assertion is the value \<open>None\<close>. The lemmas show that the free list and the
  reference counts stay consistent and that the watermark state is a hysteresis.
\<close>

section \<open>Data\<close>

datatype pool_state = IOHDLC_POOL_NORMAL | IOHDLC_POOL_LOW_WATER

record pool =
  fp_framesize :: nat
  fp_total :: u32
  fp_allocated :: u32
  fp_low_threshold :: u32
  fp_high_threshold :: u32
  fp_low_pct :: u8
  fp_high_pct :: u8
  fp_state :: pool_state
  fp_on_low :: "nat option"
  fp_on_normal :: "nat option"
  fp_cb_arg :: nat
  fp_free :: "nat list"
  fp_heap :: "nat \<Rightarrow> frame"

type_synonym cb_calls = "(nat \<times> nat) list"

definition hdlcPoolFree :: "pool \<Rightarrow> u32" where
  "hdlcPoolFree P = fp_total P - fp_allocated P"

definition hdlcPoolGetState :: "pool \<Rightarrow> pool_state" where
  "hdlcPoolGetState P = fp_state P"

definition upd_frame :: "nat \<Rightarrow> (frame \<Rightarrow> frame) \<Rightarrow> pool \<Rightarrow> pool" where
  "upd_frame f g P = P\<lparr>fp_heap := (fp_heap P)(f := g (fp_heap P f))\<rparr>"

section \<open>Watermarks\<close>

definition hdlc_pool_init_watermark :: "pool \<Rightarrow> u32 \<Rightarrow> pool" where
  "hdlc_pool_init_watermark P n_total =
     P\<lparr>fp_low_pct := 20, fp_high_pct := 60,
       fp_low_threshold := (n_total * 20) div 100, fp_high_threshold := (n_total * 60) div 100,
       fp_state := IOHDLC_POOL_NORMAL, fp_on_low := None, fp_on_normal := None, fp_cb_arg := 0\<rparr>"

text \<open>Both checks return the callback to dispatch, if any, after the state change.\<close>

definition hdlc_pool_check_low_watermark :: "pool \<Rightarrow> pool \<times> bool \<times> nat option" where
  "hdlc_pool_check_low_watermark P =
     (let free = fp_total P - fp_allocated P in
      if fp_state P = IOHDLC_POOL_NORMAL \<and> free \<le> fp_low_threshold P
      then (P\<lparr>fp_state := IOHDLC_POOL_LOW_WATER\<rparr>, True, fp_on_low P)
      else (P, False, None))"

definition hdlc_pool_check_high_watermark :: "pool \<Rightarrow> pool \<times> bool \<times> nat option" where
  "hdlc_pool_check_high_watermark P =
     (let free = fp_total P - fp_allocated P in
      if fp_state P = IOHDLC_POOL_LOW_WATER \<and> fp_high_threshold P < free
      then (P\<lparr>fp_state := IOHDLC_POOL_NORMAL\<rparr>, True, fp_on_normal P)
      else (P, False, None))"

definition dispatch :: "pool \<times> bool \<times> nat option \<Rightarrow> pool \<times> cb_calls" where
  "dispatch r =
     (case r of (P, notify, cb) \<Rightarrow>
        (P, case cb of Some c \<Rightarrow> if notify then [(c, fp_cb_arg P)] else [] | None \<Rightarrow> []))"

section \<open>Allocation\<close>

definition fresh_frame :: "frame \<Rightarrow> frame" where
  "fresh_frame fr = fr\<lparr>f_refs := 1, f_qaux_linked := False, f_tx_len := 0, f_tx_ctrl_len := 0,
     f_openingflag := 0\<rparr>"

definition take_frame :: "pool \<Rightarrow> nat option \<times> pool \<times> cb_calls" where
  "take_frame P =
     (case fp_free P of
        [] \<Rightarrow> (None, P, [])
      | f # fs \<Rightarrow>
          (let P1 = upd_frame f fresh_frame (P\<lparr>fp_free := fs\<rparr>);
               P2 = P1\<lparr>fp_allocated := fp_allocated P1 + 1\<rparr>;
               (P3, calls) = dispatch (hdlc_pool_check_low_watermark P2)
           in (Some f, P3, calls)))"

definition release_frame :: "nat \<Rightarrow> pool \<Rightarrow> (pool \<times> cb_calls) option" where
  "release_frame f P =
     (if f_refs (fp_heap P f) = 0 then None
      else
        (let P1 = upd_frame f (\<lambda>fr. fr\<lparr>f_refs := f_refs fr - 1\<rparr>) P in
         if f_refs (fp_heap P1 f) = 0 then
           (let P2 = P1\<lparr>fp_free := f # fp_free P1, fp_allocated := fp_allocated P1 - 1\<rparr>
            in Some (dispatch (hdlc_pool_check_high_watermark P2)))
         else Some (P1, [])))"

definition addref_frame :: "nat \<Rightarrow> pool \<Rightarrow> pool option" where
  "addref_frame f P =
     (if f_refs (fp_heap P f) = 0 then None
      else Some (upd_frame f (\<lambda>fr. fr\<lparr>f_refs := f_refs fr + 1\<rparr>) P))"

section \<open>Arena layout\<close>

record pool_layout =
  lay_base :: u64
  lay_element_size :: u64
  lay_count :: u32

definition iohdlc_fmempool_align_up :: "u64 \<Rightarrow> u64 \<Rightarrow> u64" where
  "iohdlc_fmempool_align_up value algn = (value + algn - 1) AND NOT (algn - 1)"

text \<open>
  \<open>data_align\<close> is what \<open>iohdlc_dma_buffer_alignment\<close> answers for the arena,
  \<open>min_object_align\<close> the alignment of the frame type and \<open>header_size\<close> the offset of the
  payload in it.
\<close>

definition iohdlc_fmempool_layout ::
    "u64 \<Rightarrow> u64 \<Rightarrow> u64 \<Rightarrow> u64 \<Rightarrow> u64 \<Rightarrow> u64 \<Rightarrow> u64 \<Rightarrow> u64 \<Rightarrow> pool_layout" where
  "iohdlc_fmempool_layout data_align min_object_align header_size payload_align
     arena arenasize framesize preferred_align =
     (if payload_align < data_align then \<lparr>lay_base = 0, lay_element_size = 0, lay_count = 0\<rparr>
      else
        (let a1 = if preferred_align < min_object_align then min_object_align else preferred_align;
             a2 = if a1 < payload_align then payload_align else a1;
             esize = iohdlc_fmempool_align_up (header_size + framesize) a2;
             base = iohdlc_fmempool_align_up arena a2;
             fin = arena + arenasize
         in if fin \<le> base then \<lparr>lay_base = 0, lay_element_size = esize, lay_count = 0\<rparr>
            else \<lparr>lay_base = base, lay_element_size = esize,
                   lay_count = ucast ((fin - base) div esize)\<rparr>))"

text \<open>
  \<open>fmpInit\<close>: every slot is pushed on the free list, its transmit gate opened; the other
  fields of the frames keep what the arena holds (\<open>h0\<close>).
\<close>

fun build_free :: "nat \<Rightarrow> nat list" where
  "build_free 0 = []"
| "build_free (Suc n) = n # build_free n"

definition fmpInit :: "(nat \<Rightarrow> frame) \<Rightarrow> nat \<Rightarrow> u32 \<Rightarrow> pool" where
  "fmpInit h0 framesize count =
     hdlc_pool_init_watermark
       \<lparr>fp_framesize = framesize, fp_total = count, fp_allocated = 0,
        fp_low_threshold = 0, fp_high_threshold = 0, fp_low_pct = 0, fp_high_pct = 0,
        fp_state = IOHDLC_POOL_NORMAL, fp_on_low = None, fp_on_normal = None, fp_cb_arg = 0,
        fp_free = build_free (unat count),
        fp_heap = (\<lambda>i. if i < unat count
          then (h0 i)\<lparr>f_bytes := take framesize (f_bytes (h0 i) @ replicate framesize 0),
                      f_gate_free := True\<rparr> else h0 i)\<rparr>
       count"

definition hdlcPoolConfigWatermark ::
    "u8 \<Rightarrow> u8 \<Rightarrow> nat option \<Rightarrow> nat option \<Rightarrow> nat \<Rightarrow> pool \<Rightarrow> (pool \<times> cb_calls) option" where
  "hdlcPoolConfigWatermark low_pct high_pct on_low on_normal cb_arg P =
     (if \<not> (low_pct \<le> 100 \<and> high_pct \<le> 100) \<or> \<not> low_pct < high_pct then None
      else
        (let P1 = P\<lparr>fp_low_pct := low_pct, fp_high_pct := high_pct, fp_on_low := on_low,
                    fp_on_normal := on_normal, fp_cb_arg := cb_arg,
                    fp_low_threshold := (fp_total P * ucast low_pct) div 100,
                    fp_high_threshold := (fp_total P * ucast high_pct) div 100\<rparr>;
             free = fp_total P1 - fp_allocated P1;
             P2 = P1\<lparr>fp_state := if free \<le> fp_low_threshold P1 then IOHDLC_POOL_LOW_WATER
                                 else IOHDLC_POOL_NORMAL\<rparr>;
             calls = if fp_state P = fp_state P2 then []
                     else case (if fp_state P2 = IOHDLC_POOL_LOW_WATER then on_low else on_normal) of
                            Some c \<Rightarrow> [(c, cb_arg)] | None \<Rightarrow> []
         in Some (P2, calls)))"

text \<open>The ChibiOS backend reports a low pool on every call and never reports a normal one.\<close>

definition chibios_hdlcPoolConfigWatermark ::
    "u8 \<Rightarrow> u8 \<Rightarrow> nat option \<Rightarrow> nat option \<Rightarrow> nat \<Rightarrow> pool \<Rightarrow> (pool \<times> cb_calls) option" where
  "chibios_hdlcPoolConfigWatermark low_pct high_pct on_low on_normal cb_arg P =
     (if \<not> (low_pct \<le> 100 \<and> high_pct \<le> 100) \<or> \<not> low_pct < high_pct then None
      else
        (let P1 = P\<lparr>fp_low_pct := low_pct, fp_high_pct := high_pct, fp_on_low := on_low,
                    fp_on_normal := on_normal, fp_cb_arg := cb_arg,
                    fp_low_threshold := (fp_total P * ucast low_pct) div 100,
                    fp_high_threshold := (fp_total P * ucast high_pct) div 100\<rparr>;
             free = fp_total P1 - fp_allocated P1
         in if free \<le> fp_low_threshold P1
            then Some (P1\<lparr>fp_state := IOHDLC_POOL_LOW_WATER\<rparr>,
                       case on_low of Some c \<Rightarrow> [(c, cb_arg)] | None \<Rightarrow> [])
            else Some (P1\<lparr>fp_state := IOHDLC_POOL_NORMAL\<rparr>, [])))"

section \<open>Consistency of the pool\<close>

text \<open>The number of references held on a frame; a frame on the free list has none.\<close>

definition pool_refs :: "pool \<Rightarrow> nat \<Rightarrow> nat" where
  "pool_refs P f = (if f \<in> set (fp_free P) \<or> unat (fp_total P) \<le> f then 0 else unat (f_refs (fp_heap P f)))"

definition pool_ok :: "pool \<Rightarrow> bool" where
  "pool_ok P \<longleftrightarrow> distinct (fp_free P) \<and> (\<forall>f \<in> set (fp_free P). f < unat (fp_total P))
     \<and> unat (fp_allocated P) + length (fp_free P) = unat (fp_total P)
     \<and> (\<forall>f < unat (fp_total P). f \<notin> set (fp_free P) \<longrightarrow> f_refs (fp_heap P f) \<noteq> 0)
     \<and> (\<forall>f < unat (fp_total P). length (f_bytes (fp_heap P f)) = fp_framesize P)"

lemma pool_okD:
  assumes "pool_ok P"
  shows "distinct (fp_free P)" "f \<in> set (fp_free P) \<Longrightarrow> f < unat (fp_total P)"
    "unat (fp_allocated P) + length (fp_free P) = unat (fp_total P)"
    "f < unat (fp_total P) \<Longrightarrow> f \<notin> set (fp_free P) \<Longrightarrow> f_refs (fp_heap P f) \<noteq> 0"
    "f < unat (fp_total P) \<Longrightarrow> length (f_bytes (fp_heap P f)) = fp_framesize P"
  using assms by (auto simp: pool_ok_def)

lemma free_count: "pool_ok P \<Longrightarrow> unat (hdlcPoolFree P) = length (fp_free P)"
  using pool_okD(3) [of P] by (simp add: hdlcPoolFree_def unat_sub word_le_nat_alt)

lemma dispatch_proj [pool_simps]:
  "fp_free (fst (dispatch r)) = fp_free (fst r)" "fp_heap (fst (dispatch r)) = fp_heap (fst r)"
  "fp_total (fst (dispatch r)) = fp_total (fst r)" "fp_allocated (fst (dispatch r)) = fp_allocated (fst r)"
  "fp_framesize (fst (dispatch r)) = fp_framesize (fst r)"
  "fp_state (fst (dispatch r)) = fp_state (fst r)"
  "fp_low_threshold (fst (dispatch r)) = fp_low_threshold (fst r)"
  "fp_high_threshold (fst (dispatch r)) = fp_high_threshold (fst r)"
  by (simp_all add: dispatch_def split: prod.split)

lemma check_low_proj [pool_simps]:
  "fp_free (fst (hdlc_pool_check_low_watermark P)) = fp_free P"
  "fp_heap (fst (hdlc_pool_check_low_watermark P)) = fp_heap P"
  "fp_total (fst (hdlc_pool_check_low_watermark P)) = fp_total P"
  "fp_allocated (fst (hdlc_pool_check_low_watermark P)) = fp_allocated P"
  "fp_framesize (fst (hdlc_pool_check_low_watermark P)) = fp_framesize P"
  "fp_low_threshold (fst (hdlc_pool_check_low_watermark P)) = fp_low_threshold P"
  "fp_high_threshold (fst (hdlc_pool_check_low_watermark P)) = fp_high_threshold P"
  by (simp_all add: hdlc_pool_check_low_watermark_def Let_def)

lemma check_high_proj [pool_simps]:
  "fp_free (fst (hdlc_pool_check_high_watermark P)) = fp_free P"
  "fp_heap (fst (hdlc_pool_check_high_watermark P)) = fp_heap P"
  "fp_total (fst (hdlc_pool_check_high_watermark P)) = fp_total P"
  "fp_allocated (fst (hdlc_pool_check_high_watermark P)) = fp_allocated P"
  "fp_framesize (fst (hdlc_pool_check_high_watermark P)) = fp_framesize P"
  "fp_low_threshold (fst (hdlc_pool_check_high_watermark P)) = fp_low_threshold P"
  "fp_high_threshold (fst (hdlc_pool_check_high_watermark P)) = fp_high_threshold P"
  by (simp_all add: hdlc_pool_check_high_watermark_def Let_def)

lemma upd_frame_proj [pool_simps]:
  "fp_free (upd_frame f g P) = fp_free P" "fp_total (upd_frame f g P) = fp_total P"
  "fp_allocated (upd_frame f g P) = fp_allocated P" "fp_framesize (upd_frame f g P) = fp_framesize P"
  "fp_state (upd_frame f g P) = fp_state P"
  "fp_low_threshold (upd_frame f g P) = fp_low_threshold P"
  "fp_high_threshold (upd_frame f g P) = fp_high_threshold P"
  "fp_heap (upd_frame f g P) = (fp_heap P)(f := g (fp_heap P f))"
  by (simp_all add: upd_frame_def)

text \<open>What each operation does to the parts of the pool.\<close>

lemma take_none: "fp_free P = [] \<Longrightarrow> take_frame P = (None, P, [])"
  by (simp add: take_frame_def)

lemma take_some:
  assumes "fp_free P = f # fs"
  shows "fst (take_frame P) = Some f"
    "fp_free (fst (snd (take_frame P))) = fs"
    "fp_heap (fst (snd (take_frame P))) = (fp_heap P)(f := fresh_frame (fp_heap P f))"
    "fp_total (fst (snd (take_frame P))) = fp_total P"
    "fp_framesize (fst (snd (take_frame P))) = fp_framesize P"
    "fp_allocated (fst (snd (take_frame P))) = fp_allocated P + 1"
  using assms by (simp_all add: take_frame_def Let_def case_prod_beta pool_simps)

lemma take_frame_ok:
  assumes "pool_ok P"
  shows "pool_ok (fst (snd (take_frame P)))"
proof (cases "fp_free P")
  case (Cons f fs)
  note t = take_some [OF Cons]
  have "unat (fp_allocated P + 1) = unat (fp_allocated P) + 1"
    using pool_okD(3) [OF assms] Cons unat_inc [of "fp_allocated P" "fp_total P"] by simp
  with assms Cons show ?thesis by (auto simp: pool_ok_def t fresh_frame_def)
qed (simp add: take_none assms)

lemma release_shared:
  assumes "f_refs (fp_heap P f) \<noteq> 0" "f_refs (fp_heap P f) \<noteq> 1"
  shows "release_frame f P = Some (upd_frame f (\<lambda>fr. fr\<lparr>f_refs := f_refs fr - 1\<rparr>) P, [])"
  using assms by (simp add: release_frame_def Let_def pool_simps)

lemma release_last:
  assumes "f_refs (fp_heap P f) = 1"
  obtains P' c where "release_frame f P = Some (P', c)" "fp_free P' = f # fp_free P"
    "fp_heap P' = (fp_heap P)(f := (fp_heap P f)\<lparr>f_refs := 0\<rparr>)" "fp_total P' = fp_total P"
    "fp_allocated P' = fp_allocated P - 1" "fp_framesize P' = fp_framesize P"
proof -
  let ?P = "upd_frame f (\<lambda>fr. fr\<lparr>f_refs := f_refs fr - 1\<rparr>) P"
  let ?r = "dispatch (hdlc_pool_check_high_watermark
    (?P\<lparr>fp_free := f # fp_free ?P, fp_allocated := fp_allocated ?P - 1\<rparr>))"
  have "release_frame f P = Some (fst ?r, snd ?r)"
    using assms by (simp add: release_frame_def Let_def pool_simps)
  then show ?thesis using assms by (intro that [of "fst ?r" "snd ?r"]) (simp_all add: pool_simps)
qed

lemma release_frame_ok:
  assumes ok: "pool_ok P" and f: "pool_refs P f \<noteq> 0"
  obtains P' c where "release_frame f P = Some (P', c)" "pool_ok P'"
    "pool_refs P' = (pool_refs P)(f := pool_refs P f - 1)"
    "fp_total P' = fp_total P" "fp_framesize P' = fp_framesize P"
    "\<And>g. f_bytes (fp_heap P' g) = f_bytes (fp_heap P g) \<and> f_tx_ctrl_len (fp_heap P' g) = f_tx_ctrl_len (fp_heap P g)"
    "length (fp_free P') = length (fp_free P) + (if pool_refs P f = 1 then 1 else 0)"
proof -
  have u: "f \<notin> set (fp_free P)" "f < unat (fp_total P)" "f_refs (fp_heap P f) \<noteq> 0"
    using f by (auto simp: pool_refs_def split: if_splits)
  have r: "pool_refs P f = unat (f_refs (fp_heap P f))" using u by (simp add: pool_refs_def)
  show ?thesis
  proof (cases "f_refs (fp_heap P f) = 1")
    case True
    from release_last [OF True] obtain P' c where P': "release_frame f P = Some (P', c)"
      "fp_free P' = f # fp_free P" "fp_heap P' = (fp_heap P)(f := (fp_heap P f)\<lparr>f_refs := 0\<rparr>)"
      "fp_total P' = fp_total P" "fp_allocated P' = fp_allocated P - 1" "fp_framesize P' = fp_framesize P"
      by blast
    have "length (fp_free P) \<noteq> unat (fp_total P)"
    proof
      assume "length (fp_free P) = unat (fp_total P)"
      moreover have "set (fp_free P) \<subseteq> {..<unat (fp_total P)} - {f}"
        using u pool_okD(2) [OF ok] by auto
      then have "card (set (fp_free P)) \<le> card ({..<unat (fp_total P)} - {f})"
        by (intro card_mono) auto
      ultimately show False
        using u(2) distinct_card [OF pool_okD(1) [OF ok]] by simp
    qed
    then have "fp_allocated P \<noteq> 0" using pool_okD(3) [OF ok] by auto
    then have "unat (fp_allocated P - 1) + Suc (length (fp_free P)) = unat (fp_total P)"
      using pool_okD(3) [OF ok] by (simp add: unat_dec unat_gt_0 [symmetric])
    then have "pool_ok P'" using ok u(1,2) P' by (auto simp: pool_ok_def)
    moreover have "pool_refs P' = (pool_refs P)(f := pool_refs P f - 1)"
      using P' r True u by (auto simp: pool_refs_def fun_eq_iff)
    ultimately show ?thesis using P' True r by (intro that [of P' c]) auto
  next
    case False
    note rel = release_shared [OF u(3) False]
    have "f_refs (fp_heap P f) - 1 \<noteq> 0" using False by simp
    with ok u(1,2) have "pool_ok (upd_frame f (\<lambda>fr. fr\<lparr>f_refs := f_refs fr - 1\<rparr>) P)"
      by (auto simp: pool_ok_def pool_simps)
    moreover have "pool_refs (upd_frame f (\<lambda>fr. fr\<lparr>f_refs := f_refs fr - 1\<rparr>) P)
        = (pool_refs P)(f := pool_refs P f - 1)"
      using u by (auto simp: pool_refs_def pool_simps unat_dec fun_eq_iff)
    moreover have "pool_refs P f \<noteq> 1" using r False by (metis unsigned_1 unsigned_word_eqI)
    ultimately show ?thesis using rel
      by (intro that [of "upd_frame f (\<lambda>fr. fr\<lparr>f_refs := f_refs fr - 1\<rparr>) P" "[]"]) (auto simp: pool_simps)
  qed
qed

lemma dispatch_heapD: "dispatch r = (P', c) \<Longrightarrow> fp_heap P' = fp_heap (fst r)"
  by (metis dispatch_proj(2) fst_conv)

lemma release_heap:
  "release_frame f P = Some (P', c) \<Longrightarrow>
    fp_heap P' = (fp_heap P)(f := (fp_heap P f)\<lparr>f_refs := f_refs (fp_heap P f) - 1\<rparr>)"
  by (auto simp: release_frame_def Let_def pool_simps split: if_splits dest!: dispatch_heapD)

lemma addref_frame_ok:
  assumes ok: "pool_ok P" and f: "pool_refs P f \<noteq> 0" and lim: "pool_refs P f < 255"
  obtains P' where "addref_frame f P = Some P'" "pool_ok P'"
    "pool_refs P' = (pool_refs P)(f := pool_refs P f + 1)" "fp_free P' = fp_free P"
    "fp_total P' = fp_total P" "fp_framesize P' = fp_framesize P"
    "\<And>g. f_bytes (fp_heap P' g) = f_bytes (fp_heap P g) \<and> f_tx_ctrl_len (fp_heap P' g) = f_tx_ctrl_len (fp_heap P g)"
proof -
  have u: "f \<notin> set (fp_free P)" "f < unat (fp_total P)" "f_refs (fp_heap P f) \<noteq> 0"
    using f by (auto simp: pool_refs_def split: if_splits)
  have inc: "unat (f_refs (fp_heap P f) + 1) = Suc (unat (f_refs (fp_heap P f)))"
    using u lim unat_inc [of "f_refs (fp_heap P f)" "255 :: u8"] by (simp add: pool_refs_def)
  then have "f_refs (fp_heap P f) + 1 \<noteq> 0" by (metis nat.distinct(1) unat_0)
  with ok u(1,2) have "pool_ok (upd_frame f (\<lambda>fr. fr\<lparr>f_refs := f_refs fr + 1\<rparr>) P)"
    by (auto simp: pool_ok_def pool_simps)
  moreover have "pool_refs (upd_frame f (\<lambda>fr. fr\<lparr>f_refs := f_refs fr + 1\<rparr>) P)
      = (pool_refs P)(f := pool_refs P f + 1)"
    using u inc by (auto simp: pool_refs_def pool_simps fun_eq_iff)
  ultimately show ?thesis using u(3)
    by (intro that [of "upd_frame f (\<lambda>fr. fr\<lparr>f_refs := f_refs fr + 1\<rparr>) P"]) (auto simp: addref_frame_def pool_simps)
qed

lemma take_frame_refs:
  assumes "pool_ok P" "fp_free P = f # fs"
  shows "pool_refs (fst (snd (take_frame P))) = (pool_refs P)(f := 1)" "pool_refs P f = 0"
  using assms by (auto simp: pool_refs_def take_some [OF assms(2)] fresh_frame_def fun_eq_iff pool_ok_def)

section \<open>Watermark hysteresis\<close>

text \<open>
  The state is LOW only while no more than the high threshold is free, and NORMAL only while more
  than the low threshold is free: between the two thresholds the pool keeps its state.
\<close>

definition hysteresis :: "pool \<Rightarrow> bool" where
  "hysteresis P \<longleftrightarrow> fp_low_threshold P \<le> fp_high_threshold P
     \<and> (fp_state P = IOHDLC_POOL_NORMAL \<longrightarrow> unat (fp_low_threshold P) < length (fp_free P))
     \<and> (fp_state P = IOHDLC_POOL_LOW_WATER \<longrightarrow> length (fp_free P) \<le> unat (fp_high_threshold P))"

datatype pool_op = Take | Release nat | Addref nat

fun pool_step :: "pool_op \<Rightarrow> pool \<Rightarrow> pool option" where
  "pool_step Take P = Some (fst (snd (take_frame P)))"
| "pool_step (Release f) P = map_option fst (release_frame f P)"
| "pool_step (Addref f) P = addref_frame f P"

text \<open>An operation a client may issue: it only releases and shares frames it has references on.\<close>

fun op_allowed :: "pool_op \<Rightarrow> pool \<Rightarrow> bool" where
  "op_allowed Take P = True"
| "op_allowed (Release f) P = (pool_refs P f \<noteq> 0)"
| "op_allowed (Addref f) P = (pool_refs P f \<noteq> 0 \<and> pool_refs P f < 255)"

fun pool_run :: "pool_op list \<Rightarrow> pool \<Rightarrow> pool option" where
  "pool_run [] P = Some P"
| "pool_run (a # as) P = (case pool_step a P of None \<Rightarrow> None | Some P' \<Rightarrow> pool_run as P')"

fun run_allowed :: "pool_op list \<Rightarrow> pool \<Rightarrow> bool" where
  "run_allowed [] P = True"
| "run_allowed (a # as) P = (op_allowed a P \<and> (case pool_step a P of None \<Rightarrow> True | Some P' \<Rightarrow> run_allowed as P'))"

lemma check_low_hyst:
  assumes "pool_ok P" "fp_low_threshold P \<le> fp_high_threshold P"
    and "fp_state P = IOHDLC_POOL_LOW_WATER \<longrightarrow> length (fp_free P) \<le> unat (fp_high_threshold P)"
  shows "hysteresis (fst (dispatch (hdlc_pool_check_low_watermark P)))"
proof -
  have c: "unat (fp_total P - fp_allocated P) = length (fp_free P)"
    using free_count [OF assms(1)] by (simp add: hdlcPoolFree_def)
  with assms show ?thesis
    by (auto simp: hysteresis_def pool_simps hdlc_pool_check_low_watermark_def Let_def
        word_le_nat_alt)
qed

lemma check_high_hyst:
  assumes "pool_ok P" "fp_low_threshold P \<le> fp_high_threshold P"
    and "fp_state P = IOHDLC_POOL_NORMAL \<longrightarrow> unat (fp_low_threshold P) < length (fp_free P)"
  shows "hysteresis (fst (dispatch (hdlc_pool_check_high_watermark P)))"
proof -
  have c: "unat (fp_total P - fp_allocated P) = length (fp_free P)"
    using free_count [OF assms(1)] by (simp add: hdlcPoolFree_def)
  with assms show ?thesis
    by (cases "fp_state P") (auto simp: hysteresis_def pool_simps hdlc_pool_check_high_watermark_def Let_def
        word_le_nat_alt word_less_nat_alt)
qed

lemma take_hyst:
  assumes "pool_ok P" "hysteresis P"
  shows "hysteresis (fst (snd (take_frame P)))"
proof (cases "fp_free P")
  case (Cons f fs)
  let ?P1 = "upd_frame f fresh_frame (P\<lparr>fp_free := fs\<rparr>)"
  let ?P2 = "?P1\<lparr>fp_allocated := fp_allocated ?P1 + 1\<rparr>"
  have e: "fst (snd (take_frame P)) = fst (dispatch (hdlc_pool_check_low_watermark ?P2))"
    using Cons by (simp add: take_frame_def Let_def case_prod_beta)
  have "pool_ok ?P2"
    using take_frame_ok [OF assms(1)] take_some [OF Cons] by (simp add: pool_ok_def pool_simps)
  with assms(2) Cons show ?thesis
    unfolding e by (intro check_low_hyst) (auto simp: hysteresis_def pool_simps)
qed (simp add: take_none assms)

lemma hysteresis_frame_update:
  "hysteresis (upd_frame f g P) = hysteresis P"
  by (simp add: hysteresis_def pool_simps)

lemma release_hyst:
  assumes "pool_ok P" "hysteresis P" "pool_refs P f \<noteq> 0" "release_frame f P = Some (P', c)"
  shows "hysteresis P'"
proof (cases "f_refs (fp_heap P f) = 1")
  case True
  let ?P1 = "upd_frame f (\<lambda>fr. fr\<lparr>f_refs := f_refs fr - 1\<rparr>) P"
  let ?P2 = "?P1\<lparr>fp_free := f # fp_free ?P1, fp_allocated := fp_allocated ?P1 - 1\<rparr>"
  have e: "P' = fst (dispatch (hdlc_pool_check_high_watermark ?P2))"
    using assms(4) True by (simp add: release_frame_def Let_def pool_simps prod_eq_iff)
  from release_frame_ok [OF assms(1,3)] assms(4) have "pool_ok P'" by fastforce
  then have "pool_ok ?P2" unfolding e by (simp add: pool_ok_def pool_simps)
  with assms(2) show ?thesis
    unfolding e by (intro check_high_hyst) (auto simp: hysteresis_def pool_simps)
next
  case False
  with assms show ?thesis
    by (cases "f_refs (fp_heap P f) = 0")
      (auto simp: release_shared hysteresis_frame_update pool_refs_def split: if_splits)
qed

lemma pool_step_ok:
  assumes "pool_ok P" "hysteresis P" "op_allowed a P"
  shows "\<exists>P'. pool_step a P = Some P' \<and> pool_ok P' \<and> hysteresis P'"
proof (cases a)
  case (Release f)
  with assms(3) have f: "pool_refs P f \<noteq> 0" by simp
  from release_frame_ok [OF assms(1) f] obtain P' c
    where "release_frame f P = Some (P', c)" "pool_ok P'" by blast
  with release_hyst [OF assms(1,2) f] Release show ?thesis by auto
next
  case (Addref f)
  with assms(3) have f: "pool_refs P f \<noteq> 0" "pool_refs P f < 255" by simp_all
  from addref_frame_ok [OF assms(1) f] obtain P' where "addref_frame f P = Some P'" "pool_ok P'"
    by blast
  with assms(2) Addref show ?thesis
    by (auto simp: addref_frame_def hysteresis_frame_update split: if_splits)
qed (use assms take_frame_ok take_hyst in auto)

lemma build_free_rev: "build_free n = rev [0..<n]"
  by (induction n) auto

lemma fmpInit_ok: "pool_ok (fmpInit h n c)"
  by (auto simp: pool_ok_def fmpInit_def hdlc_pool_init_watermark_def build_free_rev)

lemma threshold_mono:
  assumes "low \<le> high" "high \<le> 100" "unat (t :: u32) * 100 < 2 ^ 32"
  shows "(t * ucast (low :: u8)) div 100 \<le> (t * ucast (high :: u8)) div 100"
proof -
  have u: "unat (t * ucast p) = unat t * unat p" if "p \<le> 100" for p :: u8
  proof -
    have "unat p \<le> 100" using that by (simp add: word_le_nat_alt)
    then have "unat t * unat p < 2 ^ 32" using assms(3) by (meson le_less_trans mult_le_mono2)
    moreover have "take_bit 32 (unat p) = unat p"
      using unat_lt [of p] by (intro take_bit_nat_eq_self) simp
    ultimately show ?thesis by (simp add: unat_word_ariths unsigned_ucast_eq)
  qed
  have "low \<le> 100" using assms by simp
  then show ?thesis
    using assms by (simp add: word_le_nat_alt unat_div u div_le_mono mult_le_mono2)
qed

lemma config_ok:
  assumes "pool_ok P" "unat (fp_total P) * 100 < 2 ^ 32"
    and "hdlcPoolConfigWatermark l h cl cn arg P = Some (P', c)"
  shows "pool_ok P'" "hysteresis P'" "fp_free P' = fp_free P" "fp_heap P' = fp_heap P"
    "fp_total P' = fp_total P" "fp_framesize P' = fp_framesize P"
proof -
  from assms(3) have lh: "l < h" "h \<le> 100"
    by (auto simp: hdlcPoolConfigWatermark_def Let_def split: if_splits)
  have t: "(fp_total P * ucast l) div 100 \<le> (fp_total P * ucast h) div 100"
    using lh assms(2) by (intro threshold_mono) auto
  have f: "unat (fp_total P - fp_allocated P) = length (fp_free P)"
    using free_count [OF assms(1)] by (simp add: hdlcPoolFree_def)
  from assms(3) show ok: "pool_ok P'" "fp_free P' = fp_free P" "fp_heap P' = fp_heap P"
    "fp_total P' = fp_total P" "fp_framesize P' = fp_framesize P"
    using assms(1) by (auto simp: hdlcPoolConfigWatermark_def Let_def pool_ok_def split: if_splits)
  from assms(3) show "hysteresis P'"
    using t f by (auto simp: hdlcPoolConfigWatermark_def Let_def hysteresis_def word_le_nat_alt
        split: if_splits)
qed

text \<open>C21: under any sequence of takes, shares and releases in which clients only give up
  references they hold, no assertion fails, the free list and the counters stay consistent and
  the watermark state stays a hysteresis.\<close>

theorem pool_run_consistent:
  assumes "pool_ok P" "hysteresis P" "run_allowed as P"
  shows "\<exists>P'. pool_run as P = Some P' \<and> pool_ok P' \<and> hysteresis P'"
  using assms
proof (induction as arbitrary: P)
  case (Cons a as)
  from pool_step_ok [OF Cons.prems(1,2)] Cons.prems(3) obtain P'
    where "pool_step a P = Some P'" "pool_ok P'" "hysteresis P'" by auto
  with Cons show ?case by auto
qed simp

theorem pool_run_consistent_witness:
  "\<exists>P P'. hdlcPoolConfigWatermark 20 40 None None 0
        (fmpInit (\<lambda>_. \<lparr>f_bytes = [], f_elen = 0, f_tx_len = 0, f_refs = 0, f_tx_ctrl_len = 0,
          f_openingflag = 0, f_gate_free = False, f_qaux_linked = False\<rparr>) 4 3) = Some (P, [])
      \<and> pool_run [Take, Addref 2, Take, Release 2, Release 1, Release 2] P = Some P' \<and> hysteresis P'"
proof -
  let ?h = "\<lambda>_::nat. \<lparr>f_bytes = [], f_elen = 0, f_tx_len = 0, f_refs = 0, f_tx_ctrl_len = 0,
          f_openingflag = 0, f_gate_free = False, f_qaux_linked = False\<rparr>"
  obtain P where P: "hdlcPoolConfigWatermark 20 40 None None 0 (fmpInit ?h 4 3) = Some (P, [])"
    by (simp add: hdlcPoolConfigWatermark_def fmpInit_def hdlc_pool_init_watermark_def Let_def)
  have "unat (fp_total (fmpInit ?h 4 3)) * 100 < 2 ^ 32"
    by (simp add: fmpInit_def hdlc_pool_init_watermark_def)
  note config_ok(1,2) [OF fmpInit_ok this P]
  moreover have "P = (fmpInit ?h 4 3)\<lparr>fp_low_pct := 20, fp_high_pct := 40, fp_low_threshold := 0,
      fp_high_threshold := 1\<rparr>"
    using P by (auto simp: hdlcPoolConfigWatermark_def fmpInit_def hdlc_pool_init_watermark_def Let_def)
  then have "run_allowed [Take, Addref 2, Take, Release 2, Release 1, Release 2] P"
    by (simp add: fmpInit_def hdlc_pool_init_watermark_def build_free_rev upt_rec
        take_frame_def release_frame_def addref_frame_def pool_refs_def Let_def pool_simps
        fresh_frame_def dispatch_def hdlc_pool_check_low_watermark_def hdlc_pool_check_high_watermark_def
        upd_frame_def)
  ultimately show ?thesis using pool_run_consistent [of P] P by blast
qed

section \<open>The contract of a frame pool\<close>

text \<open>
  What the layers above the pool rely on: a frame is handed out with one reference, sharing and
  releasing count up and down, and only the last release gives the frame back.
\<close>

fun release_n :: "(nat \<Rightarrow> 'p \<Rightarrow> 'p option) \<Rightarrow> nat \<Rightarrow> nat \<Rightarrow> 'p \<Rightarrow> 'p option" where
  "release_n rel f 0 P = Some P"
| "release_n rel f (Suc n) P = (case rel f P of None \<Rightarrow> None | Some P' \<Rightarrow> release_n rel f n P')"

locale frame_pool =
  fixes ok :: "'p \<Rightarrow> bool" and refs :: "'p \<Rightarrow> nat \<Rightarrow> nat" and avail :: "'p \<Rightarrow> nat"
    and take_op :: "'p \<Rightarrow> nat option \<times> 'p" and rel :: "nat \<Rightarrow> 'p \<Rightarrow> 'p option"
    and share :: "nat \<Rightarrow> 'p \<Rightarrow> 'p option"
  assumes take_empty: "ok P \<Longrightarrow> avail P = 0 \<Longrightarrow> take_op P = (None, P)"
    and take_avail: "ok P \<Longrightarrow> 0 < avail P \<Longrightarrow> \<exists>f P'. take_op P = (Some f, P') \<and> ok P'
      \<and> refs P f = 0 \<and> refs P' = (refs P)(f := 1) \<and> avail P' = avail P - 1"
    and rel_held: "ok P \<Longrightarrow> refs P f \<noteq> 0 \<Longrightarrow> \<exists>P'. rel f P = Some P' \<and> ok P'
      \<and> refs P' = (refs P)(f := refs P f - 1) \<and> avail P' = avail P + (if refs P f = 1 then 1 else 0)"
    and share_held: "ok P \<Longrightarrow> refs P f \<noteq> 0 \<Longrightarrow> refs P f < 255 \<Longrightarrow> \<exists>P'. share f P = Some P' \<and> ok P'
      \<and> refs P' = (refs P)(f := refs P f + 1) \<and> avail P' = avail P"
begin

lemma release_all:
  assumes "ok P" "refs P f = Suc n"
  shows "\<exists>P'. release_n rel f (Suc n) P = Some P' \<and> ok P' \<and> refs P' = (refs P)(f := 0)
    \<and> avail P' = avail P + 1"
  using assms
proof (induction n arbitrary: P)
  case 0
  with rel_held [of P f] show ?case by auto
next
  case (Suc n)
  from rel_held [OF Suc.prems(1), of f] Suc.prems(2) obtain P1
    where P1: "rel f P = Some P1" "ok P1" "refs P1 = (refs P)(f := Suc n)" "avail P1 = avail P"
    by auto
  have "refs P1 f = Suc n" using P1 by simp
  from Suc.IH [OF P1(2) this] obtain P' where "release_n rel f (Suc n) P1 = Some P'" "ok P'"
    "refs P' = (refs P1)(f := 0)" "avail P' = avail P1 + 1" by blast
  with P1 show ?case by (intro exI [of _ P']) (simp add: fun_upd_upd)
qed

lemma take_release:
  assumes "ok P" "take_op P = (Some f, P1)" "0 < avail P"
  shows "\<exists>P2. rel f P1 = Some P2 \<and> ok P2 \<and> refs P2 = refs P \<and> avail P2 = avail P"
proof -
  from take_avail [OF assms(1,3)] assms(2) have P1: "ok P1" "refs P f = 0" "refs P1 = (refs P)(f := 1)"
    "avail P1 = avail P - 1" by auto
  from rel_held [OF P1(1), of f] P1 show ?thesis using assms(3) by (auto simp: fun_upd_idem)
qed

end

interpretation fmp: frame_pool pool_ok pool_refs "\<lambda>P. length (fp_free P)"
  "\<lambda>P. (fst (take_frame P), fst (snd (take_frame P)))" "\<lambda>f P. map_option fst (release_frame f P)" addref_frame
proof (unfold_locales, goal_cases)
  case (1 P)
  then show ?case by (simp add: take_none)
next
  case (2 P)
  then obtain f fs where fs: "fp_free P = f # fs" by (cases "fp_free P") auto
  show ?case
    using take_some [OF fs] take_frame_ok [OF 2(1)] take_frame_refs [OF 2(1) fs] fs by auto
next
  case (3 P f)
  from release_frame_ok [OF 3] obtain P' c where "release_frame f P = Some (P', c)" "pool_ok P'"
    "pool_refs P' = (pool_refs P)(f := pool_refs P f - 1)"
    "length (fp_free P') = length (fp_free P) + (if pool_refs P f = 1 then 1 else 0)" by blast
  then show ?case by auto
next
  case (4 P f)
  from addref_frame_ok [OF 4] show ?case by (metis (no_types, lifting))
qed

text \<open>A frame shared \<open>n\<close> times goes back to the free list with exactly the last of its
  \<open>n + 1\<close> releases, and no other frame's count changes.\<close>

theorem last_release_frees:
  assumes "pool_ok P" "pool_refs P f = Suc n"
  shows "\<exists>P'. release_n (\<lambda>f P. map_option fst (release_frame f P)) f (Suc n) P = Some P'
    \<and> pool_refs P' = (pool_refs P)(f := 0) \<and> length (fp_free P') = length (fp_free P) + 1"
  using fmp.release_all [OF assms] by blast

theorem last_release_frees_witness:
  "\<exists>P P'. pool_refs P 1 = 1 \<and> release_n (\<lambda>f P. map_option fst (release_frame f P)) 1 1 P = Some P'
    \<and> length (fp_free P') = 2"
proof -
  let ?h = "\<lambda>_::nat. \<lparr>f_bytes = [], f_elen = 0, f_tx_len = 0, f_refs = 0, f_tx_ctrl_len = 0,
          f_openingflag = 0, f_gate_free = False, f_qaux_linked = False\<rparr>"
  let ?P = "fst (snd (take_frame (fmpInit ?h 4 2)))"
  have fr: "fp_free (fmpInit ?h 4 2) = 1 # [0]"
    by (simp add: fmpInit_def hdlc_pool_init_watermark_def build_free_rev upt_rec)
  have "pool_ok ?P" "pool_refs ?P 1 = Suc 0"
    using take_frame_ok [OF fmpInit_ok] take_frame_refs [OF fmpInit_ok fr] by simp_all
  moreover from last_release_frees [OF this] obtain P'
    where "release_n (\<lambda>f P. map_option fst (release_frame f P)) 1 (Suc 0) ?P = Some P'"
      "length (fp_free P') = length (fp_free ?P) + 1" by blast
  ultimately show ?thesis using take_some(2) [OF fr]
    by (intro exI [of _ ?P] exI [of _ P']) (simp del: release_n.simps)
qed

section \<open>The arena\<close>

lemma unat_align_up:
  assumes "unat v + 2 ^ k < 2 ^ 64" "k < 64"
  shows "unat (iohdlc_fmempool_align_up v (2 ^ k)) = (unat v + 2 ^ k - 1) div 2 ^ k * 2 ^ k"
proof -
  have m: "(2 ^ k - 1 :: u64) = mask k" by (simp add: mask_eq_decr_exp)
  have a: "x AND NOT (mask k) = push_bit k (drop_bit k x)" for x :: u64
    by (rule bit_word_eqI) (auto simp: bit_simps)
  have mk: "(mask k :: u64) = word_of_nat (2 ^ k - 1)"
    by (simp add: mask_eq_exp_minus_1 of_nat_diff)
  have "(2 :: nat) ^ k < 2 ^ 64" using assms(2) by (intro power_strict_increasing) auto
  then have "take_bit 64 (2 ^ k - 1 :: nat) = 2 ^ k - 1" by (intro take_bit_nat_eq_self) linarith
  then have "unat (mask k :: u64) = 2 ^ k - 1"
    unfolding mk unsigned_of_nat by simp
  then have u: "unat (v + mask k) = unat v + (2 ^ k - 1)"
    using assms(1) by (simp add: unat_word_ariths)
  have "unat (push_bit k (drop_bit k x)) = unat x div 2 ^ k * 2 ^ k" for x :: u64
  proof -
    have "unat x div 2 ^ k * 2 ^ k \<le> unat x" by (rule div_times_less_eq_dividend)
    also have "\<dots> < 2 ^ 64" using unat_lt [of x] by simp
    finally show ?thesis
      unfolding unsigned_push_bit_eq unsigned_drop_bit_eq
      using unat_lt [of x] by (simp add: take_bit_nat_eq_self drop_bit_eq_div push_bit_eq_mult)
  qed
  moreover have "iohdlc_fmempool_align_up v (2 ^ k) = push_bit k (drop_bit k (v + mask k))"
    unfolding iohdlc_fmempool_align_up_def add_diff_eq [symmetric] m a ..
  ultimately show ?thesis using u by simp
qed

lemma align_up_bounds:
  assumes "unat v + 2 ^ k < 2 ^ 64" "k < 64"
  shows "unat v \<le> unat (iohdlc_fmempool_align_up v (2 ^ k))"
    "2 ^ k dvd unat (iohdlc_fmempool_align_up v (2 ^ k))"
proof -
  have "(unat v + 2 ^ k - 1) div 2 ^ k * 2 ^ k + (unat v + 2 ^ k - 1) mod 2 ^ k = unat v + 2 ^ k - 1"
    by (rule div_mult_mod_eq)
  moreover have "(unat v + 2 ^ k - 1) mod 2 ^ k < (2 :: nat) ^ k" by simp
  ultimately show "unat v \<le> unat (iohdlc_fmempool_align_up v (2 ^ k))"
    unfolding unat_align_up [OF assms] by linarith
  show "2 ^ k dvd unat (iohdlc_fmempool_align_up v (2 ^ k))" by (simp add: unat_align_up [OF assms])
qed

text \<open>When nothing wraps, every slot of the layout is aligned, lies inside the arena, is
  large enough for a header and a payload, and does not overlap the next one.\<close>

theorem layout_slots_fit:
  assumes "k < 32" "min_obj \<le> 2 ^ k" "payload \<le> 2 ^ k" "data_align \<le> payload" "0 < unat (hdr + fs)"
    and "unat arena + unat asize + 2 ^ k < 2 ^ 64" "unat (hdr + fs) + 2 ^ k < 2 ^ 64"
    and "L = iohdlc_fmempool_layout data_align min_obj hdr payload arena asize fs (2 ^ k)"
    and "i < unat (lay_count L)"
  shows "2 ^ k dvd unat (lay_base L) + i * unat (lay_element_size L)
    \<and> unat arena \<le> unat (lay_base L) + i * unat (lay_element_size L)
    \<and> unat (lay_base L) + (i + 1) * unat (lay_element_size L) \<le> unat arena + unat asize
    \<and> unat (hdr + fs) \<le> unat (lay_element_size L)"
proof -
  let ?e = "iohdlc_fmempool_align_up (hdr + fs) (2 ^ k)"
  let ?b = "iohdlc_fmempool_align_up arena (2 ^ k)"
  let ?f = "arena + asize"
  have k: "k < 64" using assms(1) by simp
  have f: "unat ?f = unat arena + unat asize"
    using assms(6) by (simp add: unat_word_ariths)
  have e: "unat (hdr + fs) \<le> unat ?e" "2 ^ k dvd unat ?e"
    using align_up_bounds [OF assms(7) k] by simp_all
  have b: "unat arena \<le> unat ?b" "2 ^ k dvd unat ?b"
    using align_up_bounds [of arena k] k assms(6) by simp_all
  have nb: "\<not> ?f \<le> ?b"
    using assms(2,3,4,8,9) by (auto simp: iohdlc_fmempool_layout_def Let_def split: if_splits)
  then have L: "lay_base L = ?b" "lay_element_size L = ?e" "lay_count L = ucast ((?f - ?b) div ?e)"
    using assms(2,3,4,8) by (auto simp: iohdlc_fmempool_layout_def Let_def split: if_splits)
  have "unat (lay_count L) \<le> unat ((?f - ?b) div ?e)"
    by (simp add: L(3) unsigned_ucast_eq take_bit_eq_mod)
  also have "\<dots> = (unat ?f - unat ?b) div unat ?e"
    using nb by (simp add: unat_div unat_sub)
  finally have "i + 1 \<le> (unat ?f - unat ?b) div unat ?e" using assms(9) by simp
  then have "(i + 1) * unat ?e \<le> (unat ?f - unat ?b) div unat ?e * unat ?e"
    by (rule mult_le_mono1)
  also have "\<dots> \<le> unat ?f - unat ?b" by (rule div_times_less_eq_dividend)
  finally have "(i + 1) * unat ?e \<le> unat ?f - unat ?b" .
  moreover have "unat ?b \<le> unat ?f" using nb by (simp add: word_le_nat_alt)
  ultimately have "unat ?b + (i + 1) * unat ?e \<le> unat arena + unat asize"
    unfolding f [symmetric] by linarith
  with e b show ?thesis unfolding L(1,2) by auto
qed

theorem layout_slots_fit_witness:
  "let L = iohdlc_fmempool_layout 1 8 64 8 0x1004 4096 32 (2 ^ 3)
   in unat (lay_count L) = 42 \<and> 2 ^ 3 dvd unat (lay_base L) + 41 * unat (lay_element_size L)"
proof -
  let ?L = "iohdlc_fmempool_layout 1 8 64 8 0x1004 4096 32 (2 ^ 3)"
  have c: "unat (lay_count ?L) = 42"
    by (simp add: iohdlc_fmempool_layout_def iohdlc_fmempool_align_up_def Let_def)
  show ?thesis
    using layout_slots_fit [where k = 3 and min_obj = 8 and payload = 8 and data_align = 1 and hdr = 64
        and fs = 32 and arena = "0x1004" and asize = 4096 and L = ?L and i = 41] c by (simp add: Let_def)
qed

end
