(* ===== verification/Hdlc_Station.thy ===== *)
theory Hdlc_Station
  imports Hdlc_Pool "HOL-Library.Monad_Syntax"
begin

text \<open>
  The state of a station and its peers (\<open>include/ioHdlc.h\<close>), the event flags
  (\<open>include/ioHdlc_events.h\<close>, \<open>include/ioHdlc_app_events.h\<close>), the timers of
  \<open>src/ioHdlc_runner.c\<close>, and the state monad in which the protocol core is written. Peers
  live in a store indexed by numbers, a pointer to a peer is its index, and the circular peer
  list is the list of indices. Frame queues are lists of frame numbers. The driver is an
  environment: each call of \<open>hdlcSendFrame\<close> takes the next outcome from a script, and the
  octets it accepts are logged. A failed assertion or a null dereference sets a sticky fault.
\<close>

section \<open>Constants\<close>

definition IOHDLC_OM_ABM :: u8 where "IOHDLC_OM_ABM = 0x01"
definition IOHDLC_OM_ARM :: u8 where "IOHDLC_OM_ARM = 0x02"
definition IOHDLC_OM_NRM :: u8 where "IOHDLC_OM_NRM = 0x03"
definition IOHDLC_OM_NDM :: u8 where "IOHDLC_OM_NDM = 0x04"
definition IOHDLC_OM_ADM :: u8 where "IOHDLC_OM_ADM = 0x05"

definition IOHDLC_FLG_PRI :: u8 where "IOHDLC_FLG_PRI = 0x01"
definition IOHDLC_FLG_TWA :: u8 where "IOHDLC_FLG_TWA = 0x02"
definition IOHDLC_FLG_IDL :: u8 where "IOHDLC_FLG_IDL = 0x04"
definition IOHDLC_FLG_BUSY :: u8 where "IOHDLC_FLG_BUSY = 0x08"

definition IOHDLC_CFLG_FFF :: u8 where "IOHDLC_CFLG_FFF = 0x01"
definition IOHDLC_CFLG_REJ :: u8 where "IOHDLC_CFLG_REJ = 0x02"
definition IOHDLC_CFLG_STB :: u8 where "IOHDLC_CFLG_STB = 0x04"

definition IOHDLC_P_RCVED :: u8 where "IOHDLC_P_RCVED = 0x01"
definition IOHDLC_F_RCVED :: u8 where "IOHDLC_F_RCVED = 0x02"

definition IOHDLC_UM_SENT :: u8 where "IOHDLC_UM_SENT = 0x01"
definition IOHDLC_UM_RCVED :: u8 where "IOHDLC_UM_RCVED = 0x02"

definition IOHDLC_SS_BUSY :: u8 where "IOHDLC_SS_BUSY = 0x01"
definition IOHDLC_SS_REJPEND :: u8 where "IOHDLC_SS_REJPEND = 0x02"
definition IOHDLC_SS_NEED_P :: u8 where "IOHDLC_SS_NEED_P = 0x08"
definition IOHDLC_SS_TERM_ORDERLY :: u8 where "IOHDLC_SS_TERM_ORDERLY = 0x10"
definition IOHDLC_SS_TERM_ABORTED :: u8 where "IOHDLC_SS_TERM_ABORTED = 0x20"
definition IOHDLC_SS_SENDING :: u8 where "IOHDLC_SS_SENDING = 0x40"
definition IOHDLC_SS_ST_CONN :: u8 where "IOHDLC_SS_ST_CONN = 0x80"
definition IOHDLC_STREAM_TX_RESET_PENDING :: u8 where "IOHDLC_STREAM_TX_RESET_PENDING = 0x01"

lemmas state_consts = IOHDLC_OM_ABM_def IOHDLC_OM_ARM_def IOHDLC_OM_NRM_def IOHDLC_OM_NDM_def
  IOHDLC_OM_ADM_def IOHDLC_FLG_PRI_def IOHDLC_FLG_TWA_def IOHDLC_FLG_IDL_def IOHDLC_FLG_BUSY_def
  IOHDLC_CFLG_FFF_def IOHDLC_CFLG_REJ_def IOHDLC_CFLG_STB_def IOHDLC_P_RCVED_def
  IOHDLC_F_RCVED_def IOHDLC_UM_SENT_def IOHDLC_UM_RCVED_def IOHDLC_SS_BUSY_def
  IOHDLC_SS_REJPEND_def IOHDLC_SS_NEED_P_def IOHDLC_SS_TERM_ORDERLY_def
  IOHDLC_SS_TERM_ABORTED_def IOHDLC_SS_SENDING_def IOHDLC_SS_ST_CONN_def
  IOHDLC_STREAM_TX_RESET_PENDING_def

definition IOHDLC_EVT_C_RPLYTMO :: u32 where "IOHDLC_EVT_C_RPLYTMO = 0x0001"
definition IOHDLC_EVT_T3_TMO :: u32 where "IOHDLC_EVT_T3_TMO = 0x0002"
definition IOHDLC_EVT_I_RECVD :: u32 where "IOHDLC_EVT_I_RECVD = 0x0004"
definition IOHDLC_EVT_RR_RECVD :: u32 where "IOHDLC_EVT_RR_RECVD = 0x0008"
definition IOHDLC_EVT_RNR_RECVD :: u32 where "IOHDLC_EVT_RNR_RECVD = 0x0010"
definition IOHDLC_EVT_xREJ_RECVD :: u32 where "IOHDLC_EVT_xREJ_RECVD = 0x0020"
definition IOHDLC_EVT_POOL_ST_CHG :: u32 where "IOHDLC_EVT_POOL_ST_CHG = 0x0040"
definition IOHDLC_EVT_UM_RECVD :: u32 where "IOHDLC_EVT_UM_RECVD = 0x0080"
definition IOHDLC_EVT_LINK_ST_CHG :: u32 where "IOHDLC_EVT_LINK_ST_CHG = 0x0100"
definition IOHDLC_EVT_LINK_REQ :: u32 where "IOHDLC_EVT_LINK_REQ = 0x0200"
definition IOHDLC_EVT_LINE_IDLE :: u32 where "IOHDLC_EVT_LINE_IDLE = 0x0400"
definition IOHDLC_EVT_LINK_DOWN :: u32 where "IOHDLC_EVT_LINK_DOWN = 0x0800"
definition IOHDLC_EVT_TX_IFRM_ENQ :: u32 where "IOHDLC_EVT_TX_IFRM_ENQ = 0x1000"
definition IOHDLC_EVT_REJ_ACTED :: u32 where "IOHDLC_EVT_REJ_ACTED = 0x2000"
definition IOHDLC_EVT_PF_RECVD :: u32 where "IOHDLC_EVT_PF_RECVD = 0x4000"
definition IOHDLC_EVT_UI_ENQ :: u32 where "IOHDLC_EVT_UI_ENQ = 0x8000"

lemmas evt_consts = IOHDLC_EVT_C_RPLYTMO_def IOHDLC_EVT_T3_TMO_def IOHDLC_EVT_I_RECVD_def
  IOHDLC_EVT_RR_RECVD_def IOHDLC_EVT_RNR_RECVD_def IOHDLC_EVT_xREJ_RECVD_def
  IOHDLC_EVT_POOL_ST_CHG_def IOHDLC_EVT_UM_RECVD_def IOHDLC_EVT_LINK_ST_CHG_def
  IOHDLC_EVT_LINK_REQ_def IOHDLC_EVT_LINE_IDLE_def IOHDLC_EVT_LINK_DOWN_def
  IOHDLC_EVT_TX_IFRM_ENQ_def IOHDLC_EVT_REJ_ACTED_def IOHDLC_EVT_PF_RECVD_def IOHDLC_EVT_UI_ENQ_def

definition IOHDLC_APP_LINK_UP :: u32 where "IOHDLC_APP_LINK_UP = 0x0001"
definition IOHDLC_APP_LINK_REFUSED :: u32 where "IOHDLC_APP_LINK_REFUSED = 0x0002"
definition IOHDLC_APP_LINK_DOWN :: u32 where "IOHDLC_APP_LINK_DOWN = 0x0004"
definition IOHDLC_APP_LINK_LOST :: u32 where "IOHDLC_APP_LINK_LOST = 0x0010"
definition IOHDLC_APP_FRMR_RECEIVED :: u32 where "IOHDLC_APP_FRMR_RECEIVED = 0x0040"
definition IOHDLC_APP_UI_RECEIVED :: u32 where "IOHDLC_APP_UI_RECEIVED = 0x0080"
definition IOHDLC_APP_INTERNAL_TEST_DONE :: u32 where "IOHDLC_APP_INTERNAL_TEST_DONE = 0x0100"

definition IOHDLC_LAST_RETRY_T1_RATIO :: u64 where "IOHDLC_LAST_RETRY_T1_RATIO = 5"
definition IOHDLC_LAST_RETRY_TIMEOUT_MIN_MS :: u64 where "IOHDLC_LAST_RETRY_TIMEOUT_MIN_MS = 100"
definition IOHDLC_DFL_T3_IFRAME_T1_RATIO :: u32 where "IOHDLC_DFL_T3_IFRAME_T1_RATIO = 5"

text \<open>The listener of the transmit thread registers for these flags only.\<close>

definition tx_flags_mask :: u32 where
  "tx_flags_mask = IOHDLC_EVT_C_RPLYTMO OR IOHDLC_EVT_T3_TMO OR IOHDLC_EVT_I_RECVD
     OR IOHDLC_EVT_RR_RECVD OR IOHDLC_EVT_RNR_RECVD OR IOHDLC_EVT_POOL_ST_CHG
     OR IOHDLC_EVT_LINK_ST_CHG OR IOHDLC_EVT_UM_RECVD OR IOHDLC_EVT_LINK_REQ
     OR IOHDLC_EVT_LINE_IDLE OR IOHDLC_EVT_xREJ_RECVD OR IOHDLC_EVT_TX_IFRM_ENQ
     OR IOHDLC_EVT_REJ_ACTED OR IOHDLC_EVT_PF_RECVD OR IOHDLC_EVT_UI_ENQ"

section \<open>State\<close>

datatype timer_kind = IOHDLC_TIMER_REPLY | IOHDLC_TIMER_T3

datatype rx_handler = RxNone | RxNrm | RxAbm

record vtimer =
  t_armed :: bool
  t_expired :: bool
  t_delay :: u32

record peer =
  p_addr :: u32
  p_ks :: u32
  p_kr :: u32
  p_mifls :: u32
  p_miflr :: u32
  p_vs :: u32
  p_vr :: u32
  p_nr :: u32
  p_vs_highest :: u32
  p_rej_actioned :: u32
  p_chkpt_actioned :: u32
  p_vs_atlast_pf :: u32
  p_t3_expected_nr :: u32
  p_i_pending_count :: u32
  p_um_state :: u8
  p_ss_state :: u8
  p_um_cmd :: u8
  p_um_rsp :: u8
  p_um_api_frame :: "nat option"
  p_um_rsp_frame :: "nat option"
  p_ui_tx_pending :: bool
  p_ui_rx_pending :: bool
  p_stream_terminal_pending :: u8
  p_ui_tx_value :: u32
  p_ui_rx_value :: u32
  p_retrans_q :: "nat list"
  p_recept_q :: "nat list"
  p_trans_q :: "nat list"
  p_tx_cv :: nat
  p_rx_cv :: nat
  p_partial_read_frame :: "nat option"
  p_partial_read_offset :: nat
  p_reply_tmr :: vtimer
  p_t3_tmr :: vtimer
  p_poll_retry_count :: u8
  p_poll_retry_max :: u8
  p_frmr_condition :: bool
  p_frmr_ctrl0 :: u8
  p_frmr_ctrl1 :: u8
  p_frmr_reason :: u8
  p_frmr_cr :: bool

text \<open>
  What the driver does with a frame it is asked to send: reject it, keep a reference until the
  transfer completes, or transmit an encoded copy held in a frame of its own.
\<close>

datatype tx_outcome = TxErr int | TxHold | TxCopy

record station =
  s_mode :: u8
  s_flags :: u8
  s_pf_state :: u8
  s_framing :: framing
  s_fcs_size :: u8
  s_flags_critical :: u8
  s_optfuncs :: "u8 list"
  s_reply_timeout_ms :: u16
  s_poll_retry_max_cfg :: u8
  s_idle_poll_timeout_ms :: u32
  s_port_constraints :: u32
  s_addr :: u32
  s_c_peer :: "nat option"
  s_connected_count :: u8
  s_peer_list :: "nat list"
  s_peers :: "nat \<Rightarrow> peer"
  s_pool :: pool
  s_rx_fn :: rx_handler
  s_cm_flags :: u32
  s_app_log :: "u32 list"
  s_stop_requested :: bool
  s_driver_started :: bool
  s_runner_started :: bool
  s_tx_script :: "tx_outcome list"
  s_sent :: "u8 list list"
  s_tx_pipe :: "nat list"
  s_pool_calls :: cb_calls
  s_fault :: bool

section \<open>The state monad\<close>

type_synonym 'a hdlc = "(station, 'a) state"

definition gets :: "(station \<Rightarrow> 'a) \<Rightarrow> 'a hdlc" where
  "gets f = State (\<lambda>s. (f s, s))"

definition modify :: "(station \<Rightarrow> station) \<Rightarrow> unit hdlc" where
  "modify f = State (\<lambda>s. ((), f s))"

definition ret :: "'a \<Rightarrow> 'a hdlc" where
  "ret = State_Monad.return"

definition whenM :: "bool \<Rightarrow> unit hdlc \<Rightarrow> unit hdlc" where
  "whenM b m = (if b then m else ret ())"

definition exec :: "'a hdlc \<Rightarrow> station \<Rightarrow> station" where
  "exec m s = snd (run_state m s)"

definition result :: "'a hdlc \<Rightarrow> station \<Rightarrow> 'a" where
  "result m s = fst (run_state m s)"

text \<open>Weakest preconditions: \<open>wp m Q s\<close> says that \<open>m\<close>, run in \<open>s\<close>, ends in \<open>Q\<close>.\<close>

definition wp :: "'a hdlc \<Rightarrow> ('a \<Rightarrow> station \<Rightarrow> bool) \<Rightarrow> station \<Rightarrow> bool" where
  "wp m Q s = Q (result m s) (exec m s)"

named_theorems wps \<open>weakest preconditions of the primitives\<close>

lemma wp_gets [wps, simp]: "wp (gets f) Q s = Q (f s) s"
  by (simp add: wp_def result_def exec_def gets_def)

lemma wp_modify [wps, simp]: "wp (modify f) Q s = Q () (f s)"
  by (simp add: wp_def result_def exec_def modify_def)

lemma wp_ret [wps, simp]: "wp (ret x) Q s = Q x s"
  by (simp add: wp_def result_def exec_def ret_def State_Monad.return_def)

lemma wp_bind [wps, simp]: "wp (m \<bind> f) Q s = wp m (\<lambda>x. wp (f x) Q) s"
  by (simp add: wp_def result_def exec_def case_prod_beta)

lemma wp_when [wps, simp]: "wp (whenM b m) Q s = (if b then wp m Q s else Q () s)"
  by (simp add: whenM_def)

lemma wp_if [wps, simp]: "wp (if b then m else m') Q s = (if b then wp m Q s else wp m' Q s)"
  by simp

lemma wp_case_option [wps, simp]:
  "wp (case x of None \<Rightarrow> m | Some y \<Rightarrow> f y) Q s = (case x of None \<Rightarrow> wp m Q s | Some y \<Rightarrow> wp (f y) Q s)"
  by (simp split: option.split)

lemma wp_mono: "wp m Q s \<Longrightarrow> (\<And>x t. Q x t \<Longrightarrow> R x t) \<Longrightarrow> wp m R s"
  by (simp add: wp_def)

lemma wp_conj: "wp m (\<lambda>x t. Q x t \<and> R x t) s \<longleftrightarrow> wp m Q s \<and> wp m R s"
  by (simp add: wp_def)

lemma wp_exec: "wp m (\<lambda>_ t. Q t) s \<longleftrightarrow> Q (exec m s)"
  by (simp add: wp_def)

lemma run_simps [simp]:
  "exec (gets f) s = s" "result (gets f) s = f s" "exec (modify g) s = g s"
  "exec (ret x) s = s" "result (ret x) s = x"
  "exec (m \<bind> k) s = exec (k (result m s)) (exec m s)"
  "result (m \<bind> k) s = result (k (result m s)) (exec m s)"
  by (simp_all add: exec_def result_def gets_def modify_def ret_def State_Monad.return_def case_prod_beta)

lemma run_when [simp]: "exec (whenM b m) s = (if b then exec m s else s)"
  by (simp add: whenM_def)

section \<open>Access to the state\<close>

definition upd_peer :: "nat \<Rightarrow> (peer \<Rightarrow> peer) \<Rightarrow> station \<Rightarrow> station" where
  "upd_peer p g s = s\<lparr>s_peers := (s_peers s)(p := g (s_peers s p))\<rparr>"

definition getP :: "nat \<Rightarrow> (peer \<Rightarrow> 'a) \<Rightarrow> 'a hdlc" where
  "getP p f = gets (\<lambda>s. f (s_peers s p))"

definition updP :: "nat \<Rightarrow> (peer \<Rightarrow> peer) \<Rightarrow> unit hdlc" where
  "updP p g = modify (upd_peer p g)"

definition faultM :: "unit hdlc" where
  "faultM = modify (\<lambda>s. s\<lparr>s_fault := True\<rparr>)"

definition assertM :: "bool \<Rightarrow> unit hdlc" where
  "assertM b = whenM (\<not> b) faultM"

definition frame_of :: "station \<Rightarrow> nat \<Rightarrow> frame" where
  "frame_of s f = fp_heap (s_pool s) f"

definition updF :: "nat \<Rightarrow> (frame \<Rightarrow> frame) \<Rightarrow> unit hdlc" where
  "updF f g = modify (\<lambda>s. s\<lparr>s_pool := upd_frame f g (s_pool s)\<rparr>)"

end
