(* ===== verification/Hdlc_Ops.thy ===== *)
theory Hdlc_Ops
  imports Hdlc_Station
begin

text \<open>
  The operations the protocol core is written with: the station predicates of
  \<open>include/ioHdlc.h\<close>, event broadcasting, the timers of \<open>src/ioHdlc_runner.c\<close>, the
  frame pool and driver calls, and the builders of U-, S- and FRMR frames of
  \<open>src/ioHdlc_core.c\<close>.
\<close>

section \<open>Station and peer predicates\<close>

definition IOHDLC_IS_PRI :: "station \<Rightarrow> bool" where
  "IOHDLC_IS_PRI s = has (s_flags s) IOHDLC_FLG_PRI"

definition IOHDLC_IS_SEC :: "station \<Rightarrow> bool" where
  "IOHDLC_IS_SEC s = (\<not> has (s_flags s) IOHDLC_FLG_PRI)"

definition IOHDLC_IS_BUSY :: "station \<Rightarrow> bool" where
  "IOHDLC_IS_BUSY s = has (s_flags s) IOHDLC_FLG_BUSY"

definition IOHDLC_IS_DISC :: "station \<Rightarrow> bool" where
  "IOHDLC_IS_DISC s = (s_mode s = IOHDLC_OM_NDM \<or> s_mode s = IOHDLC_OM_ADM)"

definition IOHDLC_IS_NRM :: "station \<Rightarrow> bool" where
  "IOHDLC_IS_NRM s = (s_mode s = IOHDLC_OM_NRM)"

definition IOHDLC_IS_NDM :: "station \<Rightarrow> bool" where
  "IOHDLC_IS_NDM s = (s_mode s = IOHDLC_OM_NDM)"

definition IOHDLC_IS_ABM :: "station \<Rightarrow> bool" where
  "IOHDLC_IS_ABM s = (s_mode s = IOHDLC_OM_ABM)"

definition IOHDLC_IS_ARM :: "station \<Rightarrow> bool" where
  "IOHDLC_IS_ARM s = (s_mode s = IOHDLC_OM_ARM)"

definition IOHDLC_IS_ADM :: "station \<Rightarrow> bool" where
  "IOHDLC_IS_ADM s = (s_mode s = IOHDLC_OM_ADM)"

definition IOHDLC_P_ISRCVED :: "station \<Rightarrow> bool" where
  "IOHDLC_P_ISRCVED s = has (s_pf_state s) IOHDLC_P_RCVED"

definition IOHDLC_F_ISRCVED :: "station \<Rightarrow> bool" where
  "IOHDLC_F_ISRCVED s = has (s_pf_state s) IOHDLC_F_RCVED"

definition IOHDLC_USE_REJ :: "station \<Rightarrow> bool" where
  "IOHDLC_USE_REJ s = has (s_flags_critical s) IOHDLC_CFLG_REJ"

definition IOHDLC_USE_TWA :: "station \<Rightarrow> bool" where
  "IOHDLC_USE_TWA s = has (s_flags s) IOHDLC_FLG_TWA"

definition IOHDLC_ST_IDLE :: "station \<Rightarrow> bool" where
  "IOHDLC_ST_IDLE s = has (s_flags s) IOHDLC_FLG_IDL"

definition IOHDLC_UM_ISSENT :: "peer \<Rightarrow> bool" where
  "IOHDLC_UM_ISSENT p = has (p_um_state p) IOHDLC_UM_SENT"

definition IOHDLC_PEER_DISC :: "peer \<Rightarrow> bool" where
  "IOHDLC_PEER_DISC p = (\<not> has (p_ss_state p) IOHDLC_SS_ST_CONN)"

definition IOHDLC_PEER_BUSY :: "peer \<Rightarrow> bool" where
  "IOHDLC_PEER_BUSY p = has (p_ss_state p) IOHDLC_SS_BUSY"

definition IOHDLC_NEED_P :: "peer \<Rightarrow> bool" where
  "IOHDLC_NEED_P p = has (p_ss_state p) IOHDLC_SS_NEED_P"

definition IOHDLC_UCMD_TO_MODE :: "u8 \<Rightarrow> u8" where
  "IOHDLC_UCMD_TO_MODE u_cmd =
     (if u_cmd = IOHDLC_U_SNRM then IOHDLC_OM_NRM
      else if u_cmd = IOHDLC_U_SARM then IOHDLC_OM_ARM
      else if u_cmd = IOHDLC_U_SABM then IOHDLC_OM_ABM else 0)"

definition IOHDLC_MODE_TO_UCMD :: "u8 \<Rightarrow> u8" where
  "IOHDLC_MODE_TO_UCMD mode =
     (if mode = IOHDLC_OM_NRM then IOHDLC_U_SNRM
      else if mode = IOHDLC_OM_ARM then IOHDLC_U_SARM
      else if mode = IOHDLC_OM_ABM then IOHDLC_U_SABM else 0)"

section \<open>Flag updates\<close>

definition pf_set :: "u8 \<Rightarrow> unit hdlc" where
  "pf_set m = modify (\<lambda>s. s\<lparr>s_pf_state := s_pf_state s OR m\<rparr>)"

definition IOHDLC_ACK_P :: "unit hdlc" where
  "IOHDLC_ACK_P = modify (\<lambda>s. s\<lparr>s_pf_state := s_pf_state s AND NOT IOHDLC_P_RCVED\<rparr>)"

definition IOHDLC_ACK_F :: "unit hdlc" where
  "IOHDLC_ACK_F = modify (\<lambda>s. s\<lparr>s_pf_state := s_pf_state s AND NOT IOHDLC_F_RCVED\<rparr>)"

definition flags_set :: "u8 \<Rightarrow> unit hdlc" where
  "flags_set m = modify (\<lambda>s. s\<lparr>s_flags := s_flags s OR m\<rparr>)"

definition flags_clr :: "u8 \<Rightarrow> unit hdlc" where
  "flags_clr m = modify (\<lambda>s. s\<lparr>s_flags := s_flags s AND NOT m\<rparr>)"

definition ss_set :: "nat \<Rightarrow> u8 \<Rightarrow> unit hdlc" where
  "ss_set p m = updP p (\<lambda>q. q\<lparr>p_ss_state := p_ss_state q OR m\<rparr>)"

definition ss_clr :: "nat \<Rightarrow> u8 \<Rightarrow> unit hdlc" where
  "ss_clr p m = updP p (\<lambda>q. q\<lparr>p_ss_state := p_ss_state q AND NOT m\<rparr>)"

definition um_set :: "nat \<Rightarrow> u8 \<Rightarrow> unit hdlc" where
  "um_set p m = updP p (\<lambda>q. q\<lparr>p_um_state := p_um_state q OR m\<rparr>)"

definition um_clr :: "nat \<Rightarrow> u8 \<Rightarrow> unit hdlc" where
  "um_clr p m = updP p (\<lambda>q. q\<lparr>p_um_state := p_um_state q AND NOT m\<rparr>)"

definition IOHDLC_SET_NEED_P :: "nat \<Rightarrow> unit hdlc" where
  "IOHDLC_SET_NEED_P p = do { pri \<leftarrow> gets IOHDLC_IS_PRI; whenM pri (ss_set p IOHDLC_SS_NEED_P) }"

definition IOHDLC_CLR_NEED_P :: "nat \<Rightarrow> unit hdlc" where
  "IOHDLC_CLR_NEED_P p = ss_clr p IOHDLC_SS_NEED_P"

section \<open>Events and condition variables\<close>

definition ioHdlcBroadcastFlags :: "u32 \<Rightarrow> unit hdlc" where
  "ioHdlcBroadcastFlags flags =
     modify (\<lambda>s. s\<lparr>s_cm_flags := s_cm_flags s OR (flags AND tx_flags_mask)\<rparr>)"

definition ioHdlcBroadcastFlagsApp :: "u32 \<Rightarrow> unit hdlc" where
  "ioHdlcBroadcastFlagsApp flags = modify (\<lambda>s. s\<lparr>s_app_log := s_app_log s @ [flags]\<rparr>)"

definition iohdlc_evt_get_and_clear_flags :: "u32 hdlc" where
  "iohdlc_evt_get_and_clear_flags = do {
     flags \<leftarrow> gets s_cm_flags;
     modify (\<lambda>s. s\<lparr>s_cm_flags := 0\<rparr>);
     ret flags }"

definition condvar_tx :: "nat \<Rightarrow> unit hdlc" where
  "condvar_tx p = updP p (\<lambda>q. q\<lparr>p_tx_cv := p_tx_cv q + 1\<rparr>)"

definition condvar_rx :: "nat \<Rightarrow> unit hdlc" where
  "condvar_rx p = updP p (\<lambda>q. q\<lparr>p_rx_cv := p_rx_cv q + 1\<rparr>)"

section \<open>Timers\<close>

definition iohdlc_vt_set :: "u32 \<Rightarrow> vtimer \<Rightarrow> vtimer" where
  "iohdlc_vt_set delay_ms t = \<lparr>t_armed = True, t_expired = False, t_delay = delay_ms\<rparr>"

definition iohdlc_vt_reset :: "vtimer \<Rightarrow> vtimer" where
  "iohdlc_vt_reset t = t\<lparr>t_armed := False, t_expired := False\<rparr>"

definition iohdlc_vt_is_armed :: "vtimer \<Rightarrow> bool" where
  "iohdlc_vt_is_armed t = t_armed t"

fun s_select_timer :: "timer_kind \<Rightarrow> peer \<Rightarrow> vtimer" where
  "s_select_timer IOHDLC_TIMER_T3 p = p_t3_tmr p"
| "s_select_timer IOHDLC_TIMER_REPLY p = p_reply_tmr p"

fun upd_timer :: "timer_kind \<Rightarrow> (vtimer \<Rightarrow> vtimer) \<Rightarrow> peer \<Rightarrow> peer" where
  "upd_timer IOHDLC_TIMER_T3 g p = p\<lparr>p_t3_tmr := g (p_t3_tmr p)\<rparr>"
| "upd_timer IOHDLC_TIMER_REPLY g p = p\<lparr>p_reply_tmr := g (p_reply_tmr p)\<rparr>"

fun timer_evt_flag :: "timer_kind \<Rightarrow> u32" where
  "timer_evt_flag IOHDLC_TIMER_T3 = IOHDLC_EVT_T3_TMO"
| "timer_evt_flag IOHDLC_TIMER_REPLY = IOHDLC_EVT_C_RPLYTMO"

definition ioHdlcStartReplyTimer :: "nat \<Rightarrow> timer_kind \<Rightarrow> u32 \<Rightarrow> unit hdlc" where
  "ioHdlcStartReplyTimer p k timeout_ms = updP p (upd_timer k (iohdlc_vt_set timeout_ms))"

definition ioHdlcRestartReplyTimer :: "nat \<Rightarrow> timer_kind \<Rightarrow> u32 \<Rightarrow> unit hdlc" where
  "ioHdlcRestartReplyTimer p k timeout_ms = do {
     t \<leftarrow> getP p (s_select_timer k);
     whenM (iohdlc_vt_is_armed t) (updP p (upd_timer k (iohdlc_vt_set timeout_ms))) }"

definition ioHdlcStopReplyTimer :: "nat \<Rightarrow> timer_kind \<Rightarrow> unit hdlc" where
  "ioHdlcStopReplyTimer p k = updP p (upd_timer k iohdlc_vt_reset)"

definition ioHdlcIsReplyTimerExpired :: "nat \<Rightarrow> timer_kind \<Rightarrow> bool hdlc" where
  "ioHdlcIsReplyTimerExpired p k = do {
     t \<leftarrow> getP p (s_select_timer k);
     ret (\<not> iohdlc_vt_is_armed t \<and> t_expired t) }"

text \<open>Expiry of an armed timer: \<open>timer_signal_handler\<close> followed by \<open>s_timer_cb\<close>.\<close>

definition timer_signal_handler :: "nat \<Rightarrow> timer_kind \<Rightarrow> unit hdlc" where
  "timer_signal_handler p k = do {
     t \<leftarrow> getP p (s_select_timer k);
     whenM (t_armed t) (do {
       updP p (upd_timer k (\<lambda>t. t\<lparr>t_armed := False, t_expired := True\<rparr>));
       ioHdlcBroadcastFlags (timer_evt_flag k) }) }"

definition lastRetryReplyTimeoutMs :: "station \<Rightarrow> u32" where
  "lastRetryReplyTimeoutMs s =
     (let tmo = (ucast (s_reply_timeout_ms s) :: u64) * IOHDLC_LAST_RETRY_T1_RATIO;
          tmo = (if tmo < IOHDLC_LAST_RETRY_TIMEOUT_MIN_MS then IOHDLC_LAST_RETRY_TIMEOUT_MIN_MS else tmo)
      in if ucast (NOT (0 :: u32)) < tmo then NOT 0 else ucast tmo)"

definition replyTimerTimeoutMs :: "station \<Rightarrow> peer \<Rightarrow> u32" where
  "replyTimerTimeoutMs s p =
     (let retry_count = p_poll_retry_count p in
      if 0 < retry_count \<and> p_poll_retry_max p \<le> retry_count then lastRetryReplyTimeoutMs s
      else if 32 \<le> retry_count
        \<or> drop_bit (unat retry_count) (NOT 0) < (ucast (s_reply_timeout_ms s) :: u32) then NOT 0
      else push_bit (unat retry_count) (ucast (s_reply_timeout_ms s)))"

definition startPollReplyTimer :: "nat \<Rightarrow> unit hdlc" where
  "startPollReplyTimer p = do {
     nrm_pri \<leftarrow> gets (\<lambda>s. IOHDLC_IS_NRM s \<and> IOHDLC_IS_PRI s);
     whenM nrm_pri (ioHdlcStopReplyTimer p IOHDLC_TIMER_T3);
     tmo \<leftarrow> gets (\<lambda>s. replyTimerTimeoutMs s (s_peers s p));
     ioHdlcStartReplyTimer p IOHDLC_TIMER_REPLY tmo }"

definition iFrameReplyTimerUsed :: "station \<Rightarrow> bool" where
  "iFrameReplyTimerUsed s = (IOHDLC_IS_ARM s \<or> IOHDLC_IS_ABM s)"

definition idlePollTimeoutMs :: "station \<Rightarrow> u32" where
  "idlePollTimeoutMs s = s_idle_poll_timeout_ms s"

definition iFrameReplyTimeoutMs :: "station \<Rightarrow> u32" where
  "iFrameReplyTimeoutMs s = ucast (s_reply_timeout_ms s) * IOHDLC_DFL_T3_IFRAME_T1_RATIO"

section \<open>Frame pool and driver\<close>

definition set_pool :: "pool \<Rightarrow> cb_calls \<Rightarrow> station \<Rightarrow> station" where
  "set_pool P c s = s\<lparr>s_pool := P, s_pool_calls := s_pool_calls s @ c\<rparr>"

definition hdlcTakeFrame :: "nat option hdlc" where
  "hdlcTakeFrame = do {
     r \<leftarrow> gets (\<lambda>s. take_frame (s_pool s));
     modify (set_pool (fst (snd r)) (snd (snd r)));
     ret (fst r) }"

definition hdlcReleaseFrame :: "nat \<Rightarrow> unit hdlc" where
  "hdlcReleaseFrame f = do {
     r \<leftarrow> gets (\<lambda>s. release_frame f (s_pool s));
     (case r of None \<Rightarrow> faultM | Some (P, c) \<Rightarrow> modify (set_pool P c)) }"

definition hdlcAddRef :: "nat \<Rightarrow> unit hdlc" where
  "hdlcAddRef f = do {
     r \<leftarrow> gets (\<lambda>s. addref_frame f (s_pool s));
     (case r of None \<Rightarrow> faultM | Some P \<Rightarrow> modify (set_pool P [])) }"

text \<open>A store outside the frame buffer is a fault.\<close>

definition writeF :: "nat \<Rightarrow> nat \<Rightarrow> u8 \<Rightarrow> unit hdlc" where
  "writeF f i v = do {
     inside \<leftarrow> gets (\<lambda>s. i < length (f_bytes (frame_of s f)));
     if inside then updF f (\<lambda>fr. fr\<lparr>f_bytes := (f_bytes fr)[i := v]\<rparr>) else faultM }"

fun writeFs :: "nat \<Rightarrow> nat \<Rightarrow> u8 list \<Rightarrow> unit hdlc" where
  "writeFs f i [] = ret ()"
| "writeFs f i (v # vs) = do { writeF f i v; writeFs f (i + 1) vs }"

definition ioHdlcFrameTxGateTryWait :: "nat \<Rightarrow> bool hdlc" where
  "ioHdlcFrameTxGateTryWait f = do {
     free \<leftarrow> gets (\<lambda>s. f_gate_free (frame_of s f));
     whenM free (updF f (\<lambda>fr. fr\<lparr>f_gate_free := False\<rparr>));
     ret free }"

definition ioHdlcFrameTxGateRelease :: "nat \<Rightarrow> unit hdlc" where
  "ioHdlcFrameTxGateRelease f = updF f (\<lambda>fr. fr\<lparr>f_gate_free := True\<rparr>)"

text \<open>
  Completion of a transfer: the driver opens the gate and gives up its reference. This is the
  driver callback \<open>s_on_tx_done\<close> seen from the core.
\<close>

definition driver_tx_done :: "nat \<Rightarrow> unit hdlc" where
  "driver_tx_done f = do {
     held \<leftarrow> gets (\<lambda>s. f \<in> set (s_tx_pipe s));
     whenM held (do {
       modify (\<lambda>s. s\<lparr>s_tx_pipe := remove1 f (s_tx_pipe s)\<rparr>);
       ioHdlcFrameTxGateRelease f;
       hdlcReleaseFrame f }) }"

text \<open>
  Waiting for the gate of a frame the driver still holds returns when the transfer completes; a
  gate that nobody will open is a fault.
\<close>

definition ioHdlcFrameTxGateWait :: "nat \<Rightarrow> unit hdlc" where
  "ioHdlcFrameTxGateWait f = do {
     free \<leftarrow> gets (\<lambda>s. f_gate_free (frame_of s f));
     whenM (\<not> free) (driver_tx_done f);
     ok \<leftarrow> ioHdlcFrameTxGateTryWait f;
     assertM ok }"

definition next_outcome :: "tx_outcome hdlc" where
  "next_outcome = do {
     oc \<leftarrow> gets (\<lambda>s. case s_tx_script s of [] \<Rightarrow> TxErr 5 | t # ts \<Rightarrow> t);
     modify (\<lambda>s. s\<lparr>s_tx_script := tl (s_tx_script s)\<rparr>);
     ret oc }"

definition log_sent :: "nat \<Rightarrow> unit hdlc" where
  "log_sent f = modify (\<lambda>s. s\<lparr>s_sent := s_sent s
     @ [take (unat (f_elen (frame_of s f))) (f_bytes (frame_of s f))]\<rparr>)"

definition hdlcSendFrame :: "nat \<Rightarrow> int hdlc" where
  "hdlcSendFrame f = do {
     ok \<leftarrow> ioHdlcFrameTxGateTryWait f;
     if \<not> ok then do { faultM; ret 16 }
     else do {
       oc \<leftarrow> next_outcome;
       (case oc of
          TxErr e \<Rightarrow> do { ioHdlcFrameTxGateRelease f; ret e }
        | TxHold \<Rightarrow> do {
            log_sent f;
            hdlcAddRef f;
            modify (\<lambda>s. s\<lparr>s_tx_pipe := s_tx_pipe s @ [f]\<rparr>);
            ret 0 }
        | TxCopy \<Rightarrow> do {
            n \<leftarrow> hdlcTakeFrame;
            (case n of
               None \<Rightarrow> do { ioHdlcFrameTxGateRelease f; ret 12 }
             | Some g \<Rightarrow> do {
                 log_sent f;
                 ioHdlcFrameTxGateRelease f;
                 updF g (\<lambda>fr. fr\<lparr>f_gate_free := False\<rparr>);
                 modify (\<lambda>s. s\<lparr>s_tx_pipe := s_tx_pipe s @ [g]\<rparr>);
                 ret 0 }) }) } }"

definition sendFrame :: "nat \<Rightarrow> bool hdlc" where
  "sendFrame f = do {
     err \<leftarrow> hdlcSendFrame f;
     hdlcReleaseFrame f;
     ret (err = 0) }"

end
