(* ===== verification/Hdlc_Peer.thy ===== *)
theory Hdlc_Peer
  imports Hdlc_Ops
begin

text \<open>
  The helpers of \<open>src/ioHdlc_core.c\<close> below the receive and transmit handlers: frame
  builders, link-state changes of a peer, the reset and clean-up paths, retry handling, the FRMR
  condition, the send-opportunity rules and the round-robin over peers. Each definition is the
  sequence of statements of the C function of the same name.
\<close>

section \<open>Frame builders\<close>

definition set_elen :: "nat \<Rightarrow> u16 \<Rightarrow> unit hdlc" where
  "set_elen f n = updF f (\<lambda>fr. fr\<lparr>f_elen := n\<rparr>)"

definition set_tx_ctrl_len :: "nat \<Rightarrow> u8 \<Rightarrow> unit hdlc" where
  "set_tx_ctrl_len f n = updF f (\<lambda>fr. fr\<lparr>f_tx_ctrl_len := n\<rparr>)"

definition ioHdlcBuildUFrame :: "nat \<Rightarrow> nat \<Rightarrow> u8 \<Rightarrow> bool \<Rightarrow> bool \<Rightarrow> unit hdlc" where
  "ioHdlcBuildUFrame p f u_fun set_pf is_command = do {
     fr \<leftarrow> gets s_framing;
     paddr \<leftarrow> getP p p_addr;
     saddr \<leftarrow> gets s_addr;
     writeF f (addr_pos fr) (ucast (if is_command then paddr else saddr));
     writeF f (ctrl_pos fr 0) (u_fun OR IOHDLC_U_ID);
     whenM set_pf (do {
       c \<leftarrow> gets (\<lambda>s. byte_at (f_bytes (frame_of s f)) (ctrl_pos fr 0));
       writeF f (ctrl_pos fr 0) (c OR IOHDLC_PF_BIT) });
     set_elen f (word_of_nat (unat (frame_offset fr) + 2));
     set_tx_ctrl_len f 1 }"

definition ioHdlcBuildUFrameWithInfo ::
    "nat \<Rightarrow> nat \<Rightarrow> u8 \<Rightarrow> bool \<Rightarrow> bool \<Rightarrow> u8 list \<Rightarrow> unit hdlc" where
  "ioHdlcBuildUFrameWithInfo p f u_fun set_pf is_command info = do {
     ioHdlcBuildUFrame p f u_fun set_pf is_command;
     fr \<leftarrow> gets s_framing;
     writeFs f (unat (frame_offset fr) + 2) info;
     n \<leftarrow> gets (\<lambda>s. f_elen (frame_of s f));
     set_elen f (n + word_of_nat (length info)) }"

definition buildFrmrResponse :: "nat \<Rightarrow> nat \<Rightarrow> bool \<Rightarrow> unit hdlc" where
  "buildFrmrResponse p f set_pf = do {
     fr \<leftarrow> gets s_framing;
     q \<leftarrow> getP p id;
     saddr \<leftarrow> gets s_addr;
     writeF f (addr_pos fr) (ucast saddr);
     writeF f (ctrl_pos fr 0) (IOHDLC_U_FRMR OR IOHDLC_U_ID);
     whenM set_pf (do {
       c \<leftarrow> gets (\<lambda>s. byte_at (f_bytes (frame_of s f)) (ctrl_pos fr 0));
       writeF f (ctrl_pos fr 0) (c OR IOHDLC_PF_BIT) });
     (if ctrl_size fr = 1 then do {
        writeFs f (unat (frame_offset fr) + 2)
          [p_frmr_ctrl0 q,
           ucast (push_bit 1 (p_vs_highest q AND 0x07)) OR (if p_frmr_cr q then 0x10 else 0)
             OR ucast (push_bit 5 (p_vr q AND 0x07)),
           p_frmr_reason q];
        set_elen f (word_of_nat (unat (frame_offset fr) + 2 + 3)) }
      else do {
        writeFs f (unat (frame_offset fr) + 2)
          [p_frmr_ctrl0 q, p_frmr_ctrl1 q,
           ucast (push_bit 1 (p_vs_highest q AND 0x7F)),
           ucast (push_bit 1 (p_vr q AND 0x7F)) OR (if p_frmr_cr q then 0x01 else 0),
           p_frmr_reason q];
        set_elen f (word_of_nat (unat (frame_offset fr) + 2 + 5)) });
     set_tx_ctrl_len f 1 }"

definition buildSFrame :: "nat \<Rightarrow> nat \<Rightarrow> u8 \<Rightarrow> u32 \<Rightarrow> bool \<Rightarrow> bool \<Rightarrow> unit hdlc" where
  "buildSFrame p f s_fun nr set_pf is_command = do {
     fr \<leftarrow> gets s_framing;
     paddr \<leftarrow> getP p p_addr;
     saddr \<leftarrow> gets s_addr;
     writeF f (addr_pos fr) (ucast (if is_command then paddr else saddr));
     writeF f (ctrl_pos fr 0) (s_fun OR IOHDLC_S_ID);
     updF f (\<lambda>fm. fm\<lparr>f_bytes := IOHDLC_FRAME_SET_NR fr (f_bytes fm) nr\<rparr>);
     updF f (\<lambda>fm. fm\<lparr>f_bytes := IOHDLC_FRAME_SET_PF fr (f_bytes fm) set_pf\<rparr>);
     set_elen f (word_of_nat (unat (frame_offset fr) + 1 + unat (ctrl_size fr)));
     set_tx_ctrl_len f (ctrl_size fr) }"

section \<open>Link state of a peer\<close>

definition ioHdlcSetDisconnected :: "nat \<Rightarrow> u8 \<Rightarrow> unit hdlc" where
  "ioHdlcSetDisconnected p term_bits = do {
     ss \<leftarrow> getP p p_ss_state;
     whenM (has ss IOHDLC_SS_ST_CONN) (do {
       modify (\<lambda>s. s\<lparr>s_connected_count := s_connected_count s - 1\<rparr>);
       updP p (\<lambda>q. q\<lparr>p_stream_terminal_pending := p_stream_terminal_pending q OR term_bits\<rparr>);
       whenM (has ss IOHDLC_SS_SENDING)
         (updP p (\<lambda>q. q\<lparr>p_stream_terminal_pending :=
            p_stream_terminal_pending q OR IOHDLC_STREAM_TX_RESET_PENDING\<rparr>)) });
     ss_clr p (IOHDLC_SS_ST_CONN OR IOHDLC_SS_TERM_ORDERLY OR IOHDLC_SS_TERM_ABORTED);
     ss_set p term_bits;
     condvar_tx p;
     condvar_rx p }"

definition ioHdlcSetConnected :: "nat \<Rightarrow> unit hdlc" where
  "ioHdlcSetConnected p = do {
     ss \<leftarrow> getP p p_ss_state;
     whenM (\<not> has ss IOHDLC_SS_ST_CONN)
       (modify (\<lambda>s. s\<lparr>s_connected_count := s_connected_count s + 1\<rparr>));
     ss_clr p (IOHDLC_SS_TERM_ORDERLY OR IOHDLC_SS_TERM_ABORTED);
     ss_set p IOHDLC_SS_ST_CONN;
     condvar_tx p }"

datatype qsel = RetransQ | TransQ | ReceptQ

fun get_q :: "qsel \<Rightarrow> peer \<Rightarrow> nat list" where
  "get_q RetransQ p = p_retrans_q p"
| "get_q TransQ p = p_trans_q p"
| "get_q ReceptQ p = p_recept_q p"

fun set_q :: "qsel \<Rightarrow> nat list \<Rightarrow> peer \<Rightarrow> peer" where
  "set_q RetransQ xs p = p\<lparr>p_retrans_q := xs\<rparr>"
| "set_q TransQ xs p = p\<lparr>p_trans_q := xs\<rparr>"
| "set_q ReceptQ xs p = p\<lparr>p_recept_q := xs\<rparr>"

text \<open>The loop of \<open>clearFrameQ\<close>; the queue length bounds its rounds.\<close>

fun clear_loop :: "nat \<Rightarrow> nat \<Rightarrow> qsel \<Rightarrow> unit hdlc" where
  "clear_loop 0 p q = ret ()"
| "clear_loop (Suc n) p q = do {
     fs \<leftarrow> getP p (get_q q);
     (case fs of
        [] \<Rightarrow> ret ()
      | f # rest \<Rightarrow> do {
          updP p (set_q q rest);
          hdlcReleaseFrame f;
          clear_loop n p q }) }"

definition clearFrameQ :: "nat \<Rightarrow> qsel \<Rightarrow> unit hdlc" where
  "clearFrameQ p q = do { fs \<leftarrow> getP p (get_q q); clear_loop (length fs) p q }"

definition clearPeerUmFrames :: "nat \<Rightarrow> unit hdlc" where
  "clearPeerUmFrames p = do {
     a \<leftarrow> getP p p_um_api_frame;
     (case a of None \<Rightarrow> ret () | Some f \<Rightarrow> do {
        hdlcReleaseFrame f;
        updP p (\<lambda>q. q\<lparr>p_um_api_frame := None\<rparr>) });
     r \<leftarrow> getP p p_um_rsp_frame;
     (case r of None \<Rightarrow> ret () | Some f \<Rightarrow> do {
        hdlcReleaseFrame f;
        updP p (\<lambda>q. q\<lparr>p_um_rsp_frame := None\<rparr>) }) }"

definition resetPeerUm :: "nat \<Rightarrow> unit hdlc" where
  "resetPeerUm p = updP p (\<lambda>q. q\<lparr>p_um_state := 0, p_um_cmd := 0\<rparr>)"

definition clearPeerTxQueues :: "nat \<Rightarrow> unit hdlc" where
  "clearPeerTxQueues p = do {
     clearFrameQ p RetransQ;
     clearFrameQ p TransQ;
     updP p (\<lambda>q. q\<lparr>p_i_pending_count := 0\<rparr>) }"

definition clearPeerRxBuffered :: "nat \<Rightarrow> unit hdlc" where
  "clearPeerRxBuffered p = do {
     a \<leftarrow> getP p p_partial_read_frame;
     (case a of None \<Rightarrow> ret () | Some f \<Rightarrow> do {
        hdlcReleaseFrame f;
        updP p (\<lambda>q. q\<lparr>p_partial_read_frame := None\<rparr>) });
     updP p (\<lambda>q. q\<lparr>p_partial_read_offset := 0\<rparr>);
     clearFrameQ p ReceptQ }"

definition resetPeerProtocolState :: "nat \<Rightarrow> unit hdlc" where
  "resetPeerProtocolState p = do {
     ioHdlcStopReplyTimer p IOHDLC_TIMER_REPLY;
     ioHdlcStopReplyTimer p IOHDLC_TIMER_T3;
     clearPeerUmFrames p;
     updP p (\<lambda>q. q\<lparr>p_nr := 0, p_vr := 0, p_vs := 0, p_vs_highest := 0, p_t3_expected_nr := 0,
       p_ss_state := p_ss_state q AND (IOHDLC_SS_ST_CONN OR IOHDLC_SS_TERM_ORDERLY
         OR IOHDLC_SS_TERM_ABORTED OR IOHDLC_SS_SENDING),
       p_poll_retry_count := 0, p_frmr_condition := False, p_um_rsp := 0,
       p_ui_tx_pending := False, p_ui_rx_pending := False\<rparr>);
     resetPeerUm p }"

definition applyModeState :: "u8 \<Rightarrow> unit hdlc" where
  "applyModeState mode =
     (if mode = IOHDLC_OM_NRM then modify (\<lambda>s. s\<lparr>s_rx_fn := RxNrm\<rparr>)
      else if mode = IOHDLC_OM_ABM then do {
        modify (\<lambda>s. s\<lparr>s_rx_fn := RxAbm\<rparr>);
        flags_set IOHDLC_FLG_PRI;
        pf_set IOHDLC_F_RCVED }
      else do {
        modify (\<lambda>s. s\<lparr>s_rx_fn := RxNone\<rparr>);
        pri \<leftarrow> gets IOHDLC_IS_PRI;
        whenM (mode = IOHDLC_OM_NDM \<and> pri) (pf_set IOHDLC_F_RCVED) })"

definition leave_mode_if_last :: "unit hdlc" where
  "leave_mode_if_last = do {
     n \<leftarrow> gets s_connected_count;
     whenM (n = 0) (do {
       modify (\<lambda>s. s\<lparr>s_mode := if IOHDLC_IS_NRM s then IOHDLC_OM_NDM else IOHDLC_OM_ADM\<rparr>);
       m \<leftarrow> gets s_mode;
       applyModeState m }) }"

definition closePeerOrderly :: "nat \<Rightarrow> unit hdlc" where
  "closePeerOrderly p = do {
     was_connected \<leftarrow> getP p (\<lambda>q. \<not> IOHDLC_PEER_DISC q);
     resetPeerProtocolState p;
     clearPeerTxQueues p;
     ioHdlcSetDisconnected p IOHDLC_SS_TERM_ORDERLY;
     leave_mode_if_last;
     whenM was_connected (ioHdlcBroadcastFlagsApp IOHDLC_APP_LINK_DOWN) }"

definition abortPeerLink :: "nat \<Rightarrow> unit hdlc" where
  "abortPeerLink p = do {
     resetPeerProtocolState p;
     clearPeerTxQueues p;
     ioHdlcSetDisconnected p IOHDLC_SS_TERM_ABORTED;
     leave_mode_if_last }"

definition handleTimeoutRetry :: "nat \<Rightarrow> bool hdlc" where
  "handleTimeoutRetry p = do {
     exhausted \<leftarrow> getP p (\<lambda>q. p_poll_retry_max q \<le> p_poll_retry_count q);
     if exhausted then do {
       was_connected \<leftarrow> getP p (\<lambda>q. \<not> IOHDLC_PEER_DISC q);
       ioHdlcBroadcastFlags IOHDLC_EVT_LINK_DOWN;
       abortPeerLink p;
       pf_set IOHDLC_F_RCVED;
       whenM was_connected (ioHdlcBroadcastFlagsApp IOHDLC_APP_LINK_LOST);
       ret False }
     else do {
       updP p (\<lambda>q. q\<lparr>p_poll_retry_count := p_poll_retry_count q + 1\<rparr>);
       ret True } }"

definition resetPeerVars :: "nat \<Rightarrow> unit hdlc" where
  "resetPeerVars p = do {
     ss \<leftarrow> getP p p_ss_state;
     whenM (has ss IOHDLC_SS_ST_CONN) (do {
       updP p (\<lambda>q. q\<lparr>p_stream_terminal_pending := p_stream_terminal_pending q OR IOHDLC_SS_TERM_ABORTED\<rparr>);
       whenM (has ss IOHDLC_SS_SENDING)
         (updP p (\<lambda>q. q\<lparr>p_stream_terminal_pending :=
            p_stream_terminal_pending q OR IOHDLC_STREAM_TX_RESET_PENDING\<rparr>));
       condvar_rx p;
       condvar_tx p });
     resetPeerProtocolState p;
     updP p (\<lambda>q. q\<lparr>p_ss_state := 0\<rparr>);
     clearPeerTxQueues p;
     clearPeerRxBuffered p }"

definition setFrmrCondition :: "nat \<Rightarrow> u8 \<Rightarrow> u8 \<Rightarrow> u8 \<Rightarrow> bool \<Rightarrow> u8 \<Rightarrow> unit hdlc" where
  "setFrmrCondition p ctrl0 ctrl1 csize is_command reason = do {
     updP p (\<lambda>q. q\<lparr>p_frmr_condition := True, p_frmr_ctrl0 := ctrl0,
       p_frmr_ctrl1 := (if 1 < csize then ctrl1 else 0), p_frmr_reason := reason,
       p_frmr_cr := is_command, p_um_rsp := IOHDLC_U_FRMR\<rparr>);
     um_set p IOHDLC_UM_RCVED;
     ioHdlcBroadcastFlags IOHDLC_EVT_UM_RECVD }"

definition isConnectionUCommand :: "u8 \<Rightarrow> bool" where
  "isConnectionUCommand u_cmd = (u_cmd = IOHDLC_U_SNRM \<or> u_cmd = IOHDLC_U_SABM)"

section \<open>Transmission rules\<close>

definition nrmSendOpportunity :: "station \<Rightarrow> bool" where
  "nrmSendOpportunity s =
     (if IOHDLC_IS_PRI s then (if IOHDLC_USE_TWA s then IOHDLC_F_ISRCVED s else True)
      else IOHDLC_P_ISRCVED s)"

definition abmSendOpportunity :: "station \<Rightarrow> bool" where
  "abmSendOpportunity s = (\<not> IOHDLC_USE_TWA s \<or> IOHDLC_ST_IDLE s)"

definition sendOpportunity :: "station \<Rightarrow> bool" where
  "sendOpportunity s =
     (if IOHDLC_IS_NRM s \<or> IOHDLC_IS_NDM s then nrmSendOpportunity s else abmSendOpportunity s)"

definition responseShouldSetF :: "station \<Rightarrow> bool \<Rightarrow> bool \<Rightarrow> bool" where
  "responseShouldSetF s is_i_frame is_last_frame =
     (if \<not> IOHDLC_P_ISRCVED s then False
      else if IOHDLC_IS_ABM s \<or> IOHDLC_IS_ARM s then True
      else is_last_frame)"

section \<open>Round-robin over peers\<close>

definition peer_succ :: "nat list \<Rightarrow> nat \<Rightarrow> nat" where
  "peer_succ ps p = (case dropWhile (\<lambda>x. x \<noteq> p) ps of (_ # q # _) \<Rightarrow> q | _ \<Rightarrow> hd ps)"

definition next_match :: "bool \<Rightarrow> peer \<Rightarrow> bool" where
  "next_match find_pending_only q =
     (if find_pending_only then IOHDLC_PEER_DISC q \<and> p_um_cmd q \<noteq> 0
      else \<not> IOHDLC_PEER_DISC q \<or> p_um_cmd q \<noteq> 0)"

text \<open>One traversal of the ring; its length bounds the rounds.\<close>

fun next_loop :: "nat \<Rightarrow> bool \<Rightarrow> nat \<Rightarrow> nat \<Rightarrow> nat option hdlc" where
  "next_loop 0 find_pending_only start c = ret (Some c)"
| "next_loop (Suc n) find_pending_only start c = do {
     ps \<leftarrow> gets s_peer_list;
     let c' = peer_succ ps c;
     modify (\<lambda>s. s\<lparr>s_c_peer := Some c'\<rparr>);
     q \<leftarrow> getP c' id;
     if next_match find_pending_only q \<or> c' = start then ret (Some c')
     else next_loop n find_pending_only start c' }"

definition ioHdlcNextPeer :: "bool \<Rightarrow> nat option hdlc" where
  "ioHdlcNextPeer find_pending_only = do {
     ps \<leftarrow> gets s_peer_list;
     if ps = [] then ret None
     else do {
       c \<leftarrow> gets s_c_peer;
       (case c of
          None \<Rightarrow> do { faultM; ret None }
        | Some start \<Rightarrow> next_loop (length ps) find_pending_only start start) } }"

end
