(* ===== verification/Hdlc_Rx.thy ===== *)
theory Hdlc_Rx
  imports Hdlc_Peer
begin

text \<open>
  The receive side of \<open>src/ioHdlc_core.c\<close>: unnumbered frames, acknowledgment and checkpoint
  recovery, I-frames, S-frames, the mode-specific handlers and the dispatch of the receive loop.
  A handler that the C code runs under the peer's \<open>state_mutex\<close> is one step of the model.
\<close>

section \<open>Unnumbered frames\<close>

definition u_has_pf :: "station \<Rightarrow> nat \<Rightarrow> bool" where
  "u_has_pf s f = IOHDLC_FRAME_GET_PF (s_framing s) (f_bytes (frame_of s f))"

definition u_hdr_len :: "station \<Rightarrow> nat" where
  "u_hdr_len s = unat (frame_offset (s_framing s)) + 2"

definition u_long_enough :: "station \<Rightarrow> nat \<Rightarrow> bool" where
  "u_long_enough s f = (u_hdr_len s \<le> unat (f_elen (frame_of s f)))"

definition u_info_len :: "station \<Rightarrow> nat \<Rightarrow> nat" where
  "u_info_len s f =
     (if u_long_enough s f then unat (f_elen (frame_of s f)) - u_hdr_len s else 0)"

text \<open>\<open>memcpy\<close> of a 32-bit value from and to the frame, on a little-endian target.\<close>

definition le32_read :: "u8 list \<Rightarrow> nat \<Rightarrow> u32" where
  "le32_read bs i = ucast (byte_at bs i) OR push_bit 8 (ucast (byte_at bs (i + 1)))
     OR push_bit 16 (ucast (byte_at bs (i + 2))) OR push_bit 24 (ucast (byte_at bs (i + 3)))"

definition le32_bytes :: "u32 \<Rightarrow> u8 list" where
  "le32_bytes v = [ucast v, ucast (drop_bit 8 v), ucast (drop_bit 16 v), ucast (drop_bit 24 v)]"

definition handleUFrame_UI :: "nat \<Rightarrow> nat \<Rightarrow> unit hdlc" where
  "handleUFrame_UI p f = do {
     bad \<leftarrow> gets (\<lambda>s. \<not> u_long_enough s f \<or> u_info_len s f \<noteq> 4);
     if bad then hdlcReleaseFrame f
     else do {
       accepted \<leftarrow> getP p (\<lambda>q. \<not> IOHDLC_PEER_DISC q);
       whenM accepted (do {
         v \<leftarrow> gets (\<lambda>s. le32_read (f_bytes (frame_of s f)) (u_hdr_len s));
         updP p (\<lambda>q. q\<lparr>p_ui_rx_value := v, p_ui_rx_pending := True\<rparr>) });
       whenM accepted (ioHdlcBroadcastFlagsApp IOHDLC_APP_UI_RECEIVED);
       hdlcReleaseFrame f } }"

text \<open>Whether a received command is dropped, and the FRMR recovery done when it is not.\<close>

definition u_command_blocked :: "nat \<Rightarrow> u8 \<Rightarrow> nat \<Rightarrow> bool hdlc" where
  "u_command_blocked p u_cmd f = do {
     q \<leftarrow> getP p id;
     if has (p_um_state q) IOHDLC_UM_RCVED \<or> p_frmr_condition q then
       (if p_frmr_condition q \<and> (isConnectionUCommand u_cmd \<or> u_cmd = IOHDLC_U_DISC) then do {
          updP p (\<lambda>q. q\<lparr>p_frmr_condition := False\<rparr>);
          um_clr p IOHDLC_UM_RCVED;
          ret False }
        else ret True)
     else ret False }"

definition u_test_blocked :: "station \<Rightarrow> nat \<Rightarrow> u8 \<Rightarrow> nat \<Rightarrow> bool" where
  "u_test_blocked s p u_cmd f =
     (let q = s_peers s p in
      u_cmd = IOHDLC_U_TEST \<and> (\<not> u_long_enough s f
        \<or> has (p_um_state q) IOHDLC_UM_SENT \<and> p_um_cmd q \<noteq> IOHDLC_U_TEST))"

definition u_command_response :: "nat \<Rightarrow> u8 \<Rightarrow> nat \<Rightarrow> bool hdlc" where
  "u_command_response p u_cmd f = do {
     let om = IOHDLC_UCMD_TO_MODE u_cmd;
     if om \<noteq> 0 then do {
       modify (\<lambda>s. s\<lparr>s_mode := om\<rparr>);
       applyModeState om;
       resetPeerVars p;
       ioHdlcSetConnected p;
       ioHdlcBroadcastFlagsApp IOHDLC_APP_LINK_UP;
       updP p (\<lambda>q. q\<lparr>p_um_rsp := IOHDLC_U_UA\<rparr>);
       ret True }
     else if u_cmd = IOHDLC_U_DISC then do {
       disc \<leftarrow> gets IOHDLC_IS_DISC;
       updP p (\<lambda>q. q\<lparr>p_um_rsp := if disc then IOHDLC_U_DM else IOHDLC_U_UA\<rparr>);
       ret True }
     else if u_cmd = IOHDLC_U_TEST then do {
       fits \<leftarrow> gets (\<lambda>s. u_info_len s f \<le> unat (p_mifls (s_peers s p)));
       if fits then do {
         updP p (\<lambda>q. q\<lparr>p_um_rsp := IOHDLC_U_TEST, p_um_rsp_frame := Some f\<rparr>);
         ret False }
       else do {
         updP p (\<lambda>q. q\<lparr>p_um_rsp := IOHDLC_U_DM\<rparr>);
         ret True } }
     else do {
       updP p (\<lambda>q. q\<lparr>p_um_rsp := IOHDLC_U_DM\<rparr>);
       ret True } }"

definition handleUFrame_command :: "nat \<Rightarrow> u8 \<Rightarrow> nat \<Rightarrow> unit hdlc" where
  "handleUFrame_command p u_cmd f = do {
     has_pf \<leftarrow> gets (\<lambda>s. u_has_pf s f);
     blocked \<leftarrow> u_command_blocked p u_cmd f;
     if blocked then hdlcReleaseFrame f
     else do {
       tb \<leftarrow> gets (\<lambda>s. u_test_blocked s p u_cmd f);
       if tb then hdlcReleaseFrame f
       else do {
         um \<leftarrow> getP p p_um_state;
         whenM (u_cmd \<noteq> IOHDLC_U_TEST \<or> \<not> has um IOHDLC_UM_SENT)
           (updP p (\<lambda>q. q\<lparr>p_um_cmd := u_cmd\<rparr>));
         whenM has_pf (pf_set IOHDLC_P_RCVED);
         release \<leftarrow> u_command_response p u_cmd f;
         um_set p IOHDLC_UM_RCVED;
         ioHdlcBroadcastFlags IOHDLC_EVT_UM_RECVD;
         whenM release (hdlcReleaseFrame f) } } }"

text \<open>
  The branches of an awaited response; the first component of the result is \<open>restart_t3\<close>, the
  second says whether the frame is still to be released.
\<close>

definition u_response_test :: "nat \<Rightarrow> nat \<Rightarrow> (bool \<times> bool) hdlc" where
  "u_response_test p f = do {
     a \<leftarrow> getP p p_um_api_frame;
     (case a of None \<Rightarrow> ret () | Some g \<Rightarrow> hdlcReleaseFrame g);
     updP p (\<lambda>q. q\<lparr>p_um_api_frame := Some f\<rparr>);
     resetPeerUm p;
     ioHdlcBroadcastFlags (IOHDLC_EVT_PF_RECVD OR IOHDLC_EVT_TX_IFRM_ENQ);
     ioHdlcBroadcastFlagsApp IOHDLC_APP_INTERNAL_TEST_DONE;
     ret (True, False) }"

definition u_response_ua :: "nat \<Rightarrow> (bool \<times> bool) hdlc" where
  "u_response_ua p = do {
     cmd \<leftarrow> getP p p_um_cmd;
     (if cmd = IOHDLC_U_DISC then closePeerOrderly p
      else do {
        resetPeerVars p;
        m \<leftarrow> gets s_mode;
        applyModeState m;
        ioHdlcSetConnected p });
     resetPeerUm p;
     ioHdlcBroadcastFlags (IOHDLC_EVT_LINK_ST_CHG OR IOHDLC_EVT_LINK_REQ);
     whenM (cmd \<noteq> IOHDLC_U_DISC) (ioHdlcBroadcastFlagsApp IOHDLC_APP_LINK_UP);
     ret (True, True) }"

definition u_response_dm :: "nat \<Rightarrow> (bool \<times> bool) hdlc" where
  "u_response_dm p = do {
     cmd \<leftarrow> getP p p_um_cmd;
     (if cmd = IOHDLC_U_DISC then closePeerOrderly p
      else do { ioHdlcSetDisconnected p 0; resetPeerUm p });
     ioHdlcBroadcastFlags (IOHDLC_EVT_LINK_ST_CHG OR IOHDLC_EVT_LINK_REQ);
     whenM (cmd \<noteq> IOHDLC_U_DISC) (ioHdlcBroadcastFlagsApp IOHDLC_APP_LINK_REFUSED);
     ret (False, True) }"

definition handleUFrame_response :: "nat \<Rightarrow> u8 \<Rightarrow> nat \<Rightarrow> unit hdlc" where
  "handleUFrame_response p u_cmd f = do {
     has_pf \<leftarrow> gets (\<lambda>s. u_has_pf s f);
     um \<leftarrow> getP p p_um_state;
     if \<not> has um IOHDLC_UM_SENT \<or> \<not> has_pf then hdlcReleaseFrame f
     else do {
       ioHdlcStopReplyTimer p IOHDLC_TIMER_REPLY;
       cmd \<leftarrow> getP p p_um_cmd;
       (restart_t3, release) \<leftarrow>
         (if cmd = IOHDLC_U_TEST then u_response_test p f
          else if u_cmd = IOHDLC_U_UA then u_response_ua p
          else if u_cmd = IOHDLC_U_DM then u_response_dm p
          else if u_cmd = IOHDLC_U_FRMR then do {
            resetPeerUm p;
            ioHdlcBroadcastFlagsApp IOHDLC_APP_FRMR_RECEIVED;
            ret (False, True) }
          else ret (False, True));
       pf_set IOHDLC_F_RCVED;
       t3 \<leftarrow> gets (\<lambda>s. restart_t3 \<and> IOHDLC_IS_NRM s \<and> IOHDLC_IS_PRI s
         \<and> \<not> IOHDLC_PEER_DISC (s_peers s p));
       tmo \<leftarrow> gets idlePollTimeoutMs;
       whenM t3 (ioHdlcStartReplyTimer p IOHDLC_TIMER_T3 tmo);
       um_clr p IOHDLC_UM_SENT;
       whenM release (hdlcReleaseFrame f) } }"

definition handleUFrame :: "nat \<Rightarrow> unit hdlc" where
  "handleUFrame f = do {
     addr \<leftarrow> gets (\<lambda>s. IOHDLC_FRAME_ADDR (s_framing s) (f_bytes (frame_of s f)));
     ctrl \<leftarrow> gets (\<lambda>s. IOHDLC_FRAME_CTRL (s_framing s) (f_bytes (frame_of s f)) 0);
     let u_cmd = ctrl AND IOHDLC_U_FUN_MASK;
     c \<leftarrow> gets s_c_peer;
     is_command \<leftarrow> gets (\<lambda>s. ucast addr = s_addr s);
     (case c of
        None \<Rightarrow> hdlcReleaseFrame f
      | Some p \<Rightarrow> do {
          paddr \<leftarrow> getP p p_addr;
          if \<not> is_command \<and> ucast addr \<noteq> paddr then hdlcReleaseFrame f
          else if u_cmd = IOHDLC_U_UI then handleUFrame_UI p f
          else if is_command then handleUFrame_command p u_cmd f
          else handleUFrame_response p u_cmd f }) }"

section \<open>Acknowledgment and checkpoint recovery\<close>

definition isNRValid :: "station \<Rightarrow> peer \<Rightarrow> u32 \<Rightarrow> bool" where
  "isNRValid s p nr =
     (let nr_offset = (nr - p_nr p) AND modmask (s_framing s);
          vs_offset = (p_vs_highest p - p_nr p) AND modmask (s_framing s)
      in nr_offset \<le> vs_offset)"

text \<open>The loop of \<open>processNR\<close>; the length of the retransmission queue bounds its rounds.\<close>

fun processNR_loop :: "nat \<Rightarrow> nat \<Rightarrow> u32 \<Rightarrow> bool hdlc" where
  "processNR_loop 0 p nr = ret False"
| "processNR_loop (Suc n) p nr = do {
     q \<leftarrow> getP p id;
     (case p_retrans_q q of
        [] \<Rightarrow> ret False
      | f # rest \<Rightarrow>
          if p_nr q = nr then ret False
          else do {
            updP p (\<lambda>q. q\<lparr>p_retrans_q := rest\<rparr>);
            acked_ns \<leftarrow> gets (\<lambda>s. extractNS (s_framing s) (f_bytes (frame_of s f)));
            hdlcReleaseFrame f;
            mm \<leftarrow> gets (\<lambda>s. modmask (s_framing s));
            updP p (\<lambda>q. q\<lparr>p_i_pending_count := p_i_pending_count q - 1,
              p_nr := (p_nr q + 1) AND mm\<rparr>);
            updP p (\<lambda>q. if acked_ns = p_vs_atlast_pf q
              then q\<lparr>p_vs_atlast_pf := (p_vs_atlast_pf q + 1) AND mm\<rparr> else q);
            processNR_loop n p nr;
            ret True }) }"

definition processNR :: "nat \<Rightarrow> u32 \<Rightarrow> bool hdlc" where
  "processNR p nr = do {
     q0 \<leftarrow> getP p p_retrans_q;
     released \<leftarrow> processNR_loop (length q0) p nr;
     stop \<leftarrow> gets (\<lambda>s. iFrameReplyTimerUsed s \<and> p_nr (s_peers s p) = p_t3_expected_nr (s_peers s p));
     whenM stop (ioHdlcStopReplyTimer p IOHDLC_TIMER_T3);
     ret released }"

text \<open>
  The scan of the retransmission queue: stops at the checkpoint frame and remembers N(S) + 1 of
  the first frame passed, 0 if there is none.
\<close>

fun chkpt_scan :: "(nat \<Rightarrow> u32) \<Rightarrow> u32 \<Rightarrow> u32 \<Rightarrow> nat list \<Rightarrow> u32" where
  "chkpt_scan ns at_pf first_ns [] = first_ns"
| "chkpt_scan ns at_pf first_ns (f # fs) =
     (if ns f = at_pf then first_ns
      else chkpt_scan ns at_pf (if first_ns = 0 then ns f + 1 else first_ns) fs)"

definition checkpointRetransmit :: "nat \<Rightarrow> bool hdlc" where
  "checkpointRetransmit p = do {
     q \<leftarrow> getP p id;
     if p_retrans_q q = [] then ret False
     else do {
       first_ns \<leftarrow> gets (\<lambda>s. chkpt_scan (\<lambda>f. extractNS (s_framing s) (f_bytes (frame_of s f)))
         (p_vs_atlast_pf q) 0 (p_retrans_q q));
       if first_ns \<noteq> 0 then do {
         updP p (\<lambda>q. q\<lparr>p_trans_q := p_retrans_q q @ p_trans_q q, p_retrans_q := [],
           p_chkpt_actioned := first_ns, p_vs := first_ns - 1\<rparr>);
         ret True }
       else ret False } }"

text \<open>
  Result: \<open>None\<close> for an invalid N(R); otherwise whether writers are to be woken, whether the
  checkpoint moved frames, and the event flags to broadcast.
\<close>

definition handleCheckpointAndAck ::
    "nat \<Rightarrow> u32 \<Rightarrow> bool \<Rightarrow> bool \<Rightarrow> (bool \<times> bool \<times> u32) option hdlc" where
  "handleCheckpointAndAck p nr pf is_command = do {
     valid \<leftarrow> gets (\<lambda>s. isNRValid s (s_peers s p) nr);
     if \<not> valid then ret None
     else do {
       should_signal_tx \<leftarrow> processNR p nr;
       if pf then do {
         inhibited \<leftarrow> gets (\<lambda>s. IOHDLC_IS_ABM s \<and> is_command);
         moved \<leftarrow> (if \<not> inhibited then checkpointRetransmit p else ret False);
         t3_used \<leftarrow> gets iFrameReplyTimerUsed;
         whenM (moved \<and> t3_used) (ioHdlcStopReplyTimer p IOHDLC_TIMER_T3);
         (if \<not> is_command then do {
            pf_set IOHDLC_F_RCVED;
            updP p (\<lambda>q. q\<lparr>p_poll_retry_count := 0\<rparr>);
            ioHdlcStopReplyTimer p IOHDLC_TIMER_REPLY;
            nrm \<leftarrow> gets IOHDLC_IS_NRM;
            tmo \<leftarrow> gets idlePollTimeoutMs;
            whenM nrm (ioHdlcStartReplyTimer p IOHDLC_TIMER_T3 tmo) }
          else pf_set IOHDLC_P_RCVED);
         ret (Some (should_signal_tx, moved, IOHDLC_EVT_PF_RECVD)) }
       else do {
         whenM (\<not> is_command) (do {
           nrm \<leftarrow> gets IOHDLC_IS_NRM;
           tmo \<leftarrow> gets idlePollTimeoutMs;
           whenM nrm (ioHdlcRestartReplyTimer p IOHDLC_TIMER_T3 tmo);
           polling \<leftarrow> gets (\<lambda>s. \<not> IOHDLC_F_ISRCVED s);
           tmo \<leftarrow> gets (\<lambda>s. replyTimerTimeoutMs s (s_peers s p));
           whenM polling (ioHdlcRestartReplyTimer p IOHDLC_TIMER_REPLY tmo) });
         ret (Some (should_signal_tx, False, 0)) } } }"

section \<open>Information and supervisory frames\<close>

text \<open>The delivery hook installed by \<open>ioHdlcAddPeer\<close>.\<close>

definition s_peer_raw_rx_deliver :: "nat \<Rightarrow> nat \<Rightarrow> bool hdlc" where
  "s_peer_raw_rx_deliver p f = do {
     updP p (\<lambda>q. q\<lparr>p_recept_q := p_recept_q q @ [f]\<rparr>);
     condvar_rx p;
     ret True }"

text \<open>Result: whether the frame was accepted, and the flags to broadcast.\<close>

definition handleIFrame :: "nat \<Rightarrow> nat \<Rightarrow> bool \<Rightarrow> (bool \<times> u32) hdlc" where
  "handleIFrame p f pf = do {
     ns \<leftarrow> gets (\<lambda>s. extractNS (s_framing s) (f_bytes (frame_of s f)));
     expected_ns \<leftarrow> getP p p_vr;
     if ns \<noteq> expected_ns then do {
       rej \<leftarrow> gets (\<lambda>s. \<not> IOHDLC_USE_TWA s \<and> IOHDLC_USE_REJ s \<and> p_rej_actioned (s_peers s p) = 0);
       if rej then do {
         updP p (\<lambda>q. q\<lparr>p_rej_actioned := expected_ns + 1\<rparr>);
         ss_set p IOHDLC_SS_REJPEND;
         ret (False, IOHDLC_EVT_REJ_ACTED) }
       else ret (False, 0) }
     else do {
       delivered \<leftarrow> s_peer_raw_rx_deliver p f;
       if \<not> delivered then ret (False, 0)
       else do {
         updP p (\<lambda>q. if p_rej_actioned q \<noteq> 0 \<and> ns = p_rej_actioned q - 1
           then q\<lparr>p_rej_actioned := 0\<rparr> else q);
         busy \<leftarrow> getP p IOHDLC_PEER_BUSY;
         whenM (busy \<and> pf) (ss_clr p IOHDLC_SS_BUSY);
         low \<leftarrow> gets (\<lambda>s. \<not> IOHDLC_IS_BUSY s \<and> hdlcPoolGetState (s_pool s) = IOHDLC_POOL_LOW_WATER);
         whenM low (flags_set IOHDLC_FLG_BUSY);
         mm \<leftarrow> gets (\<lambda>s. modmask (s_framing s));
         updP p (\<lambda>q. q\<lparr>p_vr := (p_vr q + 1) AND mm\<rparr>);
         ret (True, IOHDLC_EVT_I_RECVD OR (if low then IOHDLC_EVT_POOL_ST_CHG else 0)) } } }"

definition handleSFrame_rej :: "nat \<Rightarrow> u32 hdlc" where
  "handleSFrame_rej p = do {
     q \<leftarrow> getP p id;
     if p_chkpt_actioned q = 0 then
       (case p_retrans_q q of
          [] \<Rightarrow> ret IOHDLC_EVT_xREJ_RECVD
        | first # rest \<Rightarrow> do {
            ns \<leftarrow> gets (\<lambda>s. extractNS (s_framing s) (f_bytes (frame_of s first)));
            updP p (\<lambda>q. q\<lparr>p_trans_q := p_retrans_q q @ p_trans_q q, p_retrans_q := [],
              p_vs_atlast_pf := ns, p_vs := ns\<rparr>);
            ret (IOHDLC_EVT_TX_IFRM_ENQ OR IOHDLC_EVT_xREJ_RECVD) })
     else do {
       updP p (\<lambda>q. q\<lparr>p_chkpt_actioned := 0\<rparr>);
       ret IOHDLC_EVT_xREJ_RECVD } }"

definition handleSFrame :: "nat \<Rightarrow> nat \<Rightarrow> bool \<Rightarrow> u32 hdlc" where
  "handleSFrame p f pf = do {
     ctrl \<leftarrow> gets (\<lambda>s. IOHDLC_FRAME_CTRL (s_framing s) (f_bytes (frame_of s f)) 0);
     let s_fun = ctrl AND IOHDLC_S_FUN_MASK;
     if s_fun = IOHDLC_S_RR then do {
       ss_clr p IOHDLC_SS_BUSY;
       ret IOHDLC_EVT_RR_RECVD }
     else if s_fun = IOHDLC_S_RNR then do {
       ss_set p IOHDLC_SS_BUSY;
       ret IOHDLC_EVT_RNR_RECVD }
     else if s_fun = IOHDLC_S_REJ then do {
       twa \<leftarrow> gets IOHDLC_USE_TWA;
       if \<not> twa then handleSFrame_rej p else ret 0 }
     else ret 0 }"

section \<open>Common receive processing\<close>

definition commonRx_body :: "nat \<Rightarrow> nat \<Rightarrow> bool \<Rightarrow> bool \<Rightarrow> bool \<times> bool \<times> u32 \<Rightarrow> bool hdlc" where
  "commonRx_body p f is_command pf ack = do {
     ctrl \<leftarrow> gets (\<lambda>s. IOHDLC_FRAME_CTRL (s_framing s) (f_bytes (frame_of s f)) 0);
     (frame_accepted, fl) \<leftarrow>
       (if IOHDLC_IS_I_FRM ctrl then do {
          r \<leftarrow> handleIFrame p f pf;
          need \<leftarrow> gets (\<lambda>s. fst r \<and> IOHDLC_IS_NRM s \<and> IOHDLC_IS_PRI s);
          whenM need (IOHDLC_SET_NEED_P p);
          ret r }
        else do { e \<leftarrow> handleSFrame p f pf; ret (False, e) });
     let flags = snd (snd ack) OR fl OR (if fst (snd ack) then IOHDLC_EVT_TX_IFRM_ENQ else 0);
     whenM (flags \<noteq> 0) (ioHdlcBroadcastFlags flags);
     whenM (fst ack) (condvar_tx p);
     ret frame_accepted }"

definition commonRx :: "nat \<Rightarrow> nat \<Rightarrow> bool \<Rightarrow> unit hdlc" where
  "commonRx p f is_command = do {
     pf \<leftarrow> gets (\<lambda>s. IOHDLC_FRAME_GET_PF (s_framing s) (f_bytes (frame_of s f)));
     nr \<leftarrow> gets (\<lambda>s. extractNR (s_framing s) (f_bytes (frame_of s f)));
     frmr \<leftarrow> getP p p_frmr_condition;
     if frmr then do {
       whenM pf (do {
         updP p (\<lambda>q. q\<lparr>p_um_rsp := IOHDLC_U_FRMR\<rparr>);
         um_set p IOHDLC_UM_RCVED;
         ioHdlcBroadcastFlags IOHDLC_EVT_UM_RECVD });
       hdlcReleaseFrame f }
     else do {
       ack \<leftarrow> handleCheckpointAndAck p nr pf is_command;
       (case ack of
          None \<Rightarrow> do {
            fr \<leftarrow> gets s_framing;
            c0 \<leftarrow> gets (\<lambda>s. IOHDLC_FRAME_CTRL fr (f_bytes (frame_of s f)) 0);
            c1 \<leftarrow> gets (\<lambda>s. if 1 < ctrl_size fr then IOHDLC_FRAME_CTRL fr (f_bytes (frame_of s f)) 1 else 0);
            setFrmrCondition p c0 c1 (ctrl_size fr) is_command IOHDLC_FRMR_Y;
            hdlcReleaseFrame f }
        | Some a \<Rightarrow> do {
            accepted \<leftarrow> commonRx_body p f is_command pf a;
            whenM (\<not> accepted) (hdlcReleaseFrame f) }) } }"

definition ioHdlcNrmRx :: "nat \<Rightarrow> unit hdlc" where
  "ioHdlcNrmRx f = do {
     addr \<leftarrow> gets (\<lambda>s. ucast (IOHDLC_FRAME_ADDR (s_framing s) (f_bytes (frame_of s f))) :: u32);
     c \<leftarrow> gets s_c_peer;
     (case c of
        None \<Rightarrow> do {
          drop_it \<leftarrow> gets (\<lambda>s. \<not> IOHDLC_IS_PRI s \<and> addr \<noteq> s_addr s);
          if drop_it then hdlcReleaseFrame f else faultM }
      | Some p \<Rightarrow> do {
          drop_it \<leftarrow> gets (\<lambda>s. if IOHDLC_IS_PRI s then addr \<noteq> p_addr (s_peers s p) else addr \<noteq> s_addr s);
          if drop_it then hdlcReleaseFrame f
          else do {
            is_command \<leftarrow> gets (\<lambda>s. addr = s_addr s);
            commonRx p f is_command } }) }"

definition ioHdlcAbmRx :: "nat \<Rightarrow> unit hdlc" where
  "ioHdlcAbmRx f = do {
     addr \<leftarrow> gets (\<lambda>s. ucast (IOHDLC_FRAME_ADDR (s_framing s) (f_bytes (frame_of s f))) :: u32);
     c \<leftarrow> gets s_c_peer;
     (case c of
        None \<Rightarrow> faultM
      | Some p \<Rightarrow> do {
          drop_it \<leftarrow> gets (\<lambda>s. addr \<noteq> s_addr s \<and> addr \<noteq> p_addr (s_peers s p));
          if drop_it then hdlcReleaseFrame f
          else do {
            is_command \<leftarrow> gets (\<lambda>s. addr = s_addr s);
            commonRx p f is_command } }) }"

text \<open>
  One round of the receive loop: \<open>None\<close> stands for the receive timeout, which the loop treats
  as an idle line.
\<close>

definition ioHdlcRxEntry_round :: "nat option \<Rightarrow> unit hdlc" where
  "ioHdlcRxEntry_round r =
     (case r of
        None \<Rightarrow> do {
          stop \<leftarrow> gets s_stop_requested;
          whenM (\<not> stop) (do {
            flags_set IOHDLC_FLG_IDL;
            twa \<leftarrow> gets IOHDLC_USE_TWA;
            whenM twa (ioHdlcBroadcastFlags IOHDLC_EVT_LINE_IDLE) }) }
      | Some f \<Rightarrow> do {
          flags_clr IOHDLC_FLG_IDL;
          ctrl \<leftarrow> gets (\<lambda>s. IOHDLC_FRAME_CTRL (s_framing s) (f_bytes (frame_of s f)) 0);
          if IOHDLC_IS_U_FRM ctrl then handleUFrame f
          else do {
            h \<leftarrow> gets s_rx_fn;
            (case h of RxNrm \<Rightarrow> ioHdlcNrmRx f | RxAbm \<Rightarrow> ioHdlcAbmRx f | RxNone \<Rightarrow> hdlcReleaseFrame f) } })"

end
