(* ===== verification/Hdlc_Tx.thy ===== *)
theory Hdlc_Tx
  imports Hdlc_Rx
begin

text \<open>
  The transmit side of \<open>src/ioHdlc_core.c\<close>: the I-frame header, S-frames, the connected-mode
  scheduler \<open>ioHdlcConnectedTx\<close>, cut at the points where the C code gives up and retakes the
  peer's \<open>state_mutex\<close> (timers and UI, one I-frame, the closing part), and one round of the
  transmit loop \<open>ioHdlcTxEntry\<close>.
\<close>

section \<open>I-frame header and S-frames\<close>

definition hdr_reset :: "framing \<Rightarrow> u8 \<Rightarrow> u32 \<Rightarrow> frame \<Rightarrow> frame" where
  "hdr_reset fr ctrl_len ns_seed fm =
     (if f_tx_ctrl_len fm \<noteq> ctrl_len \<or> \<not> IOHDLC_IS_I_FRM (IOHDLC_FRAME_CTRL fr (f_bytes fm) 0) then
        (let b0 = (f_bytes fm)[ctrl_pos fr 0 := IOHDLC_I_ID];
             b1 = (if 1 < ctrl_len then b0[ctrl_pos fr 1 := 0] else b0)
         in fm\<lparr>f_bytes := setNSInCtrl fr (ctrl_pos fr 0) b1 ns_seed, f_tx_ctrl_len := ctrl_len\<rparr>)
      else fm)"

definition hdr_finish :: "framing \<Rightarrow> u8 \<Rightarrow> u32 \<Rightarrow> bool \<Rightarrow> frame \<Rightarrow> frame" where
  "hdr_finish fr addr nr set_pf fm =
     fm\<lparr>f_bytes := (setPFInCtrl fr (ctrl_pos fr 0) (setNRInCtrl fr (ctrl_pos fr 0) (f_bytes fm) nr)
        set_pf)[addr_pos fr := addr]\<rparr>"

definition prepareIFrameHeader :: "nat \<Rightarrow> u8 \<Rightarrow> u32 \<Rightarrow> u32 \<Rightarrow> bool \<Rightarrow> u32 hdlc" where
  "prepareIFrameHeader f addr ns_seed nr set_pf = do {
     fr \<leftarrow> gets s_framing;
     assertM (ctrl_size fr \<le> 2);
     updF f (hdr_reset fr (ctrl_size fr) ns_seed);
     ns \<leftarrow> gets (\<lambda>s. extractNS fr (f_bytes (frame_of s f)));
     updF f (hdr_finish fr addr nr set_pf);
     ret ns }"

definition outstanding_of :: "station \<Rightarrow> peer \<Rightarrow> u32" where
  "outstanding_of s q = (p_vs q - p_nr q) AND modmask (s_framing s)"

text \<open>Checkpoint reference and acknowledgment of P/F when a frame carries the bit.\<close>

definition account_pf :: "nat \<Rightarrow> bool \<Rightarrow> bool \<Rightarrow> unit hdlc" where
  "account_pf p is_command set_pf = whenM set_pf (do {
     upd \<leftarrow> gets (\<lambda>s. is_command \<or> \<not> IOHDLC_IS_ABM s \<or> IOHDLC_F_ISRCVED s);
     whenM upd (updP p (\<lambda>q. q\<lparr>p_vs_atlast_pf := p_vs q\<rparr>));
     if is_command then do { IOHDLC_ACK_F; IOHDLC_CLR_NEED_P p }
     else IOHDLC_ACK_P })"

definition restart_t3_twa :: "nat \<Rightarrow> unit hdlc" where
  "restart_t3_twa p = do {
     used \<leftarrow> gets (\<lambda>s. iFrameReplyTimerUsed s \<and> IOHDLC_USE_TWA s);
     tmo \<leftarrow> gets iFrameReplyTimeoutMs;
     whenM used (ioHdlcRestartReplyTimer p IOHDLC_TIMER_T3 tmo) }"

definition sframe_set_pf :: "station \<Rightarrow> peer \<Rightarrow> bool \<Rightarrow> bool" where
  "sframe_set_pf s q is_command =
     (let window_full = p_ks q \<le> outstanding_of s q;
          no_i_frame = (p_trans_q q = [] \<or> window_full)
      in if is_command then
           (if IOHDLC_USE_TWA s then
              IOHDLC_F_ISRCVED s \<and> (no_i_frame \<or> (IOHDLC_PEER_BUSY q \<and> IOHDLC_NEED_P q))
            else IOHDLC_F_ISRCVED s)
         else responseShouldSetF s False True)"

definition prepareSFrame :: "nat \<Rightarrow> u8 \<Rightarrow> bool \<Rightarrow> nat option hdlc" where
  "prepareSFrame p s_fun is_command = do {
     opp \<leftarrow> gets sendOpportunity;
     if \<not> opp then ret None
     else do {
       set_pf \<leftarrow> gets (\<lambda>s. sframe_set_pf s (s_peers s p) is_command);
       fo \<leftarrow> hdlcTakeFrame;
       (case fo of
          None \<Rightarrow> ret None
        | Some f \<Rightarrow> do {
            vr \<leftarrow> getP p p_vr;
            buildSFrame p f s_fun vr set_pf is_command;
            account_pf p is_command set_pf;
            whenM (set_pf \<and> is_command) (startPollReplyTimer p);
            restart_t3_twa p;
            ret (Some f) }) } }"

section \<open>Connected-mode scheduler\<close>

text \<open>Timer events; the first component of the result is false when the link went down.\<close>

definition connTx_reply_timeout :: "nat \<Rightarrow> u32 \<Rightarrow> (bool \<times> u32) hdlc" where
  "connTx_reply_timeout p cm_flags =
     (if has cm_flags IOHDLC_EVT_C_RPLYTMO then do {
        let cm_flags = cm_flags AND NOT IOHDLC_EVT_C_RPLYTMO;
        expired \<leftarrow> ioHdlcIsReplyTimerExpired p IOHDLC_TIMER_REPLY;
        if expired then do {
          retry \<leftarrow> handleTimeoutRetry p;
          if \<not> retry then ret (False, cm_flags)
          else do {
            ss_set p IOHDLC_SS_NEED_P;
            pf_set IOHDLC_F_RCVED;
            updP p (\<lambda>q. q\<lparr>p_rej_actioned := 0\<rparr>);
            ret (True, cm_flags) } }
        else ret (True, cm_flags) }
      else ret (True, cm_flags))"

definition connTx_t3_timeout :: "nat \<Rightarrow> u32 \<Rightarrow> (bool \<times> u32) hdlc" where
  "connTx_t3_timeout p cm_flags =
     (if has cm_flags IOHDLC_EVT_T3_TMO then do {
        let cm_flags = cm_flags AND NOT IOHDLC_EVT_T3_TMO;
        expired \<leftarrow> ioHdlcIsReplyTimerExpired p IOHDLC_TIMER_T3;
        if expired then do {
          ioHdlcStopReplyTimer p IOHDLC_TIMER_T3;
          nrm \<leftarrow> gets IOHDLC_IS_NRM;
          outst \<leftarrow> getP p (\<lambda>q. p_retrans_q q \<noteq> []);
          if nrm then do { IOHDLC_SET_NEED_P p; ret (True, cm_flags) }
          else if outst then do {
            retry \<leftarrow> handleTimeoutRetry p;
            if \<not> retry then ret (False, cm_flags)
            else do {
              ss_set p IOHDLC_SS_NEED_P;
              pf_set IOHDLC_F_RCVED;
              updP p (\<lambda>q. q\<lparr>p_rej_actioned := 0\<rparr>);
              ret (True, cm_flags) } }
          else ret (True, cm_flags) }
        else ret (True, cm_flags) }
      else ret (True, cm_flags))"

definition tx_is_command :: "station \<Rightarrow> bool" where
  "tx_is_command s = (if IOHDLC_IS_ABM s then \<not> IOHDLC_P_ISRCVED s else IOHDLC_IS_PRI s)"

definition connTx_ui :: "nat \<Rightarrow> unit hdlc" where
  "connTx_ui p = do {
     pend \<leftarrow> gets (\<lambda>s. p_ui_tx_pending (s_peers s p) \<and> sendOpportunity s
       \<and> \<not> p_frmr_condition (s_peers s p));
     whenM pend (do {
       is_command \<leftarrow> gets tx_is_command;
       ui_value \<leftarrow> getP p p_ui_tx_value;
       fo \<leftarrow> hdlcTakeFrame;
       (case fo of
          None \<Rightarrow> ret ()
        | Some f \<Rightarrow> do {
            ioHdlcBuildUFrameWithInfo p f IOHDLC_U_UI False is_command (le32_bytes ui_value);
            updP p (\<lambda>q. q\<lparr>p_ui_tx_pending := False\<rparr>);
            sent \<leftarrow> sendFrame f;
            whenM sent (restart_t3_twa p) }) }) }"

definition connTx_prefix :: "nat \<Rightarrow> u32 \<Rightarrow> (bool \<times> u32) hdlc" where
  "connTx_prefix p cm_flags = do {
     (go, cm) \<leftarrow> connTx_reply_timeout p (cm_flags AND NOT IOHDLC_EVT_LINE_IDLE);
     if \<not> go then ret (False, cm)
     else do {
       (go, cm) \<leftarrow> connTx_t3_timeout p cm;
       if \<not> go then ret (False, cm)
       else do { connTx_ui p; ret (True, cm) } } }"

text \<open>How one round of the I-frame loop ends.\<close>

datatype iloop = ILeave | IAgain | IAbort

definition iframe_set_pf :: "station \<Rightarrow> peer \<Rightarrow> bool \<Rightarrow> u32 \<Rightarrow> bool \<Rightarrow> bool" where
  "iframe_set_pf s q is_command outstanding has_next =
     (if IOHDLC_IS_BUSY s then False
      else
        (let is_last_frame = (p_ks q \<le> outstanding + 1 \<or> \<not> has_next) in
         if is_command then (if IOHDLC_USE_TWA s then is_last_frame else IOHDLC_F_ISRCVED s)
         else responseShouldSetF s True is_last_frame))"

definition connTx_may_send :: "station \<Rightarrow> nat \<Rightarrow> bool" where
  "connTx_may_send s p =
     (let q = s_peers s p in
      p_trans_q q \<noteq> [] \<and> \<not> p_ks q \<le> outstanding_of s q \<and> sendOpportunity s
      \<and> \<not> IOHDLC_PEER_BUSY q)"

definition connTx_send_iframe :: "nat \<Rightarrow> nat \<Rightarrow> bool \<Rightarrow> bool hdlc" where
  "connTx_send_iframe p f has_next = do {
     outstanding \<leftarrow> gets (\<lambda>s. outstanding_of s (s_peers s p));
     ioHdlcFrameTxGateWait f;
     is_command \<leftarrow> gets tx_is_command;
     tx_addr \<leftarrow> gets (\<lambda>s. ucast (if is_command then p_addr (s_peers s p) else s_addr s));
     set_pf \<leftarrow> gets (\<lambda>s. iframe_set_pf s (s_peers s p) is_command outstanding has_next);
     q \<leftarrow> getP p id;
     prepareIFrameHeader f tx_addr (p_vs q) (p_vr q) set_pf;
     mm \<leftarrow> gets (\<lambda>s. modmask (s_framing s));
     updP p (\<lambda>q. q\<lparr>p_retrans_q := p_retrans_q q @ [f]\<rparr>);
     updP p (\<lambda>q. if p_vs q = p_vs_highest q then q\<lparr>p_vs_highest := (p_vs q + 1) AND mm\<rparr> else q);
     updP p (\<lambda>q. q\<lparr>p_vs := (p_vs q + 1) AND mm\<rparr>);
     t3_used \<leftarrow> gets iFrameReplyTimerUsed;
     whenM t3_used (updP p (\<lambda>q. q\<lparr>p_t3_expected_nr := p_vs q\<rparr>));
     account_pf p is_command set_pf;
     ioHdlcFrameTxGateRelease f;
     hdlcSendFrame f;
     whenM (set_pf \<and> is_command) (startPollReplyTimer p);
     tmo \<leftarrow> gets iFrameReplyTimeoutMs;
     whenM t3_used (ioHdlcStartReplyTimer p IOHDLC_TIMER_T3 tmo);
     ret set_pf }"

definition urgent_flags :: u32 where
  "urgent_flags = IOHDLC_EVT_UM_RECVD OR IOHDLC_EVT_RNR_RECVD OR IOHDLC_EVT_POOL_ST_CHG
     OR IOHDLC_EVT_REJ_ACTED"

text \<open>One round: how it ends, whether an I-frame was sent, and the flags.\<close>

definition connTx_round :: "nat \<Rightarrow> u32 \<Rightarrow> (iloop \<times> bool \<times> u32) hdlc" where
  "connTx_round p cm_flags = do {
     may \<leftarrow> gets (\<lambda>s. connTx_may_send s p);
     if \<not> may then ret (ILeave, False, cm_flags)
     else do {
       new \<leftarrow> iohdlc_evt_get_and_clear_flags;
       let cm = cm_flags OR new;
       if has cm IOHDLC_EVT_LINK_DOWN then ret (IAbort, False, cm AND NOT IOHDLC_EVT_LINK_DOWN)
       else do {
         fs \<leftarrow> getP p p_trans_q;
         updP p (\<lambda>q. q\<lparr>p_trans_q := tl (p_trans_q q)\<rparr>);
         set_pf \<leftarrow> connTx_send_iframe p (hd fs) (tl fs \<noteq> []);
         twa \<leftarrow> gets IOHDLC_USE_TWA;
         ret (if has cm urgent_flags \<or> (twa \<and> set_pf) then ILeave else IAgain, True, cm) } } }"

fun connTx_loop :: "nat \<Rightarrow> nat \<Rightarrow> bool \<Rightarrow> u32 \<Rightarrow> (iloop \<times> bool \<times> u32) hdlc" where
  "connTx_loop 0 p sent cm_flags = ret (ILeave, sent, cm_flags)"
| "connTx_loop (Suc n) p sent cm_flags = do {
     (w, sent', cm) \<leftarrow> connTx_round p cm_flags;
     (case w of
        IAgain \<Rightarrow> connTx_loop n p (sent \<or> sent') cm
      | _ \<Rightarrow> ret (w, sent \<or> sent', cm)) }"

definition tail_clear_flags :: u32 where
  "tail_clear_flags = IOHDLC_EVT_I_RECVD OR IOHDLC_EVT_RR_RECVD OR IOHDLC_EVT_RNR_RECVD
     OR IOHDLC_EVT_POOL_ST_CHG OR IOHDLC_EVT_TX_IFRM_ENQ OR IOHDLC_EVT_PF_RECVD
     OR IOHDLC_EVT_xREJ_RECVD OR IOHDLC_EVT_UI_ENQ"

definition connTx_sframe :: "nat \<Rightarrow> bool \<Rightarrow> u32 \<Rightarrow> (nat option \<times> u32) hdlc" where
  "connTx_sframe p i_frame_sent cm = do {
     is_command \<leftarrow> gets tx_is_command;
     ss \<leftarrow> getP p p_ss_state;
     (sf, cm) \<leftarrow>
       (if has ss IOHDLC_SS_REJPEND then do {
          r \<leftarrow> prepareSFrame p IOHDLC_S_REJ is_command;
          whenM (r \<noteq> None) (ss_clr p IOHDLC_SS_REJPEND);
          ret (r, cm AND NOT IOHDLC_EVT_REJ_ACTED) }
        else ret (None, cm));
     freed \<leftarrow> gets (\<lambda>s. sf = None \<and> IOHDLC_IS_BUSY s \<and> hdlcPoolGetState (s_pool s) = IOHDLC_POOL_NORMAL);
     sf \<leftarrow>
       (if freed then do {
          r \<leftarrow> prepareSFrame p IOHDLC_S_RR is_command;
          whenM (r \<noteq> None) (do { flags_clr IOHDLC_FLG_BUSY; condvar_tx p });
          ret r }
        else ret sf);
     due \<leftarrow> gets (\<lambda>s. sf = None \<and> \<not> i_frame_sent
       \<and> (IOHDLC_P_ISRCVED s \<or> IOHDLC_F_ISRCVED s \<and> IOHDLC_NEED_P (s_peers s p)));
     sf \<leftarrow>
       (if due then do {
          busy \<leftarrow> gets IOHDLC_IS_BUSY;
          prepareSFrame p (if busy then IOHDLC_S_RNR else IOHDLC_S_RR) is_command }
        else ret sf);
     ret (sf, cm) }"

definition connTx_next_peer :: "nat \<Rightarrow> unit hdlc" where
  "connTx_next_peer p = do {
     adv \<leftarrow> gets (\<lambda>s. IOHDLC_IS_NRM s \<and> IOHDLC_IS_PRI s \<and> IOHDLC_F_ISRCVED s
       \<and> \<not> p_frmr_condition (s_peers s p) \<and> p_trans_q (s_peers s p) = []
       \<and> p_retrans_q (s_peers s p) = []);
     whenM adv (do {
       nx \<leftarrow> ioHdlcNextPeer False;
       (case nx of
          None \<Rightarrow> ret ()
        | Some n \<Rightarrow> whenM (n \<noteq> p) (IOHDLC_SET_NEED_P n)) }) }"

definition connTx_tail :: "nat \<Rightarrow> bool \<Rightarrow> u32 \<Rightarrow> u32 hdlc" where
  "connTx_tail p i_frame_sent cm_flags = do {
     new \<leftarrow> iohdlc_evt_get_and_clear_flags;
     (sf, cm) \<leftarrow> connTx_sframe p i_frame_sent (cm_flags OR new);
     (case sf of
        None \<Rightarrow> ret ()
      | Some f \<Rightarrow> do { sendFrame f; ret () });
     connTx_next_peer p;
     ret (cm AND NOT tail_clear_flags) }"

definition ioHdlcConnectedTx :: "nat \<Rightarrow> u32 \<Rightarrow> u32 hdlc" where
  "ioHdlcConnectedTx p cm_flags = do {
     (go, cm) \<leftarrow> connTx_prefix p cm_flags;
     if \<not> go then ret cm
     else do {
       q \<leftarrow> getP p id;
       (w, sent, cm) \<leftarrow>
         (if p_frmr_condition q then ret (ILeave, False, cm)
          else connTx_loop (length (p_trans_q q) + 1) p False cm);
       if w = IAbort then ret cm else connTx_tail p sent cm } }"

section \<open>The transmit loop\<close>

text \<open>
  Parts of a round end either with \<open>continue\<close> (\<open>Inl\<close> of the residual flags) or by
  going on with a peer and the residual flags (\<open>Inr\<close>).
\<close>

type_synonym tx_cont = "u32 + nat \<times> u32"

definition tx_select_peer :: "nat \<Rightarrow> u32 \<Rightarrow> nat option hdlc" where
  "tx_select_peer p s_flags_word = do {
     q \<leftarrow> getP p id;
     if has s_flags_word IOHDLC_EVT_LINK_REQ \<and> p_um_cmd q = 0
         \<and> \<not> has (p_um_state q) IOHDLC_UM_SENT then do {
       target \<leftarrow> ioHdlcNextPeer True;
       (case target of
          None \<Rightarrow> ret None
        | Some t \<Rightarrow> do {
            cmd \<leftarrow> getP t p_um_cmd;
            ret (if cmd \<noteq> 0 then Some t else None) }) }
     else ret (Some p) }"

definition tx_send_ucommand :: "nat \<Rightarrow> unit hdlc" where
  "tx_send_ucommand p = do {
     q \<leftarrow> getP p id;
     fo \<leftarrow> (case p_um_api_frame q of
        Some f \<Rightarrow> do { updP p (\<lambda>q. q\<lparr>p_um_api_frame := None\<rparr>); ret (Some f) }
      | None \<Rightarrow> do {
          t \<leftarrow> hdlcTakeFrame;
          (case t of None \<Rightarrow> ret () | Some f \<Rightarrow> ioHdlcBuildUFrame p f (p_um_cmd q) True True);
          ret t });
     (case fo of
        None \<Rightarrow> ret ()
      | Some f \<Rightarrow> do {
          sendFrame f;
          (if p_um_cmd q = IOHDLC_U_TEST then do {
             nrm_pri \<leftarrow> gets (\<lambda>s. IOHDLC_IS_NRM s \<and> IOHDLC_IS_PRI s);
             whenM nrm_pri (ioHdlcStopReplyTimer p IOHDLC_TIMER_T3) }
           else restart_t3_twa p);
          whenM (p_um_cmd q \<noteq> IOHDLC_U_TEST) (startPollReplyTimer p);
          um_set p IOHDLC_UM_SENT;
          IOHDLC_ACK_F }) }"

definition tx_ucommand :: "nat \<Rightarrow> u32 \<Rightarrow> tx_cont hdlc" where
  "tx_ucommand p cm_flags = do {
     um \<leftarrow> getP p p_um_state;
     if has cm_flags IOHDLC_EVT_LINK_REQ
         \<or> has um IOHDLC_UM_SENT \<and> has cm_flags IOHDLC_EVT_C_RPLYTMO then do {
       let s_flags_word = cm_flags AND (IOHDLC_EVT_LINK_REQ OR IOHDLC_EVT_C_RPLYTMO);
       let cm = cm_flags AND NOT s_flags_word;
       t \<leftarrow> tx_select_peer p s_flags_word;
       (case t of
          None \<Rightarrow> ret (Inl cm)
        | Some p \<Rightarrow> do {
            q \<leftarrow> getP p id;
            pri \<leftarrow> gets IOHDLC_IS_PRI;
            if \<not> pri \<and> (p_um_cmd q \<noteq> IOHDLC_U_TEST \<or> p_um_api_frame q = None) then ret (Inl 0)
            else do {
              retry \<leftarrow> (if has s_flags_word IOHDLC_EVT_C_RPLYTMO \<and> p_um_cmd q \<noteq> IOHDLC_U_TEST
                then handleTimeoutRetry p else ret True);
              if \<not> retry then do { ioHdlcNextPeer False; ret (Inl 0) }
              else do {
                preset \<leftarrow> gets (\<lambda>s. IOHDLC_PEER_DISC (s_peers s p) \<and> IOHDLC_USE_TWA s
                  \<and> isConnectionUCommand (p_um_cmd (s_peers s p)));
                whenM preset (pf_set IOHDLC_F_RCVED);
                opp \<leftarrow> gets sendOpportunity;
                if opp then do { tx_send_ucommand p; ret (Inr (p, cm)) }
                else ret (Inl cm) } } }) }
     else ret (Inr (p, cm_flags)) }"

definition tx_uresponse_frame :: "nat \<Rightarrow> bool \<Rightarrow> nat option hdlc" where
  "tx_uresponse_frame p setf = do {
     q \<leftarrow> getP p id;
     (case p_um_rsp_frame q of
        Some f \<Rightarrow>
          if p_um_rsp q = IOHDLC_U_TEST then do {
            info_len \<leftarrow> gets (\<lambda>s. (ucast (f_elen (frame_of s f)) :: u64)
              - word_of_nat (unat (frame_offset (s_framing s)) + 2));
            updP p (\<lambda>q. q\<lparr>p_um_rsp_frame := None\<rparr>);
            ioHdlcBuildUFrame p f IOHDLC_U_TEST setf False;
            n \<leftarrow> gets (\<lambda>s. f_elen (frame_of s f));
            set_elen f (ucast (ucast n + info_len));
            ret (Some f) }
          else hdlcTakeFrame
      | None \<Rightarrow> if p_um_rsp q \<noteq> IOHDLC_U_TEST then hdlcTakeFrame else ret None) }"

definition tx_uresponse :: "nat \<Rightarrow> unit hdlc" where
  "tx_uresponse p = do {
     setf \<leftarrow> gets IOHDLC_P_ISRCVED;
     um_clr p IOHDLC_UM_RCVED;
     IOHDLC_ACK_P;
     fo \<leftarrow> tx_uresponse_frame p setf;
     q \<leftarrow> getP p id;
     (case fo of
        None \<Rightarrow> ret ()
      | Some f \<Rightarrow> do {
          (if p_um_rsp q = IOHDLC_U_FRMR then buildFrmrResponse p f setf
           else if p_um_rsp q \<noteq> IOHDLC_U_TEST then ioHdlcBuildUFrame p f (p_um_rsp q) setf False
           else ret ());
          sendFrame f;
          restart_t3_twa p;
          (if p_um_cmd q = IOHDLC_U_TEST then do {
             whenM (\<not> has (p_um_state q) IOHDLC_UM_SENT) (updP p (\<lambda>q. q\<lparr>p_um_cmd := 0\<rparr>));
             updP p (\<lambda>q. q\<lparr>p_um_rsp := 0\<rparr>) }
           else whenM (p_um_cmd q = IOHDLC_U_DISC) (closePeerOrderly p)) }) }"

definition tx_idle_peer :: "u32 hdlc" where
  "tx_idle_peer = do {
     nx \<leftarrow> ioHdlcNextPeer False;
     (case nx of
        None \<Rightarrow> ret 0
      | Some n \<Rightarrow> do {
          conn \<leftarrow> getP n (\<lambda>q. \<not> IOHDLC_PEER_DISC q);
          if conn then do { IOHDLC_SET_NEED_P n; ret IOHDLC_EVT_LINK_ST_CHG }
          else ret 0 }) }"

definition tx_dispatch :: "nat \<Rightarrow> u32 \<Rightarrow> u32 hdlc" where
  "tx_dispatch p cm_flags = do {
     um \<leftarrow> getP p p_um_state;
     whenM (has um IOHDLC_UM_RCVED) (tx_uresponse p);
     let cm = (if has um IOHDLC_UM_RCVED then cm_flags AND NOT IOHDLC_EVT_UM_RECVD else cm_flags)
       AND NOT IOHDLC_EVT_LINK_ST_CHG;
     q \<leftarrow> getP p id;
     if IOHDLC_PEER_DISC q \<or> IOHDLC_UM_ISSENT q then do {
       pri \<leftarrow> gets IOHDLC_IS_PRI;
       if pri \<and> IOHDLC_PEER_DISC q \<and> p_um_cmd q = 0 \<and> \<not> has (p_um_state q) IOHDLC_UM_SENT
       then tx_idle_peer
       else ret (cm AND (IOHDLC_EVT_C_RPLYTMO OR IOHDLC_EVT_LINK_REQ)) }
     else do {
       m \<leftarrow> gets s_mode;
       if m = IOHDLC_OM_NRM \<or> m = IOHDLC_OM_ABM then ioHdlcConnectedTx p cm
       else ret cm } }"

text \<open>
  One round of the transmit loop after the wait for events: the residual flags, or \<open>None\<close> when
  a stop was requested.
\<close>

definition ioHdlcTxEntry_round :: "u32 \<Rightarrow> u32 option hdlc" where
  "ioHdlcTxEntry_round cm_flags = do {
     c \<leftarrow> gets s_c_peer;
     new \<leftarrow> (if cm_flags = 0 then iohdlc_evt_get_and_clear_flags else ret cm_flags);
     stop \<leftarrow> gets s_stop_requested;
     if stop then ret None
     else (case c of
        None \<Rightarrow> ret (Some 0)
      | Some p \<Rightarrow> do {
          r \<leftarrow> tx_ucommand p new;
          (case r of
             Inl cm \<Rightarrow> ret (Some cm)
           | Inr (p, cm) \<Rightarrow> do { cm \<leftarrow> tx_dispatch p cm; ret (Some cm) }) }) }"

end
