(* ===== verification/Hdlc_Init.thy ===== *)
theory Hdlc_Init
  imports Hdlc_Tx
begin

text \<open>
  Set-up of a station (\<open>ioHdlcStationInit\<close>, \<open>ioHdlcAddPeer\<close>,
  \<open>ioHdlcAddr2peer\<close> and \<open>ioHdlcPeerSetWindow\<close> of \<open>src/ioHdlc.c\<close>) and the capability and
  configuration part of the software driver it asks (\<open>src/ioHdlcswdriver.c\<close>). The functions
  return an error code or a value; the early returns of the source leave the station as far as
  it was written. A \<open>NULL\<close> pointer argument is the value \<open>None\<close>.
\<close>

section \<open>Errors\<close>

datatype errno = EINVAL | ENOTSUP | EMSGSIZE | ENOMEM | EBUSY | ETIMEDOUT | EIO | ENOTCONN
  | EISCONN | ECONNREFUSED | ECONNRESET | EEXIST | EAGAIN

type_synonym 'a api = "(errno + 'a) hdlc"

definition okE :: "'a \<Rightarrow> 'a api" where
  "okE x = ret (Inr x)"

definition failE :: "errno \<Rightarrow> 'a api" where
  "failE e = ret (Inl e)"

definition liftE :: "'a hdlc \<Rightarrow> 'a api" where
  "liftE m = do { x \<leftarrow> m; okE x }"

definition bindE :: "'a api \<Rightarrow> ('a \<Rightarrow> 'b api) \<Rightarrow> 'b api" where
  "bindE m k = do { r \<leftarrow> m; (case r of Inl e \<Rightarrow> failE e | Inr x \<Rightarrow> k x) }"

definition thenE :: "'a api \<Rightarrow> 'b api \<Rightarrow> 'b api" where
  "thenE m k = bindE m (\<lambda>_. k)"

definition checkE :: "bool \<Rightarrow> errno \<Rightarrow> unit api" where
  "checkE b e = (if b then okE () else failE e)"

section \<open>Driver capabilities\<close>

record driver_caps =
  supported_log2mods :: "u8 list"
  fcs_supported_sizes :: "u8 list"
  fcs_default_size :: u8
  tr_hw_support :: bool
  tr_sw_available :: bool
  fff_supported_types :: "u8 list"
  fff_default_type :: u8
  fff_hw_support :: bool

definition s_swdriver_base_caps :: driver_caps where
  "s_swdriver_base_caps = \<lparr>supported_log2mods = [3, 7, 0, 0], fcs_supported_sizes = [0, 2, 0, 0],
     fcs_default_size = 2, tr_hw_support = False, tr_sw_available = True,
     fff_supported_types = [0, 1, 2, 0], fff_default_type = 1, fff_hw_support = False\<rparr>"

definition s_fcs_size_supported :: "u8 list \<Rightarrow> u8 \<Rightarrow> bool" where
  "s_fcs_size_supported sizes fcs_size = (fcs_size \<in> set (take 4 sizes))"

text \<open>A complete FCS backend: the sizes it supports and its default.\<close>

record fcs_backend =
  be_supported_sizes :: "u8 list"
  be_default_size :: u8

text \<open>The list of supported sizes is full when slot 4 is reached: an assertion of the source.\<close>

fun first_free_slot :: "u8 list \<Rightarrow> nat \<Rightarrow> nat" where
  "first_free_slot [] i = i"
| "first_free_slot (x # xs) i = (if x = 0 then i else first_free_slot xs (i + 1))"

fun merge_fcs_sizes :: "u8 list \<Rightarrow> nat \<Rightarrow> u8 list \<Rightarrow> u8 list option" where
  "merge_fcs_sizes sizes slot [] = Some sizes"
| "merge_fcs_sizes sizes slot (x # xs) =
     (if x = 0 \<or> s_fcs_size_supported sizes x then merge_fcs_sizes sizes slot xs
      else if 4 \<le> slot then None
      else merge_fcs_sizes (sizes[slot := x]) (slot + 1) xs)"

definition s_resolve_fcs_caps :: "fcs_backend option \<Rightarrow> driver_caps option" where
  "s_resolve_fcs_caps backend =
     (case backend of
        None \<Rightarrow> Some s_swdriver_base_caps
      | Some b \<Rightarrow>
          (case merge_fcs_sizes (fcs_supported_sizes s_swdriver_base_caps)
                  (first_free_slot (drop 1 (fcs_supported_sizes s_swdriver_base_caps)) 1)
                  (take 4 (be_supported_sizes b)) of
             None \<Rightarrow> None
           | Some sizes \<Rightarrow> Some (s_swdriver_base_caps
               \<lparr>fcs_supported_sizes := sizes,
                fcs_default_size := if s_fcs_size_supported sizes (be_default_size b)
                  then be_default_size b else fcs_default_size s_swdriver_base_caps\<rparr>)))"

text \<open>The configuration the driver stores, or the error code it returns.\<close>

record driver_config =
  dc_fcs_size :: u8
  dc_apply_transparency :: bool
  dc_frame_format_size :: u8

definition drv_configure :: "driver_caps \<Rightarrow> u8 \<Rightarrow> bool \<Rightarrow> u8 \<Rightarrow> errno + driver_config" where
  "drv_configure caps fcs_size transparency fff_type =
     (if \<not> s_fcs_size_supported (fcs_supported_sizes caps) fcs_size then Inl ENOTSUP
      else if fff_type \<notin> set (take 4 (fff_supported_types caps)) then Inl ENOTSUP
      else if transparency \<and> fff_type \<noteq> 0 then Inl EINVAL
      else if transparency \<and> \<not> tr_hw_support caps \<and> \<not> tr_sw_available caps then Inl ENOTSUP
      else Inr \<lparr>dc_fcs_size = fcs_size, dc_apply_transparency = transparency,
                dc_frame_format_size = fff_type\<rparr>)"

section \<open>Station configuration\<close>

definition IOHDLC_OPT_REJ :: u8 where "IOHDLC_OPT_REJ = 0x02"
definition IOHDLC_OPT_SST :: u8 where "IOHDLC_OPT_SST = 0x02"
definition IOHDLC_OPT_STB :: u8 where "IOHDLC_OPT_STB = 0x04"
definition IOHDLC_OPT_FFF :: u8 where "IOHDLC_OPT_FFF = 0x01"
definition IOHDLC_OPT_INH :: u8 where "IOHDLC_OPT_INH = 0x04"
definition IOHDLC_OPT_REJ_OCT :: nat where "IOHDLC_OPT_REJ_OCT = 0"
definition IOHDLC_OPT_SST_OCT :: nat where "IOHDLC_OPT_SST_OCT = 2"
definition IOHDLC_OPT_STB_OCT :: nat where "IOHDLC_OPT_STB_OCT = 2"
definition IOHDLC_OPT_FFF_OCT :: nat where "IOHDLC_OPT_FFF_OCT = 4"
definition IOHDLC_OPT_INH_OCT :: nat where "IOHDLC_OPT_INH_OCT = 4"
definition IOHDLC_PORT_CONSTR_TWA_ONLY :: u32 where "IOHDLC_PORT_CONSTR_TWA_ONLY = 0x01"
definition IOHDLC_PORT_CONSTR_NRM_ONLY :: u32 where "IOHDLC_PORT_CONSTR_NRM_ONLY = 0x02"

lemmas opt_consts = IOHDLC_OPT_REJ_def IOHDLC_OPT_SST_def IOHDLC_OPT_STB_def IOHDLC_OPT_FFF_def
  IOHDLC_OPT_INH_def IOHDLC_OPT_REJ_OCT_def IOHDLC_OPT_SST_OCT_def IOHDLC_OPT_STB_OCT_def
  IOHDLC_OPT_FFF_OCT_def IOHDLC_OPT_INH_OCT_def

definition IOHDLC_REPLY_TIMEOUT_MS_DEFAULT :: u32 where "IOHDLC_REPLY_TIMEOUT_MS_DEFAULT = 100"
definition IOHDLC_REPLY_TIMEOUT_ADDR_SKEW_DIVISOR :: u32 where
  "IOHDLC_REPLY_TIMEOUT_ADDR_SKEW_DIVISOR = 10"
definition IOHDLC_DFL_T3_IDLE_T1_RATIO :: u32 where "IOHDLC_DFL_T3_IDLE_T1_RATIO = 2"
definition IOHDLC_POLL_RETRY_MAX_DEFAULT :: u8 where "IOHDLC_POLL_RETRY_MAX_DEFAULT = 8"
definition IOHDLC_MAX_INFO_LEN_DEFAULT_NO_FFF :: u32 where "IOHDLC_MAX_INFO_LEN_DEFAULT_NO_FFF = 122"
definition IOHDLC_POOL_WATERMARK_PCT_DEFAULT :: u8 where "IOHDLC_POOL_WATERMARK_PCT_DEFAULT = 20"
definition IOHDLC_POOL_WATERMARK_HIGH_MULTIPLIER :: u8 where
  "IOHDLC_POOL_WATERMARK_HIGH_MULTIPLIER = 2"
definition IOHDLC_MIN_FRAME_POOL_FRAMES :: u32 where "IOHDLC_MIN_FRAME_POOL_FRAMES = 2"
definition IOHDLC_FRAME_POOL_ALIGNMENT :: u64 where "IOHDLC_FRAME_POOL_ALIGNMENT = 8"
definition IOHDLC_PEER_MIFL_FALLBACK :: u32 where "IOHDLC_PEER_MIFL_FALLBACK = 64"

text \<open>
  The configuration. The driver is given by its capabilities (\<open>None\<close> when its
  \<open>get_capabilities\<close> returns \<open>NULL\<close>), the physical device by the constraints its stream
  port advertises. \<open>cfg_frames\<close> is what the arena memory holds.
\<close>

record station_config =
  cfg_mode :: u8
  cfg_flags :: u8
  cfg_log2mod :: u8
  cfg_addr :: u32
  cfg_driver :: "driver_caps option option"
  cfg_frame_arena :: u64
  cfg_frame_arena_size :: u64
  cfg_frames :: "nat \<Rightarrow> frame"
  cfg_max_info_len :: u32
  cfg_pool_watermark :: u8
  cfg_fff_type :: u8
  cfg_optfuncs :: "u8 list option"
  cfg_phydriver :: "u32 option"
  cfg_reply_timeout_ms :: u16
  cfg_poll_retry_max :: u8
  cfg_idle_poll_timeout_ms :: u32

text \<open>What the ABI fixes: the alignment of frame data and of the frame type, and its header size.\<close>

record platform =
  pf_data_align :: u64
  pf_min_object_align :: u64
  pf_header_size :: u64

definition calculate_frame_size :: "u8 \<Rightarrow> u8 \<Rightarrow> u8 \<Rightarrow> u32 \<Rightarrow> bool \<Rightarrow> u32" where
  "calculate_frame_size log2mod fff_type fcs_size max_info_len transparency =
     (let csize = (if log2mod = 3 then 1 else (ucast log2mod + 1) div 4) :: u32;
          csize = ucast (ucast csize :: u8);
          elen = ucast fff_type + 1 + csize + max_info_len;
          elen = (if fff_type \<noteq> 0
            then (let fff_limit = if fff_type = 1 then 127 else 4095;
                      max_elen = fff_limit - ucast fcs_size
                  in if max_elen < elen then max_elen else elen)
            else elen);
          frame_size = elen + ucast fcs_size + 1
      in if transparency then frame_size * 2 else frame_size)"

definition s_log2mod_supported :: "u8 list \<Rightarrow> u8 \<Rightarrow> bool" where
  "s_log2mod_supported mods log2mod = (log2mod \<in> set (take 4 mods))"

definition init_framing :: "u8 \<Rightarrow> framing \<Rightarrow> framing" where
  "init_framing mod2 fr =
     (let pfo = (ucast (((ucast mod2 :: u32) + 1) div 8) :: u8)
      in fr\<lparr>modmask := push_bit (unat mod2) 1 - 1, pfoctet := pfo,
            ctrl_size := if mod2 = 3 then 1 else pfo * 2\<rparr>)"

definition init_reply_timeout :: "station_config \<Rightarrow> u16" where
  "init_reply_timeout cfg =
     (let base_tmo = (if cfg_reply_timeout_ms cfg \<noteq> 0 then ucast (cfg_reply_timeout_ms cfg)
                      else IOHDLC_REPLY_TIMEOUT_MS_DEFAULT);
          base_tmo = (if cfg_mode cfg = IOHDLC_OM_ABM \<or> cfg_mode cfg = IOHDLC_OM_ADM
            then base_tmo + ((cfg_addr cfg - 1) AND 0xFF)
                   * (base_tmo div IOHDLC_REPLY_TIMEOUT_ADDR_SKEW_DIVISOR)
            else base_tmo)
      in ucast base_tmo)"

definition default_optfuncs :: "u8 list" where
  "default_optfuncs =
     [IOHDLC_OPT_REJ, 0, IOHDLC_OPT_SST, 0, IOHDLC_OPT_FFF OR IOHDLC_OPT_INH]"

definition init_flags_critical :: "u8 list \<Rightarrow> u8" where
  "init_flags_critical optfuncs =
     (if has (optfuncs ! IOHDLC_OPT_FFF_OCT) IOHDLC_OPT_FFF then IOHDLC_CFLG_FFF else 0)
     OR (if has (optfuncs ! IOHDLC_OPT_REJ_OCT) IOHDLC_OPT_REJ then IOHDLC_CFLG_REJ else 0)
     OR (if has (optfuncs ! IOHDLC_OPT_STB_OCT) IOHDLC_OPT_STB then IOHDLC_CFLG_STB else 0)"

definition init_max_info :: "station_config \<Rightarrow> u8 \<Rightarrow> u8 \<Rightarrow> u8 \<Rightarrow> u32" where
  "init_max_info cfg fff_type csize fcs =
     (if cfg_max_info_len cfg \<noteq> 0 then cfg_max_info_len cfg
      else if fff_type = 1 then 127 - 1 - 1 - ucast csize - ucast fcs
      else if fff_type = 2 then 4095 - 2 - 1 - ucast csize - ucast fcs
      else IOHDLC_MAX_INFO_LEN_DEFAULT_NO_FFF)"

section \<open>Initialisation\<close>

definition init_basic :: "station_config \<Rightarrow> unit hdlc" where
  "init_basic cfg = modify (\<lambda>s. s\<lparr>s_addr := cfg_addr cfg, s_flags := cfg_flags cfg,
     s_mode := cfg_mode cfg,
     s_pf_state := if cfg_mode cfg = IOHDLC_OM_NDM \<and> has (cfg_flags cfg) IOHDLC_FLG_PRI
       then IOHDLC_F_RCVED else 0\<rparr>)"

definition init_timeouts :: "station_config \<Rightarrow> unit api" where
  "init_timeouts cfg = do {
     modify (\<lambda>s. s\<lparr>s_framing := init_framing (cfg_log2mod cfg) (s_framing s),
       s_reply_timeout_ms := init_reply_timeout cfg,
       s_idle_poll_timeout_ms := ucast (init_reply_timeout cfg) * IOHDLC_DFL_T3_IDLE_T1_RATIO\<rparr>);
     if cfg_mode cfg = IOHDLC_OM_NDM \<and> cfg_idle_poll_timeout_ms cfg \<noteq> 0
     then if cfg_idle_poll_timeout_ms cfg < ucast (init_reply_timeout cfg)
             \<or> 65535 < cfg_idle_poll_timeout_ms cfg
          then failE EINVAL
          else liftE (modify (\<lambda>s. s\<lparr>s_idle_poll_timeout_ms := cfg_idle_poll_timeout_ms cfg\<rparr>))
     else okE () }"

definition init_lists :: "station_config \<Rightarrow> u32 \<Rightarrow> u8 list \<Rightarrow> unit hdlc" where
  "init_lists cfg port_constr optfuncs = modify (\<lambda>s. s\<lparr>
     s_poll_retry_max_cfg := if cfg_poll_retry_max cfg \<noteq> 0 then cfg_poll_retry_max cfg
       else IOHDLC_POLL_RETRY_MAX_DEFAULT,
     s_port_constraints := port_constr, s_peer_list := [], s_c_peer := None,
     s_connected_count := 0, s_cm_flags := 0, s_app_log := [], s_stop_requested := False,
     s_driver_started := False, s_runner_started := False, s_rx_fn := RxNone,
     s_optfuncs := optfuncs, s_flags_critical := init_flags_critical optfuncs,
     s_framing := (s_framing s)\<lparr>frame_offset :=
       if has (optfuncs ! IOHDLC_OPT_FFF_OCT) IOHDLC_OPT_FFF then 1 else 0\<rparr>\<rparr>)"

text \<open>The transparency to ask for, or the error of conflicting or unsupported options.\<close>

definition init_transparency :: "driver_caps \<Rightarrow> u8 list \<Rightarrow> errno + bool" where
  "init_transparency caps optfuncs =
     (let want = has (optfuncs ! IOHDLC_OPT_STB_OCT) IOHDLC_OPT_STB;
          inh = has (optfuncs ! IOHDLC_OPT_INH_OCT) IOHDLC_OPT_INH;
          fff = has (optfuncs ! IOHDLC_OPT_FFF_OCT) IOHDLC_OPT_FFF
      in if fff \<and> want \<and> \<not> inh then Inl EINVAL
         else let want = (want \<and> \<not> fff)
           in if want \<and> \<not> tr_hw_support caps \<and> \<not> tr_sw_available caps then Inl ENOTSUP
              else Inr want)"

definition init_fff_type :: "station_config \<Rightarrow> u8 list \<Rightarrow> u8" where
  "init_fff_type cfg optfuncs =
     (if cfg_fff_type cfg = 0
      then if has (optfuncs ! IOHDLC_OPT_FFF_OCT) IOHDLC_OPT_FFF then 1 else 0
      else cfg_fff_type cfg)"

definition init_pool :: "platform \<Rightarrow> station_config \<Rightarrow> u32 \<Rightarrow> unit api" where
  "init_pool plat cfg frame_size =
     (let lay = iohdlc_fmempool_layout (pf_data_align plat) (pf_min_object_align plat)
            (pf_header_size plat) IOHDLC_FRAME_POOL_ALIGNMENT (cfg_frame_arena cfg)
            (cfg_frame_arena_size cfg) (ucast frame_size) IOHDLC_FRAME_POOL_ALIGNMENT;
          pct = (if cfg_pool_watermark cfg \<noteq> 0 then cfg_pool_watermark cfg
                 else IOHDLC_POOL_WATERMARK_PCT_DEFAULT)
      in if lay_count lay < IOHDLC_MIN_FRAME_POOL_FRAMES then failE ENOMEM
         else (case hdlcPoolConfigWatermark pct (pct * IOHDLC_POOL_WATERMARK_HIGH_MULTIPLIER)
                      None None 0 (fmpInit (cfg_frames cfg) (unat frame_size) (lay_count lay)) of
                 None \<Rightarrow> liftE faultM
               | Some (P, c) \<Rightarrow> liftE (modify (\<lambda>s. s\<lparr>s_pool := P\<rparr>))))"

definition init_driver :: "platform \<Rightarrow> station_config \<Rightarrow> driver_caps \<Rightarrow> u8 list \<Rightarrow> bool \<Rightarrow> unit api" where
  "init_driver plat cfg caps optfuncs want_transparency = do {
     let fff_type = init_fff_type cfg optfuncs;
     modify (\<lambda>s. s\<lparr>s_framing := (s_framing s)\<lparr>frame_offset := fff_type\<rparr>\<rparr>);
     (case drv_configure caps (fcs_default_size caps) want_transparency fff_type of
        Inl e \<Rightarrow> failE e
      | Inr dc \<Rightarrow> do {
          modify (\<lambda>s. s\<lparr>s_fcs_size := fcs_default_size caps\<rparr>);
          csize \<leftarrow> gets (\<lambda>s. ctrl_size (s_framing s));
          thenE (init_pool plat cfg (calculate_frame_size (cfg_log2mod cfg) fff_type
              (fcs_default_size caps) (init_max_info cfg fff_type csize (fcs_default_size caps))
              want_transparency))
            (liftE (whenM (cfg_phydriver cfg \<noteq> None)
              (modify (\<lambda>s. s\<lparr>s_driver_started := True\<rparr>)))) }) }"

definition ioHdlcStationInit :: "platform \<Rightarrow> station_config \<Rightarrow> unit api" where
  "ioHdlcStationInit plat cfg =
     (let port_constr = (case cfg_phydriver cfg of None \<Rightarrow> 0 | Some c \<Rightarrow> c) in
      thenE (checkE (cfg_mode cfg = IOHDLC_OM_NDM \<or> cfg_mode cfg = IOHDLC_OM_ADM) EINVAL)
     (thenE (checkE (cfg_frame_arena cfg \<noteq> 0 \<and> cfg_frame_arena_size cfg \<noteq> 0) EINVAL)
     (thenE (checkE (\<not> (has port_constr IOHDLC_PORT_CONSTR_TWA_ONLY
                        \<and> \<not> has (cfg_flags cfg) IOHDLC_FLG_TWA)) EINVAL)
     (thenE (liftE (init_basic cfg))
     (case cfg_driver cfg of
        None \<Rightarrow> failE EINVAL
      | Some None \<Rightarrow> failE EINVAL
      | Some (Some caps) \<Rightarrow>
          thenE (checkE (s_log2mod_supported (supported_log2mods caps) (cfg_log2mod cfg)) ENOTSUP)
         (thenE (init_timeouts cfg)
         (let optfuncs = (case cfg_optfuncs cfg of None \<Rightarrow> default_optfuncs | Some os \<Rightarrow> os) in
          thenE (liftE (init_lists cfg port_constr optfuncs))
            (case init_transparency caps optfuncs of
               Inl e \<Rightarrow> failE e
             | Inr want \<Rightarrow> init_driver plat cfg caps optfuncs want))))))))"

section \<open>Peers\<close>

definition zero_timer :: vtimer where
  "zero_timer = \<lparr>t_armed = False, t_expired = False, t_delay = 0\<rparr>"

text \<open>The peer after the \<open>memset\<close>.\<close>

definition zero_peer :: peer where
  "zero_peer = \<lparr>p_addr = 0, p_ks = 0, p_kr = 0, p_mifls = 0, p_miflr = 0, p_vs = 0, p_vr = 0,
     p_nr = 0, p_vs_highest = 0, p_rej_actioned = 0, p_chkpt_actioned = 0, p_vs_atlast_pf = 0,
     p_t3_expected_nr = 0, p_i_pending_count = 0, p_um_state = 0, p_ss_state = 0, p_um_cmd = 0,
     p_um_rsp = 0, p_um_api_frame = None, p_um_rsp_frame = None, p_ui_tx_pending = False,
     p_ui_rx_pending = False, p_stream_terminal_pending = 0, p_ui_tx_value = 0,
     p_ui_rx_value = 0, p_retrans_q = [], p_recept_q = [], p_trans_q = [], p_tx_cv = 0,
     p_rx_cv = 0, p_partial_read_frame = None, p_partial_read_offset = 0,
     p_reply_tmr = zero_timer, p_t3_tmr = zero_timer, p_poll_retry_count = 0,
     p_poll_retry_max = 0, p_frmr_condition = False, p_frmr_ctrl0 = 0, p_frmr_ctrl1 = 0,
     p_frmr_reason = 0, p_frmr_cr = False\<rparr>"

fun addr2peer :: "(nat \<Rightarrow> peer) \<Rightarrow> u32 \<Rightarrow> nat list \<Rightarrow> nat option" where
  "addr2peer ps a [] = None"
| "addr2peer ps a (p # rest) = (if p_addr (ps p) = a then Some p else addr2peer ps a rest)"

definition ioHdlcAddr2peer :: "u32 \<Rightarrow> station \<Rightarrow> nat option" where
  "ioHdlcAddr2peer a s = addr2peer (s_peers s) a (s_peer_list s)"

definition peer_mifl :: "station \<Rightarrow> u32" where
  "peer_mifl s =
     (let overhead = ucast (frame_offset (s_framing s)) + 1 + ucast (ctrl_size (s_framing s))
            + ucast (s_fcs_size s) + 1 :: u32
      in if overhead < word_of_nat (fp_framesize (s_pool s))
         then word_of_nat (fp_framesize (s_pool s)) - overhead else IOHDLC_PEER_MIFL_FALLBACK)"

definition ioHdlcAddPeer :: "nat \<Rightarrow> u32 \<Rightarrow> unit api" where
  "ioHdlcAddPeer p addr = do {
     s \<leftarrow> gets id;
     if IOHDLC_IS_SEC s \<and> s_mode s \<noteq> IOHDLC_OM_NDM \<and> s_mode s \<noteq> IOHDLC_OM_ADM then failE EINVAL
     else if ioHdlcAddr2peer addr s \<noteq> None then failE EEXIST
     else liftE (do {
       updP p (\<lambda>_. zero_peer\<lparr>p_addr := addr, p_ks := modmask (s_framing s),
         p_kr := modmask (s_framing s), p_mifls := peer_mifl s, p_miflr := peer_mifl s,
         p_poll_retry_max := s_poll_retry_max_cfg s\<rparr>);
       modify (\<lambda>s. s\<lparr>s_peer_list := s_peer_list s @ [p],
         s_c_peer := (case s_c_peer s of None \<Rightarrow> Some p | Some c \<Rightarrow> Some c)\<rparr>) }) }"

definition ioHdlcPeerSetWindow :: "nat option \<Rightarrow> u32 \<Rightarrow> u32 \<Rightarrow> unit api" where
  "ioHdlcPeerSetWindow peer ks kr =
     (case peer of
        None \<Rightarrow> failE EINVAL
      | Some p \<Rightarrow> do {
          m \<leftarrow> gets (\<lambda>s. modmask (s_framing s));
          if ks = 0 \<or> m < ks \<or> kr = 0 \<or> m < kr then failE EINVAL
          else liftE (updP p (\<lambda>q. q\<lparr>p_ks := ks, p_kr := kr\<rparr>)) })"

end
