(* ===== verification/Hdlc_Api.thy ===== *)
theory Hdlc_Api
  imports Hdlc_Init
begin

text \<open>
  The application interface of \<open>src/ioHdlc.c\<close>: link set-up and disconnection, the TEST
  exchange, UI values, and the byte stream (write and read). The calls block; each is cut at its
  waits, so that a call is a sequence of the commands below, each of which is what the calling
  thread does between two points where it can lose the processor to the core: the critical
  sections under \<open>state_mutex\<close> and the code between them.
\<close>

section \<open>Timeouts\<close>

definition IOHDLC_WAIT_FOREVER :: u32 where "IOHDLC_WAIT_FOREVER = 0xFFFFFFFF"

record api_timeout =
  at_start_ms :: u32
  at_timeout_ms :: u32

definition s_api_timeout_remaining :: "u32 \<Rightarrow> api_timeout \<Rightarrow> u32" where
  "s_api_timeout_remaining now t =
     (if at_timeout_ms t = IOHDLC_WAIT_FOREVER then IOHDLC_WAIT_FOREVER
      else let elapsed_ms = now - at_start_ms t
        in if elapsed_ms < at_timeout_ms t then at_timeout_ms t - elapsed_ms else 0)"

definition s_link_api_timeout_ms :: "station \<Rightarrow> peer \<Rightarrow> u32" where
  "s_link_api_timeout_ms s p =
     (let t1_ms = ucast (s_reply_timeout_ms s) :: u64; n2 = p_poll_retry_max p in
      if 32 \<le> n2 then NOT 0
      else
        (let total = t1_ms * (push_bit (unat n2) 1 - 1);
             last = t1_ms * IOHDLC_LAST_RETRY_T1_RATIO;
             last = (if last < IOHDLC_LAST_RETRY_TIMEOUT_MIN_MS
                     then IOHDLC_LAST_RETRY_TIMEOUT_MIN_MS else last);
             total = total + (last + t1_ms * 2)
         in if ucast (NOT (0 :: u32)) < total then NOT 0 else ucast total))"

section \<open>Link set-up and disconnection\<close>

definition clear_terminal :: "nat \<Rightarrow> unit hdlc" where
  "clear_terminal p = ss_clr p (IOHDLC_SS_TERM_ORDERLY OR IOHDLC_SS_TERM_ABORTED)"

text \<open>
  The start of \<open>ioHdlcStationLinkUpEx\<close>. \<open>Some (p, s_mode)\<close>: the request is with the transmit
  thread, wait for peer \<open>p\<close>; \<open>None\<close>: return at once.
\<close>

definition link_up_start :: "u32 \<Rightarrow> u8 \<Rightarrow> (nat \<times> u8) option api" where
  "link_up_start peer_addr mode = do {
     r \<leftarrow> gets (ioHdlcAddr2peer peer_addr);
     (case r of
        None \<Rightarrow> failE EINVAL
      | Some p \<Rightarrow> do {
          conn \<leftarrow> getP p (\<lambda>q. has (p_ss_state q) IOHDLC_SS_ST_CONN);
          sec \<leftarrow> gets IOHDLC_IS_SEC;
          if conn then failE EISCONN
          else if sec \<and> mode \<noteq> IOHDLC_OM_ABM then okE None
          else do {
            whenM (mode = IOHDLC_OM_ABM) (flags_set IOHDLC_FLG_PRI);
            nrm_only \<leftarrow> gets (\<lambda>s. has (s_port_constraints s) IOHDLC_PORT_CONSTR_NRM_ONLY);
            if nrm_only \<and> mode = IOHDLC_OM_ABM then failE ENOTSUP
            else if IOHDLC_MODE_TO_UCMD mode = 0 then failE EINVAL
            else do {
              disc \<leftarrow> gets IOHDLC_IS_DISC;
              old \<leftarrow> gets s_mode;
              whenM disc (modify (\<lambda>s. s\<lparr>s_mode := mode\<rparr>));
              updP p (\<lambda>q. q\<lparr>p_um_cmd := IOHDLC_MODE_TO_UCMD mode\<rparr>);
              clear_terminal p;
              ioHdlcBroadcastFlags IOHDLC_EVT_LINK_REQ;
              okE (Some (p, if disc then old else 0)) } } }) }"

text \<open>What the caller does with the application flags it is woken with: \<open>None\<close> waits again.\<close>

definition link_up_event :: "nat \<Rightarrow> u8 \<Rightarrow> u32 \<Rightarrow> unit option api" where
  "link_up_event p s_mode' flags = do {
     q \<leftarrow> getP p id;
     if has flags IOHDLC_APP_LINK_UP \<and> has (p_ss_state q) IOHDLC_SS_ST_CONN then okE (Some ())
     else if has flags IOHDLC_APP_LINK_REFUSED \<and> IOHDLC_PEER_DISC q then do {
       modify (\<lambda>s. s\<lparr>s_mode := s_mode'\<rparr>);
       failE ECONNREFUSED }
     else okE None }"

definition link_up_timeout :: "u8 \<Rightarrow> unit api" where
  "link_up_timeout s_mode' = do {
     modify (\<lambda>s. s\<lparr>s_mode := s_mode'\<rparr>);
     failE ETIMEDOUT }"

definition link_down_start :: "u32 \<Rightarrow> nat option api" where
  "link_down_start peer_addr = do {
     r \<leftarrow> gets (ioHdlcAddr2peer peer_addr);
     (case r of
        None \<Rightarrow> failE ENOTCONN
      | Some p \<Rightarrow> do {
          conn \<leftarrow> getP p (\<lambda>q. has (p_ss_state q) IOHDLC_SS_ST_CONN);
          waits \<leftarrow> gets (\<lambda>s. IOHDLC_IS_SEC s \<and> \<not> IOHDLC_IS_ABM s);
          if \<not> conn then failE ENOTCONN
          else if waits then okE None
          else do {
            updP p (\<lambda>q. q\<lparr>p_um_cmd := IOHDLC_U_DISC\<rparr>);
            clear_terminal p;
            ioHdlcBroadcastFlags IOHDLC_EVT_LINK_REQ;
            okE (Some p) } }) }"

definition link_down_event :: "nat \<Rightarrow> u32 \<Rightarrow> unit option api" where
  "link_down_event p flags = do {
     q \<leftarrow> getP p id;
     if has flags IOHDLC_APP_LINK_DOWN \<and> \<not> has (p_ss_state q) IOHDLC_SS_ST_CONN then okE (Some ())
     else okE None }"

datatype peer_state = IOHDLC_PEER_STATE_INVALID | IOHDLC_PEER_STATE_DISCONNECTED
  | IOHDLC_PEER_STATE_CONNECTED | IOHDLC_PEER_STATE_ORDERLY_CLOSED | IOHDLC_PEER_STATE_ABORTED

definition ioHdlcPeerGetState :: "nat option \<Rightarrow> peer_state hdlc" where
  "ioHdlcPeerGetState peer =
     (case peer of
        None \<Rightarrow> ret IOHDLC_PEER_STATE_INVALID
      | Some p \<Rightarrow> do {
          ss \<leftarrow> getP p p_ss_state;
          ret (if has ss IOHDLC_SS_ST_CONN then IOHDLC_PEER_STATE_CONNECTED
               else if has ss IOHDLC_SS_TERM_ORDERLY then IOHDLC_PEER_STATE_ORDERLY_CLOSED
               else if has ss IOHDLC_SS_TERM_ABORTED then IOHDLC_PEER_STATE_ABORTED
               else IOHDLC_PEER_STATE_DISCONNECTED) })"

text \<open>The argument check of \<open>ioHdlcAppListenerRegister\<close>: one event bit, some flags.\<close>

definition app_listener_args_ok :: "u32 \<Rightarrow> u32 \<Rightarrow> bool" where
  "app_listener_args_ok event_mask wanted_flags =
     (\<not> (event_mask = 0 \<or> event_mask AND (event_mask - 1) \<noteq> 0 \<or> wanted_flags = 0))"

section \<open>UI values\<close>

definition ioHdlcPeerUiSend :: "nat option \<Rightarrow> u32 \<Rightarrow> unit api" where
  "ioHdlcPeerUiSend peer v =
     (case peer of
        None \<Rightarrow> failE EINVAL
      | Some p \<Rightarrow> do {
          disc \<leftarrow> getP p IOHDLC_PEER_DISC;
          if disc then failE ENOTCONN
          else liftE (do {
            updP p (\<lambda>q. q\<lparr>p_ui_tx_value := v, p_ui_tx_pending := True\<rparr>);
            ioHdlcBroadcastFlags IOHDLC_EVT_UI_ENQ }) })"

definition ioHdlcPeerUiGet :: "nat option \<Rightarrow> u32 option hdlc" where
  "ioHdlcPeerUiGet peer =
     (case peer of
        None \<Rightarrow> ret None
      | Some p \<Rightarrow> do {
          q \<leftarrow> getP p id;
          if \<not> p_ui_rx_pending q then ret None
          else do {
            updP p (\<lambda>q. q\<lparr>p_ui_rx_pending := False\<rparr>);
            ret (Some (p_ui_rx_value q)) } })"

section \<open>The TEST exchange\<close>

definition s_test_initiator_allowed :: "station \<Rightarrow> bool" where
  "s_test_initiator_allowed s =
     (if IOHDLC_IS_NRM s \<or> IOHDLC_IS_NDM s then IOHDLC_IS_PRI s
      else IOHDLC_IS_ABM s \<or> IOHDLC_IS_ADM s)"

definition s_test_pattern_byte :: "nat \<Rightarrow> u8" where
  "s_test_pattern_byte index =
     0xA5 XOR word_of_nat (index * 0x3D) XOR word_of_nat (index div 256)"

definition s_fill_test_pattern :: "nat \<Rightarrow> u8 list" where
  "s_fill_test_pattern len = map s_test_pattern_byte [0..<len]"

fun test_matches_from :: "nat \<Rightarrow> u8 list \<Rightarrow> bool" where
  "test_matches_from i [] = True"
| "test_matches_from i (b # bs) = (if b \<noteq> s_test_pattern_byte i then False else test_matches_from (i + 1) bs)"

definition s_test_pattern_matches :: "u8 list \<Rightarrow> bool" where
  "s_test_pattern_matches bs = test_matches_from 0 bs"

definition s_take_completed_test_frame_locked :: "nat \<Rightarrow> nat option hdlc" where
  "s_take_completed_test_frame_locked p = do {
     q \<leftarrow> getP p id;
     if p_um_cmd q \<noteq> 0 \<or> has (p_um_state q) IOHDLC_UM_SENT \<or> p_um_api_frame q = None then ret None
     else do {
       updP p (\<lambda>q. q\<lparr>p_um_api_frame := None\<rparr>);
       ret (p_um_api_frame q) } }"

text \<open>\<open>ioHdlcPeerTest\<close> up to the command frame, which is still private to the caller.\<close>

definition test_prepare :: "nat option \<Rightarrow> nat \<Rightarrow> u32 \<Rightarrow> nat api" where
  "test_prepare peer len timeout_ms =
     (case peer of
        None \<Rightarrow> failE EINVAL
      | Some p \<Rightarrow>
          if timeout_ms = 0 then failE EINVAL
          else do {
            s \<leftarrow> gets id;
            if \<not> s_test_initiator_allowed s then failE ENOTSUP
            else if unat (p_mifls (s_peers s p)) < len
              \<or> 65535 - (unat (frame_offset (s_framing s)) + 2) < len then failE EMSGSIZE
            else do {
              r \<leftarrow> hdlcTakeFrame;
              (case r of
                 None \<Rightarrow> failE ENOMEM
               | Some f \<Rightarrow> do {
                   ioHdlcBuildUFrame p f IOHDLC_U_TEST True True;
                   writeFs f (unat (frame_offset (s_framing s)) + 2) (s_fill_test_pattern len);
                   n \<leftarrow> gets (\<lambda>s. f_elen (frame_of s f));
                   set_elen f (n + word_of_nat len);
                   okE f }) } })"

definition test_busy :: "station \<Rightarrow> peer \<Rightarrow> bool" where
  "test_busy s q =
     (p_um_cmd q \<noteq> 0 \<or> p_um_state q \<noteq> 0 \<or> p_um_api_frame q \<noteq> None \<or> p_um_rsp_frame q \<noteq> None
      \<or> p_frmr_condition q
      \<or> (IOHDLC_IS_NRM s \<or> IOHDLC_IS_ABM s) \<and> \<not> has (s_pf_state s) IOHDLC_F_RCVED
      \<or> IOHDLC_IS_ABM s \<and> IOHDLC_P_ISRCVED s)"

definition test_submit :: "nat \<Rightarrow> nat \<Rightarrow> unit api" where
  "test_submit p f = do {
     busy \<leftarrow> gets (\<lambda>s. test_busy s (s_peers s p));
     if busy then do { hdlcReleaseFrame f; failE EBUSY }
     else do {
       updP p (\<lambda>q. q\<lparr>p_um_cmd := IOHDLC_U_TEST, p_um_api_frame := Some f\<rparr>);
       ioHdlcBroadcastFlags IOHDLC_EVT_LINK_REQ;
       okE () } }"

text \<open>The end of the wait without a response: collect a late one, or withdraw the command.\<close>

definition test_withdraw :: "nat \<Rightarrow> unit hdlc" where
  "test_withdraw p = do {
     a \<leftarrow> getP p p_um_api_frame;
     updP p (\<lambda>q. q\<lparr>p_um_api_frame := None, p_um_cmd := 0\<rparr>);
     um_clr p IOHDLC_UM_SENT;
     ioHdlcStopReplyTimer p IOHDLC_TIMER_REPLY;
     f \<leftarrow> gets (\<lambda>s. IOHDLC_IS_PRI s \<or> IOHDLC_IS_ABM s \<or> IOHDLC_IS_ADM s);
     whenM f (pf_set IOHDLC_F_RCVED);
     t3 \<leftarrow> gets (\<lambda>s. IOHDLC_IS_NRM s \<and> IOHDLC_IS_PRI s \<and> \<not> IOHDLC_PEER_DISC (s_peers s p));
     tmo \<leftarrow> gets s_idle_poll_timeout_ms;
     whenM t3 (ioHdlcStartReplyTimer p IOHDLC_TIMER_T3 tmo);
     (case a of None \<Rightarrow> ret () | Some f \<Rightarrow> hdlcReleaseFrame f);
     ioHdlcBroadcastFlags IOHDLC_EVT_TX_IFRM_ENQ }"

definition test_timeout :: "nat \<Rightarrow> nat api" where
  "test_timeout p = do {
     r \<leftarrow> s_take_completed_test_frame_locked p;
     (case r of
        Some f \<Rightarrow> okE f
      | None \<Rightarrow> do {
          mine \<leftarrow> getP p (\<lambda>q. p_um_cmd q = IOHDLC_U_TEST);
          whenM mine (test_withdraw p);
          failE ETIMEDOUT }) }"

text \<open>The check of the response, which is then released.\<close>

definition test_response_ok :: "framing \<Rightarrow> frame \<Rightarrow> nat \<Rightarrow> bool" where
  "test_response_ok fr fm len =
     (let hdr_len = unat (frame_offset fr) + 2; n = unat (f_elen fm) in
      if n < hdr_len then False
      else IOHDLC_FRAME_CTRL fr (f_bytes fm) 0 AND IOHDLC_U_FUN_MASK = IOHDLC_U_TEST
        \<and> n - hdr_len = len
        \<and> s_test_pattern_matches (take (n - hdr_len) (drop hdr_len (f_bytes fm))))"

definition test_finish :: "nat \<Rightarrow> nat \<Rightarrow> unit api" where
  "test_finish f len = do {
     good \<leftarrow> gets (\<lambda>s. test_response_ok (s_framing s) (frame_of s f) len);
     hdlcReleaseFrame f;
     checkE good EIO }"

section \<open>Vectors\<close>

text \<open>A vector of a write: a base pointer and a length. Its octets are \<open>iov_octets\<close>.\<close>

record const_iovec =
  iov_base :: "u8 list option"
  iov_len :: nat

definition IOHDLC_SSIZE_MAX :: nat where "IOHDLC_SSIZE_MAX = 2 ^ 63 - 1"

fun iov_total_from :: "nat \<Rightarrow> const_iovec list \<Rightarrow> errno + nat" where
  "iov_total_from t [] = Inr t"
| "iov_total_from t (v # vs) =
     (if iov_base v = None \<and> iov_len v \<noteq> 0 then Inl EINVAL
      else if IOHDLC_SSIZE_MAX - t < iov_len v then Inl EINVAL
      else iov_total_from (t + iov_len v) vs)"

text \<open>The cursor moves to the vector of the next octet.\<close>

function iov_skip :: "nat list \<Rightarrow> nat \<Rightarrow> nat \<Rightarrow> nat \<times> nat" where
  "iov_skip lens i off =
     (if i < length lens \<and> off = lens ! i then iov_skip lens (i + 1) 0 else (i, off))"
  by pat_completeness auto
termination by (relation "measure (\<lambda>(lens, i, off). length lens - i)") auto

declare iov_skip.simps [simp del]

text \<open>
  The copy loop of the writer: \<open>n\<close> octets from the vectors at the cursor \<open>(i, off)\<close>. \<open>None\<close> is a
  read past the last vector.
\<close>

function iov_gather :: "u8 list list \<Rightarrow> nat \<Rightarrow> nat \<Rightarrow> nat \<Rightarrow> (u8 list \<times> nat \<times> nat) option" where
  "iov_gather bufs i off n =
     (if n = 0 then Some ([], i, off)
      else
        (let (i', off') = iov_skip (map length bufs) i off in
         if length bufs \<le> i' then None
         else
           (let k = min (length (bufs ! i') - off') n in
            if k = 0 then None
            else (case iov_gather bufs i' (off' + k) (n - k) of
                    None \<Rightarrow> None
                  | Some (bs, c) \<Rightarrow> Some (take k (drop off' (bufs ! i')) @ bs, c)))))"
  by pat_completeness auto
termination by (relation "measure (\<lambda>(bufs, i, off, n). n)") auto

declare iov_gather.simps [simp del]

text \<open>The copy loop of the reader: the octets go to the vectors at the cursor.\<close>

function iov_scatter ::
    "u8 list \<Rightarrow> nat \<Rightarrow> nat \<Rightarrow> u8 list list \<Rightarrow> (nat \<times> nat \<times> u8 list list) option" where
  "iov_scatter bs i off bufs =
     (if bs = [] then Some (i, off, bufs)
      else
        (let (i', off') = iov_skip (map length bufs) i off in
         if length bufs \<le> i' then None
         else
           (let b = bufs ! i'; k = min (length b - off') (length bs) in
            if k = 0 then None
            else iov_scatter (drop k bs) i' (off' + k)
                   (bufs[i' := take off' b @ take k bs @ drop (off' + k) b]))))"
  by pat_completeness auto
termination by (relation "measure (\<lambda>(bs, i, off, bufs). length bs)") auto

declare iov_scatter.simps [simp del]

section \<open>Writing\<close>

definition IOHDLC_WRITER_PENDING_MARGIN_DIVISOR :: u32 where
  "IOHDLC_WRITER_PENDING_MARGIN_DIVISOR = 8"
definition IOHDLC_WRITER_PENDING_MARGIN_MIN :: u32 where "IOHDLC_WRITER_PENDING_MARGIN_MIN = 7"

definition writer_pending_limit :: "peer \<Rightarrow> u32" where
  "writer_pending_limit p =
     (let margin = p_ks p div IOHDLC_WRITER_PENDING_MARGIN_DIVISOR
      in p_ks p + (if margin < IOHDLC_WRITER_PENDING_MARGIN_MIN
                   then IOHDLC_WRITER_PENDING_MARGIN_MIN else margin))"

definition W_WAIT_COND :: "station \<Rightarrow> peer \<Rightarrow> bool" where
  "W_WAIT_COND s p = (writer_pending_limit p \<le> p_i_pending_count p
     \<or> hdlcPoolGetState (s_pool s) \<noteq> IOHDLC_POOL_NORMAL)"

definition tx_reset_pending :: "peer \<Rightarrow> bool" where
  "tx_reset_pending q = has (p_stream_terminal_pending q) IOHDLC_STREAM_TX_RESET_PENDING"

text \<open>The admission of a logical write, once its thread has the write gate.\<close>

definition write_admit :: "nat \<Rightarrow> unit api" where
  "write_admit p = do {
     q \<leftarrow> getP p id;
     if IOHDLC_PEER_DISC q then failE ENOTCONN
     else liftE (do {
       assertM (\<not> tx_reset_pending q);
       ss_set p IOHDLC_SS_SENDING }) }"

definition writer_chunk :: "framing \<Rightarrow> u8 \<Rightarrow> nat \<Rightarrow> nat \<Rightarrow> nat" where
  "writer_chunk fr fcs mifls remaining =
     (let chunk_size = (if remaining < mifls then remaining else mifls) in
      if frame_offset fr = 1 \<and> 1 < chunk_size
        \<and> (ucast (frame_offset fr) + 1 + ucast (ctrl_size fr) + word_of_nat chunk_size + ucast fcs)
             AND 0xFF = (0x7E :: u32)
      then chunk_size div 2 else chunk_size)"

datatype write_verdict = WWait | WReset | WClosed | WRetry | WFrame nat nat

text \<open>One round of the writer up to the frame: wait, stop, try again, or a frame and its share.\<close>

definition write_take :: "nat \<Rightarrow> nat \<Rightarrow> write_verdict hdlc" where
  "write_take p remaining = do {
     s \<leftarrow> gets id;
     let q = s_peers s p;
     if tx_reset_pending q then ret WReset
     else if IOHDLC_PEER_DISC q then ret WClosed
     else if W_WAIT_COND s q then ret WWait
     else do {
       r \<leftarrow> hdlcTakeFrame;
       ret (case r of
              None \<Rightarrow> WRetry
            | Some f \<Rightarrow> WFrame f (writer_chunk (s_framing s) (s_fcs_size s) (unat (p_mifls q)) remaining)) } }"

text \<open>Filling the frame, outside the critical sections.\<close>

definition write_fill :: "nat \<Rightarrow> nat \<Rightarrow> u8 list \<Rightarrow> unit hdlc" where
  "write_fill p f chunk = do {
     s \<leftarrow> gets id;
     let fr = s_framing s;
     writeF f (addr_pos fr) (ucast (if IOHDLC_IS_PRI s then p_addr (s_peers s p) else s_addr s));
     writeF f (ctrl_pos fr 0) IOHDLC_I_ID;
     writeFs f (IOHDLC_FRAME_INFO_pos fr) chunk;
     set_elen f (word_of_nat (IOHDLC_FRAME_INFO_pos fr + length chunk)) }"

text \<open>\<open>True\<close>: the frame is queued. Otherwise it is released and the write has failed.\<close>

definition write_enqueue :: "nat \<Rightarrow> nat \<Rightarrow> unit api" where
  "write_enqueue p f = do {
     q \<leftarrow> getP p id;
     if tx_reset_pending q \<or> IOHDLC_PEER_DISC q then do {
       hdlcReleaseFrame f;
       failE (if tx_reset_pending q then ECONNRESET else ENOTCONN) }
     else liftE (updP p (\<lambda>q. q\<lparr>p_trans_q := p_trans_q q @ [f],
                               p_i_pending_count := p_i_pending_count q + 1\<rparr>)) }"

definition write_done :: "nat \<Rightarrow> bool \<Rightarrow> (errno + nat) \<Rightarrow> nat api" where
  "write_done p signal_tx result' = do {
     reset \<leftarrow> getP p tx_reset_pending;
     whenM reset (updP p (\<lambda>q. q\<lparr>p_stream_terminal_pending :=
       p_stream_terminal_pending q AND NOT IOHDLC_STREAM_TX_RESET_PENDING\<rparr>));
     ss_clr p IOHDLC_SS_SENDING;
     whenM (signal_tx \<and> \<not> reset) (ioHdlcBroadcastFlags IOHDLC_EVT_TX_IFRM_ENQ);
     ret (if reset then Inl ECONNRESET else result') }"

text \<open>
  A complete write when no other thread runs before its timeout: a wait ends with
  \<open>MSG_TIMEOUT\<close>. \<open>data\<close> are the octets of the vectors not yet queued, \<open>n\<close> bounds the rounds.
\<close>

fun write_loop :: "nat \<Rightarrow> nat \<Rightarrow> nat \<Rightarrow> bool \<Rightarrow> u8 list \<Rightarrow> nat api" where
  "write_loop 0 p all signal_tx data = do { faultM; failE EIO }"
| "write_loop (Suc n) p all signal_tx data =
     (if data = [] then write_done p signal_tx (Inr all)
      else do {
        v \<leftarrow> write_take p (length data);
        (case v of
           WWait \<Rightarrow> do {
             whenM signal_tx (ioHdlcBroadcastFlags IOHDLC_EVT_TX_IFRM_ENQ);
             write_done p False (if all \<noteq> length data then Inr (all - length data) else Inl ETIMEDOUT) }
         | WReset \<Rightarrow> write_done p False (Inl ECONNRESET)
         | WClosed \<Rightarrow> write_done p signal_tx (Inr (all - length data))
         | WRetry \<Rightarrow> write_loop n p all signal_tx data
         | WFrame f k \<Rightarrow> do {
             write_fill p f (take k data);
             r \<leftarrow> write_enqueue p f;
             (case r of
                Inl e \<Rightarrow> write_done p (signal_tx \<and> e \<noteq> ECONNRESET) (Inl e)
              | Inr _ \<Rightarrow> write_loop n p all True (drop k data)) }) })"

section \<open>Reading\<close>

definition IOHDLC_SS_RECVING :: u8 where "IOHDLC_SS_RECVING = 0x04"
definition IOHDLC_STREAM_RX_TERMINAL_MASK :: u8 where
  "IOHDLC_STREAM_RX_TERMINAL_MASK = IOHDLC_SS_TERM_ORDERLY OR IOHDLC_SS_TERM_ABORTED"

definition s_peer_rx_has_data :: "peer \<Rightarrow> bool" where
  "s_peer_rx_has_data q = (p_partial_read_frame q \<noteq> None \<or> p_recept_q q \<noteq> [])"

definition rx_terminal :: "peer \<Rightarrow> u8" where
  "rx_terminal q = p_stream_terminal_pending q AND IOHDLC_STREAM_RX_TERMINAL_MASK"

definition clear_rx_terminal :: "nat \<Rightarrow> unit hdlc" where
  "clear_rx_terminal p = updP p (\<lambda>q. q\<lparr>p_stream_terminal_pending :=
     p_stream_terminal_pending q AND NOT IOHDLC_STREAM_RX_TERMINAL_MASK\<rparr>)"

datatype read_verdict = RWait | RStop "errno option" | RFrame nat

text \<open>
  The head of one round of the reader: wait, stop with the octets read so far or an error, or a
  frame to read from.
\<close>

definition read_next :: "nat \<Rightarrow> nat \<Rightarrow> read_verdict hdlc" where
  "read_next p total_read = do {
     q \<leftarrow> getP p id;
     if \<not> s_peer_rx_has_data q \<and> \<not> IOHDLC_PEER_DISC q \<and> rx_terminal q = 0 then ret RWait
     else if \<not> IOHDLC_PEER_DISC q \<and> rx_terminal q \<noteq> 0 then
       (if total_read \<noteq> 0 then ret (RStop None)
        else do {
          clear_rx_terminal p;
          ret (RStop (if has (rx_terminal q) IOHDLC_SS_TERM_ABORTED then Some ECONNRESET else None)) })
     else if \<not> s_peer_rx_has_data q then
       (if total_read \<noteq> 0 then ret (RStop None)
        else if has (p_ss_state q) IOHDLC_SS_TERM_ORDERLY then do {
          clear_rx_terminal p; ret (RStop None) }
        else if has (p_ss_state q) IOHDLC_SS_TERM_ABORTED then do {
          clear_rx_terminal p; ret (RStop (Some ECONNRESET)) }
        else ret (RStop (Some ENOTCONN)))
     else
       (case p_partial_read_frame q of
          Some f \<Rightarrow> ret (RFrame f)
        | None \<Rightarrow> do {
            updP p (\<lambda>q. q\<lparr>p_recept_q := tl (p_recept_q q), p_partial_read_offset := 0\<rparr>);
            ret (RFrame (hd (p_recept_q q))) }) }"

definition info_len_of :: "framing \<Rightarrow> frame \<Rightarrow> u64" where
  "info_len_of fr fm = ucast (f_elen fm) - (ucast (frame_offset fr) + 1 + ucast (ctrl_size fr))"

text \<open>
  The octets copied out of the frame, at most \<open>room\<close>; a copy from outside the buffer is a fault.
  The frame stays with the peer when octets are left in it.
\<close>

definition read_copy :: "nat \<Rightarrow> nat \<Rightarrow> nat \<Rightarrow> (u8 list \<times> bool) hdlc" where
  "read_copy p f room = do {
     s \<leftarrow> gets id;
     let info_len = info_len_of (s_framing s) (frame_of s f);
     let off = p_partial_read_offset (s_peers s p);
     let available = info_len - word_of_nat off;
     let n = min (unat available) room;
     let src = IOHDLC_FRAME_INFO_pos (s_framing s) + off;
     assertM (n = 0 \<or> src + n \<le> length (f_bytes (frame_of s f)));
     updP p (\<lambda>q. q\<lparr>p_partial_read_offset := off + n\<rparr>);
     let bytes = take n (drop src (f_bytes (frame_of s f)));
     if off + n < unat info_len then do {
       updP p (\<lambda>q. q\<lparr>p_partial_read_frame := Some f\<rparr>);
       ret (bytes, False) }
     else do {
       hdlcReleaseFrame f;
       updP p (\<lambda>q. q\<lparr>p_partial_read_frame := None, p_partial_read_offset := 0\<rparr>);
       wake \<leftarrow> gets (\<lambda>s. IOHDLC_IS_BUSY s \<and> hdlcPoolGetState (s_pool s) = IOHDLC_POOL_NORMAL);
       whenM wake (ioHdlcBroadcastFlags IOHDLC_EVT_POOL_ST_CHG);
       ret (bytes, True) } }"

datatype read_result = RdWait | RdStop "errno option" | RdData "u8 list" bool

text \<open>One round of the reader, under the mutex from end to end.\<close>

definition read_round :: "nat \<Rightarrow> nat \<Rightarrow> nat \<Rightarrow> read_result hdlc" where
  "read_round p total_read room = do {
     v \<leftarrow> read_next p total_read;
     (case v of
        RWait \<Rightarrow> ret RdWait
      | RStop e \<Rightarrow> ret (RdStop e)
      | RFrame f \<Rightarrow> do {
          (bs, more) \<leftarrow> read_copy p f room;
          ret (RdData bs more) }) }"

definition read_begin :: "nat \<Rightarrow> unit hdlc" where
  "read_begin p = ss_set p IOHDLC_SS_RECVING"

definition read_done :: "nat \<Rightarrow> unit hdlc" where
  "read_done p = ss_clr p IOHDLC_SS_RECVING"

text \<open>
  A complete read when no other thread runs before its timeout. The octets are returned in the
  order in which they go to the vectors.
\<close>

fun read_loop :: "nat \<Rightarrow> nat \<Rightarrow> nat \<Rightarrow> u8 list \<Rightarrow> (errno + u8 list) hdlc" where
  "read_loop 0 p all got = do { faultM; failE EIO }"
| "read_loop (Suc n) p all got =
     (if all \<le> length got then do { read_done p; okE got }
      else do {
        r \<leftarrow> read_round p (length got) (all - length got);
        (case r of
           RdWait \<Rightarrow> do { read_done p; (if got \<noteq> [] then okE got else failE ETIMEDOUT) }
         | RdStop None \<Rightarrow> do { read_done p; okE got }
         | RdStop (Some e) \<Rightarrow> do { read_done p; failE e }
         | RdData bs True \<Rightarrow> read_loop n p all (got @ bs)
         | RdData bs False \<Rightarrow> do { read_done p; okE (got @ bs) }) })"

end
