(* ===== verification/Hdlc_Vector.thy ===== *)
theory Hdlc_Vector
  imports Hdlc_Api
begin

text \<open>
  The vectors of the scatter and gather interface: the copy loops of the writer and of the reader walk
  the buffers octet by octet, and the pair of a buffer index and an offset is the cursor they keep.
\<close>

section \<open>Vectors\<close>

text \<open>The octets from the cursor to the end of the vectors.\<close>

definition iov_rest :: "u8 list list \<Rightarrow> nat \<Rightarrow> nat \<Rightarrow> u8 list" where
  "iov_rest bufs i off = (if i < length bufs then drop off (bufs ! i) @ concat (drop (Suc i) bufs) else [])"

lemma iov_rest_next: "i < length bufs \<Longrightarrow> off = length (bufs ! i) \<Longrightarrow> iov_rest bufs (Suc i) 0 = iov_rest bufs i off"
  by (cases "Suc i < length bufs") (simp_all add: iov_rest_def Cons_nth_drop_Suc [symmetric])

definition cursor_ok :: "u8 list list \<Rightarrow> nat \<Rightarrow> nat \<Rightarrow> bool" where
  "cursor_ok bufs i off \<longleftrightarrow> i < length bufs \<longrightarrow> off \<le> length (bufs ! i)"

lemma iov_skip_spec:
  assumes "iov_skip (map length bufs) i off = (i', off')" "cursor_ok bufs i off"
  shows "iov_rest bufs i' off' = iov_rest bufs i off" "i' < length bufs \<longrightarrow> off' < length (bufs ! i')" "i \<le> i'"
proof -
  have "iov_rest bufs i' off' = iov_rest bufs i off \<and> (i' < length bufs \<longrightarrow> off' < length (bufs ! i')) \<and> i \<le> i'"
    if "iov_skip lens i off = (i', off')" "cursor_ok bufs i off" "lens = map length bufs" for lens
    using that
  proof (induction lens i off rule: iov_skip.induct)
    case (1 lens i off)
    show ?case
    proof (cases "i < length lens \<and> off = lens ! i")
      case True
      have "iov_skip lens (i + 1) 0 = (i', off')" using 1(2) True by (subst (asm) iov_skip.simps) simp
      moreover have "cursor_ok bufs (i + 1) 0" by (simp add: cursor_ok_def)
      ultimately show ?thesis using 1(1) [OF True] 1(4) True iov_rest_next [of i bufs off] by auto
    next
      case False
      then have "i' = i" "off' = off" using 1(2) by (subst (asm) iov_skip.simps; simp)+
      then show ?thesis using False 1(3,4) by (auto simp: cursor_ok_def)
    qed
  qed
  with assms show "iov_rest bufs i' off' = iov_rest bufs i off" "i' < length bufs \<longrightarrow> off' < length (bufs ! i')" "i \<le> i'"
    by blast+
qed

text \<open>The copy loop of the writer gathers exactly the next octets of the vectors, whatever their
  lengths, empty vectors included, and leaves the cursor on the octet after them; it goes past
  the last vector only when fewer octets are left than asked for.\<close>
theorem iov_gather_spec:
  assumes "cursor_ok bufs i off"
  shows "case iov_gather bufs i off n of
      None \<Rightarrow> length (iov_rest bufs i off) < n
    | Some (bs, i', off') \<Rightarrow> bs = take n (iov_rest bufs i off) \<and> length bs = n \<and> cursor_ok bufs i' off'
        \<and> iov_rest bufs i' off' = drop n (iov_rest bufs i off)"
  using assms
proof (induction bufs i off n rule: iov_gather.induct)
  case (1 bufs i off n)
  show ?case
  proof (cases "n = 0")
    case True
    then show ?thesis using 1(2) by (simp add: iov_gather.simps)
  next
    case False
    obtain i' off' where sk: "iov_skip (map length bufs) i off = (i', off')" by fastforce
    note s = iov_skip_spec [OF sk 1(2)]
    show ?thesis
    proof (cases "i' < length bufs")
      case False
      then have "iov_gather bufs i off n = None" using \<open>n \<noteq> 0\<close> by (subst iov_gather.simps) (simp add: sk)
      then show ?thesis using False s(1) \<open>n \<noteq> 0\<close> by (simp add: iov_rest_def)
    next
      case True
      define k where "k = min (length (bufs ! i') - off') n"
      have k: "k \<noteq> 0" "k \<le> n" "off' + k \<le> length (bufs ! i')" using s(2) True \<open>n \<noteq> 0\<close> by (auto simp: k_def)
      have g: "iov_gather bufs i off n = (case iov_gather bufs i' (off' + k) (n - k) of None \<Rightarrow> None
          | Some (bs, c) \<Rightarrow> Some (take k (drop off' (bufs ! i')) @ bs, c))"
        using \<open>n \<noteq> 0\<close> True k(1) by (subst iov_gather.simps) (simp add: sk Let_def split: option.split flip: k_def)
      have c: "cursor_ok bufs i' (off' + k)" using k(3) by (simp add: cursor_ok_def)
      have r: "iov_rest bufs i' off' = take k (drop off' (bufs ! i')) @ iov_rest bufs i' (off' + k)"
        using True append_take_drop_id [of k "drop off' (bufs ! i')"] by (simp add: iov_rest_def add.commute)
      have l: "length (take k (drop off' (bufs ! i'))) = k" using k(3) by simp
      note ih = 1(1) [OF \<open>n \<noteq> 0\<close> sk [symmetric] refl _ k_def _ c]
      have ih: "case iov_gather bufs i' (off' + k) (n - k) of
          None \<Rightarrow> length (iov_rest bufs i' (off' + k)) < n - k
        | Some (bs, j, o') \<Rightarrow> bs = take (n - k) (iov_rest bufs i' (off' + k)) \<and> length bs = n - k \<and> cursor_ok bufs j o'
            \<and> iov_rest bufs j o' = drop (n - k) (iov_rest bufs i' (off' + k))"
        using ih True k(1) by simp
      show ?thesis
      proof (cases "iov_gather bufs i' (off' + k) (n - k)")
        case None
        have "length (iov_rest bufs i off) = k + length (iov_rest bufs i' (off' + k))" unfolding s(1) [symmetric] r by (simp only: length_append l)
        then show ?thesis using None ih g by simp
      next
        case (Some x)
        obtain bs j o' where x: "x = (bs, j, o')" by (cases x)
        have bs: "bs = take (n - k) (iov_rest bufs i' (off' + k))" "length bs = n - k" "cursor_ok bufs j o'"
          "iov_rest bufs j o' = drop (n - k) (iov_rest bufs i' (off' + k))" using Some ih x by auto
        have a: "take k (drop off' (bufs ! i')) @ bs = take n (iov_rest bufs i off)"
          "drop n (iov_rest bufs i off) = drop (n - k) (iov_rest bufs i' (off' + k))"
          unfolding s(1) [symmetric] r bs(1) using l k(2) by simp_all
        have "length (take k (drop off' (bufs ! i')) @ bs) = n" using l bs(2) k(2) by (simp only: length_append)
        then show ?thesis using Some g x bs(3,4) a by simp
      qed
    qed
  qed
qed

theorem iov_gather_spec_witness:
  "iov_gather [[1], [], [2, 3, 4]] 0 0 3 = Some ([1, 2, 3], 2, 2) \<and> iov_rest [[1], [], [2, 3, 4]] 2 2 = [4]"
proof -
  have c: "cursor_ok [[1], [], [2, 3, 4]] 0 0" by (simp add: cursor_ok_def)
  have g: "iov_gather [[1], [], [2, 3, 4]] 0 0 3 = Some ([1, 2, 3], 2, 2)" by code_simp
  from iov_gather_spec [OF c, of 3] show ?thesis by (simp add: g) (simp add: iov_rest_def)
qed

text \<open>The copy loop of the reader: the vectors as one sequence of octets, and the position of the
  cursor in it.\<close>

definition iov_pos :: "u8 list list \<Rightarrow> nat \<Rightarrow> nat \<Rightarrow> nat" where
  "iov_pos bufs i off = length (concat (take i bufs)) + (if i < length bufs then off else 0)"

lemma iov_pos_rest:
  assumes "cursor_ok bufs i off" "i \<le> length bufs"
  shows "iov_pos bufs i off + length (iov_rest bufs i off) = length (concat bufs)"
proof -
  have "concat bufs = concat (take i bufs) @ concat (drop i bufs)"
    using append_take_drop_id [of i bufs] concat_append [of "take i bufs" "drop i bufs"] by simp
  then have "length (concat bufs) = length (concat (take i bufs)) + length (concat (drop i bufs))" by simp
  with assms show ?thesis
    by (cases "i < length bufs") (simp_all add: iov_pos_def iov_rest_def cursor_ok_def Cons_nth_drop_Suc [symmetric])
qed

lemma concat_update:
  assumes "i < length bufs" "off + k \<le> length (bufs ! i)" "length xs = k"
  shows "concat (bufs[i := take off (bufs ! i) @ xs @ drop (off + k) (bufs ! i)])
    = take (length (concat (take i bufs)) + off) (concat bufs) @ xs
      @ drop (length (concat (take i bufs)) + off + k) (concat bufs)"
proof -
  have c: "concat bufs = concat (take i bufs) @ bufs ! i @ concat (drop (Suc i) bufs)"
    using id_take_nth_drop [OF assms(1)] by (metis concat.simps(2) concat_append)
  have u: "bufs[i := y] = take i bufs @ y # drop (Suc i) bufs" for y
    using assms(1) by (rule upd_conv_take_nth_drop)
  show ?thesis using assms(2,3) unfolding u c by simp
qed

text \<open>The copy loop of the reader stores the octets, in order and without gaps, into the vectors
  from the cursor on, and changes nothing else: neither an octet before or after nor the length
  of a vector. It goes past the last vector only when the octets do not fit.\<close>
theorem iov_scatter_spec:
  assumes "cursor_ok bufs i off" "i \<le> length bufs"
  shows "case iov_scatter bs i off bufs of
      None \<Rightarrow> length (iov_rest bufs i off) < length bs
    | Some (i', off', bufs') \<Rightarrow> map length bufs' = map length bufs \<and> cursor_ok bufs' i' off' \<and> i' \<le> length bufs'
        \<and> iov_pos bufs' i' off' = iov_pos bufs i off + length bs
        \<and> concat bufs' = take (iov_pos bufs i off) (concat bufs) @ bs @ drop (iov_pos bufs i off + length bs) (concat bufs)"
  using assms
proof (induction bs arbitrary: i off bufs rule: length_induct)
  case (1 bs)
  show ?case
  proof (cases "bs = []")
    case True
    then show ?thesis using 1(2,3) by (simp add: iov_scatter.simps)
  next
    case False
    obtain i' off' where sk: "iov_skip (map length bufs) i off = (i', off')" by fastforce
    note s = iov_skip_spec [OF sk 1(2)]
    show ?thesis
    proof (cases "i' < length bufs")
      case i': False
      then have "iov_scatter bs i off bufs = None" using False by (subst iov_scatter.simps) (simp add: sk)
      then show ?thesis using i' s(1) False by (simp add: iov_rest_def)
    next
      case True
      let ?b = "bufs ! i'"
      define k where "k = min (length ?b - off') (length bs)"
      define bufs1 where "bufs1 = bufs[i' := take off' ?b @ take k bs @ drop (off' + k) ?b]"
      have k: "k \<noteq> 0" "k \<le> length bs" "off' + k \<le> length ?b" using s(2) True False by (auto simp: k_def)
      have g: "iov_scatter bs i off bufs = iov_scatter (drop k bs) i' (off' + k) bufs1"
        using False True k(1) by (subst iov_scatter.simps) (simp add: sk Let_def bufs1_def flip: k_def)
      have ml: "map length bufs1 = map length bufs"
        using k True by (auto simp: bufs1_def map_update intro!: list_update_same_conv [THEN iffD2])
      then have len: "length bufs1 = length bufs" "length (bufs1 ! i') = length ?b"
        using True by (metis length_map, metis length_map nth_map)
      have c1: "cursor_ok bufs1 i' (off' + k)" using k(3) len by (simp add: cursor_ok_def)
      have c: "cursor_ok bufs i' off'" using s(2) by (auto simp: cursor_ok_def)
      have p0: "iov_pos bufs i off = length (concat (take i' bufs)) + off'"
        using iov_pos_rest [OF 1(2,3)] iov_pos_rest [OF c] True s(1) by (simp add: iov_pos_def)
      have "take i' bufs1 = take i' bufs" by (simp add: bufs1_def)
      then have p1: "iov_pos bufs1 i' (off' + k) = iov_pos bufs i off + k" using True len p0 by (simp add: iov_pos_def)
      have cu: "concat bufs1 = take (iov_pos bufs i off) (concat bufs) @ take k bs @ drop (iov_pos bufs i off + k) (concat bufs)"
        unfolding bufs1_def p0 using concat_update [OF True k(3), of "take k bs"] k(2) by (simp add: add.assoc)
      have le: "iov_pos bufs i off + k \<le> length (concat bufs)"
        using iov_pos_rest [OF c1] True len p1 arg_cong [OF ml, of sum_list]
        by (simp add: length_concat)
      have ih: "case iov_scatter (drop k bs) i' (off' + k) bufs1 of
          None \<Rightarrow> length (iov_rest bufs1 i' (off' + k)) < length (drop k bs)
        | Some (j, o', bufs') \<Rightarrow> map length bufs' = map length bufs1 \<and> cursor_ok bufs' j o' \<and> j \<le> length bufs'
            \<and> iov_pos bufs' j o' = iov_pos bufs1 i' (off' + k) + length (drop k bs)
            \<and> concat bufs' = take (iov_pos bufs1 i' (off' + k)) (concat bufs1) @ drop k bs
              @ drop (iov_pos bufs1 i' (off' + k) + length (drop k bs)) (concat bufs1)"
        using 1(1) [rule_format, of "drop k bs" bufs1 i' "off' + k"] c1 True len k(1,2) False by simp
      show ?thesis
      proof (cases "iov_scatter (drop k bs) i' (off' + k) bufs1")
        case None
        have "length (iov_rest bufs i off) = length (iov_rest bufs1 i' (off' + k)) + k"
          using iov_pos_rest [OF 1(2,3)] iov_pos_rest [OF c1] True len p1 arg_cong [OF ml, of sum_list]
          by (simp add: length_concat)
        then show ?thesis using None ih g by simp
      next
        case (Some x)
        obtain j o' bufs' where x: "x = (j, o', bufs')" by (cases x)
        have d: "drop (iov_pos bufs i off + length bs) (concat bufs1) = drop (iov_pos bufs i off + length bs) (concat bufs)"
          and t: "take (iov_pos bufs i off + k) (concat bufs1) = take (iov_pos bufs i off) (concat bufs) @ take k bs"
          using k(2) le unfolding cu by (simp_all add: add.commute)
        from Some ih x show ?thesis using k(2) unfolding g p1
          by (simp add: ml d t)
      qed
    qed
  qed
qed

theorem iov_scatter_spec_witness:
  "iov_scatter [1, 2, 3] 0 1 [[9, 9], [], [8, 8, 8]] = Some (2, 2, [[9, 1], [], [2, 3, 8]])
   \<and> concat [[9, 1], [], [2, 3, 8]] = take 1 (concat [[9, 9], [], [8, 8, 8]]) @ [1, 2, 3 :: u8] @ [8]"
proof -
  have c: "cursor_ok [[9, 9], [], [8, 8, 8]] 0 1" "0 \<le> length [[9, 9], [], [8, 8, 8 :: u8]]" by (simp_all add: cursor_ok_def)
  have g: "iov_scatter [1, 2, 3] 0 1 [[9, 9], [], [8, 8, 8]] = Some (2, 2, [[9, 1], [], [2, 3, 8]])" by code_simp
  from iov_scatter_spec [OF c, of "[1, 2, 3]"] show ?thesis unfolding g by (simp add: iov_pos_def)
qed

end
