(* ===== verification/Hdlc_Inv.thy ===== *)
theory Hdlc_Inv
  imports Hdlc_Tx "HOL-Library.Multiset"
begin

text \<open>
  The station invariant. It has three parts: every frame is on the free list or referenced by
  exactly its owners (a queue or pointer of one peer, the hand of the running handler, the
  driver); the transmit gate of a frame is closed exactly while the driver holds it; and the
  send window of every peer is consistent with the sequence numbers written into the frames of
  its two transmit queues. The lemmas say what the primitives of the core do to it.
\<close>

section \<open>Owners of frames\<close>

definition opt :: "'a option \<Rightarrow> 'a list" where
  "opt x = (case x of None \<Rightarrow> [] | Some y \<Rightarrow> [y])"

lemma opt_simps [simp]: "opt None = []" "opt (Some x) = [x]"
  by (simp_all add: opt_def)

definition peer_frames :: "peer \<Rightarrow> nat list" where
  "peer_frames q = p_retrans_q q @ p_trans_q q @ p_recept_q q @ opt (p_um_api_frame q)
     @ opt (p_um_rsp_frame q) @ opt (p_partial_read_frame q)"

definition pframes :: "nat list \<Rightarrow> (nat \<Rightarrow> peer) \<Rightarrow> nat list" where
  "pframes pl ps = concat (map (\<lambda>p. peer_frames (ps p)) pl)"

definition owners_ok :: "nat set \<Rightarrow> nat list \<Rightarrow> nat list \<Rightarrow> pool \<Rightarrow> nat list \<Rightarrow> (nat \<Rightarrow> peer) \<Rightarrow> bool" where
  "owners_ok G pl H P pipe ps \<longleftrightarrow>
     pool_ok P \<and> distinct (H @ pframes pl ps) \<and> distinct pipe
     \<and> (\<forall>f. pool_refs P f = (if f \<in> set (H @ pframes pl ps) then 1 else 0) + (if f \<in> set pipe then 1 else 0))
     \<and> (\<forall>f < unat (fp_total P). f_gate_free (fp_heap P f) \<longleftrightarrow> f \<notin> set pipe \<and> f \<notin> G)"

section \<open>The send window\<close>

definition modulus :: "framing \<Rightarrow> nat" where
  "modulus fr = 2 ^ nw fr"

definition numbered :: "framing \<Rightarrow> frame \<Rightarrow> nat \<Rightarrow> bool" where
  "numbered fr fm k \<longleftrightarrow> f_tx_ctrl_len fm = ctrl_size fr
     \<and> IOHDLC_IS_I_FRM (IOHDLC_FRAME_CTRL fr (f_bytes fm) 0)
     \<and> unat (extractNS fr (f_bytes fm)) = k mod modulus fr"

fun seqd :: "framing \<Rightarrow> (nat \<Rightarrow> frame) \<Rightarrow> nat \<Rightarrow> nat list \<Rightarrow> bool" where
  "seqd fr hp n [] = True"
| "seqd fr hp n (f # fs) = (numbered fr (hp f) n \<and> seqd fr hp (Suc n) fs)"

definition win_ok :: "framing \<Rightarrow> (nat \<Rightarrow> frame) \<Rightarrow> peer \<Rightarrow> bool" where
  "win_ok fr hp q \<longleftrightarrow>
     (\<exists>us ws. p_trans_q q = us @ ws
        \<and> seqd fr hp (unat (p_nr q)) (p_retrans_q q @ us)
        \<and> (\<forall>f \<in> set ws. f_tx_ctrl_len (hp f) \<noteq> ctrl_size fr)
        \<and> unat (p_vs q) = (unat (p_nr q) + length (p_retrans_q q)) mod modulus fr
        \<and> unat (p_vs_highest q) = (unat (p_nr q) + length (p_retrans_q q) + length us) mod modulus fr
        \<and> length (p_retrans_q q) + length us \<le> unat (p_ks q)
        \<and> unat (p_ks q) < modulus fr \<and> unat (p_nr q) < modulus fr \<and> unat (p_vr q) < modulus fr
        \<and> p_i_pending_count q = word_of_nat (length (p_trans_q q) + length (p_retrans_q q)))"

text \<open>Frames the driver may not hold: those in hand and those kept for unnumbered exchanges.\<close>

definition um_frames :: "peer \<Rightarrow> nat list" where
  "um_frames q = opt (p_um_api_frame q) @ opt (p_um_rsp_frame q)"

definition quiet :: "nat set \<Rightarrow> nat list \<Rightarrow> nat list \<Rightarrow> nat list \<Rightarrow> (nat \<Rightarrow> peer) \<Rightarrow> bool" where
  "quiet L pl H pipe ps \<longleftrightarrow> (\<forall>f \<in> set H. f \<in> set pipe \<longrightarrow> f \<in> L)
     \<and> (\<forall>p \<in> set pl. \<forall>f \<in> set (um_frames (ps p)). f \<notin> set pipe)"

text \<open>
  A peer in the set \<open>X\<close> has just been reset: its sequence variables are 0, and its queues are
  about to be emptied. Of \<open>G\<close>, the first set has
  the frames whose gates the transmit thread holds, the second those in hand that the driver may
  hold already.
\<close>

definition win_zero :: "framing \<Rightarrow> peer \<Rightarrow> bool" where
  "win_zero fr q \<longleftrightarrow> p_nr q = 0 \<and> p_vs q = 0 \<and> p_vr q = 0 \<and> p_vs_highest q = 0
     \<and> unat (p_ks q) < modulus fr"

definition sinv :: "nat set \<times> nat set \<Rightarrow> framing \<Rightarrow> nat list \<Rightarrow> nat list \<Rightarrow> nat set \<Rightarrow> station \<Rightarrow> bool" where
  "sinv G fr pl H X s \<longleftrightarrow>
     s_framing s = fr \<and> s_peer_list s = pl \<and> framing_ok fr \<and> distinct pl
     \<and> unat (frame_offset fr) + 7 \<le> fp_framesize (s_pool s) \<and> \<not> s_fault s
     \<and> owners_ok (fst G) pl H (s_pool s) (s_tx_pipe s) (s_peers s)
     \<and> quiet (snd G) pl H (s_tx_pipe s) (s_peers s)
     \<and> (\<forall>p \<in> set pl. if p \<in> X then win_zero fr (s_peers s p)
          else win_ok fr (fp_heap (s_pool s)) (s_peers s p))
     \<and> (\<forall>c. s_c_peer s = Some c \<longrightarrow> c \<in> set pl) \<and> (pl \<noteq> [] \<longrightarrow> s_c_peer s \<noteq> None)"

lemma invD:
  assumes "sinv G fr pl H X s"
  shows "s_framing s = fr" "s_peer_list s = pl" "framing_ok fr" "distinct pl"
    "owners_ok (fst G) pl H (s_pool s) (s_tx_pipe s) (s_peers s)" "\<not> s_fault s"
    "p \<in> set pl \<Longrightarrow> if p \<in> X then win_zero fr (s_peers s p)
       else win_ok fr (fp_heap (s_pool s)) (s_peers s p)"
    "s_c_peer s = Some c \<Longrightarrow> c \<in> set pl"
    "unat (frame_offset fr) + 7 \<le> fp_framesize (s_pool s)" "pl \<noteq> [] \<Longrightarrow> s_c_peer s \<noteq> None"
    "quiet (snd G) pl H (s_tx_pipe s) (s_peers s)"
  using assms by (auto simp: sinv_def)

section \<open>Updates that do not matter\<close>

definition pcore :: "peer \<Rightarrow> (nat list \<times> nat list \<times> nat list) \<times> (nat option \<times> nat option \<times> nat option)
    \<times> (u32 \<times> u32 \<times> u32 \<times> u32 \<times> u32 \<times> u32)" where
  "pcore q = ((p_retrans_q q, p_trans_q q, p_recept_q q),
     (p_um_api_frame q, p_um_rsp_frame q, p_partial_read_frame q),
     (p_ks q, p_vs q, p_vr q, p_nr q, p_vs_highest q, p_i_pending_count q))"

lemma pcore_eq:
  assumes "pcore q' = pcore q"
  shows "peer_frames q' = peer_frames q" "win_ok fr hp q' = win_ok fr hp q"
    "win_zero fr q' = win_zero fr q" "um_frames q' = um_frames q"
  using assms by (simp_all add: pcore_def peer_frames_def win_ok_def win_zero_def um_frames_def)

lemma pframes_cong: "(\<And>p. p \<in> set pl \<Longrightarrow> peer_frames (ps' p) = peer_frames (ps p)) \<Longrightarrow> pframes pl ps' = pframes pl ps"
  by (simp add: pframes_def cong: map_cong)

lemma inv_station_irr [simp]:
  "sinv G fr pl H X (s\<lparr>s_mode := a1\<rparr>) = sinv G fr pl H X s"
  "sinv G fr pl H X (s\<lparr>s_flags := a2\<rparr>) = sinv G fr pl H X s"
  "sinv G fr pl H X (s\<lparr>s_pf_state := a3\<rparr>) = sinv G fr pl H X s"
  "sinv G fr pl H X (s\<lparr>s_rx_fn := a4\<rparr>) = sinv G fr pl H X s"
  "sinv G fr pl H X (s\<lparr>s_connected_count := a5\<rparr>) = sinv G fr pl H X s"
  "sinv G fr pl H X (s\<lparr>s_cm_flags := a6\<rparr>) = sinv G fr pl H X s"
  "sinv G fr pl H X (s\<lparr>s_app_log := a7\<rparr>) = sinv G fr pl H X s"
  "sinv G fr pl H X (s\<lparr>s_tx_script := a8\<rparr>) = sinv G fr pl H X s"
  "sinv G fr pl H X (s\<lparr>s_sent := a9\<rparr>) = sinv G fr pl H X s"
  "sinv G fr pl H X (s\<lparr>s_pool_calls := a10\<rparr>) = sinv G fr pl H X s"
  by (simp_all add: sinv_def)

lemma upd_peer_proj [simp]:
  "s_framing (upd_peer p g s) = s_framing s" "s_peer_list (upd_peer p g s) = s_peer_list s"
  "s_pool (upd_peer p g s) = s_pool s" "s_tx_pipe (upd_peer p g s) = s_tx_pipe s"
  "s_fault (upd_peer p g s) = s_fault s" "s_c_peer (upd_peer p g s) = s_c_peer s"
  "s_peers (upd_peer p g s) = (s_peers s)(p := g (s_peers s p))"
  "s_mode (upd_peer p g s) = s_mode s" "s_flags (upd_peer p g s) = s_flags s"
  "s_pf_state (upd_peer p g s) = s_pf_state s" "s_addr (upd_peer p g s) = s_addr s"
  "s_cm_flags (upd_peer p g s) = s_cm_flags s" "frame_of (upd_peer p g s) f = frame_of s f"
  "s_flags_critical (upd_peer p g s) = s_flags_critical s" "s_sent (upd_peer p g s) = s_sent s"
  "s_connected_count (upd_peer p g s) = s_connected_count s" "s_app_log (upd_peer p g s) = s_app_log s"
  "s_reply_timeout_ms (upd_peer p g s) = s_reply_timeout_ms s"
  "s_idle_poll_timeout_ms (upd_peer p g s) = s_idle_poll_timeout_ms s"
  "s_tx_script (upd_peer p g s) = s_tx_script s" "s_rx_fn (upd_peer p g s) = s_rx_fn s"
  "s_stop_requested (upd_peer p g s) = s_stop_requested s"
  by (simp_all add: upd_peer_def frame_of_def)

lemma inv_updP_irr:
  assumes "\<And>q. pcore (g q) = pcore q"
  shows "sinv G fr pl H X (upd_peer p g s) = sinv G fr pl H X s"
proof -
  have c: "pcore ((s_peers (upd_peer p g s)) r) = pcore (s_peers s r)" for r using assms by simp
  have "pframes pl (s_peers (upd_peer p g s)) = pframes pl (s_peers s)"
    using pcore_eq(1) [OF c] by (intro pframes_cong)
  moreover have "win_ok fr hp (s_peers (upd_peer p g s) r) = win_ok fr hp (s_peers s r)" for hp r
    using pcore_eq(2) [OF c] .
  moreover have "win_zero fr (s_peers (upd_peer p g s) r) = win_zero fr (s_peers s r)" for r
    using pcore_eq(3) [OF c] .
  moreover have "um_frames (s_peers (upd_peer p g s) r) = um_frames (s_peers s r)" for r
    using pcore_eq(4) [OF c] .
  ultimately show ?thesis by (simp add: sinv_def owners_ok_def quiet_def del: upd_peer_proj(7))
qed

section \<open>Preservation by composed commands\<close>

definition keeps :: "(station \<Rightarrow> bool) \<Rightarrow> 'a hdlc \<Rightarrow> bool" where
  "keeps I m \<longleftrightarrow> (\<forall>s. I s \<longrightarrow> I (exec m s))"

named_theorems keeps \<open>preservation of an invariant, one rule per command\<close>

lemma keepsD: "keeps I m \<Longrightarrow> I s \<Longrightarrow> I (exec m s)"
  by (simp add: keeps_def)

lemma keeps_wp: "keeps I m \<Longrightarrow> I s \<Longrightarrow> (\<And>x t. I t \<Longrightarrow> Q x t) \<Longrightarrow> wp m Q s"
  by (simp add: keeps_def wp_def)

lemma keeps_of_wp: "(\<And>s. I s \<Longrightarrow> wp m (\<lambda>_. I) s) \<Longrightarrow> keeps I m"
  by (simp add: keeps_def wp_def)

lemma keeps_bind [keeps]: "keeps I m \<Longrightarrow> (\<And>x. keeps I (f x)) \<Longrightarrow> keeps I (m \<bind> f)"
  by (simp add: keeps_def)

lemma keeps_gets [keeps]: "keeps I (gets f)"
  by (simp add: keeps_def)

lemma keeps_getP [keeps]: "keeps I (getP p f)"
  by (simp add: getP_def keeps_gets)

lemma keeps_ret [keeps]: "keeps I (ret x)"
  by (simp add: keeps_def)

lemma keeps_when [keeps]: "(b \<Longrightarrow> keeps I m) \<Longrightarrow> keeps I (whenM b m)"
  by (simp add: keeps_def whenM_def)

lemma keeps_if [keeps]: "(b \<Longrightarrow> keeps I m) \<Longrightarrow> (\<not> b \<Longrightarrow> keeps I m') \<Longrightarrow> keeps I (if b then m else m')"
  by simp

lemma keeps_option [keeps]:
  "keeps I m \<Longrightarrow> (\<And>x. keeps I (f x)) \<Longrightarrow> keeps I (case y of None \<Rightarrow> m | Some x \<Rightarrow> f x)"
  by (simp split: option.split)

lemma keeps_prod [keeps]: "(\<And>a b. keeps I (f a b)) \<Longrightarrow> keeps I (case y of (a, b) \<Rightarrow> f a b)"
  by (simp split: prod.split)

lemma keeps_let [keeps]: "keeps I (f a) \<Longrightarrow> keeps I (let x = a in f x)"
  by simp

lemma keeps_modify: "(\<And>s. I s \<Longrightarrow> I (g s)) \<Longrightarrow> keeps I (modify g)"
  by (simp add: keeps_def)

lemma keeps_updP_irr:
  assumes "\<And>q. pcore (g q) = pcore q"
  shows "keeps (sinv G fr pl H X) (updP p g)"
  unfolding updP_def using assms by (intro keeps_modify) (simp add: inv_updP_irr)

lemma upd_timer_core [simp]: "pcore (upd_timer k g q) = pcore q"
  by (cases k) (simp_all add: pcore_def)

lemma keeps_small [keeps]:
  "keeps (sinv G fr pl H X) (pf_set m)" "keeps (sinv G fr pl H X) IOHDLC_ACK_P"
  "keeps (sinv G fr pl H X) IOHDLC_ACK_F" "keeps (sinv G fr pl H X) (flags_set m)"
  "keeps (sinv G fr pl H X) (flags_clr m)" "keeps (sinv G fr pl H X) (ss_set p m)"
  "keeps (sinv G fr pl H X) (ss_clr p m)" "keeps (sinv G fr pl H X) (um_set p m)"
  "keeps (sinv G fr pl H X) (um_clr p m)" "keeps (sinv G fr pl H X) (ioHdlcBroadcastFlags e)"
  "keeps (sinv G fr pl H X) (ioHdlcBroadcastFlagsApp e)" "keeps (sinv G fr pl H X) (condvar_tx p)"
  "keeps (sinv G fr pl H X) (condvar_rx p)" "keeps (sinv G fr pl H X) (ioHdlcStartReplyTimer p k t)"
  "keeps (sinv G fr pl H X) (ioHdlcStopReplyTimer p k)" "keeps (sinv G fr pl H X) (resetPeerUm p)"
  unfolding pf_set_def IOHDLC_ACK_P_def IOHDLC_ACK_F_def flags_set_def flags_clr_def ss_set_def
    ss_clr_def um_set_def um_clr_def ioHdlcBroadcastFlags_def ioHdlcBroadcastFlagsApp_def
    condvar_tx_def condvar_rx_def ioHdlcStartReplyTimer_def ioHdlcStopReplyTimer_def resetPeerUm_def
  by (intro keeps_modify keeps_updP_irr; (rule upd_timer_core | simp add: pcore_def))+

lemma keeps_evt [keeps]: "keeps (sinv G fr pl H X) iohdlc_evt_get_and_clear_flags"
  unfolding iohdlc_evt_get_and_clear_flags_def by (intro keeps keeps_modify) simp

lemma keeps_restart [keeps]: "keeps (sinv G fr pl H X) (ioHdlcRestartReplyTimer p k t)"
  unfolding ioHdlcRestartReplyTimer_def by (intro keeps keeps_updP_irr) simp

lemma keeps_expired [keeps]: "keeps (sinv G fr pl H X) (ioHdlcIsReplyTimerExpired p k)"
  unfolding ioHdlcIsReplyTimerExpired_def by (intro keeps)

lemma keeps_startPoll [keeps]: "keeps (sinv G fr pl H X) (startPollReplyTimer p)"
  unfolding startPollReplyTimer_def by (intro keeps)

lemma keeps_need_p [keeps]: "keeps (sinv G fr pl H X) (IOHDLC_SET_NEED_P p)"
  "keeps (sinv G fr pl H X) (IOHDLC_CLR_NEED_P p)"
  unfolding IOHDLC_SET_NEED_P_def IOHDLC_CLR_NEED_P_def by (intro keeps)+

lemma keeps_apply_mode [keeps]: "keeps (sinv G fr pl H X) (applyModeState m)"
  unfolding applyModeState_def by (intro keeps keeps_modify) simp_all

lemma keeps_leave_mode [keeps]: "keeps (sinv G fr pl H X) leave_mode_if_last"
  unfolding leave_mode_if_last_def by (intro keeps keeps_modify) simp_all

lemma keeps_set_disc [keeps]: "keeps (sinv G fr pl H X) (ioHdlcSetDisconnected p b)"
  unfolding ioHdlcSetDisconnected_def
  by (intro keeps keeps_modify keeps_updP_irr) (simp_all add: pcore_def)

lemma keeps_set_conn [keeps]: "keeps (sinv G fr pl H X) (ioHdlcSetConnected p)"
  unfolding ioHdlcSetConnected_def by (intro keeps keeps_modify) simp_all

lemma keeps_frmr [keeps]: "keeps (sinv G fr pl H X) (setFrmrCondition p a b c d e)"
  unfolding setFrmrCondition_def by (intro keeps keeps_updP_irr) (simp_all add: pcore_def)

section \<open>Ownership transfers\<close>

lemma owners_mset:
  assumes "mset (H @ pframes pl ps) = mset (H' @ pframes pl ps')"
  shows "owners_ok G pl H P pipe ps = owners_ok G pl H' P pipe ps'"
proof -
  have "set (H @ pframes pl ps) = set (H' @ pframes pl ps')" using assms by (rule mset_eq_setD)
  moreover have "distinct (H @ pframes pl ps) = distinct (H' @ pframes pl ps')"
    using assms by (rule mset_eq_imp_distinct_iff)
  ultimately show ?thesis by (simp only: owners_ok_def)
qed

lemma pframes_Cons: "pframes (a # pl) ps = peer_frames (ps a) @ pframes pl ps"
  by (simp add: pframes_def)

lemma pframes_upd:
  assumes "p \<in> set pl" "distinct pl"
  shows "mset (pframes pl (ps(p := q'))) + mset (peer_frames (ps p))
    = mset (pframes pl ps) + mset (peer_frames q')"
  using assms
proof (induction pl)
  case (Cons a pl)
  show ?case
  proof (cases "a = p")
    case True
    then have "pframes pl (ps(p := q')) = pframes pl ps"
      using Cons.prems by (intro pframes_cong) auto
    with True show ?thesis by (simp add: pframes_Cons fun_upd_same del: fun_upd_apply)
  next
    case False
    have "p \<in> set pl" "distinct pl" using Cons.prems False by auto
    then have "mset (pframes pl (ps(p := q'))) + mset (peer_frames (ps p))
        = mset (pframes pl ps) + mset (peer_frames q')" by (rule Cons.IH)
    then show ?thesis
      by (simp only: pframes_Cons mset_append fun_upd_other [OF False] add.assoc)
  qed
qed simp

lemma owners_move:
  assumes "p \<in> set pl" "distinct pl"
    and "mset H + mset (peer_frames (ps p)) = mset H' + mset (peer_frames q')"
  shows "owners_ok G pl H P pipe ps = owners_ok G pl H' P pipe (ps(p := q'))"
proof (rule owners_mset)
  have "mset (H @ pframes pl ps) + mset (peer_frames q')
      = mset H + (mset (pframes pl (ps(p := q'))) + mset (peer_frames (ps p)))"
    using pframes_upd [OF assms(1,2), of ps q'] by (simp add: ac_simps)
  also have "\<dots> = mset (H' @ pframes pl (ps(p := q'))) + mset (peer_frames q')"
    using assms(3) by (simp add: ac_simps)
  finally show "mset (H @ pframes pl ps) = mset (H' @ pframes pl (ps(p := q')))" by simp
qed

lemma owners_okD:
  assumes "owners_ok G pl H P pipe ps"
  shows "pool_ok P" "distinct (H @ pframes pl ps)" "distinct pipe"
    "pool_refs P f = (if f \<in> set (H @ pframes pl ps) then 1 else 0) + (if f \<in> set pipe then 1 else 0)"
    "f < unat (fp_total P) \<Longrightarrow> f_gate_free (fp_heap P f) \<longleftrightarrow> f \<notin> set pipe \<and> f \<notin> G"
  using assms by (auto simp: owners_ok_def)

lemma peer_frames_in: "p \<in> set pl \<Longrightarrow> f \<in> set (peer_frames (ps p)) \<Longrightarrow> f \<in> set (pframes pl ps)"
  by (auto simp: pframes_def)

lemma refs_pos_total: "pool_refs P f \<noteq> 0 \<Longrightarrow> f < unat (fp_total P) \<and> f \<notin> set (fp_free P)"
  by (auto simp: pool_refs_def split: if_splits)

section \<open>Reading and changing frames\<close>

lemma numbered_cong:
  "f_bytes fm' = f_bytes fm \<Longrightarrow> f_tx_ctrl_len fm' = f_tx_ctrl_len fm \<Longrightarrow> numbered fr fm' k = numbered fr fm k"
  by (simp add: numbered_def)

lemma seqd_cong:
  assumes "\<And>f. f \<in> set fs \<Longrightarrow> f_bytes (hp' f) = f_bytes (hp f) \<and> f_tx_ctrl_len (hp' f) = f_tx_ctrl_len (hp f)"
  shows "seqd fr hp' n fs = seqd fr hp n fs"
  using assms by (induction fs arbitrary: n) (auto simp: numbered_def)

lemma seqd_append: "seqd fr hp n (xs @ ys) \<longleftrightarrow> seqd fr hp n xs \<and> seqd fr hp (n + length xs) ys"
  by (induction xs arbitrary: n) auto

lemma numbered_mod: "j mod modulus fr = k mod modulus fr \<Longrightarrow> numbered fr fm j = numbered fr fm k"
  by (simp add: numbered_def)

lemma seqd_mod:
  "j mod modulus fr = k mod modulus fr \<Longrightarrow> seqd fr hp j fs = seqd fr hp k fs"
proof (induction fs arbitrary: j k)
  case (Cons f fs)
  have "Suc j mod modulus fr = Suc k mod modulus fr" using Cons.prems by (metis mod_Suc_eq)
  from Cons.IH [OF this] numbered_mod [OF Cons.prems, of "hp f"] show ?case by simp
qed simp

lemma win_ok_cong:
  assumes "\<And>f. f \<in> set (p_retrans_q q @ p_trans_q q) \<Longrightarrow>
    f_bytes (hp' f) = f_bytes (hp f) \<and> f_tx_ctrl_len (hp' f) = f_tx_ctrl_len (hp f)"
  shows "win_ok fr hp' q = win_ok fr hp q"
proof -
  have s: "seqd fr hp' n (p_retrans_q q @ us) = seqd fr hp n (p_retrans_q q @ us)"
    if "p_trans_q q = us @ ws" for n us ws
    using assms that by (intro seqd_cong) auto
  have w: "(\<forall>f \<in> set ws. f_tx_ctrl_len (hp' f) \<noteq> c) = (\<forall>f \<in> set ws. f_tx_ctrl_len (hp f) \<noteq> c)"
    if "p_trans_q q = us @ ws" for c us ws
    using assms that by auto
  show ?thesis unfolding win_ok_def
    by (rule ex_cong1, rule ex_cong1, rule conj_cong, rule refl, rule conj_cong, erule s,
        rule conj_cong, erule w, rule refl)
qed

lemma sinv_pool:
  assumes i: "sinv G fr pl H X s"
    and o': "owners_ok (fst G) pl H' P' (s_tx_pipe s) (s_peers s)"
    and k: "\<And>f. f \<in> set (pframes pl (s_peers s)) \<Longrightarrow>
      f_bytes (fp_heap P' f) = f_bytes (fp_heap (s_pool s) f)
      \<and> f_tx_ctrl_len (fp_heap P' f) = f_tx_ctrl_len (fp_heap (s_pool s) f)"
    and sz: "fp_framesize P' = fp_framesize (s_pool s)"
    and q: "\<And>f. f \<in> set H' \<Longrightarrow> f \<in> set (s_tx_pipe s) \<Longrightarrow> f \<in> snd G"
  shows "sinv G fr pl H' X (s\<lparr>s_pool := P'\<rparr>)"
proof -
  have "win_ok fr (fp_heap P') (s_peers s p) = win_ok fr (fp_heap (s_pool s)) (s_peers s p)"
    if "p \<in> set pl" for p
    using k peer_frames_in [OF that, of _ "s_peers s"] by (intro win_ok_cong) (auto simp: peer_frames_def)
  then show ?thesis using i o' sz q by (auto simp: sinv_def quiet_def)
qed

text \<open>A frame in the hand of the running handler may be written.\<close>

lemma sinv_updF:
  assumes i: "sinv G fr pl H X s" and f: "f \<in> set H"
    and g: "\<And>fm. f_refs (g fm) = f_refs fm \<and> f_gate_free (g fm) = f_gate_free fm
      \<and> length (f_bytes (g fm)) = length (f_bytes fm)"
  shows "sinv G fr pl H X (s\<lparr>s_pool := upd_frame f g (s_pool s)\<rparr>)"
proof (rule sinv_pool [OF i])
  note o' = invD(5) [OF i]
  have d: "f \<notin> set (pframes pl (s_peers s))" using f owners_okD(2) [OF o'] by auto
  then show "f_bytes (fp_heap (upd_frame f g (s_pool s)) h) = f_bytes (fp_heap (s_pool s) h)
      \<and> f_tx_ctrl_len (fp_heap (upd_frame f g (s_pool s)) h) = f_tx_ctrl_len (fp_heap (s_pool s) h)"
    if "h \<in> set (pframes pl (s_peers s))" for h
    using that by (auto simp: pool_simps)
  show "fp_framesize (upd_frame f g (s_pool s)) = fp_framesize (s_pool s)" by (simp add: pool_simps)
  show "h \<in> snd G" if "h \<in> set H" "h \<in> set (s_tx_pipe s)" for h
    using that invD(11) [OF i] by (simp add: quiet_def)
  have "pool_ok (upd_frame f g (s_pool s)) = pool_ok (s_pool s)"
    using g by (auto simp: pool_ok_def pool_simps)
  moreover have "pool_refs (upd_frame f g (s_pool s)) = pool_refs (s_pool s)"
    using g by (auto simp: pool_refs_def pool_simps fun_eq_iff)
  moreover have "f_gate_free (fp_heap (upd_frame f g (s_pool s)) h) = f_gate_free (fp_heap (s_pool s) h)" for h
    using g by (auto simp: pool_simps)
  ultimately show "owners_ok (fst G) pl H (upd_frame f g (s_pool s)) (s_tx_pipe s) (s_peers s)"
    using o' by (simp add: owners_ok_def upd_frame_proj(2))
qed

lemma frame_length:
  assumes "sinv G fr pl H X s" "f \<in> set (H @ pframes pl (s_peers s))"
  shows "length (f_bytes (frame_of s f)) = fp_framesize (s_pool s)" "f < unat (fp_total (s_pool s))"
    "pool_refs (s_pool s) f \<noteq> 0"
proof -
  note o' = invD(5) [OF assms(1)]
  show r: "pool_refs (s_pool s) f \<noteq> 0" using owners_okD(4) [OF o', of f] assms(2) by auto
  show t: "f < unat (fp_total (s_pool s))" using refs_pos_total [OF r] by simp
  show "length (f_bytes (frame_of s f)) = fp_framesize (s_pool s)"
    using pool_okD(5) [OF owners_okD(1) [OF o'] t] by (simp add: frame_of_def)
qed

section \<open>Pool and driver calls\<close>

lemma set_pool_eq: "set_pool P c s = s\<lparr>s_pool := P\<rparr>\<lparr>s_pool_calls := s_pool_calls s @ c\<rparr>"
  by (simp add: set_pool_def)

lemma release_sinv:
  assumes i: "sinv G fr pl (f # H) X s"
  shows "sinv G fr pl H X (exec (hdlcReleaseFrame f) s)"
proof -
  note o' = invD(5) [OF i]
  have r: "pool_refs (s_pool s) f \<noteq> 0" using frame_length(3) [OF i, of f] by simp
  from release_frame_ok [OF owners_okD(1) [OF o'] r] obtain P c where P: "release_frame f (s_pool s) = Some (P, c)"
    "pool_ok P" "pool_refs P = (pool_refs (s_pool s))(f := pool_refs (s_pool s) f - 1)"
    "fp_total P = fp_total (s_pool s)" "fp_framesize P = fp_framesize (s_pool s)"
    "\<And>g. f_bytes (fp_heap P g) = f_bytes (fp_heap (s_pool s) g)
      \<and> f_tx_ctrl_len (fp_heap P g) = f_tx_ctrl_len (fp_heap (s_pool s) g)"
    by metis
  have g: "f_gate_free (fp_heap P h) = f_gate_free (fp_heap (s_pool s) h)" for h
    using release_heap [OF P(1)] by simp
  have "f \<notin> set (H @ pframes pl (s_peers s))" using owners_okD(2) [OF o'] by simp
  then have "owners_ok (fst G) pl H P (s_tx_pipe s) (s_peers s)"
    using o' P g by (auto simp: owners_ok_def)
  from sinv_pool [OF i this] P(5,6) invD(11) [OF i] have "sinv G fr pl H X (s\<lparr>s_pool := P\<rparr>)"
    by (auto simp: quiet_def)
  then have "sinv G fr pl H X (set_pool P c s)" unfolding set_pool_eq by simp
  then show ?thesis using P(1) by (simp add: hdlcReleaseFrame_def)
qed

lemma take_sinv:
  assumes i: "sinv G fr pl H X s"
  shows "case result hdlcTakeFrame s of
      None \<Rightarrow> sinv G fr pl H X (exec hdlcTakeFrame s)
    | Some f \<Rightarrow> sinv G fr pl (f # H) X (exec hdlcTakeFrame s)"
proof -
  note o' = invD(5) [OF i]
  let ?r = "take_frame (s_pool s)"
  have e: "exec hdlcTakeFrame s = s\<lparr>s_pool := fst (snd ?r)\<rparr>\<lparr>s_pool_calls := s_pool_calls s @ snd (snd ?r)\<rparr>"
    "result hdlcTakeFrame s = fst ?r"
    by (simp_all add: hdlcTakeFrame_def set_pool_def)
  show ?thesis
  proof (cases "fp_free (s_pool s)")
    case Nil
    then show ?thesis using i by (simp add: e take_none del: run_simps)
  next
    case (Cons f fs)
    note t = take_some [OF Cons]
    note rf = take_frame_refs [OF owners_okD(1) [OF o'] Cons]
    have nf: "f \<notin> set (H @ pframes pl (s_peers s))" "f \<notin> set (s_tx_pipe s)"
      using owners_okD(4) [OF o', of f] rf(2) by (auto split: if_splits)
    have "owners_ok (fst G) pl (f # H) (fst (snd ?r)) (s_tx_pipe s) (s_peers s)"
      using o' nf rf(1) t take_frame_ok [OF owners_okD(1) [OF o']]
      by (auto simp: owners_ok_def fresh_frame_def)
    then have "sinv G fr pl (f # H) X (s\<lparr>s_pool := fst (snd ?r)\<rparr>)"
    proof (rule sinv_pool [OF i])
      fix h assume "h \<in> set (pframes pl (s_peers s))"
      with nf(1) have "h \<noteq> f" by auto
      then show "f_bytes (fp_heap (fst (snd ?r)) h) = f_bytes (fp_heap (s_pool s) h)
          \<and> f_tx_ctrl_len (fp_heap (fst (snd ?r)) h) = f_tx_ctrl_len (fp_heap (s_pool s) h)"
        by (simp add: t)
    next
      show "h \<in> snd G" if "h \<in> set (f # H)" "h \<in> set (s_tx_pipe s)" for h
        using that nf(2) invD(11) [OF i] by (auto simp: quiet_def)
    qed (simp add: t)
    then show ?thesis by (simp add: e t(1) del: run_simps)
  qed
qed

end
