(* ===== verification/Hdlc_InvOps.thy ===== *)
theory Hdlc_InvOps
  imports Hdlc_Inv
begin

text \<open>
  Hoare triples for the commands of the core, and the triples of the driver calls, the frame
  builders and the reset paths with respect to the station invariant.
\<close>

section \<open>Triples\<close>

definition ht :: "(station \<Rightarrow> bool) \<Rightarrow> 'a hdlc \<Rightarrow> ('a \<Rightarrow> station \<Rightarrow> bool) \<Rightarrow> bool" where
  "ht P m Q \<longleftrightarrow> (\<forall>s. P s \<longrightarrow> wp m Q s)"

named_theorems ht \<open>structural rules of the triples\<close>

lemma htI: "(\<And>s. P s \<Longrightarrow> wp m Q s) \<Longrightarrow> ht P m Q"
  by (simp add: ht_def)

lemma htD: "ht P m Q \<Longrightarrow> P s \<Longrightarrow> wp m Q s"
  by (simp add: ht_def)

lemma keeps_ht: "keeps I m = ht I m (\<lambda>_. I)"
  by (simp add: keeps_def ht_def wp_def)

lemma ht_keeps: "keeps I m \<Longrightarrow> ht I m (\<lambda>_. I)"
  by (simp add: keeps_ht)

lemma ht_post: "ht P m Q \<Longrightarrow> (\<And>x s. Q x s \<Longrightarrow> R x s) \<Longrightarrow> ht P m R"
  by (auto simp: ht_def wp_def)

lemma ht_pre: "ht P m Q \<Longrightarrow> (\<And>s. R s \<Longrightarrow> P s) \<Longrightarrow> ht R m Q"
  by (simp add: ht_def)

lemma ht_bind: "ht P m R \<Longrightarrow> (\<And>x. ht (R x) (f x) Q) \<Longrightarrow> ht P (m \<bind> f) Q"
  by (auto simp: ht_def wp_def)

lemma ht_keeps_bind: "keeps P m \<Longrightarrow> (\<And>x. ht P (f x) Q) \<Longrightarrow> ht P (m \<bind> f) Q"
  by (auto simp: ht_def wp_def keeps_def)

lemma ht_exec: "ht P m (\<lambda>_. Q) \<longleftrightarrow> (\<forall>s. P s \<longrightarrow> Q (exec m s))"
  by (simp add: ht_def wp_def)

lemma ht_gets: "(\<And>x. ht (\<lambda>s. P s \<and> f s = x) (g x) Q) \<Longrightarrow> ht P (gets f \<bind> g) Q"
  by (auto simp: ht_def)

lemma ht_getP: "(\<And>x. ht (\<lambda>s. P s \<and> f (s_peers s p) = x) (g x) Q) \<Longrightarrow> ht P (getP p f \<bind> g) Q"
  by (auto simp: ht_def getP_def)

lemma ht_ret [ht]: "(\<And>s. P s \<Longrightarrow> Q x s) \<Longrightarrow> ht P (ret x) Q"
  by (simp add: ht_def)

lemma ht_if [ht]: "(b \<Longrightarrow> ht P m Q) \<Longrightarrow> (\<not> b \<Longrightarrow> ht P m' Q) \<Longrightarrow> ht P (if b then m else m') Q"
  by (simp add: ht_def)

lemma ht_when: "(b \<Longrightarrow> ht P m Q) \<Longrightarrow> (\<And>s. \<not> b \<Longrightarrow> P s \<Longrightarrow> Q () s) \<Longrightarrow> ht P (whenM b m) Q"
  by (simp add: ht_def)

lemma ht_option [ht]:
  "(x = None \<Longrightarrow> ht P m Q) \<Longrightarrow> (\<And>y. x = Some y \<Longrightarrow> ht P (f y) Q)
    \<Longrightarrow> ht P (case x of None \<Rightarrow> m | Some y \<Rightarrow> f y) Q"
  by (cases x) simp_all

lemma ht_prod [ht]: "(\<And>a b. x = (a, b) \<Longrightarrow> ht P (f a b) Q) \<Longrightarrow> ht P (case x of (a, b) \<Rightarrow> f a b) Q"
  by (cases x) simp

lemma ht_let [ht]: "ht P (f a) Q \<Longrightarrow> ht P (let x = a in f x) Q"
  by simp

lemma ht_modify: "(\<And>s. P s \<Longrightarrow> Q () (g s)) \<Longrightarrow> ht P (modify g) Q"
  by (simp add: ht_def)

lemma ht_conj_pure: "(b \<Longrightarrow> ht P m Q) \<Longrightarrow> ht (\<lambda>s. P s \<and> b) m Q"
  by (simp add: ht_def)

section \<open>Driver calls\<close>

lemma take_ht:
  "ht (sinv G fr pl H X) hdlcTakeFrame
     (\<lambda>r. case r of None \<Rightarrow> sinv G fr pl H X | Some f \<Rightarrow> sinv G fr pl (f # H) X)"
proof (rule htI)
  fix s assume "sinv G fr pl H X s"
  from take_sinv [OF this]
  show "wp hdlcTakeFrame (\<lambda>r. case r of None \<Rightarrow> sinv G fr pl H X | Some f \<Rightarrow> sinv G fr pl (f # H) X) s"
    by (simp add: wp_def split: option.splits)
qed

lemma release_ht: "ht (sinv G fr pl (f # H) X) (hdlcReleaseFrame f) (\<lambda>_. sinv G fr pl H X)"
  by (simp add: ht_exec release_sinv del: run_simps)

lemma pool_pipe_commute [simp]:
  "s\<lparr>s_pool := P, s_tx_pipe := q\<rparr> = s\<lparr>s_tx_pipe := q, s_pool := P\<rparr>"
  by simp

text \<open>Invariant under changes of the pool that keep the contents of the frames.\<close>

lemma sinv_pool_pipe:
  assumes i: "sinv G fr pl H X s"
    and o': "owners_ok (fst G') pl H' P' pipe' (s_peers s)"
    and k: "\<And>f. f \<in> set (pframes pl (s_peers s)) \<Longrightarrow>
      f_bytes (fp_heap P' f) = f_bytes (fp_heap (s_pool s) f)
      \<and> f_tx_ctrl_len (fp_heap P' f) = f_tx_ctrl_len (fp_heap (s_pool s) f)"
    and sz: "fp_framesize P' = fp_framesize (s_pool s)"
    and q: "quiet (snd G') pl H' pipe' (s_peers s)"
  shows "sinv G' fr pl H' X (s\<lparr>s_tx_pipe := pipe', s_pool := P'\<rparr>)"
proof -
  have "win_ok fr (fp_heap P') (s_peers s p) = win_ok fr (fp_heap (s_pool s)) (s_peers s p)"
    if "p \<in> set pl" for p
    using k peer_frames_in [OF that, of _ "s_peers s"] by (intro win_ok_cong) (auto simp: peer_frames_def)
  then show ?thesis using i o' sz q by (auto simp: sinv_def)
qed

lemma gate_upd [simp]:
  "pool_refs (upd_frame f (\<lambda>fr. fr\<lparr>f_gate_free := b\<rparr>) P) = pool_refs P"
  "pool_ok (upd_frame f (\<lambda>fr. fr\<lparr>f_gate_free := b\<rparr>) P) = pool_ok P"
  "f_gate_free (fp_heap (upd_frame f (\<lambda>fr. fr\<lparr>f_gate_free := b\<rparr>) P) h)
    = (if h = f then b else f_gate_free (fp_heap P h))"
  "f_bytes (fp_heap (upd_frame f (\<lambda>fr. fr\<lparr>f_gate_free := b\<rparr>) P) h) = f_bytes (fp_heap P h)"
  "f_tx_ctrl_len (fp_heap (upd_frame f (\<lambda>fr. fr\<lparr>f_gate_free := b\<rparr>) P) h) = f_tx_ctrl_len (fp_heap P h)"
  "fp_total (upd_frame f (\<lambda>fr. fr\<lparr>f_gate_free := b\<rparr>) P) = fp_total P"
  "fp_framesize (upd_frame f (\<lambda>fr. fr\<lparr>f_gate_free := b\<rparr>) P) = fp_framesize P"
  by (auto simp: pool_simps pool_refs_def pool_ok_def fun_eq_iff)

lemma sinv_gate:
  assumes i: "sinv (g, L) fr pl H X s" and f: "f < unat (fp_total (s_pool s))"
    and b: "b \<longleftrightarrow> f \<notin> set (s_tx_pipe s) \<and> f \<notin> g'" and g: "g - {f} = g' - {f}"
  shows "sinv (g', L) fr pl H X (s\<lparr>s_pool := upd_frame f (\<lambda>fr. fr\<lparr>f_gate_free := b\<rparr>) (s_pool s)\<rparr>)"
proof -
  have m: "h \<in> g \<longleftrightarrow> h \<in> g'" if "h \<noteq> f" for h using g that by blast
  have "owners_ok g' pl H (upd_frame f (\<lambda>fr. fr\<lparr>f_gate_free := b\<rparr>) (s_pool s)) (s_tx_pipe s) (s_peers s)"
    using invD(5) [OF i] b by (auto simp: owners_ok_def m)
  with sinv_pool_pipe [OF i, of "(g', L)" H _ "s_tx_pipe s"] invD(11) [OF i] show ?thesis by simp
qed

text \<open>Completion of a transfer: only the reference of the driver is given up.\<close>

lemma release_frame_gate:
  assumes "release_frame f P = Some (P', c)"
  shows "f_gate_free (fp_heap P' h) = f_gate_free (fp_heap P h)"
  using release_heap [OF assms] by simp

lemma tx_done_sinv:
  assumes i: "sinv G fr pl H X s" and G: "f \<notin> fst G"
  shows "sinv G fr pl H X (exec (driver_tx_done f) s)"
    "f \<notin> set (s_tx_pipe (exec (driver_tx_done f) s))"
    "s_peers (exec (driver_tx_done f) s) = s_peers s"
proof -
  note o' = invD(5) [OF i]
  have "sinv G fr pl H X (exec (driver_tx_done f) s)
    \<and> f \<notin> set (s_tx_pipe (exec (driver_tx_done f) s))
    \<and> s_peers (exec (driver_tx_done f) s) = s_peers s"
  proof (cases "f \<in> set (s_tx_pipe s)")
    case False
    then show ?thesis using i by (simp add: driver_tx_done_def)
  next
    case True
    let ?P = "upd_frame f (\<lambda>fr. fr\<lparr>f_gate_free := True\<rparr>) (s_pool s)"
    have r: "pool_refs ?P f \<noteq> 0" using owners_okD(4) [OF o', of f] True by simp
    have ok: "pool_ok ?P" using owners_okD(1) [OF o'] by simp
    from release_frame_ok [OF ok r] obtain P c where P: "release_frame f ?P = Some (P, c)"
      "pool_ok P" "pool_refs P = (pool_refs ?P)(f := pool_refs ?P f - 1)"
      "fp_total P = fp_total ?P" "fp_framesize P = fp_framesize ?P"
      "\<And>g. f_bytes (fp_heap P g) = f_bytes (fp_heap ?P g)
        \<and> f_tx_ctrl_len (fp_heap P g) = f_tx_ctrl_len (fp_heap ?P g)"
      by metis
    note pg = release_frame_gate [OF P(1)]
    have nin: "f \<notin> set (remove1 f (s_tx_pipe s))" using owners_okD(3) [OF o'] by simp
    have "owners_ok (fst G) pl H P (remove1 f (s_tx_pipe s)) (s_peers s)"
      using o' P(2,3,4) pg nin G True by (auto simp: owners_ok_def)
    moreover have "quiet (snd G) pl H (remove1 f (s_tx_pipe s)) (s_peers s)"
      using invD(11) [OF i] by (auto simp: quiet_def dest: notin_set_remove1)
    ultimately have "sinv G fr pl H X (s\<lparr>s_tx_pipe := remove1 f (s_tx_pipe s), s_pool := P\<rparr>)"
      using sinv_pool_pipe [OF i] P(5,6) by simp
    then have "sinv G fr pl H X (s\<lparr>s_tx_pipe := remove1 f (s_tx_pipe s), s_pool := P\<rparr>
        \<lparr>s_pool_calls := s_pool_calls s @ c\<rparr>)" by simp
    then show ?thesis using True P(1) nin
      by (simp add: driver_tx_done_def ioHdlcFrameTxGateRelease_def updF_def hdlcReleaseFrame_def set_pool_def)
  qed
  then show "sinv G fr pl H X (exec (driver_tx_done f) s)"
    "f \<notin> set (s_tx_pipe (exec (driver_tx_done f) s))"
    "s_peers (exec (driver_tx_done f) s) = s_peers s" by simp_all
qed

lemma trywait_sinv:
  assumes i: "sinv (g, L) fr pl H X s" and f: "f < unat (fp_total (s_pool s))"
    and p: "f \<notin> set (s_tx_pipe s)" and G: "f \<notin> g"
  shows "result (ioHdlcFrameTxGateTryWait f) s"
    "sinv (insert f g, L) fr pl H X (exec (ioHdlcFrameTxGateTryWait f) s)"
    "s_tx_pipe (exec (ioHdlcFrameTxGateTryWait f) s) = s_tx_pipe s"
    "s_peers (exec (ioHdlcFrameTxGateTryWait f) s) = s_peers s"
proof -
  have free: "f_gate_free (fp_heap (s_pool s) f)"
    using owners_okD(5) [OF invD(5) [OF i] f] p G by simp
  then show "result (ioHdlcFrameTxGateTryWait f) s"
    "s_tx_pipe (exec (ioHdlcFrameTxGateTryWait f) s) = s_tx_pipe s"
    "s_peers (exec (ioHdlcFrameTxGateTryWait f) s) = s_peers s"
    by (simp_all add: ioHdlcFrameTxGateTryWait_def frame_of_def updF_def whenM_def)
  show "sinv (insert f g, L) fr pl H X (exec (ioHdlcFrameTxGateTryWait f) s)"
    using free sinv_gate [OF i f, of False "insert f g"] G
    by (simp add: ioHdlcFrameTxGateTryWait_def frame_of_def updF_def whenM_def)
qed

text \<open>The transmit thread gets the gate of a frame it holds or that one of the queues holds.\<close>

lemma gate_wait_sinv:
  assumes i: "sinv (g, L) fr pl H X s" and f: "f \<in> set (H @ pframes pl (s_peers s))" and G: "f \<notin> g"
  shows "sinv (insert f g, L) fr pl H X (exec (ioHdlcFrameTxGateWait f) s)"
    "f \<notin> set (s_tx_pipe (exec (ioHdlcFrameTxGateWait f) s))"
    "s_peers (exec (ioHdlcFrameTxGateWait f) s) = s_peers s"
proof -
  define t where "t = (if f_gate_free (frame_of s f) then s else exec (driver_tx_done f) s)"
  have lt: "f < unat (fp_total (s_pool s))" using frame_length(2) [OF i f] .
  have t: "sinv (g, L) fr pl H X t" "f \<notin> set (s_tx_pipe t)" "s_peers t = s_peers s"
    unfolding t_def using i tx_done_sinv [OF i] G owners_okD(5) [OF invD(5) [OF i] lt]
    by (auto simp: frame_of_def)
  have lt': "f < unat (fp_total (s_pool t))" using frame_length(2) [OF t(1), of f] f t(3) by simp
  note w = trywait_sinv [OF t(1) lt' t(2) G]
  have "exec (ioHdlcFrameTxGateWait f) s = exec (assertM (result (ioHdlcFrameTxGateTryWait f) t))
      (exec (ioHdlcFrameTxGateTryWait f) t)"
    by (simp add: ioHdlcFrameTxGateWait_def t_def)
  then have "exec (ioHdlcFrameTxGateWait f) s = exec (ioHdlcFrameTxGateTryWait f) t"
    using w(1) by (simp add: assertM_def)
  with w t show "sinv (insert f g, L) fr pl H X (exec (ioHdlcFrameTxGateWait f) s)"
    "f \<notin> set (s_tx_pipe (exec (ioHdlcFrameTxGateWait f) s))"
    "s_peers (exec (ioHdlcFrameTxGateWait f) s) = s_peers s" by simp_all
qed

lemma gate_release_sinv:
  assumes i: "sinv (insert f g, L) fr pl H X s" and f: "f \<in> set (H @ pframes pl (s_peers s))"
    and p: "f \<notin> set (s_tx_pipe s)" and G: "f \<notin> g"
  shows "sinv (g, L) fr pl H X (exec (ioHdlcFrameTxGateRelease f) s)"
  using sinv_gate [OF i frame_length(2) [OF i f], of True g] p G
  by (simp add: ioHdlcFrameTxGateRelease_def updF_def)

text \<open>A frame the driver may take: in hand or in a queue, and not kept for an unnumbered exchange.\<close>

definition sendable :: "nat list \<Rightarrow> nat list \<Rightarrow> (nat \<Rightarrow> peer) \<Rightarrow> nat \<Rightarrow> bool" where
  "sendable pl H ps f \<longleftrightarrow> f \<in> set (H @ pframes pl ps)
     \<and> (\<forall>p \<in> set pl. f \<notin> set (um_frames (ps p)))"

lemma addref_pipe_sinv:
  assumes i: "sinv ({f}, L) fr pl H X s" and f: "sendable pl H (s_peers s) f"
    and p: "f \<notin> set (s_tx_pipe s)"
  shows "sinv ({}, insert f L) fr pl H X
    (exec (do { hdlcAddRef f; modify (\<lambda>s. s\<lparr>s_tx_pipe := s_tx_pipe s @ [f]\<rparr>) }) s)"
proof -
  note o' = invD(5) [OF i]
  have f1: "f \<in> set (H @ pframes pl (s_peers s))" using f by (simp add: sendable_def)
  then have r: "pool_refs (s_pool s) f = 1" using owners_okD(4) [OF o', of f] p by simp
  then have "pool_refs (s_pool s) f \<noteq> 0" "pool_refs (s_pool s) f < 255" by simp_all
  from addref_frame_ok [OF owners_okD(1) [OF o'] this] obtain P where P: "addref_frame f (s_pool s) = Some P"
    "pool_ok P" "pool_refs P = (pool_refs (s_pool s))(f := pool_refs (s_pool s) f + 1)"
    "fp_total P = fp_total (s_pool s)" "fp_framesize P = fp_framesize (s_pool s)"
    "\<And>g. f_bytes (fp_heap P g) = f_bytes (fp_heap (s_pool s) g)
      \<and> f_tx_ctrl_len (fp_heap P g) = f_tx_ctrl_len (fp_heap (s_pool s) g)"
    by metis
  have g: "f_gate_free (fp_heap P h) = f_gate_free (fp_heap (s_pool s) h)" for h
    using P(1) by (auto simp: addref_frame_def pool_simps split: if_splits)
  have "owners_ok {} pl H P (s_tx_pipe s @ [f]) (s_peers s)"
    using o' P(2,3,4) g f1 p by (auto simp: owners_ok_def)
  moreover have "quiet (insert f L) pl H (s_tx_pipe s @ [f]) (s_peers s)"
    using invD(11) [OF i] f by (auto simp: quiet_def sendable_def)
  ultimately have "sinv ({}, insert f L) fr pl H X (s\<lparr>s_tx_pipe := s_tx_pipe s @ [f], s_pool := P\<rparr>)"
    using sinv_pool_pipe [OF i, of "({}, insert f L)"] P(5,6) by simp
  then have "sinv ({}, insert f L) fr pl H X (s\<lparr>s_tx_pipe := s_tx_pipe s @ [f], s_pool := P\<rparr>
      \<lparr>s_pool_calls := s_pool_calls s @ []\<rparr>)" by (simp only: inv_station_irr)
  then show ?thesis using P(1) by (simp add: hdlcAddRef_def set_pool_def)
qed

lemma sinv_loud: "sinv (g, L) fr pl H X s \<Longrightarrow> L \<subseteq> L' \<Longrightarrow> sinv (g, L') fr pl H X s"
  by (auto simp: sinv_def quiet_def)

lemma sinv_unloud:
  "sinv (g, insert f L) fr pl H X s \<Longrightarrow> f \<notin> set H \<or> f \<notin> set (s_tx_pipe s) \<Longrightarrow> sinv (g, L) fr pl H X s"
  by (auto simp: sinv_def quiet_def)

lemma copy_pipe_sinv:
  assumes i: "sinv ({f}, L) fr pl (g # H) X s" and f: "sendable pl H (s_peers s) f"
    and p: "f \<notin> set (s_tx_pipe s)" and g: "g \<notin> set (s_tx_pipe s)"
  shows "sinv ({}, insert f L) fr pl H X (exec (do { ioHdlcFrameTxGateRelease f;
    updF g (\<lambda>fr. fr\<lparr>f_gate_free := False\<rparr>);
    modify (\<lambda>s. s\<lparr>s_tx_pipe := s_tx_pipe s @ [g]\<rparr>) }) s)"
proof -
  let ?s = "exec (ioHdlcFrameTxGateRelease f) s"
  have i1: "sinv ({}, L) fr pl (g # H) X ?s"
    using f p by (intro gate_release_sinv [OF i]) (auto simp: sendable_def)
  have p1: "s_tx_pipe ?s = s_tx_pipe s" "s_peers ?s = s_peers s"
    by (simp_all add: ioHdlcFrameTxGateRelease_def updF_def)
  note o' = invD(5) [OF i1]
  let ?P = "upd_frame g (\<lambda>fr. fr\<lparr>f_gate_free := False\<rparr>) (s_pool ?s)"
  have gn: "g \<notin> set (H @ pframes pl (s_peers s))" using owners_okD(2) [OF o'] p1(2) by simp
  then have "owners_ok {} pl H ?P (s_tx_pipe ?s @ [g]) (s_peers ?s)"
    using o' g p1 by (auto simp: owners_ok_def)
  moreover have "quiet L pl H (s_tx_pipe ?s @ [g]) (s_peers ?s)"
    using invD(11) [OF i1] gn p1 peer_frames_in
    by (auto simp: quiet_def um_frames_def peer_frames_def pframes_def)
  ultimately have "sinv ({}, L) fr pl H X (?s\<lparr>s_tx_pipe := s_tx_pipe ?s @ [g], s_pool := ?P\<rparr>)"
    using sinv_pool_pipe [OF i1, of "({}, L)"] by simp
  then have "sinv ({}, insert f L) fr pl H X (?s\<lparr>s_tx_pipe := s_tx_pipe ?s @ [g], s_pool := ?P\<rparr>)"
    by (rule sinv_loud) auto
  then show ?thesis by (simp add: updF_def)
qed

lemma keeps_log [keeps]: "keeps (sinv G fr pl H X) (log_sent f)"
  unfolding log_sent_def by (intro keeps_modify) simp

lemma keeps_outcome [keeps]: "keeps (sinv G fr pl H X) next_outcome"
  unfolding next_outcome_def by (intro keeps keeps_modify) simp

text \<open>The driver call, on a frame whose gate is open and which it does not hold.\<close>

lemma send_ht:
  "ht (\<lambda>s. sinv ({}, L) fr pl H X s \<and> sendable pl H (s_peers s) f \<and> f \<notin> set (s_tx_pipe s))
    (hdlcSendFrame f) (\<lambda>_. sinv ({}, insert f L) fr pl H X)"
proof (rule htI, elim conjE)
  fix s assume i: "sinv ({}, L) fr pl H X s" and f: "sendable pl H (s_peers s) f"
    and p: "f \<notin> set (s_tx_pipe s)"
  have f1: "f \<in> set (H @ pframes pl (s_peers s))" using f by (simp add: sendable_def)
  define s1 where "s1 = exec (ioHdlcFrameTxGateTryWait f) s"
  note w = trywait_sinv [OF i frame_length(2) [OF i f1] p, simplified, folded s1_def]
  define s2 where "s2 = exec next_outcome s1"
  have ps: "s_peers s2 = s_peers s" "s_tx_pipe s2 = s_tx_pipe s"
    using w(3,4) by (simp_all add: s2_def next_outcome_def)
  have i2: "sinv ({f}, L) fr pl H X s2" unfolding s2_def by (rule keepsD [OF keeps_outcome w(2)])
  define s3 where "s3 = exec (log_sent f) s2"
  have i3: "sinv ({f}, L) fr pl H X s3" unfolding s3_def by (rule keepsD [OF keeps_log i2])
  have p3: "s_peers s3 = s_peers s" "s_tx_pipe s3 = s_tx_pipe s"
    by (simp_all add: s3_def log_sent_def ps)
  have err: "sinv ({}, insert f L) fr pl H X (exec (ioHdlcFrameTxGateRelease f) s2)"
    by (rule sinv_loud [where L = L], rule gate_release_sinv [OF i2]) (use f1 p ps in auto)
  have hold: "sinv ({}, insert f L) fr pl H X
      (exec (do { hdlcAddRef f; modify (\<lambda>s. s\<lparr>s_tx_pipe := s_tx_pipe s @ [f]\<rparr>) }) s3)"
    using f p p3 by (intro addref_pipe_sinv [OF i3]) auto
  define s4 where "s4 = exec hdlcTakeFrame s2"
  have t: "case result hdlcTakeFrame s2 of None \<Rightarrow> sinv ({f}, L) fr pl H X s4
      | Some g \<Rightarrow> sinv ({f}, L) fr pl (g # H) X s4"
    unfolding s4_def by (rule take_sinv [OF i2])
  have p4: "s_peers s4 = s_peers s" "s_tx_pipe s4 = s_tx_pipe s"
    by (simp_all add: s4_def hdlcTakeFrame_def set_pool_def ps)
  show "wp (hdlcSendFrame f) (\<lambda>_. sinv ({}, insert f L) fr pl H X) s"
  proof (cases "result next_outcome s1")
    case (TxErr e)
    then show ?thesis using w(1) err
      by (simp add: hdlcSendFrame_def wp_exec s2_def s1_def wp_def [of "ioHdlcFrameTxGateTryWait f"])
  next
    case TxHold
    then show ?thesis using w(1) hold
      by (simp add: hdlcSendFrame_def wp_exec s3_def s2_def s1_def wp_def [of "ioHdlcFrameTxGateTryWait f"])
  next
    case TxCopy
    show ?thesis
    proof (cases "result hdlcTakeFrame s2")
      case None
      then have "sinv ({}, L) fr pl H X (exec (ioHdlcFrameTxGateRelease f) s4)"
        using f1 p p4 t by (intro gate_release_sinv [where g = "{}"]) auto
      then have "sinv ({}, insert f L) fr pl H X (exec (ioHdlcFrameTxGateRelease f) s4)"
        by (rule sinv_loud) auto
      then show ?thesis using w(1) TxCopy None
        by (simp add: hdlcSendFrame_def wp_exec s4_def s2_def s1_def wp_def [of "ioHdlcFrameTxGateTryWait f"])
    next
      case (Some g)
      define s5 where "s5 = exec (log_sent f) s4"
      have i5: "sinv ({f}, L) fr pl (g # H) X s5"
        unfolding s5_def using t Some by (intro keepsD [OF keeps_log]) simp
      have p5: "s_peers s5 = s_peers s" "s_tx_pipe s5 = s_tx_pipe s"
        by (simp_all add: s5_def log_sent_def p4)
      have "pool_refs (s_pool s2) g = 0"
        using Some take_frame_refs(2) [OF owners_okD(1) [OF invD(5) [OF i2]]]
        by (cases "fp_free (s_pool s2)") (auto simp: hdlcTakeFrame_def take_none take_some)
      then have g: "g \<notin> set (s_tx_pipe s5)"
        using owners_okD(4) [OF invD(5) [OF i2], of g] p5 ps by (auto split: if_splits)
      have "sinv ({}, insert f L) fr pl H X (exec (do { ioHdlcFrameTxGateRelease f;
          updF g (\<lambda>fr. fr\<lparr>f_gate_free := False\<rparr>);
          modify (\<lambda>s. s\<lparr>s_tx_pipe := s_tx_pipe s @ [g]\<rparr>) }) s5)"
        using f p p5 g by (intro copy_pipe_sinv [OF i5]) auto
      then show ?thesis using w(1) TxCopy Some
        by (simp add: hdlcSendFrame_def wp_exec s5_def s4_def s2_def s1_def wp_def [of "ioHdlcFrameTxGateTryWait f"])
    qed
  qed
qed

text \<open>Sending a frame in hand gives it up.\<close>

lemma hand_sendable:
  assumes "sinv ({}, {}) fr pl (f # H) X s"
  shows "sendable pl (f # H) (s_peers s) f" "f \<notin> set (s_tx_pipe s)" "f \<notin> set H"
  using owners_okD(2) [OF invD(5) [OF assms]] invD(11) [OF assms] peer_frames_in
  by (auto simp: sendable_def quiet_def um_frames_def peer_frames_def pframes_def)

lemma sendFrame_ht: "ht (sinv ({}, {}) fr pl (f # H) X) (sendFrame f) (\<lambda>_. sinv ({}, {}) fr pl H X)"
  unfolding sendFrame_def
proof (rule ht_pre [where P = "\<lambda>s. sinv ({}, {}) fr pl (f # H) X s
    \<and> sendable pl (f # H) (s_peers s) f \<and> f \<notin> set (s_tx_pipe s)"], rule ht_bind [OF send_ht])
  fix err
  have "sinv ({}, {}) fr pl H X (exec (hdlcReleaseFrame f) s)"
    if i: "sinv ({}, {f}) fr pl (f # H) X s" for s
  proof (rule sinv_unloud [where f = f, OF release_sinv [OF i]])
    show "f \<notin> set H \<or> f \<notin> set (s_tx_pipe (exec (hdlcReleaseFrame f) s))"
      using owners_okD(2) [OF invD(5) [OF i]] by simp
  qed
  then show "ht (sinv ({}, {f}) fr pl (f # H) X) (do { hdlcReleaseFrame f; ret (err = 0) })
      (\<lambda>_. sinv ({}, {}) fr pl H X)"
    by (simp add: ht_def wp_def [of "hdlcReleaseFrame f"])
qed (use hand_sendable in auto)

section \<open>Frame builders\<close>

lemma keeps_framing:
  "keeps (sinv G fr pl H X) (g fr) \<Longrightarrow> keeps (sinv G fr pl H X) (gets s_framing \<bind> g)"
  by (auto simp: keeps_def dest: invD(1))

lemma keeps_updF:
  assumes "f \<in> set H" "\<And>fm. f_refs (g fm) = f_refs fm \<and> f_gate_free (g fm) = f_gate_free fm
      \<and> length (f_bytes (g fm)) = length (f_bytes fm)"
  shows "keeps (sinv G fr pl H X) (updF f g)"
  unfolding updF_def using assms by (intro keeps_modify sinv_updF)

lemma keeps_writeF:
  assumes "f \<in> set H" "i < unat (frame_offset fr) + 7"
  shows "keeps (sinv G fr pl H X) (writeF f i v)"
proof (unfold keeps_def, intro allI impI)
  fix s assume s: "sinv G fr pl H X s"
  have "i < length (f_bytes (frame_of s f))"
    using frame_length(1) [OF s, of f] invD(9) [OF s] assms by simp
  moreover have "keeps (sinv G fr pl H X) (updF f (\<lambda>fr. fr\<lparr>f_bytes := (f_bytes fr)[i := v]\<rparr>))"
    using assms(1) by (intro keeps_updF) auto
  ultimately show "sinv G fr pl H X (exec (writeF f i v) s)"
    using s by (simp add: writeF_def keeps_def)
qed

lemma keeps_writeFs:
  assumes "f \<in> set H"
  shows "i + length vs \<le> unat (frame_offset fr) + 7 \<Longrightarrow> keeps (sinv G fr pl H X) (writeFs f i vs)"
proof (induction vs arbitrary: i)
  case (Cons v vs)
  then have "keeps (sinv G fr pl H X) (writeF f i v)" "keeps (sinv G fr pl H X) (writeFs f (i + 1) vs)"
    using assms by (auto intro: keeps_writeF)
  then show ?case by (simp add: keeps_bind)
qed (simp add: keeps_ret)

lemma keeps_elen: "f \<in> set H \<Longrightarrow> keeps (sinv G fr pl H X) (set_elen f n)"
  "f \<in> set H \<Longrightarrow> keeps (sinv G fr pl H X) (set_tx_ctrl_len f c)"
  unfolding set_elen_def set_tx_ctrl_len_def by (intro keeps_updF; simp)+

lemma pos_lt7: "addr_pos fr < unat (frame_offset fr) + 7" "ctrl_pos fr 0 < unat (frame_offset fr) + 7"
  by (simp_all add: addr_pos_def ctrl_pos_def)

lemma keeps_buildU: "f \<in> set H \<Longrightarrow> keeps (sinv G fr pl H X) (ioHdlcBuildUFrame p f u pf c)"
  unfolding ioHdlcBuildUFrame_def
  by (rule keeps_framing) (intro keeps keeps_writeF keeps_elen pos_lt7; assumption)

lemma keeps_buildUI:
  "f \<in> set H \<Longrightarrow> length info \<le> 5 \<Longrightarrow> keeps (sinv G fr pl H X) (ioHdlcBuildUFrameWithInfo p f u pf c info)"
  unfolding ioHdlcBuildUFrameWithInfo_def
  by (rule keeps_bind [OF keeps_buildU], assumption, rule keeps_framing)
    (intro keeps keeps_writeFs keeps_elen; simp)

lemma keeps_buildFrmr: "f \<in> set H \<Longrightarrow> keeps (sinv G fr pl H X) (buildFrmrResponse p f pf)"
  unfolding buildFrmrResponse_def
  by (rule keeps_framing) (intro keeps keeps_writeF keeps_writeFs keeps_elen pos_lt7; simp)

lemma keeps_buildS: "f \<in> set H \<Longrightarrow> keeps (sinv G fr pl H X) (buildSFrame p f sf nr pf c)"
  unfolding buildSFrame_def
  by (rule keeps_framing)
    (intro keeps keeps_writeF keeps_updF keeps_elen pos_lt7; simp add: set_macros_eq)

section \<open>Moving frames between peers and the hand\<close>

text \<open>One rule for every transfer: the frames of hand and peer together stay the same.\<close>

lemma sinv_move:
  assumes i: "sinv (g, {}) fr pl H X s" and p: "p \<in> set pl"
    and m: "mset H + mset (peer_frames (s_peers s p)) = mset H' + mset (peer_frames (u (s_peers s p)))"
    and q: "\<And>f. f \<in> set H' \<Longrightarrow> f \<in> set H \<union> set (um_frames (s_peers s p)) \<union> L \<or> f \<notin> set (s_tx_pipe s)"
    and um: "\<And>f. f \<in> set (um_frames (u (s_peers s p)))
        \<Longrightarrow> f \<in> set H \<union> set (um_frames (s_peers s p)) \<or> f \<notin> set (s_tx_pipe s)"
    and w: "if p \<in> X' then win_zero fr (u (s_peers s p)) else win_ok fr (fp_heap (s_pool s)) (u (s_peers s p))"
    and x: "X - {p} = X' - {p}"
  shows "sinv (g, L) fr pl H' X' (upd_peer p u s)"
proof -
  let ?q = "u (s_peers s p)"
  have "owners_ok g pl H' (s_pool s) (s_tx_pipe s) ((s_peers s)(p := ?q))"
    using owners_move [OF p invD(4) [OF i], of H "s_peers s" H' ?q] m invD(5) [OF i] by simp
  moreover have "f \<in> L" if "f \<in> set H'" "f \<in> set (s_tx_pipe s)" for f
    using q [OF that(1)] that invD(11) [OF i] p by (auto simp: quiet_def)
  moreover have "f \<notin> set (s_tx_pipe s)" if "f \<in> set (um_frames ?q)" for f
    using um [OF that] invD(11) [OF i] p by (auto simp: quiet_def)
  ultimately have "owners_ok g pl H' (s_pool s) (s_tx_pipe s) ((s_peers s)(p := ?q))"
    "quiet L pl H' (s_tx_pipe s) ((s_peers s)(p := ?q))"
    using invD(11) [OF i] by (auto simp: quiet_def)
  moreover have "h \<in> X \<longleftrightarrow> h \<in> X'" if "h \<noteq> p" for h using x that by blast
  ultimately show ?thesis using i w by (auto simp: sinv_def)
qed

lemma sinv_move_upd:
  assumes "sinv (g, {}) fr pl H X s" "p \<in> set pl"
    "mset H + mset (peer_frames (s_peers s p)) = mset H' + mset (peer_frames (u (s_peers s p)))"
    "\<And>f. f \<in> set H' \<union> set (um_frames (u (s_peers s p)))
      \<Longrightarrow> f \<in> set H \<union> set (um_frames (s_peers s p)) \<or> f \<notin> set (s_tx_pipe s)"
    "if p \<in> X' then win_zero fr (u (s_peers s p)) else win_ok fr (fp_heap (s_pool s)) (u (s_peers s p))"
    "X - {p} = X' - {p}"
  shows "sinv (g, {}) fr pl H' X' (upd_peer p u s)"
  by (rule sinv_move [where u = u, OF assms(1,2,3) _ _ assms(5,6)]) (use assms(4) in blast)+

text \<open>The pool operations do not look at the peers.\<close>

lemma release_upd_peer:
  "exec (hdlcReleaseFrame f) (upd_peer p u s) = upd_peer p u (exec (hdlcReleaseFrame f) s)"
  by (cases "release_frame f (s_pool s)")
    (auto simp: hdlcReleaseFrame_def upd_peer_def set_pool_def faultM_def)

lemma release_peers: "s_peers (exec (hdlcReleaseFrame f) s) = s_peers s"
  by (cases "release_frame f (s_pool s)") (auto simp: hdlcReleaseFrame_def set_pool_def faultM_def)

lemma release_then_upd:
  "exec (do { hdlcReleaseFrame f; updP p u }) s = exec (hdlcReleaseFrame f) (upd_peer p u s)"
  by (simp add: updP_def release_upd_peer)

definition pwin :: "framing \<Rightarrow> nat set \<Rightarrow> station \<Rightarrow> nat \<Rightarrow> peer \<Rightarrow> bool" where
  "pwin fr X s p q = (if p \<in> X then win_zero fr q else win_ok fr (fp_heap (s_pool s)) q)"

lemma pwin_irr:
  assumes "sinv G fr pl H X s" "p \<in> set pl"
    and "p_retrans_q q = p_retrans_q (s_peers s p)" "p_trans_q q = p_trans_q (s_peers s p)"
    "(p_ks q, p_vs q, p_vr q, p_nr q, p_vs_highest q, p_i_pending_count q)
      = (p_ks (s_peers s p), p_vs (s_peers s p), p_vr (s_peers s p), p_nr (s_peers s p),
         p_vs_highest (s_peers s p), p_i_pending_count (s_peers s p))"
  shows "if p \<in> X then win_zero fr q else win_ok fr (fp_heap (s_pool s)) q"
  using invD(7) [OF assms(1,2)] assms(3-) by (simp add: win_ok_def win_zero_def split: if_splits)

section \<open>Clean-up\<close>

lemma clear_um_frames_keeps:
  assumes p: "p \<in> set pl"
  shows "keeps (sinv ({}, {}) fr pl H X) (clearPeerUmFrames p)"
proof -
  have a: "sinv ({}, {}) fr pl H X (exec (do { hdlcReleaseFrame f; updP p (\<lambda>q. q\<lparr>p_um_api_frame := None\<rparr>) }) s)"
    if i: "sinv ({}, {}) fr pl H X s" and f: "p_um_api_frame (s_peers s p) = Some f" for s f
    unfolding release_then_upd
    by (rule release_sinv, rule sinv_move_upd [OF i p])
      (use f i p pwin_irr [OF i p] invD(11) [OF i] in \<open>auto simp: peer_frames_def um_frames_def quiet_def\<close>)
  have b: "sinv ({}, {}) fr pl H X (exec (do { hdlcReleaseFrame f; updP p (\<lambda>q. q\<lparr>p_um_rsp_frame := None\<rparr>) }) s)"
    if i: "sinv ({}, {}) fr pl H X s" and f: "p_um_rsp_frame (s_peers s p) = Some f" for s f
    unfolding release_then_upd
    by (rule release_sinv, rule sinv_move_upd [OF i p])
      (use f i p pwin_irr [OF i p] invD(11) [OF i] in \<open>auto simp: peer_frames_def um_frames_def quiet_def\<close>)
  show ?thesis
    unfolding keeps_ht clearPeerUmFrames_def
    apply (rule ht_getP, rule ht_bind [where R = "\<lambda>_. sinv ({}, {}) fr pl H X"], rule ht_option)
      apply (rule ht_ret, simp)
     apply (simp only: ht_exec, blast intro: a)
    apply (rule ht_getP, rule ht_option)
     apply (rule ht_ret, simp)
    apply (simp only: ht_exec, blast intro: b)
    done
qed

text \<open>
  Emptying a queue. The transmit queues are only emptied for a peer that has been reset.
\<close>

lemma get_set_q [simp]: "get_q q (set_q q xs r) = xs"
  by (cases q) simp_all

lemma mset_set_q:
  "get_q q r = f # rest \<Longrightarrow> add_mset f (mset (peer_frames (set_q q rest r))) = mset (peer_frames r)"
  by (cases q) (simp_all add: peer_frames_def)

lemma set_q_um [simp]: "um_frames (set_q q xs r) = um_frames r"
  by (cases q) (simp_all add: um_frames_def)

lemma set_q_win:
  "win_zero fr (set_q q xs r) = win_zero fr r" "win_ok fr hp (set_q ReceptQ xs r) = win_ok fr hp r"
  by (cases q) (simp_all add: win_zero_def win_ok_def)

lemma recept_win [simp]:
  "win_zero fr (r\<lparr>p_recept_q := xs\<rparr>) = win_zero fr r"
  "win_ok fr hp (r\<lparr>p_recept_q := xs\<rparr>) = win_ok fr hp r"
  by (simp_all add: win_zero_def win_ok_def)

lemma pop_sinv:
  assumes i: "sinv (g, {}) fr pl H X s" and p: "p \<in> set pl" and q: "get_q q (s_peers s p) = f # rest"
    and x: "q = ReceptQ \<or> p \<in> X" and np: "f \<notin> set (s_tx_pipe s) \<or> g = {}"
  shows "sinv (g, {f}) fr pl (f # H) X (upd_peer p (set_q q rest) s)"
proof -
  have o': "owners_ok g pl (f # H) (s_pool s) (s_tx_pipe s) ((s_peers s)(p := set_q q rest (s_peers s p)))"
    using owners_move [OF p invD(4) [OF i], of H "s_peers s" "f # H" "set_q q rest (s_peers s p)"]
      mset_set_q [OF q] invD(5) [OF i] by (simp add: ac_simps)
  have "quiet {f} pl (f # H) (s_tx_pipe s) ((s_peers s)(p := set_q q rest (s_peers s p)))"
    using invD(11) [OF i] p by (auto simp: quiet_def)
  with o' show ?thesis using i x invD(7) [OF i p]
    by (auto simp: sinv_def upd_peer_def set_q_win split: if_splits)
qed

lemma release_loud:
  assumes i: "sinv (g, {f}) fr pl (f # H) X s"
  shows "sinv (g, {}) fr pl H X (exec (hdlcReleaseFrame f) s)"
  using sinv_unloud [OF release_sinv [OF i]] owners_okD(2) [OF invD(5) [OF i]] by simp

lemma clear_loop_keeps:
  assumes p: "p \<in> set pl" and x: "q = ReceptQ \<or> p \<in> X"
  shows "keeps (sinv ({}, {}) fr pl H X) (clear_loop n p q)"
proof (induction n)
  case (Suc n)
  show ?case
    unfolding keeps_ht clear_loop.simps
  proof (rule ht_getP)
    fix fs
    show "ht (\<lambda>s. sinv ({}, {}) fr pl H X s \<and> get_q q (s_peers s p) = fs)
        (case fs of [] \<Rightarrow> ret () | f # rest \<Rightarrow> do {
           updP p (set_q q rest); hdlcReleaseFrame f; clear_loop n p q }) (\<lambda>_. sinv ({}, {}) fr pl H X)"
    proof (cases fs)
      case (Cons f rest)
      have "sinv ({}, {}) fr pl H X (exec (clear_loop n p q) (exec (hdlcReleaseFrame f) (upd_peer p (set_q q rest) s)))"
        if i: "sinv ({}, {}) fr pl H X s" and q: "get_q q (s_peers s p) = f # rest" for s
        using release_loud [OF pop_sinv [OF i p q x]] Suc.IH by (simp add: keeps_def)
      then show ?thesis by (simp add: Cons ht_exec updP_def)
    qed (simp add: ht_def)
  qed
qed (simp add: keeps_ret)

lemma clearFrameQ_keeps:
  assumes "p \<in> set pl" "q = ReceptQ \<or> p \<in> X"
  shows "keeps (sinv ({}, {}) fr pl H X) (clearFrameQ p q)"
  unfolding clearFrameQ_def by (intro keeps clear_loop_keeps assms)

lemma get_set_other: "q' \<noteq> q \<Longrightarrow> get_q q' (set_q q xs r) = get_q q' r"
  by (cases q; cases q') simp_all

lemma clear_loop_q:
  "get_q q (s_peers (exec (clear_loop n p q) s) p) = drop n (get_q q (s_peers s p))"
  "q' \<noteq> q \<Longrightarrow> get_q q' (s_peers (exec (clear_loop n p q) s) p) = get_q q' (s_peers s p)"
  by (induction n arbitrary: s)
    (auto simp: getP_def updP_def release_peers upd_peer_def get_set_other split: list.split)

lemma clearFrameQ_q:
  "get_q q (s_peers (exec (clearFrameQ p q) s) p) = []"
  "q' \<noteq> q \<Longrightarrow> get_q q' (s_peers (exec (clearFrameQ p q) s) p) = get_q q' (s_peers s p)"
  by (simp_all add: clearFrameQ_def getP_def clear_loop_q)

lemma win_ok_empty:
  "win_zero fr q \<Longrightarrow> p_retrans_q q = [] \<Longrightarrow> p_trans_q q = [] \<Longrightarrow> p_i_pending_count q = 0 \<Longrightarrow> win_ok fr hp q"
  by (simp add: win_ok_def win_zero_def modulus_def)

lemma clearTx_ht:
  assumes p: "p \<in> set pl"
  shows "ht (sinv ({}, {}) fr pl H (insert p X)) (clearPeerTxQueues p) (\<lambda>_. sinv ({}, {}) fr pl H (X - {p}))"
  unfolding ht_exec
proof (intro allI impI)
  fix s assume i: "sinv ({}, {}) fr pl H (insert p X) s"
  define t where "t = exec (clearFrameQ p TransQ) (exec (clearFrameQ p RetransQ) s)"
  have t: "sinv ({}, {}) fr pl H (insert p X) t"
    using i keepsD [OF clearFrameQ_keeps [OF p]] by (simp add: t_def)
  have e: "p_retrans_q (s_peers t p) = []" "p_trans_q (s_peers t p) = []"
    using clearFrameQ_q(1) [of TransQ p] clearFrameQ_q(1) [of RetransQ p]
      clearFrameQ_q(2) [of RetransQ TransQ p] by (simp_all add: t_def)
  have z: "win_zero fr (s_peers t p)" using invD(7) [OF t p] by simp
  have "sinv ({}, {}) fr pl H (X - {p}) (upd_peer p (\<lambda>q. q\<lparr>p_i_pending_count := 0\<rparr>) t)"
    by (rule sinv_move_upd [OF t p])
      (use e z invD(11) [OF t] p in \<open>auto simp: peer_frames_def um_frames_def win_zero_def intro!: win_ok_empty\<close>)
  then show "sinv ({}, {}) fr pl H (X - {p}) (exec (clearPeerTxQueues p) s)"
    by (simp add: clearPeerTxQueues_def updP_def t_def)
qed

lemma clearRx_keeps:
  assumes p: "p \<in> set pl"
  shows "keeps (sinv ({}, {}) fr pl H X) (clearPeerRxBuffered p)"
proof -
  have b: "sinv ({}, {}) fr pl H X (exec (do { hdlcReleaseFrame f; updP p (\<lambda>q. q\<lparr>p_partial_read_frame := None\<rparr>) }) s)"
    if i: "sinv ({}, {}) fr pl H X s" and f: "p_partial_read_frame (s_peers s p) = Some f" for s f
  proof -
    let ?s = "upd_peer p (\<lambda>q. q\<lparr>p_partial_read_frame := None\<rparr>) s"
    have "mset H + mset (peer_frames (s_peers s p))
        = mset (f # H) + mset (peer_frames (s_peers s p\<lparr>p_partial_read_frame := None\<rparr>))"
      by (simp add: peer_frames_def f)
    then have "owners_ok {} pl (f # H) (s_pool s) (s_tx_pipe s) (s_peers ?s)"
      using owners_move [OF p invD(4) [OF i], of H "s_peers s" "f # H"] invD(5) [OF i] by simp
    moreover have "quiet {f} pl (f # H) (s_tx_pipe s) (s_peers ?s)"
      using invD(11) [OF i] p by (auto simp: quiet_def um_frames_def)
    ultimately have "sinv ({}, {f}) fr pl (f # H) X ?s"
      using i pwin_irr [OF i p, of "s_peers s p\<lparr>p_partial_read_frame := None\<rparr>"] by (auto simp: sinv_def)
    then show ?thesis unfolding release_then_upd by (rule release_loud)
  qed
  have c: "keeps (sinv ({}, {}) fr pl H X) (do { updP p (\<lambda>q. q\<lparr>p_partial_read_offset := 0\<rparr>); clearFrameQ p ReceptQ })"
    using p by (intro keeps_bind keeps_updP_irr clearFrameQ_keeps) (simp_all add: pcore_def)
  show ?thesis
    unfolding keeps_ht clearPeerRxBuffered_def
    apply (rule ht_getP, rule ht_bind [where R = "\<lambda>_. sinv ({}, {}) fr pl H X"], rule ht_option)
      apply (rule ht_ret, simp)
     apply (simp only: ht_exec, blast intro: b)
    apply (rule ht_keeps [OF c])
    done
qed

text \<open>The reset zeroes the sequence variables; the queues are emptied by the callers.\<close>

lemma reset_ht:
  assumes p: "p \<in> set pl"
  shows "ht (sinv ({}, {}) fr pl H X) (resetPeerProtocolState p) (\<lambda>_. sinv ({}, {}) fr pl H (insert p X))"
proof -
  let ?g = "\<lambda>q. q\<lparr>p_nr := 0, p_vr := 0, p_vs := 0, p_vs_highest := 0, p_t3_expected_nr := 0,
       p_ss_state := p_ss_state q AND (IOHDLC_SS_ST_CONN OR IOHDLC_SS_TERM_ORDERLY
         OR IOHDLC_SS_TERM_ABORTED OR IOHDLC_SS_SENDING),
       p_poll_retry_count := 0, p_frmr_condition := False, p_um_rsp := 0,
       p_ui_tx_pending := False, p_ui_rx_pending := False\<rparr>"
  have u: "ht (sinv ({}, {}) fr pl H X) (updP p ?g) (\<lambda>_. sinv ({}, {}) fr pl H (insert p X))"
    unfolding updP_def
  proof (rule ht_modify)
    fix s assume i: "sinv ({}, {}) fr pl H X s"
    have "unat (p_ks (s_peers s p)) < modulus fr"
      using invD(7) [OF i p] by (auto simp: win_zero_def win_ok_def split: if_splits)
    then show "sinv ({}, {}) fr pl H (insert p X) (upd_peer p ?g s)"
      by (intro sinv_move_upd [OF i p]) (auto simp: peer_frames_def um_frames_def win_zero_def)
  qed
  show ?thesis unfolding resetPeerProtocolState_def
    by (rule ht_keeps_bind ht_bind [OF u] keeps ht_keeps clear_um_frames_keeps [OF p])+
qed

text \<open>Between the handlers nothing is in hand, no gate is held and no peer is half reset.\<close>

abbreviation stable :: "framing \<Rightarrow> nat list \<Rightarrow> nat list \<Rightarrow> station \<Rightarrow> bool" where
  "stable fr pl H \<equiv> sinv ({}, {}) fr pl H {}"

lemma reset_clear_ht:
  assumes p: "p \<in> set pl"
    and m: "\<And>x. ht (stable fr pl H) (m x) Q"
  shows "ht (sinv ({}, {}) fr pl H {p}) (do { x \<leftarrow> clearPeerTxQueues p; m x }) Q"
  by (rule ht_bind) (use clearTx_ht [OF p, of fr H "{}"] m in simp_all)

lemma closePeerOrderly_keeps: "p \<in> set pl \<Longrightarrow> keeps (stable fr pl H) (closePeerOrderly p)"
  unfolding keeps_ht closePeerOrderly_def
  by (intro ht_keeps_bind [OF keeps_getP] ht_bind [OF reset_ht] reset_clear_ht ht_keeps keeps)

lemma abortPeerLink_keeps: "p \<in> set pl \<Longrightarrow> keeps (stable fr pl H) (abortPeerLink p)"
  unfolding keeps_ht abortPeerLink_def
  by (intro ht_bind [OF reset_ht] reset_clear_ht ht_keeps keeps)

lemma handleTimeoutRetry_keeps: "p \<in> set pl \<Longrightarrow> keeps (stable fr pl H) (handleTimeoutRetry p)"
  unfolding handleTimeoutRetry_def
  by (intro keeps abortPeerLink_keeps keeps_updP_irr) (auto simp: pcore_def)

lemma resetPeerVars_keeps:
  assumes p: "p \<in> set pl"
  shows "keeps (stable fr pl H) (resetPeerVars p)"
proof -
  have a: "keeps (stable fr pl H) (whenM (has ss IOHDLC_SS_ST_CONN) (do {
       updP p (\<lambda>q. q\<lparr>p_stream_terminal_pending := p_stream_terminal_pending q OR IOHDLC_SS_TERM_ABORTED\<rparr>);
       whenM (has ss IOHDLC_SS_SENDING)
         (updP p (\<lambda>q. q\<lparr>p_stream_terminal_pending :=
            p_stream_terminal_pending q OR IOHDLC_STREAM_TX_RESET_PENDING\<rparr>));
       condvar_rx p;
       condvar_tx p }))" for ss
    by (intro keeps keeps_updP_irr) (simp_all add: pcore_def)
  have u: "keeps (sinv ({}, {}) fr pl H {p}) (updP p (\<lambda>q. q\<lparr>p_ss_state := 0\<rparr>))"
    by (intro keeps_updP_irr) (simp add: pcore_def)
  show ?thesis unfolding keeps_ht resetPeerVars_def
    by (rule ht_keeps_bind [OF keeps_getP] ht_keeps_bind [OF a] ht_bind [OF reset_ht [OF p]]
        ht_keeps_bind [OF u] reset_clear_ht [OF p] ht_keeps clearRx_keeps [OF p])+
qed

section \<open>Choosing a peer\<close>

lemma peer_succ_mem: "p \<in> set ps \<Longrightarrow> peer_succ ps p \<in> set ps"
proof -
  assume "p \<in> set ps"
  then have "hd ps \<in> set ps" by (cases ps) auto
  moreover have "set (dropWhile (\<lambda>x. x \<noteq> p) ps) \<subseteq> set ps" by (rule set_dropWhileD [THEN subsetI])
  ultimately show ?thesis
    by (auto simp: peer_succ_def split: list.split)
qed

lemma next_loop_ht:
  "c \<in> set pl \<Longrightarrow> ht (stable fr pl H) (next_loop n b st c)
    (\<lambda>r s. stable fr pl H s \<and> (\<exists>x. r = Some x \<and> x \<in> set pl))"
proof (induction n arbitrary: c)
  case (Suc n)
  show ?case
  proof (rule htI)
    fix s assume i: "stable fr pl H s"
    let ?c = "peer_succ pl c"
    have c: "?c \<in> set pl" by (rule peer_succ_mem [OF Suc.prems])
    have "stable fr pl H (s\<lparr>s_c_peer := Some ?c\<rparr>)" using i c by (auto simp: sinv_def)
    then have "wp (next_loop n b st ?c) (\<lambda>r s. stable fr pl H s \<and> (\<exists>x. r = Some x \<and> x \<in> set pl))
        (s\<lparr>s_c_peer := Some ?c\<rparr>)"
      using htD [OF Suc.IH [OF c]] by blast
    with c \<open>stable fr pl H (s\<lparr>s_c_peer := Some ?c\<rparr>)\<close>
    show "wp (next_loop (Suc n) b st c) (\<lambda>r s. stable fr pl H s \<and> (\<exists>x. r = Some x \<and> x \<in> set pl)) s"
      using invD(2) [OF i] by (simp add: Let_def getP_def)
  qed
qed (simp add: ht_def)

lemma ioHdlcNextPeer_ht:
  "ht (stable fr pl H) (ioHdlcNextPeer b)
    (\<lambda>r s. stable fr pl H s \<and> (pl \<noteq> [] \<longrightarrow> (\<exists>x. r = Some x \<and> x \<in> set pl)) \<and> (pl = [] \<longrightarrow> r = None))"
proof (rule htI)
  fix s assume i: "stable fr pl H s"
  show "wp (ioHdlcNextPeer b) (\<lambda>r s. stable fr pl H s \<and> (pl \<noteq> [] \<longrightarrow> (\<exists>x. r = Some x \<and> x \<in> set pl))
      \<and> (pl = [] \<longrightarrow> r = None)) s"
  proof (cases "pl = []")
    case False
    with invD(10) [OF i] obtain c where c: "s_c_peer s = Some c" by auto
    have "c \<in> set pl" by (rule invD(8) [OF i c])
    from htD [OF next_loop_ht [OF this] i] show ?thesis
      using False invD(2) [OF i] c by (simp add: ioHdlcNextPeer_def)
  qed (use i invD(2) [OF i] in \<open>simp add: ioHdlcNextPeer_def\<close>)
qed

lemma ioHdlcNextPeer_keeps: "keeps (stable fr pl H) (ioHdlcNextPeer b)"
  unfolding keeps_ht by (rule ht_post [OF ioHdlcNextPeer_ht]) simp

end
