(* ===== verification/Hdlc_InvRx.thy ===== *)
theory Hdlc_InvRx
  imports Hdlc_InvOps
begin

text \<open>
  The receive side preserves the station invariant: acknowledgment, checkpoint and REJ recovery
  keep the send window consistent, and every handler disposes of the received frame exactly once.
\<close>

section \<open>Sequence arithmetic\<close>

lemma modulus_cases: "framing_ok fr \<Longrightarrow> modulus fr = 8 \<or> modulus fr = 128"
  by (erule framing_cases) (simp_all add: modulus_def)

lemma modulus_pos [simp]: "0 < modulus fr"
  by (simp add: modulus_def)

lemma unat_and_mm: "framing_ok fr \<Longrightarrow> unat (x AND modmask fr) = unat x mod modulus fr"
proof -
  assume f: "framing_ok fr"
  have "unat (take_bit (nw fr) x) = take_bit (nw fr) (unat x)"
    by (rule unsigned_take_bit_eq)
  with f show ?thesis
    by (simp add: modmask_mask modulus_def take_bit_eq_mask [symmetric] take_bit_nat_def)
qed

lemma unat_inc_mm:
  assumes "framing_ok fr" "unat x < modulus fr"
  shows "unat ((x + 1) AND modmask fr) = Suc (unat x) mod modulus fr"
proof -
  have "unat (x + 1) = unat x + 1"
    using assms modulus_cases [OF assms(1)] by (auto simp: unat_word_ariths)
  with assms(1) show ?thesis by (simp add: unat_and_mm)
qed

lemma unat_diff_mm:
  assumes "framing_ok fr" "unat x < modulus fr" "unat y < modulus fr"
  shows "unat ((x - y) AND modmask fr) = (unat x + modulus fr - unat y) mod modulus fr"
proof -
  have "unat (x - y) mod modulus fr = (unat x + modulus fr - unat y) mod modulus fr"
  proof (cases "unat y \<le> unat x")
    case True
    then have "unat x + modulus fr - unat y = (unat x - unat y) + modulus fr" by simp
    with True show ?thesis by (simp only: unat_sub_if_size if_True mod_add_self2)
  next
    case False
    from modulus_cases [OF assms(1)] obtain k where k: "(2 :: nat) ^ 32 = modulus fr + modulus fr * k"
      by (elim disjE) (erule_tac x = "536870911" in meta_allE, simp, erule_tac x = "33554431" in meta_allE, simp)
    have "unat (x - y) = unat x + 2 ^ 32 - unat y"
      using False by (simp add: unat_sub_if_size word_size)
    also have "\<dots> = (unat x + modulus fr - unat y) + modulus fr * k"
      using False assms(2,3) unfolding k by simp
    finally show ?thesis by simp
  qed
  then show ?thesis using assms(1) by (simp add: unat_and_mm)
qed

section \<open>Acknowledgment\<close>

lemma release_proj:
  "s_framing (exec (hdlcReleaseFrame f) s) = s_framing s"
  "f_bytes (frame_of (exec (hdlcReleaseFrame f) s) h) = f_bytes (frame_of s h)"
proof -
  show "s_framing (exec (hdlcReleaseFrame f) s) = s_framing s"
    by (cases "release_frame f (s_pool s)") (auto simp: hdlcReleaseFrame_def set_pool_def faultM_def)
  show "f_bytes (frame_of (exec (hdlcReleaseFrame f) s) h) = f_bytes (frame_of s h)"
    using release_heap by (cases "release_frame f (s_pool s)")
      (auto simp: hdlcReleaseFrame_def set_pool_def faultM_def frame_of_def)
qed

definition ack_upd :: "u32 \<Rightarrow> u32 \<Rightarrow> peer \<Rightarrow> peer" where
  "ack_upd mm acked_ns q =
     (let q1 = q\<lparr>p_retrans_q := tl (p_retrans_q q), p_i_pending_count := p_i_pending_count q - 1,
        p_nr := (p_nr q + 1) AND mm\<rparr>
      in if acked_ns = p_vs_atlast_pf q1
         then q1\<lparr>p_vs_atlast_pf := (p_vs_atlast_pf q1 + 1) AND mm\<rparr> else q1)"

lemma win_ok_irr [simp]:
  "win_ok fr hp (q\<lparr>p_vs_atlast_pf := a\<rparr>) = win_ok fr hp q"
  "win_ok fr hp (q\<lparr>p_chkpt_actioned := a\<rparr>) = win_ok fr hp q"
  by (simp_all add: win_ok_def)

lemma mod3: "(a mod m + b + c) mod m = (a + b + c) mod m" for a b c m :: nat
  using mod_add_left_eq [of a m "b + c"] by (simp add: add.assoc)

lemma seqd_tl: "seqd fr hp n (f # fs) \<Longrightarrow> seqd fr hp (Suc n) fs"
  by simp

lemma win_ok_ack:
  assumes w: "win_ok fr hp q" and f: "framing_ok fr" and r: "p_retrans_q q \<noteq> []"
  shows "win_ok fr hp (ack_upd (modmask fr) a q)"
proof -
  from r obtain h rest where q: "p_retrans_q q = h # rest" by (cases "p_retrans_q q") auto
  from w obtain us ws where u: "p_trans_q q = us @ ws"
    "seqd fr hp (unat (p_nr q)) (p_retrans_q q @ us)"
    "\<forall>f \<in> set ws. f_tx_ctrl_len (hp f) \<noteq> ctrl_size fr"
    "unat (p_vs q) = (unat (p_nr q) + length (p_retrans_q q)) mod modulus fr"
    "unat (p_vs_highest q) = (unat (p_nr q) + length (p_retrans_q q) + length us) mod modulus fr"
    "length (p_retrans_q q) + length us \<le> unat (p_ks q)"
    "unat (p_ks q) < modulus fr" "unat (p_nr q) < modulus fr" "unat (p_vr q) < modulus fr"
    "p_i_pending_count q = word_of_nat (length (p_trans_q q) + length (p_retrans_q q))"
    unfolding win_ok_def by blast
  have n: "unat ((p_nr q + 1) AND modmask fr) = Suc (unat (p_nr q)) mod modulus fr"
    using unat_inc_mm [OF f] u(8) .
  have s: "seqd fr hp (Suc (unat (p_nr q)) mod modulus fr) (rest @ us)"
    using u(2) q seqd_mod [of "Suc (unat (p_nr q)) mod modulus fr" fr "Suc (unat (p_nr q))"] by simp
  have c: "p_i_pending_count q - 1 = word_of_nat (length us + length ws + length rest)"
    unfolding u(10) by (simp add: q u(1))
  have "win_ok fr hp (q\<lparr>p_retrans_q := rest, p_i_pending_count := p_i_pending_count q - 1,
      p_nr := (p_nr q + 1) AND modmask fr\<rparr>)"
    unfolding win_ok_def using u(1-9) s n c q
    by (rule_tac exI [of _ us], rule_tac exI [of _ ws]) (simp add: mod_simps mod3 del: of_nat_add)
  then show ?thesis by (simp add: ack_upd_def Let_def q)
qed

text \<open>One round of the acknowledgment loop is one update of the peer and one release.\<close>

lemma processNR_step:
  assumes "p_retrans_q (s_peers s p) = f # rest" "p_nr (s_peers s p) \<noteq> nr"
  shows "exec (processNR_loop (Suc n) p nr) s = exec (processNR_loop n p nr)
     (exec (hdlcReleaseFrame f) (upd_peer p
       (ack_upd (modmask (s_framing s)) (extractNS (s_framing s) (f_bytes (frame_of s f)))) s))"
    "result (processNR_loop (Suc n) p nr) s = True"
proof -
  have e: "upd_peer p g3 (upd_peer p g2 (exec (hdlcReleaseFrame f) (upd_peer p g1 s)))
      = exec (hdlcReleaseFrame f) (upd_peer p (\<lambda>q. g3 (g2 (g1 q))) s)" for g1 g2 g3
    unfolding release_upd_peer [symmetric] by (simp add: upd_peer_def)
  have u: "upd_peer p (\<lambda>q. (\<lambda>q. if a = p_vs_atlast_pf q then q\<lparr>p_vs_atlast_pf := (p_vs_atlast_pf q + 1) AND mm\<rparr> else q)
      (q\<lparr>p_retrans_q := rest, p_i_pending_count := p_i_pending_count q - 1, p_nr := (p_nr q + 1) AND mm\<rparr>)) s
      = upd_peer p (ack_upd mm a) s" for a mm
    using assms(1) by (simp add: upd_peer_def ack_upd_def Let_def)
  show "exec (processNR_loop (Suc n) p nr) s = exec (processNR_loop n p nr)
     (exec (hdlcReleaseFrame f) (upd_peer p
       (ack_upd (modmask (s_framing s)) (extractNS (s_framing s) (f_bytes (frame_of s f)))) s))"
    using assms e [of _ "\<lambda>q. q\<lparr>p_i_pending_count := p_i_pending_count q - 1,
      p_nr := (p_nr q + 1) AND modmask (s_framing s)\<rparr>" "\<lambda>q. q\<lparr>p_retrans_q := rest\<rparr>"] u
    by (simp add: getP_def updP_def release_proj cong: if_cong)
  show "result (processNR_loop (Suc n) p nr) s = True"
    using assms by (simp add: getP_def updP_def)
qed

lemma ack_upd_frames:
  "p_retrans_q q = f # rest \<Longrightarrow> add_mset f (mset (peer_frames (ack_upd mm a q))) = mset (peer_frames q)"
  "um_frames (ack_upd mm a q) = um_frames q"
  by (simp_all add: ack_upd_def Let_def peer_frames_def um_frames_def)

lemma processNR_loop_keeps:
  assumes p: "p \<in> set pl"
  shows "keeps (stable fr pl H) (processNR_loop n p nr)"
proof (induction n)
  case (Suc n)
  show ?case unfolding keeps_def
  proof (intro allI impI)
    fix s assume i: "stable fr pl H s"
    show "stable fr pl H (exec (processNR_loop (Suc n) p nr) s)"
    proof (cases "p_retrans_q (s_peers s p) = [] \<or> p_nr (s_peers s p) = nr")
      case True
      then show ?thesis using i by (auto simp: getP_def split: list.split)
    next
      case False
      then obtain f rest where q: "p_retrans_q (s_peers s p) = f # rest" "p_nr (s_peers s p) \<noteq> nr"
        by (cases "p_retrans_q (s_peers s p)") auto
      let ?u = "ack_upd (modmask (s_framing s)) (extractNS (s_framing s) (f_bytes (frame_of s f)))"
      have w: "win_ok fr (fp_heap (s_pool s)) (?u (s_peers s p))"
        using win_ok_ack invD(7) [OF i p] invD(1,3) [OF i] q by simp
      have "sinv ({}, {f}) fr pl (f # H) {} (upd_peer p ?u s)"
        by (rule sinv_move [OF i p])
          (use w ack_upd_frames(1) [OF q(1)] in \<open>auto simp: ack_upd_frames(2)\<close>)
      from keepsD [OF Suc.IH release_loud [OF this]] show ?thesis
        by (simp only: processNR_step(1) [OF q])
    qed
  qed
qed (simp add: keeps_ret)

lemma processNR_keeps: "p \<in> set pl \<Longrightarrow> keeps (stable fr pl H) (processNR p nr)"
  unfolding processNR_def by (intro keeps processNR_loop_keeps)

section \<open>Go-back-N\<close>

lemma extractNS_lt: "unat (extractNS fr bs) < 128"
proof -
  have "(x AND 0x7F) = take_bit 7 x" "(x AND 7) = take_bit 3 x" for x :: u8
    by (simp_all add: take_bit_eq_mask mask_eq_decr_exp)
  then show ?thesis
    using unsigned_take_bit_eq
    by (auto simp: extractNS_def unsigned_ucast_eq unsigned_take_bit_eq take_bit_nat_def)
qed

lemma extractNS_inc: "extractNS fr bs + 1 \<noteq> 0"
proof
  assume "extractNS fr bs + 1 = 0"
  then have "extractNS fr bs = - 1" by (simp add: eq_neg_iff_add_eq_0)
  with extractNS_lt [of fr bs] show False by (simp add: unsigned_minus_1_eq_mask mask_eq_exp_minus_1)
qed

lemma chkpt_scan_keep: "fst0 \<noteq> 0 \<Longrightarrow> chkpt_scan ns pf fst0 fs = fst0"
  by (induction fs) auto

text \<open>The scan finds the first outstanding frame, or nothing.\<close>

lemma chkpt_scan_first:
  assumes "ns f + 1 \<noteq> 0"
  shows "chkpt_scan ns pf 0 (f # fs) = (if ns f = pf then 0 else ns f + 1)"
  using assms by (simp add: chkpt_scan_keep)

text \<open>Putting all outstanding frames back and V(S) on the first of them keeps the window.\<close>

lemma win_ok_goback:
  assumes w: "win_ok fr hp q" and r: "p_retrans_q q = f # rest"
    and v: "v = extractNS fr (f_bytes (hp f))"
  shows "win_ok fr hp (q\<lparr>p_trans_q := p_retrans_q q @ p_trans_q q, p_retrans_q := [], p_vs := v\<rparr>)"
proof -
  from w obtain us ws where u: "p_trans_q q = us @ ws"
    "seqd fr hp (unat (p_nr q)) (p_retrans_q q @ us)"
    "\<forall>f \<in> set ws. f_tx_ctrl_len (hp f) \<noteq> ctrl_size fr"
    "unat (p_vs_highest q) = (unat (p_nr q) + length (p_retrans_q q) + length us) mod modulus fr"
    "length (p_retrans_q q) + length us \<le> unat (p_ks q)"
    "unat (p_ks q) < modulus fr" "unat (p_nr q) < modulus fr" "unat (p_vr q) < modulus fr"
    "p_i_pending_count q = word_of_nat (length (p_trans_q q) + length (p_retrans_q q))"
    unfolding win_ok_def by blast
  have "unat v = unat (p_nr q) mod modulus fr" using u(2) by (simp add: r v numbered_def)
  then show ?thesis
    unfolding win_ok_def using u
    by (rule_tac exI [of _ "p_retrans_q q @ us"], rule_tac exI [of _ ws])
      (simp add: add.assoc add.left_commute add.commute)
qed

lemma goback_sinv:
  assumes i: "stable fr pl H s" and p: "p \<in> set pl" and r: "p_retrans_q (s_peers s p) = f # rest"
    and v: "v = extractNS fr (f_bytes (frame_of s f))"
  shows "stable fr pl H (upd_peer p (\<lambda>q. q\<lparr>p_trans_q := p_retrans_q q @ p_trans_q q, p_retrans_q := [], p_vs := v\<rparr>) s)"
proof (rule sinv_move_upd [OF i p])
  show "if p \<in> {} then win_zero fr (s_peers s p\<lparr>p_trans_q := p_retrans_q (s_peers s p) @ p_trans_q (s_peers s p),
      p_retrans_q := [], p_vs := v\<rparr>)
    else win_ok fr (fp_heap (s_pool s)) (s_peers s p\<lparr>p_trans_q := p_retrans_q (s_peers s p) @ p_trans_q (s_peers s p),
      p_retrans_q := [], p_vs := v\<rparr>)"
    using win_ok_goback [OF _ r, of fr "fp_heap (s_pool s)" v] invD(7) [OF i p] v by (simp add: frame_of_def)
qed (auto simp: peer_frames_def um_frames_def)

lemma pcore_vs: "pcore (q\<lparr>p_chkpt_actioned := a\<rparr>) = pcore q" "pcore (q\<lparr>p_vs_atlast_pf := a\<rparr>) = pcore q"
  by (simp_all add: pcore_def)

lemma upd_order:
  "q\<lparr>p_chkpt_actioned := a, p_vs := b\<rparr> = q\<lparr>p_vs := b, p_chkpt_actioned := a\<rparr>"
  "q\<lparr>p_vs_atlast_pf := a, p_vs := b\<rparr> = q\<lparr>p_vs := b, p_vs_atlast_pf := a\<rparr>" for q :: peer
  by simp_all

lemma checkpointRetransmit_keeps:
  assumes p: "p \<in> set pl"
  shows "keeps (stable fr pl H) (checkpointRetransmit p)"
  unfolding keeps_def
proof (intro allI impI)
  fix s assume i: "stable fr pl H s"
  show "stable fr pl H (exec (checkpointRetransmit p) s)"
  proof (cases "p_retrans_q (s_peers s p)")
    case Nil
    then show ?thesis using i by (simp add: checkpointRetransmit_def getP_def)
  next
    case (Cons f rest)
    let ?ns = "\<lambda>f. extractNS fr (f_bytes (frame_of s f))"
    define a where "a = p_vs_atlast_pf (s_peers s p)"
    have n0: "?ns f + 1 \<noteq> 0" by (rule extractNS_inc)
    have fr: "s_framing s = fr" by (rule invD(1) [OF i])
    show ?thesis
    proof (cases "?ns f = a")
      case True
      then show ?thesis using i Cons n0
        by (simp add: checkpointRetransmit_def getP_def fr a_def chkpt_scan_first)
    next
      case False
      have s: "chkpt_scan ?ns a 0 (f # rest) = ?ns f + 1"
        using chkpt_scan_first [of ?ns f a rest] n0 False by simp
      have e: "exec (checkpointRetransmit p) s = upd_peer p (\<lambda>q. q\<lparr>p_chkpt_actioned := ?ns f + 1\<rparr>)
          (upd_peer p (\<lambda>q. q\<lparr>p_trans_q := p_retrans_q q @ p_trans_q q, p_retrans_q := [], p_vs := ?ns f\<rparr>) s)"
        using s n0 Cons by (simp add: checkpointRetransmit_def getP_def updP_def fr a_def [symmetric] upd_peer_def upd_order del: chkpt_scan.simps)
      show ?thesis unfolding e
        using goback_sinv [OF i p Cons refl] by (simp only: inv_updP_irr [OF pcore_vs(1)])
    qed
  qed
qed

lemma handleSFrame_rej_keeps:
  assumes p: "p \<in> set pl"
  shows "keeps (stable fr pl H) (handleSFrame_rej p)"
  unfolding keeps_def
proof (intro allI impI)
  fix s assume i: "stable fr pl H s"
  have fr: "s_framing s = fr" by (rule invD(1) [OF i])
  show "stable fr pl H (exec (handleSFrame_rej p) s)"
  proof (cases "p_chkpt_actioned (s_peers s p) = 0")
    case False
    then show ?thesis using i
      by (simp add: handleSFrame_rej_def getP_def updP_def inv_updP_irr pcore_def)
  next
    case True
    show ?thesis
    proof (cases "p_retrans_q (s_peers s p)")
      case Nil
      then show ?thesis using i True by (simp add: handleSFrame_rej_def getP_def)
    next
      case (Cons f rest)
      let ?ns = "extractNS fr (f_bytes (frame_of s f))"
      have e: "exec (handleSFrame_rej p) s = upd_peer p (\<lambda>q. q\<lparr>p_vs_atlast_pf := ?ns\<rparr>)
          (upd_peer p (\<lambda>q. q\<lparr>p_trans_q := p_retrans_q q @ p_trans_q q, p_retrans_q := [], p_vs := ?ns\<rparr>) s)"
        using True by (simp add: handleSFrame_rej_def getP_def updP_def fr Cons upd_peer_def upd_order)
      show ?thesis unfolding e
        using goback_sinv [OF i p Cons refl] by (simp only: inv_updP_irr [OF pcore_vs(2)])
    qed
  qed
qed

lemma handleSFrame_keeps: "p \<in> set pl \<Longrightarrow> keeps (stable fr pl H) (handleSFrame p f pf)"
  unfolding handleSFrame_def by (intro keeps handleSFrame_rej_keeps)

lemma handleCheckpointAndAck_keeps:
  "p \<in> set pl \<Longrightarrow> keeps (stable fr pl H) (handleCheckpointAndAck p nr pf c)"
  unfolding handleCheckpointAndAck_def
  by (intro keeps processNR_keeps checkpointRetransmit_keeps keeps_updP_irr) (simp_all add: pcore_def)

section \<open>I-frames\<close>

lemma ht_modmask:
  "ht (sinv G fr pl H X) (g (modmask fr)) Q
    \<Longrightarrow> ht (sinv G fr pl H X) (gets (\<lambda>s. modmask (s_framing s)) \<bind> g) Q"
  by (auto simp: ht_def dest: invD(1))

lemma vr_keeps:
  assumes p: "p \<in> set pl"
  shows "keeps (stable fr pl H) (updP p (\<lambda>q. q\<lparr>p_vr := (p_vr q + 1) AND modmask fr\<rparr>))"
  unfolding updP_def
proof (rule keeps_modify)
  fix s assume i: "stable fr pl H s"
  have f: "framing_ok fr" by (rule invD(3) [OF i])
  have w: "win_ok fr (fp_heap (s_pool s)) (s_peers s p)" using invD(7) [OF i p] by simp
  then have "unat (p_vr (s_peers s p)) < modulus fr" by (auto simp: win_ok_def)
  from unat_inc_mm [OF f this]
  have "unat ((p_vr (s_peers s p) + 1) AND modmask fr) < modulus fr" by simp
  with w have "win_ok fr (fp_heap (s_pool s)) (s_peers s p\<lparr>p_vr := (p_vr (s_peers s p) + 1) AND modmask fr\<rparr>)"
    unfolding win_ok_def by simp blast
  then show "stable fr pl H (upd_peer p (\<lambda>q. q\<lparr>p_vr := (p_vr q + 1) AND modmask fr\<rparr>) s)"
    by (intro sinv_move_upd [OF i p]) (auto simp: peer_frames_def um_frames_def)
qed

lemma deliver_ht:
  assumes p: "p \<in> set pl"
  shows "ht (stable fr pl (f # H)) (s_peer_raw_rx_deliver p f) (\<lambda>r s. r \<and> stable fr pl H s)"
proof -
  have u: "ht (stable fr pl (f # H)) (updP p (\<lambda>q. q\<lparr>p_recept_q := p_recept_q q @ [f]\<rparr>)) (\<lambda>_. stable fr pl H)"
    unfolding updP_def
  proof (rule ht_modify)
    fix s assume i: "stable fr pl (f # H) s"
    show "stable fr pl H (upd_peer p (\<lambda>q. q\<lparr>p_recept_q := p_recept_q q @ [f]\<rparr>) s)"
      by (rule sinv_move_upd [OF i p])
        (use invD(7) [OF i p] in \<open>auto simp: peer_frames_def um_frames_def ac_simps\<close>)
  qed
  show ?thesis unfolding s_peer_raw_rx_deliver_def
    by (rule ht_bind [OF u], rule ht_keeps_bind, rule keeps, rule ht_ret) simp
qed

lemma handleIFrame_ht:
  assumes p: "p \<in> set pl"
  shows "ht (stable fr pl (f # H)) (handleIFrame p f pf) (\<lambda>r. stable fr pl (if fst r then H else f # H))"
  unfolding handleIFrame_def
  apply (rule ht_keeps_bind, rule keeps, rule ht_keeps_bind, rule keeps, rule ht_if)
   apply (intro ht_keeps_bind ht_if ht_ret keeps keeps_updP_irr; simp add: pcore_def)
  apply (rule ht_bind [OF deliver_ht [OF p]], rule ht_if)
   apply (simp add: ht_def)
  apply (rule ht_pre [where P = "stable fr pl H"])
   apply (rule ht_keeps_bind, intro keeps_updP_irr, simp add: pcore_def)
   apply (rule ht_keeps_bind, rule keeps, rule ht_keeps_bind, intro keeps)
   apply (rule ht_keeps_bind, rule keeps, rule ht_keeps_bind, intro keeps)
   apply (rule ht_modmask, rule ht_keeps_bind, rule vr_keeps [OF p], rule ht_ret)
   apply simp_all
  done

section \<open>Dispatch of I- and S-frames\<close>

lemma commonRx_body_ht:
  assumes p: "p \<in> set pl"
  shows "ht (stable fr pl (f # H)) (commonRx_body p f c pf ack) (\<lambda>r. stable fr pl (if r then H else f # H))"
proof -
  have i: "ht (stable fr pl (f # H)) (do {
        r \<leftarrow> handleIFrame p f pf;
        need \<leftarrow> gets (\<lambda>s. fst r \<and> IOHDLC_IS_NRM s \<and> IOHDLC_IS_PRI s);
        whenM need (IOHDLC_SET_NEED_P p);
        ret r }) (\<lambda>r. stable fr pl (if fst r then H else f # H))"
    by (rule ht_bind [OF handleIFrame_ht [OF p]], rule ht_keeps_bind, rule keeps, rule ht_keeps_bind, intro keeps, rule ht_ret)
  have s: "ht (stable fr pl (f # H)) (do { e \<leftarrow> handleSFrame p f pf; ret (False, e) })
      (\<lambda>r. stable fr pl (if fst r then H else f # H))"
    by (rule ht_keeps_bind [OF handleSFrame_keeps [OF p]], rule ht_ret) simp
  show ?thesis unfolding commonRx_body_def
    by (rule ht_keeps_bind, rule keeps, rule ht_bind, rule ht_if, rule i, rule s, rule ht_prod, rule ht_let,
        rule ht_keeps_bind, intro keeps, rule ht_keeps_bind, intro keeps, rule ht_ret, simp)
qed

lemma release_then_ht: "ht (stable fr pl (f # H)) (hdlcReleaseFrame f) (\<lambda>_. stable fr pl H)"
  by (rule release_ht)

lemma commonRx_ht:
  assumes p: "p \<in> set pl"
  shows "ht (stable fr pl (f # H)) (commonRx p f c) (\<lambda>_. stable fr pl H)"
proof -
  have t: "ht (stable fr pl (f # H)) (do {
       accepted \<leftarrow> commonRx_body p f c pf a;
       whenM (\<not> accepted) (hdlcReleaseFrame f) }) (\<lambda>_. stable fr pl H)" for pf a
    by (rule ht_bind [OF commonRx_body_ht [OF p]], rule ht_when, simp add: release_then_ht, simp)
  show ?thesis unfolding commonRx_def
    apply (rule ht_keeps_bind, rule keeps, rule ht_keeps_bind, rule keeps, rule ht_keeps_bind, rule keeps, rule ht_if)
     apply (rule ht_keeps_bind, intro keeps keeps_updP_irr, simp add: pcore_def, rule release_then_ht)
    apply (rule ht_keeps_bind [OF handleCheckpointAndAck_keeps [OF p]], rule ht_option)
     apply (intro ht_keeps_bind keeps release_then_ht)
    apply (rule t)
    done
qed

text \<open>The current peer of a station that has peers is one of them.\<close>

lemma ht_c_peer:
  assumes "\<And>p. p \<in> set pl \<Longrightarrow> ht (stable fr pl H) (g (Some p)) Q" "pl \<noteq> []"
  shows "ht (stable fr pl H) (gets s_c_peer \<bind> g) Q"
proof (rule htI)
  fix s assume i: "stable fr pl H s"
  with invD(10) [OF i] assms(2) obtain p where c: "s_c_peer s = Some p" by auto
  have "p \<in> set pl" by (rule invD(8) [OF i c])
  with htD [OF assms(1) i] c show "wp (gets s_c_peer \<bind> g) Q s" by simp
qed

lemma NrmRx_ht: "pl \<noteq> [] \<Longrightarrow> ht (stable fr pl (f # H)) (ioHdlcNrmRx f) (\<lambda>_. stable fr pl H)"
  unfolding ioHdlcNrmRx_def
  apply (rule ht_keeps_bind, rule keeps, rule ht_c_peer)
   apply (simp only: option.case)
   apply (rule ht_keeps_bind, rule keeps, rule ht_if, rule release_then_ht)
   apply (rule ht_keeps_bind, rule keeps, erule commonRx_ht)
  apply assumption
  done

lemma AbmRx_ht: "pl \<noteq> [] \<Longrightarrow> ht (stable fr pl (f # H)) (ioHdlcAbmRx f) (\<lambda>_. stable fr pl H)"
  unfolding ioHdlcAbmRx_def
  apply (rule ht_keeps_bind, rule keeps, rule ht_c_peer)
   apply (simp only: option.case)
   apply (rule ht_keeps_bind, rule keeps, rule ht_if, rule release_then_ht)
   apply (rule ht_keeps_bind, rule keeps, erule commonRx_ht)
  apply assumption
  done

section \<open>Unnumbered frames\<close>

lemma handleUFrame_UI_ht:
  "ht (stable fr pl (f # H)) (handleUFrame_UI p f) (\<lambda>_. stable fr pl H)"
  unfolding handleUFrame_UI_def
  by (rule ht_keeps_bind, rule keeps, rule ht_if, rule release_then_ht)
    (intro ht_keeps_bind keeps keeps_updP_irr release_then_ht; simp add: pcore_def)

lemma u_command_blocked_keeps: "keeps (sinv G fr pl H X) (u_command_blocked p u f)"
  unfolding u_command_blocked_def by (intro keeps keeps_updP_irr) (simp_all add: pcore_def)

text \<open>
  A TEST command is kept for the response. The pointer to a frame kept earlier is overwritten:
  \<open>rspf p g\<close> remembers it, and it is lost, which the post-conditions say by leaving it
  in hand.
\<close>

definition rspf :: "nat \<Rightarrow> nat option \<Rightarrow> station \<Rightarrow> bool" where
  "rspf p g s \<longleftrightarrow> p_um_rsp_frame (s_peers s p) = g"

lemma keeps_conj: "keeps I m \<Longrightarrow> keeps J m \<Longrightarrow> keeps (\<lambda>s. I s \<and> J s) m"
  by (simp add: keeps_def)

lemma rspf_keeps:
  "(\<And>q. p_um_rsp_frame (g q) = p_um_rsp_frame q) \<Longrightarrow> keeps (rspf p r) (updP p' g)"
  "(\<And>s. s_peers (h s) = s_peers s) \<Longrightarrow> keeps (rspf p r) (modify h)"
  by (simp_all add: keeps_def rspf_def updP_def)

lemma rsp_frame_ht:
  assumes p: "p \<in> set pl"
  shows "ht (\<lambda>s. stable fr pl (f # H) s \<and> rspf p g s)
    (updP p (\<lambda>q. q\<lparr>p_um_rsp := r, p_um_rsp_frame := Some f\<rparr>)) (\<lambda>_. stable fr pl (opt g @ H))"
  unfolding updP_def
proof (rule ht_modify, elim conjE)
  fix s assume i: "stable fr pl (f # H) s" and n: "rspf p g s"
  have w: "win_ok fr (fp_heap (s_pool s)) (s_peers s p)" using invD(7) [OF i p] by simp
  show "stable fr pl (opt g @ H) (upd_peer p (\<lambda>q. q\<lparr>p_um_rsp := r, p_um_rsp_frame := Some f\<rparr>) s)"
    by (rule sinv_move_upd [OF i p])
      (use n w in \<open>auto simp: peer_frames_def um_frames_def ac_simps win_ok_def rspf_def\<close>)
qed

lemma u_command_response_ht:
  assumes p: "p \<in> set pl"
  shows "ht (\<lambda>s. stable fr pl (f # H) s \<and> rspf p g s) (u_command_response p u f)
    (\<lambda>r. stable fr pl (if r then f # H else opt g @ H))"
proof -
  have a: "ht (\<lambda>s. stable fr pl (f # H) s \<and> rspf p g s) m Q" if "ht (stable fr pl (f # H)) m Q"
    for m :: "bool hdlc" and Q
    using that by (rule ht_pre) simp
  show ?thesis unfolding u_command_response_def
    apply (rule ht_let, rule ht_if)
     apply (rule a, intro ht_keeps_bind ht_ret keeps keeps_modify keeps_updP_irr resetPeerVars_keeps p;
        simp add: pcore_def)
    apply (rule ht_if)
     apply (rule a, intro ht_keeps_bind ht_ret keeps keeps_updP_irr; simp add: pcore_def)
    apply (rule ht_if)
     apply (rule ht_keeps_bind, rule keeps, rule ht_if)
      apply (rule ht_bind [OF rsp_frame_ht [OF p]], rule ht_ret, simp)
     apply (rule a, intro ht_keeps_bind ht_ret keeps keeps_updP_irr; simp add: pcore_def)
    apply (rule a, intro ht_keeps_bind ht_ret keeps keeps_updP_irr; simp add: pcore_def)
    done
qed

lemma handleUFrame_command_ht:
  assumes p: "p \<in> set pl"
  shows "ht (\<lambda>s. stable fr pl (f # H) s \<and> rspf p g s) (handleUFrame_command p u f)
    (\<lambda>_ s. stable fr pl H s \<or> stable fr pl (opt g @ H) s)"
proof -
  let ?I = "\<lambda>s. stable fr pl (f # H) s \<and> rspf p g s"
  let ?Q = "\<lambda>_ s. stable fr pl H s \<or> stable fr pl (opt g @ H) s"
  have r: "ht ?I (hdlcReleaseFrame f) ?Q"
    by (rule ht_pre [where P = "stable fr pl (f # H)"], rule ht_post [OF release_then_ht]) simp_all
  have b: "keeps ?I (u_command_blocked p u f)"
    by (rule keeps_conj [OF u_command_blocked_keeps])
      (unfold u_command_blocked_def um_clr_def, intro keeps rspf_keeps; simp)
  have c: "keeps ?I (whenM x (updP p (\<lambda>q. q\<lparr>p_um_cmd := u\<rparr>)))" for x
    by (rule keeps_conj; intro keeps keeps_updP_irr rspf_keeps; simp add: pcore_def)
  have d: "keeps ?I (whenM x (pf_set m))" for x m
    by (rule keeps_conj, intro keeps, unfold pf_set_def, intro keeps rspf_keeps; simp)
  have t: "ht (stable fr pl (if x then f # H else opt g @ H))
      (do { um_set p IOHDLC_UM_RCVED; ioHdlcBroadcastFlags IOHDLC_EVT_UM_RECVD;
        whenM x (hdlcReleaseFrame f) }) ?Q" for x
    by (rule ht_keeps_bind, intro keeps, rule ht_keeps_bind, intro keeps, rule ht_when,
        simp, rule ht_post [OF release_then_ht], simp_all)
  show ?thesis unfolding handleUFrame_command_def
    apply (rule ht_keeps_bind, rule keeps, rule ht_keeps_bind [OF b], rule ht_if, rule r)
    apply (rule ht_keeps_bind, rule keeps, rule ht_if, rule r)
    apply (rule ht_keeps_bind, rule keeps, rule ht_keeps_bind [OF c], rule ht_keeps_bind [OF d])
    apply (rule ht_bind [OF u_command_response_ht [OF p]], rule t)
    done
qed

text \<open>The answer to a TEST takes the place of the frame kept by the API, which is released.\<close>

lemma u_response_test_ht:
  assumes p: "p \<in> set pl"
  shows "ht (stable fr pl (f # H)) (u_response_test p f) (\<lambda>r. stable fr pl (if snd r then f # H else H))"
proof -
  let ?u = "\<lambda>q. q\<lparr>p_um_api_frame := Some f\<rparr>"
  have w: "win_ok fr (fp_heap (s_pool s)) (s_peers s p\<lparr>p_um_api_frame := Some f\<rparr>)"
    if "stable fr pl (f # H) s" for s using invD(7) [OF that p] by (simp add: win_ok_def)
  have n: "stable fr pl H (exec (updP p ?u) s)"
    if i: "stable fr pl (f # H) s" and a: "p_um_api_frame (s_peers s p) = None" for s
    unfolding updP_def run_simps
    by (rule sinv_move_upd [OF i p])
      (use a w [OF i] in \<open>auto simp: peer_frames_def um_frames_def\<close>)
  have y: "stable fr pl H (exec (do { hdlcReleaseFrame g; updP p ?u }) s)"
    if i: "stable fr pl (f # H) s" and a: "p_um_api_frame (s_peers s p) = Some g" for s g
    unfolding release_then_upd
    by (rule release_sinv, rule sinv_move_upd [OF i p])
      (use a w [OF i] in \<open>auto simp: peer_frames_def um_frames_def\<close>)
  have e: "exec (do { (case a of None \<Rightarrow> ret () | Some g \<Rightarrow> hdlcReleaseFrame g); updP p ?u }) s
      = (case a of None \<Rightarrow> exec (updP p ?u) s | Some g \<Rightarrow> exec (do { hdlcReleaseFrame g; updP p ?u }) s)" for a s
    by (cases a) simp_all
  have h: "ht (\<lambda>s. stable fr pl (f # H) s \<and> p_um_api_frame (s_peers s p) = a)
      (do { (case a of None \<Rightarrow> ret () | Some g \<Rightarrow> hdlcReleaseFrame g); updP p ?u }) (\<lambda>_. stable fr pl H)" for a
    unfolding ht_exec e using n y by (auto split: option.split)
  have r: "ht (stable fr pl H) (do { resetPeerUm p;
      ioHdlcBroadcastFlags (IOHDLC_EVT_PF_RECVD OR IOHDLC_EVT_TX_IFRM_ENQ);
      ioHdlcBroadcastFlagsApp IOHDLC_APP_INTERNAL_TEST_DONE; ret (True, False) })
      (\<lambda>r. stable fr pl (if snd r then f # H else H))"
    by (rule ht_keeps_bind, rule keeps)+ (rule ht_ret, simp)
  have g: "(do { (case a of None \<Rightarrow> ret () | Some g \<Rightarrow> hdlcReleaseFrame g); updP p ?u; m })
      = (do { (do { (case a of None \<Rightarrow> ret () | Some g \<Rightarrow> hdlcReleaseFrame g); updP p ?u }); m })"
    for a and m :: "(bool \<times> bool) hdlc"
    by simp
  show ?thesis unfolding u_response_test_def
    by (rule ht_getP, subst g, rule ht_bind [OF h], rule r)
qed

lemma u_response_ua_keeps: "p \<in> set pl \<Longrightarrow> keeps (stable fr pl H) (u_response_ua p)"
  unfolding u_response_ua_def by (intro keeps closePeerOrderly_keeps resetPeerVars_keeps)

lemma u_response_dm_keeps: "p \<in> set pl \<Longrightarrow> keeps (stable fr pl H) (u_response_dm p)"
  unfolding u_response_dm_def by (intro keeps closePeerOrderly_keeps)

lemma u_response_release:
  "wp (u_response_ua p) (\<lambda>r _. snd r) s" "wp (u_response_dm p) (\<lambda>r _. snd r) s"
  by (simp_all add: u_response_ua_def u_response_dm_def wp_def)

lemma ht_keeps_post: "keeps I m \<Longrightarrow> (\<And>s. wp m (\<lambda>r _. P r) s) \<Longrightarrow> (\<And>r s. P r \<Longrightarrow> I s \<Longrightarrow> Q r s) \<Longrightarrow> ht I m Q"
  by (simp add: keeps_def ht_def wp_def)

lemma handleUFrame_response_ht:
  assumes p: "p \<in> set pl"
  shows "ht (stable fr pl (f # H)) (handleUFrame_response p u f) (\<lambda>_. stable fr pl H)"
proof -
  let ?R = "\<lambda>r :: bool \<times> bool. stable fr pl (if snd r then f # H else H)"
  have b: "ht (stable fr pl (f # H))
     (if cmd = IOHDLC_U_TEST then u_response_test p f
      else if u = IOHDLC_U_UA then u_response_ua p
      else if u = IOHDLC_U_DM then u_response_dm p
      else if u = IOHDLC_U_FRMR then do {
        resetPeerUm p;
        ioHdlcBroadcastFlagsApp IOHDLC_APP_FRMR_RECEIVED;
        ret (False, True) }
      else ret (False, True)) ?R" for cmd
    apply (rule ht_if, rule u_response_test_ht [OF p])
    apply (rule ht_if, rule ht_keeps_post [OF u_response_ua_keeps [OF p] u_response_release(1)], simp)
    apply (rule ht_if, rule ht_keeps_post [OF u_response_dm_keeps [OF p] u_response_release(2)], simp)
    apply (rule ht_if, rule ht_keeps_bind, rule keeps, rule ht_keeps_bind, rule keeps, rule ht_ret, simp)
    apply (rule ht_ret, simp)
    done
  have t: "ht (?R (t3, rel)) (do {
       pf_set IOHDLC_F_RCVED;
       t3 \<leftarrow> gets (\<lambda>s. t3 \<and> IOHDLC_IS_NRM s \<and> IOHDLC_IS_PRI s \<and> \<not> IOHDLC_PEER_DISC (s_peers s p));
       tmo \<leftarrow> gets idlePollTimeoutMs;
       whenM t3 (ioHdlcStartReplyTimer p IOHDLC_TIMER_T3 tmo);
       um_clr p IOHDLC_UM_SENT;
       whenM rel (hdlcReleaseFrame f) }) (\<lambda>_. stable fr pl H)" for t3 rel
    by (rule ht_keeps_bind, intro keeps)+ (rule ht_when, simp add: release_then_ht, simp)
  show ?thesis unfolding handleUFrame_response_def
    apply (rule ht_keeps_bind, rule keeps, rule ht_keeps_bind, rule keeps, rule ht_if, rule release_then_ht)
    apply (rule ht_keeps_bind, rule keeps, rule ht_keeps_bind, rule keeps)
    apply (rule ht_bind [OF b], rule ht_prod, simp only: t)
    done
qed

text \<open>
  One received frame. Every frame is disposed of, except that the TEST command kept by the current
  peer may be overwritten by another one.
\<close>

definition kept_rsp :: "station \<Rightarrow> nat list" where
  "kept_rsp s = (case s_c_peer s of None \<Rightarrow> [] | Some p \<Rightarrow> opt (p_um_rsp_frame (s_peers s p)))"

lemma handleUFrame_ht:
  assumes pl: "pl \<noteq> []"
  shows "ht (\<lambda>s. stable fr pl (f # H) s \<and> kept_rsp s = K) (handleUFrame f)
    (\<lambda>_ s. stable fr pl H s \<or> stable fr pl (K @ H) s)"
proof (rule htI, elim conjE)
  let ?Q = "\<lambda>_ s. stable fr pl H s \<or> stable fr pl (K @ H) s"
  fix s assume i: "stable fr pl (f # H) s" and k: "kept_rsp s = K"
  from invD(10) [OF i pl] obtain p where c: "s_c_peer s = Some p" by auto
  have p: "p \<in> set pl" by (rule invD(8) [OF i c])
  have rel: "wp (hdlcReleaseFrame f) ?Q s"
    by (rule wp_mono [OF htD [OF release_then_ht i]]) simp
  have ui: "wp (handleUFrame_UI p f) ?Q s"
    by (rule wp_mono [OF htD [OF handleUFrame_UI_ht i]]) simp
  have cmd: "wp (handleUFrame_command p u f) ?Q s" for u
    using htD [OF handleUFrame_command_ht [OF p, of fr f H "p_um_rsp_frame (s_peers s p)" u]] i k c
    by (simp add: kept_rsp_def rspf_def)
  have rsp: "wp (handleUFrame_response p u f) ?Q s" for u
    by (rule wp_mono [OF htD [OF handleUFrame_response_ht [OF p] i]]) simp
  show "wp (handleUFrame f) ?Q s"
    using rel ui cmd rsp by (simp add: handleUFrame_def Let_def getP_def c)
qed

lemma keeps_kept:
  assumes "\<And>s. s_c_peer (h s) = s_c_peer s" "\<And>s. s_peers (h s) = s_peers s"
  shows "keeps (\<lambda>s. kept_rsp s = K) (modify h)"
  using assms by (simp add: keeps_def kept_rsp_def split: option.split)

lemma rx_round_ht:
  assumes pl: "pl \<noteq> []"
  shows "ht (\<lambda>s. stable fr pl (f # H) s \<and> kept_rsp s = K) (ioHdlcRxEntry_round (Some f))
    (\<lambda>_ s. stable fr pl H s \<or> stable fr pl (K @ H) s)"
proof -
  let ?Q = "\<lambda>_ s. stable fr pl H s \<or> stable fr pl (K @ H) s"
  have w: "ht (\<lambda>s. stable fr pl (f # H) s \<and> kept_rsp s = K) m ?Q"
    if "ht (stable fr pl (f # H)) m (\<lambda>_. stable fr pl H)" for m :: "unit hdlc"
    by (rule ht_pre [OF ht_post [OF that]]) simp_all
  show ?thesis
    unfolding ioHdlcRxEntry_round_def option.case
    apply (rule ht_keeps_bind, rule keeps_conj, rule keeps, unfold flags_clr_def, rule keeps_kept, simp, simp)
    apply (rule ht_keeps_bind, rule keeps, rule ht_if, rule handleUFrame_ht [OF pl])
    apply (rule ht_keeps_bind, rule keeps)
    subgoal for x ctrl h
      by (cases h) (simp_all add: w release_then_ht NrmRx_ht [OF pl] AbmRx_ht [OF pl])
    done
qed

lemma rx_idle_keeps: "keeps (stable fr pl H) (ioHdlcRxEntry_round None)"
  unfolding ioHdlcRxEntry_round_def option.case by (intro keeps)

end
