(* ===== verification/Hdlc_InvTx.thy ===== *)
theory Hdlc_InvTx
  imports Hdlc_InvRx
begin

text \<open>
  The transmit side preserves the station invariant: the header written into an I-frame continues
  the numbering of the outstanding frames, the window is never exceeded, and every supervisory or
  unnumbered frame that is built is given to the driver and released.
\<close>

section \<open>The I-frame header\<close>

lemma hdr_reset_NS:
  assumes f: "framing_ok fr" and r: "hdr_room fr (f_bytes fm)"
    and fresh: "f_tx_ctrl_len fm \<noteq> ctrl_size fr \<or> \<not> IOHDLC_IS_I_FRM (IOHDLC_FRAME_CTRL fr (f_bytes fm) 0)"
  shows "extractNS fr (f_bytes (hdr_reset fr (ctrl_size fr) v fm)) = v AND modmask fr"
    "IOHDLC_IS_I_FRM (IOHDLC_FRAME_CTRL fr (f_bytes (hdr_reset fr (ctrl_size fr) v fm)) 0)"
proof -
  let ?b0 = "(f_bytes fm)[ctrl_pos fr 0 := IOHDLC_I_ID]"
  let ?b = "if 1 < ctrl_size fr then ?b0[ctrl_pos fr 1 := 0] else ?b0"
  have e: "f_bytes (hdr_reset fr (ctrl_size fr) v fm) = setNSInCtrl fr (ctrl_pos fr 0) ?b v"
    using fresh by (simp add: hdr_reset_def Let_def)
  have rb: "hdr_room fr ?b" using r by (simp add: hdr_room_def)
  show "extractNS fr (f_bytes (hdr_reset fr (ctrl_size fr) v fm)) = v AND modmask fr"
    unfolding e by (rule extractNS_setNS [OF f rb])
  have "IOHDLC_FRAME_CTRL fr ?b 0 = IOHDLC_I_ID"
    using hdr_room_lt [OF r] by (simp add: IOHDLC_FRAME_CTRL_def)
  then show "IOHDLC_IS_I_FRM (IOHDLC_FRAME_CTRL fr (f_bytes (hdr_reset fr (ctrl_size fr) v fm)) 0)"
    unfolding e is_I_setters(1) [OF f] by (simp add: IOHDLC_IS_I_FRM_def ctrl_consts)
qed

lemma hdr_reset_len [simp]:
  "f_tx_ctrl_len (hdr_reset fr c v fm) = c"
  "length (f_bytes (hdr_reset fr c v fm)) = length (f_bytes fm)"
  "f_refs (hdr_reset fr c v fm) = f_refs fm" "f_gate_free (hdr_reset fr c v fm) = f_gate_free fm"
  by (simp_all add: hdr_reset_def Let_def)

lemma hdr_finish_proj [simp]:
  "f_tx_ctrl_len (hdr_finish fr a n pf fm) = f_tx_ctrl_len fm"
  "length (f_bytes (hdr_finish fr a n pf fm)) = length (f_bytes fm)"
  "f_refs (hdr_finish fr a n pf fm) = f_refs fm" "f_gate_free (hdr_finish fr a n pf fm) = f_gate_free fm"
  by (simp_all add: hdr_finish_def)

lemma hdr_finish_NS:
  assumes "framing_ok fr"
  shows "extractNS fr (f_bytes (hdr_finish fr a n pf fm)) = extractNS fr (f_bytes fm)"
    "IOHDLC_IS_I_FRM (IOHDLC_FRAME_CTRL fr (f_bytes (hdr_finish fr a n pf fm)) 0)
      = IOHDLC_IS_I_FRM (IOHDLC_FRAME_CTRL fr (f_bytes fm) 0)"
  using assms by (simp_all add: hdr_finish_def frame_simps)

text \<open>
  The header of a frame taken from the transmit queue: a frame to be repeated keeps its number, a
  new one gets V(S).
\<close>

definition iframe_hdr :: "framing \<Rightarrow> u8 \<Rightarrow> u32 \<Rightarrow> u32 \<Rightarrow> bool \<Rightarrow> frame \<Rightarrow> frame" where
  "iframe_hdr fr addr vs vr pf fm = hdr_finish fr addr vr pf (hdr_reset fr (ctrl_size fr) vs fm)"

lemma iframe_hdr_new:
  assumes "framing_ok fr" "hdr_room fr (f_bytes fm)" "f_tx_ctrl_len fm \<noteq> ctrl_size fr"
    and "unat vs = k mod modulus fr"
  shows "numbered fr (iframe_hdr fr a vs vr pf fm) k"
  using assms hdr_reset_NS [OF assms(1,2), of vs]
  by (simp add: numbered_def iframe_hdr_def hdr_finish_NS unat_and_mm)

lemma iframe_hdr_again:
  assumes "framing_ok fr" "numbered fr fm k"
  shows "numbered fr (iframe_hdr fr a vs vr pf fm) k"
  using assms by (auto simp: numbered_def iframe_hdr_def hdr_finish_NS hdr_reset_def)

section \<open>Sending an I-frame keeps the window\<close>

definition iframe_upd :: "u32 \<Rightarrow> nat \<Rightarrow> peer \<Rightarrow> peer" where
  "iframe_upd mm f q = q\<lparr>p_trans_q := tl (p_trans_q q), p_retrans_q := p_retrans_q q @ [f],
     p_vs_highest := (if p_vs q = p_vs_highest q then (p_vs q + 1) AND mm else p_vs_highest q),
     p_vs := (p_vs q + 1) AND mm\<rparr>"

lemma win_vs_highest:
  fixes a b :: u32
  assumes a: "unat a = (n + r) mod m" and b: "unat b = (n + r + u) mod m" and u: "u < m"
  shows "(a = b) = (u = 0)"
proof
  assume "a = b"
  then have "(n + r + u) mod m = (n + r) mod m" using a b by simp
  then have "m dvd u" using mod_eq_dvd_iff_nat [of "n + r" "n + r + u" m] by simp
  then show "u = 0" using u by (auto dest: dvd_imp_le)
next
  assume "u = 0"
  then have "unat a = unat b" using a b by simp
  then show "a = b" by (simp add: word_unat_eq_iff)
qed

lemma seqd_snoc: "seqd fr hp n (xs @ [f]) \<longleftrightarrow> seqd fr hp n xs \<and> numbered fr (hp f) (n + length xs)"
  by (simp add: seqd_append)

lemma win_ok_send:
  assumes w: "win_ok fr hp q" and f: "framing_ok fr" and t: "p_trans_q q = f # rest"
    and d: "distinct (p_retrans_q q @ p_trans_q q)" and r: "hdr_room fr (f_bytes (hp f))"
    and wd: "unat ((p_vs q - p_nr q) AND modmask fr) < unat (p_ks q)"
  shows "win_ok fr (hp(f := iframe_hdr fr a (p_vs q) vr pf (hp f))) (iframe_upd (modmask fr) f q)"
    (is "win_ok fr ?hp ?q")
proof -
  from w obtain us ws where u: "p_trans_q q = us @ ws"
    "seqd fr hp (unat (p_nr q)) (p_retrans_q q @ us)"
    "\<forall>f \<in> set ws. f_tx_ctrl_len (hp f) \<noteq> ctrl_size fr"
    "unat (p_vs q) = (unat (p_nr q) + length (p_retrans_q q)) mod modulus fr"
    "unat (p_vs_highest q) = (unat (p_nr q) + length (p_retrans_q q) + length us) mod modulus fr"
    "length (p_retrans_q q) + length us \<le> unat (p_ks q)"
    "unat (p_ks q) < modulus fr" "unat (p_nr q) < modulus fr" "unat (p_vr q) < modulus fr"
    "p_i_pending_count q = word_of_nat (length (p_trans_q q) + length (p_retrans_q q))"
    unfolding win_ok_def by blast
  let ?n = "unat (p_nr q)" and ?l = "length (p_retrans_q q)" and ?m = "modulus fr"
  have vs: "unat (p_vs q) < ?m" using u(4) by simp
  have vs1: "unat ((p_vs q + 1) AND modmask fr) = (?n + (?l + 1)) mod ?m"
    using unat_inc_mm [OF f vs] u(4) by (simp add: mod_Suc_eq)
  have "unat ((p_vs q - p_nr q) AND modmask fr) = ((?n + ?l) mod ?m + ?m - ?n) mod ?m"
    using unat_diff_mm [OF f vs u(8)] u(4) by simp
  also have "\<dots> = ?l"
  proof (cases "?n + ?l < ?m")
    case False
    have "?l < ?m" using u(6,7) by simp
    then have "(?n + ?l) mod ?m = ?n + ?l - ?m" using False u(8) by (simp add: mod_if)
    then show ?thesis using False \<open>?l < ?m\<close> by simp
  qed simp
  finally have lt: "?l < unat (p_ks q)" using wd by simp
  have ne: "(p_vs q = p_vs_highest q) = (length us = 0)"
    using win_vs_highest [OF u(4,5)] u(6,7) by simp
  have other: "?hp g = hp g" if "g \<in> set (p_retrans_q q) \<union> set rest" for g
    using that d t by auto
  have s0: "seqd fr ?hp ?n (p_retrans_q q)"
    using u(2) other seqd_cong [of "p_retrans_q q" ?hp hp fr ?n] by (simp add: seqd_append)
  show ?thesis
  proof (cases us)
    case Nil
    then have ws: "ws = f # rest" using u(1) t by simp
    have nf: "numbered fr (?hp f) (?n + ?l)"
      using iframe_hdr_new [OF f r] u(3,4) ws by simp
    have c: "\<forall>g \<in> set rest. g \<noteq> f \<and> f_tx_ctrl_len (hp g) \<noteq> ctrl_size fr" using u(3) ws d t by auto
    show ?thesis unfolding win_ok_def using s0 nf c lt vs1 ne Nil u(7-10) t ws
      by (rule_tac exI [of _ "[]"], rule_tac exI [of _ rest])
        (simp add: iframe_upd_def seqd_snoc ac_simps)
  next
    case (Cons h us')
    then have h: "h = f" and rest: "rest = us' @ ws" using u(1) t by simp_all
    have nf: "numbered fr (?hp f) (?n + ?l)"
      using iframe_hdr_again [OF f] u(2) Cons h by (simp add: seqd_append)
    have "seqd fr ?hp (?n + (?l + 1)) us'"
      using u(2) Cons other rest seqd_cong [of us' ?hp hp fr "?n + (?l + 1)"] by (simp add: seqd_append)
    then have s1: "seqd fr ?hp ?n ((p_retrans_q q @ [f]) @ us')"
      using s0 nf by (simp only: seqd_append) simp
    have c: "\<forall>g \<in> set ws. f_tx_ctrl_len (?hp g) \<noteq> ctrl_size fr" using u(3) other rest by auto
    show ?thesis unfolding win_ok_def using s1 c vs1 ne Cons h u(5-10) t rest
      by (rule_tac exI [of _ us'], rule_tac exI [of _ ws])
        (simp add: iframe_upd_def ac_simps)
  qed
qed

lemma pframes_disjoint:
  assumes "distinct pl" "distinct (pframes pl ps)" "p \<in> set pl" "r \<in> set pl" "r \<noteq> p"
    and "f \<in> set (peer_frames (ps p))"
  shows "f \<notin> set (peer_frames (ps r))"
  using assms
proof (induction pl)
  case (Cons a pl)
  have d: "distinct pl" "distinct (pframes pl ps)"
    "set (peer_frames (ps a)) \<inter> set (pframes pl ps) = {}"
    using Cons.prems by (auto simp: pframes_Cons)
  show ?case
  proof (cases "a = p \<or> a = r")
    case True
    then show ?thesis using d(3) Cons.prems(3-6) peer_frames_in [of _ pl _ ps] by auto
  next
    case False
    then show ?thesis using Cons.IH [OF d(1,2)] Cons.prems(3-6) by simp
  qed
qed simp

text \<open>The same on the station, while the transmit thread holds the gate of the frame.\<close>

lemma sinv_pool_peer:
  assumes i: "sinv G fr pl H {} s" and p: "p \<in> set pl" and f: "f \<in> set (peer_frames (s_peers s p))"
    and m: "mset (peer_frames (u (s_peers s p))) = mset (peer_frames (s_peers s p))"
    and um: "um_frames (u (s_peers s p)) = um_frames (s_peers s p)"
    and g: "\<And>fm. f_refs (g fm) = f_refs fm \<and> f_gate_free (g fm) = f_gate_free fm
      \<and> length (f_bytes (g fm)) = length (f_bytes fm)"
    and w: "win_ok fr ((fp_heap (s_pool s))(f := g (fp_heap (s_pool s) f))) (u (s_peers s p))"
  shows "sinv G fr pl H {} (upd_peer p u (s\<lparr>s_pool := upd_frame f g (s_pool s)\<rparr>))"
proof -
  let ?P = "upd_frame f g (s_pool s)" and ?ps = "(s_peers s)(p := u (s_peers s p))"
  note o' = invD(5) [OF i]
  have hp: "fp_heap ?P = (fp_heap (s_pool s))(f := g (fp_heap (s_pool s) f))" by (simp add: pool_simps)
  have "owners_ok (fst G) pl H ?P (s_tx_pipe s) (s_peers s)"
  proof -
    have "pool_ok ?P = pool_ok (s_pool s)" using g by (auto simp: pool_ok_def pool_simps)
    moreover have "pool_refs ?P = pool_refs (s_pool s)" using g by (auto simp: pool_refs_def pool_simps fun_eq_iff)
    moreover have "f_gate_free (fp_heap ?P h) = f_gate_free (fp_heap (s_pool s) h)" for h
      using g by (auto simp: pool_simps)
    ultimately show ?thesis using o' by (simp add: owners_ok_def upd_frame_proj(2))
  qed
  then have own: "owners_ok (fst G) pl H ?P (s_tx_pipe s) ?ps"
    using owners_move [OF p invD(4) [OF i], of H "s_peers s" H "u (s_peers s p)"] m by simp
  have "win_ok fr (fp_heap ?P) (s_peers s r) = win_ok fr (fp_heap (s_pool s)) (s_peers s r)"
    if "r \<in> set pl" "r \<noteq> p" for r
  proof (rule win_ok_cong)
    have "f \<notin> set (peer_frames (s_peers s r))"
      using owners_okD(2) [OF o'] by (intro pframes_disjoint [where ps = "s_peers s" and p = p and r = r, OF invD(4) [OF i] _ p that f]) auto
    then show "f_bytes (fp_heap ?P h) = f_bytes (fp_heap (s_pool s) h)
        \<and> f_tx_ctrl_len (fp_heap ?P h) = f_tx_ctrl_len (fp_heap (s_pool s) h)"
      if "h \<in> set (p_retrans_q (s_peers s r) @ p_trans_q (s_peers s r))" for h
      using that by (auto simp: hp peer_frames_def)
  qed
  moreover have "quiet (snd G) pl H (s_tx_pipe s) ?ps"
    using invD(11) [OF i] um p by (auto simp: quiet_def)
  ultimately show ?thesis using i own w p by (auto simp: sinv_def hp pool_simps)
qed

section \<open>The gate of the frame\<close>

lemma gate_wait_upd_peer:
  "exec (ioHdlcFrameTxGateWait f) (upd_peer p u s) = upd_peer p u (exec (ioHdlcFrameTxGateWait f) s)"
proof -
  have pool: "upd_peer p u s\<lparr>s_pool := P\<rparr> = upd_peer p u (s\<lparr>s_pool := P\<rparr>)"
    "upd_peer p u s\<lparr>s_tx_pipe := q\<rparr> = upd_peer p u (s\<lparr>s_tx_pipe := q\<rparr>)"
    "upd_peer p u s\<lparr>s_fault := b\<rparr> = upd_peer p u (s\<lparr>s_fault := b\<rparr>)" for P q b s
    by (simp_all add: upd_peer_def)
  have d: "exec (driver_tx_done f) (upd_peer p u s) = upd_peer p u (exec (driver_tx_done f) s)"
    by (simp add: driver_tx_done_def ioHdlcFrameTxGateRelease_def updF_def pool release_upd_peer del: pool_pipe_commute)
  have t: "exec (ioHdlcFrameTxGateTryWait f) (upd_peer p u s) = upd_peer p u (exec (ioHdlcFrameTxGateTryWait f) s)"
    "result (ioHdlcFrameTxGateTryWait f) (upd_peer p u s) = result (ioHdlcFrameTxGateTryWait f) s" for s
    by (simp_all add: ioHdlcFrameTxGateTryWait_def updF_def pool)
  show ?thesis
    by (simp add: ioHdlcFrameTxGateWait_def d t assertM_def faultM_def pool)
qed

definition in_flight :: "nat \<Rightarrow> nat \<Rightarrow> station \<Rightarrow> bool" where
  "in_flight p f s \<longleftrightarrow> f \<in> set (p_retrans_q (s_peers s p)) \<and> f \<notin> set (s_tx_pipe s)"

lemma in_flight_keeps:
  "(\<And>q. p_retrans_q (g q) = p_retrans_q q) \<Longrightarrow> keeps (in_flight p f) (updP p' g)"
  "(\<And>s. s_peers (h s) = s_peers s \<and> s_tx_pipe (h s) = s_tx_pipe s) \<Longrightarrow> keeps (in_flight p f) (modify h)"
  by (simp_all add: keeps_def in_flight_def updP_def)

lemma in_flight_sendable:
  assumes "sinv G fr pl H X s" "p \<in> set pl" "f \<in> set (p_retrans_q (s_peers s p))"
  shows "sendable pl H (s_peers s) f" "f \<notin> set H"
proof -
  note d = owners_okD(2) [OF invD(5) [OF assms(1)]]
  have f: "f \<in> set (peer_frames (s_peers s p))" using assms(3) by (simp add: peer_frames_def)
  have "f \<notin> set (um_frames (s_peers s r))" if r: "r \<in> set pl" for r
  proof (cases "r = p")
    case True
    have "distinct (peer_frames (s_peers s p))"
      using d assms(2) by (auto simp: pframes_def distinct_concat_iff)
    then show ?thesis using assms(3) True by (auto simp: peer_frames_def um_frames_def)
  next
    case False
    have "f \<notin> set (peer_frames (s_peers s r))"
      using d by (intro pframes_disjoint [where ps = "s_peers s" and p = p and r = r,
            OF invD(4) [OF assms(1)] _ assms(2) r False f]) auto
    then show ?thesis by (auto simp: peer_frames_def um_frames_def)
  qed
  then show "sendable pl H (s_peers s) f" using peer_frames_in [where ps = "s_peers s", OF assms(2) f] by (simp add: sendable_def)
  show "f \<notin> set H" using d peer_frames_in [where ps = "s_peers s", OF assms(2) f] by auto
qed

lemma keeps_account [keeps]: "keeps (sinv G fr pl H X) (account_pf p c pf)"
  unfolding account_pf_def by (intro keeps keeps_updP_irr) (simp add: pcore_def)

lemma in_flight_account: "keeps (in_flight p f) (account_pf p c pf)"
  unfolding account_pf_def IOHDLC_ACK_F_def IOHDLC_ACK_P_def IOHDLC_CLR_NEED_P_def ss_clr_def
  by (intro keeps in_flight_keeps; simp)

lemma keeps_restart_twa [keeps]: "keeps (sinv G fr pl H X) (restart_t3_twa p)"
  unfolding restart_t3_twa_def by (intro keeps)

text \<open>The two halves of the transmission of an I-frame, before and after the gate is opened.\<close>

definition iframe_body :: "nat \<Rightarrow> nat \<Rightarrow> u8 \<Rightarrow> peer \<Rightarrow> bool \<Rightarrow> unit hdlc" where
  "iframe_body p f a q pf = do {
      prepareIFrameHeader f a (p_vs q) (p_vr q) pf;
      mm \<leftarrow> gets (\<lambda>s. modmask (s_framing s));
      updP p (\<lambda>q. q\<lparr>p_retrans_q := p_retrans_q q @ [f]\<rparr>);
      updP p (\<lambda>q. if p_vs q = p_vs_highest q then q\<lparr>p_vs_highest := (p_vs q + 1) AND mm\<rparr> else q);
      updP p (\<lambda>q. q\<lparr>p_vs := (p_vs q + 1) AND mm\<rparr>) }"

definition iframe_tail :: "nat \<Rightarrow> nat \<Rightarrow> bool \<Rightarrow> bool \<Rightarrow> bool hdlc" where
  "iframe_tail p f c pf = do {
     t3_used \<leftarrow> gets iFrameReplyTimerUsed;
     whenM t3_used (updP p (\<lambda>q. q\<lparr>p_t3_expected_nr := p_vs q\<rparr>));
     account_pf p c pf;
     ioHdlcFrameTxGateRelease f;
     hdlcSendFrame f;
     whenM (pf \<and> c) (startPollReplyTimer p);
     tmo \<leftarrow> gets iFrameReplyTimeoutMs;
     whenM t3_used (ioHdlcStartReplyTimer p IOHDLC_TIMER_T3 tmo);
     ret pf }"

lemma connTx_send_iframe_split:
  "connTx_send_iframe p f has_next = do {
     outstanding \<leftarrow> gets (\<lambda>s. outstanding_of s (s_peers s p));
     ioHdlcFrameTxGateWait f;
     is_command \<leftarrow> gets tx_is_command;
     tx_addr \<leftarrow> gets (\<lambda>s. ucast (if is_command then p_addr (s_peers s p) else s_addr s));
     set_pf \<leftarrow> gets (\<lambda>s. iframe_set_pf s (s_peers s p) is_command outstanding has_next);
     q \<leftarrow> getP p id;
     iframe_body p f tx_addr q set_pf;
     iframe_tail p f is_command set_pf }"
  by (simp add: connTx_send_iframe_def iframe_body_def iframe_tail_def)

lemma send_tail_ht:
  assumes p: "p \<in> set pl"
  shows "ht (\<lambda>s. sinv ({f}, {}) fr pl H {} s \<and> in_flight p f s) (iframe_tail p f c pf) (\<lambda>_. stable fr pl H)"
proof -
  let ?I = "\<lambda>s. sinv ({f}, {}) fr pl H {} s \<and> in_flight p f s"
  have g: "ht ?I (ioHdlcFrameTxGateRelease f)
      (\<lambda>_ s. sinv ({}, {}) fr pl H {} s \<and> sendable pl H (s_peers s) f \<and> f \<notin> set (s_tx_pipe s) \<and> f \<notin> set H)"
    unfolding ht_exec
  proof (intro allI impI, elim conjE)
    fix s assume i: "sinv ({f}, {}) fr pl H {} s" and l: "in_flight p f s"
    have s: "sendable pl H (s_peers s) f" "f \<notin> set H" "f \<notin> set (s_tx_pipe s)"
      using in_flight_sendable [OF i p] l by (auto simp: in_flight_def)
    have "sinv ({}, {}) fr pl H {} (exec (ioHdlcFrameTxGateRelease f) s)"
      using s i by (intro gate_release_sinv) (auto simp: sendable_def)
    then show "sinv ({}, {}) fr pl H {} (exec (ioHdlcFrameTxGateRelease f) s)
        \<and> sendable pl H (s_peers (exec (ioHdlcFrameTxGateRelease f) s)) f
        \<and> f \<notin> set (s_tx_pipe (exec (ioHdlcFrameTxGateRelease f) s)) \<and> f \<notin> set H"
      using s by (simp add: ioHdlcFrameTxGateRelease_def updF_def)
  qed
  have h: "ht (\<lambda>s. sinv ({}, {}) fr pl H {} s \<and> sendable pl H (s_peers s) f \<and> f \<notin> set (s_tx_pipe s) \<and> f \<notin> set H)
      (hdlcSendFrame f) (\<lambda>_. stable fr pl H)"
    unfolding ht_def
  proof (intro allI impI)
    fix s assume a: "sinv ({}, {}) fr pl H {} s \<and> sendable pl H (s_peers s) f
      \<and> f \<notin> set (s_tx_pipe s) \<and> f \<notin> set H"
    then have "wp (hdlcSendFrame f) (\<lambda>_. sinv ({}, {f}) fr pl H {}) s"
      by (intro htD [OF send_ht]) simp
    moreover have "sinv ({}, {f}) fr pl H {} t \<Longrightarrow> stable fr pl H t" for t
      using a sinv_unloud [of "{}" f "{}" fr pl H "{}" t] by simp
    ultimately show "wp (hdlcSendFrame f) (\<lambda>_. stable fr pl H) s" by (rule wp_mono)
  qed
  show ?thesis unfolding iframe_tail_def
    apply (rule ht_keeps_bind, rule keeps, rule ht_keeps_bind, rule keeps_conj)
      apply (intro keeps keeps_updP_irr, simp add: pcore_def)
     apply (intro keeps in_flight_keeps, simp)
    apply (rule ht_keeps_bind, rule keeps_conj, rule keeps, rule in_flight_account)
    apply (rule ht_bind [OF g], rule ht_bind [OF h])
    apply (intro ht_keeps_bind keeps ht_ret, simp)
    done
qed

section \<open>One I-frame\<close>

lemma iframe_body_exec:
  assumes c: "ctrl_size (s_framing s) \<le> 2"
  shows "exec (iframe_body p f a q pf) (upd_peer p (\<lambda>q. q\<lparr>p_trans_q := tl (p_trans_q q)\<rparr>) s)
    = upd_peer p (iframe_upd (modmask (s_framing s)) f) (s\<lparr>s_pool := upd_frame f
        (iframe_hdr (s_framing s) a (p_vs q) (p_vr q) pf) (s_pool s)\<rparr>)"
proof -
  have e: "upd_frame f g (upd_frame f h P) = upd_frame f (\<lambda>x. g (h x)) P" for g h P
    by (simp add: upd_frame_def)
  have i: "(\<lambda>x. hdr_finish fr a vr pf (hdr_reset fr (ctrl_size fr) vs x)) = iframe_hdr fr a vs vr pf" for fr vr vs
    by (simp add: fun_eq_iff iframe_hdr_def)
  show ?thesis using c
    by (simp add: iframe_body_def prepareIFrameHeader_def assertM_def updF_def updP_def e i upd_peer_def iframe_upd_def)
qed

lemma connTx_send_sinv:
  assumes i: "stable fr pl H s" and p: "p \<in> set pl" and t: "p_trans_q (s_peers s p) = f # rest"
    and wd: "outstanding_of s (s_peers s p) < p_ks (s_peers s p)"
  shows "stable fr pl H (exec (connTx_send_iframe p f hn)
    (upd_peer p (\<lambda>q. q\<lparr>p_trans_q := tl (p_trans_q q)\<rparr>) s))"
proof -
  let ?pop = "\<lambda>q. q\<lparr>p_trans_q := tl (p_trans_q q)\<rparr>" and ?q = "s_peers s p"
  define s1 where "s1 = exec (ioHdlcFrameTxGateWait f) s"
  have fp: "f \<in> set (peer_frames ?q)" by (simp add: peer_frames_def t)
  have fo: "framing_ok fr" by (rule invD(3) [OF i])
  have "f \<in> set (H @ pframes pl (s_peers s))"
    using peer_frames_in [where ps = "s_peers s", OF p fp] by simp
  note g = gate_wait_sinv [OF i this, simplified, folded s1_def]
  have w: "win_ok fr (fp_heap (s_pool s1)) ?q" using invD(7) [OF g(1) p] g(3) by simp
  have fr1: "s_framing s1 = fr" by (rule invD(1) [OF g(1)])
  have cs: "ctrl_size (s_framing s1) \<le> 2" using fo fr1 by (auto simp: framing_ok_def)
  have d: "distinct (peer_frames ?q)"
    using owners_okD(2) [OF invD(5) [OF i]] p by (auto simp: pframes_def distinct_concat_iff)
  have room: "hdr_room fr (f_bytes (fp_heap (s_pool s1) f))"
    using frame_length(1) [OF g(1), of f] peer_frames_in [where ps = "s_peers s1", OF p] fp g(3) invD(9) [OF g(1)]
    by (simp add: hdr_room_def ctrl_pos_def frame_of_def)
  have lt: "unat ((p_vs ?q - p_nr ?q) AND modmask fr) < unat (p_ks ?q)"
    using wd invD(1) [OF i] by (simp add: outstanding_of_def word_less_nat_alt)
  let ?s2 = "\<lambda>a pf. upd_peer p (iframe_upd (modmask fr) f) (s1\<lparr>s_pool := upd_frame f
    (iframe_hdr fr a (p_vs ?q) (p_vr ?q) pf) (s_pool s1)\<rparr>)"
  have s2: "sinv ({f}, {}) fr pl H {} (?s2 a pf)" "in_flight p f (?s2 a pf)" for a pf
  proof -
    show "sinv ({f}, {}) fr pl H {} (?s2 a pf)"
    proof (rule sinv_pool_peer [OF g(1) p])
      show "win_ok fr ((fp_heap (s_pool s1))(f := iframe_hdr fr a (p_vs ?q) (p_vr ?q) pf (fp_heap (s_pool s1) f)))
          (iframe_upd (modmask fr) f (s_peers s1 p))"
        unfolding g(3) by (rule win_ok_send [OF w fo t _ room lt]) (use d in \<open>auto simp: peer_frames_def\<close>)
    qed (use fp g(3) t in \<open>auto simp: iframe_upd_def peer_frames_def um_frames_def iframe_hdr_def\<close>)
    show "in_flight p f (?s2 a pf)" using g(2) by (simp add: in_flight_def iframe_upd_def)
  qed
  have b: "exec (iframe_body p f a q pf) (upd_peer p ?pop s1) = upd_peer p (iframe_upd (modmask fr) f)
      (s1\<lparr>s_pool := upd_frame f (iframe_hdr fr a (p_vs q) (p_vr q) pf) (s_pool s1)\<rparr>)" for a q pf
    using iframe_body_exec [OF cs] fr1 by simp
  have "stable fr pl H (exec (iframe_tail p f c pf) (exec (iframe_body p f a (?pop ?q) pf) (upd_peer p ?pop s1)))"
    for a c pf
    using send_tail_ht [OF p, of f fr H c pf] s2 [of a pf] unfolding b by (simp add: ht_exec)
  then show ?thesis
    by (simp add: connTx_send_iframe_split getP_def gate_wait_upd_peer s1_def [symmetric] g(3))
qed

lemma connTx_round_keeps:
  assumes p: "p \<in> set pl"
  shows "keeps (stable fr pl H) (connTx_round p cm)"
  unfolding keeps_def
proof (intro allI impI)
  fix s assume i: "stable fr pl H s"
  show "stable fr pl H (exec (connTx_round p cm) s)"
  proof (cases "connTx_may_send s p")
    case False
    then show ?thesis using i by (simp add: connTx_round_def)
  next
    case True
    then obtain f rest where t: "p_trans_q (s_peers s p) = f # rest"
      "outstanding_of s (s_peers s p) < p_ks (s_peers s p)"
      by (cases "p_trans_q (s_peers s p)") (auto simp: connTx_may_send_def Let_def)
    have i2: "stable fr pl H (s\<lparr>s_cm_flags := 0\<rparr>)" using i by simp
    from connTx_send_sinv [OF i2 p, of f rest] t
    have "stable fr pl H (exec (connTx_send_iframe p f (rest \<noteq> []))
        (upd_peer p (\<lambda>q. q\<lparr>p_trans_q := tl (p_trans_q q)\<rparr>) (s\<lparr>s_cm_flags := 0\<rparr>)))"
      by (simp add: outstanding_of_def)
    then show ?thesis using True i2 t(1)
      by (simp add: connTx_round_def iohdlc_evt_get_and_clear_flags_def getP_def updP_def Let_def)
  qed
qed

section \<open>Supervisory frames, timers and UI\<close>

lemma connTx_loop_keeps: "p \<in> set pl \<Longrightarrow> keeps (stable fr pl H) (connTx_loop n p sent cm)"
proof (induction n arbitrary: sent cm)
  case (Suc n)
  have "keeps (stable fr pl H) (case w of IAgain \<Rightarrow> connTx_loop n p (sent \<or> sent') cm'
      | _ \<Rightarrow> ret (w, sent \<or> sent', cm'))" for w sent' cm'
    using Suc by (cases w) (simp_all add: keeps_ret)
  then show ?case using Suc.prems by (simp add: keeps_bind connTx_round_keeps keeps_prod)
qed (simp add: keeps_ret)

lemma prepareSFrame_ht:
  "ht (stable fr pl H) (prepareSFrame p sf c) (\<lambda>r. stable fr pl (opt r @ H))"
proof -
  have b': "ht (stable fr pl (f # H)) (do {
            vr \<leftarrow> getP p p_vr;
            buildSFrame p f sf vr pf c;
            account_pf p c pf;
            whenM (pf \<and> c) (startPollReplyTimer p);
            restart_t3_twa p;
            ret (Some f) }) (\<lambda>r. stable fr pl (opt r @ H))" for f pf
    by (intro ht_keeps_bind keeps keeps_buildS ht_ret) simp_all
  show ?thesis unfolding prepareSFrame_def
    apply (rule ht_keeps_bind, rule keeps, rule ht_if, rule ht_ret, simp)
    apply (rule ht_keeps_bind, rule keeps, rule ht_bind [OF take_ht], rule ht_option)
     apply (simp, rule ht_ret, simp)
    apply (simp add: b')
    done
qed

lemma keeps_um_api [simp]: "pcore (q\<lparr>p_rej_actioned := a\<rparr>) = pcore q" "pcore (q\<lparr>p_ui_tx_pending := b\<rparr>) = pcore q"
  by (simp_all add: pcore_def)

lemma connTx_reply_timeout_keeps: "p \<in> set pl \<Longrightarrow> keeps (stable fr pl H) (connTx_reply_timeout p cm)"
  unfolding connTx_reply_timeout_def by (intro keeps handleTimeoutRetry_keeps keeps_updP_irr) simp_all

lemma connTx_t3_timeout_keeps: "p \<in> set pl \<Longrightarrow> keeps (stable fr pl H) (connTx_t3_timeout p cm)"
  unfolding connTx_t3_timeout_def by (intro keeps handleTimeoutRetry_keeps keeps_updP_irr) simp_all

lemma connTx_ui_keeps: "keeps (stable fr pl H) (connTx_ui p)"
proof -
  have l: "length (le32_bytes v) = 4" for v by (simp add: le32_bytes_def)
  have b: "ht (stable fr pl (f # H)) (do {
            ioHdlcBuildUFrameWithInfo p f IOHDLC_U_UI False c (le32_bytes v);
            updP p (\<lambda>q. q\<lparr>p_ui_tx_pending := False\<rparr>);
            sent \<leftarrow> sendFrame f;
            whenM sent (restart_t3_twa p) }) (\<lambda>_. stable fr pl H)" for f c v
    apply (rule ht_keeps_bind, rule keeps_buildUI, simp, simp add: l)
    apply (rule ht_keeps_bind, rule keeps_updP_irr, simp)
    apply (rule ht_bind [OF sendFrame_ht], rule ht_keeps, intro keeps)
    done
  have w: "ht (stable fr pl H) (do {
       is_command \<leftarrow> gets tx_is_command;
       ui_value \<leftarrow> getP p p_ui_tx_value;
       fo \<leftarrow> hdlcTakeFrame;
       (case fo of
          None \<Rightarrow> ret ()
        | Some f \<Rightarrow> do {
            ioHdlcBuildUFrameWithInfo p f IOHDLC_U_UI False is_command (le32_bytes ui_value);
            updP p (\<lambda>q. q\<lparr>p_ui_tx_pending := False\<rparr>);
            sent \<leftarrow> sendFrame f;
            whenM sent (restart_t3_twa p) }) }) (\<lambda>_. stable fr pl H)"
    apply (rule ht_keeps_bind, rule keeps, rule ht_keeps_bind, rule keeps)
    apply (rule ht_bind [OF take_ht], rule ht_option)
     apply (simp, rule ht_ret, simp)
    apply (simp add: b)
    done
  show ?thesis unfolding connTx_ui_def keeps_ht
    by (rule ht_keeps_bind, rule keeps, rule ht_when, rule w, simp)
qed

lemma connTx_prefix_keeps: "p \<in> set pl \<Longrightarrow> keeps (stable fr pl H) (connTx_prefix p cm)"
  unfolding connTx_prefix_def
  by (intro keeps connTx_reply_timeout_keeps connTx_t3_timeout_keeps connTx_ui_keeps)

lemma connTx_sframe_ht:
  "ht (stable fr pl H) (connTx_sframe p sent cm) (\<lambda>r. stable fr pl (opt (fst r) @ H))"
proof -
  have a: "ht (stable fr pl H)
       (if has ss IOHDLC_SS_REJPEND then do {
          r \<leftarrow> prepareSFrame p IOHDLC_S_REJ c;
          whenM (r \<noteq> None) (ss_clr p IOHDLC_SS_REJPEND);
          ret (r, cm AND NOT IOHDLC_EVT_REJ_ACTED) }
        else ret (None, cm)) (\<lambda>r. stable fr pl (opt (fst r) @ H))" for ss c
    apply (rule ht_if, rule ht_bind [OF prepareSFrame_ht], rule ht_keeps_bind, intro keeps, rule ht_ret, simp)
    apply (rule ht_ret, simp)
    done
  have b: "ht (stable fr pl (opt sf @ H))
       (if freed then do {
          r \<leftarrow> prepareSFrame p IOHDLC_S_RR c;
          whenM (r \<noteq> None) (do { flags_clr IOHDLC_FLG_BUSY; condvar_tx p });
          ret r }
        else ret sf) (\<lambda>r. stable fr pl (opt r @ H))" if "freed \<Longrightarrow> sf = None" for freed sf c
    apply (rule ht_if)
     apply (rule ht_pre [where P = "stable fr pl H"])
      apply (rule ht_bind [OF prepareSFrame_ht], rule ht_keeps_bind, intro keeps, rule ht_ret, simp)
     apply (simp add: that)
    apply (rule ht_ret, simp)
    done
  have d: "ht (stable fr pl (opt sf @ H))
       (if due then do {
          busy \<leftarrow> gets IOHDLC_IS_BUSY;
          prepareSFrame p (if busy then IOHDLC_S_RNR else IOHDLC_S_RR) c }
        else ret sf) (\<lambda>r. stable fr pl (opt r @ H))" if "due \<Longrightarrow> sf = None" for due sf c
    apply (rule ht_if)
     apply (rule ht_pre [where P = "stable fr pl H"])
      apply (rule ht_keeps_bind, rule keeps, rule prepareSFrame_ht)
     apply (simp add: that)
    apply (rule ht_ret, simp)
    done
  have g: "ht P (gets (\<lambda>s. sf = None \<and> Z s) \<bind> k) Q"
    if "\<And>x. (x \<Longrightarrow> sf = None) \<Longrightarrow> ht P (k x) Q" for P Z k and Q :: "'a \<Rightarrow> station \<Rightarrow> bool" and sf :: "nat option"
    using that by (auto simp: ht_def)
  show ?thesis unfolding connTx_sframe_def
    apply (rule ht_keeps_bind, rule keeps, rule ht_keeps_bind, rule keeps, rule ht_bind [OF a], rule ht_prod)
    apply (simp only: fst_conv, rule g, rule ht_bind, rule b, assumption)
    apply (rule g, rule ht_bind, rule d, assumption)
    apply (rule ht_ret, simp)
    done
qed

lemma connTx_next_peer_keeps: "keeps (stable fr pl H) (connTx_next_peer p)"
  unfolding connTx_next_peer_def by (intro keeps ioHdlcNextPeer_keeps)

lemma send_opt_ht:
  "ht (stable fr pl (opt sf @ H)) (case sf of None \<Rightarrow> ret () | Some f \<Rightarrow> do { sendFrame f; ret () })
     (\<lambda>_. stable fr pl H)"
  apply (rule ht_option, rule ht_ret, simp)
  apply (simp, rule ht_bind [OF sendFrame_ht], rule ht_ret, simp)
  done

lemma connTx_tail_keeps: "keeps (stable fr pl H) (connTx_tail p sent cm)"
  unfolding connTx_tail_def keeps_ht
  apply (rule ht_keeps_bind, rule keeps, rule ht_bind [OF connTx_sframe_ht], rule ht_prod, simp only: fst_conv)
  apply (rule ht_bind [OF send_opt_ht], rule ht_keeps_bind [OF connTx_next_peer_keeps], rule ht_ret, simp)
  done

lemma ioHdlcConnectedTx_keeps: "p \<in> set pl \<Longrightarrow> keeps (stable fr pl H) (ioHdlcConnectedTx p cm)"
  unfolding ioHdlcConnectedTx_def
  by (intro keeps connTx_prefix_keeps connTx_loop_keeps connTx_tail_keeps)

section \<open>The transmit loop\<close>

lemma tx_select_peer_ht:
  assumes p: "p \<in> set pl"
  shows "ht (stable fr pl H) (tx_select_peer p fl) (\<lambda>r s. stable fr pl H s \<and> (\<forall>t. r = Some t \<longrightarrow> t \<in> set pl))"
proof -
  have pl: "pl \<noteq> []" using p by auto
  show ?thesis unfolding tx_select_peer_def
    apply (rule ht_keeps_bind, rule keeps, rule ht_if)
     apply (rule ht_bind [OF ioHdlcNextPeer_ht])
     apply (use pl in \<open>auto simp: ht_def getP_def split: option.split\<close>) [1]
    apply (use p in \<open>simp add: ht_def\<close>)
    done
qed

text \<open>A frame kept for an unnumbered exchange is taken into the hand.\<close>

lemma take_api_ht:
  assumes p: "p \<in> set pl"
  shows "ht (\<lambda>s. stable fr pl H s \<and> p_um_api_frame (s_peers s p) = Some f)
    (updP p (\<lambda>q. q\<lparr>p_um_api_frame := None\<rparr>)) (\<lambda>_. stable fr pl (f # H))"
  unfolding updP_def
proof (rule ht_modify, elim conjE)
  fix s assume i: "stable fr pl H s" and a: "p_um_api_frame (s_peers s p) = Some f"
  show "stable fr pl (f # H) (upd_peer p (\<lambda>q. q\<lparr>p_um_api_frame := None\<rparr>) s)"
    by (rule sinv_move_upd [OF i p])
      (use a invD(7) [OF i p] in \<open>auto simp: peer_frames_def um_frames_def win_ok_def\<close>)
qed

lemma take_rsp_ht:
  assumes p: "p \<in> set pl"
  shows "ht (\<lambda>s. stable fr pl H s \<and> p_um_rsp_frame (s_peers s p) = Some f)
    (updP p (\<lambda>q. q\<lparr>p_um_rsp_frame := None\<rparr>)) (\<lambda>_. stable fr pl (f # H))"
  unfolding updP_def
proof (rule ht_modify, elim conjE)
  fix s assume i: "stable fr pl H s" and a: "p_um_rsp_frame (s_peers s p) = Some f"
  show "stable fr pl (f # H) (upd_peer p (\<lambda>q. q\<lparr>p_um_rsp_frame := None\<rparr>) s)"
    by (rule sinv_move_upd [OF i p])
      (use a invD(7) [OF i p] in \<open>auto simp: peer_frames_def um_frames_def win_ok_def\<close>)
qed

lemma take_opt_ht: "ht (stable fr pl H) hdlcTakeFrame (\<lambda>r. stable fr pl (opt r @ H))"
  by (rule ht_post [OF take_ht]) (simp split: option.splits)

lemma tx_send_ucommand_keeps:
  assumes p: "p \<in> set pl"
  shows "keeps (stable fr pl H) (tx_send_ucommand p)"
proof -
  have t: "ht (stable fr pl H) (do {
          t \<leftarrow> hdlcTakeFrame;
          (case t of None \<Rightarrow> ret () | Some f \<Rightarrow> ioHdlcBuildUFrame p f c True True);
          ret t }) (\<lambda>r. stable fr pl (opt r @ H))" for c
    apply (rule ht_bind [OF take_opt_ht])
    subgoal for r by (cases r) (auto intro!: ht_keeps_bind keeps keeps_buildU ht_ret)
    done
  have a: "ht (\<lambda>s. stable fr pl H s \<and> s_peers s p = q) (case p_um_api_frame q of
        Some f \<Rightarrow> do { updP p (\<lambda>q. q\<lparr>p_um_api_frame := None\<rparr>); ret (Some f) }
      | None \<Rightarrow> do {
          t \<leftarrow> hdlcTakeFrame;
          (case t of None \<Rightarrow> ret () | Some f \<Rightarrow> ioHdlcBuildUFrame p f (p_um_cmd q) True True);
          ret t }) (\<lambda>r. stable fr pl (opt r @ H))" for q
    apply (rule ht_option)
     apply (rule ht_pre [OF t], simp)
    subgoal for f
      by (rule ht_pre [where P = "\<lambda>s. stable fr pl H s \<and> p_um_api_frame (s_peers s p) = Some f"],
          rule ht_bind [OF take_api_ht [OF p]], rule ht_ret, simp, auto)
    done
  have b: "ht (stable fr pl (opt fo @ H)) (case fo of
        None \<Rightarrow> ret ()
      | Some f \<Rightarrow> do {
          sendFrame f;
          (if p_um_cmd q = IOHDLC_U_TEST then do {
             nrm_pri \<leftarrow> gets (\<lambda>s. IOHDLC_IS_NRM s \<and> IOHDLC_IS_PRI s);
             whenM nrm_pri (ioHdlcStopReplyTimer p IOHDLC_TIMER_T3) }
           else restart_t3_twa p);
          whenM (p_um_cmd q \<noteq> IOHDLC_U_TEST) (startPollReplyTimer p);
          um_set p IOHDLC_UM_SENT;
          IOHDLC_ACK_F }) (\<lambda>_. stable fr pl H)" for fo q
    apply (rule ht_option, rule ht_ret, simp)
    apply (simp only: opt_simps append_Cons append_Nil, rule ht_bind [OF sendFrame_ht], rule ht_keeps, intro keeps)
    done
  show ?thesis unfolding tx_send_ucommand_def keeps_ht
    apply (rule ht_getP)
    apply (rule ht_bind, rule ht_pre [OF a], simp)
    apply (rule b)
    done
qed

lemma tx_ucommand_ht:
  assumes p: "p \<in> set pl"
  shows "ht (stable fr pl H) (tx_ucommand p cm)
    (\<lambda>r s. stable fr pl H s \<and> (\<forall>t c. r = Inr (t, c) \<longrightarrow> t \<in> set pl))"
proof -
  let ?Q = "\<lambda>(r :: tx_cont) s. stable fr pl H s \<and> (\<forall>t c. r = Inr (t, c) \<longrightarrow> t \<in> set pl)"
  have s: "ht (stable fr pl H) (do {
                preset \<leftarrow> gets (\<lambda>s. IOHDLC_PEER_DISC (s_peers s p) \<and> IOHDLC_USE_TWA s
                  \<and> isConnectionUCommand (p_um_cmd (s_peers s p)));
                whenM preset (pf_set IOHDLC_F_RCVED);
                opp \<leftarrow> gets sendOpportunity;
                if opp then do { tx_send_ucommand p; ret (Inr (p, cm)) }
                else ret (Inl cm) }) ?Q" if "p \<in> set pl" for p cm
    apply (rule ht_keeps_bind, rule keeps, rule ht_keeps_bind, intro keeps, rule ht_keeps_bind, rule keeps)
    apply (rule ht_if, rule ht_keeps_bind, rule tx_send_ucommand_keeps [OF that], rule ht_ret, simp add: that)
    apply (rule ht_ret, simp)
    done
  have retry: "keeps (stable fr pl H) (if b then handleTimeoutRetry p else ret True)" if "p \<in> set pl" for b p
    by (intro keeps handleTimeoutRetry_keeps that)
  have r: "ht (\<lambda>s. stable fr pl H s \<and> t \<in> set pl) m ?Q"
    if "t \<in> set pl \<Longrightarrow> ht (stable fr pl H) m ?Q" for t m
    using that by (auto simp: ht_def)
  show ?thesis unfolding tx_ucommand_def
    apply (rule ht_keeps_bind, rule keeps, rule ht_if)
     apply (rule ht_let, rule ht_let, rule ht_bind [OF tx_select_peer_ht [OF p]], rule ht_option)
      apply (rule ht_ret, simp)
    subgoal for um x t
      apply (rule ht_pre [where P = "\<lambda>s. stable fr pl H s \<and> t \<in> set pl"], rule r)
       apply (rule ht_keeps_bind, rule keeps, rule ht_keeps_bind, rule keeps, rule ht_if, rule ht_ret, simp)
       apply (rule ht_keeps_bind, erule retry, rule ht_if)
        apply (rule ht_keeps_bind, rule ioHdlcNextPeer_keeps, rule ht_ret, simp)
       apply (erule s)
      apply simp
      done
    apply (rule ht_ret, simp add: p)
    done
qed

lemma tx_uresponse_frame_ht:
  assumes p: "p \<in> set pl"
  shows "ht (stable fr pl H) (tx_uresponse_frame p setf) (\<lambda>r. stable fr pl (opt r @ H))"
proof -
  have c: "keeps (\<lambda>s. stable fr pl H s \<and> p_um_rsp_frame (s_peers s p) = g) (gets h)" for g and h :: "station \<Rightarrow> 'a"
    by (simp add: keeps_def)
  have a: "ht (\<lambda>s. stable fr pl H s \<and> s_peers s p = q) (case p_um_rsp_frame q of
        Some f \<Rightarrow>
          if p_um_rsp q = IOHDLC_U_TEST then do {
            info_len \<leftarrow> gets (\<lambda>s. (ucast (f_elen (frame_of s f)) :: u64)
              - word_of_nat (unat (frame_offset (s_framing s)) + 2));
            updP p (\<lambda>q. q\<lparr>p_um_rsp_frame := None\<rparr>);
            ioHdlcBuildUFrame p f IOHDLC_U_TEST setf False;
            n \<leftarrow> gets (\<lambda>s. f_elen (frame_of s f));
            set_elen f (ucast (ucast n + info_len));
            ret (Some f) }
          else hdlcTakeFrame
      | None \<Rightarrow> if p_um_rsp q \<noteq> IOHDLC_U_TEST then hdlcTakeFrame else ret None) (\<lambda>r. stable fr pl (opt r @ H))" for q
    apply (rule ht_option, rule ht_if, rule ht_pre [OF take_opt_ht], simp, rule ht_ret, simp)
    subgoal for f
      apply (rule ht_if)
       apply (rule ht_pre [where P = "\<lambda>s. stable fr pl H s \<and> p_um_rsp_frame (s_peers s p) = Some f"])
        apply (rule ht_keeps_bind, rule c, rule ht_bind [OF take_rsp_ht [OF p]])
        apply (intro ht_keeps_bind keeps keeps_buildU keeps_elen ht_ret; simp)
       apply auto [1]
      apply (rule ht_pre [OF take_opt_ht], simp)
      done
    done
  show ?thesis unfolding tx_uresponse_frame_def
    by (rule ht_getP, rule ht_pre [OF a], simp)
qed

lemma tx_uresponse_keeps:
  assumes p: "p \<in> set pl"
  shows "keeps (stable fr pl H) (tx_uresponse p)"
proof -
  have b: "keeps (stable fr pl (f # H)) (if p_um_rsp q = IOHDLC_U_FRMR then buildFrmrResponse p f setf
           else if p_um_rsp q \<noteq> IOHDLC_U_TEST then ioHdlcBuildUFrame p f (p_um_rsp q) setf False
           else ret ())" for f q setf
    by (intro keeps keeps_buildFrmr keeps_buildU; simp)
  have c: "keeps (stable fr pl H) (if p_um_cmd q = IOHDLC_U_TEST then do {
             whenM (\<not> has (p_um_state q) IOHDLC_UM_SENT) (updP p (\<lambda>q. q\<lparr>p_um_cmd := 0\<rparr>));
             updP p (\<lambda>q. q\<lparr>p_um_rsp := 0\<rparr>) }
           else whenM (p_um_cmd q = IOHDLC_U_DISC) (closePeerOrderly p))" for q
    by (intro keeps keeps_updP_irr closePeerOrderly_keeps p; simp add: pcore_def)
  show ?thesis unfolding tx_uresponse_def keeps_ht
    apply (rule ht_keeps_bind, rule keeps, rule ht_keeps_bind, rule keeps, rule ht_keeps_bind, rule keeps)
    apply (rule ht_bind [OF tx_uresponse_frame_ht [OF p]], rule ht_keeps_bind, rule keeps)
    apply (rule ht_option, rule ht_ret, simp)
    apply (simp only: opt_simps append_Cons append_Nil, rule ht_keeps_bind [OF b], rule ht_bind [OF sendFrame_ht],
        rule ht_keeps_bind, rule keeps, rule ht_keeps, rule c)
    done
qed

lemma tx_idle_peer_keeps: "keeps (stable fr pl H) tx_idle_peer"
  unfolding tx_idle_peer_def by (intro keeps ioHdlcNextPeer_keeps)

lemma tx_dispatch_keeps: "p \<in> set pl \<Longrightarrow> keeps (stable fr pl H) (tx_dispatch p cm)"
  unfolding tx_dispatch_def
  by (intro keeps tx_uresponse_keeps tx_idle_peer_keeps ioHdlcConnectedTx_keeps)

lemma tx_round_keeps: "keeps (stable fr pl H) (ioHdlcTxEntry_round cm)"
proof -
  have d: "ht (stable fr pl H) (do {
         r \<leftarrow> tx_ucommand p new;
         (case r of
            Inl cm \<Rightarrow> ret (Some cm)
          | Inr (p, cm) \<Rightarrow> do { cm \<leftarrow> tx_dispatch p cm; ret (Some cm) }) }) (\<lambda>_. stable fr pl H)"
    if p: "p \<in> set pl" for p new
  proof (rule ht_bind [OF tx_ucommand_ht [OF p]])
    fix r :: tx_cont
    show "ht (\<lambda>s. stable fr pl H s \<and> (\<forall>t c. r = Inr (t, c) \<longrightarrow> t \<in> set pl))
        (case r of Inl cm \<Rightarrow> ret (Some cm) | Inr (p, cm) \<Rightarrow> do { cm \<leftarrow> tx_dispatch p cm; ret (Some cm) })
        (\<lambda>_. stable fr pl H)"
    proof (cases r)
      case (Inr y)
      obtain t c where y: "y = (t, c)" by (cases y)
      have "t \<in> set pl \<Longrightarrow> ht (stable fr pl H) (do { cm \<leftarrow> tx_dispatch t c; ret (Some cm) }) (\<lambda>_. stable fr pl H)"
        by (rule ht_keeps_bind, erule tx_dispatch_keeps, rule ht_ret, simp)
      then show ?thesis by (auto simp: Inr y ht_def)
    qed (simp add: ht_def)
  qed
  show ?thesis
    unfolding keeps_def
  proof (intro allI impI)
    fix s assume i: "stable fr pl H s"
    define new where "new = result (if cm = 0 then iohdlc_evt_get_and_clear_flags else ret cm) s"
    define t where "t = exec (if cm = 0 then iohdlc_evt_get_and_clear_flags else ret cm) s"
    have it: "stable fr pl H t" unfolding t_def using i by (rule keepsD [rotated]) (intro keeps)
    show "stable fr pl H (exec (ioHdlcTxEntry_round cm) s)"
    proof (cases "s_c_peer s")
      case None
      then show ?thesis using it by (simp add: ioHdlcTxEntry_round_def t_def)
    next
      case (Some p)
      then have p: "p \<in> set pl" by (rule invD(8) [OF i])
      show ?thesis using d [OF p, of new] it Some
        by (simp add: ioHdlcTxEntry_round_def t_def new_def ht_exec)
    qed
  qed
qed

end
