(* ===== verification/Hdlc_InvApi.thy ===== *)
theory Hdlc_InvApi
  imports Hdlc_InvTx Hdlc_Api
begin

text \<open>
  The application calls and the set-up of a station preserve the station invariant. A frame a
  caller has taken is in its hand; the fragments of a write enter the transmit queue without a
  number, the reader releases a frame when its last octet is read.
\<close>

section \<open>Commands that may fail\<close>

lemma keeps_E [keeps]: "keeps I (okE x)" "keeps I (failE e)" "keeps I (checkE b e)"
  by (simp_all add: okE_def failE_def checkE_def keeps_ret)

lemma keeps_liftE [keeps]: "keeps I m \<Longrightarrow> keeps I (liftE m)"
  by (simp add: liftE_def keeps_bind keeps_E)

lemma ht_E: "(\<And>s. P s \<Longrightarrow> Q (Inr x) s) \<Longrightarrow> ht P (okE x) Q" "(\<And>s. P s \<Longrightarrow> R (Inl e) s) \<Longrightarrow> ht P (failE e) R"
  by (simp_all add: okE_def failE_def ht_def)

lemma run_E [simp]:
  "exec (okE x) s = s" "result (okE x) s = Inr x" "exec (failE e) s = s" "result (failE e) s = Inl e"
  "exec (liftE m) s = exec m s" "result (liftE m) s = Inr (result m s)"
  "exec (checkE b e) s = s" "result (checkE b e) s = (if b then Inr () else Inl e)"
  by (simp_all add: okE_def failE_def liftE_def checkE_def)

section \<open>Link, UI and listener calls\<close>

lemma link_calls_keep:
  "keeps (stable fr pl H) (link_up_start a m)" "keeps (stable fr pl H) (link_up_event p sm flags)"
  "keeps (stable fr pl H) (link_up_timeout sm)" "keeps (stable fr pl H) (link_down_start a)"
  "keeps (stable fr pl H) (link_down_event p flags)"
  unfolding link_up_start_def link_up_event_def link_up_timeout_def link_down_start_def
    link_down_event_def clear_terminal_def
  by (intro keeps keeps_modify keeps_updP_irr; simp add: pcore_def)+

lemma ui_calls_keep:
  "keeps (stable fr pl H) (ioHdlcPeerUiSend x v)" "keeps (stable fr pl H) (ioHdlcPeerUiGet x)"
  "keeps (stable fr pl H) (ioHdlcPeerGetState x)"
  unfolding ioHdlcPeerUiSend_def ioHdlcPeerUiGet_def ioHdlcPeerGetState_def
  by (intro keeps keeps_updP_irr; simp add: pcore_def)+

section \<open>Frames in the hand of a caller\<close>

lemma framesize_take [simp]: "fp_framesize (s_pool (exec hdlcTakeFrame s)) = fp_framesize (s_pool s)"
  by (cases "fp_free (s_pool s)") (auto simp: hdlcTakeFrame_def set_pool_def take_none take_some)

lemma framesize_updF [simp]: "fp_framesize (s_pool (exec (updF f g) s)) = fp_framesize (s_pool s)"
  by (simp add: updF_def pool_simps)

lemma framesize_writeF [simp]: "fp_framesize (s_pool (exec (writeF f i v) s)) = fp_framesize (s_pool s)"
  by (auto simp: writeF_def faultM_def updF_def pool_simps)

lemma framesize_buildU [simp]:
  "fp_framesize (s_pool (exec (ioHdlcBuildUFrame p f u pf c) s)) = fp_framesize (s_pool s)"
  by (simp add: ioHdlcBuildUFrame_def set_elen_def set_tx_ctrl_len_def getP_def)

lemma writeF_sinv:
  assumes i: "sinv G fr pl H X s" and f: "f \<in> set H" and b: "k < fp_framesize (s_pool s)"
  shows "sinv G fr pl H X (exec (writeF f k v) s)"
proof -
  have "k < length (f_bytes (frame_of s f))" using frame_length(1) [OF i, of f] f b by simp
  moreover have "keeps (sinv G fr pl H X) (updF f (\<lambda>fr. fr\<lparr>f_bytes := (f_bytes fr)[k := v]\<rparr>))"
    using f by (intro keeps_updF) auto
  ultimately show ?thesis using i by (simp add: writeF_def keeps_def)
qed

lemma writeFs_sinv:
  assumes "f \<in> set H"
  shows "sinv G fr pl H X s \<Longrightarrow> k + length vs \<le> fp_framesize (s_pool s)
    \<Longrightarrow> sinv G fr pl H X (exec (writeFs f k vs) s)"
proof (induction vs arbitrary: k s)
  case (Cons v vs)
  then have "sinv G fr pl H X (exec (writeF f k v) s)" using assms by (intro writeF_sinv) auto
  from Cons.IH [OF this, of "k + 1"] Cons.prems(2) show ?case by simp
qed simp

lemma test_prepare_ht:
  assumes room: "\<And>q. q = s_peers s (the x) \<Longrightarrow>
      unat (frame_offset fr) + 2 + unat (p_mifls q) \<le> fp_framesize (s_pool s)"
    and i: "stable fr pl H s"
  shows "wp (test_prepare x len tmo)
    (\<lambda>r. stable fr pl (case r of Inl e \<Rightarrow> H | Inr f \<Rightarrow> f # H)) s"
proof (cases "x = None \<or> tmo = 0 \<or> \<not> s_test_initiator_allowed s
    \<or> unat (p_mifls (s_peers s (the x))) < len \<or> 65535 - (unat (frame_offset (s_framing s)) + 2) < len")
  case True
  then show ?thesis using i by (cases x) (auto simp: test_prepare_def wp_def)
next
  case False
  then obtain p where p: "x = Some p" by auto
  let ?s = "exec hdlcTakeFrame s"
  note t = take_sinv [OF i]
  show ?thesis
  proof (cases "result hdlcTakeFrame s")
    case None
    then show ?thesis using False t p by (simp add: test_prepare_def wp_def)
  next
    case (Some f)
    let ?s1 = "exec (ioHdlcBuildUFrame p f IOHDLC_U_TEST True True) ?s"
    let ?s2 = "exec (writeFs f (unat (frame_offset fr) + 2) (s_fill_test_pattern len)) ?s1"
    have "stable fr pl (f # H) ?s" using t Some by simp
    then have s1: "stable fr pl (f # H) ?s1" by (intro keepsD [OF keeps_buildU]) simp_all
    have "stable fr pl (f # H) ?s2"
      using room p False by (intro writeFs_sinv [OF _ s1]) (auto simp: s_fill_test_pattern_def)
    then have "stable fr pl (f # H) (exec (set_elen f n) ?s2)" for n
      by (intro keepsD [OF keeps_elen(1)]) simp_all
    then show ?thesis using False p Some invD(1) [OF i] by (simp add: test_prepare_def wp_def)
  qed
qed

lemma test_submit_ht:
  assumes p: "p \<in> set pl"
  shows "ht (stable fr pl (f # H)) (test_submit p f) (\<lambda>_. stable fr pl H)"
proof (rule htI)
  fix s assume i: "stable fr pl (f # H) s"
  show "wp (test_submit p f) (\<lambda>_. stable fr pl H) s"
  proof (cases "test_busy s (s_peers s p)")
    case True
    then show ?thesis using release_sinv [OF i] by (simp add: test_submit_def wp_def)
  next
    case False
    then have n: "p_um_api_frame (s_peers s p) = None" by (simp add: test_busy_def)
    let ?u = "\<lambda>q. q\<lparr>p_um_cmd := IOHDLC_U_TEST, p_um_api_frame := Some f\<rparr>"
    have "stable fr pl H (upd_peer p ?u s)"
      by (rule sinv_move_upd [OF i p])
        (use n p pwin_irr [OF i p, of "?u (s_peers s p)"] in \<open>auto simp: peer_frames_def um_frames_def\<close>)
    then have "stable fr pl H (exec (ioHdlcBroadcastFlags e) (upd_peer p ?u s))" for e
      by (intro keepsD [OF keeps_small(10)])
    then show ?thesis using False by (simp add: test_submit_def updP_def wp_def)
  qed
qed

lemma take_test_ht:
  assumes p: "p \<in> set pl"
  shows "ht (stable fr pl H) (s_take_completed_test_frame_locked p) (\<lambda>r. stable fr pl (opt r @ H))"
proof (rule htI)
  fix s assume i: "stable fr pl H s"
  let ?u = "\<lambda>q. q\<lparr>p_um_api_frame := None\<rparr>"
  have "stable fr pl (opt (p_um_api_frame (s_peers s p)) @ H) (upd_peer p ?u s)"
    by (rule sinv_move_upd [OF i p])
      (use p pwin_irr [OF i p, of "?u (s_peers s p)"] in \<open>auto simp: peer_frames_def um_frames_def ac_simps\<close>)
  with i show "wp (s_take_completed_test_frame_locked p) (\<lambda>r. stable fr pl (opt r @ H)) s"
    by (simp add: s_take_completed_test_frame_locked_def getP_def updP_def wp_def opt_def)
qed

lemma test_withdraw_keeps:
  assumes p: "p \<in> set pl"
  shows "keeps (stable fr pl H) (test_withdraw p)"
proof -
  have u: "ht (\<lambda>s. stable fr pl H s \<and> p_um_api_frame (s_peers s p) = a)
     (updP p (\<lambda>q. q\<lparr>p_um_api_frame := None, p_um_cmd := 0\<rparr>)) (\<lambda>_. stable fr pl (opt a @ H))" for a
    unfolding updP_def
  proof (rule ht_modify, elim conjE)
    fix s assume i: "stable fr pl H s" and a: "p_um_api_frame (s_peers s p) = a"
    show "stable fr pl (opt a @ H) (upd_peer p (\<lambda>q. q\<lparr>p_um_api_frame := None, p_um_cmd := 0\<rparr>) s)"
      by (rule sinv_move_upd [OF i p])
        (use a p pwin_irr [OF i p, of "(s_peers s p)\<lparr>p_um_api_frame := None, p_um_cmd := 0\<rparr>"]
          in \<open>auto simp: peer_frames_def um_frames_def ac_simps\<close>)
  qed
  have r: "ht (stable fr pl (opt a @ H)) (case a of None \<Rightarrow> ret () | Some f \<Rightarrow> hdlcReleaseFrame f)
      (\<lambda>_. stable fr pl H)" for a
    using release_ht by (cases a) (simp_all add: ht_def)
  have e: "ht (stable fr pl (opt a @ H)) (do {
      (case a of None \<Rightarrow> ret () | Some f \<Rightarrow> hdlcReleaseFrame f);
      ioHdlcBroadcastFlags IOHDLC_EVT_TX_IFRM_ENQ }) (\<lambda>_. stable fr pl H)" for a
    by (rule ht_bind [OF r], rule ht_keeps, rule keeps)
  show ?thesis unfolding keeps_ht test_withdraw_def
    apply (rule ht_getP, rule ht_bind [OF u])
    apply (rule e | (rule ht_keeps_bind, intro keeps))+
    done
qed

lemma test_timeout_ht:
  assumes p: "p \<in> set pl"
  shows "ht (stable fr pl H) (test_timeout p) (\<lambda>r. stable fr pl (case r of Inl e \<Rightarrow> H | Inr f \<Rightarrow> f # H))"
  unfolding test_timeout_def
  apply (rule ht_bind [OF take_test_ht [OF p]], rule ht_option)
   apply (simp, rule ht_keeps_bind, intro keeps, rule ht_keeps_bind, intro keeps test_withdraw_keeps p,
      rule ht_E, simp)
  apply (rule ht_E, simp)
  done

lemma test_finish_ht: "ht (stable fr pl (f # H)) (test_finish f len) (\<lambda>_. stable fr pl H)"
  unfolding test_finish_def
  by (rule ht_keeps_bind, rule keeps, rule ht_bind [OF release_ht], rule ht_keeps, rule keeps)

section \<open>The writer\<close>

lemma take_tx_ctrl_len:
  "result hdlcTakeFrame s = Some f \<Longrightarrow> f_tx_ctrl_len (frame_of (exec hdlcTakeFrame s) f) = 0"
  by (cases "fp_free (s_pool s)")
    (auto simp: hdlcTakeFrame_def set_pool_def take_none take_some frame_of_def fresh_frame_def pool_simps)

lemma write_take_ht:
  "ht (stable fr pl H) (write_take p n)
    (\<lambda>v s. case v of WFrame f k \<Rightarrow> stable fr pl (f # H) s \<and> f_tx_ctrl_len (frame_of s f) = 0
       \<and> k = writer_chunk fr (s_fcs_size s) (unat (p_mifls (s_peers s p))) n
     | _ \<Rightarrow> stable fr pl H s)"
proof (rule htI)
  fix s assume i: "stable fr pl H s"
  have e: "s_fcs_size (exec hdlcTakeFrame s) = s_fcs_size s" "s_peers (exec hdlcTakeFrame s) = s_peers s"
    by (simp_all add: hdlcTakeFrame_def set_pool_def)
  from i take_sinv [OF i] take_tx_ctrl_len [of s] invD(1) [OF i] show "wp (write_take p n) (\<lambda>v s. case v of
      WFrame f k \<Rightarrow> stable fr pl (f # H) s \<and> f_tx_ctrl_len (frame_of s f) = 0
       \<and> k = writer_chunk fr (s_fcs_size s) (unat (p_mifls (s_peers s p))) n
     | _ \<Rightarrow> stable fr pl H s) s"
    by (cases "result hdlcTakeFrame s") (auto simp: write_take_def wp_def Let_def e)
qed

lemma frame_of_updF [simp]:
  "frame_of (exec (updF f g) s) h = (if h = f then g (frame_of s f) else frame_of s h)"
  by (simp add: updF_def frame_of_def pool_simps)

lemma tx_ctrl_len_writeF [simp]:
  "f_tx_ctrl_len (frame_of (exec (writeF f i v) s) h) = f_tx_ctrl_len (frame_of s h)"
  by (simp add: writeF_def faultM_def frame_of_def updF_def pool_simps)

lemma tx_ctrl_len_writeFs [simp]:
  "f_tx_ctrl_len (frame_of (exec (writeFs f i vs) s) h) = f_tx_ctrl_len (frame_of s h)"
  by (induction vs arbitrary: i s) simp_all

lemma write_fill_sinv:
  assumes i: "stable fr pl (f # H) s" and l: "IOHDLC_FRAME_INFO_pos fr + length chunk \<le> fp_framesize (s_pool s)"
  shows "stable fr pl (f # H) (exec (write_fill p f chunk) s)"
    "f_tx_ctrl_len (frame_of (exec (write_fill p f chunk) s) f) = f_tx_ctrl_len (frame_of s f)"
proof -
  note fr = invD(1) [OF i]
  have b: "addr_pos fr < fp_framesize (s_pool s)" "ctrl_pos fr 0 < fp_framesize (s_pool s)"
    using pos_lt7 [of fr] invD(9) [OF i] by linarith+
  show "stable fr pl (f # H) (exec (write_fill p f chunk) s)"
    using b l by (auto simp: write_fill_def fr intro!: keepsD [OF keeps_elen(1)] writeFs_sinv writeF_sinv i)
  show "f_tx_ctrl_len (frame_of (exec (write_fill p f chunk) s) f) = f_tx_ctrl_len (frame_of s f)"
    by (simp add: write_fill_def set_elen_def Let_def)
qed

lemma win_ok_enqueue:
  assumes "win_ok fr hp q" "f_tx_ctrl_len (hp f) \<noteq> ctrl_size fr"
  shows "win_ok fr hp (q\<lparr>p_trans_q := p_trans_q q @ [f], p_i_pending_count := p_i_pending_count q + 1\<rparr>)"
proof -
  from assms(1) obtain us ws where w: "p_trans_q q = us @ ws"
    "seqd fr hp (unat (p_nr q)) (p_retrans_q q @ us)" "\<forall>f \<in> set ws. f_tx_ctrl_len (hp f) \<noteq> ctrl_size fr"
    "unat (p_vs q) = (unat (p_nr q) + length (p_retrans_q q)) mod modulus fr"
    "unat (p_vs_highest q) = (unat (p_nr q) + length (p_retrans_q q) + length us) mod modulus fr"
    "length (p_retrans_q q) + length us \<le> unat (p_ks q)"
    "unat (p_ks q) < modulus fr" "unat (p_nr q) < modulus fr" "unat (p_vr q) < modulus fr"
    "p_i_pending_count q = word_of_nat (length (p_trans_q q) + length (p_retrans_q q))"
    unfolding win_ok_def by blast
  show ?thesis unfolding win_ok_def
    by (rule exI [of _ us], rule exI [of _ "ws @ [f]"]) (use w assms(2) in auto)
qed

lemma write_enqueue_ht:
  assumes p: "p \<in> set pl"
  shows "ht (\<lambda>s. stable fr pl (f # H) s \<and> f_tx_ctrl_len (frame_of s f) = 0) (write_enqueue p f)
    (\<lambda>_. stable fr pl H)"
proof (rule htI, elim conjE)
  fix s assume i: "stable fr pl (f # H) s" and c: "f_tx_ctrl_len (frame_of s f) = 0"
  have "ctrl_size fr \<noteq> 0" using invD(3) [OF i] by (auto simp: framing_ok_def)
  then have w: "win_ok fr (fp_heap (s_pool s)) (s_peers s p\<lparr>p_trans_q := p_trans_q (s_peers s p) @ [f],
      p_i_pending_count := p_i_pending_count (s_peers s p) + 1\<rparr>)"
    using invD(7) [OF i p] c by (intro win_ok_enqueue) (auto simp: frame_of_def)
  have "stable fr pl H (upd_peer p (\<lambda>q. q\<lparr>p_trans_q := p_trans_q q @ [f],
      p_i_pending_count := p_i_pending_count q + 1\<rparr>) s)"
    by (rule sinv_move_upd [OF i p])
      (use w in \<open>auto simp: peer_frames_def um_frames_def\<close>)
  with release_sinv [OF i] show "wp (write_enqueue p f) (\<lambda>_. stable fr pl H) s"
    by (simp add: write_enqueue_def getP_def updP_def wp_def)
qed

lemma write_done_keeps: "keeps (stable fr pl H) (write_done p sig r)"
  unfolding write_done_def by (intro keeps keeps_updP_irr) (simp add: pcore_def)

lemma write_admit_keeps: "keeps (\<lambda>s. stable fr pl H s \<and> \<not> tx_reset_pending (s_peers s p)) (write_admit p)"
  by (simp add: keeps_def write_admit_def getP_def assertM_def tx_reset_pending_def ss_set_def updP_def
      inv_updP_irr pcore_def)

section \<open>The reader\<close>

lemma read_begin_done_keeps: "keeps (stable fr pl H) (read_begin p)" "keeps (stable fr pl H) (read_done p)"
  unfolding read_begin_def read_done_def by (intro keeps)+

lemma clear_rx_terminal_keeps: "keeps (stable fr pl H) (clear_rx_terminal p)"
  unfolding clear_rx_terminal_def by (intro keeps_updP_irr) (simp add: pcore_def)

definition readable :: "framing \<Rightarrow> frame \<Rightarrow> nat \<Rightarrow> bool" where
  "readable fr fm off \<longleftrightarrow> IOHDLC_FRAME_INFO_pos fr + off \<le> unat (f_elen fm)
     \<and> unat (f_elen fm) \<le> length (f_bytes fm)"

text \<open>What the reader would take next is a frame with a complete header.\<close>

definition next_readable :: "station \<Rightarrow> nat \<Rightarrow> bool" where
  "next_readable s p =
     (let q = s_peers s p in
      case p_partial_read_frame q of
        Some f \<Rightarrow> readable (s_framing s) (frame_of s f) (p_partial_read_offset q)
      | None \<Rightarrow> (case p_recept_q q of [] \<Rightarrow> True | f # _ \<Rightarrow> readable (s_framing s) (frame_of s f) 0))"

lemma info_len_of:
  assumes fr: "framing_ok fr" and r: "IOHDLC_FRAME_INFO_pos fr \<le> unat (f_elen fm)"
  shows "unat (info_len_of fr fm) = unat (f_elen fm) - IOHDLC_FRAME_INFO_pos fr"
proof -
  have h: "unat (ucast (frame_offset fr) + 1 + ucast (ctrl_size fr) :: u64) = IOHDLC_FRAME_INFO_pos fr"
    using fr by (auto simp: framing_ok_def IOHDLC_FRAME_INFO_pos_def unat_word_ariths
        unsigned_ucast_eq word_le_nat_alt take_bit_eq_mod)
  have e: "unat (ucast (f_elen fm) :: u64) = unat (f_elen fm)" by (simp add: unsigned_ucast_eq take_bit_eq_mod) (rule mod_less, rule order.strict_trans [OF unsigned_less], simp)
  have "(ucast (frame_offset fr) + 1 + ucast (ctrl_size fr) :: u64) \<le> ucast (f_elen fm)"
    using r by (simp add: word_le_nat_alt h e)
  then show ?thesis unfolding info_len_of_def by (simp add: unat_sub h e)
qed

lemma relink_sinv:
  assumes i: "sinv ({}, {f}) fr pl (f # H) {} s" and p: "p \<in> set pl"
    and n: "p_partial_read_frame (s_peers s p) = None"
  shows "stable fr pl H (upd_peer p (\<lambda>q. q\<lparr>p_partial_read_frame := Some f\<rparr>) s)"
proof -
  let ?q = "(s_peers s p)\<lparr>p_partial_read_frame := Some f\<rparr>"
  have "owners_ok {} pl H (s_pool s) (s_tx_pipe s) ((s_peers s)(p := ?q))"
    using owners_move [OF p invD(4) [OF i], of "f # H" "s_peers s" H ?q] invD(5) [OF i]
    by (simp add: peer_frames_def n)
  moreover have "f \<notin> set H" using owners_okD(2) [OF invD(5) [OF i]] by simp
  then have "quiet {} pl H (s_tx_pipe s) ((s_peers s)(p := ?q))"
    using invD(11) [OF i] p by (auto simp: quiet_def um_frames_def)
  ultimately show ?thesis using i pwin_irr [OF i p, of ?q] by (auto simp: sinv_def)
qed

lemma unlink_sinv:
  assumes i: "stable fr pl H s" and p: "p \<in> set pl" and f: "p_partial_read_frame (s_peers s p) = Some f"
  shows "sinv ({}, {f}) fr pl (f # H) {} (upd_peer p (\<lambda>q. q\<lparr>p_partial_read_frame := None\<rparr>) s)"
proof -
  let ?q = "(s_peers s p)\<lparr>p_partial_read_frame := None\<rparr>"
  have "owners_ok {} pl (f # H) (s_pool s) (s_tx_pipe s) ((s_peers s)(p := ?q))"
    using owners_move [OF p invD(4) [OF i], of H "s_peers s" "f # H" ?q] invD(5) [OF i]
    by (simp add: peer_frames_def f)
  moreover have "quiet {f} pl (f # H) (s_tx_pipe s) ((s_peers s)(p := ?q))"
    using invD(11) [OF i] p by (auto simp: quiet_def um_frames_def)
  ultimately show ?thesis using i pwin_irr [OF i p, of ?q] by (auto simp: sinv_def)
qed

lemma upd_peer_upd_peer: "upd_peer p g (upd_peer p h s) = upd_peer p (\<lambda>q. g (h q)) s"
  by (simp add: upd_peer_def)

text \<open>Only the last write to the pointer of the partial frame counts.\<close>

lemma read_copy_overwrites:
  "exec (read_copy p f room) (upd_peer p (\<lambda>q. q\<lparr>p_partial_read_frame := x\<rparr>) s) = exec (read_copy p f room) s"
proof -
  have c: "(\<lambda>q. q\<lparr>p_partial_read_frame := x, p_partial_read_offset := n, p_partial_read_frame := Some f\<rparr>)
      = (\<lambda>q. q\<lparr>p_partial_read_offset := n, p_partial_read_frame := Some f\<rparr>)"
    "(\<lambda>q. q\<lparr>p_partial_read_frame := x, p_partial_read_offset := n, p_partial_read_frame := None,
         p_partial_read_offset := 0\<rparr>)
      = (\<lambda>q. q\<lparr>p_partial_read_offset := n, p_partial_read_frame := None, p_partial_read_offset := 0\<rparr>)" for n
    by (simp_all add: fun_eq_iff)
  have ff: "exec (assertM b) (upd_peer p g s) = upd_peer p g (exec (assertM b) s)" for b g s
    by (simp add: assertM_def faultM_def upd_peer_def)
  show ?thesis
    by (simp add: read_copy_def Let_def updP_def release_upd_peer upd_peer_upd_peer c
        ff IOHDLC_IS_BUSY_def cong: if_cong)
qed

lemma partial_none: "p_partial_read_frame q = None \<Longrightarrow> q\<lparr>p_partial_read_frame := None\<rparr> = q"
  by (cases q) simp

lemma read_copy_hand:
  assumes i: "sinv ({}, {f}) fr pl (f # H) {} s" and p: "p \<in> set pl"
    and n: "p_partial_read_frame (s_peers s p) = None"
    and r: "readable fr (frame_of s f) (p_partial_read_offset (s_peers s p))"
  shows "stable fr pl H (exec (read_copy p f room) s)"
proof -
  let ?off = "p_partial_read_offset (s_peers s p)"
  let ?il = "info_len_of fr (frame_of s f)"
  define k where "k = min (unat (?il - word_of_nat ?off)) room"
  note fr = invD(1) [OF i]
  have il: "unat ?il = unat (f_elen (frame_of s f)) - IOHDLC_FRAME_INFO_pos fr"
    using r by (intro info_len_of [OF invD(3) [OF i]]) (simp add: readable_def)
  have le: "?off \<le> unat ?il" using r unfolding il readable_def by linarith
  have w: "unat (word_of_nat ?off :: u64) = ?off"
    using le unsigned_less [of ?il, where ?'a = nat] by (simp add: unsigned_of_nat take_bit_eq_mod)
  have av: "unat (?il - word_of_nat ?off) = unat ?il - ?off"
    using le w by (simp add: unat_sub word_le_nat_alt)
  have ok: "k = 0 \<or> IOHDLC_FRAME_INFO_pos fr + ?off + k \<le> length (f_bytes (frame_of s f))"
    using r av il by (auto simp: k_def readable_def)
  let ?s = "upd_peer p (\<lambda>q. q\<lparr>p_partial_read_offset := ?off + k\<rparr>) s"
  have i1: "sinv ({}, {f}) fr pl (f # H) {} ?s" using i by (simp add: inv_updP_irr pcore_def)
  have keep: "stable fr pl H (upd_peer p (\<lambda>q. q\<lparr>p_partial_read_frame := Some f\<rparr>) ?s)"
    by (rule relink_sinv [OF i1 p]) (simp add: n)
  let ?u = "\<lambda>q. q\<lparr>p_partial_read_frame := None, p_partial_read_offset := 0\<rparr>"
  have e: "upd_peer p ?u ?s = upd_peer p (\<lambda>q. q\<lparr>p_partial_read_offset := 0\<rparr>) s"
    using n by (simp add: upd_peer_upd_peer) (simp add: upd_peer_def partial_none)
  have "sinv ({}, {f}) fr pl (f # H) {} (upd_peer p ?u ?s)"
    unfolding e using i by (simp add: inv_updP_irr pcore_def)
  then have rel: "stable fr pl H (upd_peer p ?u (exec (hdlcReleaseFrame f) ?s))"
    unfolding release_upd_peer [symmetric] by (rule release_loud)
  have wake: "stable fr pl H (exec (ioHdlcBroadcastFlags e) (upd_peer p ?u (exec (hdlcReleaseFrame f) ?s)))" for e
    by (rule keepsD [OF keeps_small(10) rel])
  have k: "min (unat (info_len_of (s_framing s) (frame_of s f) - word_of_nat ?off)) room = k"
    by (simp add: k_def fr)
  have e: "exec (assertM (k = 0 \<or> IOHDLC_FRAME_INFO_pos (s_framing s) + ?off + k
      \<le> length (f_bytes (frame_of s f)))) s = s"
    using ok by (simp add: assertM_def fr)
  show ?thesis
    unfolding read_copy_def run_simps Let_def id_apply k e updP_def
    using keep rel wake by (simp add: updP_def)
qed

lemma read_next_cases:
  "(\<exists>v. result (read_next p n) s = v \<and> (\<forall>f. v \<noteq> RFrame f)
      \<and> (exec (read_next p n) s = s \<or> exec (read_next p n) s = exec (clear_rx_terminal p) s))
   \<or> (\<exists>f. result (read_next p n) s = RFrame f \<and> p_partial_read_frame (s_peers s p) = Some f
      \<and> exec (read_next p n) s = s)
   \<or> (\<exists>f fs. result (read_next p n) s = RFrame f \<and> p_partial_read_frame (s_peers s p) = None
      \<and> p_recept_q (s_peers s p) = f # fs
      \<and> exec (read_next p n) s = upd_peer p (\<lambda>q. q\<lparr>p_recept_q := tl (p_recept_q q), p_partial_read_offset := 0\<rparr>) s)"
  by (cases "p_partial_read_frame (s_peers s p)"; cases "p_recept_q (s_peers s p)")
    (simp_all add: read_next_def getP_def updP_def s_peer_rx_has_data_def)

lemma read_round_keeps:
  assumes p: "p \<in> set pl" and i: "stable fr pl H s" and r: "next_readable s p"
  shows "stable fr pl H (exec (read_round p n room) s)"
proof -
  note fr = invD(1) [OF i]
  from read_next_cases [of p n s] consider
      v where "result (read_next p n) s = v" "\<And>f. v \<noteq> RFrame f"
        "exec (read_next p n) s = s \<or> exec (read_next p n) s = exec (clear_rx_terminal p) s"
    | f where "result (read_next p n) s = RFrame f" "p_partial_read_frame (s_peers s p) = Some f"
        "exec (read_next p n) s = s"
    | f fs where "result (read_next p n) s = RFrame f" "p_partial_read_frame (s_peers s p) = None"
        "p_recept_q (s_peers s p) = f # fs"
        "exec (read_next p n) s = upd_peer p (\<lambda>q. q\<lparr>p_recept_q := tl (p_recept_q q), p_partial_read_offset := 0\<rparr>) s"
    by blast
  then show ?thesis
  proof cases
    case 1
    then have "stable fr pl H (exec (read_next p n) s)"
      using i keepsD [OF clear_rx_terminal_keeps i] by auto
    then show ?thesis using 1 by (cases v) (auto simp: read_round_def)
  next
    case 2
    have "stable fr pl H (exec (read_copy p f room) (upd_peer p (\<lambda>q. q\<lparr>p_partial_read_frame := None\<rparr>) s))"
      by (rule read_copy_hand [OF unlink_sinv [OF i p 2(2)] p])
        (use r 2(2) in \<open>simp_all add: next_readable_def fr\<close>)
    then show ?thesis using 2 by (simp add: read_round_def read_copy_overwrites case_prod_beta)
  next
    case 3
    let ?s = "upd_peer p (\<lambda>q. q\<lparr>p_recept_q := tl (p_recept_q q), p_partial_read_offset := 0\<rparr>) s"
    have "sinv ({}, {f}) fr pl (f # H) {} (upd_peer p (set_q ReceptQ fs) s)"
      by (rule pop_sinv [OF i p]) (simp_all add: 3)
    then have "sinv ({}, {f}) fr pl (f # H) {} (upd_peer p (\<lambda>q. q\<lparr>p_partial_read_offset := 0\<rparr>)
        (upd_peer p (set_q ReceptQ fs) s))"
      by (simp add: inv_updP_irr pcore_def)
    moreover have "upd_peer p (\<lambda>q. q\<lparr>p_partial_read_offset := 0\<rparr>) (upd_peer p (set_q ReceptQ fs) s) = ?s"
      using 3(3) by (simp add: upd_peer_def)
    ultimately have "sinv ({}, {f}) fr pl (f # H) {} ?s" by simp
    then have "stable fr pl H (exec (read_copy p f room) ?s)"
      by (rule read_copy_hand [OF _ p]) (use r 3 in \<open>simp_all add: next_readable_def fr\<close>)
    then show ?thesis using 3 by (simp add: read_round_def case_prod_beta)
  qed
qed

end
