(* ===== verification/Hdlc_InvInit.thy ===== *)
theory Hdlc_InvInit
  imports Hdlc_InvApi
begin

text \<open>
  Set-up establishes the station invariant: a successful \<open>ioHdlcStationInit\<close> on the software
  driver gives a station without peers in which every frame is free, and each successful
  \<open>ioHdlcAddPeer\<close> adds a peer with empty queues and a window of the modulus less one.
\<close>

section \<open>Sizes\<close>

lemma init_framing_ok:
  assumes "m = 3 \<or> m = 7" "fff = 0 \<or> fff = 1 \<or> fff = 2"
  shows "framing_ok ((init_framing m fr)\<lparr>frame_offset := fff\<rparr>)"
  using assms by (auto simp: init_framing_def framing_ok_def Let_def)

text \<open>A frame has room for the largest header and an information field of five octets.\<close>

lemma frame_size_room:
  assumes m: "m = 3 \<or> m = 7" and ff: "fff = 0 \<or> fff = 1 \<or> fff = 2"
    and x: "5 \<le> info" "info \<le> 60000"
  shows "unat fff + 7 \<le> unat (calculate_frame_size m fff 2 info False)"
proof -
  have i: "5 \<le> unat info" "unat info \<le> 60000" using x by (simp_all add: word_le_nat_alt)
  have c: "(if m = 3 then 1 else (ucast m + 1) div 4 :: u32) = (if m = 3 then 1 else 2)"
    using m by auto
  have e: "unat (k + info) = unat k + unat info" if "unat k \<le> 10" for k :: u32
    using that i by (simp add: unat_word_ariths)
  show ?thesis
    using m ff i unfolding calculate_frame_size_def Let_def c
    by (elim disjE) (simp_all add: word_less_nat_alt e add.assoc [symmetric] unat_word_ariths)
qed

section \<open>The pool after initialisation\<close>

lemma config_pool:
  assumes "hdlcPoolConfigWatermark l h None None 0 P = Some (P', c)"
  shows "pool_ok P' = pool_ok P" "pool_refs P' = pool_refs P" "fp_heap P' = fp_heap P"
    "fp_total P' = fp_total P" "fp_framesize P' = fp_framesize P"
  using assms by (auto simp: hdlcPoolConfigWatermark_def Let_def pool_ok_def pool_refs_def fun_eq_iff split: if_splits)

lemma fresh_pool_refs: "pool_refs (fmpInit h n c) f = 0"
  by (auto simp: pool_refs_def fmpInit_def hdlc_pool_init_watermark_def build_free_rev)

lemma fresh_pool_gate: "f < unat c \<Longrightarrow> f_gate_free (fp_heap (fmpInit h n c) f)"
  by (simp add: fmpInit_def hdlc_pool_init_watermark_def)

lemma fresh_pool_size: "fp_framesize (fmpInit h n c) = n" "fp_total (fmpInit h n c) = c"
  by (simp_all add: fmpInit_def hdlc_pool_init_watermark_def)

lemma run_thenE [simp]:
  "exec (thenE m k) s = (case result m s of Inl e \<Rightarrow> exec m s | Inr x \<Rightarrow> exec k (exec m s))"
  "result (thenE m k) s = (case result m s of Inl e \<Rightarrow> Inl e | Inr x \<Rightarrow> result k (exec m s))"
  by (simp_all add: thenE_def bindE_def split: sum.split)

lemma watermark_some:
  assumes "w \<le> 50"
  shows "hdlcPoolConfigWatermark (if w \<noteq> 0 then w else IOHDLC_POOL_WATERMARK_PCT_DEFAULT)
      ((if w \<noteq> 0 then w else IOHDLC_POOL_WATERMARK_PCT_DEFAULT) * IOHDLC_POOL_WATERMARK_HIGH_MULTIPLIER)
      None None 0 P \<noteq> None"
proof -
  have u: "unat w \<le> 50" using assms by (simp add: word_le_nat_alt)
  have "w * 2 \<le> 100" "w \<noteq> 0 \<longrightarrow> w < w * 2" "w \<le> 100"
    using u by (auto simp: word_le_nat_alt word_less_nat_alt unat_word_ariths unat_gt_0)
  then show ?thesis
    by (cases "w = 0") (simp_all add: hdlcPoolConfigWatermark_def Let_def
        IOHDLC_POOL_WATERMARK_PCT_DEFAULT_def IOHDLC_POOL_WATERMARK_HIGH_MULTIPLIER_def)
qed

lemma init_pool_sinv:
  assumes w: "cfg_pool_watermark cfg \<le> 50" and r: "result (init_pool plat cfg n) s = Inr ()"
    and s: "s_framing s = fr" "framing_ok fr" "s_peer_list s = []" "s_c_peer s = None"
      "s_tx_pipe s = []" "\<not> s_fault s"
    and n: "unat (frame_offset fr) + 7 \<le> unat n"
  shows "stable fr [] [] (exec (init_pool plat cfg n) s)"
proof -
  define lay where "lay = iohdlc_fmempool_layout (pf_data_align plat) (pf_min_object_align plat)
            (pf_header_size plat) IOHDLC_FRAME_POOL_ALIGNMENT (cfg_frame_arena cfg)
            (cfg_frame_arena_size cfg) (ucast n) IOHDLC_FRAME_POOL_ALIGNMENT"
  define P0 where "P0 = fmpInit (cfg_frames cfg) (unat n) (lay_count lay)"
  define pct where "pct = (if cfg_pool_watermark cfg \<noteq> 0 then cfg_pool_watermark cfg
                 else IOHDLC_POOL_WATERMARK_PCT_DEFAULT)"
  from watermark_some [OF w, of P0, folded pct_def] obtain P c where
    P: "hdlcPoolConfigWatermark pct (pct * IOHDLC_POOL_WATERMARK_HIGH_MULTIPLIER) None None 0 P0 = Some (P, c)"
    unfolding not_None_eq by (metis surj_pair)
  have "init_pool plat cfg n = (if lay_count lay < IOHDLC_MIN_FRAME_POOL_FRAMES then failE ENOMEM
      else liftE (modify (\<lambda>s. s\<lparr>s_pool := P\<rparr>)))"
    by (simp only: init_pool_def Let_def lay_def [symmetric] pct_def [symmetric] P0_def [symmetric]
        P option.case prod.case)
  then have e: "exec (init_pool plat cfg n) s = s\<lparr>s_pool := P\<rparr>"
    using r by (cases "lay_count lay < IOHDLC_MIN_FRAME_POOL_FRAMES") simp_all
  note cp = config_pool [OF P]
  have "owners_ok {} [] [] P (s_tx_pipe s) (s_peers s)"
    using s(5) fmpInit_ok fresh_pool_refs fresh_pool_gate fresh_pool_size
    by (simp add: owners_ok_def cp P0_def pframes_def)
  then show ?thesis unfolding e using s n cp(5) fresh_pool_size
    by (simp add: sinv_def quiet_def P0_def)
qed

section \<open>Initialisation\<close>

definition info_len_ok :: "station_config \<Rightarrow> bool" where
  "info_len_ok cfg \<longleftrightarrow> cfg_max_info_len cfg = 0 \<or> 5 \<le> cfg_max_info_len cfg \<and> cfg_max_info_len cfg \<le> 60000"

lemma init_max_info_range:
  assumes "info_len_ok cfg" "c = 1 \<or> c = 2"
  shows "5 \<le> init_max_info cfg fff c 2 \<and> init_max_info cfg fff c 2 \<le> 60000"
  using assms by (auto simp: init_max_info_def info_len_ok_def IOHDLC_MAX_INFO_LEN_DEFAULT_NO_FFF_def)

lemma frame_size_room_tr:
  assumes "m = 3 \<or> m = 7" "fff = 0 \<or> fff = 1 \<or> fff = 2" "5 \<le> info" "info \<le> 60000"
  shows "unat fff + 7 \<le> unat (calculate_frame_size m fff 2 info tr)"
proof -
  note r = frame_size_room [OF assms]
  have i: "unat info \<le> 60000" using assms(4) by (simp add: word_le_nat_alt)
  have c: "(if m = 3 then 1 else (ucast m + 1) div 4 :: u32) = (if m = 3 then 1 else 2)"
    using assms(1) by auto
  have e: "unat (k + info) = unat k + unat info" if "unat k \<le> 10" for k :: u32
    using that i by (simp add: unat_word_ariths)
  have "unat (calculate_frame_size m fff 2 info False) \<le> 70000"
    using assms(1,2) i unfolding calculate_frame_size_def Let_def c
    by (elim disjE) (simp_all add: word_less_nat_alt e add.assoc [symmetric] unat_word_ariths)
  moreover have "calculate_frame_size m fff 2 info True = calculate_frame_size m fff 2 info False * 2"
    by (simp add: calculate_frame_size_def Let_def)
  ultimately show ?thesis using r by (cases tr) (simp_all add: unat_word_ariths)
qed

lemma init_driver_sinv:
  assumes w: "cfg_pool_watermark cfg \<le> 50" and i: "info_len_ok cfg"
    and m: "cfg_log2mod cfg = 3 \<or> cfg_log2mod cfg = 7"
    and r: "result (init_driver plat cfg s_swdriver_base_caps os want) s = Inr ()"
    and s: "s_framing s = (init_framing (cfg_log2mod cfg) fr0)\<lparr>frame_offset := f0\<rparr>"
      "s_peer_list s = []" "s_c_peer s = None" "s_tx_pipe s = []" "\<not> s_fault s"
  shows "\<exists>fr. stable fr [] [] (exec (init_driver plat cfg s_swdriver_base_caps os want) s)"
proof -
  let ?fff = "init_fff_type cfg os"
  let ?fr = "(init_framing (cfg_log2mod cfg) fr0)\<lparr>frame_offset := ?fff\<rparr>"
  have d: "s_fcs_size_supported (fcs_supported_sizes s_swdriver_base_caps) 2"
    by (simp add: s_fcs_size_supported_def s_swdriver_base_caps_def)
  have dd: "fcs_default_size s_swdriver_base_caps = 2" by (simp add: s_swdriver_base_caps_def)
  obtain dc where dc: "drv_configure s_swdriver_base_caps 2 want ?fff = Inr dc"
    using r by (cases "drv_configure s_swdriver_base_caps 2 want ?fff") (auto simp: init_driver_def Let_def dd)
  have fff: "?fff = 0 \<or> ?fff = 1 \<or> ?fff = 2"
    using dc by (auto simp: drv_configure_def s_swdriver_base_caps_def split: if_splits)
  have fr: "framing_ok ?fr" by (rule init_framing_ok [OF m fff])
  have cs: "ctrl_size ?fr = 1 \<or> ctrl_size ?fr = 2" using m by (auto simp: init_framing_def Let_def)
  define n where "n = calculate_frame_size (cfg_log2mod cfg) ?fff 2 (init_max_info cfg ?fff (ctrl_size ?fr) 2) want"
  have n: "unat ?fff + 7 \<le> unat n"
    unfolding n_def using frame_size_room_tr [OF m fff] init_max_info_range [OF i cs] by blast
  define s1 where "s1 = s\<lparr>s_framing := ?fr, s_fcs_size := 2\<rparr>"
  have e: "exec (init_driver plat cfg s_swdriver_base_caps os want) s
      = exec (thenE (init_pool plat cfg n) (liftE (whenM (cfg_phydriver cfg \<noteq> None)
          (modify (\<lambda>s. s\<lparr>s_driver_started := True\<rparr>))))) s1"
    "result (init_driver plat cfg s_swdriver_base_caps os want) s
      = result (thenE (init_pool plat cfg n) (liftE (whenM (cfg_phydriver cfg \<noteq> None)
          (modify (\<lambda>s. s\<lparr>s_driver_started := True\<rparr>))))) s1"
    using s(1) by (simp_all add: init_driver_def Let_def dd dc s1_def n_def)
  have r1: "result (init_pool plat cfg n) s1 = Inr ()"
    using r unfolding e by (simp split: sum.splits)
  have "stable ?fr [] [] (exec (init_pool plat cfg n) s1)"
    using s n by (intro init_pool_sinv [OF w r1 _ fr]) (simp_all add: s1_def)
  then have "stable ?fr [] [] (exec (init_driver plat cfg s_swdriver_base_caps os want) s)"
    unfolding e using r1 by (simp add: sinv_def)
  then show ?thesis ..
qed

definition init_cfg_ok :: "station_config \<Rightarrow> bool" where
  "init_cfg_ok cfg \<longleftrightarrow> cfg_driver cfg = Some (Some s_swdriver_base_caps)
     \<and> (cfg_log2mod cfg = 3 \<or> cfg_log2mod cfg = 7) \<and> info_len_ok cfg \<and> cfg_pool_watermark cfg \<le> 50"

lemma init_stable:
  assumes c: "init_cfg_ok cfg" and r: "result (ioHdlcStationInit plat cfg) s = Inr ()"
    and s: "s_tx_pipe s = []" "\<not> s_fault s"
  shows "\<exists>fr. stable fr [] [] (exec (ioHdlcStationInit plat cfg) s)"
proof -
  define pc where "pc = (case cfg_phydriver cfg of None \<Rightarrow> 0 | Some c \<Rightarrow> c)"
  define os where "os = (case cfg_optfuncs cfg of None \<Rightarrow> default_optfuncs | Some os \<Rightarrow> os)"
  define s1 where "s1 = exec (init_basic cfg) s"
  define s2 where "s2 = exec (init_timeouts cfg) s1"
  define s3 where "s3 = exec (init_lists cfg pc os) s2"
  have cd: "cfg_driver cfg = Some (Some s_swdriver_base_caps)" using c by (simp add: init_cfg_ok_def)
  have s2: "s_framing s2 = init_framing (cfg_log2mod cfg) (s_framing s1)" "s_tx_pipe s2 = []" "\<not> s_fault s2"
    using s by (auto simp: s2_def init_timeouts_def s1_def init_basic_def)
  have s3: "s_framing s3 = (init_framing (cfg_log2mod cfg) (s_framing s1))
        \<lparr>frame_offset := if has (os ! IOHDLC_OPT_FFF_OCT) IOHDLC_OPT_FFF then 1 else 0\<rparr>"
    "s_tx_pipe s3 = []" "\<not> s_fault s3" "s_peer_list s3 = []" "s_c_peer s3 = None"
    using s2 by (simp_all add: s3_def init_lists_def)
  have "\<exists>want. result (init_driver plat cfg s_swdriver_base_caps os want) s3 = Inr ()
      \<and> exec (ioHdlcStationInit plat cfg) s = exec (init_driver plat cfg s_swdriver_base_caps os want) s3"
    using r unfolding ioHdlcStationInit_def pc_def [symmetric] Let_def cd option.case os_def [symmetric]
    by (simp add: s1_def [symmetric] s2_def [symmetric] s3_def [symmetric] split: if_splits sum.splits)
      blast
  then obtain want where w: "result (init_driver plat cfg s_swdriver_base_caps os want) s3 = Inr ()"
    "exec (ioHdlcStationInit plat cfg) s = exec (init_driver plat cfg s_swdriver_base_caps os want) s3"
    by blast
  show ?thesis unfolding w(2)
    using c by (intro init_driver_sinv [OF _ _ _ w(1) s3(1)]) (simp_all add: init_cfg_ok_def s3)
qed

section \<open>Adding a peer\<close>

lemma addr2peer_mem: "addr2peer ps a pl = Some p \<Longrightarrow> p \<in> set pl \<and> p_addr (ps p) = a"
  by (induction pl) (auto split: if_splits)

lemma addr2peer_none: "addr2peer ps a pl = None \<longleftrightarrow> (\<forall>p \<in> set pl. p_addr (ps p) \<noteq> a)"
  by (induction pl) auto

lemma fresh_peer:
  "peer_frames (zero_peer\<lparr>p_addr := a, p_ks := k, p_kr := k, p_mifls := m, p_miflr := m,
     p_poll_retry_max := n\<rparr>) = []"
  "framing_ok fr \<Longrightarrow> win_ok fr hp (zero_peer\<lparr>p_addr := a, p_ks := modmask fr, p_kr := k', p_mifls := m,
     p_miflr := m, p_poll_retry_max := n\<rparr>)"
  by (auto simp: peer_frames_def zero_peer_def win_ok_def framing_ok_def modulus_def nw_def)

lemma pframes_append: "pframes (pl @ pl') ps = pframes pl ps @ pframes pl' ps"
  by (simp add: pframes_def)

lemma add_peer_stable:
  assumes i: "stable fr pl H s" and p: "p \<notin> set pl" and r: "result (ioHdlcAddPeer p a) s = Inr ()"
  shows "stable fr (pl @ [p]) H (exec (ioHdlcAddPeer p a) s)"
proof -
  define q where "q = zero_peer\<lparr>p_addr := a, p_ks := modmask fr, p_kr := modmask fr,
    p_mifls := peer_mifl s, p_miflr := peer_mifl s, p_poll_retry_max := s_poll_retry_max_cfg s\<rparr>"
  let ?c = "case s_c_peer s of None \<Rightarrow> Some p | Some c \<Rightarrow> Some c"
  have e: "exec (ioHdlcAddPeer p a) s = (upd_peer p (\<lambda>_. q) s)\<lparr>s_peer_list := pl @ [p], s_c_peer := ?c\<rparr>"
    using r invD(1,2) [OF i] by (auto simp: ioHdlcAddPeer_def updP_def q_def split: if_splits)
  have q: "peer_frames q = []" "um_frames q = []" "win_ok fr hp q" for hp
    using fresh_peer invD(3) [OF i] by (auto simp: q_def um_frames_def peer_frames_def)
  have "pframes pl ((s_peers s)(p := q)) = pframes pl (s_peers s)" using p by (intro pframes_cong) auto
  then have f: "pframes (pl @ [p]) ((s_peers s)(p := q)) = pframes pl (s_peers s)"
    by (simp add: pframes_append) (simp add: pframes_def q)
  have "owners_ok {} (pl @ [p]) H (s_pool s) (s_tx_pipe s) ((s_peers s)(p := q))"
    using invD(5) [OF i] by (simp add: owners_ok_def f)
  moreover have "quiet {} (pl @ [p]) H (s_tx_pipe s) ((s_peers s)(p := q))"
    using invD(11) [OF i] by (auto simp: quiet_def q)
  ultimately show ?thesis unfolding e using i p q(3)
    by (auto simp: sinv_def split: option.splits)
qed

text \<open>The window may be set while at most \<open>ks\<close> frames are out.\<close>

lemma set_window_stable:
  assumes i: "stable fr pl H s" and p: "p \<in> set pl"
    and q: "p_retrans_q (s_peers s p) = []" "p_trans_q (s_peers s p) = []"
  shows "stable fr pl H (exec (ioHdlcPeerSetWindow (Some p) ks kr) s)"
proof (cases "ks = 0 \<or> modmask fr < ks \<or> kr = 0 \<or> modmask fr < kr")
  case True
  then show ?thesis using i invD(1) [OF i] by (simp add: ioHdlcPeerSetWindow_def)
next
  case False
  let ?u = "\<lambda>q. q\<lparr>p_ks := ks, p_kr := kr\<rparr>"
  have "unat ks < modulus fr"
    using False invD(3) [OF i] by (auto simp: framing_ok_def modulus_def nw_def word_less_nat_alt)
  then have "win_ok fr (fp_heap (s_pool s)) (?u (s_peers s p))"
    using invD(7) [OF i p] q by (simp add: win_ok_def)
  then have "stable fr pl H (upd_peer p ?u s)"
    by (intro sinv_move_upd [OF i p]) (use invD(11) [OF i] in \<open>auto simp: peer_frames_def um_frames_def\<close>)
  then show ?thesis using False invD(1) [OF i] by (auto simp: ioHdlcPeerSetWindow_def updP_def)
qed

end
