(* ===== verification/Hdlc_Step.thy ===== *)
theory Hdlc_Step
  imports Hdlc_InvInit
begin

text \<open>
  The running station as a transition system. Its threads are the receive thread, the transmit
  thread, which is cut at the points where it gives up the state mutex, and the callers of the
  interface; the environment delivers frames of arbitrary contents, completes transfers and lets
  timers expire. The invariant of the station holds in every reachable state.
\<close>

section \<open>Commands of the threads\<close>

text \<open>
  The driver fills a frame from the pool with what it received and hands it to the receive thread;
  without a free frame the octets are dropped.
\<close>

definition fill_bytes :: "u8 list \<Rightarrow> u8 list \<Rightarrow> u8 list" where
  "fill_bytes bs old = take (length old) (bs @ drop (length bs) old)"

definition rx_frame :: "u8 list \<Rightarrow> u16 \<Rightarrow> unit hdlc" where
  "rx_frame bs n = do {
     r \<leftarrow> hdlcTakeFrame;
     (case r of
        None \<Rightarrow> ioHdlcRxEntry_round None
      | Some f \<Rightarrow> do {
          updF f (\<lambda>fm. fm\<lparr>f_bytes := fill_bytes bs (f_bytes fm), f_elen := n\<rparr>);
          ioHdlcRxEntry_round (Some f) }) }"

text \<open>The transmit thread: where it is in \<open>ioHdlcTxEntry\<close>, with the residual flags.\<close>

datatype txpc = TxWait u32 | TxDispatch nat u32 | TxPrefix nat u32 | TxLoop nat bool u32
  | TxTail nat bool u32 | TxStopped

definition tx_wake :: "u32 \<Rightarrow> txpc hdlc" where
  "tx_wake cm_flags = do {
     c \<leftarrow> gets s_c_peer;
     new \<leftarrow> (if cm_flags = 0 then iohdlc_evt_get_and_clear_flags else ret cm_flags);
     stop \<leftarrow> gets s_stop_requested;
     if stop then ret TxStopped
     else (case c of
        None \<Rightarrow> ret (TxWait 0)
      | Some p \<Rightarrow> do {
          r \<leftarrow> tx_ucommand p new;
          ret (case r of Inl cm \<Rightarrow> TxWait cm | Inr (p, cm) \<Rightarrow> TxDispatch p cm) }) }"

definition tx_dispatch_head :: "nat \<Rightarrow> u32 \<Rightarrow> txpc hdlc" where
  "tx_dispatch_head p cm_flags = do {
     um \<leftarrow> getP p p_um_state;
     whenM (has um IOHDLC_UM_RCVED) (tx_uresponse p);
     let cm = (if has um IOHDLC_UM_RCVED then cm_flags AND NOT IOHDLC_EVT_UM_RECVD else cm_flags)
       AND NOT IOHDLC_EVT_LINK_ST_CHG;
     q \<leftarrow> getP p id;
     if IOHDLC_PEER_DISC q \<or> IOHDLC_UM_ISSENT q then do {
       pri \<leftarrow> gets IOHDLC_IS_PRI;
       cm' \<leftarrow> (if pri \<and> IOHDLC_PEER_DISC q \<and> p_um_cmd q = 0 \<and> \<not> has (p_um_state q) IOHDLC_UM_SENT
         then tx_idle_peer
         else ret (cm AND (IOHDLC_EVT_C_RPLYTMO OR IOHDLC_EVT_LINK_REQ)));
       ret (TxWait cm') }
     else do {
       m \<leftarrow> gets s_mode;
       ret (if m = IOHDLC_OM_NRM \<or> m = IOHDLC_OM_ABM then TxPrefix p cm else TxWait cm) } }"

fun tx_advance :: "txpc \<Rightarrow> txpc hdlc" where
  "tx_advance (TxWait cm) = tx_wake cm"
| "tx_advance (TxDispatch p cm) = tx_dispatch_head p cm"
| "tx_advance (TxPrefix p cm) = do {
     (go, cm) \<leftarrow> connTx_prefix p cm;
     frmr \<leftarrow> getP p p_frmr_condition;
     ret (if \<not> go then TxWait cm else if frmr then TxTail p False cm else TxLoop p False cm) }"
| "tx_advance (TxLoop p sent cm) = do {
     (w, sent', cm) \<leftarrow> connTx_round p cm;
     ret (case w of
            IAgain \<Rightarrow> TxLoop p (sent \<or> sent') cm
          | ILeave \<Rightarrow> TxTail p (sent \<or> sent') cm
          | IAbort \<Rightarrow> TxWait cm) }"
| "tx_advance (TxTail p sent cm) = do { cm \<leftarrow> connTx_tail p sent cm; ret (TxWait cm) }"
| "tx_advance TxStopped = ret TxStopped"

text \<open>A fragment of a write: one round of its loop when the connection stays up.\<close>

definition write_fragment :: "nat \<Rightarrow> u8 list \<Rightarrow> unit hdlc" where
  "write_fragment p data = do {
     v \<leftarrow> write_take p (length data);
     (case v of
        WFrame f k \<Rightarrow> do { write_fill p f (take k data); r \<leftarrow> write_enqueue p f; ret () }
      | _ \<Rightarrow> ret ()) }"

definition has_room :: "station \<Rightarrow> nat \<Rightarrow> bool" where
  "has_room s p \<longleftrightarrow> IOHDLC_FRAME_INFO_pos (s_framing s) + unat (p_mifls (s_peers s p)) \<le> fp_framesize (s_pool s)"

section \<open>The transition system\<close>

text \<open>
  \<open>sy_hand\<close> are the frames in the hands of callers of the interface, \<open>sy_lost\<close> a ghost: the
  frames of overwritten TEST commands.
\<close>

record sys =
  sy_st :: station
  sy_tx :: txpc
  sy_hand :: "nat list"
  sy_lost :: "nat list"

definition owned :: "sys \<Rightarrow> nat set" where
  "owned y = set (sy_hand y @ sy_lost y @ pframes (s_peer_list (sy_st y)) (s_peers (sy_st y)) @ s_tx_pipe (sy_st y))"

definition upd_st :: "station \<Rightarrow> sys \<Rightarrow> sys" where
  "upd_st s y = y\<lparr>sy_st := s\<rparr>"

text \<open>A reception: if the kept TEST frame has lost its owner, it is recorded as lost.\<close>

definition receive :: "u8 list \<Rightarrow> u16 \<Rightarrow> sys \<Rightarrow> sys" where
  "receive bs n y =
     (let s' = exec (rx_frame bs n) (sy_st y); y' = upd_st s' y in
      y'\<lparr>sy_lost := [f \<leftarrow> kept_rsp (sy_st y). pool_refs (s_pool s') f \<noteq> 0 \<and> f \<notin> owned y'] @ sy_lost y\<rparr>)"

datatype action =
    Rx "u8 list" u16
  | RxIdle
  | Tx
  | TxDone nat
  | Timer nat timer_kind
  | LinkUp u32 u8
  | LinkUpEnd u8
  | LinkUpWake nat u8 u32
  | LinkDown u32
  | UiSend nat u32
  | UiGet nat
  | TestNew nat nat u32
  | TestGo nat
  | TestPoll nat
  | TestEnd nat
  | TestCheck nat
  | WriteBegin nat
  | WriteMore nat "u8 list"
  | WriteEnd nat bool "errno + nat"
  | ReadStart nat
  | ReadMore nat nat nat
  | ReadEnd nat

text \<open>
  When an action can occur. A station without peers receives nothing; a peer is in the list; the
  TEST frame to submit or to check is the one its caller took last; the information fields fit
  the frames; a write is admitted when the previous one has finished with its reset; the reader
  is only started on a frame that has a complete header.
\<close>

fun enabled :: "action \<Rightarrow> sys \<Rightarrow> bool" where
  "enabled (Rx bs n) y = (s_peer_list (sy_st y) \<noteq> [])"
| "enabled (TestNew p len t) y = has_room (sy_st y) p"
| "enabled (TestGo p) y = (p \<in> set (s_peer_list (sy_st y)) \<and> sy_hand y \<noteq> [])"
| "enabled (TestPoll p) y = (p \<in> set (s_peer_list (sy_st y)))"
| "enabled (TestEnd p) y = (p \<in> set (s_peer_list (sy_st y)))"
| "enabled (TestCheck len) y = (sy_hand y \<noteq> [])"
| "enabled (WriteBegin p) y = (\<not> tx_reset_pending (s_peers (sy_st y) p))"
| "enabled (WriteMore p data) y = (p \<in> set (s_peer_list (sy_st y)) \<and> has_room (sy_st y) p)"
| "enabled (ReadMore p tot room) y = (p \<in> set (s_peer_list (sy_st y)) \<and> next_readable (sy_st y) p)"
| "enabled _ y = True"

definition on_st :: "'a hdlc \<Rightarrow> sys \<Rightarrow> sys" where
  "on_st m y = upd_st (exec m (sy_st y)) y"

text \<open>What an action does to the system.\<close>

fun perform :: "action \<Rightarrow> sys \<Rightarrow> sys" where
  "perform (Rx bs n) y = receive bs n y"
| "perform RxIdle y = on_st (ioHdlcRxEntry_round None) y"
| "perform Tx y = y\<lparr>sy_st := exec (tx_advance (sy_tx y)) (sy_st y),
     sy_tx := result (tx_advance (sy_tx y)) (sy_st y)\<rparr>"
| "perform (TxDone f) y = on_st (driver_tx_done f) y"
| "perform (Timer p k) y = on_st (timer_signal_handler p k) y"
| "perform (LinkUp a m) y = on_st (link_up_start a m) y"
| "perform (LinkUpEnd m) y = on_st (link_up_timeout m) y"
| "perform (LinkUpWake p m flags) y = on_st (link_up_event p m flags) y"
| "perform (LinkDown a) y = on_st (link_down_start a) y"
| "perform (UiSend p v) y = on_st (ioHdlcPeerUiSend (Some p) v) y"
| "perform (UiGet p) y = on_st (ioHdlcPeerUiGet (Some p)) y"
| "perform (TestNew p len t) y = y\<lparr>sy_st := exec (test_prepare (Some p) len t) (sy_st y),
     sy_hand := (case result (test_prepare (Some p) len t) (sy_st y) of Inl e \<Rightarrow> [] | Inr f \<Rightarrow> [f]) @ sy_hand y\<rparr>"
| "perform (TestGo p) y = y\<lparr>sy_st := exec (test_submit p (hd (sy_hand y))) (sy_st y), sy_hand := tl (sy_hand y)\<rparr>"
| "perform (TestPoll p) y = y\<lparr>sy_st := exec (s_take_completed_test_frame_locked p) (sy_st y),
     sy_hand := (case result (s_take_completed_test_frame_locked p) (sy_st y) of None \<Rightarrow> [] | Some f \<Rightarrow> [f]) @ sy_hand y\<rparr>"
| "perform (TestEnd p) y = y\<lparr>sy_st := exec (test_timeout p) (sy_st y),
     sy_hand := (case result (test_timeout p) (sy_st y) of Inl e \<Rightarrow> [] | Inr f \<Rightarrow> [f]) @ sy_hand y\<rparr>"
| "perform (TestCheck len) y = y\<lparr>sy_st := exec (test_finish (hd (sy_hand y)) len) (sy_st y), sy_hand := tl (sy_hand y)\<rparr>"
| "perform (WriteBegin p) y = on_st (write_admit p) y"
| "perform (WriteMore p data) y = on_st (write_fragment p data) y"
| "perform (WriteEnd p sig r) y = on_st (write_done p sig r) y"
| "perform (ReadStart p) y = on_st (read_begin p) y"
| "perform (ReadMore p tot room) y = on_st (read_round p tot room) y"
| "perform (ReadEnd p) y = on_st (read_done p) y"

inductive step :: "sys \<Rightarrow> sys \<Rightarrow> bool" where
  act: "enabled a y \<Longrightarrow> step y (perform a y)"

text \<open>Stations as the interface sets them up.\<close>

inductive set_up :: "station \<Rightarrow> bool" where
  init: "init_cfg_ok cfg \<Longrightarrow> s_tx_pipe s = [] \<Longrightarrow> \<not> s_fault s
    \<Longrightarrow> result (ioHdlcStationInit plat cfg) s = Inr () \<Longrightarrow> set_up (exec (ioHdlcStationInit plat cfg) s)"
| add: "set_up s \<Longrightarrow> p \<notin> set (s_peer_list s) \<Longrightarrow> result (ioHdlcAddPeer p a) s = Inr ()
    \<Longrightarrow> set_up (exec (ioHdlcAddPeer p a) s)"
| window: "set_up s \<Longrightarrow> p \<in> set (s_peer_list s)
    \<Longrightarrow> set_up (exec (ioHdlcPeerSetWindow (Some p) ks kr) s)"

definition start :: "station \<Rightarrow> sys" where
  "start s = \<lparr>sy_st = s, sy_tx = TxWait 0, sy_hand = [], sy_lost = []\<rparr>"

inductive reachable :: "sys \<Rightarrow> bool" where
  base: "set_up s \<Longrightarrow> reachable (start s)"
| more: "reachable y \<Longrightarrow> step y y' \<Longrightarrow> reachable y'"

text \<open>A run is a list of actions; it is executable, and its last state is reachable.\<close>

fun run :: "action list \<Rightarrow> sys \<Rightarrow> sys option" where
  "run [] y = Some y"
| "run (a # as) y = (if enabled a y then run as (perform a y) else None)"

lemma run_reachable: "reachable y \<Longrightarrow> run as y = Some y' \<Longrightarrow> reachable y'"
  by (induction as arbitrary: y) (auto split: if_splits intro: reachable.more step.act)

inductive_cases stepE: "step y y'"
inductive_simps step_iff: "step y y'"

section \<open>The steps of the transmit thread are the transmit round\<close>

text \<open>Uninterrupted, the steps from one wait to the next are one round of \<open>ioHdlcTxEntry\<close>.\<close>

inductive tx_steps :: "txpc \<times> station \<Rightarrow> txpc \<times> station \<Rightarrow> bool" where
  tx_refl: "tx_steps c c"
| tx_more: "tx_steps (result (tx_advance pc) s, exec (tx_advance pc) s) c \<Longrightarrow> tx_steps (pc, s) c"

lemma peers_faultM [simp]: "s_peers (exec faultM s) = s_peers s"
  by (simp add: faultM_def)

lemma peers_assertM [simp]: "s_peers (exec (assertM b) s) = s_peers s"
  by (simp add: assertM_def)

lemma peers_take [simp]: "s_peers (exec hdlcTakeFrame s) = s_peers s"
  by (simp add: hdlcTakeFrame_def set_pool_def)

lemma peers_release [simp]: "s_peers (exec (hdlcReleaseFrame f) s) = s_peers s"
  by (rule release_peers)

lemma peers_addref [simp]: "s_peers (exec (hdlcAddRef f) s) = s_peers s"
  by (cases "addref_frame f (s_pool s)") (simp_all add: hdlcAddRef_def set_pool_def)

lemma peers_updF [simp]: "s_peers (exec (updF f g) s) = s_peers s"
  by (simp add: updF_def)

lemma peers_gate [simp]:
  "s_peers (exec (ioHdlcFrameTxGateTryWait f) s) = s_peers s"
  "s_peers (exec (ioHdlcFrameTxGateRelease f) s) = s_peers s"
  "s_peers (exec (driver_tx_done f) s) = s_peers s"
  "s_peers (exec (ioHdlcFrameTxGateWait f) s) = s_peers s"
  by (simp_all add: ioHdlcFrameTxGateTryWait_def ioHdlcFrameTxGateRelease_def driver_tx_done_def
      ioHdlcFrameTxGateWait_def)

lemma peers_send [simp]: "s_peers (exec (hdlcSendFrame f) s) = s_peers s"
  by (simp add: hdlcSendFrame_def next_outcome_def log_sent_def split: tx_outcome.split option.split)

lemma peers_station_flags [simp]:
  "s_peers (exec (pf_set m) s) = s_peers s" "s_peers (exec IOHDLC_ACK_P s) = s_peers s"
  "s_peers (exec IOHDLC_ACK_F s) = s_peers s" "s_peers (exec iohdlc_evt_get_and_clear_flags s) = s_peers s"
  by (simp_all add: pf_set_def IOHDLC_ACK_P_def IOHDLC_ACK_F_def iohdlc_evt_get_and_clear_flags_def)

definition tq :: "nat \<Rightarrow> nat list \<Rightarrow> station \<Rightarrow> bool" where
  "tq p xs s \<longleftrightarrow> p_trans_q (s_peers s p) = xs"

lemma tq_peers: "(\<And>s. s_peers (exec m s) = s_peers s) \<Longrightarrow> keeps (tq p xs) m"
  by (simp add: keeps_def tq_def)

lemma tq_updP: "(\<And>q. p_trans_q (g q) = p_trans_q q) \<Longrightarrow> keeps (tq p xs) (updP p' g)"
  by (simp add: keeps_def tq_def updP_def)

lemma trans_q_timer [simp]: "p_trans_q (upd_timer k g q) = p_trans_q q"
  by (cases k) simp_all

lemma tq_small:
  "keeps (tq p xs) (ss_set p' m)" "keeps (tq p xs) (ss_clr p' m)"
  "keeps (tq p xs) (ioHdlcStartReplyTimer p' k t)" "keeps (tq p xs) (ioHdlcStopReplyTimer p' k)"
  "keeps (tq p xs) (pf_set m)" "keeps (tq p xs) IOHDLC_ACK_P" "keeps (tq p xs) IOHDLC_ACK_F"
  "keeps (tq p xs) (IOHDLC_CLR_NEED_P p')"
  unfolding ss_set_def ss_clr_def ioHdlcStartReplyTimer_def ioHdlcStopReplyTimer_def IOHDLC_CLR_NEED_P_def
  by (intro tq_updP tq_peers; simp)+

lemma tq_startPoll: "keeps (tq p xs) (startPollReplyTimer p')"
  unfolding startPollReplyTimer_def by (intro keeps tq_small)

lemma tq_account_pf: "keeps (tq p xs) (account_pf p' c b)"
  unfolding account_pf_def by (intro keeps tq_small tq_updP; simp)

lemma tq_header: "keeps (tq p xs) (prepareIFrameHeader f a vs vr pf)"
  unfolding prepareIFrameHeader_def by (intro keeps tq_peers; simp)

lemma trans_q_send_iframe:
  "p_trans_q (s_peers (exec (connTx_send_iframe p' f b) s) p) = p_trans_q (s_peers s p)"
proof -
  have "keeps (tq p xs) (connTx_send_iframe p' f b)" for xs
    unfolding connTx_send_iframe_def
    by (intro keeps tq_header tq_account_pf tq_startPoll tq_small tq_updP tq_peers; simp)
  then show ?thesis by (simp add: keeps_def tq_def)
qed

lemma round_again_pops:
  assumes "result (connTx_round p cm) s = (IAgain, b, c)"
  shows "length (p_trans_q (s_peers (exec (connTx_round p cm) s) p)) < length (p_trans_q (s_peers s p))"
proof -
  have may: "connTx_may_send s p"
    using assms by (auto simp: connTx_round_def split: if_splits)
  then have "p_trans_q (s_peers s p) \<noteq> []" by (auto simp: connTx_may_send_def Let_def)
  moreover have "p_trans_q (s_peers (exec (connTx_round p cm) s) p) = tl (p_trans_q (s_peers s p))"
    if "\<not> has (cm OR s_cm_flags s) IOHDLC_EVT_LINK_DOWN"
    using may that by (simp add: connTx_round_def Let_def getP_def updP_def trans_q_send_iframe)
      (simp add: iohdlc_evt_get_and_clear_flags_def)
  moreover have "\<not> has (cm OR s_cm_flags s) IOHDLC_EVT_LINK_DOWN"
    using assms may by (auto simp: connTx_round_def Let_def iohdlc_evt_get_and_clear_flags_def)
  ultimately show ?thesis by simp
qed

lemma tx_loop_steps:
  assumes "length (p_trans_q (s_peers s p)) < n"
    and "result (connTx_loop n p sent cm) s = (w, sent', cm')"
  shows "tx_steps (TxLoop p sent cm, s)
    (if w = IAbort then TxWait cm' else TxTail p sent' cm', exec (connTx_loop n p sent cm) s)"
  using assms
proof (induction n arbitrary: sent cm s)
  case (Suc n)
  obtain v b c where r: "result (connTx_round p cm) s = (v, b, c)" by (metis prod_cases3)
  show ?case
  proof (cases v)
    case IAgain
    have l: "length (p_trans_q (s_peers (exec (connTx_round p cm) s) p)) < n"
      using round_again_pops [OF r [unfolded IAgain]] Suc.prems(1) by simp
    have "tx_steps (TxLoop p (sent \<or> b) c, exec (connTx_round p cm) s)
      (if w = IAbort then TxWait cm' else TxTail p sent' cm', exec (connTx_loop n p (sent \<or> b) c) (exec (connTx_round p cm) s))"
      using Suc.prems(2) by (intro Suc.IH [OF l]) (simp add: r IAgain)
    then show ?thesis by (rule_tac tx_more) (simp add: r IAgain)
  next
    case ILeave
    then show ?thesis using Suc.prems(2) by (rule_tac tx_more) (auto simp: r intro: tx_refl)
  next
    case IAbort
    then show ?thesis using Suc.prems(2) by (rule_tac tx_more) (auto simp: r intro: tx_refl)
  qed
qed simp

lemma tx_steps_trans: "tx_steps a b \<Longrightarrow> tx_steps b c \<Longrightarrow> tx_steps a c"
  by (induction rule: tx_steps.induct) (auto intro: tx_more)

lemma tx_step1: "tx_steps (pc, s) (result (tx_advance pc) s, exec (tx_advance pc) s)"
  by (rule tx_more, rule tx_refl)

lemma tx_connected_steps:
  "tx_steps (TxPrefix p cm, s) (TxWait (result (ioHdlcConnectedTx p cm) s), exec (ioHdlcConnectedTx p cm) s)"
proof -
  obtain go cm1 where r: "result (connTx_prefix p cm) s = (go, cm1)" by (metis surj_pair)
  let ?s = "exec (connTx_prefix p cm) s"
  have st: "tx_steps (TxPrefix p cm, s) (if \<not> go then TxWait cm1 else if p_frmr_condition (s_peers ?s p)
      then TxTail p False cm1 else TxLoop p False cm1, ?s)"
    using tx_step1 [of "TxPrefix p cm" s] by (simp add: r getP_def cong: if_cong)
  have tail: "tx_steps (TxTail p b c, u) (TxWait (result (connTx_tail p b c) u), exec (connTx_tail p b c) u)" for b c u
    using tx_step1 [of "TxTail p b c" u] by simp
  show ?thesis
  proof (cases "go \<and> \<not> p_frmr_condition (s_peers ?s p)")
    case False
    show ?thesis
    proof (cases go)
      case True
      with False have f: "p_frmr_condition (s_peers ?s p)" by simp
      with st True have "tx_steps (TxPrefix p cm, s) (TxTail p False cm1, ?s)" by simp
      from tx_steps_trans [OF this tail] True f show ?thesis
        by (simp add: ioHdlcConnectedTx_def r getP_def)
    qed (use st in \<open>simp add: ioHdlcConnectedTx_def r\<close>)
  next
    case True
    let ?n = "length (p_trans_q (s_peers ?s p)) + 1"
    obtain w b c where l: "result (connTx_loop ?n p False cm1) ?s = (w, b, c)" by (metis prod_cases3)
    have a: "tx_steps (TxPrefix p cm, s) (TxLoop p False cm1, ?s)" using st True by simp
    have "tx_steps (TxLoop p False cm1, ?s)
        (if w = IAbort then TxWait c else TxTail p b c, exec (connTx_loop ?n p False cm1) ?s)"
      by (rule tx_loop_steps [OF _ l]) simp
    from tx_steps_trans [OF a this] have st2: "tx_steps (TxPrefix p cm, s)
        (if w = IAbort then TxWait c else TxTail p b c, exec (connTx_loop ?n p False cm1) ?s)" .
    show ?thesis
    proof (cases "w = IAbort")
      case True
      then show ?thesis using st2 \<open>go \<and> _\<close> l by (simp add: ioHdlcConnectedTx_def r getP_def)
    next
      case False
      then have "tx_steps (TxPrefix p cm, s) (TxTail p b c, exec (connTx_loop ?n p False cm1) ?s)"
        using st2 by simp
      from tx_steps_trans [OF this tail] show ?thesis using False \<open>go \<and> _\<close> l by (simp add: ioHdlcConnectedTx_def r getP_def)
    qed
  qed
qed

lemma tx_dispatch_split:
  "(\<exists>cm. result (tx_dispatch_head p c) v = TxPrefix p cm
      \<and> exec (tx_dispatch p c) v = exec (ioHdlcConnectedTx p cm) (exec (tx_dispatch_head p c) v)
      \<and> result (tx_dispatch p c) v = result (ioHdlcConnectedTx p cm) (exec (tx_dispatch_head p c) v))
   \<or> result (tx_dispatch_head p c) v = TxWait (result (tx_dispatch p c) v)
      \<and> exec (tx_dispatch_head p c) v = exec (tx_dispatch p c) v"
proof -
  define m where "m = whenM (has (p_um_state (s_peers v p)) IOHDLC_UM_RCVED) (tx_uresponse p)"
  define q where "q = s_peers (exec m v) p"
  define d where "d \<longleftrightarrow> IOHDLC_PEER_DISC q \<or> IOHDLC_UM_ISSENT q"
  define k where "k \<longleftrightarrow> s_mode (exec m v) = IOHDLC_OM_NRM \<or> s_mode (exec m v) = IOHDLC_OM_ABM"
  show ?thesis unfolding tx_dispatch_def tx_dispatch_head_def getP_def run_simps Let_def m_def [symmetric] id_apply
      q_def [symmetric] d_def [symmetric] k_def [symmetric]
    by (cases d; cases k) (simp_all add: q_def [symmetric] k_def [symmetric])
qed

lemma tx_round_steps:
  "\<exists>pc. tx_steps (TxWait cm, s) (pc, exec (ioHdlcTxEntry_round cm) s)
     \<and> (case result (ioHdlcTxEntry_round cm) s of None \<Rightarrow> pc = TxStopped | Some cm' \<Rightarrow> pc = TxWait cm')"
proof -
  let ?m = "if cm = 0 then iohdlc_evt_get_and_clear_flags else ret cm"
  define u where "u = exec ?m s"
  define new where "new = result ?m s"
  show ?thesis
  proof (cases "s_stop_requested u \<or> s_c_peer s = None")
    case True
    then show ?thesis using tx_step1 [of "TxWait cm" s]
      by (auto simp: ioHdlcTxEntry_round_def tx_wake_def u_def split: option.splits)
  next
    case False
    then obtain p where p: "s_c_peer s = Some p" "\<not> s_stop_requested u" by auto
    define r where "r = result (tx_ucommand p new) u"
    define v where "v = exec (tx_ucommand p new) u"
    have w: "tx_steps (TxWait cm, s) (case r of Inl c \<Rightarrow> TxWait c | Inr (p, c) \<Rightarrow> TxDispatch p c, v)"
      using tx_step1 [of "TxWait cm" s] p
      by (simp add: tx_wake_def u_def new_def r_def v_def cong: sum.case_cong if_cong)
    have e: "exec (ioHdlcTxEntry_round cm) s = (case r of Inl c \<Rightarrow> v | Inr (t, c) \<Rightarrow> exec (tx_dispatch t c) v)"
      "result (ioHdlcTxEntry_round cm) s = Some (case r of Inl c \<Rightarrow> c | Inr (t, c) \<Rightarrow> result (tx_dispatch t c) v)"
      using p by (simp_all add: ioHdlcTxEntry_round_def u_def new_def r_def v_def split: sum.split)
    show ?thesis
    proof (cases r)
      case (Inl c)
      then show ?thesis using w by (auto simp: e)
    next
      case (Inr y)
      obtain t c where y: "y = (t, c)" by (cases y)
      have h: "tx_steps (TxDispatch t c, v) (result (tx_dispatch_head t c) v, exec (tx_dispatch_head t c) v)"
        using tx_step1 [of "TxDispatch t c" v] by simp
      have "tx_steps (TxDispatch t c, v) (TxWait (result (tx_dispatch t c) v), exec (tx_dispatch t c) v)"
      proof (rule disjE [OF tx_dispatch_split [of t c v]], elim exE conjE)
        fix cm'
        assume k: "result (tx_dispatch_head t c) v = TxPrefix t cm'"
          "exec (tx_dispatch t c) v = exec (ioHdlcConnectedTx t cm') (exec (tx_dispatch_head t c) v)"
          "result (tx_dispatch t c) v = result (ioHdlcConnectedTx t cm') (exec (tx_dispatch_head t c) v)"
        show ?thesis unfolding k(2,3) by (rule tx_steps_trans [OF h [unfolded k(1)] tx_connected_steps])
      qed (use h in simp)
      moreover have "tx_steps (TxWait cm, s) (TxDispatch t c, v)" using w by (simp add: Inr y)
      ultimately have "tx_steps (TxWait cm, s) (TxWait (result (tx_dispatch t c) v), exec (tx_dispatch t c) v)"
        by (rule_tac tx_steps_trans)
      then show ?thesis by (simp add: e Inr y)
    qed
  qed
qed

end
