(* ===== verification/Hdlc_Reach.thy ===== *)
theory Hdlc_Reach
  imports Hdlc_Step
begin

text \<open>
  The station invariant holds in every reachable state of the running station, whatever the
  driver delivers, in whatever order the threads run.
\<close>

section \<open>Set-up\<close>

definition queues_empty :: "station \<Rightarrow> bool" where
  "queues_empty s \<longleftrightarrow> (\<forall>p \<in> set (s_peer_list s). p_retrans_q (s_peers s p) = [] \<and> p_trans_q (s_peers s p) = [])"

lemma set_up_stable: "set_up s \<Longrightarrow> (\<exists>fr. stable fr (s_peer_list s) [] s) \<and> queues_empty s"
proof (induction rule: set_up.induct)
  case (init cfg s plat)
  from init_stable [OF init(1,4,2,3)] obtain fr where st: "stable fr [] [] (exec (ioHdlcStationInit plat cfg) s)"
    by blast
  have "s_peer_list (exec (ioHdlcStationInit plat cfg) s) = []" by (rule invD(2) [OF st])
  then show ?case using st by (auto simp: queues_empty_def)
next
  case (add s p a)
  then obtain fr where st: "stable fr (s_peer_list s) [] s" by blast
  note t = add_peer_stable [OF st add.hyps(2,3)]
  let ?t = "exec (ioHdlcAddPeer p a) s"
  have o: "s_peers ?t q = s_peers s q" if "q \<noteq> p" for q
    using that by (auto simp: ioHdlcAddPeer_def updP_def)
  have n: "p_retrans_q (s_peers ?t p) = [] \<and> p_trans_q (s_peers ?t p) = []"
    using add.hyps(3) by (auto simp: ioHdlcAddPeer_def updP_def zero_peer_def split: if_splits)
  have "p_retrans_q (s_peers ?t q) = [] \<and> p_trans_q (s_peers ?t q) = []" if "q \<in> set (s_peer_list ?t)" for q
    using that add.IH n o [of q] unfolding invD(2) [OF t] queues_empty_def by (cases "q = p") auto
  then have "queues_empty ?t" by (simp add: queues_empty_def)
  then show ?case using t unfolding invD(2) [OF t] by blast
next
  case (window s p ks kr)
  then obtain fr where st: "stable fr (s_peer_list s) [] s" by blast
  have e: "p_retrans_q (s_peers s p) = []" "p_trans_q (s_peers s p) = []"
    using window by (auto simp: queues_empty_def)
  note t = set_window_stable [OF st window.hyps(2) e, of ks kr]
  have "queues_empty (exec (ioHdlcPeerSetWindow (Some p) ks kr) s)"
    using window.IH by (auto simp: queues_empty_def ioHdlcPeerSetWindow_def updP_def)
  then show ?case using t unfolding invD(2) [OF t] by blast
qed

section \<open>Each step\<close>

lemma sinv_perm: "sinv G fr pl H X s \<Longrightarrow> mset H = mset H' \<Longrightarrow> sinv G fr pl H' X s"
  using owners_mset [of H pl "s_peers s" H' "s_peers s" "fst G" "s_pool s" "s_tx_pipe s"] mset_eq_setD [of H H']
  by (simp add: sinv_def quiet_def)

lemma timer_keeps: "keeps (stable fr pl H) (timer_signal_handler p k)"
  unfolding timer_signal_handler_def by (intro keeps keeps_updP_irr) simp

lemma fill_length: "length (fill_bytes bs old) = length old"
  by (simp add: fill_bytes_def)

lemma rx_frame_stable:
  assumes i: "stable fr pl H s" and pl: "pl \<noteq> []"
  shows "stable fr pl H (exec (rx_frame bs n) s) \<or> stable fr pl (kept_rsp s @ H) (exec (rx_frame bs n) s)"
proof (cases "result hdlcTakeFrame s")
  case None
  with take_sinv [OF i] have "stable fr pl H (exec (ioHdlcRxEntry_round None) (exec hdlcTakeFrame s))"
    by (intro keepsD [OF rx_idle_keeps]) simp
  then show ?thesis using None by (simp add: rx_frame_def)
next
  case (Some f)
  let ?g = "\<lambda>fm. fm\<lparr>f_bytes := fill_bytes bs (f_bytes fm), f_elen := n\<rparr>"
  let ?t = "exec (updF f ?g) (exec hdlcTakeFrame s)"
  have "stable fr pl (f # H) (exec hdlcTakeFrame s)" using take_sinv [OF i] Some by simp
  then have t: "stable fr pl (f # H) ?t"
    by (intro keepsD [OF keeps_updF]) (simp_all add: fill_length)
  have "s_c_peer ?t = s_c_peer s" "s_peers ?t = s_peers s"
    by (simp_all add: updF_def hdlcTakeFrame_def set_pool_def)
  then have "kept_rsp ?t = kept_rsp s" by (simp only: kept_rsp_def)
  with htD [OF rx_round_ht [OF pl, of fr f H "kept_rsp s"], of ?t] t show ?thesis
    by (simp add: rx_frame_def Some wp_def)
qed

fun pc_peer :: "txpc \<Rightarrow> nat option" where
  "pc_peer (TxWait cm) = None"
| "pc_peer (TxDispatch p cm) = Some p"
| "pc_peer (TxPrefix p cm) = Some p"
| "pc_peer (TxLoop p b cm) = Some p"
| "pc_peer (TxTail p b cm) = Some p"
| "pc_peer TxStopped = None"

definition pc_ok :: "nat list \<Rightarrow> txpc \<Rightarrow> bool" where
  "pc_ok pl pc \<longleftrightarrow> (\<forall>p. pc_peer pc = Some p \<longrightarrow> p \<in> set pl)"

lemma tx_wake_ht: "ht (stable fr pl H) (tx_wake cm) (\<lambda>pc s. stable fr pl H s \<and> pc_ok pl pc)"
proof (rule htI)
  fix s assume i: "stable fr pl H s"
  let ?m = "if cm = 0 then iohdlc_evt_get_and_clear_flags else ret cm"
  have u: "stable fr pl H (exec ?m s)" using i by (rule keepsD [rotated]) (intro keeps)
  show "wp (tx_wake cm) (\<lambda>pc s. stable fr pl H s \<and> pc_ok pl pc) s"
  proof (cases "s_c_peer s")
    case None
    then show ?thesis using u by (simp add: tx_wake_def wp_def pc_ok_def)
  next
    case (Some p)
    then have p: "p \<in> set pl" by (rule invD(8) [OF i])
    from htD [OF tx_ucommand_ht [OF p] u] Some u show ?thesis
      by (auto simp: tx_wake_def wp_def pc_ok_def split: sum.split)
  qed
qed

lemma tx_head_ht: "p \<in> set pl \<Longrightarrow> ht (stable fr pl H) (tx_dispatch_head p cm) (\<lambda>pc s. stable fr pl H s \<and> pc_ok pl pc)"
  unfolding tx_dispatch_head_def
  by (intro ht_keeps_bind ht_let ht_if ht_ret keeps tx_uresponse_keeps tx_idle_peer_keeps)
    (simp_all add: pc_ok_def)

lemma tx_advance_ht:
  assumes "pc_ok pl pc"
  shows "ht (stable fr pl H) (tx_advance pc) (\<lambda>pc' s. stable fr pl H s \<and> pc_ok pl pc')"
proof (cases pc)
  case (TxWait cm)
  then show ?thesis by (simp add: tx_wake_ht)
next
  case (TxDispatch p cm)
  then have "p \<in> set pl" using assms by (simp add: pc_ok_def)
  then show ?thesis unfolding TxDispatch tx_advance.simps by (rule tx_head_ht)
next
  case (TxPrefix p cm)
  then have p: "p \<in> set pl" using assms by (simp add: pc_ok_def)
  show ?thesis unfolding TxPrefix tx_advance.simps
    by (rule ht_keeps_bind [OF connTx_prefix_keeps [OF p]], rule ht_prod, rule ht_keeps_bind, rule keeps, rule ht_ret)
      (simp add: pc_ok_def p)
next
  case (TxLoop p sent cm)
  then have p: "p \<in> set pl" using assms by (simp add: pc_ok_def)
  show ?thesis unfolding TxLoop tx_advance.simps
    by (rule ht_keeps_bind [OF connTx_round_keeps [OF p]], rule ht_prod, rule ht_prod, rule ht_ret)
      (simp add: pc_ok_def p split: iloop.split)
next
  case (TxTail p sent cm)
  show ?thesis unfolding TxTail tx_advance.simps
    by (rule ht_keeps_bind [OF connTx_tail_keeps], rule ht_ret) (simp add: pc_ok_def)
next
  case TxStopped
  then show ?thesis by (simp add: ht_def pc_ok_def)
qed

lemma write_fragment_keeps:
  assumes p: "p \<in> set pl" and i: "stable fr pl H s" and r: "has_room s p"
  shows "stable fr pl H (exec (write_fragment p data) s)"
proof (cases "result (write_take p (length data)) s")
  case (WFrame f k)
  let ?s = "exec (write_take p (length data)) s"
  let ?t = "exec (write_fill p f (take k data)) ?s"
  from htD [OF write_take_ht [of fr pl H p "length data"] i] WFrame
  have s: "stable fr pl (f # H) ?s" "f_tx_ctrl_len (frame_of ?s f) = 0"
    "k = writer_chunk fr (s_fcs_size ?s) (unat (p_mifls (s_peers ?s p))) (length data)"
    by (simp_all add: wp_def)
  have e: "s_peers ?s = s_peers s" "fp_framesize (s_pool ?s) = fp_framesize (s_pool s)"
    by (auto simp: write_take_def Let_def)
  have "k \<le> unat (p_mifls (s_peers s p))"
    unfolding s(3) e by (auto simp: writer_chunk_def Let_def)
  then have "length (take k data) \<le> unat (p_mifls (s_peers s p))" by simp
  then have l: "IOHDLC_FRAME_INFO_pos fr + length (take k data) \<le> fp_framesize (s_pool ?s)"
    using r invD(1) [OF i] by (simp add: has_room_def e)
  have "stable fr pl H (exec (write_enqueue p f) ?t)"
    using htD [OF write_enqueue_ht [OF p], of fr f H ?t] write_fill_sinv [OF s(1) l, of p] s(2)
    by (simp add: wp_def)
  then show ?thesis using WFrame by (simp add: write_fragment_def)
qed (use htD [OF write_take_ht [of fr pl H p "length data"] i] in \<open>simp_all add: write_fragment_def wp_def\<close>)

section \<open>The invariant of the system\<close>

definition sys_inv :: "framing \<Rightarrow> nat list \<Rightarrow> sys \<Rightarrow> bool" where
  "sys_inv fr pl y \<longleftrightarrow> stable fr pl (sy_hand y @ sy_lost y) (sy_st y) \<and> pc_ok pl (sy_tx y)"

lemma sys_on_st: "sys_inv fr pl y \<Longrightarrow> keeps (stable fr pl (sy_hand y @ sy_lost y)) m \<Longrightarrow> sys_inv fr pl (on_st m y)"
  by (simp add: sys_inv_def on_st_def upd_st_def keeps_def)

text \<open>Which kept frame a reception has lost: exactly the one the invariant has left over.\<close>

lemma receive_inv:
  assumes i: "sys_inv fr pl y" and pl: "pl \<noteq> []"
  shows "sys_inv fr pl (receive bs n y)"
proof -
  let ?s = "sy_st y" let ?H = "sy_hand y @ sy_lost y" let ?t = "exec (rx_frame bs n) (sy_st y)"
  let ?K = "kept_rsp ?s"
  let ?o = "[f \<leftarrow> ?K. pool_refs (s_pool ?t) f \<noteq> 0 \<and> f \<notin> owned (upd_st ?t y)]"
  have st: "stable fr pl ?H ?s" using i by (simp add: sys_inv_def)
  have ow: "owned (upd_st ?t y) = set (?H @ pframes pl (s_peers ?t) @ s_tx_pipe ?t)" if "stable fr pl H' ?t" for H'
    using invD(2) [OF that] by (simp add: owned_def upd_st_def)
  from rx_frame_stable [OF st pl, of bs n] consider
      "stable fr pl ?H ?t" | "stable fr pl (?K @ ?H) ?t" by blast
  then have "stable fr pl (sy_hand y @ ?o @ sy_lost y) ?t"
  proof cases
    case 1
    have "pool_refs (s_pool ?t) f = 0 \<or> f \<in> owned (upd_st ?t y)" for f
      using owners_okD(4) [OF invD(5) [OF 1], of f] unfolding ow [OF 1] by auto
    then have "?o = []" by (simp add: filter_empty_conv)
    then show ?thesis using 1 by simp
  next
    case 2
    have "pool_refs (s_pool ?t) f \<noteq> 0 \<and> f \<notin> owned (upd_st ?t y)" if f: "f \<in> set ?K" for f
    proof -
      have "f \<notin> set (s_tx_pipe ?t)" using f invD(11) [OF 2] by (auto simp: quiet_def)
      then show ?thesis
        using f owners_okD(2) [OF invD(5) [OF 2]] frame_length(3) [OF 2, of f] unfolding ow [OF 2] by auto
    qed
    then have "?o = ?K" by simp
    then show ?thesis using 2 by (auto intro: sinv_perm)
  qed
  then show ?thesis using i by (simp add: sys_inv_def receive_def Let_def upd_st_def)
qed

lemma perform_inv:
  assumes i: "sys_inv fr pl y" and e: "enabled a y"
  shows "sys_inv fr pl (perform a y)"
proof -
  have st: "stable fr pl (sy_hand y @ sy_lost y) (sy_st y)" and pc: "pc_ok pl (sy_tx y)"
    using i by (simp_all add: sys_inv_def)
  note pl = invD(2) [OF st]
  have hd: "stable fr pl (hd (sy_hand y) # tl (sy_hand y) @ sy_lost y) (sy_st y)" if "sy_hand y \<noteq> []"
    using st that by (simp flip: append_Cons)
  show ?thesis
  proof (cases a)
    case (Rx bs n)
    then show ?thesis using receive_inv [OF i] e pl by simp
  next
    case Tx
    then show ?thesis using htD [OF tx_advance_ht [OF pc] st] by (simp add: sys_inv_def wp_def)
  next
    case (TestNew p len t)
    have "wp (test_prepare (Some p) len t) (\<lambda>r. stable fr pl (case r of Inl e \<Rightarrow> sy_hand y @ sy_lost y
        | Inr f \<Rightarrow> f # sy_hand y @ sy_lost y)) (sy_st y)"
      using e TestNew invD(1) [OF st] invD(3) [OF st]
      by (intro test_prepare_ht st) (auto simp: has_room_def IOHDLC_FRAME_INFO_pos_def framing_ok_def)
    then show ?thesis using pc TestNew by (auto simp: sys_inv_def wp_def split: sum.splits)
  next
    case (TestGo p)
    then show ?thesis using e htD [OF test_submit_ht hd] pl pc by (simp add: sys_inv_def wp_def)
  next
    case (TestPoll p)
    then have p: "p \<in> set pl" using e pl by simp
    show ?thesis using TestPoll htD [OF take_test_ht [OF p] st] pc
      by (auto simp: sys_inv_def wp_def opt_def split: option.splits)
  next
    case (TestEnd p)
    then have p: "p \<in> set pl" using e pl by simp
    show ?thesis using TestEnd htD [OF test_timeout_ht [OF p] st] pc
      by (auto simp: sys_inv_def wp_def split: sum.splits)
  next
    case (TestCheck len)
    then show ?thesis using e htD [OF test_finish_ht hd] pc by (simp add: sys_inv_def wp_def)
  next
    case (WriteBegin p)
    then show ?thesis using e st pc keepsD [OF write_admit_keeps]
      by (simp add: sys_inv_def on_st_def upd_st_def)
  next
    case (WriteMore p data)
    then show ?thesis using e pl pc write_fragment_keeps [OF _ st] by (simp add: sys_inv_def on_st_def upd_st_def)
  next
    case (ReadMore p tot room)
    then show ?thesis using e pl pc read_round_keeps [OF _ st] by (simp add: sys_inv_def on_st_def upd_st_def)
  qed (use i in \<open>auto intro!: sys_on_st rx_idle_keeps timer_keeps link_calls_keep ui_calls_keep
      write_done_keeps read_begin_done_keeps simp: keeps_def tx_done_sinv\<close>)
qed

lemma reachable_inv: "reachable y \<Longrightarrow> \<exists>fr. sys_inv fr (s_peer_list (sy_st y)) y"
proof (induction rule: reachable.induct)
  case (base s)
  then show ?case using set_up_stable [of s] by (auto simp: sys_inv_def start_def pc_ok_def)
next
  case (more y y')
  then obtain fr a where i: "sys_inv fr (s_peer_list (sy_st y)) y" and a: "enabled a y" "y' = perform a y"
    by (auto simp: step_iff)
  from perform_inv [OF i a(1)] have "sys_inv fr (s_peer_list (sy_st y)) y'" by (simp add: a(2))
  moreover from this have "s_peer_list (sy_st y') = s_peer_list (sy_st y)"
    unfolding sys_inv_def using invD(2) by blast
  ultimately show ?case by auto
qed

end
