(* ===== verification/Hdlc_Exec.thy ===== *)
theory Hdlc_Exec
  imports Hdlc_Reach
begin

text \<open>
  Runs of the model computed by the simplifier: each command is a function from a state to its
  result and the next state, evaluated from the first statement on. The congruence rules keep the
  simplifier out of the statements that are not yet due.
\<close>

section \<open>Evaluation order\<close>

lemma bind_weak: "m = m' \<Longrightarrow> State_Monad.bind m k = State_Monad.bind m' k" by simp
lemma gets_weak: "gets f = gets f" by simp
lemma getP_weak: "p = p' \<Longrightarrow> getP p f = getP p' f" by simp
lemma modify_weak: "modify f = modify f" by simp
lemma updP_weak: "p = p' \<Longrightarrow> updP p f = updP p' f" by simp
lemma updF_weak: "p = p' \<Longrightarrow> updF p f = updF p' f" by simp
lemma when_weak: "b = b' \<Longrightarrow> whenM b m = whenM b' m" by simp

lemmas in_order = bind_weak gets_weak getP_weak modify_weak updP_weak updF_weak when_weak
  if_weak_cong let_weak_cong option.case_cong_weak prod.case_cong_weak list.case_cong_weak sum.case_cong_weak

lemma run_prims:
  "run_state (gets f) s = (f s, s)" "run_state (getP p g) s = (g (s_peers s p), s)"
  "run_state (modify h) s = ((), h s)" "run_state (updP p k) s = ((), upd_peer p k s)"
  "run_state (updF n j) s = ((), s\<lparr>s_pool := upd_frame n j (s_pool s)\<rparr>)"
  "run_state (ret x) s = (x, s)" "run_state (whenM b m) s = (if b then run_state m s else ((), s))"
  by (simp_all add: gets_def getP_def modify_def updP_def updF_def ret_def whenM_def State_Monad.return_def)

lemma on_st_run: "on_st m y = (case run_state m (sy_st y) of (x, s) \<Rightarrow> y\<lparr>sy_st := s\<rparr>)"
  by (simp add: on_st_def upd_st_def exec_def case_prod_beta)

lemma tx_run:
  "perform Tx y = (case run_state (tx_advance (sy_tx y)) (sy_st y) of (pc, s) \<Rightarrow> y\<lparr>sy_st := s, sy_tx := pc\<rparr>)"
  by (simp add: exec_def result_def case_prod_beta)

lemma receive_run:
  "receive bs n y = (case run_state (rx_frame bs n) (sy_st y) of (x, s') \<Rightarrow>
     let y' = y\<lparr>sy_st := s'\<rparr> in
     y'\<lparr>sy_lost := [f \<leftarrow> kept_rsp (sy_st y). pool_refs (s_pool s') f \<noteq> 0 \<and> f \<notin> owned y'] @ sy_lost y\<rparr>)"
  by (simp add: receive_def upd_st_def exec_def case_prod_beta Let_def)

section \<open>The definitions\<close>

lemmas exe_prelude =
  has_def

lemmas exe_frame =
  byte_at_def IOHDLC_I_ID_def IOHDLC_I_MASK_def IOHDLC_S_ID_def IOHDLC_S_MASK_def IOHDLC_U_ID_def
  IOHDLC_U_MASK_def IOHDLC_S_FUN_MASK_def IOHDLC_S_RR_def IOHDLC_S_REJ_def IOHDLC_S_RNR_def
  IOHDLC_S_SREJ_def IOHDLC_U_FUN_MASK_def IOHDLC_U_SNRM_def IOHDLC_U_SARM_def IOHDLC_U_SABM_def
  IOHDLC_U_DISC_def IOHDLC_U_UI_def IOHDLC_U_TEST_def IOHDLC_U_UA_def IOHDLC_U_FRMR_def IOHDLC_U_DM_def
  IOHDLC_PF_BIT_def IOHDLC_PFx_BIT_def IOHDLC_FRMR_Y_def IOHDLC_IS_I_FRM_def IOHDLC_IS_S_FRM_def
  IOHDLC_IS_U_FRM_def addr_pos_def ctrl_pos_def IOHDLC_FRAME_ADDR_def IOHDLC_FRAME_CTRL_def
  IOHDLC_FRAME_INFO_pos_def IOHDLC_FRAME_SET_NS_def IOHDLC_FRAME_SET_NR_def IOHDLC_FRAME_SET_PF_def
  IOHDLC_FRAME_GET_PF_def setNSInCtrl_def setNRInCtrl_def setPFInCtrl_def extractNS_def extractNR_def

lemmas exe_pool =
  hdlcPoolFree_def hdlcPoolGetState_def upd_frame_def hdlc_pool_init_watermark_def
  hdlc_pool_check_low_watermark_def hdlc_pool_check_high_watermark_def dispatch_def fresh_frame_def
  take_frame_def release_frame_def addref_frame_def hdlcPoolConfigWatermark_def iohdlc_fmempool_align_up_def
  iohdlc_fmempool_layout_def fmpInit_def

lemmas exe_station =
  IOHDLC_OM_ABM_def IOHDLC_OM_ARM_def IOHDLC_OM_NRM_def IOHDLC_OM_NDM_def IOHDLC_OM_ADM_def
  IOHDLC_FLG_PRI_def IOHDLC_FLG_TWA_def IOHDLC_FLG_IDL_def IOHDLC_FLG_BUSY_def IOHDLC_CFLG_FFF_def
  IOHDLC_CFLG_REJ_def IOHDLC_CFLG_STB_def IOHDLC_P_RCVED_def IOHDLC_F_RCVED_def IOHDLC_UM_SENT_def
  IOHDLC_UM_RCVED_def IOHDLC_SS_BUSY_def IOHDLC_SS_REJPEND_def IOHDLC_SS_NEED_P_def
  IOHDLC_SS_TERM_ORDERLY_def IOHDLC_SS_TERM_ABORTED_def IOHDLC_SS_SENDING_def IOHDLC_SS_ST_CONN_def
  IOHDLC_STREAM_TX_RESET_PENDING_def IOHDLC_EVT_C_RPLYTMO_def IOHDLC_EVT_T3_TMO_def IOHDLC_EVT_I_RECVD_def
  IOHDLC_EVT_RR_RECVD_def IOHDLC_EVT_RNR_RECVD_def IOHDLC_EVT_xREJ_RECVD_def IOHDLC_EVT_POOL_ST_CHG_def
  IOHDLC_EVT_UM_RECVD_def IOHDLC_EVT_LINK_ST_CHG_def IOHDLC_EVT_LINK_REQ_def IOHDLC_EVT_LINE_IDLE_def
  IOHDLC_EVT_LINK_DOWN_def IOHDLC_EVT_TX_IFRM_ENQ_def IOHDLC_EVT_REJ_ACTED_def IOHDLC_EVT_PF_RECVD_def
  IOHDLC_EVT_UI_ENQ_def IOHDLC_APP_LINK_UP_def IOHDLC_APP_LINK_REFUSED_def IOHDLC_APP_LINK_DOWN_def
  IOHDLC_APP_LINK_LOST_def IOHDLC_APP_FRMR_RECEIVED_def IOHDLC_APP_UI_RECEIVED_def
  IOHDLC_APP_INTERNAL_TEST_DONE_def IOHDLC_LAST_RETRY_T1_RATIO_def IOHDLC_LAST_RETRY_TIMEOUT_MIN_MS_def
  IOHDLC_DFL_T3_IFRAME_T1_RATIO_def tx_flags_mask_def upd_peer_def faultM_def assertM_def frame_of_def

lemmas exe_ops =
  IOHDLC_IS_PRI_def IOHDLC_IS_SEC_def IOHDLC_IS_BUSY_def IOHDLC_IS_DISC_def IOHDLC_IS_NRM_def
  IOHDLC_IS_NDM_def IOHDLC_IS_ABM_def IOHDLC_IS_ARM_def IOHDLC_IS_ADM_def IOHDLC_P_ISRCVED_def
  IOHDLC_F_ISRCVED_def IOHDLC_USE_REJ_def IOHDLC_USE_TWA_def IOHDLC_ST_IDLE_def IOHDLC_UM_ISSENT_def
  IOHDLC_PEER_DISC_def IOHDLC_PEER_BUSY_def IOHDLC_NEED_P_def IOHDLC_UCMD_TO_MODE_def
  IOHDLC_MODE_TO_UCMD_def pf_set_def IOHDLC_ACK_P_def IOHDLC_ACK_F_def flags_set_def flags_clr_def
  ss_set_def ss_clr_def um_set_def um_clr_def IOHDLC_SET_NEED_P_def IOHDLC_CLR_NEED_P_def
  ioHdlcBroadcastFlags_def ioHdlcBroadcastFlagsApp_def iohdlc_evt_get_and_clear_flags_def condvar_tx_def
  condvar_rx_def iohdlc_vt_set_def iohdlc_vt_reset_def iohdlc_vt_is_armed_def ioHdlcStartReplyTimer_def
  ioHdlcRestartReplyTimer_def ioHdlcStopReplyTimer_def ioHdlcIsReplyTimerExpired_def
  timer_signal_handler_def lastRetryReplyTimeoutMs_def replyTimerTimeoutMs_def startPollReplyTimer_def
  iFrameReplyTimerUsed_def idlePollTimeoutMs_def iFrameReplyTimeoutMs_def set_pool_def hdlcTakeFrame_def
  hdlcReleaseFrame_def hdlcAddRef_def writeF_def ioHdlcFrameTxGateTryWait_def ioHdlcFrameTxGateRelease_def
  driver_tx_done_def ioHdlcFrameTxGateWait_def next_outcome_def log_sent_def hdlcSendFrame_def sendFrame_def

lemmas exe_peer =
  set_elen_def set_tx_ctrl_len_def ioHdlcBuildUFrame_def ioHdlcBuildUFrameWithInfo_def buildFrmrResponse_def
  buildSFrame_def ioHdlcSetDisconnected_def ioHdlcSetConnected_def clearFrameQ_def clearPeerUmFrames_def
  resetPeerUm_def clearPeerTxQueues_def clearPeerRxBuffered_def resetPeerProtocolState_def
  applyModeState_def leave_mode_if_last_def closePeerOrderly_def abortPeerLink_def handleTimeoutRetry_def
  resetPeerVars_def setFrmrCondition_def isConnectionUCommand_def nrmSendOpportunity_def
  abmSendOpportunity_def sendOpportunity_def responseShouldSetF_def peer_succ_def next_match_def
  ioHdlcNextPeer_def

lemmas exe_rx =
  u_has_pf_def u_hdr_len_def u_long_enough_def u_info_len_def le32_read_def le32_bytes_def
  handleUFrame_UI_def u_command_blocked_def u_test_blocked_def u_command_response_def
  handleUFrame_command_def u_response_test_def u_response_ua_def u_response_dm_def handleUFrame_response_def
  handleUFrame_def isNRValid_def processNR_def checkpointRetransmit_def handleCheckpointAndAck_def
  s_peer_raw_rx_deliver_def handleIFrame_def handleSFrame_rej_def handleSFrame_def commonRx_body_def
  commonRx_def ioHdlcNrmRx_def ioHdlcAbmRx_def ioHdlcRxEntry_round_def

lemmas exe_tx =
  hdr_reset_def hdr_finish_def prepareIFrameHeader_def outstanding_of_def account_pf_def restart_t3_twa_def
  sframe_set_pf_def prepareSFrame_def connTx_reply_timeout_def connTx_t3_timeout_def tx_is_command_def
  connTx_ui_def connTx_prefix_def iframe_set_pf_def connTx_may_send_def connTx_send_iframe_def
  urgent_flags_def connTx_round_def tail_clear_flags_def connTx_sframe_def connTx_next_peer_def
  connTx_tail_def tx_select_peer_def tx_send_ucommand_def tx_ucommand_def tx_uresponse_frame_def
  tx_uresponse_def tx_idle_peer_def tx_dispatch_def

lemmas exe_init =
  okE_def failE_def liftE_def bindE_def thenE_def checkE_def s_swdriver_base_caps_def
  s_fcs_size_supported_def s_resolve_fcs_caps_def drv_configure_def IOHDLC_OPT_REJ_def IOHDLC_OPT_SST_def
  IOHDLC_OPT_STB_def IOHDLC_OPT_FFF_def IOHDLC_OPT_INH_def IOHDLC_OPT_REJ_OCT_def IOHDLC_OPT_SST_OCT_def
  IOHDLC_OPT_STB_OCT_def IOHDLC_OPT_FFF_OCT_def IOHDLC_OPT_INH_OCT_def IOHDLC_PORT_CONSTR_TWA_ONLY_def
  IOHDLC_PORT_CONSTR_NRM_ONLY_def IOHDLC_REPLY_TIMEOUT_MS_DEFAULT_def
  IOHDLC_REPLY_TIMEOUT_ADDR_SKEW_DIVISOR_def IOHDLC_DFL_T3_IDLE_T1_RATIO_def
  IOHDLC_POLL_RETRY_MAX_DEFAULT_def IOHDLC_MAX_INFO_LEN_DEFAULT_NO_FFF_def
  IOHDLC_POOL_WATERMARK_PCT_DEFAULT_def IOHDLC_POOL_WATERMARK_HIGH_MULTIPLIER_def
  IOHDLC_MIN_FRAME_POOL_FRAMES_def IOHDLC_FRAME_POOL_ALIGNMENT_def IOHDLC_PEER_MIFL_FALLBACK_def
  calculate_frame_size_def s_log2mod_supported_def init_framing_def init_reply_timeout_def
  default_optfuncs_def init_flags_critical_def init_max_info_def init_basic_def init_timeouts_def
  init_lists_def init_transparency_def init_fff_type_def init_pool_def init_driver_def ioHdlcStationInit_def
  zero_timer_def zero_peer_def ioHdlcAddr2peer_def peer_mifl_def ioHdlcAddPeer_def ioHdlcPeerSetWindow_def

lemmas exe_api =
  IOHDLC_WAIT_FOREVER_def s_api_timeout_remaining_def s_link_api_timeout_ms_def clear_terminal_def
  link_up_start_def link_up_event_def link_up_timeout_def link_down_start_def link_down_event_def
  ioHdlcPeerGetState_def app_listener_args_ok_def ioHdlcPeerUiSend_def ioHdlcPeerUiGet_def
  s_test_initiator_allowed_def s_test_pattern_byte_def s_fill_test_pattern_def s_test_pattern_matches_def
  s_take_completed_test_frame_locked_def test_prepare_def test_busy_def test_submit_def test_withdraw_def
  test_timeout_def test_response_ok_def test_finish_def IOHDLC_SSIZE_MAX_def
  IOHDLC_WRITER_PENDING_MARGIN_DIVISOR_def IOHDLC_WRITER_PENDING_MARGIN_MIN_def writer_pending_limit_def
  W_WAIT_COND_def tx_reset_pending_def write_admit_def writer_chunk_def write_take_def write_fill_def
  write_enqueue_def write_done_def IOHDLC_SS_RECVING_def IOHDLC_STREAM_RX_TERMINAL_MASK_def
  s_peer_rx_has_data_def rx_terminal_def clear_rx_terminal_def read_next_def info_len_of_def read_copy_def
  read_round_def read_begin_def read_done_def

lemmas exe_step =
  fill_bytes_def rx_frame_def tx_wake_def tx_dispatch_head_def write_fragment_def start_def has_room_def
  owned_def

lemma unat_ones: "unat (- 1 :: u32) = 4294967295"
  by (simp add: unsigned_minus_1_eq_mask mask_eq_exp_minus_1)

lemmas exe = Let_def unat_ones word_le_nat_alt word_less_nat_alt exec_def run_prims perform.simps(1,2,4-) on_st_run tx_run receive_run
  pool_refs_def kept_rsp_def pframes_def peer_frames_def opt_def
  exe_prelude exe_frame exe_pool exe_station exe_ops exe_peer exe_rx exe_tx exe_init exe_api exe_step

lemma replicate_small:
  "replicate 8 x = [x, x, x, x, x, x, x, x]"
  "replicate 9 x = [x, x, x, x, x, x, x, x, x]"
  "replicate 10 x = [x, x, x, x, x, x, x, x, x, x]"
  "replicate 11 x = [x, x, x, x, x, x, x, x, x, x, x]"
  "replicate 12 x = [x, x, x, x, x, x, x, x, x, x, x, x]"
  "replicate 14 x = [x, x, x, x, x, x, x, x, x, x, x, x, x, x]"
  by (simp_all add: numeral_eq_Suc)

end
