(* ===== verification/Hdlc_Sample.thy ===== *)
theory Hdlc_Sample
  imports Hdlc_Exec
begin

text \<open>
  A concrete primary station with one peer, set up by the interface, and runs of it: link set-up,
  a write of two fragments, acknowledgement. The properties of reachable states are applied to
  these runs.
\<close>

section \<open>A station\<close>

text \<open>Uninitialised memory, in front of a driver that keeps every frame until it is done.\<close>

definition raw_frame :: frame where
  "raw_frame = \<lparr>f_bytes = [], f_elen = 0, f_tx_len = 0, f_refs = 0, f_tx_ctrl_len = 0, f_openingflag = 0,
     f_gate_free = False, f_qaux_linked = False\<rparr>"

definition raw_pool :: pool where
  "raw_pool = \<lparr>fp_framesize = 0, fp_total = 0, fp_allocated = 0, fp_low_threshold = 0, fp_high_threshold = 0,
     fp_low_pct = 0, fp_high_pct = 0, fp_state = IOHDLC_POOL_NORMAL, fp_on_low = None, fp_on_normal = None,
     fp_cb_arg = 0, fp_free = [], fp_heap = (\<lambda>_. raw_frame)\<rparr>"

definition raw_station :: station where
  "raw_station = \<lparr>s_mode = 0, s_flags = 0, s_pf_state = 0,
    s_framing = \<lparr>modmask = 0, pfoctet = 0, ctrl_size = 0, frame_offset = 0\<rparr>,
    s_fcs_size = 0, s_flags_critical = 0, s_optfuncs = [0, 0, 0, 0, 0], s_reply_timeout_ms = 0,
    s_poll_retry_max_cfg = 0, s_idle_poll_timeout_ms = 0, s_port_constraints = 0, s_addr = 0, s_c_peer = None,
    s_connected_count = 0, s_peer_list = [], s_peers = (\<lambda>_. zero_peer), s_pool = raw_pool, s_rx_fn = RxNone,
    s_cm_flags = 0, s_app_log = [], s_stop_requested = False, s_driver_started = False, s_runner_started = False,
    s_tx_script = replicate 12 TxHold, s_sent = [], s_tx_pipe = [], s_pool_calls = [], s_fault = False\<rparr>"

definition sample_cfg :: station_config where
  "sample_cfg = \<lparr>cfg_mode = IOHDLC_OM_NDM, cfg_flags = IOHDLC_FLG_PRI, cfg_log2mod = 3, cfg_addr = 1,
    cfg_driver = Some (Some s_swdriver_base_caps), cfg_frame_arena = 4096, cfg_frame_arena_size = 512,
    cfg_frames = (\<lambda>_. raw_frame), cfg_max_info_len = 8, cfg_pool_watermark = 0, cfg_fff_type = 0,
    cfg_optfuncs = None, cfg_phydriver = None, cfg_reply_timeout_ms = 100, cfg_poll_retry_max = 3,
    cfg_idle_poll_timeout_ms = 0\<rparr>"

definition sample_plat :: platform where
  "sample_plat = \<lparr>pf_data_align = 8, pf_min_object_align = 8, pf_header_size = 24\<rparr>"

definition fresh_station :: station where
  "fresh_station = exec (ioHdlcStationInit sample_plat sample_cfg) raw_station"

definition sample_station :: station where
  "sample_station = exec (ioHdlcAddPeer 0 2) fresh_station"

lemma sample_set_up: "set_up sample_station"
  unfolding sample_station_def fresh_station_def
proof (rule set_up.add, rule set_up.init)
  show "init_cfg_ok sample_cfg" by code_simp
  show "s_tx_pipe raw_station = []" "\<not> s_fault raw_station" by code_simp+
  show "result (ioHdlcStationInit sample_plat sample_cfg) raw_station = Inr ()" by code_simp
  show "0 \<notin> set (s_peer_list (exec (ioHdlcStationInit sample_plat sample_cfg) raw_station))" by code_simp
  show "result (ioHdlcAddPeer 0 2) (exec (ioHdlcStationInit sample_plat sample_cfg) raw_station) = Inr ()" by code_simp
qed

section \<open>Runs\<close>

lemma build_free_12: "build_free 12 = [11, 10, 9, 8, 7, 6, 5, 4, 3, 2, 1, 0]" "build_free 10 = [9, 8, 7, 6, 5, 4, 3, 2, 1, 0]"
  by code_simp+

lemmas sample_defs = sample_station_def fresh_station_def raw_station_def raw_pool_def raw_frame_def sample_cfg_def
  sample_plat_def replicate_small build_free_12

text \<open>The SNRM goes out and is answered by a UA with the final bit.\<close>

definition connect :: "action list" where
  "connect = [LinkUp 2 IOHDLC_OM_NRM, Tx, Tx, TxDone 11, Rx [0, 2, 0x73] 3]"

definition blank_frame :: frame where
  "blank_frame = raw_frame\<lparr>f_bytes := replicate 14 0, f_gate_free := True\<rparr>"

definition connected_peer :: peer where
  "connected_peer = zero_peer\<lparr>p_addr := 2, p_ks := 7, p_kr := 7, p_mifls := 8, p_miflr := 8,
     p_ss_state := IOHDLC_SS_ST_CONN, p_tx_cv := 1, p_poll_retry_max := 3,
     p_reply_tmr := \<lparr>t_armed = False, t_expired = False, t_delay = 100\<rparr>,
     p_t3_tmr := \<lparr>t_armed = True, t_expired = False, t_delay = 200\<rparr>\<rparr>"

definition connected_pool :: pool where
  "connected_pool = raw_pool\<lparr>fp_framesize := 14, fp_total := 12, fp_low_threshold := 2, fp_high_threshold := 4,
     fp_low_pct := 20, fp_high_pct := 40, fp_free := build_free 12,
     fp_heap := (\<lambda>i. if i < 12 then blank_frame else raw_frame)
       (11 := blank_frame\<lparr>f_bytes := [0, 2, 0x73] @ replicate 11 0, f_elen := 3\<rparr>)\<rparr>"

definition connected :: sys where
  "connected = start (raw_station\<lparr>s_mode := IOHDLC_OM_NRM, s_flags := IOHDLC_FLG_PRI, s_pf_state := IOHDLC_F_RCVED,
     s_framing := \<lparr>modmask = 7, pfoctet = 0, ctrl_size = 1, frame_offset = 1\<rparr>, s_fcs_size := 2,
     s_flags_critical := IOHDLC_CFLG_FFF OR IOHDLC_CFLG_REJ, s_optfuncs := default_optfuncs, s_reply_timeout_ms := 100,
     s_poll_retry_max_cfg := 3, s_idle_poll_timeout_ms := 200, s_addr := 1, s_c_peer := Some 0,
     s_connected_count := 1, s_peer_list := [0], s_peers := (\<lambda>_. zero_peer)(0 := connected_peer),
     s_pool := connected_pool, s_rx_fn := RxNrm, s_cm_flags := IOHDLC_EVT_LINK_REQ OR IOHDLC_EVT_LINK_ST_CHG,
     s_app_log := [IOHDLC_APP_LINK_UP], s_tx_script := replicate 11 TxHold, s_sent := [[0, 2, 0x93]]\<rparr>)"

lemmas connected_defs = connected_def connected_pool_def connected_peer_def blank_frame_def

lemma connect_run: "run connect (start sample_station) = Some connected"
  by (simp del: perform.simps add: sample_defs connect_def connected_defs exe cong: in_order)
    (simp add: blank_frame_def raw_frame_def replicate_small cong: if_cong)

lemma reachable_connected: "reachable connected"
  by (rule run_reachable [OF reachable.base [OF sample_set_up] connect_run])

text \<open>Two fragments are written; the transmit thread sends both.\<close>

definition send_two :: "action list" where
  "send_two = [WriteBegin 0, WriteMore 0 [65, 66, 67], WriteMore 0 [68], WriteEnd 0 True (Inr 4),
     Tx, Tx, Tx, Tx, Tx, Tx]"

definition two_sent_peer :: peer where
  "two_sent_peer = connected_peer\<lparr>p_retrans_q := [11, 10], p_vs := 2, p_vs_highest := 2, p_vs_atlast_pf := 1,
     p_i_pending_count := 2, p_reply_tmr := \<lparr>t_armed = True, t_expired = False, t_delay = 100\<rparr>,
     p_t3_tmr := \<lparr>t_armed = False, t_expired = False, t_delay = 200\<rparr>\<rparr>"

definition i_frame_0 :: frame where
  "i_frame_0 = blank_frame\<lparr>f_bytes := [0, 2, 0x10, 65, 66, 67] @ replicate 8 0, f_elen := 6, f_refs := 2,
     f_tx_ctrl_len := 1, f_gate_free := False\<rparr>"

definition i_frame_1 :: frame where
  "i_frame_1 = blank_frame\<lparr>f_bytes := [0, 2, 0x02, 68] @ replicate 10 0, f_elen := 4, f_refs := 2,
     f_tx_ctrl_len := 1, f_gate_free := False\<rparr>"

definition two_sent_st :: station where
  "two_sent_st = (sy_st connected)\<lparr>s_pf_state := 0, s_peers := (\<lambda>_. zero_peer)(0 := two_sent_peer),
     s_pool := connected_pool\<lparr>fp_allocated := 2, fp_free := build_free 10,
       fp_heap := (\<lambda>i. if i < 12 then blank_frame else raw_frame)(11 := i_frame_0, 10 := i_frame_1)\<rparr>,
     s_cm_flags := 0, s_tx_script := replicate 9 TxHold,
     s_sent := [[0, 2, 0x93], [0, 2, 0x10, 65, 66, 67], [0, 2, 0x02, 68]], s_tx_pipe := [11, 10]\<rparr>"

definition two_sent :: sys where
  "two_sent = connected\<lparr>sy_st := two_sent_st, sy_tx := TxLoop 0 True IOHDLC_EVT_TX_IFRM_ENQ\<rparr>"

lemmas two_sent_defs = two_sent_def two_sent_st_def i_frame_0_def i_frame_1_def two_sent_peer_def

lemma two_sent_run: "run send_two connected = Some two_sent"
  by (simp del: perform.simps add: two_sent_defs sample_defs send_two_def connected_defs exe cong: in_order)

lemma reachable_two_sent: "reachable two_sent"
  by (rule run_reachable [OF reachable_connected two_sent_run])

end
