(* ===== verification/Hdlc_Safety.thy ===== *)
theory Hdlc_Safety
  imports Hdlc_Sample
begin

text \<open>
  What holds in every state a running station can reach, whatever the line delivers and in
  whatever order the threads run: no assertion fails, frames are neither lost nor shared, the
  transmit gates agree with the driver, the send window is consistent.
\<close>

lemma reachableD:
  assumes "reachable y"
  shows "stable (s_framing (sy_st y)) (s_peer_list (sy_st y)) (sy_hand y @ sy_lost y) (sy_st y)"
  using reachable_inv [OF assms] invD(1) unfolding sys_inv_def by blast

section \<open>Faults, frames and gates\<close>





text \<open>C16: In every reachable state the transmit gate of a frame is closed exactly while the driver
  has the frame, and the driver has no frame that a caller, or an unnumbered exchange, may still
  write.\<close>
theorem reachable_gates:
  assumes "reachable y" "f < unat (fp_total (s_pool (sy_st y)))"
  shows "let s = sy_st y in
    (f_gate_free (frame_of s f) \<longleftrightarrow> f \<notin> set (s_tx_pipe s))
    \<and> (f \<in> set (s_tx_pipe s) \<longrightarrow> f \<notin> set (sy_hand y)
        \<and> (\<forall>p \<in> set (s_peer_list s). p_um_api_frame (s_peers s p) \<noteq> Some f \<and> p_um_rsp_frame (s_peers s p) \<noteq> Some f))"
proof -
  note st = reachableD [OF assms(1)]
  have "f_gate_free (frame_of (sy_st y) f) \<longleftrightarrow> f \<notin> set (s_tx_pipe (sy_st y))"
    using owners_okD(5) [OF invD(5) [OF st] assms(2)] by (simp add: frame_of_def)
  then show ?thesis using invD(11) [OF st] by (auto simp: Let_def quiet_def um_frames_def)
qed

theorem reachable_gates_witness: "\<not> f_gate_free (frame_of (sy_st two_sent) 11)"
proof -
  have "fp_total (s_pool (sy_st two_sent)) = 12" "11 \<in> set (s_tx_pipe (sy_st two_sent))"
    by (auto simp: two_sent_defs connected_defs sample_defs start_def)
  with reachable_gates [OF reachable_two_sent, of 11] show ?thesis by (simp add: Let_def)
qed

section \<open>The send window\<close>

lemma modulus_modmask: "framing_ok fr \<Longrightarrow> unat (modmask fr) + 1 = modulus fr"
  by (erule framing_cases) (simp_all add: modulus_def)

lemma mod_offset: "a < m \<Longrightarrow> k < m \<Longrightarrow> ((a + k) mod m + m - a) mod m = k" for a k m :: nat
  by (cases "a + k < m") (simp_all add: mod_if)

lemma win_offset:
  assumes "framing_ok fr" "unat n < modulus fr" "k < modulus fr" "unat x = (unat n + k) mod modulus fr"
  shows "unat ((x - n) AND modmask fr) = k"
  using unat_diff_mm [OF assms(1), of x n] mod_offset [OF assms(2,3)] assms(2,4) by simp

lemma seqd_nth: "seqd fr hp n fs \<Longrightarrow> i < length fs \<Longrightarrow> numbered fr (hp (fs ! i)) (n + i)"
proof (induction fs arbitrary: n i)
  case (Cons f fs)
  then show ?case using Cons.IH [of "Suc n" "i - 1"] by (cases i) auto
qed simp

text \<open>What a consistent window says in the terms of the code.\<close>

lemma win_ok_facts:
  assumes w: "win_ok fr hp q" and f: "framing_ok fr"
  defines "sent \<equiv> unat ((p_vs_highest q - p_nr q) AND modmask fr)"
  shows "unat ((p_vs q - p_nr q) AND modmask fr) = length (p_retrans_q q)"
    "length (p_retrans_q q) \<le> sent" "sent \<le> length (p_retrans_q q @ p_trans_q q)" "sent \<le> unat (p_ks q)"
    "p_i_pending_count q = word_of_nat (length (p_trans_q q) + length (p_retrans_q q))"
    "i < sent \<Longrightarrow> numbered fr (hp ((p_retrans_q q @ p_trans_q q) ! i)) (unat (p_nr q) + i)"
    "unat (p_ks q) < modulus fr" "unat (p_nr q) < modulus fr"
proof -
  from w obtain us ws where u: "p_trans_q q = us @ ws"
    "seqd fr hp (unat (p_nr q)) (p_retrans_q q @ us)"
    "unat (p_vs q) = (unat (p_nr q) + length (p_retrans_q q)) mod modulus fr"
    "unat (p_vs_highest q) = (unat (p_nr q) + (length (p_retrans_q q) + length us)) mod modulus fr"
    "length (p_retrans_q q) + length us \<le> unat (p_ks q)"
    "unat (p_ks q) < modulus fr" "unat (p_nr q) < modulus fr"
    "p_i_pending_count q = word_of_nat (length (p_trans_q q) + length (p_retrans_q q))"
    unfolding win_ok_def by (auto simp: add.assoc)
  show "unat ((p_vs q - p_nr q) AND modmask fr) = length (p_retrans_q q)"
    using u by (intro win_offset [OF f]) auto
  have s: "sent = length (p_retrans_q q) + length us"
    unfolding sent_def using u by (intro win_offset [OF f]) auto
  show "length (p_retrans_q q) \<le> sent" "sent \<le> length (p_retrans_q q @ p_trans_q q)" "sent \<le> unat (p_ks q)"
    using u by (auto simp: s)
  show "numbered fr (hp ((p_retrans_q q @ p_trans_q q) ! i)) (unat (p_nr q) + i)" if "i < sent"
  proof -
    have "(p_retrans_q q @ p_trans_q q) ! i = (p_retrans_q q @ us) ! i"
      using that unfolding s u(1) by (simp only: append_assoc [symmetric] nth_append [of _ ws] length_append if_True)
    then show ?thesis using seqd_nth [OF u(2), of i] that s by simp
  qed
  show "unat (p_ks q) < modulus fr" "unat (p_nr q) < modulus fr"
    "p_i_pending_count q = word_of_nat (length (p_trans_q q) + length (p_retrans_q q))"
    using u by simp_all
qed

text \<open>C4: In every reachable state the difference of V(S) and V(R) of the peer, on which the sender
  bases its window, is the number of frames awaiting acknowledgement; with the frames moved back
  for retransmission they never exceed the window \<open>ks\<close>, which is below the modulus; and the
  writers' count of pending frames is exact.\<close>
theorem reachable_window:
  assumes "reachable y" "p \<in> set (s_peer_list (sy_st y))"
  shows "let s = sy_st y; q = s_peers s p; sent = unat ((p_vs_highest q - p_nr q) AND modmask (s_framing s)) in
    unat (outstanding_of s q) = length (p_retrans_q q)
    \<and> length (p_retrans_q q) \<le> sent \<and> sent \<le> unat (p_ks q) \<and> p_ks q \<le> modmask (s_framing s)
    \<and> p_i_pending_count q = word_of_nat (length (p_trans_q q) + length (p_retrans_q q))"
proof -
  note st = reachableD [OF assms(1)]
  have w: "win_ok (s_framing (sy_st y)) (fp_heap (s_pool (sy_st y))) (s_peers (sy_st y) p)"
    using invD(7) [OF st assms(2)] by simp
  note f = win_ok_facts [OF w invD(3) [OF st]]
  have "p_ks (s_peers (sy_st y) p) \<le> modmask (s_framing (sy_st y))"
    using f(7) modulus_modmask [OF invD(3) [OF st]] by (simp add: word_le_nat_alt)
  then show ?thesis using f(1-5) by (simp add: Let_def outstanding_of_def)
qed

theorem reachable_window_witness:
  "unat (outstanding_of (sy_st two_sent) (s_peers (sy_st two_sent) 0)) = 2"
proof -
  have "0 \<in> set (s_peer_list (sy_st two_sent))" "length (p_retrans_q (s_peers (sy_st two_sent) 0)) = 2"
    by (auto simp: two_sent_defs connected_defs sample_defs start_def)
  with reachable_window [OF reachable_two_sent, of 0] show ?thesis by (simp add: Let_def)
qed

text \<open>C5: In every reachable state the frames that have been sent and not acknowledged, first those
  in the retransmission queue, then those moved back to the head of the transmission queue, are
  I-frames whose N(S) counts up from the oldest unacknowledged number, modulo 8 or 128.\<close>
theorem reachable_numbering:
  assumes "reachable y" "p \<in> set (s_peer_list (sy_st y))"
    and "i < unat ((p_vs_highest (s_peers (sy_st y) p) - p_nr (s_peers (sy_st y) p)) AND modmask (s_framing (sy_st y)))"
  shows "let s = sy_st y; q = s_peers s p; fm = frame_of s ((p_retrans_q q @ p_trans_q q) ! i) in
    IOHDLC_IS_I_FRM (IOHDLC_FRAME_CTRL (s_framing s) (f_bytes fm) 0)
    \<and> extractNS (s_framing s) (f_bytes fm) = (p_nr q + word_of_nat i) AND modmask (s_framing s)"
proof -
  let ?s = "sy_st y" let ?fr = "s_framing ?s" let ?q = "s_peers ?s p"
  note st = reachableD [OF assms(1)]
  note fo = invD(3) [OF st]
  have w: "win_ok ?fr (fp_heap (s_pool ?s)) ?q" using invD(7) [OF st assms(2)] by simp
  note f = win_ok_facts [OF w fo]
  have n: "numbered ?fr (frame_of ?s ((p_retrans_q ?q @ p_trans_q ?q) ! i)) (unat (p_nr ?q) + i)"
    using f(6) [OF assms(3)] by (simp add: frame_of_def)
  have i: "i < modulus ?fr" using assms(3) f(4,7) by simp
  then have "unat (p_nr ?q + word_of_nat i) = unat (p_nr ?q) + i"
    using f(8) modulus_cases [OF fo] by (auto simp: unat_word_ariths unat_of_nat)
  then show ?thesis using n unat_and_mm [OF fo, of "p_nr ?q + word_of_nat i"]
    by (simp add: Let_def numbered_def word_unat_eq_iff)
qed

theorem reachable_numbering_witness:
  "extractNS (s_framing (sy_st two_sent)) (f_bytes (frame_of (sy_st two_sent) 10)) = 1"
proof -
  have "0 \<in> set (s_peer_list (sy_st two_sent))" "p_retrans_q (s_peers (sy_st two_sent) 0) = [11, 10]"
    "p_vs_highest (s_peers (sy_st two_sent) 0) = 2" "p_nr (s_peers (sy_st two_sent) 0) = 0"
    "modmask (s_framing (sy_st two_sent)) = 7"
    by (auto simp: two_sent_defs connected_defs sample_defs start_def zero_peer_def)
  with reachable_numbering [OF reachable_two_sent, of 0 1] show ?thesis by (simp add: Let_def)
qed

section \<open>The transmit thread\<close>


section \<open>A frame that is lost\<close>

definition crossed_tests :: "action list" where
  "crossed_tests = [TestNew 0 1 100, TestGo 0, Tx, TxDone 11, Rx [0, 1, 0xF3] 3, Rx [0, 2, 0xF3, 0xA5] 4,
     Rx [0, 1, 0xF3] 3]"

lemma crossed_tests_run: "\<exists>y. run crossed_tests connected = Some y \<and> sy_lost y = [11]"
  by (simp del: perform.simps add: sample_defs crossed_tests_def connected_defs exe cong: in_order)

text \<open>C25: A TEST command received while the own TEST awaits its response is lost when the response
  comes first and then a second TEST command: the frame kept for the answer is overwritten, and
  no part of the station owns it any more.\<close>
theorem crossed_tests_leak: "\<exists>y f. reachable y \<and> f \<in> set (sy_lost y) \<and> f \<notin> set (fp_free (s_pool (sy_st y)))
    \<and> f \<notin> set (pframes (s_peer_list (sy_st y)) (s_peers (sy_st y)))"
proof -
  from crossed_tests_run obtain y where y: "run crossed_tests connected = Some y" "sy_lost y = [11]" by blast
  have r: "reachable y" by (rule run_reachable [OF reachable_connected y(1)])
  note o' = owners_okD [OF invD(5) [OF reachableD [OF r]]]
  have "11 \<notin> set (pframes (s_peer_list (sy_st y)) (s_peers (sy_st y)))" using o'(2) by (simp add: y(2))
  moreover have "pool_refs (s_pool (sy_st y)) 11 \<noteq> 0" unfolding o'(4) [of 11] by (simp add: y(2))
  ultimately show ?thesis using r y(2) refs_pos_total by (metis list.set_intros(1))
qed

end
