(* ===== verification/Hdlc_Range.thy ===== *)
theory Hdlc_Range
  imports Hdlc_Safety
begin

text \<open>
  The ranges of the values a running station keeps: its type invariant, and the numbers an
  acknowledgment may carry.
\<close>

lemma offset_back:
  assumes "framing_ok fr" "unat n < modulus fr" "unat x < modulus fr"
  shows "unat x = (unat n + unat ((x - n) AND modmask fr)) mod modulus fr"
  unfolding unat_diff_mm [OF assms(1,3,2)] using assms(2,3) by (simp add: mod_add_right_eq)

section \<open>Types\<close>

definition peer_typed :: "station \<Rightarrow> peer \<Rightarrow> bool" where
  "peer_typed s q \<longleftrightarrow>
     p_vs q \<le> modmask (s_framing s) \<and> p_vs_highest q \<le> modmask (s_framing s)
     \<and> p_vr q \<le> modmask (s_framing s) \<and> p_nr q \<le> modmask (s_framing s) \<and> p_ks q \<le> modmask (s_framing s)
     \<and> (\<forall>f \<in> set (peer_frames q). f < unat (fp_total (s_pool s)))"

definition station_typed :: "station \<Rightarrow> bool" where
  "station_typed s \<longleftrightarrow>
     framing_ok (s_framing s) \<and> unat (frame_offset (s_framing s)) + 7 \<le> fp_framesize (s_pool s)
     \<and> (\<forall>f < unat (fp_total (s_pool s)). length (f_bytes (frame_of s f)) = fp_framesize (s_pool s))
     \<and> (\<forall>c. s_c_peer s = Some c \<longrightarrow> c \<in> set (s_peer_list s))
     \<and> (\<forall>f \<in> set (s_tx_pipe s @ fp_free (s_pool s)). f < unat (fp_total (s_pool s)))
     \<and> (\<forall>p \<in> set (s_peer_list s). peer_typed s (s_peers s p))"

lemma le_modmask: "framing_ok fr \<Longrightarrow> n \<le> modmask fr \<longleftrightarrow> unat n < modulus fr"
  using modulus_modmask [of fr] by (auto simp: word_le_nat_alt)

lemma win_ok_range:
  assumes "win_ok fr hp q" "framing_ok fr"
  shows "p_vs q \<le> modmask fr" "p_vs_highest q \<le> modmask fr" "p_vr q \<le> modmask fr"
    "p_nr q \<le> modmask fr" "p_ks q \<le> modmask fr"
  using assms(1) modulus_pos unfolding le_modmask [OF assms(2)] win_ok_def by auto

lemma stable_typed:
  assumes st: "stable (s_framing s) (s_peer_list s) H s"
  shows "station_typed s"
proof -
  note fo = invD(3) [OF st]
  note ow = owners_okD [OF invD(5) [OF st]]
  note ps = pool_okD [OF ow(1)]
  have held: "f < unat (fp_total (s_pool s))"
    if "f \<in> set (pframes (s_peer_list s) (s_peers s)) \<union> set (s_tx_pipe s)" for f
    using refs_pos_total [of "s_pool s" f] ow(4) [of f] that by auto
  have "peer_typed s (s_peers s p)" if p: "p \<in> set (s_peer_list s)" for p
  proof -
    have w: "win_ok (s_framing s) (fp_heap (s_pool s)) (s_peers s p)" using invD(7) [OF st p] by simp
    show ?thesis using win_ok_range [OF w fo] held peer_frames_in [OF p] by (auto simp: peer_typed_def)
  qed
  then show ?thesis
    using fo invD(9) [OF st] invD(8) [OF st] held ps(2,5) by (auto simp: station_typed_def frame_of_def)
qed

text \<open>C15: In every reachable state the fields of the station hold values of their types: the
  framing is one of the two formats of the control field, every frame buffer has the configured
  length, with room for the longest header, the current peer is one of the station's, every frame
  index kept in a queue, in a pointer, by the driver or on the free list names a frame of the pool,
  and every sequence number and window is below the modulus.\<close>
theorem reachable_types:
  assumes "reachable y"
  shows "station_typed (sy_st y)"
  by (rule stable_typed [OF reachableD [OF assms]])

theorem reachable_types_witness:
  "length (f_bytes (frame_of (sy_st two_sent) 11)) = fp_framesize (s_pool (sy_st two_sent))"
proof -
  have "fp_total (s_pool (sy_st two_sent)) = 12"
    by (auto simp: two_sent_defs connected_defs sample_defs start_def)
  with reachable_types [OF reachable_two_sent] show ?thesis by (simp add: station_typed_def)
qed

section \<open>Valid acknowledgments\<close>

text \<open>C14: In every reachable state the test of an arriving N(R), which is written as one subtraction
  and one mask on unsigned words, accepts exactly the numbers from the oldest unacknowledged frame
  up to the one after the last frame ever sent, across the wrap-around of the numbers.\<close>
theorem valid_nr_range:
  assumes "reachable y" "p \<in> set (s_peer_list (sy_st y))" "nr \<le> modmask (s_framing (sy_st y))"
  shows "let s = sy_st y; q = s_peers s p; m = unat (modmask (s_framing s)) + 1;
      sent = unat ((p_vs_highest q - p_nr q) AND modmask (s_framing s)) in
    (isNRValid s q nr \<longleftrightarrow> (\<exists>k \<le> sent. unat nr = (unat (p_nr q) + k) mod m))
    \<and> unat (p_vs_highest q) = (unat (p_nr q) + sent) mod m \<and> sent < m"
proof -
  let ?s = "sy_st y" let ?fr = "s_framing ?s" let ?q = "s_peers ?s p"
  let ?sent = "unat ((p_vs_highest ?q - p_nr ?q) AND modmask ?fr)"
  note st = reachableD [OF assms(1)]
  note fo = invD(3) [OF st]
  have w: "win_ok ?fr (fp_heap (s_pool ?s)) ?q" using invD(7) [OF st assms(2)] by simp
  note f = win_ok_facts [OF w fo]
  have r: "unat (p_vs_highest ?q) < modulus ?fr" "unat nr < modulus ?fr"
    using win_ok_range(2) [OF w fo] assms(3) by (simp_all add: le_modmask [OF fo])
  have s: "?sent < modulus ?fr" using f(4,7) by simp
  have v: "isNRValid ?s ?q nr \<longleftrightarrow> unat ((nr - p_nr ?q) AND modmask ?fr) \<le> ?sent"
    by (simp add: isNRValid_def Let_def word_le_nat_alt)
  have "(\<exists>k \<le> ?sent. unat nr = (unat (p_nr ?q) + k) mod modulus ?fr)
      \<longleftrightarrow> unat ((nr - p_nr ?q) AND modmask ?fr) \<le> ?sent" (is "?l = ?r")
  proof
    assume ?l
    then obtain k where k: "k \<le> ?sent" "unat nr = (unat (p_nr ?q) + k) mod modulus ?fr" by blast
    from k(1) s have "k < modulus ?fr" by (rule le_less_trans)
    from win_offset [OF fo f(8) this k(2)] k(1) show ?r by simp
  next
    assume ?r
    then show ?l using offset_back [OF fo f(8) r(2)] by blast
  qed
  then show ?thesis
    using v s offset_back [OF fo f(8) r(1)] by (simp only: Let_def modulus_modmask [OF fo] simp_thms)
qed

theorem valid_nr_range_witness:
  "isNRValid (sy_st two_sent) (s_peers (sy_st two_sent) 0) 2
   \<and> \<not> isNRValid (sy_st two_sent) (s_peers (sy_st two_sent) 0) 3"
proof -
  have "0 \<in> set (s_peer_list (sy_st two_sent))"
    "p_vs_highest (s_peers (sy_st two_sent) 0) = 2" "p_nr (s_peers (sy_st two_sent) 0) = 0"
    "modmask (s_framing (sy_st two_sent)) = 7"
    by (auto simp: two_sent_defs connected_defs sample_defs start_def zero_peer_def)
  with valid_nr_range [OF reachable_two_sent, of 0 2] valid_nr_range [OF reachable_two_sent, of 0 3]
  show ?thesis by (auto simp: Let_def word_le_nat_alt intro: exI [of _ 2])
qed

end
