(* ===== verification/Hdlc_Protocol.thy ===== *)
theory Hdlc_Protocol
  imports Hdlc_Prelude
begin

text \<open>
  The contract of one direction of a link: a go-back-N sender over octet strings, a receiver that
  accepts the number it expects, and between them two channels that keep the order but may lose
  messages. What the receiver has accepted is always a prefix of what the sender was given, and
  what the sender has forgotten has been accepted.
\<close>

section \<open>The abstract sender\<close>

record sender =
  g_base :: nat
  g_flight :: "u8 list list"
  g_back :: "u8 list list"
  g_new :: "u8 list list"

definition g_ack :: "nat \<Rightarrow> nat \<Rightarrow> sender \<Rightarrow> sender" where
  "g_ack m k g = g\<lparr>g_base := (g_base g + k) mod m, g_flight := drop k (g_flight g)\<rparr>"

definition g_goback :: "sender \<Rightarrow> sender" where
  "g_goback g = g\<lparr>g_flight := [], g_back := g_flight g @ g_back g\<rparr>"

definition g_send :: "sender \<Rightarrow> sender" where
  "g_send g = (case g_back g of
     x # xs \<Rightarrow> g\<lparr>g_flight := g_flight g @ [x], g_back := xs\<rparr>
   | [] \<Rightarrow> (case g_new g of [] \<Rightarrow> g | x # xs \<Rightarrow> g\<lparr>g_flight := g_flight g @ [x], g_new := xs\<rparr>))"

definition g_put :: "u8 list \<Rightarrow> sender \<Rightarrow> sender" where
  "g_put x g = g\<lparr>g_new := g_new g @ [x]\<rparr>"

section \<open>The link\<close>

text \<open>\<open>l_in\<close> and \<open>l_out\<close> are the histories of the strings given to the sender and accepted by
  the receiver.\<close>

record link =
  l_snd :: sender
  l_vr :: nat
  l_down :: "(nat \<times> u8 list) list"
  l_up :: "nat list"
  l_in :: "u8 list list"
  l_out :: "u8 list list"

definition l_init :: link where
  "l_init = \<lparr>l_snd = \<lparr>g_base = 0, g_flight = [], g_back = [], g_new = []\<rparr>, l_vr = 0,
     l_down = [], l_up = [], l_in = [], l_out = []\<rparr>"

text \<open>The number of frames a received N(R) acknowledges; an N(R) outside of what has been sent is
  ignored.\<close>

definition g_offset :: "nat \<Rightarrow> sender \<Rightarrow> nat \<Rightarrow> nat" where
  "g_offset m g n = (n + m - g_base g) mod m"

inductive l_step :: "nat \<Rightarrow> link \<Rightarrow> link \<Rightarrow> bool" for m where
  l_put: "l_step m y (y\<lparr>l_snd := g_put x (l_snd y), l_in := l_in y @ [x]\<rparr>)"
| l_send: "Suc (length (g_flight (l_snd y))) < m \<Longrightarrow> g_back (l_snd y) @ g_new (l_snd y) = x # xs
    \<Longrightarrow> l_step m y (y\<lparr>l_snd := g_send (l_snd y),
      l_down := l_down y @ [((g_base (l_snd y) + length (g_flight (l_snd y))) mod m, x)]\<rparr>)"
| l_goback: "l_step m y (y\<lparr>l_snd := g_goback (l_snd y)\<rparr>)"
| l_lose: "l_down y = us @ v # ws \<Longrightarrow> l_step m y (y\<lparr>l_down := us @ ws\<rparr>)"
| l_accept: "l_down y = (l_vr y, x) # ws
    \<Longrightarrow> l_step m y (y\<lparr>l_down := ws, l_vr := Suc (l_vr y) mod m, l_out := l_out y @ [x]\<rparr>)"
| l_respond: "l_step m y (y\<lparr>l_up := l_up y @ [l_vr y]\<rparr>)"
| l_lose_up: "l_up y = us @ v # ws \<Longrightarrow> l_step m y (y\<lparr>l_up := us @ ws\<rparr>)"
| l_ack: "l_up y = n # ws
    \<Longrightarrow> g_offset m (l_snd y) n \<le> length (g_flight (l_snd y)) + length (g_back (l_snd y))
    \<Longrightarrow> l_step m y (y\<lparr>l_up := ws,
      l_snd := g_ack m (min (g_offset m (l_snd y) n) (length (g_flight (l_snd y)))) (l_snd y)\<rparr>)"

inductive l_reach :: "nat \<Rightarrow> link \<Rightarrow> bool" for m where
  l_start: "l_reach m l_init"
| l_more: "l_reach m y \<Longrightarrow> l_step m y y' \<Longrightarrow> l_reach m y'"

section \<open>The invariant\<close>

text \<open>The numbers without the modulus: \<open>b\<close> is the oldest unacknowledged string, \<open>r\<close> the next one
  the receiver expects, \<open>h\<close> the first one never sent. Each message on its way carries its number
  and the value \<open>h\<close> had when it was sent.\<close>

definition down_ok :: "nat \<Rightarrow> nat \<Rightarrow> nat \<Rightarrow> u8 list list \<Rightarrow> (nat \<times> u8 list) list \<Rightarrow> (nat \<times> nat) list \<Rightarrow> bool" where
  "down_ok m r h xs down js \<longleftrightarrow> down = map (\<lambda>(j, t). (j mod m, xs ! j)) js \<and> sorted (map snd js)
     \<and> (\<forall>(j, t) \<in> set js. j < t \<and> t \<le> h \<and> t < j + m \<and> r \<le> t)"

definition up_ok :: "nat \<Rightarrow> nat \<Rightarrow> nat \<Rightarrow> nat list \<Rightarrow> nat list \<Rightarrow> bool" where
  "up_ok m b r up as \<longleftrightarrow> up = map (\<lambda>a. a mod m) as \<and> sorted as \<and> (\<forall>a \<in> set as. b \<le> a \<and> a \<le> r)"

definition l_inv :: "nat \<Rightarrow> link \<Rightarrow> nat \<Rightarrow> nat \<Rightarrow> nat \<Rightarrow> (nat \<times> nat) list \<Rightarrow> nat list \<Rightarrow> bool" where
  "l_inv m y b r h js as \<longleftrightarrow>
     g_base (l_snd y) = b mod m \<and> l_vr y = r mod m \<and> b \<le> r \<and> r \<le> h \<and> h < b + m
     \<and> b + length (g_flight (l_snd y)) + length (g_back (l_snd y)) = h \<and> b \<le> length (l_in y)
     \<and> drop b (l_in y) = g_flight (l_snd y) @ g_back (l_snd y) @ g_new (l_snd y)
     \<and> l_out y = take r (l_in y) \<and> down_ok m r h (l_in y) (l_down y) js \<and> up_ok m b r (l_up y) as"

lemma l_inv_parts:
  assumes "l_inv m y b r h js as"
  shows "down_ok m r h (l_in y) (l_down y) js" "up_ok m b r (l_up y) as"
    "drop b (l_in y) = g_flight (l_snd y) @ g_back (l_snd y) @ g_new (l_snd y)"
    "b + length (g_flight (l_snd y)) + length (g_back (l_snd y)) = h"
    "b \<le> length (l_in y)" "b \<le> r" "r \<le> h" "h < b + m" "l_vr y = r mod m" "g_base (l_snd y) = b mod m"
    "l_out y = take r (l_in y)"
  using assms unfolding l_inv_def by blast+

lemma l_invD:
  assumes "l_inv m y b r h js as"
  shows "h \<le> length (l_in y)" "r \<le> length (l_in y)" "b \<le> h"
proof -
  note p = l_inv_parts [OF assms]
  have "length (l_in y) - b = length (g_flight (l_snd y)) + length (g_back (l_snd y)) + length (g_new (l_snd y))"
    using arg_cong [OF p(3), of length] by simp
  with p(4-8) show "h \<le> length (l_in y)" "r \<le> length (l_in y)" "b \<le> h" by linarith+
qed

lemma mod_close: "a mod m = b mod m \<Longrightarrow> a < b + m \<Longrightarrow> b < a + m \<Longrightarrow> a = b" for a b m :: nat
proof (induction a b rule: linorder_wlog)
  case (le a b)
  then have "m dvd b - a" using mod_eq_dvd_iff_nat [of a b m] by simp
  with le show ?case by (auto dest!: dvd_imp_le)
qed simp

lemma l_inv_put:
  assumes "l_inv m y b r h js as"
  shows "l_inv m (y\<lparr>l_snd := g_put x (l_snd y), l_in := l_in y @ [x]\<rparr>) b r h js as"
proof -
  note l = l_invD [OF assms]
  have "down_ok m r h (l_in y @ [x]) (l_down y) js"
    using l_inv_parts(1) [OF assms] l by (fastforce simp: down_ok_def nth_append)
  then show ?thesis using assms l by (simp add: l_inv_def g_put_def)
qed

lemma l_inv_send:
  assumes i: "l_inv m y b r h js as" and k: "Suc (length (g_flight (l_snd y))) < m"
    and x: "g_back (l_snd y) @ g_new (l_snd y) = x # xs"
  defines "j \<equiv> b + length (g_flight (l_snd y))"
  shows "l_inv m (y\<lparr>l_snd := g_send (l_snd y),
      l_down := l_down y @ [((g_base (l_snd y) + length (g_flight (l_snd y))) mod m, x)]\<rparr>)
    b r (max h (Suc j)) (js @ [(j, max h (Suc j))]) as"
proof -
  let ?g = "l_snd y"
  note q = l_inv_parts [OF i]
  have "drop b (l_in y) = g_flight ?g @ x # xs" using q(3) x by simp
  then have "drop b (l_in y) ! length (g_flight ?g) = x" by simp
  then have n: "l_in y ! j = x" using q(5) by (simp add: j_def)
  note o' = q(1)
  have "down_ok m r (max h (Suc j)) (l_in y) (l_down y @ [(j mod m, x)]) (js @ [(j, max h (Suc j))])"
    using o' n q(4,6-8) k by (fastforce simp: down_ok_def j_def sorted_append)
  moreover have "(g_base ?g + length (g_flight ?g)) mod m = j mod m" using q(10) by (simp add: j_def mod_simps)
  moreover have "g_flight (g_send ?g) @ g_back (g_send ?g) @ g_new (g_send ?g) = g_flight ?g @ g_back ?g @ g_new ?g"
    "b + length (g_flight (g_send ?g)) + length (g_back (g_send ?g)) = max h (Suc j)"
    using q(4) x by (auto simp: g_send_def j_def split: list.splits)
  moreover have "g_base (g_send ?g) = g_base ?g" by (simp add: g_send_def split: list.split)
  ultimately show ?thesis using i k by (auto simp: l_inv_def j_def)
qed

lemma l_inv_accept:
  assumes i: "l_inv m y b r h js as" and d: "l_down y = (l_vr y, x) # ws"
  shows "l_inv m (y\<lparr>l_down := ws, l_vr := Suc (l_vr y) mod m, l_out := l_out y @ [x]\<rparr>) b (Suc r) h (tl js) as"
proof -
  note q = l_inv_parts [OF i]
  have m: "map (\<lambda>(j, t). (j mod m, l_in y ! j)) js = (l_vr y, x) # ws" using q(1) d by (simp add: down_ok_def)
  have so: "sorted (map snd js)" "\<forall>(j, t) \<in> set js. j < t \<and> t \<le> h \<and> t < j + m \<and> r \<le> t"
    using q(1) unfolding down_ok_def by blast+
  from m obtain j t js' where js: "js = (j, t) # js'" by auto
  have "j mod m = l_vr y" and w: "l_in y ! j = x" "ws = map (\<lambda>(j, t). (j mod m, l_in y ! j)) js'"
    using m by (auto simp: js)
  then have jr: "j mod m = r mod m" using q(9) by (rule_tac trans)
  have j: "j < t" "t \<le> h" "t < j + m" "r \<le> t" using so(2) unfolding js by auto
  have "j < r + m" using j(1,2) q(6-8) by linarith
  then have r: "j = r" using j(3,4) by (intro mod_close [OF jr]) simp_all
  have s: "down_ok m (Suc r) h (l_in y) ws js'"
    using so j r w unfolding js down_ok_def by (intro conjI) auto
  have u: "up_ok m b (Suc r) (l_up y) as" using q(2) by (fastforce simp: up_ok_def)
  have "take (Suc r) (l_in y) = take r (l_in y) @ [x]"
    using j r w l_invD(1) [OF i] by (simp add: take_Suc_conv_app_nth)
  then show ?thesis using q s u j(1,2) r by (simp add: l_inv_def js mod_simps)
qed

lemma l_inv_ack:
  assumes i: "l_inv m y b r h js as" and u: "l_up y = n # ws"
    and v: "g_offset m (l_snd y) n \<le> length (g_flight (l_snd y)) + length (g_back (l_snd y))"
  shows "\<exists>b'. l_inv m (y\<lparr>l_up := ws,
      l_snd := g_ack m (min (g_offset m (l_snd y) n) (length (g_flight (l_snd y)))) (l_snd y)\<rparr>) b' r h js (tl as)"
proof -
  let ?g = "l_snd y"
  note q = l_inv_parts [OF i]
  note o' = q(2)
  with u obtain a as' where as: "as = a # as'" by (cases as) (auto simp: up_ok_def)
  have a: "n = a mod m" "b \<le> a" "a \<le> r" using o' u unfolding as by (auto simp: up_ok_def)
  have m: "0 < m" using q(4,8) by linarith
  have "n + m - b mod m = n + (m - b mod m)" using m by (simp add: less_imp_le)
  then have "g_offset m ?g n = (a + (m - b mod m)) mod m"
    using q(10) a(1) by (simp add: g_offset_def mod_simps)
  also have "a = b + (a - b)" using a(2) by simp
  also have "(b + (a - b) + (m - b mod m)) mod m = (a - b) mod m"
  proof -
    have "(b + c) mod m = (b mod m + c) mod m" for c by (simp add: mod_simps)
    then have "(b + (a - b) + (m - b mod m)) mod m = (b mod m + ((a - b) + (m - b mod m))) mod m"
      by (simp only: add.assoc)
    also have "b mod m + ((a - b) + (m - b mod m)) = (a - b) + m"
      using mod_less_divisor [OF m, of b] by linarith
    finally show ?thesis by simp
  qed
  also have "\<dots> = a - b" using a q(7,8) by simp
  finally have off: "g_offset m ?g n = a - b" by simp
  define k where "k = min (a - b) (length (g_flight ?g))"
  have "up_ok m (b + k) r ws as'" using o' u a unfolding as by (fastforce simp: up_ok_def k_def)
  moreover have "drop (b + k) (l_in y) = drop k (g_flight ?g) @ g_back ?g @ g_new ?g"
    using arg_cong [OF q(3), of "drop k"] by (simp only: drop_drop add.commute drop_append) (simp add: k_def)
  moreover have "b + k \<le> r" using a by (simp add: k_def)
  moreover have "b + k + length (drop k (g_flight ?g)) + length (g_back ?g) = h"
    using q(4) by (simp add: k_def)
  ultimately have "l_inv m (y\<lparr>l_up := ws, l_snd := g_ack m k ?g\<rparr>) (b + k) r h js as'"
    using q l_invD(2) [OF i] by (simp add: l_inv_def g_ack_def mod_simps)
  then show ?thesis unfolding off k_def [symmetric] as by auto
qed

lemma map_drop_one: "us @ v # ws = map f xs \<Longrightarrow> \<exists>x1 x x2. xs = x1 @ x # x2 \<and> us = map f x1 \<and> ws = map f x2"
  by (auto simp: append_eq_map_conv Cons_eq_map_conv)

lemma l_inv_lose:
  assumes i: "l_inv m y b r h js as" and d: "l_down y = us @ v # ws"
  shows "\<exists>js'. l_inv m (y\<lparr>l_down := us @ ws\<rparr>) b r h js' as"
proof -
  note q = l_inv_parts [OF i]
  have "us @ v # ws = map (\<lambda>(j, t). (j mod m, l_in y ! j)) js" using q(1) d by (simp add: down_ok_def)
  from map_drop_one [OF this] obtain j1 j j2 where j: "js = j1 @ j # j2" "us = map (\<lambda>(j, t). (j mod m, l_in y ! j)) j1"
    "ws = map (\<lambda>(j, t). (j mod m, l_in y ! j)) j2" by blast
  have "sorted (map snd js)" "\<forall>(j, t) \<in> set js. j < t \<and> t \<le> h \<and> t < j + m \<and> r \<le> t"
    using q(1) unfolding down_ok_def by blast+
  then have "down_ok m r h (l_in y) (us @ ws) (j1 @ j2)"
    unfolding down_ok_def j by (intro conjI) (auto simp: sorted_append)
  then have "l_inv m (y\<lparr>l_down := us @ ws\<rparr>) b r h (j1 @ j2) as" using q by (simp add: l_inv_def)
  then show ?thesis ..
qed

lemma l_inv_lose_up:
  assumes i: "l_inv m y b r h js as" and u: "l_up y = us @ v # ws"
  shows "\<exists>as'. l_inv m (y\<lparr>l_up := us @ ws\<rparr>) b r h js as'"
proof -
  note q = l_inv_parts [OF i]
  have "us @ v # ws = map (\<lambda>a. a mod m) as" using q(2) u by (simp add: up_ok_def)
  from map_drop_one [OF this] obtain a1 a a2 where j: "as = a1 @ a # a2" "us = map (\<lambda>a. a mod m) a1"
    "ws = map (\<lambda>a. a mod m) a2" by blast
  have "sorted as" "\<forall>a \<in> set as. b \<le> a \<and> a \<le> r" using q(2) unfolding up_ok_def by blast+
  then have "up_ok m b r (us @ ws) (a1 @ a2)" unfolding up_ok_def j by (auto simp: sorted_append)
  then have "l_inv m (y\<lparr>l_up := us @ ws\<rparr>) b r h js (a1 @ a2)" using q by (simp add: l_inv_def)
  then show ?thesis ..
qed

lemma l_step_inv:
  assumes "l_step m y y'" "l_inv m y b r h js as"
  shows "\<exists>b r h js as. l_inv m y' b r h js as"
  using assms
proof (induction rule: l_step.induct)
  case (l_put y x)
  show ?case using l_inv_put [OF l_put] by blast
next
  case (l_send y x xs)
  show ?case using l_inv_send [OF l_send(3,1,2)] by blast
next
  case (l_goback y)
  then have "l_inv m (y\<lparr>l_snd := g_goback (l_snd y)\<rparr>) b r h js as" by (simp add: l_inv_def g_goback_def)
  then show ?case by blast
next
  case (l_lose y us v ws)
  show ?case using l_inv_lose [OF l_lose(2,1)] by blast
next
  case (l_accept y x ws)
  show ?case using l_inv_accept [OF l_accept(2,1)] by blast
next
  case (l_respond y)
  have "up_ok m b r (l_up y @ [l_vr y]) (as @ [r])"
    using l_inv_parts(2,6,9) [OF l_respond] by (auto simp: up_ok_def sorted_append)
  then have "l_inv m (y\<lparr>l_up := l_up y @ [l_vr y]\<rparr>) b r h js (as @ [r])" using l_respond by (simp add: l_inv_def)
  then show ?case by blast
next
  case (l_lose_up y us v ws)
  show ?case using l_inv_lose_up [OF l_lose_up(2,1)] by blast
next
  case (l_ack y n ws)
  show ?case using l_inv_ack [OF l_ack(3,1,2)] by blast
qed

lemma l_reach_inv: "l_reach m y \<Longrightarrow> 0 < m \<Longrightarrow> \<exists>b r h js as. l_inv m y b r h js as"
proof (induction rule: l_reach.induct)
  case l_start
  then have "l_inv m l_init 0 0 0 [] []" by (simp add: l_inv_def l_init_def down_ok_def up_ok_def)
  then show ?case by blast
qed (use l_step_inv in blast)

text \<open>Nothing lost, repeated or reordered: what was accepted is a prefix of what was given, and at
  least all that the sender no longer keeps.\<close>

lemma l_reach_prefix:
  assumes "l_reach m y" "0 < m"
  shows "\<exists>gone kept. l_in y = l_out y @ kept
    \<and> l_in y = gone @ g_flight (l_snd y) @ g_back (l_snd y) @ g_new (l_snd y) \<and> length gone \<le> length (l_out y)"
proof -
  from l_reach_inv [OF assms] obtain b r h js as where i: "l_inv m y b r h js as" by blast
  note q = l_inv_parts [OF i]
  have "l_in y = l_out y @ drop r (l_in y)" "l_in y = take b (l_in y) @ drop b (l_in y)" by (simp_all add: q(11))
  moreover have "length (take b (l_in y)) \<le> length (l_out y)" using q(5,6,11) l_invD(2) [OF i] by simp
  ultimately show ?thesis unfolding q(3) by blast
qed

end
