(* ===== verification/Hdlc_GoBackN.thy ===== *)
theory Hdlc_GoBackN
  imports Hdlc_Safety Hdlc_Protocol
begin

text \<open>
  The sender of a peer as an abstract go-back-N sender over octet strings, and the operations of
  the core as its transitions: an acknowledgment drops the head of what is in flight, a
  checkpoint or REJ moves everything in flight back in front, and a transmission moves the next
  string into flight, in a frame that carries exactly this string under the next number.
\<close>

section \<open>The sender of a peer\<close>

definition payload :: "framing \<Rightarrow> frame \<Rightarrow> u8 list" where
  "payload fr fm = drop (IOHDLC_FRAME_INFO_pos fr) (take (unat (f_elen fm)) (f_bytes fm))"

definition sent_again :: "framing \<Rightarrow> peer \<Rightarrow> nat" where
  "sent_again fr q = unat ((p_vs_highest q - p_nr q) AND modmask fr) - length (p_retrans_q q)"

definition sender_of :: "station \<Rightarrow> nat \<Rightarrow> sender" where
  "sender_of s p = (let q = s_peers s p; fr = s_framing s; pay = map (\<lambda>f. payload fr (frame_of s f)) in
     \<lparr>g_base = unat (p_nr q), g_flight = pay (p_retrans_q q),
      g_back = pay (take (sent_again fr q) (p_trans_q q)), g_new = pay (drop (sent_again fr q) (p_trans_q q))\<rparr>)"

lemma sender_of_cong:
  assumes "s_framing t = s_framing s" "pcore (s_peers t p) = pcore (s_peers s p)"
    and "\<And>f. f \<in> set (p_retrans_q (s_peers s p) @ p_trans_q (s_peers s p))
      \<Longrightarrow> payload (s_framing s) (frame_of t f) = payload (s_framing s) (frame_of s f)"
  shows "sender_of t p = sender_of s p"
proof -
  have q: "p_retrans_q (s_peers t p) = p_retrans_q (s_peers s p)" "p_trans_q (s_peers t p) = p_trans_q (s_peers s p)"
    "p_nr (s_peers t p) = p_nr (s_peers s p)" "p_vs_highest (s_peers t p) = p_vs_highest (s_peers s p)"
    using assms(2) by (simp_all add: pcore_def)
  then have "sent_again (s_framing s) (s_peers t p) = sent_again (s_framing s) (s_peers s p)"
    by (simp add: sent_again_def)
  with q assms(1,3) show ?thesis by (auto simp: sender_of_def Let_def dest: in_set_takeD in_set_dropD)
qed

lemma win_ok_parts:
  assumes "win_ok fr hp q" "framing_ok fr"
  obtains us ws where "p_trans_q q = us @ ws" "sent_again fr q = length us"
    "unat (p_vs_highest q) = (unat (p_nr q) + (length (p_retrans_q q) + length us)) mod modulus fr"
    "length (p_retrans_q q) + length us \<le> unat (p_ks q)" "unat (p_ks q) < modulus fr" "unat (p_nr q) < modulus fr"
    "\<forall>f \<in> set ws. f_tx_ctrl_len (hp f) \<noteq> ctrl_size fr"
    "unat (p_vs q) = (unat (p_nr q) + length (p_retrans_q q)) mod modulus fr"
proof -
  from assms(1) obtain us ws where u: "p_trans_q q = us @ ws"
    "unat (p_vs_highest q) = (unat (p_nr q) + (length (p_retrans_q q) + length us)) mod modulus fr"
    "length (p_retrans_q q) + length us \<le> unat (p_ks q)" "unat (p_ks q) < modulus fr" "unat (p_nr q) < modulus fr"
    "\<forall>f \<in> set ws. f_tx_ctrl_len (hp f) \<noteq> ctrl_size fr"
    "unat (p_vs q) = (unat (p_nr q) + length (p_retrans_q q)) mod modulus fr"
    unfolding win_ok_def by (auto simp: add.assoc)
  then have "sent_again fr q = length us"
    using win_offset [OF assms(2) u(5) _ u(2)] by (simp add: sent_again_def)
  with u that show ?thesis by blast
qed

section \<open>Acknowledgment\<close>

lemma release_frames:
  "f_bytes (frame_of (exec (hdlcReleaseFrame f) s) h) = f_bytes (frame_of s h)"
  "f_elen (frame_of (exec (hdlcReleaseFrame f) s) h) = f_elen (frame_of s h)"
  using release_heap by (cases "release_frame f (s_pool s)";
    auto simp: hdlcReleaseFrame_def set_pool_def faultM_def frame_of_def)+

lemma sender_release: "sender_of (exec (hdlcReleaseFrame f) s) p = sender_of s p"
  by (rule sender_of_cong) (simp_all add: release_proj(1) payload_def release_frames)

lemma sender_ack_upd:
  assumes w: "win_ok (s_framing s) hp (s_peers s p)" and f: "framing_ok (s_framing s)"
    and r: "p_retrans_q (s_peers s p) \<noteq> []"
  shows "sender_of (upd_peer p (ack_upd (modmask (s_framing s)) a) s) p = g_ack (modulus (s_framing s)) 1 (sender_of s p)"
proof -
  let ?fr = "s_framing s" and ?q = "s_peers s p"
  let ?q' = "ack_upd (modmask ?fr) a ?q"
  from r obtain h rest where q: "p_retrans_q ?q = h # rest" by (cases "p_retrans_q ?q") auto
  obtain us ws where u: "p_trans_q ?q = us @ ws" "sent_again ?fr ?q = length us"
    "unat (p_vs_highest ?q) = (unat (p_nr ?q) + (length (p_retrans_q ?q) + length us)) mod modulus ?fr"
    "length (p_retrans_q ?q) + length us \<le> unat (p_ks ?q)" "unat (p_ks ?q) < modulus ?fr" "unat (p_nr ?q) < modulus ?fr"
    by (rule win_ok_parts [OF w f])
  have p: "p_retrans_q ?q' = rest" "p_trans_q ?q' = us @ ws" "p_vs_highest ?q' = p_vs_highest ?q"
    "p_nr ?q' = (p_nr ?q + 1) AND modmask ?fr"
    by (simp_all add: ack_upd_def Let_def q u(1))
  have n: "unat (p_nr ?q') = Suc (unat (p_nr ?q)) mod modulus ?fr" unfolding p(4) by (rule unat_inc_mm [OF f u(6)])
  have "unat (p_vs_highest ?q') = (unat (p_nr ?q') + (length rest + length us)) mod modulus ?fr"
    unfolding n p(3) u(3) q by (simp add: mod_simps)
  then have "sent_again ?fr ?q' = length us"
    using win_offset [OF f, of "p_nr ?q'" "length rest + length us" "p_vs_highest ?q'"] u(4,5) n q
    by (simp add: sent_again_def p(1))
  then show ?thesis by (simp add: sender_of_def Let_def g_ack_def p(1,2) n u(1,2) q)
qed

lemma g_ack_add: "g_ack m j (g_ack m k g) = g_ack m (k + j) g"
  by (simp add: g_ack_def mod_simps ac_simps)

lemma g_ack_0: "g_base g < m \<Longrightarrow> g_ack m 0 g = g"
  by (simp add: g_ack_def)

text \<open>How many frames an N(R) acknowledges.\<close>

definition acked :: "framing \<Rightarrow> peer \<Rightarrow> u32 \<Rightarrow> nat" where
  "acked fr q nr = min (unat ((nr - p_nr q) AND modmask fr)) (length (p_retrans_q q))"

lemma processNR_loop_sender:
  assumes "stable fr pl H s" "p \<in> set pl" "unat nr < modulus fr" "length (p_retrans_q (s_peers s p)) \<le> n"
  shows "sender_of (exec (processNR_loop n p nr) s) p = g_ack (modulus fr) (acked fr (s_peers s p) nr) (sender_of s p)
    \<and> (result (processNR_loop n p nr) s \<longleftrightarrow> acked fr (s_peers s p) nr \<noteq> 0)"
  using assms
proof (induction n arbitrary: s)
  case 0
  have "g_base (sender_of s p) < modulus fr"
    using win_ok_facts(8) [of fr _ "s_peers s p"] invD(3,7) [OF 0(1)] 0(2) by (auto simp: sender_of_def Let_def)
  with 0 show ?case by (simp add: acked_def g_ack_0)
next
  case (Suc n)
  let ?q = "s_peers s p"
  note fo = invD(3) [OF Suc.prems(1)] and fr = invD(1) [OF Suc.prems(1)]
  have w: "win_ok fr (fp_heap (s_pool s)) ?q" using invD(7) [OF Suc.prems(1,2)] by simp
  have nr: "unat (p_nr ?q) < modulus fr" using win_ok_facts(8) [OF w fo] .
  have b: "g_base (sender_of s p) < modulus fr" using nr by (simp add: sender_of_def Let_def)
  show ?case
  proof (cases "p_retrans_q ?q = [] \<or> p_nr ?q = nr")
    case True
    then have "acked fr ?q nr = 0" by (auto simp: acked_def)
    then show ?thesis using True b g_ack_0 [OF b] by (auto simp: getP_def split: list.split)
  next
    case False
    then obtain f rest where q: "p_retrans_q ?q = f # rest" "p_nr ?q \<noteq> nr" by (cases "p_retrans_q ?q") auto
    let ?u = "ack_upd (modmask fr) (extractNS fr (f_bytes (frame_of s f)))"
    let ?t = "exec (hdlcReleaseFrame f) (upd_peer p ?u s)"
    have "sinv ({}, {f}) fr pl (f # H) {} (upd_peer p ?u s)"
      by (rule sinv_move [OF Suc.prems(1,2)])
        (use win_ok_ack [OF w fo] q ack_upd_frames(1) [OF q(1)] in \<open>auto simp: ack_upd_frames(2)\<close>)
    then have t: "stable fr pl H ?t" by (rule release_loud)
    have tq: "p_retrans_q (s_peers ?t p) = rest" "p_nr (s_peers ?t p) = (p_nr ?q + 1) AND modmask fr"
      by (simp_all add: ack_upd_def Let_def q)
    have st: "sender_of ?t p = g_ack (modulus fr) 1 (sender_of s p)"
      using sender_ack_upd [of s _ p] w fo q by (simp add: sender_release fr)
    note e = processNR_step [OF q, of n, unfolded fr]
    let ?k = "unat ((nr - p_nr ?q) AND modmask fr)"
    have k: "?k = (unat nr + modulus fr - unat (p_nr ?q)) mod modulus fr" by (rule unat_diff_mm [OF fo Suc.prems(3) nr])
    have "unat nr \<noteq> unat (p_nr ?q)" using q(2) by (auto simp: word_unat_eq_iff)
    with k Suc.prems(3) nr have k0: "?k \<noteq> 0" by (auto simp: mod_if split: if_splits)
    have nr1: "unat (p_nr (s_peers ?t p)) = Suc (unat (p_nr ?q)) mod modulus fr"
      unfolding tq by (rule unat_inc_mm [OF fo nr])
    have "unat ((nr - p_nr (s_peers ?t p)) AND modmask fr) = ?k - 1"
      using unat_diff_mm [OF fo Suc.prems(3), of "p_nr (s_peers ?t p)"] k k0 nr1 nr Suc.prems(3)
      by (auto simp: mod_if split: if_splits)
    then have a: "acked fr ?q nr = Suc (acked fr (s_peers ?t p) nr)"
      using k0 unfolding acked_def tq(1) q(1) by simp
    have l: "length (p_retrans_q (s_peers ?t p)) \<le> n" using Suc.prems(4) q(1) unfolding tq by simp
    from Suc.IH [OF t Suc.prems(2,3) l] show ?thesis
      unfolding e st by (simp add: a g_ack_add)
  qed
qed

lemma sender_updP: "(\<And>q. pcore (g q) = pcore q) \<Longrightarrow> sender_of (upd_peer p' g s) p = sender_of s p"
  by (rule sender_of_cong) simp_all

lemma sender_stop_timer: "sender_of (exec (ioHdlcStopReplyTimer p' k) s) p = sender_of s p"
  by (simp add: ioHdlcStopReplyTimer_def updP_def sender_updP)

section \<open>A sender with two strings in flight\<close>

lemma two_sent_stable: "stable \<lparr>modmask = 7, pfoctet = 0, ctrl_size = 1, frame_offset = 1\<rparr> [0] [] (sy_st two_sent)"
  using reachableD [OF reachable_two_sent] by (simp add: two_sent_defs connected_defs sample_defs start_def)

lemmas two_sent_eval = two_sent_defs connected_defs sample_defs start_def zero_peer_def

lemma two_sent_sender:
  "sender_of (sy_st two_sent) 0 = \<lparr>g_base = 0, g_flight = [[65, 66, 67], [68]], g_back = [], g_new = []\<rparr>"
  by (simp add: sender_of_def sent_again_def payload_def frame_of_def IOHDLC_FRAME_INFO_pos_def two_sent_eval Let_def)

lemma extractNR_lt:
  assumes "framing_ok fr"
  shows "unat (extractNR fr bs) < modulus fr"
proof -
  have "(x AND 0x7F) = take_bit 7 x" "(x AND 7) = take_bit 3 x" for x :: u8
    by (simp_all add: take_bit_eq_mask mask_eq_decr_exp)
  then show ?thesis using assms
    by (rule_tac framing_cases [OF assms])
      (simp_all add: extractNR_def unsigned_ucast_eq unsigned_take_bit_eq take_bit_nat_def modulus_def)
qed

lemma processNR_effect:
  assumes "stable fr pl H s" "p \<in> set pl" "nr = extractNR fr bs"
  shows "sender_of (exec (processNR p nr) s) p = g_ack (modulus fr) (acked fr (s_peers s p) nr) (sender_of s p)
    \<and> (result (processNR p nr) s \<longleftrightarrow> acked fr (s_peers s p) nr \<noteq> 0)
    \<and> stable fr pl H (exec (processNR p nr) s)"
proof -
  have "unat nr < modulus fr" using extractNR_lt [OF invD(3) [OF assms(1)]] assms(3) by simp
  then show ?thesis
    using processNR_loop_sender [OF assms(1,2) _ order.refl] keepsD [OF processNR_keeps [OF assms(2)] assms(1)]
    by (simp add: processNR_def getP_def sender_stop_timer)
qed

text \<open>C6: Processing a valid N(R) is the acknowledgment of the abstract sender: the oldest frames up
  to N(R) leave the retransmission queue, no others, the oldest unacknowledged number advances
  by their count, and the result tells whether there were any. (Frames that were moved back for retransmission
  are acknowledged only once they are in flight again.)\<close>
theorem processNR_refines_ack:
  assumes "stable fr pl H s" "p \<in> set pl" "nr = extractNR fr bs"
  shows "sender_of (exec (processNR p nr) s) p = g_ack (modulus fr) (acked fr (s_peers s p) nr) (sender_of s p)
    \<and> (result (processNR p nr) s \<longleftrightarrow> acked fr (s_peers s p) nr \<noteq> 0)
    \<and> stable fr pl H (exec (processNR p nr) s)"
  by (rule processNR_effect [OF assms])

theorem processNR_refines_ack_witness:
  "sender_of (exec (processNR 0 1) (sy_st two_sent)) 0 = \<lparr>g_base = 1, g_flight = [[68]], g_back = [], g_new = []\<rparr>"
proof -
  let ?fr = "\<lparr>modmask = 7, pfoctet = 0, ctrl_size = 1, frame_offset = 1\<rparr>"
  have "(1::u32) = extractNR ?fr [0, 2, 0x31]" by code_simp
  moreover have "modulus ?fr = 8" by code_simp
  moreover have "acked ?fr (s_peers (sy_st two_sent) 0) 1 = 1" by (simp add: acked_def two_sent_eval)
  ultimately show ?thesis using processNR_refines_ack [OF two_sent_stable, of 0 1 "[0, 2, 0x31]"]
    by (simp add: two_sent_sender g_ack_def)
qed

section \<open>Going back\<close>

lemma first_ns:
  assumes "win_ok fr hp q" "framing_ok fr" "p_retrans_q q = f # rest"
  shows "extractNS fr (f_bytes (hp f)) = p_nr q"
  using assms win_ok_facts(8) [OF assms(1,2)] by (auto simp: win_ok_def numbered_def word_unat_eq_iff)

definition goback_upd :: "peer \<Rightarrow> peer" where
  "goback_upd q = q\<lparr>p_trans_q := p_retrans_q q @ p_trans_q q, p_retrans_q := [], p_vs := p_nr q\<rparr>"

lemma sender_goback_upd:
  assumes w: "win_ok (s_framing s) hp (s_peers s p)" and f: "framing_ok (s_framing s)"
  shows "sender_of (upd_peer p goback_upd s) p = g_goback (sender_of s p)"
proof -
  let ?q = "s_peers s p" and ?fr = "s_framing s"
  obtain us ws where u: "p_trans_q ?q = us @ ws" "sent_again ?fr ?q = length us"
    by (rule win_ok_parts [OF w f])
  have "length (p_retrans_q ?q) \<le> unat ((p_vs_highest ?q - p_nr ?q) AND modmask ?fr)"
    by (rule win_ok_facts(2) [OF w f])
  then have "sent_again ?fr (goback_upd ?q) = length (p_retrans_q ?q) + length us"
    using u(2) by (simp add: sent_again_def goback_upd_def)
  then show ?thesis by (simp add: sender_of_def Let_def g_goback_def goback_upd_def u)
qed

lemma checkpoint_effect:
  assumes "stable fr pl H s" "p \<in> set pl"
  shows "let q = s_peers s p; s' = exec (checkpointRetransmit p) s in
    result (checkpointRetransmit p) s = (p_retrans_q q \<noteq> [] \<and> p_vs_atlast_pf q \<noteq> p_nr q)
    \<and> (if result (checkpointRetransmit p) s
       then sender_of s' p = g_goback (sender_of s p) \<and> p_vs (s_peers s' p) = p_nr q else s' = s)"
proof (cases "p_retrans_q (s_peers s p)")
  case Nil
  then show ?thesis by (simp add: checkpointRetransmit_def getP_def Let_def)
next
  case (Cons f rest)
  let ?q = "s_peers s p"
  let ?ns = "\<lambda>f. extractNS fr (f_bytes (frame_of s f))"
  have fr: "s_framing s = fr" by (rule invD(1) [OF assms(1)])
  have w: "win_ok fr (fp_heap (s_pool s)) ?q" using invD(7) [OF assms] by simp
  have f: "?ns f = p_nr ?q" using first_ns [OF w invD(3) [OF assms(1)] Cons] by (simp add: frame_of_def)
  have n0: "p_nr ?q + 1 \<noteq> 0" using extractNS_inc [of fr "f_bytes (frame_of s f)"] f by simp
  have c: "chkpt_scan ?ns (p_vs_atlast_pf ?q) 0 (f # rest) = (if p_nr ?q = p_vs_atlast_pf ?q then 0 else p_nr ?q + 1)"
    using chkpt_scan_first [of ?ns f "p_vs_atlast_pf ?q" rest] n0 f by simp
  show ?thesis
  proof (cases "p_vs_atlast_pf ?q = p_nr ?q")
    case True
    then show ?thesis using c Cons
      by (simp add: checkpointRetransmit_def getP_def Let_def fr del: chkpt_scan.simps)
  next
    case False
    let ?t = "upd_peer p (\<lambda>q. q\<lparr>p_chkpt_actioned := p_nr ?q + 1\<rparr>) (upd_peer p goback_upd s)"
    have e: "exec (checkpointRetransmit p) s = ?t" "result (checkpointRetransmit p) s"
      using c Cons n0 False
      by (simp_all add: checkpointRetransmit_def getP_def updP_def Let_def fr upd_peer_def goback_upd_def upd_order del: chkpt_scan.simps)
    have "sender_of ?t p = g_goback (sender_of s p)"
      using sender_goback_upd [of s _ p] w invD(3) [OF assms(1)] by (simp add: sender_updP pcore_vs fr)
    then show ?thesis using e Cons False by (simp add: Let_def goback_upd_def)
  qed
qed

text \<open>C10: A checkpoint retransmits exactly when frames are outstanding and the acknowledgment has not
  passed the frame that carried the last P or F; then everything in flight moves back in front
  of the transmission queue, in order, and V(S) returns to the oldest unacknowledged number.\<close>
theorem checkpoint_refines_goback:
  assumes "stable fr pl H s" "p \<in> set pl"
  shows "let q = s_peers s p; s' = exec (checkpointRetransmit p) s in
    result (checkpointRetransmit p) s = (p_retrans_q q \<noteq> [] \<and> p_vs_atlast_pf q \<noteq> p_nr q)
    \<and> (if result (checkpointRetransmit p) s
       then sender_of s' p = g_goback (sender_of s p) \<and> p_vs (s_peers s' p) = p_nr q else s' = s)"
  by (rule checkpoint_effect [OF assms])

theorem checkpoint_refines_goback_witness:
  "sender_of (exec (checkpointRetransmit 0) (sy_st two_sent)) 0
    = \<lparr>g_base = 0, g_flight = [], g_back = [[65, 66, 67], [68]], g_new = []\<rparr>"
proof -
  have "p_retrans_q (s_peers (sy_st two_sent) 0) \<noteq> []"
    "p_vs_atlast_pf (s_peers (sy_st two_sent) 0) \<noteq> p_nr (s_peers (sy_st two_sent) 0)"
    by (simp_all add: two_sent_eval)
  then show ?thesis using checkpoint_refines_goback [OF two_sent_stable, of 0]
    by (simp add: Let_def two_sent_sender g_goback_def)
qed

lemma rej_effect:
  assumes "stable fr pl H s" "p \<in> set pl"
  shows "let q = s_peers s p; s' = exec (handleSFrame_rej p) s; r = result (handleSFrame_rej p) s in
    sender_of s' p = (if p_chkpt_actioned q = 0 then g_goback (sender_of s p) else sender_of s p)
    \<and> (p_chkpt_actioned q = 0 \<and> p_retrans_q q \<noteq> [] \<longrightarrow> p_vs (s_peers s' p) = p_nr q)
    \<and> (has r IOHDLC_EVT_TX_IFRM_ENQ \<longleftrightarrow> p_chkpt_actioned q = 0 \<and> p_retrans_q q \<noteq> [])
    \<and> p_chkpt_actioned (s_peers s' p) = 0"
proof -
  let ?q = "s_peers s p"
  have fr: "s_framing s = fr" by (rule invD(1) [OF assms(1)])
  have w: "win_ok fr (fp_heap (s_pool s)) ?q" using invD(7) [OF assms] by simp
  have b: "\<not> has IOHDLC_EVT_xREJ_RECVD IOHDLC_EVT_TX_IFRM_ENQ"
    "has (IOHDLC_EVT_TX_IFRM_ENQ OR IOHDLC_EVT_xREJ_RECVD) IOHDLC_EVT_TX_IFRM_ENQ" by code_simp+
  show ?thesis
  proof (cases "p_chkpt_actioned ?q = 0")
    case False
    then show ?thesis using b by (simp add: handleSFrame_rej_def getP_def updP_def Let_def sender_updP pcore_vs)
  next
    case True
    show ?thesis
    proof (cases "p_retrans_q ?q")
      case Nil
      moreover have "g_goback (sender_of s p) = sender_of s p" by (simp add: g_goback_def sender_of_def Let_def Nil)
      ultimately show ?thesis using True b by (simp add: handleSFrame_rej_def getP_def Let_def)
    next
      case (Cons f rest)
      have ns: "extractNS fr (f_bytes (frame_of s f)) = p_nr ?q"
        using first_ns [OF w invD(3) [OF assms(1)] Cons] by (simp add: frame_of_def)
      let ?t = "upd_peer p (\<lambda>q. q\<lparr>p_vs_atlast_pf := p_nr ?q\<rparr>) (upd_peer p goback_upd s)"
      have e: "exec (handleSFrame_rej p) s = ?t"
        "result (handleSFrame_rej p) s = IOHDLC_EVT_TX_IFRM_ENQ OR IOHDLC_EVT_xREJ_RECVD"
        using True Cons ns
        by (simp_all add: handleSFrame_rej_def getP_def updP_def fr upd_peer_def goback_upd_def upd_order)
      have "sender_of ?t p = g_goback (sender_of s p)"
        using sender_goback_upd [of s _ p] w invD(3) [OF assms(1)] by (simp add: sender_updP pcore_vs fr)
      then show ?thesis using e b True Cons by (simp add: Let_def goback_upd_def)
    qed
  qed
qed

text \<open>C11: A REJ acts like the checkpoint: unless a checkpoint retransmission is marked as under way,
  in which case only the mark is cleared, everything in flight moves back and V(S) returns to
  the oldest unacknowledged number, and the transmit thread is woken.\<close>
theorem rej_refines_goback:
  assumes "stable fr pl H s" "p \<in> set pl"
  shows "let q = s_peers s p; s' = exec (handleSFrame_rej p) s; r = result (handleSFrame_rej p) s in
    sender_of s' p = (if p_chkpt_actioned q = 0 then g_goback (sender_of s p) else sender_of s p)
    \<and> (p_chkpt_actioned q = 0 \<and> p_retrans_q q \<noteq> [] \<longrightarrow> p_vs (s_peers s' p) = p_nr q)
    \<and> (has r IOHDLC_EVT_TX_IFRM_ENQ \<longleftrightarrow> p_chkpt_actioned q = 0 \<and> p_retrans_q q \<noteq> [])
    \<and> p_chkpt_actioned (s_peers s' p) = 0"
  by (rule rej_effect [OF assms])

theorem rej_refines_goback_witness:
  "sender_of (exec (handleSFrame_rej 0) (sy_st two_sent)) 0
    = \<lparr>g_base = 0, g_flight = [], g_back = [[65, 66, 67], [68]], g_new = []\<rparr>"
proof -
  have "p_chkpt_actioned (s_peers (sy_st two_sent) 0) = 0" by (simp add: two_sent_eval)
  then show ?thesis using rej_refines_goback [OF two_sent_stable, of 0]
    by (simp add: Let_def two_sent_sender g_goback_def)
qed

section \<open>Sending\<close>

lemma drop_hdr:
  assumes "framing_ok fr"
  shows "drop (IOHDLC_FRAME_INFO_pos fr) (take n (f_bytes (iframe_hdr fr a vs vr pf fm)))
    = drop (IOHDLC_FRAME_INFO_pos fr) (take n (f_bytes fm))"
  using assms
  by (rule framing_cases) (simp_all add: iframe_hdr_def hdr_finish_def hdr_reset_def Let_def setNRInCtrl_def
      setPFInCtrl_def setNSInCtrl_def IOHDLC_FRAME_INFO_pos_def ctrl_pos_def addr_pos_def drop_take)

lemma payload_hdr: "framing_ok fr \<Longrightarrow> payload fr (iframe_hdr fr a vs vr pf fm) = payload fr fm"
  unfolding payload_def by (simp add: drop_hdr) (simp add: iframe_hdr_def hdr_finish_def hdr_reset_def Let_def drop_hdr)

text \<open>Operations on the pool, the gates and the driver leave the octets of all frames alone.\<close>

definition wire :: "station \<Rightarrow> nat \<Rightarrow> u8 list" where
  "wire s f = take (unat (f_elen (frame_of s f))) (f_bytes (frame_of s f))"

definition same_frames :: "station \<Rightarrow> station \<Rightarrow> bool" where
  "same_frames s t \<longleftrightarrow> s_framing t = s_framing s \<and> s_peers t = s_peers s
     \<and> (\<forall>h. f_bytes (frame_of t h) = f_bytes (frame_of s h) \<and> f_elen (frame_of t h) = f_elen (frame_of s h))"

lemma take_frame_bytes:
  "f_bytes (fp_heap (fst (snd (take_frame P))) h) = f_bytes (fp_heap P h)"
  "f_elen (fp_heap (fst (snd (take_frame P))) h) = f_elen (fp_heap P h)"
  by (cases "fp_free P"; simp add: take_none take_some fresh_frame_def)+

definition sent_by :: "station \<Rightarrow> u8 list list \<Rightarrow> station \<Rightarrow> bool" where
  "sent_by s ws t \<longleftrightarrow> same_frames s t \<and> s_sent t = ws"

lemma sent_by_modify:
  assumes "\<And>t. s_framing (h t) = s_framing t \<and> s_peers (h t) = s_peers t \<and> s_sent (h t) = s_sent t
    \<and> (\<forall>f. f_bytes (frame_of (h t) f) = f_bytes (frame_of t f) \<and> f_elen (frame_of (h t) f) = f_elen (frame_of t f))"
  shows "keeps (sent_by s ws) (modify h)"
  using assms by (auto simp: keeps_def sent_by_def same_frames_def)

lemma sent_by_updF:
  "(\<And>fm. f_bytes (g fm) = f_bytes fm \<and> f_elen (g fm) = f_elen fm) \<Longrightarrow> keeps (sent_by s ws) (updF f g)"
  unfolding updF_def by (rule sent_by_modify) (auto simp: frame_of_def pool_simps)

lemma sent_by_fault: "keeps (sent_by s ws) faultM"
  unfolding faultM_def by (rule sent_by_modify) (simp add: frame_of_def)

lemma sent_by_assert: "keeps (sent_by s ws) (assertM b)"
  unfolding assertM_def by (intro keeps sent_by_fault)

lemma sent_by_take: "keeps (sent_by s ws) hdlcTakeFrame"
  by (auto simp: keeps_def hdlcTakeFrame_def set_pool_def sent_by_def same_frames_def frame_of_def take_frame_bytes)

lemma sent_by_addref: "keeps (sent_by s ws) (hdlcAddRef f)"
  unfolding hdlcAddRef_def
  by (auto simp: keeps_def set_pool_def sent_by_def same_frames_def frame_of_def addref_frame_def faultM_def pool_simps)

lemma sent_by_release: "keeps (sent_by s ws) (hdlcReleaseFrame f)"
proof -
  have "s_sent (exec (hdlcReleaseFrame f) t) = s_sent t" for t
    by (cases "release_frame f (s_pool t)") (auto simp: hdlcReleaseFrame_def set_pool_def faultM_def)
  then show ?thesis by (auto simp: keeps_def sent_by_def same_frames_def release_frames release_proj(1))
qed

lemma sent_by_gate:
  "keeps (sent_by s ws) (ioHdlcFrameTxGateTryWait f)" "keeps (sent_by s ws) (ioHdlcFrameTxGateRelease f)"
  unfolding ioHdlcFrameTxGateTryWait_def ioHdlcFrameTxGateRelease_def by (intro keeps sent_by_updF; simp)+

lemma sent_by_pipe: "keeps (sent_by s ws) (modify (\<lambda>s. s\<lparr>s_tx_pipe := g s\<rparr>))"
  by (rule sent_by_modify) (simp add: frame_of_def)

lemma sent_by_done: "keeps (sent_by s ws) (driver_tx_done f)"
  unfolding driver_tx_done_def by (intro keeps sent_by_pipe sent_by_gate sent_by_release)

lemma sent_by_wait: "keeps (sent_by s ws) (ioHdlcFrameTxGateWait f)"
  unfolding ioHdlcFrameTxGateWait_def by (intro keeps sent_by_done sent_by_gate sent_by_assert)

lemma sent_by_outcome: "keeps (sent_by s ws) next_outcome"
  unfolding next_outcome_def by (intro keeps sent_by_modify) (simp add: frame_of_def)

text \<open>The driver is given the octets of the frame, or the frame is refused.\<close>

lemma keeps_weaken: "keeps I m \<Longrightarrow> ht I m (\<lambda>_. I)"
  by (simp add: keeps_ht)

lemma send_wire:
  "sent_by s (s_sent s) (exec (hdlcSendFrame f) s) \<or> sent_by s (s_sent s @ [wire s f]) (exec (hdlcSendFrame f) s)"
proof -
  let ?I = "sent_by s (s_sent s)" and ?J = "sent_by s (s_sent s @ [wire s f])"
  have l: "ht ?I (log_sent f) (\<lambda>_. ?J)"
    by (auto simp: ht_def wp_def log_sent_def sent_by_def same_frames_def frame_of_def wire_def)
  have k: "ht ?I m (\<lambda>_ t. ?I t \<or> ?J t)" if "keeps ?I m" for m :: "'a hdlc"
    using that by (simp add: keeps_def ht_def wp_def)
  have j: "ht ?J m (\<lambda>_ t. ?I t \<or> ?J t)" if "keeps ?J m" for m :: "'a hdlc"
    using that by (simp add: keeps_def ht_def wp_def)
  have hold: "ht ?I (do { log_sent f; hdlcAddRef f; modify (\<lambda>s. s\<lparr>s_tx_pipe := s_tx_pipe s @ [f]\<rparr>); ret (0::int) })
      (\<lambda>_ t. ?I t \<or> ?J t)"
    by (rule ht_bind [OF l], rule j) (intro keeps sent_by_addref sent_by_pipe)
  have copy: "ht ?I (do { log_sent f; ioHdlcFrameTxGateRelease f; updF g (\<lambda>fr. fr\<lparr>f_gate_free := False\<rparr>);
      modify (\<lambda>s. s\<lparr>s_tx_pipe := s_tx_pipe s @ [g]\<rparr>); ret (0::int) }) (\<lambda>_ t. ?I t \<or> ?J t)" for g
    by (rule ht_bind [OF l], rule j) (intro keeps sent_by_gate sent_by_updF sent_by_pipe; simp)
  have rej: "ht ?I (do { ioHdlcFrameTxGateRelease f; ret e }) (\<lambda>_ t. ?I t \<or> ?J t)" for e :: int
    by (rule k) (intro keeps sent_by_gate)
  have flt: "ht ?I (do { faultM; ret (16::int) }) (\<lambda>_ t. ?I t \<or> ?J t)"
    by (rule k) (intro keeps sent_by_fault)
  have "ht ?I (hdlcSendFrame f) (\<lambda>_ t. ?I t \<or> ?J t)"
    unfolding hdlcSendFrame_def
    apply (rule ht_keeps_bind [OF sent_by_gate(1)], rule ht_if, rule flt)
    apply (rule ht_keeps_bind [OF sent_by_outcome])
    subgoal for ok oc
      by (cases oc) (auto intro!: rej hold ht_keeps_bind [OF sent_by_take] copy split: option.split)
    done
  then show ?thesis by (simp add: ht_def wp_def sent_by_def same_frames_def)
qed

text \<open>The same up to parts of the peer that the sender does not consist of.\<close>

definition like :: "station \<Rightarrow> nat \<Rightarrow> u8 list list \<Rightarrow> station \<Rightarrow> bool" where
  "like s p ws t \<longleftrightarrow> s_framing t = s_framing s \<and> pcore (s_peers t p) = pcore (s_peers s p)
     \<and> (\<forall>h. f_bytes (frame_of t h) = f_bytes (frame_of s h) \<and> f_elen (frame_of t h) = f_elen (frame_of s h))
     \<and> s_sent t = ws"

lemma like_sent_by: "like s p ws t \<Longrightarrow> sent_by t ws' t' \<Longrightarrow> like s p ws' t'"
  by (simp add: like_def sent_by_def same_frames_def)

lemma keeps_like: "(\<And>s ws. keeps (sent_by s ws) m) \<Longrightarrow> keeps (like s p ws) m"
proof -
  assume k: "\<And>s ws. keeps (sent_by s ws) m"
  show ?thesis unfolding keeps_def
  proof (intro allI impI)
    fix t assume l: "like s p ws t"
    have "sent_by t ws t" using l by (simp add: like_def sent_by_def same_frames_def)
    from like_sent_by [OF l keepsD [OF k this]] show "like s p ws (exec m t)" .
  qed
qed

lemma like_updP: "(\<And>q. pcore (g q) = pcore q) \<Longrightarrow> keeps (like s p ws) (updP p' g)"
  by (simp add: keeps_def like_def updP_def)

lemma like_modify:
  "(\<And>t. s_framing (h t) = s_framing t \<and> s_peers (h t) = s_peers t \<and> s_sent (h t) = s_sent t \<and> s_pool (h t) = s_pool t)
    \<Longrightarrow> keeps (like s p ws) (modify h)"
  by (simp add: keeps_def like_def frame_of_def)

lemma like_small:
  "keeps (like s p ws) (pf_set m)" "keeps (like s p ws) IOHDLC_ACK_P" "keeps (like s p ws) IOHDLC_ACK_F"
  "keeps (like s p ws) (ss_clr p' a)" "keeps (like s p ws) (ioHdlcStartReplyTimer p' k t)"
  "keeps (like s p ws) (ioHdlcStopReplyTimer p' k)" "keeps (like s p ws) (IOHDLC_CLR_NEED_P p')"
  unfolding pf_set_def IOHDLC_ACK_P_def IOHDLC_ACK_F_def ss_clr_def ioHdlcStartReplyTimer_def
    ioHdlcStopReplyTimer_def IOHDLC_CLR_NEED_P_def
  by (intro like_modify like_updP; (rule upd_timer_core | simp add: pcore_def))+

lemma like_account: "keeps (like s p ws) (account_pf p' c pf)"
  unfolding account_pf_def by (intro keeps like_small like_updP) (simp add: pcore_def)

lemma like_startPoll: "keeps (like s p ws) (startPollReplyTimer p')"
  unfolding startPollReplyTimer_def by (intro keeps like_small)

lemma tail_wire:
  "like s p (s_sent s) (exec (iframe_tail p f c pf) s) \<or> like s p (s_sent s @ [wire s f]) (exec (iframe_tail p f c pf) s)"
proof -
  let ?I = "like s p (s_sent s)" and ?J = "like s p (s_sent s @ [wire s f])"
  have send: "ht ?I (hdlcSendFrame f) (\<lambda>_ t. ?I t \<or> ?J t)"
    unfolding ht_exec
  proof (intro allI impI)
    fix t assume l: "?I t"
    then have "wire t f = wire s f" "s_sent t = s_sent s" by (simp_all add: like_def wire_def)
    with send_wire [of t f] show "?I (exec (hdlcSendFrame f) t) \<or> ?J (exec (hdlcSendFrame f) t)"
      using like_sent_by [OF l] by auto
  qed
  have both: "keeps (\<lambda>t. ?I t \<or> ?J t) m" if "\<And>ws. keeps (like s p ws) m" for m :: "'a hdlc"
    using that by (auto simp: keeps_def)
  have "ht ?I (iframe_tail p f c pf) (\<lambda>_ t. ?I t \<or> ?J t)"
    unfolding iframe_tail_def
    apply (rule ht_keeps_bind, rule keeps, rule ht_keeps_bind)
     apply (intro keeps like_updP, simp add: pcore_def)
    apply (rule ht_keeps_bind [OF like_account], rule ht_keeps_bind [OF keeps_like [OF sent_by_gate(2)]])
    apply (rule ht_bind [OF send])
    apply (intro ht_keeps both keeps like_small like_startPoll)
    done
  then show ?thesis by (simp add: ht_exec like_def)
qed

lemma sender_like: "like s p ws t \<Longrightarrow> sender_of t p = sender_of s p"
  by (rule sender_of_cong) (simp_all add: like_def payload_def)

lemma sent_again_send:
  assumes w: "win_ok fr hp q" and f: "framing_ok fr" and t: "p_trans_q q = g # rest"
    and lt: "length (p_retrans_q q) < unat (p_ks q)"
  shows "sent_again fr (iframe_upd (modmask fr) g q) = sent_again fr q - 1"
proof -
  let ?q' = "iframe_upd (modmask fr) g q"
  obtain us ws where u: "p_trans_q q = us @ ws" "sent_again fr q = length us"
    "unat (p_vs_highest q) = (unat (p_nr q) + (length (p_retrans_q q) + length us)) mod modulus fr"
    "length (p_retrans_q q) + length us \<le> unat (p_ks q)" "unat (p_ks q) < modulus fr" "unat (p_nr q) < modulus fr"
    "unat (p_vs q) = (unat (p_nr q) + length (p_retrans_q q)) mod modulus fr"
    by (rule win_ok_parts [OF w f])
  have e: "(p_vs q = p_vs_highest q) = (length us = 0)"
    using win_vs_highest [OF u(7), of "p_vs_highest q" "length us"] u(3-5) by (simp add: add.assoc)
  have "unat (p_vs_highest ?q')
      = (unat (p_nr ?q') + (length (p_retrans_q ?q') + (length us - 1))) mod modulus fr"
  proof (cases us)
    case Nil
    have "unat (p_vs q) < modulus fr" using u(7) by simp
    then show ?thesis using Nil e unat_inc_mm [OF f, of "p_vs q"] u(7)
      by (simp add: iframe_upd_def mod_simps mod_Suc_eq)
  next
    case (Cons a us')
    then show ?thesis using e u(3) by (simp add: iframe_upd_def)
  qed
  moreover have "length (p_retrans_q ?q') + (length us - 1) < modulus fr"
    using u(4,5) lt by (cases us) (simp_all add: iframe_upd_def)
  ultimately have "unat ((p_vs_highest ?q' - p_nr ?q') AND modmask fr) = length (p_retrans_q ?q') + (length us - 1)"
    using u(6) by (intro win_offset [OF f]) (simp_all add: iframe_upd_def)
  then show ?thesis by (simp add: sent_again_def [of fr ?q'] u(2))
qed

lemma sender_iframe:
  assumes w: "win_ok fr hp (s_peers s p)" and f: "framing_ok fr" "s_framing s = fr"
    and t: "p_trans_q (s_peers s p) = g # rest" and lt: "length (p_retrans_q (s_peers s p)) < unat (p_ks (s_peers s p))"
    and b: "\<And>h. payload fr (frame_of u h) = payload fr (frame_of s h)" "s_framing u = fr"
    and up: "s_peers u p = iframe_upd (modmask fr) g (s_peers s p)"
  shows "sender_of u p = g_send (sender_of s p)"
proof -
  let ?q = "s_peers s p"
  note a = sent_again_send [OF w f(1) t lt]
  have "(\<lambda>f. payload fr (frame_of u f)) = (\<lambda>f. payload fr (frame_of s f))" using b by simp
  then show ?thesis
    using a t b(2) f(2) by (cases "sent_again fr ?q")
      (simp_all add: sender_of_def g_send_def Let_def up iframe_upd_def)
qed

text \<open>The octets on the wire: which frame goes out, in what form.\<close>

definition iframe_ok :: "station \<Rightarrow> nat \<Rightarrow> frame \<Rightarrow> bool" where
  "iframe_ok s p fm \<longleftrightarrow> (let q = s_peers s p; fr = s_framing s; bs = f_bytes fm; cmd = tx_is_command s in
     IOHDLC_IS_I_FRM (IOHDLC_FRAME_CTRL fr bs 0)
     \<and> IOHDLC_FRAME_ADDR fr bs = ucast (if cmd then p_addr q else s_addr s)
     \<and> extractNS fr bs = p_vs q \<and> extractNR fr bs = p_vr q
     \<and> IOHDLC_FRAME_GET_PF fr bs = iframe_set_pf s q cmd (outstanding_of s q) (tl (p_trans_q q) \<noteq> []))"

lemma iframe_hdr_fields:
  assumes f: "framing_ok fr" and r: "hdr_room fr (f_bytes fm)"
  shows "extractNR fr (f_bytes (iframe_hdr fr a vs vr pf fm)) = vr AND modmask fr"
    "IOHDLC_FRAME_GET_PF fr (f_bytes (iframe_hdr fr a vs vr pf fm)) = pf"
    "IOHDLC_FRAME_ADDR fr (f_bytes (iframe_hdr fr a vs vr pf fm)) = a"
proof -
  let ?b = "f_bytes (hdr_reset fr (ctrl_size fr) vs fm)"
  have rb: "hdr_room fr ?b" using r hdr_room_length [of ?b "f_bytes fm"] by simp
  have r2: "hdr_room fr (setNRInCtrl fr (ctrl_pos fr 0) ?b n)" for n
    using rb hdr_room_length [of "setNRInCtrl fr (ctrl_pos fr 0) ?b n" ?b] by (simp add: setNRInCtrl_def)
  have r3: "hdr_room fr (setPFInCtrl fr (ctrl_pos fr 0) (setNRInCtrl fr (ctrl_pos fr 0) ?b n) pf)" for n
    using r2 hdr_room_length [of "setPFInCtrl fr (ctrl_pos fr 0) (setNRInCtrl fr (ctrl_pos fr 0) ?b n) pf"
        "setNRInCtrl fr (ctrl_pos fr 0) ?b n"] by (simp add: setPFInCtrl_def Let_def)
  show "extractNR fr (f_bytes (iframe_hdr fr a vs vr pf fm)) = vr AND modmask fr"
    "IOHDLC_FRAME_GET_PF fr (f_bytes (iframe_hdr fr a vs vr pf fm)) = pf"
    "IOHDLC_FRAME_ADDR fr (f_bytes (iframe_hdr fr a vs vr pf fm)) = a"
    using f rb r2 r3 by (simp_all add: iframe_hdr_def hdr_finish_def frame_simps)
qed

lemma gate_wait_view:
  "keeps (\<lambda>t. (s_mode t, s_flags t, s_pf_state t, s_addr t) = v) (ioHdlcFrameTxGateWait f)"
proof -
  let ?I = "\<lambda>t. (s_mode t, s_flags t, s_pf_state t, s_addr t) = v"
  have r: "keeps ?I (hdlcReleaseFrame f)"
    unfolding hdlcReleaseFrame_def faultM_def by (auto simp: keeps_def set_pool_def split: option.split)
  show ?thesis
    unfolding ioHdlcFrameTxGateWait_def driver_tx_done_def ioHdlcFrameTxGateTryWait_def
      ioHdlcFrameTxGateRelease_def updF_def assertM_def faultM_def
    by (intro keeps r keeps_modify; simp)
qed

lemma view_cong:
  assumes "(s_mode t, s_flags t, s_pf_state t, s_addr t) = (s_mode s, s_flags s, s_pf_state s, s_addr s)"
  shows "tx_is_command t = tx_is_command s" "iframe_set_pf t q c n b = iframe_set_pf s q c n b" "s_addr t = s_addr s"
  using assms by (auto simp: tx_is_command_def iframe_set_pf_def IOHDLC_IS_ABM_def IOHDLC_IS_ARM_def
      IOHDLC_P_ISRCVED_def IOHDLC_F_ISRCVED_def IOHDLC_IS_PRI_def IOHDLC_IS_BUSY_def IOHDLC_USE_TWA_def
      responseShouldSetF_def)

text \<open>One I-frame, with the frame at the head of the transmission queue.\<close>

lemma send_iframe_refines:
  assumes i: "stable fr pl H s" and p: "p \<in> set pl" and t: "p_trans_q (s_peers s p) = f # rest"
    and wd: "outstanding_of s (s_peers s p) < p_ks (s_peers s p)"
  defines "s' \<equiv> exec (connTx_send_iframe p f (rest \<noteq> [])) (upd_peer p (\<lambda>q. q\<lparr>p_trans_q := tl (p_trans_q q)\<rparr>) s)"
  shows "sender_of s' p = g_send (sender_of s p)" "iframe_ok s p (frame_of s' f)"
    "s_sent s' = s_sent s \<or> s_sent s' = s_sent s @ [wire s' f]"
    "payload fr (frame_of s' f) = payload fr (frame_of s f)"
proof -
  let ?pop = "\<lambda>q. q\<lparr>p_trans_q := tl (p_trans_q q)\<rparr>" and ?q = "s_peers s p"
  define s1 where "s1 = exec (ioHdlcFrameTxGateWait f) s"
  have fp: "f \<in> set (peer_frames ?q)" by (simp add: peer_frames_def t)
  have fo: "framing_ok fr" and fr: "s_framing s = fr" by (rule invD(3) [OF i], rule invD(1) [OF i])
  have w: "win_ok fr (fp_heap (s_pool s)) ?q" using invD(7) [OF i p] by simp
  note wf = win_ok_facts [OF w fo]
  have lt: "length (p_retrans_q ?q) < unat (p_ks ?q)"
    using wd wf(1) by (simp add: outstanding_of_def fr word_less_nat_alt)
  have "sent_by s (s_sent s) s" by (simp add: sent_by_def same_frames_def)
  from keepsD [OF sent_by_wait this] have g: "s_framing s1 = fr" "s_peers s1 = s_peers s" "s_sent s1 = s_sent s"
    "\<And>h. f_bytes (frame_of s1 h) = f_bytes (frame_of s h)" "\<And>h. f_elen (frame_of s1 h) = f_elen (frame_of s h)"
    by (simp_all add: s1_def sent_by_def same_frames_def fr)
  have v: "(s_mode s1, s_flags s1, s_pf_state s1, s_addr s1) = (s_mode s, s_flags s, s_pf_state s, s_addr s)"
    unfolding s1_def by (rule keepsD [OF gate_wait_view]) (rule refl)
  note vc = view_cong [OF v]
  define c where "c = tx_is_command s"
  define a where "a = (ucast (if c then p_addr ?q else s_addr s) :: u8)"
  define pf where "pf = iframe_set_pf s ?q c (outstanding_of s ?q) (rest \<noteq> [])"
  define u where "u = upd_peer p (iframe_upd (modmask fr) f) (s1\<lparr>s_pool := upd_frame f
    (iframe_hdr fr a (p_vs ?q) (p_vr ?q) pf) (s_pool s1)\<rparr>)"
  have cs: "ctrl_size (s_framing s1) \<le> 2" using fo g(1) by (auto simp: framing_ok_def)
  have o1: "outstanding_of (upd_peer p ?pop s) (?pop ?q) = outstanding_of s ?q"
    "outstanding_of (upd_peer p ?pop s1) (?pop ?q) = outstanding_of s ?q"
    by (simp_all add: outstanding_of_def g(1) fr)
  have v2: "(s_mode (upd_peer p ?pop s1), s_flags (upd_peer p ?pop s1), s_pf_state (upd_peer p ?pop s1), s_addr (upd_peer p ?pop s1))
      = (s_mode s, s_flags s, s_pf_state s, s_addr s)"
    using v by simp
  have "iframe_set_pf s (?pop ?q) c n b = iframe_set_pf s ?q c n b" for n b
    by (simp add: iframe_set_pf_def)
  then have pop: "tx_is_command (upd_peer p ?pop s1) = c" "iframe_set_pf (upd_peer p ?pop s1) (?pop ?q) c n b = iframe_set_pf s ?q c n b" for n b
    unfolding view_cong [OF v2] c_def by simp_all
  have b: "exec (iframe_body p f a (?pop ?q) pf) (upd_peer p ?pop s1) = u"
    using iframe_body_exec [OF cs, of p f a "?pop ?q" pf] g(1) by (simp add: u_def)
  define u0 where "u0 = upd_peer p ?pop s1"
  have x1: "exec (ioHdlcFrameTxGateWait f) (upd_peer p ?pop s) = u0"
    by (simp only: gate_wait_upd_peer s1_def u0_def)
  have u0: "s_peers u0 p = ?pop ?q" "tx_is_command u0 = c" "s_addr u0 = s_addr s"
    "iframe_set_pf u0 (?pop ?q) c n b = iframe_set_pf s ?q c n b" for n b
    using pop vc(3) by (simp_all add: u0_def g(2))
  have ps: "s_peers (upd_peer p ?pop s) p = ?pop ?q" by simp
  have pa: "p_addr (?pop ?q) = p_addr ?q" by simp
  have e: "s' = exec (iframe_tail p f c pf) u"
    unfolding s'_def connTx_send_iframe_split getP_def run_simps x1 ps u0 id_apply o1 pf_def [symmetric]
    by (simp only: pa a_def [symmetric]) (simp only: u0_def b)
  have hdr: "frame_of u f = iframe_hdr fr a (p_vs ?q) (p_vr ?q) pf (frame_of s1 f)"
    "frame_of u h = frame_of s1 h" if "h \<noteq> f" for h
    using that by (simp_all add: u_def frame_of_def pool_simps)
  have pay1: "payload fr (frame_of s1 h) = payload fr (frame_of s h)" for h by (simp add: payload_def g)
  have pay: "payload fr (frame_of u h) = payload fr (frame_of s h)" for h
    using hdr [of h] pay1 payload_hdr [OF fo] by (cases "h = f") (auto simp: u_def frame_of_def pool_simps)
  have su: "sender_of u p = g_send (sender_of s p)"
    by (rule sender_iframe [OF w fo fr t lt pay]) (simp_all add: u_def g)
  have hu: "frame_of u f = iframe_hdr fr a (p_vs ?q) (p_vr ?q) pf (frame_of s1 f)"
    by (simp add: u_def frame_of_def pool_simps)
  from tail_wire [of u p f c pf] have tl: "like u p (s_sent u) s' \<or> like u p (s_sent u @ [wire u f]) s'" by (simp add: e)
  then have l: "f_bytes (frame_of s' h) = f_bytes (frame_of u h)" "f_elen (frame_of s' h) = f_elen (frame_of u h)" for h
    by (auto simp: like_def)
  show "sender_of s' p = g_send (sender_of s p)" using tl sender_like su by metis
  have "s_sent u = s_sent s" by (simp add: u_def upd_peer_def g)
  then show "s_sent s' = s_sent s \<or> s_sent s' = s_sent s @ [wire s' f]"
    using tl l by (auto simp: like_def wire_def)
  show "payload fr (frame_of s' f) = payload fr (frame_of s f)" using pay [of f] by (simp add: payload_def l)
  have room: "hdr_room fr (f_bytes (frame_of s1 f))"
    using frame_length(1) [OF i, of f] peer_frames_in [where ps = "s_peers s", OF p fp] invD(9) [OF i]
    by (simp add: g hdr_room_def ctrl_pos_def)
  have "distinct (peer_frames ?q)"
    using owners_okD(2) [OF invD(5) [OF i]] p by (auto simp: pframes_def distinct_concat_iff)
  then have d: "distinct (p_retrans_q ?q @ p_trans_q ?q)" by (auto simp: peer_frames_def)
  have w1: "win_ok fr (fp_heap (s_pool s1)) ?q"
  proof -
    have "f \<in> set (H @ pframes pl (s_peers s))"
      using peer_frames_in [where ps = "s_peers s", OF p fp] by simp
    from gate_wait_sinv(1) [OF i this] have "sinv ({f}, {}) fr pl H {} s1" by (simp add: s1_def)
    from invD(7) [OF this p] show ?thesis by (simp add: g(2))
  qed
  have "win_ok fr ((fp_heap (s_pool s1))(f := iframe_hdr fr a (p_vs ?q) (p_vr ?q) pf (fp_heap (s_pool s1) f)))
      (iframe_upd (modmask fr) f ?q)"
    by (rule win_ok_send [OF w1 fo t d]) (use room wd in \<open>simp_all add: frame_of_def outstanding_of_def fr word_less_nat_alt\<close>)
  then have "numbered fr (iframe_hdr fr a (p_vs ?q) (p_vr ?q) pf (fp_heap (s_pool s1) f))
      (unat (p_nr ?q) + length (p_retrans_q ?q))"
    unfolding win_ok_def by (auto simp: iframe_upd_def seqd_append)
  then have n: "numbered fr (frame_of u f) (unat (p_nr ?q) + length (p_retrans_q ?q))"
    by (simp only: hu) (simp only: frame_of_def)
  obtain us ws where vs: "unat (p_vs ?q) = (unat (p_nr ?q) + length (p_retrans_q ?q)) mod modulus fr"
    by (rule win_ok_parts [OF w fo])
  have vr: "p_vr ?q AND modmask fr = p_vr ?q"
    using w unat_and_mm [OF fo, of "p_vr ?q"] by (auto simp: win_ok_def word_unat_eq_iff)
  show "iframe_ok s p (frame_of s' f)"
    using n vs iframe_hdr_fields [OF fo room, of a "p_vs ?q" "p_vr ?q" pf] vr t
    by (simp add: iframe_ok_def Let_def l fr numbered_def word_unat_eq_iff flip: hu c_def)
      (simp add: a_def pf_def)
qed

lemma round_effect:
  assumes "stable fr pl H s" "p \<in> set pl" "connTx_may_send s p"
    "\<not> has (cm OR s_cm_flags s) IOHDLC_EVT_LINK_DOWN"
  shows "let s' = exec (connTx_round p cm) s; f = hd (p_trans_q (s_peers s p)) in
    sender_of s' p = g_send (sender_of s p) \<and> iframe_ok s p (frame_of s' f)
    \<and> payload fr (frame_of s' f) = payload fr (frame_of s f)
    \<and> (s_sent s' = s_sent s \<or> s_sent s' = s_sent s @ [wire s' f])"
proof -
  let ?s = "s\<lparr>s_cm_flags := 0\<rparr>"
  obtain f rest where t: "p_trans_q (s_peers s p) = f # rest" "outstanding_of s (s_peers s p) < p_ks (s_peers s p)"
    using assms(3) by (cases "p_trans_q (s_peers s p)") (auto simp: connTx_may_send_def Let_def)
  have i: "stable fr pl H ?s" using assms(1) by simp
  have o': "outstanding_of ?s (s_peers ?s p) < p_ks (s_peers ?s p)" using t(2) by (simp add: outstanding_of_def)
  have tq: "p_trans_q (s_peers ?s p) = f # rest" using t(1) by simp
  have e: "exec (connTx_round p cm) s = exec (connTx_send_iframe p f (rest \<noteq> []))
      (upd_peer p (\<lambda>q. q\<lparr>p_trans_q := tl (p_trans_q q)\<rparr>) ?s)"
    using assms(3,4) t(1)
    by (simp add: connTx_round_def iohdlc_evt_get_and_clear_flags_def getP_def updP_def Let_def)
  have m: "sender_of ?s p = sender_of s p" "iframe_ok ?s p = iframe_ok s p" "s_sent ?s = s_sent s" "frame_of ?s f = frame_of s f"
    by (simp_all add: sender_of_def Let_def frame_of_def iframe_ok_def fun_eq_iff tx_is_command_def iframe_set_pf_def
        IOHDLC_IS_ABM_def IOHDLC_IS_ARM_def IOHDLC_P_ISRCVED_def IOHDLC_F_ISRCVED_def IOHDLC_IS_PRI_def
        IOHDLC_IS_BUSY_def IOHDLC_USE_TWA_def responseShouldSetF_def outstanding_of_def)
  from send_iframe_refines [OF i assms(2) tq o'] show ?thesis unfolding e m Let_def t(1) list.sel by blast
qed

definition write_one :: "action list" where
  "write_one = [WriteBegin 0, WriteMore 0 [65, 66, 67], WriteEnd 0 True (Inr 3)]"

lemma write_one_run:
  "\<exists>y. run write_one connected = Some y \<and> connTx_may_send (sy_st y) 0 \<and> s_peer_list (sy_st y) = [0]
    \<and> \<not> has (0 OR s_cm_flags (sy_st y)) IOHDLC_EVT_LINK_DOWN \<and> sender_of (sy_st y) 0 =
      \<lparr>g_base = 0, g_flight = [], g_back = [], g_new = [[65, 66, 67]]\<rparr>"
  by (simp del: perform.simps add: sample_defs write_one_def connected_defs exe sender_of_def sent_again_def
      payload_def cong: in_order)

text \<open>C7: One round of the transmission loop is the send step of the abstract sender: the string sent
  next is the first one moved back, or else the first new one. The frame is an I-frame with
  V(S) as N(S), V(R) as N(R) and the address and P/F bit of the rules; its information field is
  untouched, and these octets are what the driver gets, unless it refuses the frame.\<close>
theorem round_refines_send:
  assumes "stable fr pl H s" "p \<in> set pl" "connTx_may_send s p"
    "\<not> has (cm OR s_cm_flags s) IOHDLC_EVT_LINK_DOWN"
  shows "let s' = exec (connTx_round p cm) s; f = hd (p_trans_q (s_peers s p)) in
    sender_of s' p = g_send (sender_of s p) \<and> iframe_ok s p (frame_of s' f)
    \<and> payload fr (frame_of s' f) = payload fr (frame_of s f)
    \<and> (s_sent s' = s_sent s \<or> s_sent s' = s_sent s @ [wire s' f])"
  by (rule round_effect [OF assms])

theorem round_refines_send_witness:
  "\<exists>s. sender_of s 0 = \<lparr>g_base = 0, g_flight = [], g_back = [], g_new = [[65, 66, 67]]\<rparr>
    \<and> sender_of (exec (connTx_round 0 0) s) 0 = \<lparr>g_base = 0, g_flight = [[65, 66, 67]], g_back = [], g_new = []\<rparr>"
proof -
  from write_one_run obtain y where y: "run write_one connected = Some y" "connTx_may_send (sy_st y) 0"
    "s_peer_list (sy_st y) = [0]" "\<not> has (0 OR s_cm_flags (sy_st y)) IOHDLC_EVT_LINK_DOWN"
    "sender_of (sy_st y) 0 = \<lparr>g_base = 0, g_flight = [], g_back = [], g_new = [[65, 66, 67]]\<rparr>" by blast
  from round_refines_send [OF reachableD [OF run_reachable [OF reachable_connected y(1)]] _ y(2,4)] y(3,5)
  have "sender_of (exec (connTx_round 0 0) (sy_st y)) 0 = \<lparr>g_base = 0, g_flight = [[65, 66, 67]], g_back = [], g_new = []\<rparr>"
    by (simp add: Let_def g_send_def)
  with y(5) show ?thesis by blast
qed

lemma enqueue_effect:
  assumes "stable fr pl (f # H) s" "p \<in> set pl"
  shows "let s' = exec (write_enqueue p f) s in
    (case result (write_enqueue p f) s of
       Inr _ \<Rightarrow> sender_of s' p = g_put (payload fr (frame_of s f)) (sender_of s p)
         \<and> p_i_pending_count (s_peers s' p) = p_i_pending_count (s_peers s p) + 1
     | Inl e \<Rightarrow> sender_of s' p = sender_of s p
         \<and> (if tx_reset_pending (s_peers s p) then e = ECONNRESET else IOHDLC_PEER_DISC (s_peers s p) \<and> e = ENOTCONN))"
proof -
  let ?q = "s_peers s p"
  have fr: "s_framing s = fr" by (rule invD(1) [OF assms(1)])
  have w: "win_ok fr (fp_heap (s_pool s)) ?q" using invD(7) [OF assms(1,2)] by simp
  obtain us ws where u: "p_trans_q ?q = us @ ws" "sent_again fr ?q = length us"
    by (rule win_ok_parts [OF w invD(3) [OF assms(1)]])
  let ?q' = "?q\<lparr>p_trans_q := p_trans_q ?q @ [f], p_i_pending_count := p_i_pending_count ?q + 1\<rparr>"
  have a: "sent_again fr ?q' = length us" using u(2) by (simp add: sent_again_def)
  show ?thesis
  proof (cases "tx_reset_pending ?q \<or> IOHDLC_PEER_DISC ?q")
    case True
    then show ?thesis by (auto simp: write_enqueue_def getP_def failE_def sender_release Let_def)
  next
    case False
    then have "exec (write_enqueue p f) s = upd_peer p (\<lambda>_. ?q') s" "result (write_enqueue p f) s = Inr ()"
      by (simp_all add: write_enqueue_def getP_def updP_def liftE_def okE_def upd_peer_def)
    then show ?thesis using a u
      by (simp add: Let_def sender_of_def g_put_def fr)
  qed
qed

text \<open>A filled frame given to the sender is appended to the strings not yet sent, unless the link
  has gone down meanwhile.\<close>
theorem enqueue_refines_put:
  assumes "stable fr pl (f # H) s" "p \<in> set pl"
  shows "let s' = exec (write_enqueue p f) s in
    (case result (write_enqueue p f) s of
       Inr _ \<Rightarrow> sender_of s' p = g_put (payload fr (frame_of s f)) (sender_of s p)
         \<and> p_i_pending_count (s_peers s' p) = p_i_pending_count (s_peers s p) + 1
     | Inl e \<Rightarrow> sender_of s' p = sender_of s p
         \<and> (if tx_reset_pending (s_peers s p) then e = ECONNRESET else IOHDLC_PEER_DISC (s_peers s p) \<and> e = ENOTCONN))"
  by (rule enqueue_effect [OF assms])

theorem enqueue_refines_put_witness:
  "\<exists>s. sender_of (exec (write_enqueue 0 9) s) 0
    = \<lparr>g_base = 0, g_flight = [[65, 66, 67], [68]], g_back = [], g_new = [[69]]\<rparr>"
proof -
  let ?fr = "\<lparr>modmask = 7, pfoctet = 0, ctrl_size = 1, frame_offset = 1\<rparr>"
  let ?g = "\<lambda>fm. fm\<lparr>f_bytes := take (length (f_bytes fm)) ([0, 2, 0, 69] @ drop 4 (f_bytes fm)), f_elen := 4\<rparr>"
  let ?t = "exec (updF 9 ?g) (exec hdlcTakeFrame (sy_st two_sent))"
  have r: "result hdlcTakeFrame (sy_st two_sent) = Some 9"
    by (simp add: hdlcTakeFrame_def two_sent_eval take_some)
  have t: "stable ?fr [0] [9] ?t"
    using take_sinv [OF two_sent_stable] r by (intro keepsD [OF keeps_updF]) simp_all
  have s: "sender_of ?t 0 = sender_of (sy_st two_sent) 0" "payload ?fr (frame_of ?t 9) = [69]"
    "\<not> tx_reset_pending (s_peers ?t 0)" "\<not> IOHDLC_PEER_DISC (s_peers ?t 0)"
    by (simp_all add: two_sent_eval hdlcTakeFrame_def take_frame_def set_pool_def updF_def sender_of_def payload_def exe
        fresh_frame_def)
  then have "\<exists>x. result (write_enqueue 0 9) ?t = Inr x"
    by (simp add: write_enqueue_def getP_def liftE_def okE_def)
  with enqueue_refines_put [OF t, of 0] s show ?thesis
    by (intro exI [of _ ?t]) (auto simp: Let_def two_sent_sender g_put_def)
qed

end
