(* ===== verification/Hdlc_Stream.thy ===== *)
theory Hdlc_Stream
  imports Hdlc_GoBackN
begin

text \<open>
  The byte stream of the application interface: a write cuts its octets into fragments that are
  queued in order, a read takes them out of the received frames in order, and the vectors of both
  are walked octet by octet.
\<close>

section \<open>Filling a frame\<close>

lemma frame_of_writeF_other [simp]: "h \<noteq> f \<Longrightarrow> frame_of (exec (writeF f i v) s) h = frame_of s h"
  by (simp add: writeF_def faultM_def frame_of_def updF_def pool_simps)

lemma bytes_writeF:
  "i < length (f_bytes (frame_of s f)) \<Longrightarrow> f_bytes (frame_of (exec (writeF f i v) s) f) = (f_bytes (frame_of s f))[i := v]"
  by (simp add: writeF_def frame_of_def updF_def pool_simps)

lemma elen_writeF: "f_elen (frame_of (exec (writeF f i v) s) h) = f_elen (frame_of s h)"
  by (simp add: writeF_def faultM_def frame_of_def updF_def pool_simps)

lemma frame_of_writeFs_other [simp]: "h \<noteq> f \<Longrightarrow> frame_of (exec (writeFs f i vs) s) h = frame_of s h"
  by (induction vs arbitrary: i s) simp_all

lemma bytes_writeFs:
  "i + length vs \<le> length (f_bytes (frame_of s f)) \<Longrightarrow> f_bytes (frame_of (exec (writeFs f i vs) s) f)
    = take i (f_bytes (frame_of s f)) @ vs @ drop (i + length vs) (f_bytes (frame_of s f))"
proof (induction vs arbitrary: i s)
  case (Cons v vs)
  then have i: "i < length (f_bytes (frame_of s f))" by simp
  let ?s = "exec (writeF f i v) s"
  have b: "f_bytes (frame_of ?s f) = (f_bytes (frame_of s f))[i := v]" by (rule bytes_writeF [OF i])
  have "i + 1 + length vs \<le> length (f_bytes (frame_of ?s f))" using Cons.prems b by simp
  from Cons.IH [OF this] show ?case using i
    by (simp add: b take_Suc_conv_app_nth drop_update_cancel)
qed simp

lemma framing_writeF [simp]: "s_framing (exec (writeF f i v) s) = s_framing s" "s_peers (exec (writeF f i v) s) = s_peers s"
  by (simp_all add: writeF_def faultM_def updF_def)

lemma framing_writeFs [simp]: "s_framing (exec (writeFs f i vs) s) = s_framing s" "s_peers (exec (writeFs f i vs) s) = s_peers s"
  by (induction vs arbitrary: i s) simp_all

lemma framing_updF [simp]: "s_framing (exec (updF f g) s) = s_framing s"
  by (simp add: updF_def)

lemma write_fill_other:
  "s_framing (exec (write_fill p f chunk) s) = s_framing s" "s_peers (exec (write_fill p f chunk) s) = s_peers s"
  "h \<noteq> f \<Longrightarrow> frame_of (exec (write_fill p f chunk) s) h = frame_of s h"
  by (simp_all add: write_fill_def Let_def set_elen_def)

lemma write_fill_effect:
  assumes i: "stable fr pl (f # H) s" and l: "IOHDLC_FRAME_INFO_pos fr + length chunk \<le> fp_framesize (s_pool s)"
    and z: "fp_framesize (s_pool s) < 65536"
  shows "payload fr (frame_of (exec (write_fill p f chunk) s) f) = chunk"
    "sender_of (exec (write_fill p f chunk) s) r = sender_of s r \<or> r \<notin> set pl"
proof -
  note fr = invD(1) [OF i]
  have lf: "length (f_bytes (frame_of s f)) = fp_framesize (s_pool s)" using frame_length(1) [OF i, of f] by simp
  let ?w = "\<lambda>a c. exec (writeF f (ctrl_pos fr 0) c) (exec (writeF f (addr_pos fr) a) s)"
  have b: "addr_pos fr < fp_framesize (s_pool s)" "ctrl_pos fr 0 < fp_framesize (s_pool s)"
    using pos_lt7 [of fr] invD(9) [OF i] by linarith+
  have "length (f_bytes (frame_of (?w a c) f)) = fp_framesize (s_pool s)" for a c
    using b lf by (simp add: bytes_writeF)
  then have "f_bytes (frame_of (exec (writeFs f (IOHDLC_FRAME_INFO_pos fr) chunk) (?w a c)) f)
      = take (IOHDLC_FRAME_INFO_pos fr) (f_bytes (frame_of (?w a c) f)) @ chunk
        @ drop (IOHDLC_FRAME_INFO_pos fr + length chunk) (f_bytes (frame_of (?w a c) f))" for a c
    using l by (intro bytes_writeFs) simp
  moreover have "unat (word_of_nat (IOHDLC_FRAME_INFO_pos fr + length chunk) :: u16) = IOHDLC_FRAME_INFO_pos fr + length chunk"
    using l z by (simp add: unat_of_nat del: of_nat_add)
  moreover have "length (f_bytes (frame_of (?w a c) f)) = fp_framesize (s_pool s)" for a c
    using b lf by (simp add: bytes_writeF)
  ultimately show "payload fr (frame_of (exec (write_fill p f chunk) s) f) = chunk"
    using l by (simp add: write_fill_def Let_def fr set_elen_def payload_def)
  show "sender_of (exec (write_fill p f chunk) s) r = sender_of s r \<or> r \<notin> set pl"
  proof (cases "r \<in> set pl")
    case True
    have "f \<notin> set (pframes pl (s_peers s))" using owners_okD(2) [OF invD(5) [OF i]] by simp
    then have "f \<notin> set (peer_frames (s_peers s r))" using peer_frames_in [where ps = "s_peers s", OF True] by blast
    then have "h \<noteq> f" if "h \<in> set (p_retrans_q (s_peers s r) @ p_trans_q (s_peers s r))" for h
      using that by (auto simp: peer_frames_def)
    then have "sender_of (exec (write_fill p f chunk) s) r = sender_of s r"
      by (intro sender_of_cong) (simp_all add: write_fill_other)
    then show ?thesis ..
  qed simp
qed

section \<open>Writing\<close>

lemma writer_chunk_bounds:
  assumes "0 < n" "0 < mifls"
  shows "0 < writer_chunk fr fcs mifls n" "writer_chunk fr fcs mifls n \<le> n" "writer_chunk fr fcs mifls n \<le> mifls"
  using assms by (auto simp: writer_chunk_def Let_def)

definition fits :: "station \<Rightarrow> nat \<Rightarrow> bool" where
  "fits s p \<longleftrightarrow> has_room s p \<and> fp_framesize (s_pool s) < 65536 \<and> p_mifls (s_peers s p) \<noteq> 0"

lemma fits_cong: "s_framing t = s_framing s \<Longrightarrow> fp_framesize (s_pool t) = fp_framesize (s_pool s)
    \<Longrightarrow> p_mifls (s_peers t p) = p_mifls (s_peers s p) \<Longrightarrow> fits t p = fits s p"
  by (simp add: fits_def has_room_def)

lemma sender_take: "sender_of (exec hdlcTakeFrame s) p = sender_of s p"
  by (rule sender_of_cong) (simp_all add: hdlcTakeFrame_def set_pool_def payload_def frame_of_def take_frame_bytes)

lemma framesize_write_fill: "fp_framesize (s_pool (exec (write_fill p f c) s)) = fp_framesize (s_pool s)"
proof -
  have "fp_framesize (s_pool (exec (writeFs f i vs) s)) = fp_framesize (s_pool s)" for i vs s
    by (induction vs arbitrary: i s) simp_all
  then show ?thesis by (simp add: write_fill_def Let_def set_elen_def)
qed

text \<open>One fragment: taken, filled and queued.\<close>

lemma fragment_queued:
  assumes i: "stable fr pl H s" and p: "p \<in> set pl" and fit: "fits s p" and d: "data \<noteq> []"
    and v: "result (write_take p (length data)) s = WFrame f k"
  defines "t \<equiv> exec (write_fill p f (take k data)) (exec (write_take p (length data)) s)"
  shows "0 < k" "k \<le> length data" "k \<le> unat (p_mifls (s_peers s p))" "stable fr pl (f # H) t"
    "sender_of t p = sender_of s p" "payload fr (frame_of t f) = take k data" "fits t p" "s_peers t = s_peers s"
    "stable fr pl H (exec (write_enqueue p f) t)"
proof -
  let ?s = "exec (write_take p (length data)) s"
  from htD [OF write_take_ht [of fr pl H p "length data"] i] v
  have s: "stable fr pl (f # H) ?s" "f_tx_ctrl_len (frame_of ?s f) = 0"
    "k = writer_chunk fr (s_fcs_size ?s) (unat (p_mifls (s_peers ?s p))) (length data)" by (simp_all add: wp_def)
  have tk: "exec (write_take p (length data)) s = exec hdlcTakeFrame s"
    using v by (auto simp: write_take_def Let_def split: if_splits option.splits)
  have e: "s_peers ?s = s_peers s" "fp_framesize (s_pool ?s) = fp_framesize (s_pool s)" "s_framing ?s = s_framing s"
    unfolding tk by (simp_all add: hdlcTakeFrame_def set_pool_def) (cases "fp_free (s_pool s)"; simp add: take_none take_some)
  have m: "0 < unat (p_mifls (s_peers s p))" using fit by (simp add: fits_def unat_gt_0)
  show k: "0 < k" "k \<le> length data" "k \<le> unat (p_mifls (s_peers s p))"
    using writer_chunk_bounds [OF _ m, of "length data" fr "s_fcs_size ?s"] d by (simp_all add: s(3) e)
  have l: "IOHDLC_FRAME_INFO_pos fr + length (take k data) \<le> fp_framesize (s_pool ?s)"
    using fit k(2,3) invD(1) [OF i] by (simp add: fits_def has_room_def e min_absorb2)
  have z: "fp_framesize (s_pool ?s) < 65536" using fit by (simp add: fits_def e)
  show "payload fr (frame_of t f) = take k data" unfolding t_def by (rule write_fill_effect(1) [OF s(1) l z])
  show "sender_of t p = sender_of s p"
    using write_fill_effect(2) [OF s(1) l z, of p p] p by (simp add: t_def tk sender_take)
  show st: "stable fr pl (f # H) t" unfolding t_def by (rule write_fill_sinv(1) [OF s(1) l])
  show "fits t p" using fit fits_cong [of t s p] by (simp add: t_def write_fill_other framesize_write_fill e)
  show "s_peers t = s_peers s" by (simp add: t_def write_fill_other e)
  show "stable fr pl H (exec (write_enqueue p f) t)"
    using htD [OF write_enqueue_ht [OF p], of fr f H t] write_fill_sinv [OF s(1) l, of p] s(2) by (simp add: wp_def t_def)
qed

lemma write_take_other:
  assumes "\<forall>f k. result (write_take p n) s \<noteq> WFrame f k"
  shows "sender_of (exec (write_take p n) s) r = sender_of s r" "s_framing (exec (write_take p n) s) = s_framing s"
    "fp_framesize (s_pool (exec (write_take p n) s)) = fp_framesize (s_pool s)" "s_peers (exec (write_take p n) s) = s_peers s"
  by (auto simp: write_take_def Let_def sender_take split: if_splits)
    (auto simp: hdlcTakeFrame_def set_pool_def)

lemma sender_write_done: "sender_of (exec (write_done p sig r) s) p' = sender_of s p'"
proof -
  have "keeps (\<lambda>s. sender_of s p' = g) (write_done p sig r)" for g
    unfolding write_done_def ss_clr_def ioHdlcBroadcastFlags_def updP_def
    by (intro keeps keeps_modify) (simp_all add: sender_updP pcore_def, simp add: sender_of_def Let_def frame_of_def)
  then show ?thesis by (simp add: keeps_def)
qed

lemma result_write_done: "result (write_done p sig r) s = (if tx_reset_pending (s_peers s p) then Inl ECONNRESET else r)"
  by (simp add: write_done_def getP_def updP_def cong: if_cong)

lemma sender_broadcast: "sender_of (exec (ioHdlcBroadcastFlags e) s) p = sender_of s p"
  by (simp add: ioHdlcBroadcastFlags_def sender_of_def Let_def frame_of_def)

definition queued :: "nat \<Rightarrow> u8 list \<Rightarrow> sender \<Rightarrow> sender \<Rightarrow> nat \<Rightarrow> bool" where
  "queued mifl data g g' n \<longleftrightarrow> (\<exists>chunks. g' = g\<lparr>g_new := g_new g @ chunks\<rparr>
     \<and> (\<forall>c \<in> set chunks. c \<noteq> [] \<and> length c \<le> mifl) \<and> concat chunks = take n data \<and> n \<le> length data)"

lemma queued_none: "queued mifl data g g 0"
  unfolding queued_def by (rule exI [of _ "[]"]) simp

lemma queued_more:
  assumes "queued mifl (drop k data) (g_put (take k data) g) g' n" "0 < k" "k \<le> length data" "k \<le> mifl"
  shows "queued mifl data g g' (k + n)"
proof -
  from assms(1) obtain cs where c: "g' = (g_put (take k data) g)\<lparr>g_new := g_new (g_put (take k data) g) @ cs\<rparr>"
    "\<forall>c \<in> set cs. c \<noteq> [] \<and> length c \<le> mifl" "concat cs = take n (drop k data)" "n \<le> length (drop k data)"
    by (auto simp: queued_def)
  then show ?thesis unfolding queued_def using assms(2-4)
    by (intro exI [of _ "take k data # cs"]) (auto simp: g_put_def take_add)
qed

text \<open>Whatever a write returns, it has queued a prefix of its octets, in order, cut into nonempty
  fragments of at most the maximum information field; a count it returns is the length of this
  prefix.\<close>

lemma write_queues_prefix:
  assumes "stable fr pl H s" "p \<in> set pl" "fits s p" "length data \<le> all"
  shows "\<exists>n. queued (unat (p_mifls (s_peers s p))) data (sender_of s p) (sender_of (exec (write_loop fuel p all sig data) s) p) n
    \<and> (\<forall>m. result (write_loop fuel p all sig data) s = Inr m \<longrightarrow> m = all - length data + n)"
  using assms
proof (induction fuel arbitrary: s sig data)
  case 0
  have "sender_of (exec faultM s) p = sender_of s p" by (simp add: faultM_def sender_of_def Let_def frame_of_def)
  then show ?case by (intro exI [of _ 0]) (simp add: queued_none failE_def)
next
  case (Suc fuel)
  show ?case
  proof (cases "data = []")
    case True
    then show ?thesis
      by (intro exI [of _ 0]) (simp add: queued_none sender_write_done result_write_done)
  next
    case False
    let ?v = "result (write_take p (length data)) s" and ?s = "exec (write_take p (length data)) s"
    show ?thesis
    proof (cases "\<exists>f k. ?v = WFrame f k")
      case False
      then have nf: "\<forall>f k. ?v \<noteq> WFrame f k" by simp
      note o = write_take_other [OF nf]
      show ?thesis
      proof (cases ?v)
        case WRetry
        have "stable fr pl H ?s" using htD [OF write_take_ht [of fr pl H p "length data"] Suc.prems(1)] WRetry by (simp add: wp_def)
        moreover have "fits ?s p" using Suc.prems(3) fits_cong [of ?s s p] o by simp
        ultimately show ?thesis using Suc.IH [of ?s data sig] Suc.prems(2,4) \<open>data \<noteq> []\<close> WRetry o by simp
      qed (use nf \<open>data \<noteq> []\<close> Suc.prems(4) o in \<open>auto simp: sender_write_done result_write_done sender_broadcast
          queued_none intro!: exI [of _ 0] cong: if_cong\<close>)
    next
      case True
      then obtain f k where v: "?v = WFrame f k" by blast
      let ?t = "exec (write_fill p f (take k data)) ?s"
      note q = fragment_queued [OF Suc.prems(1-3) \<open>data \<noteq> []\<close> v]
      let ?r = "result (write_enqueue p f) ?t" and ?u = "exec (write_enqueue p f) ?t"
      from enqueue_effect [OF q(4) Suc.prems(2)] have e: "case ?r of
          Inr _ \<Rightarrow> sender_of ?u p = g_put (take k data) (sender_of s p)
        | Inl e \<Rightarrow> sender_of ?u p = sender_of s p"
        by (auto simp: Let_def q(5,6) split: sum.splits)
      show ?thesis
      proof (cases ?r)
        case (Inl e')
        then show ?thesis using e v \<open>data \<noteq> []\<close>
          by (intro exI [of _ 0]) (simp add: queued_none sender_write_done result_write_done)
      next
        case (Inr x)
        have "sender_of ?u p = g_put (take k data) (sender_of s p)" using e Inr by simp
        moreover have "p_mifls (s_peers ?u p) = p_mifls (s_peers s p)" "fits ?u p"
        proof -
          have u: "?u = upd_peer p (\<lambda>q. q\<lparr>p_trans_q := p_trans_q q @ [f], p_i_pending_count := p_i_pending_count q + 1\<rparr>) ?t"
            using Inr by (auto simp: write_enqueue_def getP_def updP_def liftE_def failE_def okE_def split: if_splits)
          show "p_mifls (s_peers ?u p) = p_mifls (s_peers s p)" unfolding u by (simp add: q(8))
          show "fits ?u p" using q(7) fits_cong [of ?u ?t p] unfolding u by simp
        qed
        moreover have "length (drop k data) \<le> all" using Suc.prems(4) by simp
        ultimately obtain n where n: "queued (unat (p_mifls (s_peers s p))) (drop k data) (g_put (take k data) (sender_of s p))
            (sender_of (exec (write_loop fuel p all True (drop k data)) ?u) p) n"
          "\<forall>m. result (write_loop fuel p all True (drop k data)) ?u = Inr m \<longrightarrow> m = all - length (drop k data) + n"
          using Suc.IH [OF q(9) Suc.prems(2), of "drop k data" True] by auto
        have "queued (unat (p_mifls (s_peers s p))) data (sender_of s p)
            (sender_of (exec (write_loop fuel p all True (drop k data)) ?u) p) (k + n)"
          by (rule queued_more [OF n(1) q(1-3)])
        then show ?thesis using n(2) v Inr \<open>data \<noteq> []\<close> q(2) Suc.prems(4)
          by (intro exI [of _ "k + n"]) auto
      qed
    qed
  qed
qed

lemma connected_stable: "stable \<lparr>modmask = 7, pfoctet = 0, ctrl_size = 1, frame_offset = 1\<rparr> [0] [] (sy_st connected)"
  using reachableD [OF reachable_connected] by (simp add: connected_defs sample_defs start_def)

lemmas connected_eval = connected_defs sample_defs start_def zero_peer_def

lemma connected_fits: "fits (sy_st connected) 0"
  by (simp add: fits_def has_room_def IOHDLC_FRAME_INFO_pos_def connected_eval)

text \<open>The rounds of the writer end: its fuel suffices.\<close>

lemma pool_of_write_fill:
  "hysteresis (s_pool (exec (write_fill p f c) s)) = hysteresis (s_pool s)"
proof -
  have w: "hysteresis (s_pool (exec (writeF f i v) s)) = hysteresis (s_pool s)" for i v s
    by (simp add: writeF_def faultM_def updF_def hysteresis_frame_update)
  have "hysteresis (s_pool (exec (writeFs f i vs) s)) = hysteresis (s_pool s)" for i vs s
    by (induction vs arbitrary: i s) (simp_all add: w)
  then show ?thesis by (simp add: write_fill_def Let_def set_elen_def updF_def hysteresis_frame_update w)
qed

lemma hyst_take:
  assumes "stable fr pl H s" "hysteresis (s_pool s)"
  shows "hysteresis (s_pool (exec hdlcTakeFrame s))"
  using take_hyst [OF owners_okD(1) [OF invD(5) [OF assms(1)]] assms(2)] by (simp add: hdlcTakeFrame_def set_pool_def)

lemma no_retry:
  assumes "hysteresis (s_pool s)"
  shows "result (write_take p n) s \<noteq> WRetry"
proof
  assume r: "result (write_take p n) s = WRetry"
  then have "hdlcPoolGetState (s_pool s) = IOHDLC_POOL_NORMAL"
    by (auto simp: write_take_def Let_def W_WAIT_COND_def split: if_splits)
  then have "fp_free (s_pool s) \<noteq> []" using assms by (auto simp: hysteresis_def hdlcPoolGetState_def)
  then obtain f fs where "fp_free (s_pool s) = f # fs" by (cases "fp_free (s_pool s)") auto
  with r show False by (auto simp: write_take_def Let_def hdlcTakeFrame_def take_some split: if_splits)
qed

lemma write_terminates_effect:
  assumes "stable fr pl H s" "p \<in> set pl" "fits s p" "hysteresis (s_pool s)" "length data < fuel"
  shows "stable fr pl H (exec (write_loop fuel p all sig data) s)
    \<and> \<not> s_fault (exec (write_loop fuel p all sig data) s)"
proof -
  have "stable fr pl H (exec (write_loop fuel p all sig data) s)"
    using assms
  proof (induction fuel arbitrary: s sig data)
    case (Suc fuel)
    note wd = keepsD [OF write_done_keeps]
    show ?case
    proof (cases "data = []")
      case True
      then show ?thesis by (simp add: wd Suc.prems(1))
    next
      case False
      let ?v = "result (write_take p (length data)) s" and ?s = "exec (write_take p (length data)) s"
      have st: "case ?v of WFrame f k \<Rightarrow> True | _ \<Rightarrow> stable fr pl H ?s"
        using htD [OF write_take_ht [of fr pl H p "length data"] Suc.prems(1)] by (auto simp: wp_def split: write_verdict.splits)
      show ?thesis
      proof (cases ?v)
        case WRetry
        then show ?thesis using no_retry [OF Suc.prems(4)] by blast
      next
        case (WFrame f k)
        let ?t = "exec (write_fill p f (take k data)) ?s"
        note q = fragment_queued [OF Suc.prems(1-3) False WFrame]
        let ?u = "exec (write_enqueue p f) ?t"
        have ht: "hysteresis (s_pool ?t)"
        proof -
          have "exec (write_take p (length data)) s = exec hdlcTakeFrame s"
            using WFrame by (auto simp: write_take_def Let_def split: if_splits option.splits)
          then show ?thesis using hyst_take [OF Suc.prems(1,4)] by (simp add: pool_of_write_fill)
        qed
        show ?thesis
        proof (cases "result (write_enqueue p f) ?t")
          case (Inl e)
          then show ?thesis using WFrame False wd [OF q(9)] by simp
        next
          case (Inr x)
          have u: "?u = upd_peer p (\<lambda>q. q\<lparr>p_trans_q := p_trans_q q @ [f], p_i_pending_count := p_i_pending_count q + 1\<rparr>) ?t"
            using Inr by (auto simp: write_enqueue_def getP_def updP_def liftE_def failE_def okE_def split: if_splits)
          have "fits ?u p" using q(7) fits_cong [of ?u ?t p] unfolding u by simp
          moreover have "hysteresis (s_pool ?u)" using ht unfolding u by simp
          moreover have "length (drop k data) < fuel" using q(1,2) Suc.prems(5) by simp
          ultimately show ?thesis using Suc.IH [OF q(9) Suc.prems(2), of "drop k data" True] WFrame Inr False by simp
        qed
      qed (use st False in \<open>auto intro!: wd keepsD [OF keeps_small(10)]\<close>)
    qed
  qed simp
  then show ?thesis using invD(6) by blast
qed



section \<open>Reading\<close>

text \<open>The octets received and not yet read, and the condition that every frame has its header.\<close>

definition stream_in :: "station \<Rightarrow> nat \<Rightarrow> u8 list" where
  "stream_in s p = (let q = s_peers s p; pay = \<lambda>f. payload (s_framing s) (frame_of s f) in
     (case p_partial_read_frame q of None \<Rightarrow> [] | Some f \<Rightarrow> drop (p_partial_read_offset q) (pay f))
     @ concat (map pay (p_recept_q q)))"

definition all_readable :: "station \<Rightarrow> nat \<Rightarrow> bool" where
  "all_readable s p \<longleftrightarrow> (let q = s_peers s p in
     (\<forall>f. p_partial_read_frame q = Some f \<longrightarrow> readable (s_framing s) (frame_of s f) (p_partial_read_offset q))
     \<and> (\<forall>f \<in> set (p_recept_q q). readable (s_framing s) (frame_of s f) 0))"

lemma payload_length: "readable fr fm off \<Longrightarrow> length (payload fr fm) = unat (f_elen fm) - IOHDLC_FRAME_INFO_pos fr"
  by (simp add: readable_def payload_def)

lemma all_readable_next: "all_readable s p \<Longrightarrow> next_readable s p"
  by (simp add: all_readable_def next_readable_def Let_def split: option.split list.split)

lemma frame_of_flags: "frame_of (s\<lparr>s_cm_flags := x\<rparr>) h = frame_of s h"
  by (simp add: frame_of_def)

text \<open>What a copy returns and what it leaves.\<close>

lemma read_copy_effect:
  assumes fo: "framing_ok (s_framing s)" and r: "readable (s_framing s) (frame_of s f) (p_partial_read_offset (s_peers s p))"
  defines "rest \<equiv> drop (p_partial_read_offset (s_peers s p)) (payload (s_framing s) (frame_of s f))"
  shows "result (read_copy p f room) s = (take room rest, length rest \<le> room)"
    "let t = exec (read_copy p f room) s in
       s_framing t = s_framing s \<and> (\<forall>h. f_bytes (frame_of t h) = f_bytes (frame_of s h) \<and> f_elen (frame_of t h) = f_elen (frame_of s h))
       \<and> p_recept_q (s_peers t p) = p_recept_q (s_peers s p)
       \<and> (if length rest \<le> room then p_partial_read_frame (s_peers t p) = None
          else p_partial_read_frame (s_peers t p) = Some f
            \<and> p_partial_read_offset (s_peers t p) = p_partial_read_offset (s_peers s p) + room)"
proof -
  let ?fr = "s_framing s" and ?off = "p_partial_read_offset (s_peers s p)"
  let ?il = "info_len_of ?fr (frame_of s f)" and ?pay = "payload ?fr (frame_of s f)"
  have il: "unat ?il = length ?pay"
    using r info_len_of [OF fo, of "frame_of s f"] payload_length [OF r] by (simp add: readable_def)
  have le: "?off \<le> length ?pay" using r payload_length [OF r] by (auto simp: readable_def)
  have w: "unat (word_of_nat ?off :: u64) = ?off"
    using le il unsigned_less [of ?il, where ?'a = nat] by (simp add: unsigned_of_nat take_bit_eq_mod)
  have av: "unat (?il - word_of_nat ?off) = length rest"
    using le w il by (simp add: unat_sub word_le_nat_alt rest_def)
  define n where "n = min (length rest) room"
  have n: "min (unat (?il - word_of_nat ?off)) room = n" by (simp add: n_def av)
  have ok: "n = 0 \<or> IOHDLC_FRAME_INFO_pos ?fr + ?off + n \<le> length (f_bytes (frame_of s f))"
    using r payload_length [OF r] by (auto simp: n_def rest_def readable_def)
  have a: "exec (assertM (n = 0 \<or> IOHDLC_FRAME_INFO_pos ?fr + ?off + n \<le> length (f_bytes (frame_of s f)))) s = s"
    using ok by (simp add: assertM_def)
  have b: "take n (drop (IOHDLC_FRAME_INFO_pos ?fr + ?off) (f_bytes (frame_of s f))) = take room rest"
  proof -
    have "take n (drop (IOHDLC_FRAME_INFO_pos ?fr + ?off) (f_bytes (frame_of s f))) = take n rest"
      using r payload_length [OF r]
      by (simp add: rest_def payload_def drop_take take_take n_def add.commute readable_def min_def)
    then show ?thesis by (simp add: n_def min_def)
  qed
  have more: "?off + n < unat ?il \<longleftrightarrow> \<not> length rest \<le> room" using le il by (auto simp: n_def rest_def)
  show "result (read_copy p f room) s = (take room rest, length rest \<le> room)"
    unfolding read_copy_def run_simps Let_def id_apply n a b updP_def more by simp
  show "let t = exec (read_copy p f room) s in
       s_framing t = s_framing s \<and> (\<forall>h. f_bytes (frame_of t h) = f_bytes (frame_of s h) \<and> f_elen (frame_of t h) = f_elen (frame_of s h))
       \<and> p_recept_q (s_peers t p) = p_recept_q (s_peers s p)
       \<and> (if length rest \<le> room then p_partial_read_frame (s_peers t p) = None
          else p_partial_read_frame (s_peers t p) = Some f
            \<and> p_partial_read_offset (s_peers t p) = p_partial_read_offset (s_peers s p) + room)"
    unfolding read_copy_def run_simps Let_def id_apply n a b updP_def more
    by (simp add: updP_def ioHdlcBroadcastFlags_def release_proj(1) release_frames n_def frame_of_flags)
qed

text \<open>One round takes octets off the front of the stream, or leaves it alone.\<close>

definition frames_in :: "station \<Rightarrow> nat \<Rightarrow> nat" where
  "frames_in s p = length (p_recept_q (s_peers s p)) + length (opt (p_partial_read_frame (s_peers s p)))"

lemma read_next_stop: "result (read_next p tot) s = RStop (Some e) \<Longrightarrow> tot = 0 \<and> e \<in> {ECONNRESET, ENOTCONN}"
  by (auto simp: read_next_def getP_def updP_def Let_def split: if_splits option.splits)

lemma read_round_stream:
  assumes i: "framing_ok (s_framing s)" and r: "all_readable s p"
  shows "let t = exec (read_round p tot room) s in s_framing t = s_framing s \<and> all_readable t p \<and>
    (case result (read_round p tot room) s of
       RdData bs whole \<Rightarrow> stream_in s p = bs @ stream_in t p \<and> length bs \<le> room
         \<and> (if whole then frames_in t p < frames_in s p else length bs = room)
     | RdStop (Some e) \<Rightarrow> stream_in t p = stream_in s p \<and> tot = 0 \<and> e \<in> {ECONNRESET, ENOTCONN}
     | _ \<Rightarrow> stream_in t p = stream_in s p)"
proof -
  let ?q = "s_peers s p" and ?fr = "s_framing s"
  let ?pay = "\<lambda>f. payload ?fr (frame_of s f)"
  consider (none) v where "result (read_next p tot) s = v" "\<forall>f. v \<noteq> RFrame f"
      "exec (read_next p tot) s = s \<or> exec (read_next p tot) s = exec (clear_rx_terminal p) s"
    | (partial) f where "result (read_next p tot) s = RFrame f" "p_partial_read_frame ?q = Some f" "exec (read_next p tot) s = s"
    | (fresh) f fs where "result (read_next p tot) s = RFrame f" "p_partial_read_frame ?q = None" "p_recept_q ?q = f # fs"
      "exec (read_next p tot) s = upd_peer p (\<lambda>q. q\<lparr>p_recept_q := tl (p_recept_q q), p_partial_read_offset := 0\<rparr>) s"
    using read_next_cases [of p tot s] by blast
  then show ?thesis
  proof cases
    case none
    have c: "stream_in (exec (clear_rx_terminal p) s) p = stream_in s p" "all_readable (exec (clear_rx_terminal p) s) p"
      "s_framing (exec (clear_rx_terminal p) s) = s_framing s"
      using r by (simp_all add: clear_rx_terminal_def updP_def stream_in_def all_readable_def Let_def split: option.split)
    have "exec (read_round p tot room) s = exec (read_next p tot) s"
      "\<forall>bs m. result (read_round p tot room) s \<noteq> RdData bs m"
      using none(1,2) by (cases v; simp add: read_round_def)+
    moreover have "result (read_round p tot room) s = RdStop (Some e) \<Longrightarrow> tot = 0 \<and> e \<in> {ECONNRESET, ENOTCONN}" for e
      using none(1,2) read_next_stop [of p tot s e] by (cases v) (auto simp: read_round_def)
    ultimately show ?thesis using none(3) c r by (auto simp: Let_def split: read_result.splits option.splits)
  next
    case partial
    have rd: "readable ?fr (frame_of s f) (p_partial_read_offset ?q)" using r partial(2) by (simp add: all_readable_def Let_def)
    let ?t = "exec (read_copy p f room) s" and ?rest = "drop (p_partial_read_offset ?q) (?pay f)"
    note e = read_copy_effect [OF i rd, of room]
    have t: "exec (read_round p tot room) s = ?t"
      "result (read_round p tot room) s = RdData (take room ?rest) (length ?rest \<le> room)"
      using partial e(1) by (simp_all add: read_round_def)
    have p1: "payload ?fr (frame_of ?t h) = ?pay h" for h using e(2) by (simp add: Let_def payload_def)
    have p2: "readable ?fr (frame_of ?t h) n = readable ?fr (frame_of s h) n" for h n using e(2) by (simp add: Let_def readable_def)
    have rd': "readable ?fr (frame_of s f) (p_partial_read_offset ?q + room)" if "room < length ?rest"
      using rd that payload_length [OF rd] by (simp add: readable_def)
    have td: "?rest = take room ?rest @ drop (p_partial_read_offset ?q + room) (?pay f)"
      using append_take_drop_id [of room ?rest] by (simp add: add.commute)
    show ?thesis unfolding t using e(2) r partial(2) rd' td
      by (auto simp: Let_def stream_in_def all_readable_def frames_in_def p1 p2 split: if_splits)
  next
    case fresh
    let ?s = "upd_peer p (\<lambda>q. q\<lparr>p_recept_q := tl (p_recept_q q), p_partial_read_offset := 0\<rparr>) s"
    have rd: "readable (s_framing ?s) (frame_of ?s f) (p_partial_read_offset (s_peers ?s p))"
      using r fresh(3) by (simp add: all_readable_def Let_def)
    have i': "framing_ok (s_framing ?s)" using i by simp
    let ?t = "exec (read_copy p f room) ?s" and ?rest = "?pay f"
    note e = read_copy_effect [OF i' rd, of room, simplified]
    have t: "exec (read_round p tot room) s = ?t"
      "result (read_round p tot room) s = RdData (take room ?rest) (length ?rest \<le> room)"
      using fresh e(1) by (simp_all add: read_round_def)
    have p1: "payload ?fr (frame_of ?t h) = ?pay h" for h using e(2) by (simp add: Let_def payload_def)
    have p2: "readable ?fr (frame_of ?t h) n = readable ?fr (frame_of s h) n" for h n using e(2) by (simp add: Let_def readable_def)
    have rd': "readable ?fr (frame_of s f) room" if "room < length ?rest"
      using rd that payload_length [OF rd] by (simp add: readable_def)
    show ?thesis unfolding t using e(2) r fresh(2,3) rd'
      by (auto simp: Let_def stream_in_def all_readable_def frames_in_def p1 p2 split: if_splits)
  qed
qed

lemma stream_read_done: "stream_in (exec (read_done p) s) p = stream_in s p"
  by (simp add: read_done_def ss_clr_def updP_def stream_in_def Let_def split: option.split)

text \<open>A read returns, after at most one round per received frame and one more. It returns octets
  from the front of the stream, in order and no more than asked for, and leaves the rest. An error
  is reported only when no octet has been read, and then the stream is as it was.\<close>

lemma read_takes_prefix:
  assumes "stable fr pl H s" "p \<in> set pl" "all_readable s p" "length got \<le> all" "frames_in s p < fuel"
  shows "let t = exec (read_loop fuel p all got) s in stable fr pl H t \<and>
    (case result (read_loop fuel p all got) s of
       Inr bs \<Rightarrow> got @ stream_in s p = bs @ stream_in t p \<and> length bs \<le> all
     | Inl e \<Rightarrow> got = [] \<and> stream_in t p = stream_in s p \<and> e \<in> {ETIMEDOUT, ECONNRESET, ENOTCONN})"
  using assms
proof (induction fuel arbitrary: s got)
  case (Suc fuel)
  note rd = keepsD [OF read_begin_done_keeps(2)]
  let ?r = "result (read_round p (length got) (all - length got)) s" and ?t = "exec (read_round p (length got) (all - length got)) s"
  show ?case
  proof (cases "all \<le> length got")
    case True
    then show ?thesis using Suc.prems rd by (simp add: Let_def stream_read_done)
  next
    case False
    have fo: "framing_ok (s_framing s)" using invD(1,3) [OF Suc.prems(1)] by simp
    note rr = read_round_stream [OF fo Suc.prems(3), of "length got" "all - length got", unfolded Let_def]
    have st: "stable fr pl H ?t"
      by (rule read_round_keeps [OF Suc.prems(2,1) all_readable_next [OF Suc.prems(3)]])
    show ?thesis
    proof (cases ?r)
      case RdWait
      then show ?thesis using rr False rd [OF st, of p] Suc.prems(4)
        by (cases "got = []") (simp_all add: Let_def stream_read_done)
    next
      case (RdStop e)
      then show ?thesis using rr False rd [OF st] Suc.prems(4)
        by (cases e) (auto simp: Let_def stream_read_done)
    next
      case (RdData bs whole)
      show ?thesis
      proof (cases whole)
        case True
        have "length (got @ bs) \<le> all" "frames_in ?t p < fuel" using rr RdData True Suc.prems(4,5) False by auto
        from Suc.IH [OF st Suc.prems(2) _ this] rr have ih:
          "let t = exec (read_loop fuel p all (got @ bs)) ?t in stable fr pl H t \<and>
            (case result (read_loop fuel p all (got @ bs)) ?t of
               Inr cs \<Rightarrow> (got @ bs) @ stream_in ?t p = cs @ stream_in t p \<and> length cs \<le> all
             | Inl e \<Rightarrow> got @ bs = [] \<and> stream_in t p = stream_in ?t p \<and> e \<in> {ETIMEDOUT, ECONNRESET, ENOTCONN})"
          by blast
        then show ?thesis using rr RdData True False by (auto simp: Let_def split: sum.splits)
      next
        case False
        then show ?thesis using rr RdData \<open>\<not> all \<le> length got\<close> rd [OF st] Suc.prems(4)
          by (simp add: Let_def stream_read_done)
      qed
    qed
  qed
qed simp

definition two_received :: "action list" where
  "two_received = [Rx [0, 2, 0x00, 70, 71] 5, Rx [0, 2, 0x02, 72] 4]"

lemma two_received_run:
  "\<exists>y. run two_received connected = Some y \<and> s_peer_list (sy_st y) = [0] \<and> stream_in (sy_st y) 0 = [70, 71, 72]
    \<and> all_readable (sy_st y) 0 \<and> frames_in (sy_st y) 0 = 2"
  by (simp del: perform.simps add: sample_defs two_received_def connected_defs exe stream_in_def all_readable_def
      frames_in_def readable_def payload_def cong: in_order)

end
