(* ===== verification/Hdlc_Link.thy ===== *)
theory Hdlc_Link
  imports Hdlc_Stream
begin

text \<open>
  Two stations and the line between them, for one direction of the data: the operations of the
  sending station, those of the receiving one, and a line that keeps the order of the frames but
  may lose any of them. They refine the contract of the link, so what is read at one end is a
  prefix of what was written at the other.
\<close>

section \<open>Accepting an I-frame\<close>

definition rx_like :: "station \<Rightarrow> nat \<Rightarrow> nat list \<Rightarrow> u32 \<Rightarrow> station \<Rightarrow> bool" where
  "rx_like s p fs n t \<longleftrightarrow> s_framing t = s_framing s
     \<and> (\<forall>h. f_bytes (frame_of t h) = f_bytes (frame_of s h) \<and> f_elen (frame_of t h) = f_elen (frame_of s h))
     \<and> p_recept_q (s_peers t p) = fs \<and> p_vr (s_peers t p) = n
     \<and> p_partial_read_frame (s_peers t p) = p_partial_read_frame (s_peers s p)
     \<and> p_partial_read_offset (s_peers t p) = p_partial_read_offset (s_peers s p)"

lemma rx_like_refl: "rx_like s p (p_recept_q (s_peers s p)) (p_vr (s_peers s p)) s"
  by (simp add: rx_like_def)

lemma rx_like_updP:
  assumes "\<And>q. p_recept_q (g q) = p_recept_q q \<and> p_vr (g q) = p_vr q
    \<and> p_partial_read_frame (g q) = p_partial_read_frame q \<and> p_partial_read_offset (g q) = p_partial_read_offset q"
  shows "keeps (rx_like s p fs n) (updP p' g)"
  using assms by (simp add: keeps_def rx_like_def updP_def)

lemma rx_like_flags: "keeps (rx_like s p fs n) (flags_set m)"
  by (simp add: keeps_def rx_like_def flags_set_def frame_of_def)

lemma rx_like_ss: "keeps (rx_like s p fs n) (ss_set p' m)" "keeps (rx_like s p fs n) (ss_clr p' m)"
  unfolding ss_set_def ss_clr_def by (intro rx_like_updP; simp)+

lemma rx_like_cv: "keeps (rx_like s p fs n) (condvar_rx p')"
  unfolding condvar_rx_def by (intro rx_like_updP) simp

lemma handleIFrame_effect:
  fixes s p f pf
  defines "t \<equiv> exec (handleIFrame p f pf) s" and "q \<equiv> s_peers s p"
  shows "fst (result (handleIFrame p f pf) s) \<longleftrightarrow> extractNS (s_framing s) (f_bytes (frame_of s f)) = p_vr q"
    "if fst (result (handleIFrame p f pf) s)
     then rx_like s p (p_recept_q q @ [f]) ((p_vr q + 1) AND modmask (s_framing s)) t
     else rx_like s p (p_recept_q q) (p_vr q) t"
proof -
  let ?ns = "extractNS (s_framing s) (f_bytes (frame_of s f))"
  show r: "fst (result (handleIFrame p f pf) s) \<longleftrightarrow> ?ns = p_vr q"
    unfolding q_def by (simp add: handleIFrame_def s_peer_raw_rx_deliver_def getP_def cong: if_cong)
  show "if fst (result (handleIFrame p f pf) s)
     then rx_like s p (p_recept_q q @ [f]) ((p_vr q + 1) AND modmask (s_framing s)) t
     else rx_like s p (p_recept_q q) (p_vr q) t"
  proof (cases "?ns = p_vr q")
    case False
    have "keeps (rx_like s p (p_recept_q q) (p_vr q)) (do {
        rej \<leftarrow> gets (\<lambda>s. \<not> IOHDLC_USE_TWA s \<and> IOHDLC_USE_REJ s \<and> p_rej_actioned (s_peers s p) = 0);
        if rej then do {
          updP p (\<lambda>r. r\<lparr>p_rej_actioned := p_vr q + 1\<rparr>);
          ss_set p IOHDLC_SS_REJPEND;
          ret (False, IOHDLC_EVT_REJ_ACTED) }
        else ret (False, 0) })" (is "keeps ?I ?m")
      by (intro keeps rx_like_updP rx_like_ss) simp
    from keepsD [OF this] have "?I (exec ?m s)" using rx_like_refl by (simp add: q_def)
    moreover have "t = exec ?m s" using False by (simp add: t_def handleIFrame_def getP_def q_def)
    ultimately show ?thesis using r False by simp
  next
    case True
    let ?fs = "p_recept_q q @ [f]"
    let ?I = "rx_like s p ?fs (p_vr q)" and ?J = "rx_like s p ?fs ((p_vr q + 1) AND modmask (s_framing s))"
    have dl: "ht (\<lambda>t. t = s) (s_peer_raw_rx_deliver p f) (\<lambda>r t. r \<and> ?I t)"
    proof -
      have "?I (upd_peer p (\<lambda>q. q\<lparr>p_recept_q := p_recept_q q @ [f]\<rparr>) s)" by (simp add: rx_like_def q_def)
      from keepsD [OF rx_like_cv this] show ?thesis
        by (simp add: ht_def wp_def s_peer_raw_rx_deliver_def updP_def)
    qed
    define m1 where "m1 = do {
         updP p (\<lambda>r. if p_rej_actioned r \<noteq> 0 \<and> p_vr q = p_rej_actioned r - 1 then r\<lparr>p_rej_actioned := 0\<rparr> else r);
         busy \<leftarrow> getP p IOHDLC_PEER_BUSY;
         whenM (busy \<and> pf) (ss_clr p IOHDLC_SS_BUSY);
         low \<leftarrow> gets (\<lambda>s. \<not> IOHDLC_IS_BUSY s \<and> hdlcPoolGetState (s_pool s) = IOHDLC_POOL_LOW_WATER);
         whenM low (flags_set IOHDLC_FLG_BUSY);
         ret low }"
    have k1: "keeps ?I m1" unfolding m1_def by (intro keeps rx_like_updP rx_like_ss rx_like_flags) simp
    define d where "d = exec (s_peer_raw_rx_deliver p f) s"
    have d: "?I d" "result (s_peer_raw_rx_deliver p f) s"
      using dl by (simp_all add: d_def ht_def wp_def)
    have e: "t = upd_peer p (\<lambda>q. q\<lparr>p_vr := (p_vr q + 1) AND modmask (s_framing (exec m1 d))\<rparr>) (exec m1 d)"
      using True d(2) by (simp add: t_def handleIFrame_def getP_def m1_def d_def q_def updP_def)
    from keepsD [OF k1 d(1)] have "?J t" unfolding e by (simp add: rx_like_def)
    then show ?thesis using r True by simp
  qed
qed

text \<open>What the reader will get, and what the sender takes for acknowledged, after an I-frame.\<close>

lemma stream_rx_like:
  assumes "rx_like s p (p_recept_q (s_peers s p) @ fs) n t"
  shows "stream_in t p = stream_in s p @ concat (map (\<lambda>f. payload (s_framing s) (frame_of s f)) fs)"
  using assms by (simp add: rx_like_def stream_in_def Let_def payload_def split: option.split)

lemma readable_rx_like:
  assumes "rx_like s p (p_recept_q (s_peers s p) @ fs) n t" "all_readable s p"
    "\<forall>f \<in> set fs. readable (s_framing s) (frame_of s f) 0"
  shows "all_readable t p"
  using assms by (auto simp: rx_like_def all_readable_def Let_def readable_def)

lemma iframe_effect:
  assumes "stable fr pl (f # H) s" "p \<in> set pl"
  shows "let t = exec (handleIFrame p f pf) s; q = s_peers s p; accepted = fst (result (handleIFrame p f pf) s) in
    (accepted \<longleftrightarrow> extractNS fr (f_bytes (frame_of s f)) = p_vr q)
    \<and> stream_in t p = stream_in s p @ (if accepted then payload fr (frame_of s f) else [])
    \<and> unat (p_vr (s_peers t p)) = (if accepted then Suc (unat (p_vr q)) mod modulus fr else unat (p_vr q))
    \<and> stable fr pl (if accepted then H else f # H) t"
proof -
  have fr: "s_framing s = fr" and fo: "framing_ok fr" by (rule invD(1) [OF assms(1)], rule invD(3) [OF assms(1)])
  have v: "unat (p_vr (s_peers s p)) < modulus fr" using invD(7) [OF assms] by (auto simp: win_ok_def)
  have st: "stable fr pl (if fst (result (handleIFrame p f pf) s) then H else f # H) (exec (handleIFrame p f pf) s)"
    using htD [OF handleIFrame_ht [OF assms(2)] assms(1)] by (simp add: wp_def)
  note e = handleIFrame_effect [where s = s and p = p and f = f and pf = pf, unfolded fr]
  show ?thesis
  proof (cases "fst (result (handleIFrame p f pf) s)")
    case True
    with e(2) have "rx_like s p (p_recept_q (s_peers s p) @ [f]) ((p_vr (s_peers s p) + 1) AND modmask fr)
      (exec (handleIFrame p f pf) s)" by simp
    from stream_rx_like [OF this] this show ?thesis using True e(1) st unat_inc_mm [OF fo v]
      by (simp add: Let_def fr rx_like_def)
  next
    case False
    with e(2) have "rx_like s p (p_recept_q (s_peers s p) @ []) (p_vr (s_peers s p)) (exec (handleIFrame p f pf) s)" by simp
    from stream_rx_like [OF this] this show ?thesis using False e(1) st by (simp add: Let_def fr rx_like_def)
  qed
qed

text \<open>C12: An I-frame is accepted exactly when it carries the number expected; then its information
  field, and nothing else, is appended to the stream of the reader, V(R) advances by one modulo 8
  or 128, and the frame belongs to the receive queue. Any other I-frame changes neither the
  stream nor V(R), and stays with the caller.\<close>
theorem iframe_in_sequence_delivered:
  assumes "stable fr pl (f # H) s" "p \<in> set pl"
  shows "let t = exec (handleIFrame p f pf) s; q = s_peers s p; accepted = fst (result (handleIFrame p f pf) s) in
    (accepted \<longleftrightarrow> extractNS fr (f_bytes (frame_of s f)) = p_vr q)
    \<and> stream_in t p = stream_in s p @ (if accepted then payload fr (frame_of s f) else [])
    \<and> unat (p_vr (s_peers t p)) = (if accepted then Suc (unat (p_vr q)) mod modulus fr else unat (p_vr q))
    \<and> stable fr pl (if accepted then H else f # H) t"
  by (rule iframe_effect [OF assms])

section \<open>Two stations and a line\<close>

text \<open>What a fragment of a write has queued.\<close>

definition fragment_done :: "nat \<Rightarrow> u8 list \<Rightarrow> station \<Rightarrow> u8 list" where
  "fragment_done p data s = (case result (write_take p (length data)) s of
     WFrame f k \<Rightarrow> (case result (write_enqueue p f) (exec (write_fill p f (take k data)) (exec (write_take p (length data)) s)) of
        Inr _ \<Rightarrow> take k data | Inl _ \<Rightarrow> [])
   | _ \<Rightarrow> [])"

text \<open>
  The sending station, the receiving station, the frames and the N(R) on the line, and what the
  applications have written and read.
\<close>

record pair =
  pr_a :: station
  pr_b :: station
  pr_down :: "u8 list list"
  pr_up :: "u32 list"
  pr_written :: "u8 list"
  pr_read :: "u8 list"

text \<open>
  A step of the pair. The sender queues a fragment of a write, transmits the next I-frame, handles
  an N(R), P and F included, or a REJ. The receiver handles an I-frame that the receive thread has
  read into a free frame, sends its V(R), and is read from. The line loses frames and numbers.
  Whatever else the two stations do, it leaves the sending and the receiving variables alone.
\<close>

inductive pair_step :: "framing \<Rightarrow> nat \<Rightarrow> nat \<Rightarrow> pair \<Rightarrow> pair \<Rightarrow> bool" for fr p r where
  pr_write: "fits (pr_a y) p \<Longrightarrow> data \<noteq> []
    \<Longrightarrow> pair_step fr p r y (y\<lparr>pr_a := exec (write_fragment p data) (pr_a y),
      pr_written := pr_written y @ fragment_done p data (pr_a y)\<rparr>)"
| pr_send: "connTx_may_send (pr_a y) p \<Longrightarrow> \<not> has (cm OR s_cm_flags (pr_a y)) IOHDLC_EVT_LINK_DOWN
    \<Longrightarrow> pair_step fr p r y (y\<lparr>pr_a := exec (connTx_round p cm) (pr_a y),
      pr_down := pr_down y @ drop (length (s_sent (pr_a y))) (s_sent (exec (connTx_round p cm) (pr_a y)))\<rparr>)"
| pr_ack: "pr_up y = nr # ns
    \<Longrightarrow> pair_step fr p r y (y\<lparr>pr_a := exec (handleCheckpointAndAck p nr pf c) (pr_a y), pr_up := ns\<rparr>)"
| pr_rej: "pair_step fr p r y (y\<lparr>pr_a := exec (handleSFrame_rej p) (pr_a y)\<rparr>)"
| pr_other_a: "p \<in> set pl \<Longrightarrow> stable fr pl H a \<Longrightarrow> sender_of a p = sender_of (pr_a y) p
    \<Longrightarrow> pair_step fr p r y (y\<lparr>pr_a := a\<rparr>)"
| pr_lose: "pr_down y = us @ w # ws \<Longrightarrow> pair_step fr p r y (y\<lparr>pr_down := us @ ws\<rparr>)"
| pr_receive: "pr_down y = w # ws \<Longrightarrow> r \<in> set pl \<Longrightarrow> stable fr pl (f # H) (pr_b y)
    \<Longrightarrow> wire (pr_b y) f = w \<Longrightarrow> unat (f_elen (frame_of (pr_b y) f)) = length w
    \<Longrightarrow> pair_step fr p r y (y\<lparr>pr_b := exec (handleIFrame r f pf) (pr_b y), pr_down := ws\<rparr>)"
| pr_respond: "pair_step fr p r y (y\<lparr>pr_up := pr_up y @ [p_vr (s_peers (pr_b y) r)]\<rparr>)"
| pr_lose_up: "pr_up y = us @ n # ns \<Longrightarrow> pair_step fr p r y (y\<lparr>pr_up := us @ ns\<rparr>)"
| pr_take: "pair_step fr p r y (y\<lparr>pr_b := exec (read_round r tot room) (pr_b y),
      pr_read := pr_read y @ (case result (read_round r tot room) (pr_b y) of RdData bs whole \<Rightarrow> bs | _ \<Rightarrow> [])\<rparr>)"
| pr_other_b: "r \<in> set pl \<Longrightarrow> stable fr pl H b \<Longrightarrow> all_readable b r \<Longrightarrow> stream_in b r = stream_in (pr_b y) r
    \<Longrightarrow> p_vr (s_peers b r) = p_vr (s_peers (pr_b y) r) \<Longrightarrow> pair_step fr p r y (y\<lparr>pr_b := b\<rparr>)"

text \<open>The pair starts with the connection: nothing sent, received, written or read.\<close>

definition fresh_pair :: "framing \<Rightarrow> nat \<Rightarrow> nat \<Rightarrow> station \<Rightarrow> station \<Rightarrow> bool" where
  "fresh_pair fr p r a b \<longleftrightarrow> (\<exists>pl H. p \<in> set pl \<and> stable fr pl H a) \<and> (\<exists>pl H. r \<in> set pl \<and> stable fr pl H b)
     \<and> sender_of a p = \<lparr>g_base = 0, g_flight = [], g_back = [], g_new = []\<rparr>
     \<and> p_vr (s_peers b r) = 0 \<and> stream_in b r = [] \<and> all_readable b r"

inductive pair_reach :: "framing \<Rightarrow> nat \<Rightarrow> nat \<Rightarrow> pair \<Rightarrow> bool" for fr p r where
  pr_start: "fresh_pair fr p r a b
    \<Longrightarrow> pair_reach fr p r \<lparr>pr_a = a, pr_b = b, pr_down = [], pr_up = [], pr_written = [], pr_read = []\<rparr>"
| pr_more: "pair_reach fr p r y \<Longrightarrow> pair_step fr p r y y' \<Longrightarrow> pair_reach fr p r y'"

section \<open>The pair refines the link\<close>

definition decode :: "framing \<Rightarrow> u8 list \<Rightarrow> nat \<times> u8 list" where
  "decode fr w = (unat (extractNS fr w), drop (IOHDLC_FRAME_INFO_pos fr) w)"

definition a_ok :: "framing \<Rightarrow> nat \<Rightarrow> station \<Rightarrow> link \<Rightarrow> bool" where
  "a_ok fr p a L \<longleftrightarrow> (\<exists>pl H. p \<in> set pl \<and> stable fr pl H a) \<and> sender_of a p = l_snd L"

definition b_ok :: "framing \<Rightarrow> nat \<Rightarrow> station \<Rightarrow> u8 list \<Rightarrow> link \<Rightarrow> bool" where
  "b_ok fr r b got L \<longleftrightarrow> (\<exists>pl H. r \<in> set pl \<and> stable fr pl H b) \<and> all_readable b r
     \<and> unat (p_vr (s_peers b r)) = l_vr L \<and> concat (l_out L) = got @ stream_in b r"

definition line_ok :: "framing \<Rightarrow> u8 list list \<Rightarrow> u32 list \<Rightarrow> link \<Rightarrow> bool" where
  "line_ok fr down up L \<longleftrightarrow> l_down L = map (decode fr) down \<and> (\<forall>w \<in> set down. IOHDLC_FRAME_INFO_pos fr < length w)
     \<and> l_up L = map unat up \<and> (\<forall>n \<in> set up. unat n < modulus fr)"

definition refines :: "framing \<Rightarrow> nat \<Rightarrow> nat \<Rightarrow> pair \<Rightarrow> link \<Rightarrow> bool" where
  "refines fr p r y L \<longleftrightarrow> framing_ok fr \<and> l_reach (modulus fr) L \<and> a_ok fr p (pr_a y) L \<and> b_ok fr r (pr_b y) (pr_read y) L
     \<and> line_ok fr (pr_down y) (pr_up y) L \<and> concat (l_in L) = pr_written y \<and> [] \<notin> set (l_in L)"

section \<open>Acknowledgments at the sender\<close>

lemma sender_lengths:
  assumes "stable fr pl H s" "p \<in> set pl"
  shows "length (g_flight (sender_of s p)) = length (p_retrans_q (s_peers s p))"
    "length (g_flight (sender_of s p)) + length (g_back (sender_of s p))
      = unat ((p_vs_highest (s_peers s p) - p_nr (s_peers s p)) AND modmask fr)"
    "g_base (sender_of s p) = unat (p_nr (s_peers s p))" "unat (p_nr (s_peers s p)) < modulus fr"
    "Suc (unat (p_ks (s_peers s p))) \<le> modulus fr"
proof -
  have fr: "s_framing s = fr" and fo: "framing_ok fr" by (rule invD(1) [OF assms(1)], rule invD(3) [OF assms(1)])
  have w: "win_ok fr (fp_heap (s_pool s)) (s_peers s p)" using invD(7) [OF assms] by simp
  note f = win_ok_facts [OF w fo]
  show "length (g_flight (sender_of s p)) = length (p_retrans_q (s_peers s p))"
    "g_base (sender_of s p) = unat (p_nr (s_peers s p))" "unat (p_nr (s_peers s p)) < modulus fr"
    "Suc (unat (p_ks (s_peers s p))) \<le> modulus fr"
    using f(7,8) by (simp_all add: sender_of_def Let_def)
  show "length (g_flight (sender_of s p)) + length (g_back (sender_of s p))
      = unat ((p_vs_highest (s_peers s p) - p_nr (s_peers s p)) AND modmask fr)"
    using f(2,3) by (simp add: sender_of_def Let_def sent_again_def fr)
qed

lemma nr_offset:
  assumes "stable fr pl H s" "p \<in> set pl" "unat nr < modulus fr"
  shows "isNRValid s (s_peers s p) nr \<longleftrightarrow> g_offset (modulus fr) (sender_of s p) (unat nr)
      \<le> length (g_flight (sender_of s p)) + length (g_back (sender_of s p))"
    "acked fr (s_peers s p) nr = min (g_offset (modulus fr) (sender_of s p) (unat nr)) (length (g_flight (sender_of s p)))"
proof -
  note l = sender_lengths [OF assms(1,2)]
  have o': "g_offset (modulus fr) (sender_of s p) (unat nr) = unat ((nr - p_nr (s_peers s p)) AND modmask fr)"
    using unat_diff_mm [OF invD(3) [OF assms(1)] assms(3) l(4)] by (simp add: g_offset_def l(3))
  show "isNRValid s (s_peers s p) nr \<longleftrightarrow> g_offset (modulus fr) (sender_of s p) (unat nr)
      \<le> length (g_flight (sender_of s p)) + length (g_back (sender_of s p))"
    unfolding l(2) o' by (simp add: isNRValid_def Let_def invD(1) [OF assms(1)] word_le_nat_alt)
  show "acked fr (s_peers s p) nr = min (g_offset (modulus fr) (sender_of s p) (unat nr)) (length (g_flight (sender_of s p)))"
    unfolding o' l(1) by (simp add: acked_def)
qed

lemma sender_keeps: "(\<And>s ws. keeps (like s p ws) m) \<Longrightarrow> sender_of (exec m s) p = sender_of s p"
proof (rule sender_like)
  assume "\<And>s ws. keeps (like s p ws) m"
  then have "keeps (like s p (s_sent s)) m" .
  from keepsD [OF this] show "like s p (s_sent s) (exec m s)" by (simp add: like_def)
qed

lemma like_restart: "keeps (like s p ws) (ioHdlcRestartReplyTimer p' k t)"
  unfolding ioHdlcRestartReplyTimer_def by (intro keeps like_updP upd_timer_core)

text \<open>The part of the acknowledgment after the retransmission decision.\<close>

definition ack_tail :: "nat \<Rightarrow> bool \<Rightarrow> bool \<Rightarrow> unit hdlc" where
  "ack_tail p moved is_command = do {
         t3_used \<leftarrow> gets iFrameReplyTimerUsed;
         whenM (moved \<and> t3_used) (ioHdlcStopReplyTimer p IOHDLC_TIMER_T3);
         (if \<not> is_command then do {
            pf_set IOHDLC_F_RCVED;
            updP p (\<lambda>q. q\<lparr>p_poll_retry_count := 0\<rparr>);
            ioHdlcStopReplyTimer p IOHDLC_TIMER_REPLY;
            nrm \<leftarrow> gets IOHDLC_IS_NRM;
            tmo \<leftarrow> gets idlePollTimeoutMs;
            whenM nrm (ioHdlcStartReplyTimer p IOHDLC_TIMER_T3 tmo) }
          else pf_set IOHDLC_P_RCVED) }"

definition ack_idle :: "nat \<Rightarrow> bool \<Rightarrow> unit hdlc" where
  "ack_idle p is_command = whenM (\<not> is_command) (do {
           nrm \<leftarrow> gets IOHDLC_IS_NRM;
           tmo \<leftarrow> gets idlePollTimeoutMs;
           whenM nrm (ioHdlcRestartReplyTimer p IOHDLC_TIMER_T3 tmo);
           polling \<leftarrow> gets (\<lambda>s. \<not> IOHDLC_F_ISRCVED s);
           tmo \<leftarrow> gets (\<lambda>s. replyTimerTimeoutMs s (s_peers s p));
           whenM polling (ioHdlcRestartReplyTimer p IOHDLC_TIMER_REPLY tmo) })"

lemma like_ack: "keeps (like s p ws) (ack_tail p moved c)" "keeps (like s p ws) (ack_idle p c)"
  unfolding ack_tail_def ack_idle_def
  by (intro keeps like_small like_restart like_updP; simp add: pcore_def)+

lemma checkpoint_and_ack_exec:
  assumes "isNRValid s (s_peers s p) nr"
  defines "t \<equiv> exec (processNR p nr) s"
  shows "exec (handleCheckpointAndAck p nr pf c) s = (if \<not> pf then exec (ack_idle p c) t
    else if IOHDLC_IS_ABM t \<and> c then exec (ack_tail p False c) t
    else exec (ack_tail p (result (checkpointRetransmit p) t) c) (exec (checkpointRetransmit p) t))"
  using assms(1) unfolding t_def handleCheckpointAndAck_def ack_tail_def ack_idle_def
  by simp

lemma checkpoint_and_ack_sender:
  fixes pf c
  assumes i: "stable fr pl H s" and p: "p \<in> set pl" and nr: "unat nr < modulus fr"
  defines "t \<equiv> exec (handleCheckpointAndAck p nr pf c) s" and "g \<equiv> sender_of s p"
  shows "if g_offset (modulus fr) g (unat nr) \<le> length (g_flight g) + length (g_back g)
    then let g' = g_ack (modulus fr) (min (g_offset (modulus fr) g (unat nr)) (length (g_flight g))) g in
      sender_of t p = g' \<or> sender_of t p = g_goback g'
    else sender_of t p = g"
proof (cases "isNRValid s (s_peers s p) nr")
  case False
  then have "t = s" by (simp add: t_def handleCheckpointAndAck_def)
  then show ?thesis using False nr_offset(1) [OF i p nr] by (simp add: g_def)
next
  case True
  let ?u = "exec (processNR p nr) s"
  have "sender_of ?u p = g_ack (modulus fr) (acked fr (s_peers s p) nr) g" "stable fr pl H ?u"
    using processNR_loop_sender [OF i p nr order.refl] keepsD [OF processNR_keeps [OF p] i]
    by (simp_all add: processNR_def getP_def sender_stop_timer g_def)
  moreover from this(2) have "sender_of (exec (checkpointRetransmit p) ?u) p = sender_of ?u p
      \<or> sender_of (exec (checkpointRetransmit p) ?u) p = g_goback (sender_of ?u p)"
    using checkpoint_effect [OF _ p, of fr H ?u] by (auto simp: Let_def split: if_splits)
  ultimately have "sender_of t p = g_ack (modulus fr) (acked fr (s_peers s p) nr) g
      \<or> sender_of t p = g_goback (g_ack (modulus fr) (acked fr (s_peers s p) nr) g)"
    using checkpoint_and_ack_exec [OF True, of pf c] like_ack by (auto simp: t_def sender_keeps)
  then show ?thesis using True nr_offset [OF i p nr] by (simp add: g_def Let_def)
qed


section \<open>Fragments\<close>

lemma fragment_effect:
  assumes i: "stable fr pl H s" and p: "p \<in> set pl" and f: "fits s p" and d: "data \<noteq> []"
  shows "if fragment_done p data s = [] then sender_of (exec (write_fragment p data) s) p = sender_of s p
    else sender_of (exec (write_fragment p data) s) p = g_put (fragment_done p data s) (sender_of s p)"
proof (cases "\<exists>f k. result (write_take p (length data)) s = WFrame f k")
  case False
  then have nf: "\<forall>f k. result (write_take p (length data)) s \<noteq> WFrame f k" by simp
  then have "fragment_done p data s = []" "exec (write_fragment p data) s = exec (write_take p (length data)) s"
    by (auto simp: fragment_done_def write_fragment_def split: write_verdict.splits)
  with write_take_other(1) [OF nf] show ?thesis by simp
next
  case True
  then obtain f k where v: "result (write_take p (length data)) s = WFrame f k" by blast
  let ?t = "exec (write_fill p f (take k data)) (exec (write_take p (length data)) s)"
  note q = fragment_queued [OF i p f d v]
  have e: "exec (write_fragment p data) s = exec (write_enqueue p f) ?t" by (simp add: write_fragment_def v)
  from enqueue_effect [OF q(4) p] q(1-3,5,6) d show ?thesis unfolding e
    by (cases "result (write_enqueue p f) ?t") (simp_all add: fragment_done_def v Let_def)
qed

section \<open>Simulation\<close>

lemma refinesD:
  assumes "refines fr p r y L"
  shows "framing_ok fr" "l_reach (modulus fr) L" "a_ok fr p (pr_a y) L" "b_ok fr r (pr_b y) (pr_read y) L"
    "line_ok fr (pr_down y) (pr_up y) L" "concat (l_in L) = pr_written y" "[] \<notin> set (l_in L)"
  using assms by (simp_all add: refines_def)

lemma a_okE:
  assumes "a_ok fr p a L"
  obtains pl H where "p \<in> set pl" "stable fr pl H a" "sender_of a p = l_snd L"
  using assms by (auto simp: a_ok_def)

lemma b_okE:
  assumes "b_ok fr r b got L"
  obtains pl H where "r \<in> set pl" "stable fr pl H b" "all_readable b r" "unat (p_vr (s_peers b r)) = l_vr L"
    "concat (l_out L) = got @ stream_in b r"
  using assms by (auto simp: b_ok_def)

text \<open>The parts of the relation depend on the parts of the link.\<close>

lemma a_ok_cong: "l_snd L' = l_snd L \<Longrightarrow> a_ok fr p a L' = a_ok fr p a L"
  by (simp add: a_ok_def)

lemma b_ok_cong: "l_vr L' = l_vr L \<Longrightarrow> l_out L' = l_out L \<Longrightarrow> b_ok fr r b got L' = b_ok fr r b got L"
  by (simp add: b_ok_def)

lemma line_ok_cong: "l_down L' = l_down L \<Longrightarrow> l_up L' = l_up L \<Longrightarrow> line_ok fr down up L' = line_ok fr down up L"
  by (simp add: line_ok_def)

lemma l_next: "l_reach m L \<Longrightarrow> l_step m L L' \<Longrightarrow> L'' = L' \<Longrightarrow> l_reach m L''"
  by (auto intro: l_more)

lemma sim_write:
  assumes r: "refines fr p r y L" and f: "fits (pr_a y) p" "data \<noteq> []"
  shows "\<exists>L'. refines fr p r (y\<lparr>pr_a := exec (write_fragment p data) (pr_a y),
    pr_written := pr_written y @ fragment_done p data (pr_a y)\<rparr>) L'"
proof -
  note d = refinesD [OF r]
  from d(3) obtain pl H where a: "p \<in> set pl" "stable fr pl H (pr_a y)" "sender_of (pr_a y) p = l_snd L" by (rule a_okE)
  let ?x = "fragment_done p data (pr_a y)" and ?a = "exec (write_fragment p data) (pr_a y)"
  have st: "stable fr pl H ?a" by (rule write_fragment_keeps) (use a f in \<open>simp_all add: fits_def\<close>)
  note e = fragment_effect [OF a(2,1) f]
  show ?thesis
  proof (cases "?x = []")
    case True
    then have "a_ok fr p ?a L" using e st a by (auto simp: a_ok_def)
    then show ?thesis using True d by (intro exI [of _ L]) (simp add: refines_def)
  next
    case False
    let ?L = "L\<lparr>l_snd := g_put ?x (l_snd L), l_in := l_in L @ [?x]\<rparr>"
    have "a_ok fr p ?a ?L" using False e st a by (auto simp: a_ok_def)
    moreover have "l_reach (modulus fr) ?L" by (rule l_next [OF d(2) l_put]) simp
    ultimately show ?thesis using False d
      by (intro exI [of _ ?L]) (simp add: refines_def b_ok_cong [of ?L L] line_ok_cong [of ?L L])
  qed
qed

lemma wire_payload: "payload (s_framing s) (frame_of s f) = drop (IOHDLC_FRAME_INFO_pos (s_framing s)) (wire s f)"
  by (simp add: payload_def wire_def)

lemma extractNS_wire:
  assumes "framing_ok (s_framing s)" "IOHDLC_FRAME_INFO_pos (s_framing s) < length (wire s f)"
  shows "extractNS (s_framing s) (wire s f) = extractNS (s_framing s) (f_bytes (frame_of s f))"
  using assms(2) by (rule_tac framing_cases [OF assms(1)])
    (simp_all add: extractNS_def wire_def IOHDLC_FRAME_INFO_pos_def IOHDLC_FRAME_CTRL_def ctrl_pos_def byte_at_def)

lemma sim_send:
  assumes r: "refines fr p r y L" and m: "connTx_may_send (pr_a y) p" "\<not> has (cm OR s_cm_flags (pr_a y)) IOHDLC_EVT_LINK_DOWN"
  shows "\<exists>L'. refines fr p r (y\<lparr>pr_a := exec (connTx_round p cm) (pr_a y),
    pr_down := pr_down y @ drop (length (s_sent (pr_a y))) (s_sent (exec (connTx_round p cm) (pr_a y)))\<rparr>) L'"
proof -
  note d = refinesD [OF r]
  from d(3) obtain pl H where a: "p \<in> set pl" "stable fr pl H (pr_a y)" "sender_of (pr_a y) p = l_snd L" by (rule a_okE)
  let ?s = "pr_a y" and ?a = "exec (connTx_round p cm) (pr_a y)"
  let ?q = "s_peers ?s p" and ?g = "l_snd L"
  have fr: "s_framing ?s = fr" "s_framing ?a = fr"
    using invD(1) [OF a(2)] invD(1) [OF keepsD [OF connTx_round_keeps [OF a(1)] a(2)]] by simp_all
  have st: "stable fr pl H ?a" by (rule keepsD [OF connTx_round_keeps [OF a(1)] a(2)])
  from m(1) obtain f rest where t: "p_trans_q ?q = f # rest" "outstanding_of ?s ?q < p_ks ?q"
    by (cases "p_trans_q ?q") (auto simp: connTx_may_send_def Let_def)
  have w: "win_ok fr (fp_heap (s_pool ?s)) ?q" using invD(7) [OF a(2,1)] by simp
  note wf = win_ok_facts [OF w d(1)]
  have room: "Suc (length (g_flight ?g)) < modulus fr"
    using t(2) wf(1,7) sender_lengths(1) [OF a(2,1)] a(3) by (simp add: outstanding_of_def fr word_less_nat_alt)
  let ?x = "payload fr (frame_of ?s f)"
  obtain xs where x: "g_back ?g @ g_new ?g = ?x # xs"
    using a(3) [symmetric] by (simp add: sender_of_def Let_def t fr flip: map_append)
  from round_effect [OF a(2,1) m] have e: "sender_of ?a p = g_send ?g" "iframe_ok ?s p (frame_of ?a f)"
    "payload fr (frame_of ?a f) = ?x" "s_sent ?a = s_sent ?s \<or> s_sent ?a = s_sent ?s @ [wire ?a f]"
    using t a(3) by (simp_all add: Let_def)
  have "?x \<in> set (l_in L)"
  proof -
    from l_reach_prefix [OF d(2)] obtain gone where "l_in L = gone @ g_flight ?g @ g_back ?g @ g_new ?g"
      by (auto simp: modulus_def)
    then show ?thesis using x by (metis in_set_conv_decomp append.assoc)
  qed
  then have ne: "?x \<noteq> []" using d(7) by metis
  let ?w = "wire ?a f"
  have pw: "drop (IOHDLC_FRAME_INFO_pos fr) ?w = ?x" using wire_payload [of ?a f] e(3) by (simp add: fr)
  with ne have lw: "IOHDLC_FRAME_INFO_pos fr < length ?w" by (metis drop_all not_le)
  have "extractNS fr ?w = p_vs ?q" using extractNS_wire [of ?a f] lw d(1) e(2) by (simp add: fr iframe_ok_def Let_def)
  moreover have "unat (p_vs ?q) = (g_base ?g + length (g_flight ?g)) mod modulus fr"
  proof -
    obtain us ws where "unat (p_vs ?q) = (unat (p_nr ?q) + length (p_retrans_q ?q)) mod modulus fr"
      by (rule win_ok_parts [OF w d(1)])
    then show ?thesis using sender_lengths(1,3) [OF a(2,1)] a(3) by simp
  qed
  ultimately have dec: "decode fr ?w = ((g_base ?g + length (g_flight ?g)) mod modulus fr, ?x)"
    by (simp add: decode_def pw)
  let ?L = "L\<lparr>l_snd := g_send ?g, l_down := l_down L @ [((g_base ?g + length (g_flight ?g)) mod modulus fr, ?x)]\<rparr>"
  have r1: "l_reach (modulus fr) ?L" by (rule l_next [OF d(2) l_send [OF room x]]) simp
  have ao: "a_ok fr p ?a ?L" using e(1) st a(1) by (auto simp: a_ok_def)
  show ?thesis
  proof (cases "s_sent ?a = s_sent ?s")
    case True
    let ?K = "L\<lparr>l_snd := g_send ?g\<rparr>"
    have "l_reach (modulus fr) ?K" by (rule l_next [OF r1 l_lose [of ?L "l_down L" _ "[]"]]) simp_all
    then show ?thesis using True d ao
      by (intro exI [of _ ?K]) (simp add: refines_def a_ok_cong [of ?K ?L] b_ok_cong [of ?K L] line_ok_cong [of ?K L])
  next
    case False
    then have "drop (length (s_sent ?s)) (s_sent ?a) = [?w]" using e(4) by auto
    moreover have "b_ok fr r (pr_b y) (pr_read y) ?L" using d(4) b_ok_cong [of ?L L] by simp
    moreover have "line_ok fr (pr_down y @ [?w]) (pr_up y) ?L" using d(5) lw dec by (simp add: line_ok_def)
    ultimately show ?thesis using d(1,6,7) r1 ao by (intro exI [of _ ?L]) (simp add: refines_def)
  qed
qed


lemma sim_ack:
  assumes r: "refines fr p r y L" and u: "pr_up y = nr # ns"
  shows "\<exists>L'. refines fr p r (y\<lparr>pr_a := exec (handleCheckpointAndAck p nr pf c) (pr_a y), pr_up := ns\<rparr>) L'"
proof -
  note d = refinesD [OF r]
  from d(3) obtain pl H where a: "p \<in> set pl" "stable fr pl H (pr_a y)" "sender_of (pr_a y) p = l_snd L" by (rule a_okE)
  let ?a = "exec (handleCheckpointAndAck p nr pf c) (pr_a y)" and ?g = "l_snd L" and ?m = "modulus fr"
  let ?o = "g_offset ?m ?g (unat nr)" and ?K = "L\<lparr>l_up := map unat ns\<rparr>"
  have up: "l_up L = unat nr # map unat ns" "unat nr < ?m" using d(5) u by (simp_all add: line_ok_def)
  have st: "stable fr pl H ?a" by (rule keepsD [OF handleCheckpointAndAck_keeps [OF a(1)] a(2)])
  note e = checkpoint_and_ack_sender [OF a(2,1) up(2), of pf c, unfolded a(3)]
  have line: "line_ok fr (pr_down y) ns L'" if "l_down L' = l_down L" "l_up L' = map unat ns" for L'
    using d(5) u that by (simp add: line_ok_def)
  have "\<exists>L'. l_reach ?m L' \<and> l_snd L' = sender_of ?a p \<and> l_up L' = map unat ns \<and> l_down L' = l_down L
      \<and> l_vr L' = l_vr L \<and> l_in L' = l_in L \<and> l_out L' = l_out L"
  proof (cases "?o \<le> length (g_flight ?g) + length (g_back ?g)")
    case False
    have "l_reach ?m ?K" by (rule l_next [OF d(2) l_lose_up [of L "[]"]]) (simp_all add: up)
    then show ?thesis using e False by (intro exI [of _ ?K]) simp
  next
    case True
    let ?h = "g_ack ?m (min ?o (length (g_flight ?g))) ?g"
    let ?A = "L\<lparr>l_up := map unat ns, l_snd := ?h\<rparr>" and ?B = "L\<lparr>l_up := map unat ns, l_snd := g_goback ?h\<rparr>"
    have ra: "l_reach ?m ?A" by (rule l_next [OF d(2) l_ack [OF up(1) True]]) simp
    have rb: "l_reach ?m ?B" by (rule l_next [OF ra l_goback]) simp
    from e True have "sender_of ?a p = ?h \<or> sender_of ?a p = g_goback ?h" by (simp add: Let_def)
    then show ?thesis
    proof
      assume "sender_of ?a p = ?h"
      then show ?thesis using ra by (intro exI [of _ ?A]) simp
    next
      assume "sender_of ?a p = g_goback ?h"
      then show ?thesis using rb by (intro exI [of _ ?B]) simp
    qed
  qed
  then obtain L' where L: "l_reach ?m L'" "l_snd L' = sender_of ?a p" "l_up L' = map unat ns" "l_down L' = l_down L"
      "l_vr L' = l_vr L" "l_in L' = l_in L" "l_out L' = l_out L" by blast
  have "a_ok fr p ?a L'" using st a(1) L(2) by (auto simp: a_ok_def)
  moreover have "b_ok fr r (pr_b y) (pr_read y) L'" using d(4) b_ok_cong [OF L(5,7)] by simp
  ultimately show ?thesis using d(1,6,7) L line [OF L(4,3)] by (intro exI [of _ L']) (simp add: refines_def)
qed

lemma sim_sender:
  assumes r: "refines fr p r y L" and p: "p \<in> set pl" "stable fr pl H a"
    and s: "sender_of a p = sender_of (pr_a y) p \<or> sender_of a p = g_goback (sender_of (pr_a y) p)"
  shows "\<exists>L'. refines fr p r (y\<lparr>pr_a := a\<rparr>) L'"
proof -
  note d = refinesD [OF r]
  have a: "sender_of (pr_a y) p = l_snd L" using d(3) by (simp add: a_ok_def)
  let ?L = "L\<lparr>l_snd := g_goback (l_snd L)\<rparr>"
  have g: "l_reach (modulus fr) ?L" by (rule l_next [OF d(2) l_goback]) simp
  from s have "(\<exists>L'. l_reach (modulus fr) L' \<and> l_snd L' = sender_of a p \<and> l_up L' = l_up L \<and> l_down L' = l_down L
      \<and> l_vr L' = l_vr L \<and> l_in L' = l_in L \<and> l_out L' = l_out L)"
  proof
    assume "sender_of a p = sender_of (pr_a y) p"
    then show ?thesis using d(2) a by (intro exI [of _ L]) simp
  next
    assume "sender_of a p = g_goback (sender_of (pr_a y) p)"
    then show ?thesis using g a by (intro exI [of _ ?L]) simp
  qed
  then obtain L' where L: "l_reach (modulus fr) L'" "l_snd L' = sender_of a p" "l_up L' = l_up L" "l_down L' = l_down L"
      "l_vr L' = l_vr L" "l_in L' = l_in L" "l_out L' = l_out L" by blast
  have "a_ok fr p a L'" using p L(2) by (auto simp: a_ok_def)
  then show ?thesis using d L b_ok_cong [OF L(5,7)] line_ok_cong [OF L(4,3)]
    by (intro exI [of _ L']) (simp add: refines_def)
qed

lemma sim_rej:
  assumes "refines fr p r y L"
  shows "\<exists>L'. refines fr p r (y\<lparr>pr_a := exec (handleSFrame_rej p) (pr_a y)\<rparr>) L'"
proof -
  from refinesD(3) [OF assms] obtain pl H where a: "p \<in> set pl" "stable fr pl H (pr_a y)" by (rule a_okE)
  have "stable fr pl H (exec (handleSFrame_rej p) (pr_a y))" by (rule keepsD [OF handleSFrame_rej_keeps [OF a(1)] a(2)])
  moreover have "sender_of (exec (handleSFrame_rej p) (pr_a y)) p = sender_of (pr_a y) p
      \<or> sender_of (exec (handleSFrame_rej p) (pr_a y)) p = g_goback (sender_of (pr_a y) p)"
    using rej_effect [OF a(2,1)] by (auto simp: Let_def split: if_splits)
  ultimately show ?thesis by (rule sim_sender [OF assms a(1)])
qed

lemma sim_line:
  assumes r: "refines fr p r y L" and s: "l_step (modulus fr) L K"
    and k: "l_snd K = l_snd L" "l_vr K = l_vr L" "l_in K = l_in L" "l_out K = l_out L"
    and y: "pr_a y' = pr_a y" "pr_b y' = pr_b y" "pr_written y' = pr_written y" "pr_read y' = pr_read y"
    and l: "line_ok fr (pr_down y') (pr_up y') K"
  shows "\<exists>L'. refines fr p r y' L'"
proof -
  note d = refinesD [OF r]
  have "l_reach (modulus fr) K" by (rule l_next [OF d(2) s refl])
  then show ?thesis using d l k a_ok_cong [OF k(1)] b_ok_cong [OF k(2,4)]
    by (intro exI [of _ K]) (simp add: refines_def y)
qed

lemma sim_receive:
  assumes r: "refines fr p r y L" and dn: "pr_down y = w # ws" and q: "r \<in> set pl" "stable fr pl (f # H) (pr_b y)"
    and w: "wire (pr_b y) f = w" "unat (f_elen (frame_of (pr_b y) f)) = length w"
  shows "\<exists>L'. refines fr p r (y\<lparr>pr_b := exec (handleIFrame r f pf) (pr_b y), pr_down := ws\<rparr>) L'"
proof -
  note d = refinesD [OF r]
  have b: "all_readable (pr_b y) r" "unat (p_vr (s_peers (pr_b y) r)) = l_vr L"
    "concat (l_out L) = pr_read y @ stream_in (pr_b y) r" using d(4) by (simp_all add: b_ok_def)
  let ?b = "exec (handleIFrame r f pf) (pr_b y)" and ?acc = "fst (result (handleIFrame r f pf) (pr_b y))"
  have fr: "s_framing (pr_b y) = fr" by (rule invD(1) [OF q(2)])
  have lw: "IOHDLC_FRAME_INFO_pos fr < length w" and ld: "l_down L = decode fr w # map (decode fr) ws"
    and lws: "\<forall>w \<in> set ws. IOHDLC_FRAME_INFO_pos fr < length w"
    using d(5) dn by (simp_all add: line_ok_def)
  have ns: "extractNS fr (f_bytes (frame_of (pr_b y) f)) = extractNS fr w"
    using extractNS_wire [of "pr_b y" f] d(1) lw w(1) by (simp add: fr)
  have pay: "payload fr (frame_of (pr_b y) f) = drop (IOHDLC_FRAME_INFO_pos fr) w"
    using wire_payload [of "pr_b y" f] w(1) by (simp add: fr)
  have rd: "readable fr (frame_of (pr_b y) f) 0"
  proof -
    have "length w \<le> length (f_bytes (frame_of (pr_b y) f))" unfolding w(1) [symmetric] by (simp add: wire_def)
    then show ?thesis using lw w(2) by (simp add: readable_def)
  qed
  from iframe_effect [OF q(2,1), of pf] have e:
    "?acc \<longleftrightarrow> extractNS fr w = p_vr (s_peers (pr_b y) r)"
    "stream_in ?b r = stream_in (pr_b y) r @ (if ?acc then drop (IOHDLC_FRAME_INFO_pos fr) w else [])"
    "unat (p_vr (s_peers ?b r)) = (if ?acc then Suc (l_vr L) mod modulus fr else l_vr L)"
    "stable fr pl (if ?acc then H else f # H) ?b"
    unfolding Let_def ns pay b(2) by blast+
  have ar: "all_readable ?b r"
  proof (cases ?acc)
    case True
    then have "rx_like (pr_b y) r (p_recept_q (s_peers (pr_b y) r) @ [f]) ((p_vr (s_peers (pr_b y) r) + 1) AND modmask fr) ?b"
      using handleIFrame_effect(2) [where s = "pr_b y" and p = r and f = f and pf = pf] by (simp add: fr)
    from readable_rx_like [OF this b(1)] rd show ?thesis by (simp add: fr)
  next
    case False
    then have "rx_like (pr_b y) r (p_recept_q (s_peers (pr_b y) r) @ []) (p_vr (s_peers (pr_b y) r)) ?b"
      using handleIFrame_effect(2) [where s = "pr_b y" and p = r and f = f and pf = pf] by simp
    from readable_rx_like [OF this b(1)] show ?thesis by simp
  qed
  show ?thesis
  proof (cases ?acc)
    case True
    let ?x = "drop (IOHDLC_FRAME_INFO_pos fr) w"
    let ?L = "L\<lparr>l_down := map (decode fr) ws, l_vr := Suc (l_vr L) mod modulus fr, l_out := l_out L @ [?x]\<rparr>"
    have "decode fr w = (l_vr L, ?x)" using True e(1) b(2) by (simp add: decode_def)
    then have "l_reach (modulus fr) ?L" using ld by (intro l_next [OF d(2) l_accept]) simp_all
    moreover have "b_ok fr r ?b (pr_read y) ?L" using True e ar b(3) q(1) by (auto simp: b_ok_def)
    moreover have "line_ok fr ws (pr_up y) ?L" using d(5) lws by (simp add: line_ok_def)
    ultimately show ?thesis using d a_ok_cong [of ?L L] by (intro exI [of _ ?L]) (simp add: refines_def)
  next
    case False
    let ?L = "L\<lparr>l_down := map (decode fr) ws\<rparr>"
    have "l_reach (modulus fr) ?L" using ld by (intro l_next [OF d(2) l_lose [of L "[]"]]) simp_all
    moreover have "b_ok fr r ?b (pr_read y) ?L" using False e ar b(3) q(1) by (auto simp: b_ok_def)
    moreover have "line_ok fr ws (pr_up y) ?L" using d(5) lws by (simp add: line_ok_def)
    ultimately show ?thesis using d a_ok_cong [of ?L L] by (intro exI [of _ ?L]) (simp add: refines_def)
  qed
qed


lemma sim_reader:
  assumes r: "refines fr p r y L" and b: "r \<in> set pl" "stable fr pl H b" "all_readable b r"
    and v: "p_vr (s_peers b r) = p_vr (s_peers (pr_b y) r)" and s: "stream_in (pr_b y) r = bs @ stream_in b r"
  shows "\<exists>L'. refines fr p r (y\<lparr>pr_b := b, pr_read := pr_read y @ bs\<rparr>) L'"
proof -
  note d = refinesD [OF r]
  have "b_ok fr r b (pr_read y @ bs) L" using d(4) b v s by (auto simp: b_ok_def)
  then show ?thesis using d by (intro exI [of _ L]) (simp add: refines_def)
qed

lemma vr_read_round: "p_vr (s_peers (exec (read_round r tot room) b) r) = p_vr (s_peers b r)"
proof -
  have k: "keeps (\<lambda>t. p_vr (s_peers t r) = v) (updP p' g)" if "\<And>q. p_vr (g q) = p_vr q" for v p' g
    using that by (simp add: keeps_def updP_def)
  have c: "keeps (\<lambda>t. p_vr (s_peers t r) = v) (clear_rx_terminal r)" for v
    unfolding clear_rx_terminal_def by (intro k) simp
  have n: "keeps (\<lambda>t. p_vr (s_peers t r) = v) (read_next r tot)" for v
    unfolding keeps_def
  proof (intro allI impI)
    fix s :: station assume "p_vr (s_peers s r) = v"
    then show "p_vr (s_peers (exec (read_next r tot) s) r) = v"
      using read_next_cases [of r tot s] keepsD [OF c, of s v] by auto
  qed
  have rel: "keeps (\<lambda>t. p_vr (s_peers t r) = v) (hdlcReleaseFrame f)" for v f by (simp add: keeps_def)
  have as: "keeps (\<lambda>t. p_vr (s_peers t r) = v) (assertM x)" for v x by (simp add: keeps_def)
  have bc: "keeps (\<lambda>t. p_vr (s_peers t r) = v) (ioHdlcBroadcastFlags m)" for v m
    by (simp add: keeps_def ioHdlcBroadcastFlags_def)
  have cp: "keeps (\<lambda>t. p_vr (s_peers t r) = v) (read_copy r f room)" for v f
    unfolding read_copy_def Let_def by (intro keeps k rel as bc) simp_all
  have "keeps (\<lambda>t. p_vr (s_peers t r) = p_vr (s_peers b r)) (read_round r tot room)"
    unfolding read_round_def
    by (intro keeps n, rename_tac v, case_tac v) (auto intro!: keeps cp keeps_prod)
  then show ?thesis by (simp add: keeps_def)
qed

lemma sim_take:
  assumes r: "refines fr p r y L"
  shows "\<exists>L'. refines fr p r (y\<lparr>pr_b := exec (read_round r tot room) (pr_b y),
      pr_read := pr_read y @ (case result (read_round r tot room) (pr_b y) of RdData bs whole \<Rightarrow> bs | _ \<Rightarrow> [])\<rparr>) L'"
proof -
  from refinesD(4) [OF r] obtain pl H where b: "r \<in> set pl" "stable fr pl H (pr_b y)" "all_readable (pr_b y) r" by (rule b_okE)
  let ?b = "exec (read_round r tot room) (pr_b y)"
  have fo: "framing_ok (s_framing (pr_b y))" using invD(1,3) [OF b(2)] by simp
  have st: "stable fr pl H ?b" by (rule read_round_keeps [OF b(1,2) all_readable_next [OF b(3)]])
  note e = read_round_stream [OF fo b(3), of tot room]
  show ?thesis
    by (rule sim_reader [OF r b(1) st _ vr_read_round])
      (use e in \<open>auto simp: Let_def split: read_result.splits option.splits\<close>)
qed

lemma step_refines:
  assumes "pair_step fr p r y y'" "refines fr p r y L"
  shows "\<exists>L'. refines fr p r y' L'"
  using assms
proof (induction rule: pair_step.induct)
  case (pr_write y data)
  then show ?case by (intro sim_write)
next
  case (pr_send y cm)
  then show ?case by (intro sim_send)
next
  case (pr_ack y nr ns pf c)
  then show ?case by (intro sim_ack)
next
  case (pr_rej y)
  then show ?case by (rule sim_rej)
next
  case (pr_other_a pl H a y)
  then show ?case by (intro sim_sender) simp_all
next
  case (pr_lose y us w ws)
  note d = refinesD(5) [OF pr_lose(2)]
  then have "l_down L = map (decode fr) us @ decode fr w # map (decode fr) ws" using pr_lose(1) by (simp add: line_ok_def)
  from sim_line [OF pr_lose(2) l_lose [OF this]] d pr_lose(1) show ?case by (simp add: line_ok_def)
next
  case (pr_receive y w ws pl f H pf)
  then show ?case by (intro sim_receive)
next
  case (pr_respond y)
  note d = refinesD [OF pr_respond]
  from d(4) obtain pl H where b: "r \<in> set pl" "stable fr pl H (pr_b y)" "unat (p_vr (s_peers (pr_b y) r)) = l_vr L" by (rule b_okE)
  have v: "unat (p_vr (s_peers (pr_b y) r)) < modulus fr" using invD(7) [OF b(2,1)] by (auto simp: win_ok_def)
  have "line_ok fr (pr_down y) (pr_up y @ [p_vr (s_peers (pr_b y) r)]) (L\<lparr>l_up := l_up L @ [l_vr L]\<rparr>)"
    using d(5) b(3) v by (auto simp: line_ok_def)
  with sim_line [OF pr_respond l_respond] show ?case by simp
next
  case (pr_lose_up y us n ns)
  note d = refinesD(5) [OF pr_lose_up(2)]
  then have "l_up L = map unat us @ unat n # map unat ns" using pr_lose_up(1) by (simp add: line_ok_def)
  from sim_line [OF pr_lose_up(2) l_lose_up [OF this]] d pr_lose_up(1) show ?case by (simp add: line_ok_def)
next
  case (pr_take y tot room)
  then show ?case by (rule sim_take)
next
  case (pr_other_b pl H b y)
  from sim_reader [OF pr_other_b(6,1-3,5), of "[]"] pr_other_b(4) show ?case by simp
qed

lemma pair_reach_refines: "pair_reach fr p r y \<Longrightarrow> \<exists>L. refines fr p r y L"
proof (induction rule: pair_reach.induct)
  case (pr_start a b)
  let ?L = l_init
  have "framing_ok fr" using pr_start invD(3) unfolding fresh_pair_def by blast
  then have "refines fr p r \<lparr>pr_a = a, pr_b = b, pr_down = [], pr_up = [], pr_written = [], pr_read = []\<rparr> ?L"
    using pr_start by (auto simp: refines_def a_ok_def b_ok_def line_ok_def fresh_pair_def l_init_def intro: l_start [unfolded l_init_def])
  then show ?case ..
qed (use step_refines in blast)

text \<open>C3: Whatever the line loses, however often the sender goes back, and in whatever order the
  threads of the two stations run, the octets read at one end, followed by those received and not
  yet read, are a prefix of the octets written at the other end: none lost, repeated, altered or
  reordered. And what the sender has released was received.\<close>
theorem stream_delivered_in_order:
  assumes "pair_reach fr p r y"
  shows "\<exists>rest. pr_written y = pr_read y @ stream_in (pr_b y) r @ rest
    \<and> (let g = sender_of (pr_a y) p in
         length rest \<le> length (concat (g_flight g @ g_back g @ g_new g)))"
proof -
  from pair_reach_refines [OF assms] obtain L where "refines fr p r y L" by blast
  note d = refinesD [OF this]
  have m: "0 < modulus fr" by (simp add: modulus_def)
  from l_reach_prefix [OF d(2) m] obtain gone kept where k: "l_in L = l_out L @ kept"
    "l_in L = gone @ g_flight (l_snd L) @ g_back (l_snd L) @ g_new (l_snd L)" "length gone \<le> length (l_out L)" by blast
  have w: "pr_written y = pr_read y @ stream_in (pr_b y) r @ concat kept"
    using d(4,6) k(1) by (auto simp: b_ok_def)
  let ?g = "l_snd L"
  have "kept = drop (length (l_out L) - length gone) (g_flight ?g @ g_back ?g @ g_new ?g)"
    using arg_cong [OF k(2), of "drop (length (l_out L))"] k(1,3) by simp
  then obtain us where "g_flight ?g @ g_back ?g @ g_new ?g = us @ kept" by (metis append_take_drop_id)
  then have "length (concat kept) \<le> length (concat (g_flight ?g @ g_back ?g @ g_new ?g))" by simp
  moreover have "sender_of (pr_a y) p = ?g" using d(3) by (simp add: a_ok_def)
  ultimately show ?thesis using w by (intro exI [of _ "concat kept"]) (simp add: Let_def)
qed

section \<open>A fragment on its way\<close>

definition pair_a1 :: station where "pair_a1 = exec (write_fragment 0 [65, 66, 67]) (sy_st connected)"

definition pair_a2 :: station where "pair_a2 = exec (connTx_round 0 0) pair_a1"

definition pair_b1 :: station where
  "pair_b1 = exec (updF 11 (\<lambda>fm. fm\<lparr>f_bytes := take (length (f_bytes fm)) ([0, 2, 0x10, 65, 66, 67] @ drop 6 (f_bytes fm)), f_elen := 6\<rparr>))
     (exec hdlcTakeFrame (sy_st connected))"

lemmas pair_eval = sample_defs connected_defs exe getP_def

lemma pair_a1_facts: "fragment_done 0 [65, 66, 67] (sy_st connected) = [65, 66, 67]" "connTx_may_send pair_a1 0"
    "\<not> has (0 OR s_cm_flags pair_a1) IOHDLC_EVT_LINK_DOWN" "s_sent pair_a1 = [[0, 2, 0x93]]"
  by (simp_all add: pair_a1_def fragment_done_def pair_eval cong: in_order)

lemma pair_a2_sent: "s_sent pair_a2 = [[0, 2, 0x93], [0, 2, 0x10, 65, 66, 67]]"
  by (simp add: pair_a2_def pair_a1_def pair_eval cong: in_order)

lemma pair_b1_facts: "wire pair_b1 11 = [0, 2, 0x10, 65, 66, 67]" "unat (f_elen (frame_of pair_b1 11)) = 6"
    "stream_in pair_b1 0 = []" "all_readable pair_b1 0" "p_vr (s_peers pair_b1 0) = 0"
  by (simp_all add: pair_b1_def wire_def stream_in_def all_readable_def pair_eval cong: in_order)

lemma pair_read: "result (read_round 0 0 10) (exec (handleIFrame 0 11 True) pair_b1) = RdData [65, 66, 67] True"
  by (simp add: pair_b1_def pair_eval cong: in_order)

lemma pair_b1_stable: "stable \<lparr>modmask = 7, pfoctet = 0, ctrl_size = 1, frame_offset = 1\<rparr> [0] [11] pair_b1"
proof -
  have "result hdlcTakeFrame (sy_st connected) = Some 11" by (simp add: pair_eval cong: in_order)
  with take_sinv [OF connected_stable] show ?thesis unfolding pair_b1_def by (intro keepsD [OF keeps_updF]) simp_all
qed

lemma connected_fresh: "fresh_pair \<lparr>modmask = 7, pfoctet = 0, ctrl_size = 1, frame_offset = 1\<rparr> 0 0 (sy_st connected) (sy_st connected)"
proof -
  have "sender_of (sy_st connected) 0 = \<lparr>g_base = 0, g_flight = [], g_back = [], g_new = []\<rparr>"
    "p_vr (s_peers (sy_st connected) 0) = 0" "stream_in (sy_st connected) 0 = []" "all_readable (sy_st connected) 0"
    by (simp_all add: sender_of_def sent_again_def stream_in_def all_readable_def connected_eval)
  then show ?thesis unfolding fresh_pair_def using connected_stable by (metis list.set_intros(1))
qed

lemma pair_run:
  defines "fr \<equiv> \<lparr>modmask = 7, pfoctet = 0, ctrl_size = 1, frame_offset = 1\<rparr>"
  shows "\<exists>b. pair_reach fr 0 0 \<lparr>pr_a = pair_a2, pr_b = b, pr_down = [], pr_up = [], pr_written = [65, 66, 67], pr_read = [65, 66, 67]\<rparr>"
proof -
  let ?c = "sy_st connected" and ?w = "[0, 2, 0x10, 65, 66, 67] :: u8 list"
  have "pair_reach fr 0 0 \<lparr>pr_a = ?c, pr_b = ?c, pr_down = [], pr_up = [], pr_written = [], pr_read = []\<rparr>"
    unfolding fr_def by (rule pr_start [OF connected_fresh])
  from pr_more [OF this pr_write [of _ 0 "[65, 66, 67]"]]
  have "pair_reach fr 0 0 \<lparr>pr_a = pair_a1, pr_b = ?c, pr_down = [], pr_up = [], pr_written = [65, 66, 67], pr_read = []\<rparr>"
    using connected_fits pair_a1_facts(1) by (simp add: pair_a1_def)
  from pr_more [OF this pr_send [of _ 0 0]]
  have "pair_reach fr 0 0 \<lparr>pr_a = pair_a2, pr_b = ?c, pr_down = [?w], pr_up = [], pr_written = [65, 66, 67], pr_read = []\<rparr>"
    using pair_a1_facts(2-4) pair_a2_sent by (simp add: pair_a2_def)
  from pr_more [OF this pr_other_b [of 0 "[0]" fr "[11]" pair_b1]]
  have "pair_reach fr 0 0 \<lparr>pr_a = pair_a2, pr_b = pair_b1, pr_down = [?w], pr_up = [], pr_written = [65, 66, 67], pr_read = []\<rparr>"
    using pair_b1_facts pair_b1_stable by (simp add: fr_def stream_in_def connected_eval)
  from pr_more [OF this pr_receive [of _ ?w "[]" 0 "[0]" fr 11 "[]" 0 True]]
  have "pair_reach fr 0 0 \<lparr>pr_a = pair_a2, pr_b = exec (handleIFrame 0 11 True) pair_b1, pr_down = [], pr_up = [],
      pr_written = [65, 66, 67], pr_read = []\<rparr>"
    using pair_b1_facts(1,2) pair_b1_stable by (simp add: fr_def)
  from pr_more [OF this pr_take [of _ 0 _ _ 0 10]] show ?thesis using pair_read by auto
qed

theorem stream_delivered_in_order_witness:
  "\<exists>y :: pair. pr_written y = [65, 66, 67] \<and> pr_read y = [65, 66, 67] \<and> stream_in (pr_b y) 0 = []"
proof -
  obtain b where b: "pair_reach \<lparr>modmask = 7, pfoctet = 0, ctrl_size = 1, frame_offset = 1\<rparr> 0 0
      \<lparr>pr_a = pair_a2, pr_b = b, pr_down = [], pr_up = [], pr_written = [65, 66, 67], pr_read = [65, 66, 67]\<rparr>"
    using pair_run by blast
  have "stream_in b 0 = []" using stream_delivered_in_order [OF b] by simp
  then show ?thesis by (intro exI [of _ "\<lparr>pr_a = pair_a2, pr_b = b, pr_down = [], pr_up = [], pr_written = [65, 66, 67],
    pr_read = [65, 66, 67]\<rparr>"]) simp
qed

theorem iframe_in_sequence_delivered_witness:
  "stream_in (exec (handleIFrame 0 11 True) pair_b1) 0 = [65, 66, 67]"
proof -
  let ?fr = "\<lparr>modmask = 7, pfoctet = 0, ctrl_size = 1, frame_offset = 1\<rparr> :: framing"
  have fr: "s_framing pair_b1 = ?fr" by (rule invD(1) [OF pair_b1_stable])
  have "extractNS ?fr (f_bytes (frame_of pair_b1 11)) = p_vr (s_peers pair_b1 0)" "payload ?fr (frame_of pair_b1 11) = [65, 66, 67]"
    by (simp_all add: pair_b1_def payload_def pair_eval cong: in_order)
  with iframe_in_sequence_delivered [OF pair_b1_stable, of 0 True] pair_b1_facts(3) show ?thesis by (simp add: Let_def)
qed

end
