(* ===== verification/Hdlc_Entry.thy ===== *)
theory Hdlc_Entry
  imports Hdlc_Stream
begin

text \<open>
  The byte stream calls of \<open>src/ioHdlc.c\<close> as a whole: \<open>ioHdlcWriteVTmo\<close>, \<open>ioHdlcWriteTmo\<close>,
  \<open>ioHdlcReadVTmo\<close> and \<open>ioHdlcReadTmo\<close>, with the validation of their arguments and the gate that
  serialises the calls on a peer, around the loops of \<open>Hdlc_Api\<close>. The argument \<open>gate\<close> tells
  whether the gate was free before the timeout; the calls run without other threads, so that a
  wait ends with the timeout.
\<close>

section \<open>Arguments\<close>

definition iov_array :: "const_iovec list option \<Rightarrow> nat \<Rightarrow> const_iovec list" where
  "iov_array iov iovcnt = (case iov of None \<Rightarrow> [] | Some vs \<Rightarrow> take iovcnt vs)"

definition iov_octets :: "const_iovec list \<Rightarrow> u8 list" where
  "iov_octets vs = concat (map (\<lambda>v. case iov_base v of None \<Rightarrow> [] | Some b \<Rightarrow> take (iov_len v) b) vs)"

text \<open>The checks at the entry of both vector calls: the total length, or an error.\<close>

definition iov_entry :: "nat option \<Rightarrow> const_iovec list option \<Rightarrow> nat \<Rightarrow> errno + nat \<times> nat" where
  "iov_entry peer iov iovcnt =
     (case peer of
        None \<Rightarrow> Inl EINVAL
      | Some p \<Rightarrow>
          (if iov = None \<and> iovcnt \<noteq> 0 then Inl EINVAL
           else (case iov_total_from 0 (iov_array iov iovcnt) of Inl e \<Rightarrow> Inl e | Inr len \<Rightarrow> Inr (p, len))))"

section \<open>The calls\<close>

definition ioHdlcWriteVTmo :: "bool \<Rightarrow> nat option \<Rightarrow> const_iovec list option \<Rightarrow> nat \<Rightarrow> nat api" where
  "ioHdlcWriteVTmo gate peer iov iovcnt =
     (case iov_entry peer iov iovcnt of
        Inl e \<Rightarrow> failE e
      | Inr (p, len) \<Rightarrow>
          (if len = 0 then okE 0
           else if \<not> gate then failE ETIMEDOUT
           else bindE (write_admit p)
             (\<lambda>_. write_loop (len + 1) p len False (iov_octets (iov_array iov iovcnt)))))"

definition ioHdlcWriteTmo :: "bool \<Rightarrow> nat option \<Rightarrow> u8 list option \<Rightarrow> nat \<Rightarrow> nat api" where
  "ioHdlcWriteTmo gate peer buf n =
     (if peer = None \<or> buf = None \<or> n = 0 then failE EINVAL
      else ioHdlcWriteVTmo gate peer (Some [\<lparr>iov_base = buf, iov_len = n\<rparr>]) 1)"

text \<open>The octets a read returns, in the order in which they fill the vectors.\<close>

definition ioHdlcReadVTmo :: "bool \<Rightarrow> nat option \<Rightarrow> const_iovec list option \<Rightarrow> nat \<Rightarrow> u8 list api" where
  "ioHdlcReadVTmo gate peer iov iovcnt =
     (case iov_entry peer iov iovcnt of
        Inl e \<Rightarrow> failE e
      | Inr (p, len) \<Rightarrow>
          (if len = 0 then okE []
           else if \<not> gate then failE ETIMEDOUT
           else do {
             read_begin p;
             n \<leftarrow> gets (\<lambda>s. frames_in s p);
             read_loop (n + 1) p len [] }))"

definition ioHdlcReadTmo :: "bool \<Rightarrow> nat option \<Rightarrow> u8 list option \<Rightarrow> nat \<Rightarrow> u8 list api" where
  "ioHdlcReadTmo gate peer buf n =
     (if peer = None then failE EINVAL
      else if n = 0 then okE []
      else if buf = None then failE EINVAL
      else ioHdlcReadVTmo gate peer (Some [\<lparr>iov_base = buf, iov_len = n\<rparr>]) 1)"

section \<open>Validation\<close>

definition iov_sum :: "const_iovec list \<Rightarrow> nat" where
  "iov_sum vs = sum_list (map iov_len vs)"

definition iov_bad :: "const_iovec list \<Rightarrow> bool" where
  "iov_bad vs \<longleftrightarrow> (\<exists>v \<in> set vs. iov_base v = None \<and> iov_len v \<noteq> 0) \<or> IOHDLC_SSIZE_MAX < iov_sum vs"

lemma iov_total_spec:
  "t \<le> IOHDLC_SSIZE_MAX \<Longrightarrow> iov_total_from t vs =
     (if (\<exists>v \<in> set vs. iov_base v = None \<and> iov_len v \<noteq> 0) \<or> IOHDLC_SSIZE_MAX < t + iov_sum vs
      then Inl EINVAL else Inr (t + iov_sum vs))"
  by (induction vs arbitrary: t) (auto simp: iov_sum_def)

lemma iov_entry_spec:
  "iov_entry (Some p) iov n = (if iov = None \<and> n \<noteq> 0 \<or> iov_bad (iov_array iov n) then Inl EINVAL
     else Inr (p, iov_sum (iov_array iov n)))"
  by (simp add: iov_entry_def iov_total_spec iov_bad_def)

text \<open>The buffers are as long as the caller says.\<close>

definition iov_wf :: "const_iovec list \<Rightarrow> bool" where
  "iov_wf vs \<longleftrightarrow> (\<forall>v \<in> set vs. \<forall>b. iov_base v = Some b \<longrightarrow> iov_len v \<le> length b)"

lemma iov_octets_length: "iov_wf vs \<Longrightarrow> \<not> iov_bad vs \<Longrightarrow> length (iov_octets vs) = iov_sum vs"
  by (induction vs) (auto simp: iov_octets_def iov_sum_def iov_bad_def iov_wf_def split: option.split)

section \<open>Writing\<close>

lemma admit_effect:
  assumes "stable fr pl H s" "\<not> IOHDLC_PEER_DISC (s_peers s p)" "\<not> tx_reset_pending (s_peers s p)"
  shows "result (write_admit p) s = Inr ()" "stable fr pl H (exec (write_admit p) s)"
    "sender_of (exec (write_admit p) s) p = sender_of s p" "fits (exec (write_admit p) s) p = fits s p"
    "s_pool (exec (write_admit p) s) = s_pool s"
    "p_mifls (s_peers (exec (write_admit p) s) p) = p_mifls (s_peers s p)"
proof -
  have e: "exec (write_admit p) s = upd_peer p (\<lambda>q. q\<lparr>p_ss_state := p_ss_state q OR IOHDLC_SS_SENDING\<rparr>) s"
    using assms(2,3) by (simp add: write_admit_def getP_def assertM_def ss_set_def updP_def)
  show "result (write_admit p) s = Inr ()" using assms(2,3) by (simp add: write_admit_def getP_def)
  show "stable fr pl H (exec (write_admit p) s)" using keepsD [OF write_admit_keeps, of fr pl H s p] assms(1,3) by blast
  show "sender_of (exec (write_admit p) s) p = sender_of s p" unfolding e by (rule sender_updP) (simp add: pcore_def)
  show "fits (exec (write_admit p) s) p = fits s p" unfolding e by (rule fits_cong) simp_all
  show "s_pool (exec (write_admit p) s) = s_pool s" "p_mifls (s_peers (exec (write_admit p) s) p) = p_mifls (s_peers s p)"
    unfolding e by simp_all
qed



section \<open>Reading\<close>

lemma begin_effect:
  "stable fr pl H s \<Longrightarrow> stable fr pl H (exec (read_begin p) s)"
  "stream_in (exec (read_begin p) s) p = stream_in s p" "all_readable (exec (read_begin p) s) p = all_readable s p"
  "frames_in (exec (read_begin p) s) p = frames_in s p"
  using keepsD [OF read_begin_done_keeps(1)]
  by (simp_all add: read_begin_def ss_set_def updP_def stream_in_def all_readable_def frames_in_def Let_def split: option.split)



section \<open>Single buffers\<close>

lemma write_tmo_call:
  "ioHdlcWriteTmo gate (Some p) (Some buf) (Suc k) = ioHdlcWriteVTmo gate (Some p) (Some [\<lparr>iov_base = Some buf, iov_len = Suc k\<rparr>]) 1"
  "result (ioHdlcWriteTmo gate peer None n) s = Inl EINVAL" "result (ioHdlcWriteTmo gate peer (Some buf) 0) s = Inl EINVAL"
  by (simp_all add: ioHdlcWriteTmo_def)

lemma read_tmo_call:
  "ioHdlcReadTmo gate (Some p) (Some buf) (Suc k) = ioHdlcReadVTmo gate (Some p) (Some [\<lparr>iov_base = Some buf, iov_len = Suc k\<rparr>]) 1"
  "result (ioHdlcReadTmo gate (Some p) b 0) s = Inr []" "result (ioHdlcReadTmo gate None b n) s = Inl EINVAL"
  by (simp_all add: ioHdlcReadTmo_def)

end
