(* ===== verification/Hdlc_Driver.thy ===== *)
theory Hdlc_Driver
  imports Hdlc_Init Hdlc_LowLevel
begin

text \<open>
  The software framed driver (\<open>src/ioHdlcswdriver.c\<close>, \<open>include/ioHdlcswdriver.h\<close>): FCS policy,
  transmit plan and contiguous wire image, the transmit pipeline over a stream port, the octet
  machine of the receiver and the delivery of checked frames. The stream port is an environment:
  the answers of \<open>tx_busy\<close> and \<open>tx_submit_frame\<close> are taken from two scripts, and the receive
  transfer that is armed is part of the state. A failed assertion, a reference error and a store
  outside a buffer set the fault flag; the assertion on the length of a receive transfer has a flag
  of its own.
\<close>

section \<open>Frame check sequence\<close>

datatype fcs_check_fn = CheckNone | CheckSw | CheckBackend

datatype fcs_compute_fn = ComputeNone | ComputeSw | ComputeBackend

record fcs_hooks =
  fh_sizes :: "u8 list"
  fh_default :: u8
  fh_check :: "(u8 \<Rightarrow> u8 list \<Rightarrow> bool) option"
  fh_compute :: "(u8 \<Rightarrow> u8 list list \<Rightarrow> u8 list) option"

record fcs_policy =
  pol_check :: fcs_check_fn
  pol_compute :: fcs_compute_fn
  pol_defer :: bool

definition s_backend_fcs_supported :: "fcs_hooks option \<Rightarrow> u8 \<Rightarrow> bool" where
  "s_backend_fcs_supported backend fcs_size =
     (case backend of None \<Rightarrow> False | Some h \<Rightarrow> s_fcs_size_supported (fh_sizes h) fcs_size)"

definition s_port_tx_fcs_offload_supported :: "u8 list \<Rightarrow> u8 \<Rightarrow> bool" where
  "s_port_tx_fcs_offload_supported offload fcs_size = s_fcs_size_supported offload fcs_size"

definition s_resolve_fcs_policy :: "fcs_hooks option \<Rightarrow> u8 list \<Rightarrow> bool \<Rightarrow> driver_config \<Rightarrow> fcs_policy" where
  "s_resolve_fcs_policy backend offload materialize cfg =
     (let sz = dc_fcs_size cfg;
          backend_check = (case backend of None \<Rightarrow> False
            | Some h \<Rightarrow> fh_check h \<noteq> None \<and> s_backend_fcs_supported backend sz);
          backend_compute = (case backend of None \<Rightarrow> False
            | Some h \<Rightarrow> fh_compute h \<noteq> None \<and> s_backend_fcs_supported backend sz)
      in if sz = 0 then \<lparr>pol_check = CheckNone, pol_compute = ComputeNone, pol_defer = False\<rparr>
         else \<lparr>pol_check = if backend_check then CheckBackend else CheckSw,
               pol_compute = if backend_compute then ComputeBackend else ComputeSw,
               pol_defer = \<not> dc_apply_transparency cfg \<and> \<not> materialize
                 \<and> s_port_tx_fcs_offload_supported offload sz\<rparr>)"

definition s_fcs_check_sw :: "u8 \<Rightarrow> u8 list \<Rightarrow> bool option" where
  "s_fcs_check_sw fcs_size buf = (if fcs_size = 2 then Some (updateFCS 0xFFFF buf = 0xf0b8) else None)"

definition s_fcs_check_backend :: "fcs_hooks option \<Rightarrow> u8 \<Rightarrow> u8 list \<Rightarrow> bool option" where
  "s_fcs_check_backend backend fcs_size buf =
     (case backend of None \<Rightarrow> None
      | Some h \<Rightarrow> (case fh_check h of None \<Rightarrow> None | Some c \<Rightarrow> Some (c fcs_size buf)))"

definition rx_check_fn :: "fcs_policy \<Rightarrow> fcs_hooks option \<Rightarrow> u8 \<Rightarrow> u8 list \<Rightarrow> bool option" where
  "rx_check_fn pol backend fcs_size buf =
     (case pol_check pol of
        CheckNone \<Rightarrow> Some True
      | CheckSw \<Rightarrow> s_fcs_check_sw fcs_size buf
      | CheckBackend \<Rightarrow> s_fcs_check_backend backend fcs_size buf)"

definition s_fcs_compute_sw :: "u8 \<Rightarrow> u8 list list \<Rightarrow> u8 list option" where
  "s_fcs_compute_sw fcs_size segv =
     (if fcs_size = 2
      then Some (fcs_octets (ioHdlcFcsFinalize
        (foldl (\<lambda>crc seg. if 0 < length seg then updateFCS crc seg else crc) 0xFFFF segv)))
      else None)"

definition s_fcs_compute_backend :: "fcs_hooks option \<Rightarrow> u8 \<Rightarrow> u8 list list \<Rightarrow> u8 list option" where
  "s_fcs_compute_backend backend fcs_size segv =
     (case backend of None \<Rightarrow> None
      | Some h \<Rightarrow> (case fh_compute h of None \<Rightarrow> None | Some c \<Rightarrow> Some (c fcs_size segv)))"

definition tx_compute_fn :: "fcs_policy \<Rightarrow> fcs_hooks option \<Rightarrow> u8 \<Rightarrow> u8 list list \<Rightarrow> u8 list option" where
  "tx_compute_fn pol backend fcs_size segv =
     (case pol_compute pol of
        ComputeNone \<Rightarrow> Some []
      | ComputeSw \<Rightarrow> s_fcs_compute_sw fcs_size segv
      | ComputeBackend \<Rightarrow> s_fcs_compute_backend backend fcs_size segv)"

section \<open>Frame format field\<close>

definition s_emit_fff :: "driver_config \<Rightarrow> u64 \<Rightarrow> errno + u8 list" where
  "s_emit_fff cfg payload_len =
     (let total = (ucast (payload_len + ucast (dc_frame_format_size cfg) + ucast (dc_fcs_size cfg)) :: u16) in
      if dc_frame_format_size cfg = 1 then
        (if total AND 0xFF80 \<noteq> 0 then Inl EMSGSIZE else Inr [ucast total])
      else if dc_frame_format_size cfg = 2 then
        (if total AND 0xF000 \<noteq> 0 then Inl EMSGSIZE
         else Inr [ucast (0x80 OR (drop_bit 8 total AND 0x0F)), ucast (total AND 0xFF)])
      else Inr [])"

section \<open>Transmit plan\<close>

definition IOHDLC_TXPLAN_MAX_SEGS :: nat where "IOHDLC_TXPLAN_MAX_SEGS = 3"
definition IOHDLC_TXPLAN_PREFIX_MAX :: nat where "IOHDLC_TXPLAN_PREFIX_MAX = 16"
definition IOHDLC_TXPLAN_SUFFIX_MAX :: nat where "IOHDLC_TXPLAN_SUFFIX_MAX = 8"
definition IOHDLC_TXPLAN_SEG_NONE :: nat where "IOHDLC_TXPLAN_SEG_NONE = 0xFF"

record fcs_desc =
  fd_size :: nat
  fd_begin_off :: nat
  fd_end_exclusive :: nat
  fd_begin_seg :: nat
  fd_end_seg :: nat
  fd_emitted :: bool

record tx_plan =
  pl_prefix :: "u8 list"
  pl_suffix :: "u8 list"
  pl_segv :: "u8 list list"
  pl_fcs :: fcs_desc
  pl_wire_len :: nat

text \<open>What the driver knows when it builds a plan.\<close>

record framer =
  fr_cfg :: driver_config
  fr_backend :: "fcs_hooks option"
  fr_policy :: fcs_policy

text \<open>The FCS of a plan: the octets, if any are emitted, and the description of what it covers.\<close>

definition plan_fcs :: "framer \<Rightarrow> nat \<Rightarrow> u8 list \<Rightarrow> u8 list \<Rightarrow> (u8 list \<times> fcs_desc) option" where
  "plan_fcs F cov_off prefix body =
     (let sz = dc_fcs_size (fr_cfg F);
          cov = drop cov_off prefix;
          segv = (if cov \<noteq> [] then [cov] else []) @ (if body \<noteq> [] then [body] else []);
          prefix_seg = (if prefix \<noteq> [] then 0 else IOHDLC_TXPLAN_SEG_NONE);
          body_seg = (if body \<noteq> [] then (if prefix \<noteq> [] then 1 else 0) else IOHDLC_TXPLAN_SEG_NONE);
          desc = \<lparr>fd_size = unat sz, fd_begin_off = if cov \<noteq> [] then cov_off else 0,
            fd_end_exclusive = if body \<noteq> [] then length body else if cov \<noteq> [] then length prefix else length body,
            fd_begin_seg = if cov \<noteq> [] then prefix_seg else body_seg,
            fd_end_seg = if body \<noteq> [] then body_seg else if cov \<noteq> [] then prefix_seg else IOHDLC_TXPLAN_SEG_NONE,
            fd_emitted = False\<rparr>
      in if sz = 0 then
           Some ([], \<lparr>fd_size = 0, fd_begin_off = 0, fd_end_exclusive = 0, fd_begin_seg = IOHDLC_TXPLAN_SEG_NONE,
             fd_end_seg = IOHDLC_TXPLAN_SEG_NONE, fd_emitted = False\<rparr>)
         else if pol_defer (fr_policy F) then Some ([], desc)
         else if segv = [] \<or> IOHDLC_TXPLAN_SUFFIX_MAX < unat sz then None
         else (case tx_compute_fn (fr_policy F) (fr_backend F) sz segv of
                 None \<Rightarrow> None
               | Some fcs \<Rightarrow> Some (fcs, desc\<lparr>fd_emitted := True\<rparr>)))"

definition s_build_tx_plan :: "framer \<Rightarrow> frame \<Rightarrow> bool \<Rightarrow> (errno + tx_plan) option" where
  "s_build_tx_plan F fm prepend_opening_flag =
     (let cfg = fr_cfg F; fff = unat (dc_frame_format_size cfg); ctrl_len = unat (f_tx_ctrl_len fm);
          opening = (if prepend_opening_flag then [IOHDLC_FLAG] else []);
          info_off = fff + 1 + ctrl_len in
      if dc_apply_transparency cfg then Some (Inl ENOTSUP)
      else if ctrl_len = 0 then None
      else if 2 < ctrl_len then Some (Inl ENOTSUP)
      else if unat (f_elen fm) < info_off then None
      else
        (let body = drop info_off (take (unat (f_elen fm)) (f_bytes fm)) in
         case (if fff \<noteq> 0 then s_emit_fff cfg (word_of_nat (1 + ctrl_len + (unat (f_elen fm) - info_off))) else Inr []) of
           Inl e \<Rightarrow> Some (Inl e)
         | Inr fff_octets \<Rightarrow>
             (let prefix = opening @ fff_octets @ [byte_at (f_bytes fm) fff] @ take ctrl_len (drop (fff + 1) (f_bytes fm)) in
              if IOHDLC_TXPLAN_PREFIX_MAX < length prefix then None
              else
                (case plan_fcs F (length opening) prefix body of
                   None \<Rightarrow> None
                 | Some (fcs, desc) \<Rightarrow>
                     (let suffix = fcs @ [IOHDLC_FLAG] in
                      if fd_emitted desc \<and> IOHDLC_TXPLAN_SUFFIX_MAX \<le> fd_size desc then None
                      else Some (Inr \<lparr>pl_prefix = prefix, pl_suffix = suffix,
                        pl_segv = (if prefix \<noteq> [] then [prefix] else []) @ (if body \<noteq> [] then [body] else []) @ [suffix],
                        pl_fcs = desc,
                        pl_wire_len = length prefix + length body + length suffix
                          + (if 0 < fd_size desc \<and> \<not> fd_emitted desc then fd_size desc else 0)\<rparr>))))))"

section \<open>Contiguous wire image\<close>

text \<open>A store of several octets; outside the buffer it is \<open>None\<close>.\<close>

definition put_octets :: "nat \<Rightarrow> u8 list \<Rightarrow> u8 list \<Rightarrow> u8 list option" where
  "put_octets i vs bs = (if i + length vs \<le> length bs then Some (take i bs @ vs @ drop (i + length vs) bs) else None)"

text \<open>The frame format field and the FCS around the \<open>wire_len\<close> octets of a frame, as both transmit
  paths write them.\<close>

definition frame_octets :: "framer \<Rightarrow> nat \<Rightarrow> u8 list \<Rightarrow> (errno + u8 list) option" where
  "frame_octets F wire_len bs =
     (let cfg = fr_cfg F in
      case (if dc_frame_format_size cfg \<noteq> 0
            then s_emit_fff cfg (word_of_nat wire_len - ucast (dc_frame_format_size cfg)) else Inr []) of
        Inl e \<Rightarrow> Some (Inl e)
      | Inr fff \<Rightarrow>
          (case put_octets 0 fff bs of
             None \<Rightarrow> None
           | Some bs1 \<Rightarrow>
               (if length fff \<noteq> unat (dc_frame_format_size cfg) then None
                else if 0 < dc_fcs_size cfg then
                  (case tx_compute_fn (fr_policy F) (fr_backend F) (dc_fcs_size cfg) [take wire_len bs1] of
                     None \<Rightarrow> None
                   | Some fcs \<Rightarrow> map_option Inr (put_octets wire_len fcs bs1))
                else Some (Inr bs1))))"

definition s_materialize_tx_frame :: "framer \<Rightarrow> frame \<Rightarrow> (errno + frame) option" where
  "s_materialize_tx_frame F fm =
     (let wire_len = unat (f_elen fm); total = wire_len + unat (dc_fcs_size (fr_cfg F)) in
      if f_tx_ctrl_len fm = 0 then None
      else (case frame_octets F wire_len (f_bytes fm) of
              None \<Rightarrow> None
            | Some (Inl e) \<Rightarrow> Some (Inl e)
            | Some (Inr bs) \<Rightarrow>
                map_option (\<lambda>bs. Inr (fm\<lparr>f_bytes := bs, f_tx_len := word_of_nat (total + 1)\<rparr>))
                  (put_octets total [IOHDLC_FLAG] bs)))"

section \<open>State\<close>

datatype rx_dst = RxStage | RxBuf nat

datatype rx_mode = IOHDLC_RX_START_PACKET | IOHDLC_RX_CONTINUE_PACKET

record swdrv =
  sd_pool :: pool
  sd_caps :: driver_caps
  sd_framer :: framer
  sd_offload :: "u8 list"
  sd_materialize :: bool
  sd_started :: bool
  sd_stage :: "u8 option"
  sd_in_frame :: "nat option"
  sd_recept_q :: "nat list"
  sd_sem :: nat
  sd_rx_dst :: rx_dst
  sd_rx_len :: nat
  sd_rx_mode :: rx_mode
  sd_raw_q :: "nat list"
  sd_inflight :: "nat option"
  sd_busy :: "bool list"
  sd_submit :: "int list"
  sd_wire :: "u8 list list"
  sd_calls :: cb_calls
  sd_fault :: bool
  sd_rx_zero :: bool

definition sd_frame :: "swdrv \<Rightarrow> nat \<Rightarrow> frame" where
  "sd_frame d f = fp_heap (sd_pool d) f"

definition sd_upd :: "nat \<Rightarrow> (frame \<Rightarrow> frame) \<Rightarrow> swdrv \<Rightarrow> swdrv" where
  "sd_upd f g d = d\<lparr>sd_pool := upd_frame f g (sd_pool d)\<rparr>"

definition sd_failed :: "swdrv \<Rightarrow> swdrv" where
  "sd_failed d = d\<lparr>sd_fault := True\<rparr>"

definition sd_take :: "swdrv \<Rightarrow> nat option \<times> swdrv" where
  "sd_take d = (let r = take_frame (sd_pool d) in
     (fst r, d\<lparr>sd_pool := fst (snd r), sd_calls := sd_calls d @ snd (snd r)\<rparr>))"

definition sd_release :: "nat \<Rightarrow> swdrv \<Rightarrow> swdrv" where
  "sd_release f d = (case release_frame f (sd_pool d) of
     None \<Rightarrow> sd_failed d | Some (P, c) \<Rightarrow> d\<lparr>sd_pool := P, sd_calls := sd_calls d @ c\<rparr>)"

definition sd_addref :: "nat \<Rightarrow> swdrv \<Rightarrow> swdrv" where
  "sd_addref f d = (case addref_frame f (sd_pool d) of None \<Rightarrow> sd_failed d | Some P \<Rightarrow> d\<lparr>sd_pool := P\<rparr>)"

definition sd_gate_try :: "nat \<Rightarrow> swdrv \<Rightarrow> bool \<times> swdrv" where
  "sd_gate_try f d = (if f_gate_free (sd_frame d f) then (True, sd_upd f (\<lambda>fr. fr\<lparr>f_gate_free := False\<rparr>) d) else (False, d))"

definition sd_gate_release :: "nat \<Rightarrow> swdrv \<Rightarrow> swdrv" where
  "sd_gate_release f = sd_upd f (\<lambda>fr. fr\<lparr>f_gate_free := True\<rparr>)"

section \<open>The stream port\<close>

definition tx_busy :: "swdrv \<Rightarrow> bool \<times> swdrv" where
  "tx_busy d = (case sd_busy d of [] \<Rightarrow> False | b # bs \<Rightarrow> b, d\<lparr>sd_busy := tl (sd_busy d)\<rparr>)"

text \<open>A frame the port accepts goes out: the opening flag, if any, and the wire image.\<close>

definition wire_image :: "frame \<Rightarrow> u8 list" where
  "wire_image fm = (if f_openingflag fm \<noteq> 0 then [f_openingflag fm] else []) @ take (unat (f_tx_len fm)) (f_bytes fm)"

definition tx_submit_frame :: "nat \<Rightarrow> swdrv \<Rightarrow> int \<times> swdrv" where
  "tx_submit_frame f d =
     (let r = (case sd_submit d of [] \<Rightarrow> 0 | x # xs \<Rightarrow> x);
          d = d\<lparr>sd_submit := tl (sd_submit d)\<rparr>
      in (r, if r = 0 then d\<lparr>sd_wire := sd_wire d @ [wire_image (sd_frame d f)]\<rparr> else d))"

definition rx_submit :: "rx_dst \<Rightarrow> nat \<Rightarrow> rx_mode \<Rightarrow> swdrv \<Rightarrow> swdrv" where
  "rx_submit b n m d = d\<lparr>sd_rx_dst := b, sd_rx_len := n, sd_rx_mode := m, sd_rx_zero := sd_rx_zero d \<or> n = 0\<rparr>"

section \<open>Transmit pipeline\<close>

definition raw_enqueue :: "bool \<Rightarrow> nat \<Rightarrow> swdrv \<Rightarrow> swdrv" where
  "raw_enqueue at_head f d =
     sd_upd f (\<lambda>fr. fr\<lparr>f_openingflag := 0, f_qaux_linked := True\<rparr>)
       (d\<lparr>sd_raw_q := if at_head then f # sd_raw_q d else sd_raw_q d @ [f]\<rparr>)"

definition s_try_start_next_tx_i :: "bool \<Rightarrow> swdrv \<Rightarrow> nat option \<times> swdrv" where
  "s_try_start_next_tx_i prepend_opening_flag d =
     (case (sd_inflight d, sd_raw_q d) of
        (None, f # fs) \<Rightarrow>
          (let (busy, d) = tx_busy d in
           if busy then (None, d)
           else
             (let d = sd_upd f (\<lambda>fr. fr\<lparr>f_qaux_linked := False,
                        f_openingflag := if prepend_opening_flag then IOHDLC_FLAG else 0\<rparr>) (d\<lparr>sd_raw_q := fs\<rparr>);
                  (r, d) = tx_submit_frame f (d\<lparr>sd_inflight := Some f\<rparr>)
              in if r = 0 then (None, d)
                 else
                   (let (busy, d) = tx_busy (d\<lparr>sd_inflight := None\<rparr>) in
                    if busy then (None, raw_enqueue True f d)
                    else (Some f, sd_gate_release f d))))
      | _ \<Rightarrow> (None, d))"

text \<open>Preparation of the frame that is put on the wire: the frame itself, or an encoded copy.\<close>

definition prepare_encoded :: "nat \<Rightarrow> swdrv \<Rightarrow> (int + nat) \<times> swdrv" where
  "prepare_encoded f d =
     (let F = sd_framer d; payload_len = f_elen (sd_frame d f);
          wire_len = payload_len + ucast (dc_fcs_size (fr_cfg F)) in
      case frame_octets F (unat payload_len) (f_bytes (sd_frame d f)) of
        None \<Rightarrow> (Inl 5, sd_failed d)
      | Some (Inl e) \<Rightarrow> (Inl 90, sd_gate_release f d)
      | Some (Inr bs) \<Rightarrow>
          (let d = sd_upd f (\<lambda>fr. fr\<lparr>f_bytes := bs, f_elen := wire_len\<rparr>) d;
               (nf, d) = sd_take d in
           case nf of
             None \<Rightarrow> (Inl 12, sd_gate_release f (sd_upd f (\<lambda>fr. fr\<lparr>f_elen := payload_len\<rparr>) d))
           | Some n \<Rightarrow>
               (case ioHdlcFrameTransparentEncode (f_bytes (sd_frame d n)) (f_bytes (sd_frame d f)) wire_len of
                  None \<Rightarrow> (Inl 5, sd_failed d)
                | Some (enc, m, e) \<Rightarrow>
                    (let d = sd_upd n (\<lambda>fr. fr\<lparr>f_bytes := enc, f_elen := m\<rparr>) d;
                         d = sd_gate_release f (sd_upd f (\<lambda>fr. fr\<lparr>f_elen := payload_len\<rparr>) d);
                         (ok, d) = sd_gate_try n d in
                     if \<not> ok then (Inl 16, sd_release n (sd_failed d))
                     else (case put_octets (unat m) [IOHDLC_FLAG] enc of
                             None \<Rightarrow> (Inl 5, sd_failed d)
                           | Some bs \<Rightarrow> (Inr n, sd_upd n (\<lambda>fr. fr\<lparr>f_bytes := bs, f_tx_len := m + 1\<rparr>) d))))))"

definition prepare_plain :: "nat \<Rightarrow> swdrv \<Rightarrow> (int + nat) \<times> swdrv" where
  "prepare_plain f d =
     (case s_materialize_tx_frame (sd_framer d) (sd_frame d f) of
        None \<Rightarrow> (Inl 5, sd_failed d)
      | Some (Inl e) \<Rightarrow> (Inl 90, sd_gate_release f d)
      | Some (Inr fm) \<Rightarrow> (Inr f, sd_addref f (sd_upd f (\<lambda>_. fm) d)))"

text \<open>The prepared frame starts, waits in the queue, or is given up.\<close>

definition commit_tail :: "swdrv \<Rightarrow> int \<times> swdrv" where
  "commit_tail d =
     (let (failed, d) = s_try_start_next_tx_i True d in
      case failed of None \<Rightarrow> (0, d) | Some g \<Rightarrow> (0, sd_release g (sd_failed d)))"

definition drv_commit :: "nat \<Rightarrow> swdrv \<Rightarrow> int \<times> swdrv" where
  "drv_commit n d =
     (let (busy, d) = tx_busy d in
      if \<not> busy \<and> sd_inflight d = None \<and> sd_raw_q d = [] then
        (let d = sd_upd n (\<lambda>fr. fr\<lparr>f_openingflag := IOHDLC_FLAG\<rparr>) d;
             (r, d) = tx_submit_frame n (d\<lparr>sd_inflight := Some n\<rparr>) in
         if r = 0 then commit_tail d
         else
           (let (busy, d) = tx_busy (d\<lparr>sd_inflight := None\<rparr>) in
            if busy then (0, raw_enqueue False n d)
            else (r, sd_release n (sd_gate_release n d))))
      else if \<not> f_qaux_linked (sd_frame d n) then commit_tail (raw_enqueue False n d)
      else (16, sd_release n (sd_gate_release n (sd_failed d))))"

definition drv_send_frame :: "nat \<Rightarrow> swdrv \<Rightarrow> int \<times> swdrv" where
  "drv_send_frame f d =
     (let (ok, d) = sd_gate_try f d in
      if \<not> ok then (16, sd_failed d)
      else
        (let (r, d) = (if dc_apply_transparency (fr_cfg (sd_framer d)) then prepare_encoded f d else prepare_plain f d) in
         case r of Inl e \<Rightarrow> (e, d) | Inr n \<Rightarrow> drv_commit n d))"

definition release_opt :: "nat option \<Rightarrow> swdrv \<Rightarrow> swdrv" where
  "release_opt fo d = (case fo of None \<Rightarrow> d | Some f \<Rightarrow> sd_release f d)"

definition s_on_tx_done :: "nat option \<Rightarrow> swdrv \<Rightarrow> swdrv" where
  "s_on_tx_done done_fp d =
     (let d = (if sd_inflight d = done_fp then d\<lparr>sd_inflight := None\<rparr> else d);
          d = (case done_fp of None \<Rightarrow> d | Some f \<Rightarrow> sd_gate_release f d);
          (failed, d) = s_try_start_next_tx_i False d
      in release_opt failed (release_opt done_fp d))"

definition s_on_tx_ready_i :: "swdrv \<Rightarrow> swdrv" where
  "s_on_tx_ready_i d = (let (failed, d) = s_try_start_next_tx_i True d in release_opt failed d)"

fun drop_raw_q :: "nat list \<Rightarrow> swdrv \<Rightarrow> swdrv" where
  "drop_raw_q [] d = d\<lparr>sd_raw_q := []\<rparr>"
| "drop_raw_q (f # fs) d =
     drop_raw_q fs (sd_release f (sd_gate_release f (sd_upd f (\<lambda>fr. fr\<lparr>f_qaux_linked := False\<rparr>) (d\<lparr>sd_raw_q := fs\<rparr>))))"

definition s_on_tx_error_i :: "nat option \<Rightarrow> swdrv \<Rightarrow> swdrv" where
  "s_on_tx_error_i framep d =
     (let done_fp = (case framep of None \<Rightarrow> sd_inflight d | Some f \<Rightarrow> Some f);
          d = d\<lparr>sd_inflight := None\<rparr>;
          d = (case done_fp of None \<Rightarrow> d | Some f \<Rightarrow> sd_gate_release f d)
      in release_opt done_fp (drop_raw_q (sd_raw_q d) d))"

section \<open>Receive octet machine\<close>

definition IOHDLC_STREAM_ERR_TMO :: u32 where "IOHDLC_STREAM_ERR_TMO = 0x08"

definition HDLC_BASIC_MIN_L :: u16 where "HDLC_BASIC_MIN_L = 4"

definition s_handle_rx_error :: "swdrv \<Rightarrow> swdrv" where
  "s_handle_rx_error d = (release_opt (sd_in_frame d) d)\<lparr>sd_in_frame := None, sd_stage := Some 0\<rparr>"

text \<open>The label \<open>newframe\<close>: with no frame under construction, a staged flag opens one.\<close>

definition rx_newframe :: "rx_dst \<Rightarrow> nat \<Rightarrow> rx_mode \<Rightarrow> swdrv \<Rightarrow> swdrv" where
  "rx_newframe b n m d =
     (if sd_in_frame d \<noteq> None then rx_submit b n m d
      else if sd_stage d \<noteq> Some IOHDLC_FLAG then rx_submit RxStage n m d
      else
        (let (fo, d) = sd_take (d\<lparr>sd_stage := Some 0\<rparr>) in
         case fo of
           None \<Rightarrow> rx_submit RxStage n m d
         | Some f \<Rightarrow> rx_submit (RxBuf 0) n IOHDLC_RX_CONTINUE_PACKET
             (sd_upd f (\<lambda>fr. fr\<lparr>f_elen := 0\<rparr>) (d\<lparr>sd_in_frame := Some f\<rparr>))))"

definition rx_discard :: "swdrv \<Rightarrow> swdrv" where
  "rx_discard d = rx_newframe RxStage 1 IOHDLC_RX_START_PACKET (s_handle_rx_error d)"

text \<open>One more octet of the frame, which is given up when it fills the buffer.\<close>

definition rx_accumulate :: "nat \<Rightarrow> swdrv \<Rightarrow> swdrv" where
  "rx_accumulate f d =
     (let e = f_elen (sd_frame d f) + 1; d = sd_upd f (\<lambda>fr. fr\<lparr>f_elen := e\<rparr>) d in
      if fp_framesize (sd_pool d) \<le> unat e then rx_discard d
      else rx_newframe (RxBuf (unat e)) 1 IOHDLC_RX_CONTINUE_PACKET d)"

text \<open>A frame format field that announces \<open>len\<close> octets: the rest is one transfer.\<close>

definition rx_announced :: "nat \<Rightarrow> nat \<Rightarrow> nat \<Rightarrow> nat \<Rightarrow> swdrv \<Rightarrow> swdrv" where
  "rx_announced f len off n d =
     (if len \<noteq> 0 \<and> len < fp_framesize (sd_pool d)
      then rx_newframe (RxBuf off) n IOHDLC_RX_CONTINUE_PACKET (sd_upd f (\<lambda>fr. fr\<lparr>f_elen := word_of_nat len\<rparr>) d)
      else rx_discard d)"

definition rx_data_octet :: "nat \<Rightarrow> swdrv \<Rightarrow> swdrv" where
  "rx_data_octet f d =
     (let cfg = fr_cfg (sd_framer d); fm = sd_frame d f; b0 = byte_at (f_bytes fm) 0 in
      if dc_frame_format_size cfg = 0 \<or> dc_apply_transparency cfg then rx_accumulate f d
      else if dc_frame_format_size cfg = 1 \<and> f_elen fm = 0 then
        (if has b0 0x80 then rx_discard d else rx_announced f (unat b0) 1 (unat b0) d)
      else if dc_frame_format_size cfg = 2 \<and> f_elen fm = 0 then
        (if b0 AND 0xF0 = 0x80
         then rx_newframe (RxBuf 1) 1 IOHDLC_RX_CONTINUE_PACKET (sd_upd f (\<lambda>fr. fr\<lparr>f_elen := 1\<rparr>) d)
         else rx_discard d)
      else if dc_frame_format_size cfg = 2 \<and> f_elen fm = 1 then
        (let n = 256 * unat (b0 AND 0x0F) + unat (byte_at (f_bytes fm) 1) in rx_announced f n 2 (n - 1) d)
      else rx_accumulate f d)"

definition rx_octet :: "nat \<Rightarrow> swdrv \<Rightarrow> swdrv" where
  "rx_octet f d =
     (let cfg = fr_cfg (sd_framer d); fm = sd_frame d f; e = f_elen fm in
      if byte_at (f_bytes fm) (unat e) = IOHDLC_FLAG \<and> (dc_frame_format_size cfg \<noteq> 2 \<or> e \<noteq> 1) then
        (if e = 0 then rx_submit (RxBuf 0) 1 IOHDLC_RX_CONTINUE_PACKET d
         else if e < HDLC_BASIC_MIN_L then
           rx_submit (RxBuf 0) 1 IOHDLC_RX_CONTINUE_PACKET (sd_upd f (\<lambda>fr. fr\<lparr>f_elen := 0\<rparr>) d)
         else rx_newframe RxStage 1 IOHDLC_RX_START_PACKET
           (d\<lparr>sd_recept_q := sd_recept_q d @ [f], sd_sem := sd_sem d + 1, sd_in_frame := None,
              sd_stage := Some IOHDLC_FLAG\<rparr>))
      else rx_data_octet f d)"

definition s_on_rx :: "u32 \<Rightarrow> swdrv \<Rightarrow> swdrv" where
  "s_on_rx errmask d =
     (let partly = (case sd_in_frame d of None \<Rightarrow> False | Some f \<Rightarrow> f_elen (sd_frame d f) \<noteq> 0) in
      if has errmask IOHDLC_STREAM_ERR_TMO then
        (if partly then rx_discard d else d\<lparr>sd_sem := sd_sem d + 1\<rparr>)
      else if errmask \<noteq> 0 then rx_discard d
      else (case sd_in_frame d of
              None \<Rightarrow> rx_newframe RxStage 1 IOHDLC_RX_START_PACKET d
            | Some f \<Rightarrow> rx_octet f d))"

text \<open>The transfer of the port: the octets are stored where the driver asked for them, and the
  callback is run.\<close>

definition rx_store :: "u8 list \<Rightarrow> swdrv \<Rightarrow> swdrv" where
  "rx_store bs d =
     (case (sd_rx_dst d, sd_in_frame d) of
        (RxStage, _) \<Rightarrow> (case sd_stage d of
            None \<Rightarrow> sd_failed d
          | Some x \<Rightarrow> (if length bs = 1 then d\<lparr>sd_stage := Some (hd bs)\<rparr> else sd_failed d))
      | (RxBuf off, Some f) \<Rightarrow> (case put_octets off bs (f_bytes (sd_frame d f)) of
            None \<Rightarrow> sd_failed d
          | Some bs' \<Rightarrow> sd_upd f (\<lambda>fr. fr\<lparr>f_bytes := bs'\<rparr>) d)
      | (RxBuf off, None) \<Rightarrow> sd_failed d)"

definition rx_transfer :: "u8 list \<Rightarrow> swdrv \<Rightarrow> swdrv" where
  "rx_transfer bs d = s_on_rx 0 (rx_store bs d)"

text \<open>A run of octets on the line: as many transfers as they fill, and what is left over.\<close>

function rx_feed :: "u8 list \<Rightarrow> swdrv \<Rightarrow> swdrv \<times> u8 list" where
  "rx_feed bs d =
     (if sd_rx_len d = 0 \<or> length bs < sd_rx_len d then (d, bs)
      else rx_feed (drop (sd_rx_len d) bs) (rx_transfer (take (sd_rx_len d) bs) d))"
  by pat_completeness auto
termination by (relation "measure (\<lambda>(bs, d). length bs)") auto

declare rx_feed.simps [simp del]

section \<open>Delivery\<close>

text \<open>A frame taken from the receive queue: decoded, then its FCS and its frame format field are
  checked. A failed assertion is \<open>None\<close>.\<close>

definition declared_len :: "u8 list \<Rightarrow> u16" where
  "declared_len bs =
     (let b0 = ucast (byte_at bs 0) :: u16 in
      if b0 AND 0x80 \<noteq> 0 then push_bit 8 (b0 AND 0x0F) OR ucast (byte_at bs 1) else b0)"

definition recv_check :: "framer \<Rightarrow> frame \<Rightarrow> (bool \<times> frame) option" where
  "recv_check F fm =
     (let cfg = fr_cfg F in
      case (if dc_apply_transparency cfg then ioHdlcFrameTransparentDecode (f_bytes fm) (f_elen fm)
            else Some (f_bytes fm, f_elen fm)) of
        None \<Rightarrow> None
      | Some (bs, total_len) \<Rightarrow>
          (case (if 0 < dc_fcs_size cfg
                 then rx_check_fn (fr_policy F) (fr_backend F) (dc_fcs_size cfg) (take (unat total_len) bs)
                 else Some True) of
             None \<Rightarrow> None
           | Some fcs_ok \<Rightarrow>
               (let fff_ok = (if dc_frame_format_size cfg \<noteq> 0 \<and> 0 < total_len then declared_len bs = total_len else True)
                in Some (fcs_ok \<and> fff_ok, fm\<lparr>f_bytes := bs, f_elen := total_len\<rparr>))))"

lemma sem_release: "sd_sem (sd_release f d) = sd_sem d"
  by (simp add: sd_release_def sd_failed_def split: option.split)

lemma sem_upd: "sd_sem (sd_upd f g d) = sd_sem d"
  by (simp add: sd_upd_def)

function drv_recv_frame :: "swdrv \<Rightarrow> nat option \<times> swdrv" where
  "drv_recv_frame d =
     (if sd_sem d = 0 then (None, d)
      else
        (let d1 = d\<lparr>sd_sem := sd_sem d - 1\<rparr> in
         case sd_recept_q d1 of
           [] \<Rightarrow> (None, d1)
         | f # fs \<Rightarrow>
             (let d2 = d1\<lparr>sd_recept_q := fs\<rparr> in
              case recv_check (sd_framer d2) (sd_frame d2 f) of
                None \<Rightarrow> (None, sd_failed d2)
              | Some (ok, fm) \<Rightarrow>
                  (if ok then (Some f, sd_upd f (\<lambda>_. fm\<lparr>f_elen := f_elen fm - ucast (dc_fcs_size (fr_cfg (sd_framer d2)))\<rparr>) d2)
                   else drv_recv_frame (sd_release f (sd_upd f (\<lambda>_. fm) d2))))))"
  by pat_completeness auto
termination
  by (relation "measure sd_sem") (auto simp: sem_release sem_upd)

declare drv_recv_frame.simps [simp del]

section \<open>Life cycle\<close>

definition no_sizes :: "u8 list" where "no_sizes = [0, 0, 0, 0]"

text \<open>The capabilities of an instance: those of the driver, the sizes of a complete backend, and the
  default size of any backend if it is supported.\<close>

definition init_caps :: "fcs_hooks option \<Rightarrow> driver_caps option" where
  "init_caps backend =
     (case backend of
        None \<Rightarrow> s_resolve_fcs_caps None
      | Some h \<Rightarrow>
          (if fh_check h \<noteq> None \<and> fh_compute h \<noteq> None
           then s_resolve_fcs_caps (Some \<lparr>be_supported_sizes = fh_sizes h, be_default_size = fh_default h\<rparr>)
           else Some (if s_fcs_size_supported (fcs_supported_sizes s_swdriver_base_caps) (fh_default h)
                      then s_swdriver_base_caps\<lparr>fcs_default_size := fh_default h\<rparr> else s_swdriver_base_caps)))"

definition ioHdlcSwDriverInit :: "fcs_hooks option \<Rightarrow> pool \<Rightarrow> swdrv option" where
  "ioHdlcSwDriverInit backend fpp =
     (case init_caps backend of
        None \<Rightarrow> None
      | Some caps \<Rightarrow>
          (let cfg = \<lparr>dc_fcs_size = fcs_default_size caps, dc_apply_transparency = False, dc_frame_format_size = 0\<rparr> in
           Some \<lparr>sd_pool = fpp, sd_caps = caps,
             sd_framer = \<lparr>fr_cfg = cfg, fr_backend = backend,
               fr_policy = s_resolve_fcs_policy backend no_sizes True cfg\<rparr>,
             sd_offload = no_sizes, sd_materialize = True, sd_started = False, sd_stage = None,
             sd_in_frame = None, sd_recept_q = [], sd_sem = 0, sd_rx_dst = RxStage, sd_rx_len = 0,
             sd_rx_mode = IOHDLC_RX_START_PACKET, sd_raw_q = [], sd_inflight = None, sd_busy = [],
             sd_submit = [], sd_wire = [], sd_calls = [], sd_fault = False, sd_rx_zero = False\<rparr>))"

definition resolve_policy :: "swdrv \<Rightarrow> swdrv" where
  "resolve_policy d =
     (let F = sd_framer d in
      d\<lparr>sd_framer := F\<lparr>fr_policy := s_resolve_fcs_policy (fr_backend F) (sd_offload d) (sd_materialize d) (fr_cfg F)\<rparr>\<rparr>)"

text \<open>The stored configuration; \<open>drv_configure\<close> of the station set-up decides whether it is valid.\<close>

definition drv_configure_store :: "u8 \<Rightarrow> bool \<Rightarrow> u8 \<Rightarrow> swdrv \<Rightarrow> errno option \<times> swdrv" where
  "drv_configure_store fcs_size transparency fff_type d =
     (case drv_configure (sd_caps d) fcs_size transparency fff_type of
        Inl e \<Rightarrow> (Some e, d)
      | Inr cfg \<Rightarrow> (None, resolve_policy (d\<lparr>sd_framer := (sd_framer d)\<lparr>fr_cfg := cfg\<rparr>\<rparr>)))"

definition IOHDLC_PORT_AST_TX_NEEDS_CONTIG :: u32 where "IOHDLC_PORT_AST_TX_NEEDS_CONTIG = 4"

record stream_caps =
  sc_constraints :: u32
  sc_assists :: u32
  sc_offload :: "u8 list"

definition drv_start :: "stream_caps option \<Rightarrow> pool \<Rightarrow> swdrv \<Rightarrow> swdrv" where
  "drv_start caps fpp d =
     (let d = d\<lparr>sd_pool := fpp,
            sd_offload := (case caps of None \<Rightarrow> no_sizes | Some c \<Rightarrow> take 4 (sc_offload c)),
            sd_materialize := (case caps of None \<Rightarrow> True | Some c \<Rightarrow> has (sc_assists c) IOHDLC_PORT_AST_TX_NEEDS_CONTIG)\<rparr>;
          d = (resolve_policy d)\<lparr>sd_stage := Some 0, sd_in_frame := None\<rparr>;
          d = rx_submit RxStage 1 IOHDLC_RX_START_PACKET d
      in d\<lparr>sd_inflight := None, sd_started := True\<rparr>)"

definition drv_stop :: "swdrv \<Rightarrow> swdrv" where
  "drv_stop d =
     (if \<not> sd_started d then d
      else (s_on_tx_error_i None d)\<lparr>sd_stage := None, sd_offload := no_sizes, sd_materialize := True, sd_started := False\<rparr>)"

end
