(* ===== verification/Hdlc_DriverTx.thy ===== *)
theory Hdlc_DriverTx
  imports Hdlc_Driver
begin

text \<open>
  The transmit side of the software driver: the contract of an FCS implementation, and the two
  ways a frame becomes octets on the line, as segments of a plan and as a contiguous image.
\<close>

section \<open>The contract of an FCS implementation\<close>

text \<open>What the driver relies on: it always gets the configured number of octets, they depend on the
  octets covered and not on their division into segments, and the receiver accepts them.\<close>

locale fcs_contract =
  fixes sz :: nat and compute :: "u8 list list \<Rightarrow> u8 list option" and check :: "u8 list \<Rightarrow> bool option"
  assumes compute_total: "\<exists>v. compute segs = Some v \<and> length v = sz"
    and compute_concat: "compute segs = compute [concat segs]"
    and check_total: "\<exists>r. check bs = Some r"
    and check_own: "compute [xs] = Some v \<Longrightarrow> check (xs @ v) = Some True"
begin

lemma compute_split: "concat segs = xs \<Longrightarrow> compute segs = compute [xs]"
  using compute_concat by metis

lemma check_segments: "compute segs = Some v \<Longrightarrow> check (concat segs @ v) = Some True"
  using check_own compute_concat by metis

end

lemma foldl_updateFCS:
  "foldl (\<lambda>crc seg. if 0 < length seg then updateFCS crc seg else crc) c segs = updateFCS c (concat segs)"
  by (induction segs arbitrary: c) (auto simp: updateFCS_append)

lemma s_fcs_compute_sw_concat:
  "s_fcs_compute_sw 2 segs = Some (fcs_octets (ioHdlcFcsFinalize (updateFCS 0xFFFF (concat segs))))"
  unfolding s_fcs_compute_sw_def foldl_updateFCS by simp

interpretation sw_fcs: fcs_contract 2 "s_fcs_compute_sw 2" "s_fcs_check_sw 2"
proof (unfold_locales, goal_cases)
  case (1 segs)
  show ?case by (simp add: s_fcs_compute_sw_concat fcs_octets_def)
next
  case (2 segs)
  show ?case by (simp add: s_fcs_compute_sw_concat)
next
  case (3 bs)
  show ?case by (simp add: s_fcs_check_sw_def)
next
  case (4 xs v)
  then have "v = fcs_octets (ioHdlcFcsFinalize (updateFCS 0xFFFF xs))"
    by (simp add: s_fcs_compute_sw_concat)
  moreover obtain a b where "fcs_octets (ioHdlcFcsFinalize (updateFCS 0xFFFF xs)) = [a, b]" by (simp add: fcs_octets_def)
  ultimately show ?case using fcs_check_append by (simp add: s_fcs_check_sw_def)
qed

interpretation no_fcs: fcs_contract 0 "\<lambda>_. Some []" "\<lambda>_. Some True"
  by unfold_locales auto

text \<open>A framer whose policy keeps the contract; the policy that is resolved without a backend does.\<close>

definition framer_ok :: "framer \<Rightarrow> bool" where
  "framer_ok F \<longleftrightarrow> dc_frame_format_size (fr_cfg F) \<le> 2
     \<and> fcs_contract (unat (dc_fcs_size (fr_cfg F))) (tx_compute_fn (fr_policy F) (fr_backend F) (dc_fcs_size (fr_cfg F)))
         (if 0 < dc_fcs_size (fr_cfg F) then rx_check_fn (fr_policy F) (fr_backend F) (dc_fcs_size (fr_cfg F)) else (\<lambda>_. Some True))"

lemma framer_contract:
  assumes "framer_ok F"
  shows "fcs_contract (unat (dc_fcs_size (fr_cfg F))) (tx_compute_fn (fr_policy F) (fr_backend F) (dc_fcs_size (fr_cfg F)))
    (if 0 < dc_fcs_size (fr_cfg F) then rx_check_fn (fr_policy F) (fr_backend F) (dc_fcs_size (fr_cfg F)) else (\<lambda>_. Some True))"
  using assms by (simp add: framer_ok_def)

lemma resolved_framer_ok:
  assumes "dc_fcs_size cfg = 0 \<or> dc_fcs_size cfg = 2" "dc_frame_format_size cfg \<le> 2"
  shows "framer_ok \<lparr>fr_cfg = cfg, fr_backend = None, fr_policy = s_resolve_fcs_policy None off mat cfg\<rparr>"
  using assms sw_fcs.fcs_contract_axioms no_fcs.fcs_contract_axioms
  by (auto simp: framer_ok_def s_resolve_fcs_policy_def Let_def tx_compute_fn_def [abs_def] rx_check_fn_def [abs_def])

section \<open>The frame format field\<close>

definition fff_octets :: "nat \<Rightarrow> nat \<Rightarrow> u8 list" where
  "fff_octets fff n = (if fff = 1 then [word_of_nat n]
     else if fff = 2 then [word_of_nat (128 + n div 256), word_of_nat n] else [])"

definition fff_limit :: "nat \<Rightarrow> nat" where
  "fff_limit fff = (if fff = 1 then 128 else if fff = 2 then 4096 else 65536)"

lemma length_fff: "fff \<le> 2 \<Longrightarrow> length (fff_octets fff n) = fff"
  by (auto simp: fff_octets_def)

lemma and_not_mask_zero: "(x :: 'a::len word) AND NOT (mask n) = 0 \<longleftrightarrow> unat x < 2 ^ n"
proof -
  have "(x AND mask n) + (x AND NOT (mask n)) = (x AND mask n) OR (x AND NOT (mask n))"
    by (rule disjunctive_add) (simp add: bit_simps)
  also have "\<dots> = x" by (rule bit_word_eqI) (auto simp: bit_simps)
  finally have "x = (x AND mask n) + (x AND NOT (mask n))" by simp
  then have "x AND NOT (mask n) = 0 \<longleftrightarrow> x AND mask n = x" by (metis add.right_neutral add_left_cancel)
  also have "\<dots> \<longleftrightarrow> take_bit n (unat x) = unat x"
    by (simp only: take_bit_eq_mask [symmetric] word_unat_eq_iff unsigned_take_bit_eq)
  also have "\<dots> \<longleftrightarrow> unat x < 2 ^ n" by (rule take_bit_nat_eq_self_iff)
  finally show ?thesis .
qed

lemma and_high_zero: "(x :: 16 word) AND 0xFF80 = 0 \<longleftrightarrow> unat x < 128" "x AND 0xF000 = 0 \<longleftrightarrow> unat x < 4096"
proof -
  have "(0xFF80 :: 16 word) = NOT (mask 7)" "(0xF000 :: 16 word) = NOT (mask 12)" by code_simp+
  then show "x AND 0xFF80 = 0 \<longleftrightarrow> unat x < 128" "x AND 0xF000 = 0 \<longleftrightarrow> unat x < 4096"
    using and_not_mask_zero [of x 7] and_not_mask_zero [of x 12] by simp_all
qed

text \<open>The two octets of the long form, the length in the low 12 bits.\<close>

lemma long_form:
  assumes "unat (x :: u16) < 4096"
  shows "(ucast (0x80 OR (drop_bit 8 x AND 0x0F)) :: u8) = word_of_nat (128 + unat x div 256)"
    "(ucast (x AND 0xFF) :: u8) = word_of_nat (unat x)"
proof -
  let ?y = "drop_bit 8 x"
  have u: "word_of_nat (unat y) = (ucast y :: u8)" for y :: u16 by (simp add: unsigned_def)
  have y: "unat ?y = unat x div 256"
    unfolding unat_drop_bit_eq by (simp add: drop_bit_eq_div)
  then have l: "unat ?y < 16" using assms by simp
  have "?y AND mask 4 = ?y"
    using l by (simp only: take_bit_eq_mask [symmetric] word_unat_eq_iff unsigned_take_bit_eq take_bit_nat_eq_self_iff) simp
  then have m: "?y AND 0x0F = ?y" by (simp add: mask_eq_decr_exp)
  then have "0x80 AND ?y = (0x80 AND 0x0F) AND ?y" unfolding and.assoc by (simp only: and.commute m)
  then have z: "0x80 AND ?y = 0" by simp
  have "0x80 OR ?y = 0x80 + ?y" using word_plus_and_or [of "0x80" ?y] z by simp
  moreover have "unat (0x80 + ?y) = 128 + unat ?y" using l by (simp add: unat_word_ariths)
  ultimately show "(ucast (0x80 OR (drop_bit 8 x AND 0x0F)) :: u8) = word_of_nat (128 + unat x div 256)"
    unfolding m using u [of "0x80 + ?y"] y by simp
  have "(x AND 0xFF) = take_bit 8 x" by (simp add: take_bit_eq_mask mask_eq_decr_exp)
  then show "(ucast (x AND 0xFF) :: u8) = word_of_nat (unat x)" using u [of x] by (simp add: unsigned_take_bit_eq unsigned_ucast_eq word_unat_eq_iff)
qed

section \<open>The framed octets\<close>

definition frame_fff :: "framer \<Rightarrow> nat" where "frame_fff F = unat (dc_frame_format_size (fr_cfg F))"

definition frame_fcs :: "framer \<Rightarrow> nat" where "frame_fcs F = unat (dc_fcs_size (fr_cfg F))"

text \<open>A frame of \<open>n\<close> octets with its format field, and with its FCS behind it.\<close>

definition with_fff :: "framer \<Rightarrow> nat \<Rightarrow> u8 list \<Rightarrow> u8 list" where
  "with_fff F n bs = fff_octets (frame_fff F) (n + frame_fcs F) @ take (n - frame_fff F) (drop (frame_fff F) bs)"

definition fcs_of :: "framer \<Rightarrow> u8 list \<Rightarrow> u8 list" where
  "fcs_of F xs = (if 0 < dc_fcs_size (fr_cfg F)
     then (case tx_compute_fn (fr_policy F) (fr_backend F) (dc_fcs_size (fr_cfg F)) [xs] of None \<Rightarrow> [] | Some v \<Rightarrow> v) else [])"

definition framed :: "framer \<Rightarrow> nat \<Rightarrow> u8 list \<Rightarrow> u8 list" where
  "framed F n bs = with_fff F n bs @ fcs_of F (with_fff F n bs)"

definition frame_fits :: "framer \<Rightarrow> nat \<Rightarrow> bool" where
  "frame_fits F n \<longleftrightarrow> n + frame_fcs F < fff_limit (frame_fff F)"

lemma compute_segments:
  assumes "framer_ok F"
  shows "0 < dc_fcs_size (fr_cfg F) \<Longrightarrow>
    tx_compute_fn (fr_policy F) (fr_backend F) (dc_fcs_size (fr_cfg F)) segs = Some (fcs_of F (concat segs))"
    and "length (fcs_of F xs) = frame_fcs F"
proof -
  have tot: "\<exists>v. tx_compute_fn (fr_policy F) (fr_backend F) (dc_fcs_size (fr_cfg F)) segs = Some v
    \<and> length v = frame_fcs F" for segs
    using fcs_contract.compute_total [OF framer_contract [OF assms]] by (simp add: frame_fcs_def)
  have cc: "tx_compute_fn (fr_policy F) (fr_backend F) (dc_fcs_size (fr_cfg F)) segs
      = tx_compute_fn (fr_policy F) (fr_backend F) (dc_fcs_size (fr_cfg F)) [concat segs]" for segs
    by (rule fcs_contract.compute_concat [OF framer_contract [OF assms]])
  show "length (fcs_of F xs) = frame_fcs F"
    using tot [of "[xs]"] by (auto simp: fcs_of_def frame_fcs_def word_less_nat_alt)
  assume "0 < dc_fcs_size (fr_cfg F)"
  then show "tx_compute_fn (fr_policy F) (fr_backend F) (dc_fcs_size (fr_cfg F)) segs = Some (fcs_of F (concat segs))"
    using tot [of "[concat segs]"] cc [of segs] by (auto simp: fcs_of_def)
qed

lemma word_of_unat: "word_of_nat (unat x) = ucast x"
  by (simp add: unsigned_def)

lemma s_emit_fff_spec:
  assumes "dc_frame_format_size cfg \<le> 2" "n + unat (dc_fcs_size cfg) < 65536" "unat (dc_frame_format_size cfg) \<le> n"
    "p = word_of_nat (n - unat (dc_frame_format_size cfg))"
  shows "s_emit_fff cfg p = (let fff = unat (dc_frame_format_size cfg); total = n + unat (dc_fcs_size cfg) in
    if total < fff_limit fff then Inr (fff_octets fff total) else Inl EMSGSIZE)"
proof -
  let ?t = "n + unat (dc_fcs_size cfg)"
  let ?x = "(ucast (p + ucast (dc_frame_format_size cfg) + ucast (dc_fcs_size cfg)) :: u16)"
  have e: "p + ucast (dc_frame_format_size cfg) + ucast (dc_fcs_size cfg) = (word_of_nat ?t :: u64)"
    using assms(3,4) by (simp add: of_nat_diff word_of_unat)
  have x: "unat ?x = ?t"
    unfolding e using assms(2) by (simp add: unsigned_ucast_eq unat_of_nat take_bit_eq_mod del: of_nat_add)
  have "dc_frame_format_size cfg = 0 \<or> dc_frame_format_size cfg = 1 \<or> dc_frame_format_size cfg = 2"
    using assms(1) by (simp add: word_le_nat_alt word_unat_eq_iff) arith
  moreover have "(ucast ?x :: u8) = word_of_nat ?t" using x by (metis word_of_unat)
  ultimately show ?thesis
    using x long_form [of ?x] assms(2) unfolding s_emit_fff_def Let_def and_high_zero
    by (auto simp: fff_limit_def fff_octets_def)
qed

text \<open>Both transmit paths write the framed octets, or answer \<open>EMSGSIZE\<close> when the length does not fit the
  format field.\<close>

lemma framer_fff: "framer_ok F \<Longrightarrow> frame_fff F \<le> 2"
  by (simp add: framer_ok_def frame_fff_def word_le_nat_alt)

lemma length_with_fff:
  assumes "framer_ok F" "frame_fff F \<le> n" "n \<le> length bs"
  shows "length (with_fff F n bs) = n"
  using assms framer_fff [OF assms(1)] by (simp add: with_fff_def length_fff)

lemma length_framed:
  assumes "framer_ok F" "frame_fff F \<le> n" "n \<le> length bs"
  shows "length (framed F n bs) = n + frame_fcs F"
  using assms by (simp add: framed_def length_with_fff compute_segments(2))

lemma frame_octets_spec:
  assumes F: "framer_ok F" and n: "frame_fff F \<le> n" "n + frame_fcs F < 65536" "n + frame_fcs F \<le> length bs"
  shows "frame_octets F n bs = Some (if frame_fits F n
    then Inr (framed F n bs @ drop (n + frame_fcs F) bs) else Inl EMSGSIZE)"
proof -
  let ?f = "frame_fff F" and ?t = "n + frame_fcs F"
  have e: "(if dc_frame_format_size (fr_cfg F) \<noteq> 0
      then s_emit_fff (fr_cfg F) (word_of_nat n - ucast (dc_frame_format_size (fr_cfg F))) else Inr [])
    = (if frame_fits F n then Inr (fff_octets ?f ?t) else Inl EMSGSIZE)"
  proof (cases "dc_frame_format_size (fr_cfg F) = 0")
    case True
    then show ?thesis using n by (simp add: frame_fits_def frame_fff_def fff_limit_def fff_octets_def)
  next
    case False
    then show ?thesis
      using F n by (subst s_emit_fff_spec [where n = n])
        (simp_all add: framer_ok_def frame_fits_def frame_fff_def frame_fcs_def of_nat_diff word_of_unat)
  qed
  have l: "length (fff_octets ?f ?t) = ?f" using framer_fff [OF F] by (simp add: length_fff)
  have p: "put_octets 0 (fff_octets ?f ?t) bs = Some (with_fff F n bs @ drop n bs)"
    using n l by (simp add: put_octets_def with_fff_def) (metis append_take_drop_id drop_drop le_add_diff_inverse2)
  have w: "length (with_fff F n bs) = n" using F n by (simp add: length_with_fff)
  have q: "0 < dc_fcs_size (fr_cfg F) \<Longrightarrow>
      put_octets n (fcs_of F (with_fff F n bs)) (with_fff F n bs @ drop n bs) = Some (framed F n bs @ drop ?t bs)"
    using n w compute_segments(2) [OF F] by (simp add: put_octets_def framed_def add.commute)
  have z: "\<not> 0 < dc_fcs_size (fr_cfg F) \<Longrightarrow> framed F n bs @ drop ?t bs = with_fff F n bs @ drop n bs"
    by (simp add: framed_def fcs_of_def frame_fcs_def word_less_nat_alt)
  show ?thesis
    unfolding frame_octets_def Let_def e using l p q z w compute_segments(1) [OF F, of "[with_fff F n bs]"]
    by (simp add: frame_fff_def [symmetric])
qed

lemma materialize_spec:
  assumes "framer_ok F" "frame_fff F \<le> unat (f_elen fm)" "unat (f_elen fm) + frame_fcs F < 65535"
    "unat (f_elen fm) + frame_fcs F < length (f_bytes fm)" "f_tx_ctrl_len fm \<noteq> 0"
  shows "s_materialize_tx_frame F fm = Some (if frame_fits F (unat (f_elen fm))
    then Inr (fm\<lparr>f_bytes := framed F (unat (f_elen fm)) (f_bytes fm) @ [IOHDLC_FLAG]
        @ drop (unat (f_elen fm) + frame_fcs F + 1) (f_bytes fm),
      f_tx_len := word_of_nat (unat (f_elen fm) + frame_fcs F + 1)\<rparr>)
    else Inl EMSGSIZE)"
proof -
  let ?n = "unat (f_elen fm)" and ?bs = "f_bytes fm"
  have "frame_octets F ?n ?bs = Some (if frame_fits F ?n
      then Inr (framed F ?n ?bs @ drop (?n + frame_fcs F) ?bs) else Inl EMSGSIZE)"
    using assms by (intro frame_octets_spec) auto
  moreover have "length (framed F ?n ?bs) = ?n + frame_fcs F" using assms by (intro length_framed) auto
  ultimately show ?thesis
    using assms by (simp add: s_materialize_tx_frame_def Let_def put_octets_def frame_fcs_def [symmetric])
qed

section \<open>The transmit plan is the wire image\<close>

lemma tx_plan_octets:
  assumes "framer_ok F" "frame_fff F + 1 + c \<le> n" "n \<le> length bs"
  shows "with_fff F n bs = fff_octets (frame_fff F) (n + frame_fcs F) @ [byte_at bs (frame_fff F)]
      @ take c (drop (frame_fff F + 1) bs) @ drop (frame_fff F + 1 + c) (take n bs)"
proof -
  let ?f = "frame_fff F"
  have "take (n - ?f) (drop ?f bs) = byte_at bs ?f # take (n - ?f - 1) (drop (?f + 1) bs)"
    using assms(2,3) by (cases "n - ?f") (simp_all add: byte_at_def Cons_nth_drop_Suc [symmetric])
  also have "take (n - ?f - 1) (drop (?f + 1) bs)
      = take c (drop (?f + 1) bs) @ drop (?f + 1 + c) (take n bs)"
    using assms(2,3) take_add [of c "n - ?f - 1 - c" "drop (?f + 1) bs"] by (simp add: drop_take add.commute)
  finally show ?thesis by (simp add: with_fff_def)
qed

text \<open>The FCS of the plan is that of the covered octets, whether they are one segment or two.\<close>

lemma plan_fcs_emitted:
  assumes "framer_ok F" "\<not> pol_defer (fr_policy F)" "frame_fcs F < IOHDLC_TXPLAN_SUFFIX_MAX" "k < length prefix"
  shows "\<exists>desc. plan_fcs F k prefix body = Some (fcs_of F (drop k prefix @ body), desc)
    \<and> fd_size desc = frame_fcs F \<and> (fd_emitted desc \<longleftrightarrow> 0 < frame_fcs F)"
proof (cases "0 < dc_fcs_size (fr_cfg F)")
  case True
  have "concat ((if drop k prefix \<noteq> [] then [drop k prefix] else []) @ (if body \<noteq> [] then [body] else []))
      = drop k prefix @ body" by simp
  with True assms show ?thesis
    using compute_segments(1) [OF assms(1) True]
    by (auto simp: plan_fcs_def Let_def frame_fcs_def word_less_nat_alt)
next
  case False
  then have "dc_fcs_size (fr_cfg F) = 0" by (simp add: word_less_nat_alt word_unat_eq_iff)
  then show ?thesis by (simp add: plan_fcs_def Let_def fcs_of_def frame_fcs_def)
qed

lemma build_tx_plan_spec:
  assumes F: "framer_ok F" "\<not> dc_apply_transparency (fr_cfg F)" "\<not> pol_defer (fr_policy F)"
      "frame_fcs F < IOHDLC_TXPLAN_SUFFIX_MAX"
    and c: "f_tx_ctrl_len fm = 1 \<or> f_tx_ctrl_len fm = 2"
    and n: "frame_fff F + 1 + unat (f_tx_ctrl_len fm) \<le> unat (f_elen fm)"
      "unat (f_elen fm) + frame_fcs F < 65536" "unat (f_elen fm) \<le> length (f_bytes fm)"
  shows "map_option (map_sum id (\<lambda>p. (concat (pl_segv p), pl_wire_len p))) (s_build_tx_plan F fm b)
    = Some (if frame_fits F (unat (f_elen fm))
        then Inr ((if b then [IOHDLC_FLAG] else []) @ framed F (unat (f_elen fm)) (f_bytes fm) @ [IOHDLC_FLAG],
          (if b then 1 else 0) + unat (f_elen fm) + frame_fcs F + 1)
        else Inl EMSGSIZE)"
proof -
  let ?n = "unat (f_elen fm)" and ?bs = "f_bytes fm" and ?f = "frame_fff F"
  define k where "k = unat (f_tx_ctrl_len fm)"
  define op where "op = (if b then [IOHDLC_FLAG] else [])"
  define pre where "pre = op @ fff_octets ?f (?n + frame_fcs F) @ [byte_at ?bs ?f] @ take k (drop (?f + 1) ?bs)"
  define body where "body = drop (?f + 1 + k) (take ?n ?bs)"
  have k: "0 < k" "k \<le> 2" "?f + 1 + k \<le> ?n" "?f \<le> 2" using c n(1) framer_fff [OF F(1)] by (auto simp: k_def)
  have w: "with_fff F ?n ?bs = drop (length op) pre @ body"
    using tx_plan_octets [OF F(1) k(3) n(3)] by (simp add: pre_def body_def)
  have lp: "length pre = length op + ?f + 1 + k" using n k by (simp add: pre_def length_fff)
  have lo: "length op \<le> 1" "length op = (if b then 1 else 0)" by (simp_all add: op_def)
  obtain desc where d: "plan_fcs F (length op) pre body = Some (fcs_of F (drop (length op) pre @ body), desc)"
      "fd_size desc = frame_fcs F" "fd_emitted desc \<longleftrightarrow> 0 < frame_fcs F"
    using plan_fcs_emitted [OF F(1,3,4), of "length op" pre body] lp by auto
  have e: "(if ?f \<noteq> 0 then s_emit_fff (fr_cfg F) (word_of_nat (1 + k + (?n - (?f + 1 + k)))) else Inr [])
    = (if frame_fits F ?n then Inr (fff_octets ?f (?n + frame_fcs F)) else Inl EMSGSIZE)"
  proof (cases "?f = 0")
    case True
    then show ?thesis using n by (simp add: frame_fits_def fff_limit_def fff_octets_def)
  next
    case False
    have "1 + k + (?n - (?f + 1 + k)) = ?n - ?f" using k by simp
    then show ?thesis
      using False F(1) n k by (subst s_emit_fff_spec [where n = "?n"])
        (simp_all add: framer_ok_def frame_fits_def frame_fff_def frame_fcs_def)
  qed
  have lp0: "pre \<noteq> []" using lp by auto
  have c0: "concat ([pre] @ (if body \<noteq> [] then [body] else []) @ [fcs_of F (drop (length op) pre @ body) @ [IOHDLC_FLAG]])
      = op @ framed F ?n ?bs @ [IOHDLC_FLAG]"
    using w by (simp add: framed_def) (simp add: pre_def)
  have lb: "length body = ?n - (?f + 1 + k)" using n by (simp add: body_def)
  have lc: "\<not> 2 < k" "k \<noteq> 0" "\<not> ?n < ?f + 1 + k" "\<not> IOHDLC_TXPLAN_PREFIX_MAX < length pre"
    using lp k lo by (simp_all add: IOHDLC_TXPLAN_PREFIX_MAX_def)
  have lf: "length (fcs_of F xs) = frame_fcs F" for xs by (rule compute_segments(2) [OF F(1)])
  show ?thesis
  proof (cases "frame_fits F ?n")
    case True
    have P: "s_build_tx_plan F fm b = Some (Inr \<lparr>pl_prefix = pre, pl_suffix = fcs_of F (drop (length op) pre @ body) @ [IOHDLC_FLAG],
        pl_segv = [pre] @ (if body \<noteq> [] then [body] else []) @ [fcs_of F (drop (length op) pre @ body) @ [IOHDLC_FLAG]],
        pl_fcs = desc, pl_wire_len = length pre + length body + (frame_fcs F + 1)\<rparr>)"
      unfolding s_build_tx_plan_def Let_def frame_fff_def [symmetric] k_def [symmetric] op_def [symmetric]
        body_def [symmetric] e if_P [OF True] sum.case pre_def [symmetric]
      using F(2,4) d(2,3) lc lf lp0 by (simp add: d(1) del: concat_append append.simps append_assoc)
    have len: "length pre + length body + (frame_fcs F + 1) = (if b then 1 else 0) + ?n + frame_fcs F + 1"
      using lp lb lo k by simp
    show ?thesis unfolding P option.map map_sum.simps tx_plan.simps c0 len if_P [OF True] by (simp add: op_def)
  next
    case False
    have "s_build_tx_plan F fm b = Some (Inl EMSGSIZE)"
      unfolding s_build_tx_plan_def Let_def frame_fff_def [symmetric] k_def [symmetric] op_def [symmetric]
        body_def [symmetric] e if_not_P [OF False] sum.case
      using F(2) lc by simp
    then show ?thesis using False by simp
  qed
qed

lemma unat_u16: "k < 65536 \<Longrightarrow> unat (word_of_nat k :: u16) = k"
  by (simp add: unat_of_nat)

lemma materialized_image:
  assumes "framer_ok F" "frame_fff F \<le> unat (f_elen fm)" "unat (f_elen fm) + frame_fcs F < 65535"
    "unat (f_elen fm) + frame_fcs F < length (f_bytes fm)" "f_tx_ctrl_len fm \<noteq> 0" "frame_fits F (unat (f_elen fm))"
  shows "\<exists>fm'. s_materialize_tx_frame F fm = Some (Inr fm') \<and> unat (f_tx_len fm') = unat (f_elen fm) + frame_fcs F + 1
    \<and> take (unat (f_tx_len fm')) (f_bytes fm') = framed F (unat (f_elen fm)) (f_bytes fm) @ [IOHDLC_FLAG]"
proof -
  have "length (framed F (unat (f_elen fm)) (f_bytes fm)) = unat (f_elen fm) + frame_fcs F"
    using assms by (intro length_framed) auto
  moreover have "unat (word_of_nat (unat (f_elen fm) + frame_fcs F + 1) :: u16) = unat (f_elen fm) + frame_fcs F + 1"
    using assms(3) by (intro unat_u16) simp
  ultimately show ?thesis using assms by (simp only: materialize_spec [OF assms(1-5)]) simp
qed

text \<open>C26: a port that builds its own transfers from the segments of the plan puts on the line exactly the
  octets of the contiguous image that the driver writes into the frame buffer - the opening flag
  when it is asked for, the format field, the frame, its FCS and the closing flag - the announced
  wire length is their number, and both reject a frame too long for the format field.\<close>

theorem tx_plan_equals_image:
  assumes "framer_ok F" "\<not> dc_apply_transparency (fr_cfg F)" "\<not> pol_defer (fr_policy F)"
      "frame_fcs F < IOHDLC_TXPLAN_SUFFIX_MAX"
    and "f_tx_ctrl_len fm = 1 \<or> f_tx_ctrl_len fm = 2"
    and "frame_fff F + 1 + unat (f_tx_ctrl_len fm) \<le> unat (f_elen fm)"
      "unat (f_elen fm) + frame_fcs F < 65535" "unat (f_elen fm) + frame_fcs F < length (f_bytes fm)"
  shows "map_option (map_sum id (\<lambda>p. (concat (pl_segv p), pl_wire_len p))) (s_build_tx_plan F fm b)
    = map_option (map_sum id (\<lambda>fm'. (wire_image (fm'\<lparr>f_openingflag := if b then IOHDLC_FLAG else 0\<rparr>),
          (if b then 1 else 0) + unat (f_tx_len fm')))) (s_materialize_tx_frame F fm)"
proof (cases "frame_fits F (unat (f_elen fm))")
  case True
  have "f_tx_ctrl_len fm \<noteq> 0" using assms(5) by auto
  then obtain fm' where "s_materialize_tx_frame F fm = Some (Inr fm')"
    "unat (f_tx_len fm') = unat (f_elen fm) + frame_fcs F + 1"
    "take (unat (f_tx_len fm')) (f_bytes fm') = framed F (unat (f_elen fm)) (f_bytes fm) @ [IOHDLC_FLAG]"
    using materialized_image [OF assms(1) _ assms(7,8) _ True] assms(6) by auto
  then show ?thesis using True assms by (subst build_tx_plan_spec) (auto simp: wire_image_def IOHDLC_FLAG_def)
next
  case False
  then show ?thesis using assms by (subst build_tx_plan_spec) (auto simp: materialize_spec)
qed

text \<open>A framer as it is configured without a backend, and a frame with five octets of user data.\<close>

definition sample_framer :: "u8 \<Rightarrow> framer" where
  "sample_framer fff = (let cfg = \<lparr>dc_fcs_size = 2, dc_apply_transparency = False, dc_frame_format_size = fff\<rparr> in
     \<lparr>fr_cfg = cfg, fr_backend = None, fr_policy = s_resolve_fcs_policy None no_sizes True cfg\<rparr>)"

definition sample_tx_frame :: frame where
  "sample_tx_frame = \<lparr>f_bytes = [0, 0, 5, 0x10, 1, 2, 0x7E, 4, 5] @ replicate 23 0, f_elen = 9, f_tx_len = 0,
     f_refs = 1, f_tx_ctrl_len = 1, f_openingflag = 0, f_gate_free = False, f_qaux_linked = False\<rparr>"

lemma sample_framer_facts:
  "fff \<le> 2 \<Longrightarrow> framer_ok (sample_framer fff)" "\<not> dc_apply_transparency (fr_cfg (sample_framer fff))"
  "\<not> pol_defer (fr_policy (sample_framer fff))" "frame_fcs (sample_framer fff) = 2"
  "frame_fff (sample_framer fff) = unat fff"
  by (simp_all add: sample_framer_def Let_def resolved_framer_ok frame_fcs_def frame_fff_def)
    (simp add: s_resolve_fcs_policy_def no_sizes_def s_port_tx_fcs_offload_supported_def)

theorem tx_plan_equals_image_witness:
  "map_option (map_sum id (\<lambda>p. (concat (pl_segv p), pl_wire_len p))) (s_build_tx_plan (sample_framer 2) sample_tx_frame True)
    = map_option (map_sum id (\<lambda>fm'. (wire_image (fm'\<lparr>f_openingflag := if True then IOHDLC_FLAG else 0\<rparr>),
          (if True then 1 else 0) + unat (f_tx_len fm')))) (s_materialize_tx_frame (sample_framer 2) sample_tx_frame)"
  by (rule tx_plan_equals_image)
    (simp_all add: sample_framer_facts sample_tx_frame_def IOHDLC_TXPLAN_SUFFIX_MAX_def)

end
