(* ===== verification/Hdlc_DriverRx.thy ===== *)
theory Hdlc_DriverRx
  imports Hdlc_DriverTx
begin

text \<open>
  The receive side of the software driver: every octet the port may deliver and every error it may
  report keeps the receiver inside its buffers and its references balanced.
\<close>

section \<open>Projections\<close>

named_theorems drv_simps

lemma sd_upd_sel [drv_simps]:
  "sd_caps (sd_upd f g d) = sd_caps d" "sd_framer (sd_upd f g d) = sd_framer d"
  "sd_offload (sd_upd f g d) = sd_offload d" "sd_materialize (sd_upd f g d) = sd_materialize d"
  "sd_started (sd_upd f g d) = sd_started d" "sd_stage (sd_upd f g d) = sd_stage d"
  "sd_in_frame (sd_upd f g d) = sd_in_frame d" "sd_recept_q (sd_upd f g d) = sd_recept_q d"
  "sd_sem (sd_upd f g d) = sd_sem d" "sd_rx_dst (sd_upd f g d) = sd_rx_dst d"
  "sd_rx_len (sd_upd f g d) = sd_rx_len d" "sd_rx_mode (sd_upd f g d) = sd_rx_mode d"
  "sd_raw_q (sd_upd f g d) = sd_raw_q d" "sd_inflight (sd_upd f g d) = sd_inflight d"
  "sd_busy (sd_upd f g d) = sd_busy d" "sd_submit (sd_upd f g d) = sd_submit d"
  "sd_wire (sd_upd f g d) = sd_wire d" "sd_fault (sd_upd f g d) = sd_fault d"
  "sd_rx_zero (sd_upd f g d) = sd_rx_zero d" "sd_calls (sd_upd f g d) = sd_calls d"
  "sd_pool (sd_upd f g d) = upd_frame f g (sd_pool d)"
  by (simp_all add: sd_upd_def)

lemma sd_frame_upd [drv_simps]:
  "sd_frame (sd_upd f g d) f' = (if f' = f then g (sd_frame d f) else sd_frame d f')"
  by (simp add: sd_frame_def sd_upd_def pool_simps)

lemma rx_submit_sel [drv_simps]:
  "sd_framer (rx_submit b n m d) = sd_framer d" "sd_stage (rx_submit b n m d) = sd_stage d"
  "sd_in_frame (rx_submit b n m d) = sd_in_frame d" "sd_recept_q (rx_submit b n m d) = sd_recept_q d"
  "sd_sem (rx_submit b n m d) = sd_sem d" "sd_fault (rx_submit b n m d) = sd_fault d"
  "sd_pool (rx_submit b n m d) = sd_pool d" "sd_rx_dst (rx_submit b n m d) = b"
  "sd_rx_len (rx_submit b n m d) = n" "sd_rx_zero (rx_submit b n m d) = (sd_rx_zero d \<or> n = 0)"
  "sd_frame (rx_submit b n m d) = sd_frame d"
  by (simp_all add: rx_submit_def sd_frame_def fun_eq_iff)

lemma sd_frame_sel [drv_simps]:
  "sd_frame (d\<lparr>sd_sem := k\<rparr>) = sd_frame d" "sd_frame (d\<lparr>sd_recept_q := q\<rparr>) = sd_frame d"
  "sd_frame (d\<lparr>sd_in_frame := i\<rparr>) = sd_frame d" "sd_frame (d\<lparr>sd_stage := x\<rparr>) = sd_frame d"
  by (simp_all add: sd_frame_def fun_eq_iff)

section \<open>The invariant of the receiver\<close>

text \<open>The frames the receiver owns: the one under construction and those that wait for delivery.\<close>

definition rx_frames :: "swdrv \<Rightarrow> nat list" where
  "rx_frames d = (case sd_in_frame d of None \<Rightarrow> [] | Some f \<Rightarrow> [f]) @ sd_recept_q d"

text \<open>\<open>h\<close> counts the references held elsewhere.\<close>

definition rx_core :: "(nat \<Rightarrow> nat) \<Rightarrow> swdrv \<Rightarrow> bool" where
  "rx_core h d \<longleftrightarrow> pool_ok (sd_pool d) \<and> 1 < fp_framesize (sd_pool d) \<and> fp_framesize (sd_pool d) < 65536
     \<and> distinct (rx_frames d) \<and> (\<forall>f \<in> set (rx_frames d). h f = 0)
     \<and> pool_refs (sd_pool d) = (\<lambda>f. if f \<in> set (rx_frames d) then 1 else h f)
     \<and> (\<forall>f \<in> set (sd_recept_q d). 4 \<le> unat (f_elen (sd_frame d f)) \<and> unat (f_elen (sd_frame d f)) < fp_framesize (sd_pool d))
     \<and> sd_stage d \<noteq> None \<and> \<not> sd_fault d
     \<and> (sd_rx_zero d \<longrightarrow> dc_frame_format_size (fr_cfg (sd_framer d)) = 2)"

text \<open>The armed transfer ends with the octet at which the frame is examined next.\<close>

definition rx_armed :: "swdrv \<Rightarrow> bool" where
  "rx_armed d \<longleftrightarrow> (case sd_in_frame d of
       None \<Rightarrow> sd_rx_dst d = RxStage \<and> sd_rx_len d = 1
     | Some f \<Rightarrow> (\<exists>off. sd_rx_dst d = RxBuf off \<and> off + sd_rx_len d = unat (f_elen (sd_frame d f)) + 1)
         \<and> unat (f_elen (sd_frame d f)) < fp_framesize (sd_pool d)
         \<and> (sd_rx_len d = 0 \<longrightarrow> dc_frame_format_size (fr_cfg (sd_framer d)) = 2))"

definition rx_ok :: "(nat \<Rightarrow> nat) \<Rightarrow> swdrv \<Rightarrow> bool" where
  "rx_ok h d \<longleftrightarrow> rx_core h d \<and> rx_armed d"

lemma rx_coreD:
  assumes "rx_core h d"
  shows "pool_ok (sd_pool d)" "1 < fp_framesize (sd_pool d)" "fp_framesize (sd_pool d) < 65536"
    "distinct (rx_frames d)" "f \<in> set (rx_frames d) \<Longrightarrow> h f = 0"
    "pool_refs (sd_pool d) f = (if f \<in> set (rx_frames d) then 1 else h f)"
    "f \<in> set (sd_recept_q d) \<Longrightarrow> 4 \<le> unat (f_elen (sd_frame d f)) \<and> unat (f_elen (sd_frame d f)) < fp_framesize (sd_pool d)"
    "sd_stage d \<noteq> None" "\<not> sd_fault d"
  using assms by (auto simp: rx_core_def)

text \<open>An update of a frame keeps the pool, as long as it leaves the count and the buffer length.\<close>

lemma upd_frame_ok:
  assumes "pool_ok P" "f_refs (g (fp_heap P f)) = f_refs (fp_heap P f)"
    "length (f_bytes (g (fp_heap P f))) = length (f_bytes (fp_heap P f))"
  shows "pool_ok (upd_frame f g P)" "pool_refs (upd_frame f g P) = pool_refs P"
  using assms by (auto simp: pool_ok_def pool_refs_def pool_simps fun_eq_iff)

lemma core_upd:
  assumes "rx_core h d" "f_refs (g (sd_frame d f)) = f_refs (sd_frame d f)"
    "length (f_bytes (g (sd_frame d f))) = length (f_bytes (sd_frame d f))"
    "f \<in> set (sd_recept_q d) \<Longrightarrow> f_elen (g (sd_frame d f)) = f_elen (sd_frame d f)"
  shows "rx_core h (sd_upd f g d)"
  using assms upd_frame_ok [of "sd_pool d" g f]
  by (auto simp: rx_core_def rx_frames_def drv_simps pool_simps sd_frame_def)

lemma core_in_frame:
  assumes "rx_core h d" "sd_in_frame d = Some f"
  shows "f \<notin> set (sd_recept_q d)" "f < unat (fp_total (sd_pool d))"
    "length (f_bytes (sd_frame d f)) = fp_framesize (sd_pool d)"
proof -
  show "f \<notin> set (sd_recept_q d)" using rx_coreD(4) [OF assms(1)] assms(2) by (simp add: rx_frames_def)
  have "pool_refs (sd_pool d) f \<noteq> 0" using rx_coreD(6) [OF assms(1), of f] assms(2) by (simp add: rx_frames_def)
  then show "f < unat (fp_total (sd_pool d))" by (auto simp: pool_refs_def split: if_splits)
  then show "length (f_bytes (sd_frame d f)) = fp_framesize (sd_pool d)"
    using pool_okD(5) [OF rx_coreD(1) [OF assms(1)]] by (simp add: sd_frame_def)
qed

text \<open>Releasing a frame the receiver owns takes it out of the pool's account.\<close>

lemma release_owned:
  assumes "pool_ok (sd_pool d)" "pool_refs (sd_pool d) f = 1"
  obtains P c where "sd_release f d = d\<lparr>sd_pool := P, sd_calls := c\<rparr>" "pool_ok P"
    "pool_refs P = (pool_refs (sd_pool d))(f := 0)" "fp_framesize P = fp_framesize (sd_pool d)"
    "length (fp_free P) = length (fp_free (sd_pool d)) + 1"
    "\<And>g. f_elen (fp_heap P g) = f_elen (sd_frame d g)" "\<And>g. f_bytes (fp_heap P g) = f_bytes (sd_frame d g)"
proof -
  have "pool_refs (sd_pool d) f \<noteq> 0" using assms(2) by simp
  from release_frame_ok [OF assms(1) this] obtain P c where P: "release_frame f (sd_pool d) = Some (P, c)" "pool_ok P"
    "pool_refs P = (pool_refs (sd_pool d))(f := pool_refs (sd_pool d) f - 1)"
    "fp_framesize P = fp_framesize (sd_pool d)"
    "length (fp_free P) = length (fp_free (sd_pool d)) + (if pool_refs (sd_pool d) f = 1 then 1 else 0)" by blast
  show ?thesis
    using P assms(2) release_heap [OF P(1)] by (intro that [of "sd_calls d @ c" P]) (auto simp: sd_release_def sd_frame_def)
qed

lemma handle_rx_error_core:
  assumes "rx_core h d"
  shows "rx_core h (s_handle_rx_error d)" "sd_in_frame (s_handle_rx_error d) = None"
    "sd_stage (s_handle_rx_error d) = Some 0"
proof -
  show "sd_in_frame (s_handle_rx_error d) = None" "sd_stage (s_handle_rx_error d) = Some 0"
    by (simp_all add: s_handle_rx_error_def)
  show "rx_core h (s_handle_rx_error d)"
  proof (cases "sd_in_frame d")
    case None
    then show ?thesis using assms by (simp add: s_handle_rx_error_def release_opt_def rx_core_def rx_frames_def sd_frame_def)
  next
    case (Some f)
    note u = rx_coreD [OF assms]
    have q: "f \<notin> set (sd_recept_q d)" by (rule core_in_frame(1) [OF assms Some])
    have f1: "pool_refs (sd_pool d) f = 1" "h f = 0" using u(5,6) [of f] Some by (simp_all add: rx_frames_def)
    obtain P c where P: "sd_release f d = d\<lparr>sd_pool := P, sd_calls := c\<rparr>" "pool_ok P"
      "pool_refs P = (pool_refs (sd_pool d))(f := 0)" "fp_framesize P = fp_framesize (sd_pool d)"
      "\<And>g. f_elen (fp_heap P g) = f_elen (sd_frame d g)" by (rule release_owned [OF u(1) f1(1)]) metis
    let ?d = "d\<lparr>sd_pool := P, sd_calls := c, sd_in_frame := None, sd_stage := Some 0\<rparr>"
    have e: "s_handle_rx_error d = ?d" by (simp add: s_handle_rx_error_def release_opt_def Some P(1))
    have m: "rx_frames d = f # sd_recept_q d" "rx_frames ?d = sd_recept_q d" using Some by (simp_all add: rx_frames_def)
    have "pool_refs P = (\<lambda>g. if g \<in> set (sd_recept_q d) then 1 else h g)"
      using assms P(3) q f1 by (auto simp: rx_core_def m fun_eq_iff)
    then show ?thesis
      using assms P(2,4,5) q unfolding e rx_core_def m by (simp add: sd_frame_def)
  qed
qed

lemma take_core:
  assumes "rx_core h d" "sd_in_frame d = None" "fst (sd_take d) = Some f"
  shows "rx_core h ((snd (sd_take d))\<lparr>sd_in_frame := Some f\<rparr>)" "f_elen (sd_frame (snd (sd_take d)) f) = f_elen (sd_frame d f)"
    "f \<notin> set (sd_recept_q d)"
proof -
  let ?P = "fst (snd (take_frame (sd_pool d)))"
  note u = rx_coreD [OF assms(1)]
  obtain fs where fs: "fp_free (sd_pool d) = f # fs"
    using assms(3) take_none [of "sd_pool d"] take_some(1) [of "sd_pool d"]
    by (cases "fp_free (sd_pool d)") (auto simp: sd_take_def Let_def)
  note t = take_some [OF fs] and r = take_frame_refs [OF u(1) fs] and ok = take_frame_ok [OF u(1)]
  show q: "f \<notin> set (sd_recept_q d)" using u(6) [of f] r(2) by (auto simp: rx_frames_def split: if_splits)
  have hf: "h f = 0" using u(6) [of f] r(2) by (simp split: if_splits)
  show "f_elen (sd_frame (snd (sd_take d)) f) = f_elen (sd_frame d f)"
    by (simp add: sd_take_def Let_def sd_frame_def t fresh_frame_def)
  show "rx_core h ((snd (sd_take d))\<lparr>sd_in_frame := Some f\<rparr>)"
    using assms(1,2) q hf r ok t
    by (auto simp: rx_core_def rx_frames_def sd_take_def Let_def sd_frame_def fun_eq_iff)
qed

lemma core_submit:
  "rx_core h d \<Longrightarrow> (n = 0 \<Longrightarrow> dc_frame_format_size (fr_cfg (sd_framer d)) = 2) \<Longrightarrow> rx_core h (rx_submit b n m d)"
  by (auto simp: rx_core_def rx_frames_def drv_simps)

lemma sd_take_none: "fst (sd_take d) = None \<Longrightarrow> snd (sd_take d) = d"
  by (cases "fp_free (sd_pool d)") (simp_all add: sd_take_def Let_def take_none take_some)

lemma sd_take_sel [drv_simps]:
  "sd_framer (snd (sd_take d)) = sd_framer d" "sd_recept_q (snd (sd_take d)) = sd_recept_q d"
  "sd_sem (snd (sd_take d)) = sd_sem d" "sd_stage (snd (sd_take d)) = sd_stage d"
  "sd_in_frame (snd (sd_take d)) = sd_in_frame d" "sd_rx_zero (snd (sd_take d)) = sd_rx_zero d"
  by (simp_all add: sd_take_def Let_def)

lemma take_framesize: "fp_framesize (sd_pool (snd (sd_take d))) = fp_framesize (sd_pool d)"
  by (cases "fp_free (sd_pool d)") (simp_all add: sd_take_def Let_def take_none take_some)

lemma rx_newframe_ok:
  assumes "rx_core h d" "sd_in_frame d = None \<Longrightarrow> n = 1"
    and "\<And>f. sd_in_frame d = Some f \<Longrightarrow> \<exists>off. b = RxBuf off \<and> off + n = unat (f_elen (sd_frame d f)) + 1"
    and "\<And>f. sd_in_frame d = Some f \<Longrightarrow> unat (f_elen (sd_frame d f)) < fp_framesize (sd_pool d)"
    and "n = 0 \<Longrightarrow> dc_frame_format_size (fr_cfg (sd_framer d)) = 2"
  shows "rx_ok h (rx_newframe b n m d)"
proof (cases "sd_in_frame d")
  case (Some f)
  then show ?thesis using assms
    by (simp add: rx_newframe_def rx_ok_def core_submit rx_armed_def drv_simps)
next
  case None
  show ?thesis
  proof (cases "sd_stage d = Some IOHDLC_FLAG")
    case False
    then show ?thesis using None assms
      by (simp add: rx_newframe_def rx_ok_def core_submit rx_armed_def drv_simps)
  next
    case True
    let ?d = "d\<lparr>sd_stage := Some 0\<rparr>"
    have c: "rx_core h ?d" "sd_in_frame ?d = None"
      using assms(1) None by (simp_all add: rx_core_def rx_frames_def sd_frame_def)
    show ?thesis
    proof (cases "fst (sd_take ?d)")
      case None': None
      then show ?thesis using None True c assms(2,5) sd_take_none [OF None']
        by (simp add: rx_newframe_def case_prod_beta rx_ok_def core_submit rx_armed_def drv_simps)
    next
      case (Some f)
      note t = take_core [OF c Some]
      let ?e = "sd_upd f (\<lambda>fr. fr\<lparr>f_elen := 0\<rparr>) ((snd (sd_take ?d))\<lparr>sd_in_frame := Some f\<rparr>)"
      have "rx_core h ?e" using t(1,3) by (intro core_upd) (simp_all add: drv_simps)
      moreover have "1 < fp_framesize (sd_pool ?e)"
        using rx_coreD(2) [OF assms(1)] take_framesize [of ?d] by (simp add: drv_simps pool_simps)
      moreover have "rx_newframe b n m d = rx_submit (RxBuf 0) n IOHDLC_RX_CONTINUE_PACKET ?e"
        using None True Some by (simp add: rx_newframe_def Let_def case_prod_beta)
      ultimately show ?thesis using assms(2) None
        by (simp add: rx_ok_def core_submit rx_armed_def drv_simps)
    qed
  qed
qed

lemma rx_discard_ok: "rx_core h d \<Longrightarrow> rx_ok h (rx_discard d)"
  unfolding rx_discard_def by (rule rx_newframe_ok) (simp_all add: handle_rx_error_core)

lemma elen_inc:
  assumes "unat (e :: u16) < fs" "fs < 65536"
  shows "unat (e + 1) = unat e + 1"
  using assms by (simp add: unat_word_ariths)

lemma rx_accumulate_ok:
  assumes "rx_core h d" "sd_in_frame d = Some f" "unat (f_elen (sd_frame d f)) < fp_framesize (sd_pool d)"
  shows "rx_ok h (rx_accumulate f d)"
proof -
  let ?e = "f_elen (sd_frame d f) + 1"
  let ?d = "sd_upd f (\<lambda>fr. fr\<lparr>f_elen := ?e\<rparr>) d"
  have c: "rx_core h ?d" using assms(1) core_in_frame(1) [OF assms(1,2)] by (intro core_upd) simp_all
  show ?thesis
  proof (cases "fp_framesize (sd_pool d) \<le> unat ?e")
    case True
    then show ?thesis using c by (simp add: rx_accumulate_def Let_def drv_simps pool_simps rx_discard_ok)
  next
    case False
    then have "rx_ok h (rx_newframe (RxBuf (unat ?e)) 1 IOHDLC_RX_CONTINUE_PACKET ?d)"
      using c assms(2) by (intro rx_newframe_ok) (auto simp: drv_simps pool_simps)
    then show ?thesis using False by (simp add: rx_accumulate_def Let_def drv_simps pool_simps)
  qed
qed

lemma rx_announced_ok:
  assumes "rx_core h d" "sd_in_frame d = Some f" "len \<noteq> 0 \<Longrightarrow> off + n = len + 1"
    "len \<noteq> 0 \<Longrightarrow> n = 0 \<Longrightarrow> dc_frame_format_size (fr_cfg (sd_framer d)) = 2"
  shows "rx_ok h (rx_announced f len off n d)"
proof (cases "len \<noteq> 0 \<and> len < fp_framesize (sd_pool d)")
  case True
  let ?d = "sd_upd f (\<lambda>fr. fr\<lparr>f_elen := word_of_nat len\<rparr>) d"
  have "rx_core h ?d" using assms(1) core_in_frame(1) [OF assms(1,2)] by (intro core_upd) simp_all
  moreover have "unat (word_of_nat len :: u16) = len"
    using True rx_coreD(3) [OF assms(1)] by (intro unat_u16) simp
  ultimately have "rx_ok h (rx_newframe (RxBuf off) n IOHDLC_RX_CONTINUE_PACKET ?d)"
    using assms True by (intro rx_newframe_ok) (auto simp: drv_simps pool_simps)
  then show ?thesis using True by (simp add: rx_announced_def)
next
  case False
  then show ?thesis using rx_discard_ok [OF assms(1)] by (auto simp: rx_announced_def)
qed

lemma rx_data_octet_ok:
  assumes "rx_core h d" "sd_in_frame d = Some f" "unat (f_elen (sd_frame d f)) < fp_framesize (sd_pool d)"
  shows "rx_ok h (rx_data_octet f d)"
proof -
  let ?cfg = "fr_cfg (sd_framer d)" and ?fm = "sd_frame d f"
  let ?b0 = "byte_at (f_bytes ?fm) 0"
  note acc = rx_accumulate_ok [OF assms] and dis = rx_discard_ok [OF assms(1)]
  let ?n = "256 * unat (?b0 AND 0x0F) + unat (byte_at (f_bytes ?fm) 1)"
  have one: "rx_ok h (rx_announced f (unat ?b0) 1 (unat ?b0) d)"
    using assms by (intro rx_announced_ok) auto
  have two: "dc_frame_format_size ?cfg = 2 \<Longrightarrow> rx_ok h (rx_announced f ?n 2 (?n - 1) d)"
    using assms by (intro rx_announced_ok) auto
  have "rx_core h (sd_upd f (\<lambda>fr. fr\<lparr>f_elen := 1\<rparr>) d)"
    using assms(1) core_in_frame(1) [OF assms(1,2)] by (intro core_upd) simp_all
  then have "rx_ok h (rx_newframe (RxBuf 1) 1 IOHDLC_RX_CONTINUE_PACKET (sd_upd f (\<lambda>fr. fr\<lparr>f_elen := 1\<rparr>) d))"
    using assms(2) rx_coreD(2) [OF assms(1)] by (intro rx_newframe_ok) (auto simp: drv_simps pool_simps)
  then show ?thesis using acc dis one two by (simp add: rx_data_octet_def Let_def)
qed

lemma rx_octet_ok:
  assumes "rx_core h d" "sd_in_frame d = Some f" "unat (f_elen (sd_frame d f)) < fp_framesize (sd_pool d)"
  shows "rx_ok h (rx_octet f d)"
proof -
  let ?e = "f_elen (sd_frame d f)"
  note u = rx_coreD [OF assms(1)] and fq = core_in_frame(1) [OF assms(1,2)]
  have empty: "?e = 0 \<Longrightarrow> rx_ok h (rx_submit (RxBuf 0) 1 IOHDLC_RX_CONTINUE_PACKET d)"
    using assms by (simp add: rx_ok_def core_submit rx_armed_def drv_simps)
  have "rx_core h (sd_upd f (\<lambda>fr. fr\<lparr>f_elen := 0\<rparr>) d)" using assms(1) fq by (intro core_upd) simp_all
  then have short: "rx_ok h (rx_submit (RxBuf 0) 1 IOHDLC_RX_CONTINUE_PACKET (sd_upd f (\<lambda>fr. fr\<lparr>f_elen := 0\<rparr>) d))"
    using assms(2) u(2) by (simp add: rx_ok_def core_submit rx_armed_def drv_simps pool_simps)
  let ?d = "d\<lparr>sd_recept_q := sd_recept_q d @ [f], sd_sem := sd_sem d + 1, sd_in_frame := None, sd_stage := Some IOHDLC_FLAG\<rparr>"
  have m: "distinct (rx_frames ?d) \<longleftrightarrow> distinct (rx_frames d)" "set (rx_frames ?d) = set (rx_frames d)"
    using assms(2) by (auto simp: rx_frames_def)
  have "rx_core h ?d" if "\<not> ?e < HDLC_BASIC_MIN_L"
  proof -
    have "4 \<le> unat ?e" using that by (simp add: HDLC_BASIC_MIN_L_def word_less_nat_alt)
    then show ?thesis using assms unfolding rx_core_def m by (simp add: sd_frame_def)
  qed
  then have "rx_ok h (rx_newframe RxStage 1 IOHDLC_RX_START_PACKET ?d)" if "\<not> ?e < HDLC_BASIC_MIN_L"
    using that by (intro rx_newframe_ok) auto
  then show ?thesis
    using empty short rx_data_octet_ok [OF assms] by (simp add: rx_octet_def Let_def)
qed

section \<open>Every delivery of the port keeps it\<close>

lemma s_on_rx_ok:
  assumes "rx_core h d" "\<And>f. sd_in_frame d = Some f \<Longrightarrow> unat (f_elen (sd_frame d f)) < fp_framesize (sd_pool d)"
  shows "errmask = 0 \<Longrightarrow> rx_ok h (s_on_rx errmask d)" "rx_armed d \<Longrightarrow> rx_ok h (s_on_rx errmask d)"
proof -
  have none: "sd_in_frame d = None \<Longrightarrow> rx_ok h (rx_newframe RxStage 1 IOHDLC_RX_START_PACKET d)"
    using assms(1) by (intro rx_newframe_ok) auto
  have sem: "rx_ok h (d\<lparr>sd_sem := sd_sem d + 1\<rparr>)" if "rx_armed d"
    using assms(1) that by (simp add: rx_ok_def rx_core_def rx_armed_def rx_frames_def sd_frame_def cong: option.case_cong)
  note r = rx_octet_ok [OF assms(1) _ assms(2)] rx_discard_ok [OF assms(1)] none
  show "errmask = 0 \<Longrightarrow> rx_ok h (s_on_rx errmask d)"
    using r by (cases "sd_in_frame d") (simp_all add: s_on_rx_def has_def)
  show "rx_armed d \<Longrightarrow> rx_ok h (s_on_rx errmask d)"
    using r sem by (cases "sd_in_frame d") (simp_all add: s_on_rx_def has_def)
qed

text \<open>The transfer of the port is stored inside the buffer it was armed for.\<close>

lemma put_octets_some:
  "i + length vs \<le> length bs \<Longrightarrow> put_octets i vs bs = Some (take i bs @ vs @ drop (i + length vs) bs)"
  by (simp add: put_octets_def)

lemma rx_store_stage:
  assumes "rx_ok h d" "sd_in_frame d = None" "length bs = sd_rx_len d"
  shows "rx_store bs d = d\<lparr>sd_stage := Some (hd bs)\<rparr>" "length bs = 1"
proof -
  have "sd_rx_dst d = RxStage" "length bs = 1" using assms by (simp_all add: rx_ok_def rx_armed_def)
  moreover obtain x where "sd_stage d = Some x" using rx_coreD(8) [of h d] assms(1) by (auto simp: rx_ok_def)
  ultimately show "rx_store bs d = d\<lparr>sd_stage := Some (hd bs)\<rparr>" "length bs = 1" by (simp_all add: rx_store_def)
qed

lemma rx_store_frame:
  assumes "rx_ok h d" "sd_in_frame d = Some f" "length bs = sd_rx_len d"
  obtains off where "sd_rx_dst d = RxBuf off" "off + length bs = unat (f_elen (sd_frame d f)) + 1"
    "off + length bs \<le> length (f_bytes (sd_frame d f))"
    "rx_store bs d = sd_upd f (\<lambda>fr. fr\<lparr>f_bytes := take off (f_bytes (sd_frame d f)) @ bs
      @ drop (off + length bs) (f_bytes (sd_frame d f))\<rparr>) d"
proof -
  have c: "rx_core h d" and a: "rx_armed d" using assms(1) by (auto simp: rx_ok_def)
  from a assms obtain off where off: "sd_rx_dst d = RxBuf off" "off + length bs = unat (f_elen (sd_frame d f)) + 1"
    "unat (f_elen (sd_frame d f)) < fp_framesize (sd_pool d)" by (auto simp: rx_armed_def)
  then have "off + length bs \<le> length (f_bytes (sd_frame d f))" using core_in_frame(3) [OF c assms(2)] by simp
  then show ?thesis using off assms(2) by (intro that [of off]) (simp_all add: rx_store_def put_octets_some)
qed

lemma rx_store_ok:
  assumes "rx_ok h d" "length bs = sd_rx_len d"
  shows "rx_core h (rx_store bs d)" "sd_in_frame (rx_store bs d) = sd_in_frame d"
    "f_elen (sd_frame (rx_store bs d) f) = f_elen (sd_frame d f)" "fp_framesize (sd_pool (rx_store bs d)) = fp_framesize (sd_pool d)"
    "sd_framer (rx_store bs d) = sd_framer d"
proof -
  have c: "rx_core h d" using assms(1) by (simp add: rx_ok_def)
  have "rx_core h (rx_store bs d) \<and> sd_in_frame (rx_store bs d) = sd_in_frame d
    \<and> f_elen (sd_frame (rx_store bs d) f) = f_elen (sd_frame d f)
    \<and> fp_framesize (sd_pool (rx_store bs d)) = fp_framesize (sd_pool d) \<and> sd_framer (rx_store bs d) = sd_framer d"
  proof (cases "sd_in_frame d")
    case None
    show ?thesis unfolding rx_store_stage(1) [OF assms(1) None assms(2)] using c
      by (simp add: rx_core_def rx_frames_def sd_frame_def)
  next
    case (Some g)
    show ?thesis
    proof (rule rx_store_frame [OF assms(1) Some assms(2)])
      fix off
      assume "off + length bs \<le> length (f_bytes (sd_frame d g))"
        and e: "rx_store bs d = sd_upd g (\<lambda>fr. fr\<lparr>f_bytes := take off (f_bytes (sd_frame d g)) @ bs
          @ drop (off + length bs) (f_bytes (sd_frame d g))\<rparr>) d"
      then have "rx_core h (rx_store bs d)" unfolding e using c by (intro core_upd) simp_all
      then show ?thesis unfolding e by (simp add: drv_simps pool_simps)
    qed
  qed
  then show "rx_core h (rx_store bs d)" "sd_in_frame (rx_store bs d) = sd_in_frame d"
    "f_elen (sd_frame (rx_store bs d) f) = f_elen (sd_frame d f)" "fp_framesize (sd_pool (rx_store bs d)) = fp_framesize (sd_pool d)"
    "sd_framer (rx_store bs d) = sd_framer d" by blast+
qed

lemma rx_transfer_ok:
  assumes "rx_ok h d" "length bs = sd_rx_len d"
  shows "rx_ok h (rx_transfer bs d)"
proof -
  note st = rx_store_ok [OF assms]
  have "unat (f_elen (sd_frame d f)) < fp_framesize (sd_pool d)" if "sd_in_frame d = Some f" for f
    using assms(1) that by (simp add: rx_ok_def rx_armed_def)
  then show ?thesis unfolding rx_transfer_def using st by (intro s_on_rx_ok(1)) auto
qed

lemma rx_error_ok: "rx_ok h d \<Longrightarrow> rx_ok h (s_on_rx m d)"
  by (rule s_on_rx_ok(2)) (auto simp: rx_ok_def rx_armed_def)

lemma rx_feed_ok: "rx_ok h d \<Longrightarrow> rx_ok h (fst (rx_feed bs d))"
proof (induction bs d rule: rx_feed.induct)
  case (1 bs d)
  then show ?case by (subst rx_feed.simps) (auto simp: rx_transfer_ok)
qed

section \<open>Delivery\<close>

lemma dec_loop_total:
  assumes "j \<le> i" "n < length buf" "i \<le> n + 1"
  shows "\<exists>buf' k. dec_loop buf n i j = Some (buf', k) \<and> length buf' = length buf \<and> k \<le> j + (n - i)
    \<and> j + (n - i + 1) div 2 \<le> k"
  using assms
proof (induction buf n i j rule: dec_loop.induct)
  case (1 buf n i j)
  show ?case
  proof (cases "i < n")
    case False
    then show ?thesis by (subst dec_loop.simps) auto
  next
    case lt: True
    then have b: "\<not> length buf \<le> i" "\<not> length buf \<le> i + 1" using "1.prems" by auto
    show ?thesis
    proof (cases "buf ! i = IOHDLC_CTLESC")
      case True
      have "\<exists>buf' k. dec_loop (buf[j := buf ! (i + 1) XOR IOHDLC_TMASK]) n (i + 2) (j + 1) = Some (buf', k)
          \<and> length buf' = length buf \<and> k \<le> j + 1 + (n - (i + 2)) \<and> j + 1 + (n - (i + 2) + 1) div 2 \<le> k"
        using "1.IH"(1) [OF lt b(1) True b(2)] "1.prems" lt by simp
      then show ?thesis using lt b True by (subst dec_loop.simps) auto
    next
      case False
      have "\<exists>buf' k. dec_loop (buf[j := buf ! i]) n (i + 1) (j + 1) = Some (buf', k)
          \<and> length buf' = length buf \<and> k \<le> j + 1 + (n - (i + 1)) \<and> j + 1 + (n - (i + 1) + 1) div 2 \<le> k"
        using "1.IH"(2) [OF lt b(1) False] "1.prems" lt by simp
      then show ?thesis using lt b False by (subst dec_loop.simps) auto
    qed
  qed
qed

lemma decode_total:
  assumes "unat e < length buf" "length buf < 65536"
  obtains buf' k where "ioHdlcFrameTransparentDecode buf e = Some (buf', k)" "length buf' = length buf"
    "unat k \<le> unat e" "(unat e + 1) div 2 \<le> unat k"
proof -
  obtain buf' m where "dec_loop buf (unat e) 0 0 = Some (buf', m)" "length buf' = length buf"
    "m \<le> unat e" "(unat e + 1) div 2 \<le> m" using dec_loop_total [of 0 0 "unat e" buf] assms(1) by auto
  then show ?thesis using assms
    by (intro that [of buf' "word_of_nat m"]) (simp_all add: ioHdlcFrameTransparentDecode_def unat_u16)
qed

text \<open>A frame that is taken from the queue can be examined, and at least two octets are left of it.\<close>

lemma recv_check_total:
  assumes "framer_ok F" "unat (f_elen fm) < length (f_bytes fm)" "length (f_bytes fm) < 65536" "4 \<le> unat (f_elen fm)"
  obtains ok bs e where "recv_check F fm = Some (ok, fm\<lparr>f_bytes := bs, f_elen := e\<rparr>)" "length bs = length (f_bytes fm)"
    "unat e \<le> unat (f_elen fm)" "2 \<le> unat e"
proof -
  have chk: "\<exists>r. (if 0 < dc_fcs_size (fr_cfg F) then rx_check_fn (fr_policy F) (fr_backend F) (dc_fcs_size (fr_cfg F)) xs
      else Some True) = Some r" for xs
    using fcs_contract.check_total [OF framer_contract [OF assms(1)], of xs] by (simp split: if_splits)
  obtain bs e where d: "(if dc_apply_transparency (fr_cfg F) then ioHdlcFrameTransparentDecode (f_bytes fm) (f_elen fm)
      else Some (f_bytes fm, f_elen fm)) = Some (bs, e)" "length bs = length (f_bytes fm)"
    "unat e \<le> unat (f_elen fm)" "2 \<le> unat e"
  proof (cases "dc_apply_transparency (fr_cfg F)")
    case True
    show ?thesis
    proof (rule decode_total [OF assms(2,3)])
      fix buf' k
      assume "ioHdlcFrameTransparentDecode (f_bytes fm) (f_elen fm) = Some (buf', k)" "length buf' = length (f_bytes fm)"
        "unat k \<le> unat (f_elen fm)" "(unat (f_elen fm) + 1) div 2 \<le> unat k"
      then show ?thesis using True assms(4) by (intro that [of buf' k]) auto
    qed
  next
    case False
    then show ?thesis using assms(4) by (intro that [of "f_bytes fm" "f_elen fm"]) auto
  qed
  obtain r where r: "(if 0 < dc_fcs_size (fr_cfg F) then rx_check_fn (fr_policy F) (fr_backend F) (dc_fcs_size (fr_cfg F))
      (take (unat e) bs) else Some True) = Some r" using chk by blast
  have "recv_check F fm = Some (r \<and> (if dc_frame_format_size (fr_cfg F) \<noteq> 0 \<and> 0 < e then declared_len bs = e else True),
      fm\<lparr>f_bytes := bs, f_elen := e\<rparr>)"
    unfolding recv_check_def Let_def d(1) option.case prod.case r by (rule refl)
  then show ?thesis using d(2-4) by (rule that)
qed

lemma core_dequeue:
  assumes "rx_core h d" "sd_recept_q d = f # fs"
  shows "rx_core (h(f := 1)) (d\<lparr>sd_recept_q := fs\<rparr>)" "f \<notin> set (rx_frames (d\<lparr>sd_recept_q := fs\<rparr>))" "h f = 0"
proof -
  note u = rx_coreD [OF assms(1)]
  have m: "set (rx_frames d) = insert f (set (rx_frames (d\<lparr>sd_recept_q := fs\<rparr>)))"
    using assms(2) by (auto simp: rx_frames_def)
  show n: "f \<notin> set (rx_frames (d\<lparr>sd_recept_q := fs\<rparr>))" and h0: "h f = 0"
    using u(4) u(5) [of f] assms(2) by (auto simp: rx_frames_def split: option.splits)
  have "distinct (rx_frames (d\<lparr>sd_recept_q := fs\<rparr>))" using u(4) assms(2) by (auto simp: rx_frames_def split: option.splits)
  then show "rx_core (h(f := 1)) (d\<lparr>sd_recept_q := fs\<rparr>)"
    using assms n h0 unfolding rx_core_def m by (auto simp: sd_frame_def fun_eq_iff)
qed

lemma core_release_held:
  assumes "rx_core (h(f := 1)) d" "f \<notin> set (rx_frames d)" "h f = 0"
  shows "rx_core h (sd_release f d)" "sd_in_frame (sd_release f d) = sd_in_frame d" "sd_framer (sd_release f d) = sd_framer d"
    "sd_rx_dst (sd_release f d) = sd_rx_dst d" "sd_rx_len (sd_release f d) = sd_rx_len d"
    "f_elen (sd_frame (sd_release f d) g) = f_elen (sd_frame d g)"
    "fp_framesize (sd_pool (sd_release f d)) = fp_framesize (sd_pool d)"
proof -
  note u = rx_coreD [OF assms(1)]
  have r: "pool_refs (sd_pool d) f = 1" using u(6) [of f] assms(2) by simp
  obtain P c where P: "sd_release f d = d\<lparr>sd_pool := P, sd_calls := c\<rparr>" "pool_ok P"
      "pool_refs P = (pool_refs (sd_pool d))(f := 0)" "fp_framesize P = fp_framesize (sd_pool d)"
      "\<And>g. f_elen (fp_heap P g) = f_elen (sd_frame d g)" by (rule release_owned [OF u(1) r]) metis
  have m: "rx_frames (d\<lparr>sd_pool := P, sd_calls := c\<rparr>) = rx_frames d" by (simp add: rx_frames_def)
  have z: "h g = 0" if "g \<in> set (rx_frames d)" for g
    using u(5) [OF that] that assms(2) by (cases "g = f") auto
  show "rx_core h (sd_release f d)"
    using assms P z unfolding P(1) rx_core_def m by (auto simp: sd_frame_def fun_eq_iff)
  show "sd_in_frame (sd_release f d) = sd_in_frame d" "sd_framer (sd_release f d) = sd_framer d"
    "sd_rx_dst (sd_release f d) = sd_rx_dst d" "sd_rx_len (sd_release f d) = sd_rx_len d"
    "f_elen (sd_frame (sd_release f d) g) = f_elen (sd_frame d g)"
    "fp_framesize (sd_pool (sd_release f d)) = fp_framesize (sd_pool d)" using P by (simp_all add: sd_frame_def)
qed

lemma armed_cong:
  "sd_in_frame d' = sd_in_frame d \<Longrightarrow> sd_rx_dst d' = sd_rx_dst d \<Longrightarrow> sd_rx_len d' = sd_rx_len d
    \<Longrightarrow> sd_framer d' = sd_framer d \<Longrightarrow> fp_framesize (sd_pool d') = fp_framesize (sd_pool d)
    \<Longrightarrow> (\<And>f. sd_in_frame d = Some f \<Longrightarrow> f_elen (sd_frame d' f) = f_elen (sd_frame d f)) \<Longrightarrow> rx_armed d' = rx_armed d"
  by (cases "sd_in_frame d") (simp_all add: rx_armed_def)

lemma queued_frame:
  assumes "rx_core h d" "f \<in> set (sd_recept_q d)"
  shows "4 \<le> unat (f_elen (sd_frame d f))" "unat (f_elen (sd_frame d f)) < length (f_bytes (sd_frame d f))"
    "length (f_bytes (sd_frame d f)) = fp_framesize (sd_pool d)" "length (f_bytes (sd_frame d f)) < 65536"
proof -
  have "pool_refs (sd_pool d) f \<noteq> 0" using rx_coreD(6) [OF assms(1), of f] assms(2) by (simp add: rx_frames_def)
  then have "f < unat (fp_total (sd_pool d))" by (auto simp: pool_refs_def split: if_splits)
  then show ln: "length (f_bytes (sd_frame d f)) = fp_framesize (sd_pool d)"
    using pool_okD(5) [OF rx_coreD(1) [OF assms(1)]] by (simp add: sd_frame_def)
  show "4 \<le> unat (f_elen (sd_frame d f))" "unat (f_elen (sd_frame d f)) < length (f_bytes (sd_frame d f))"
    "length (f_bytes (sd_frame d f)) < 65536"
    using rx_coreD(3) [OF assms(1)] rx_coreD(7) [OF assms(1,2)] unfolding ln by auto
qed

lemma rx_ok_sem: "rx_ok h d \<Longrightarrow> rx_ok h (d\<lparr>sd_sem := n\<rparr>)"
  by (simp add: rx_ok_def rx_core_def rx_armed_def rx_frames_def drv_simps cong: option.case_cong)

text \<open>The frame at the head is taken out and its octets and length are rewritten.\<close>

lemma dequeue_upd:
  assumes "rx_ok h d" "sd_recept_q d = f # fs" "length bs = length (f_bytes (sd_frame d f))"
  shows "rx_core (h(f := 1)) (sd_upd f (\<lambda>_. (sd_frame d f)\<lparr>f_bytes := bs, f_elen := x\<rparr>) (d\<lparr>sd_recept_q := fs\<rparr>))"
    and "rx_armed (sd_upd f (\<lambda>_. (sd_frame d f)\<lparr>f_bytes := bs, f_elen := x\<rparr>) (d\<lparr>sd_recept_q := fs\<rparr>))"
    and "f \<notin> set (rx_frames (sd_upd f (\<lambda>_. (sd_frame d f)\<lparr>f_bytes := bs, f_elen := x\<rparr>) (d\<lparr>sd_recept_q := fs\<rparr>)))" "h f = 0"
proof -
  let ?d = "sd_upd f (\<lambda>_. (sd_frame d f)\<lparr>f_bytes := bs, f_elen := x\<rparr>) (d\<lparr>sd_recept_q := fs\<rparr>)"
  have c: "rx_core h d" "rx_armed d" using assms(1) by (simp_all add: rx_ok_def)
  note dq = core_dequeue [OF c(1) assms(2)]
  have fne: "sd_in_frame d \<noteq> Some f" "f \<notin> set fs" using dq(2) by (auto simp: rx_frames_def split: option.splits)
  show "rx_core (h(f := 1)) ?d" using dq(1) fne assms(3) by (intro core_upd) (simp_all add: drv_simps)
  show "rx_armed ?d" using c(2) fne by (subst armed_cong [where d = d]) (auto simp: drv_simps pool_simps)
  show "f \<notin> set (rx_frames ?d)" using dq(2) by (simp add: rx_frames_def drv_simps)
  show "h f = 0" by (rule dq(3))
qed

text \<open>The frame handed to the caller is his alone, and its length is that of the frame without FCS.\<close>

lemma drv_recv_frame_ok:
  assumes "rx_ok h d" "framer_ok (sd_framer d)" "frame_fcs (sd_framer d) \<le> 2"
  shows "case drv_recv_frame d of
      (None, d') \<Rightarrow> rx_ok h d' \<and> sd_framer d' = sd_framer d
    | (Some f, d') \<Rightarrow> h f = 0 \<and> rx_ok (h(f := 1)) d' \<and> sd_framer d' = sd_framer d
        \<and> unat (f_elen (sd_frame d' f)) + frame_fcs (sd_framer d) < fp_framesize (sd_pool d')"
  using assms
proof (induction d rule: drv_recv_frame.induct)
  case (1 d)
  let ?d1 = "d\<lparr>sd_sem := sd_sem d - 1\<rparr>"
  have ok1: "rx_ok h ?d1" by (rule rx_ok_sem [OF "1.prems"(1)])
  then have c1: "rx_core h ?d1" by (simp add: rx_ok_def)
  show ?case
  proof (cases "sd_sem d = 0 \<or> sd_recept_q d = []")
    case True
    then show ?thesis using "1.prems" ok1 by (subst drv_recv_frame.simps) (auto simp: Let_def)
  next
    case False
    then obtain f fs where q1: "sd_recept_q ?d1 = f # fs" and s0: "sd_sem d \<noteq> 0" by (cases "sd_recept_q d") auto
    let ?d2 = "?d1\<lparr>sd_recept_q := fs\<rparr>"
    have "f \<in> set (sd_recept_q ?d1)" unfolding q1 by simp
    note el = queued_frame [OF c1 this, simplified drv_simps]
    obtain ok bs e where r: "recv_check (sd_framer d) (sd_frame d f) = Some (ok, (sd_frame d f)\<lparr>f_bytes := bs, f_elen := e\<rparr>)"
      "length bs = length (f_bytes (sd_frame d f))" "unat e \<le> unat (f_elen (sd_frame d f))" "2 \<le> unat e"
      using recv_check_total [OF "1.prems"(2) el(2,4,1)] by metis
    let ?fm = "(sd_frame d f)\<lparr>f_bytes := bs, f_elen := e\<rparr>"
    have "length bs = length (f_bytes (sd_frame ?d1 f))" using r(2) by (simp add: drv_simps)
    note upd = dequeue_upd [OF ok1 q1 this, unfolded drv_simps]
    show ?thesis
    proof (cases ok)
      case True
      let ?x = "e - ucast (dc_fcs_size (fr_cfg (sd_framer d)))"
      let ?d3 = "sd_upd f (\<lambda>_. (sd_frame d f)\<lparr>f_bytes := bs, f_elen := ?x\<rparr>) ?d2"
      have D: "drv_recv_frame d = (Some f, ?d3)"
        using s0 q1 r True by (subst drv_recv_frame.simps) (simp add: Let_def drv_simps)
      have "unat ?x = unat e - frame_fcs (sd_framer d)"
        using r(4) "1.prems"(3) by (simp add: frame_fcs_def unat_sub word_le_nat_alt unsigned_ucast_eq take_bit_eq_mod)
      then have "unat (f_elen (sd_frame ?d3 f)) + frame_fcs (sd_framer d) < fp_framesize (sd_pool ?d3)"
        using r(3,4) el "1.prems"(3) by (simp add: drv_simps pool_simps)
      then show ?thesis unfolding D using upd(1,2) [of ?x] upd(4) by (simp add: rx_ok_def drv_simps)
    next
      case False
      let ?d3 = "sd_upd f (\<lambda>_. ?fm) ?d2"
      note rel = core_release_held [OF upd(1,3) [of e] upd(4)]
      have "rx_armed (sd_release f ?d3) = rx_armed ?d3" by (rule armed_cong) (simp_all only: rel(2-7))
      then have ok: "rx_ok h (sd_release f ?d3)" using rel(1) upd(2) [of e] by (simp add: rx_ok_def)
      have R: "recv_check (sd_framer ?d2) (sd_frame ?d2 f) = Some (ok, ?fm)" using r(1) by (simp add: drv_simps)
      have D: "drv_recv_frame d = drv_recv_frame (sd_release f ?d3)"
        using s0 q1 r False by (subst drv_recv_frame.simps) (simp add: Let_def drv_simps)
      have F: "sd_framer (sd_release f ?d3) = sd_framer d" unfolding rel(3) by (simp add: drv_simps)
      show ?thesis
        unfolding D using "1.IH" [OF s0 refl q1 refl R refl False ok] "1.prems"(2,3) unfolding F .
    qed
  qed
qed

section \<open>Runs of the receiver\<close>

text \<open>The port completes the armed transfer, reports an error or a timeout, or the caller fetches a frame,
  which is then his.\<close>

datatype rx_event = RxDone "u8 list" | RxError u32 | RxFetch

fun rx_step :: "rx_event \<Rightarrow> (nat \<Rightarrow> nat) \<times> swdrv \<Rightarrow> (nat \<Rightarrow> nat) \<times> swdrv" where
  "rx_step (RxDone bs) (h, d) = (h, if length bs = sd_rx_len d then rx_transfer bs d else d)"
| "rx_step (RxError m) (h, d) = (h, if m \<noteq> 0 then s_on_rx m d else d)"
| "rx_step RxFetch (h, d) = (case drv_recv_frame d of (None, d') \<Rightarrow> (h, d') | (Some f, d') \<Rightarrow> (h(f := 1), d'))"

definition rx_run :: "rx_event list \<Rightarrow> (nat \<Rightarrow> nat) \<times> swdrv \<Rightarrow> (nat \<Rightarrow> nat) \<times> swdrv" where
  "rx_run evs s = foldl (\<lambda>s e. rx_step e s) s evs"

text \<open>No step touches the configuration.\<close>

lemma framer_release [drv_simps]: "sd_framer (sd_release f d) = sd_framer d"
  by (simp add: sd_release_def sd_failed_def split: option.split)

lemma framer_newframe [drv_simps]: "sd_framer (rx_newframe b n m d) = sd_framer d"
  by (simp add: rx_newframe_def Let_def case_prod_beta drv_simps split: option.split)

lemma framer_discard [drv_simps]: "sd_framer (rx_discard d) = sd_framer d"
  by (simp add: rx_discard_def s_handle_rx_error_def release_opt_def drv_simps split: option.split)

lemma framer_octet [drv_simps]: "sd_framer (rx_octet f d) = sd_framer d"
  by (simp add: rx_octet_def rx_data_octet_def rx_accumulate_def rx_announced_def Let_def drv_simps)

lemma framer_on_rx [drv_simps]: "sd_framer (s_on_rx m d) = sd_framer d"
  by (simp add: s_on_rx_def Let_def drv_simps split: option.split)

lemma rx_step_ok:
  assumes "rx_ok h d" "framer_ok (sd_framer d)" "frame_fcs (sd_framer d) \<le> 2" "rx_step e (h, d) = (h', d')"
  shows "rx_ok h' d' \<and> sd_framer d' = sd_framer d"
proof (cases e)
  case (RxDone bs)
  then show ?thesis using assms rx_transfer_ok rx_store_ok(5) by (auto simp: rx_transfer_def drv_simps)
next
  case (RxError m)
  then show ?thesis using assms rx_error_ok by (auto simp: drv_simps)
next
  case RxFetch
  then show ?thesis using assms drv_recv_frame_ok [OF assms(1-3)]
    by (auto split: prod.splits option.splits)
qed

lemma rx_run_ok:
  assumes "rx_ok h d" "framer_ok (sd_framer d)" "frame_fcs (sd_framer d) \<le> 2" "rx_run evs (h, d) = (h', d')"
  shows "rx_ok h' d' \<and> sd_framer d' = sd_framer d"
  using assms
proof (induction evs arbitrary: h d)
  case (Cons e evs)
  obtain h1 d1 where e: "rx_step e (h, d) = (h1, d1)" by fastforce
  note s1 = rx_step_ok [OF Cons.prems(1-3) e]
  have "rx_run evs (h1, d1) = (h', d')" using Cons.prems(4) e by (simp add: rx_run_def)
  then show ?case using Cons.IH [of h1 d1] s1 Cons.prems(2,3) by simp
qed (simp add: rx_run_def)

text \<open>The state in which \<open>drv_start\<close> leaves the receiver of an instance that owns no frame.\<close>

lemma drv_start_ok:
  assumes "pool_ok P" "1 < fp_framesize P" "fp_framesize P < 65536"
    and "sd_recept_q d = []" "\<not> sd_fault d" "\<not> sd_rx_zero d"
  shows "rx_ok (pool_refs P) (drv_start caps P d)"
  using assms by (simp add: drv_start_def Let_def resolve_policy_def rx_ok_def rx_core_def rx_armed_def rx_frames_def drv_simps)

lemma configured_idle:
  assumes "ioHdlcSwDriverInit backend P0 = Some d0" "drv_configure_store fcs tr fff d0 = (None, d)"
  shows "sd_recept_q d = []" "\<not> sd_fault d" "\<not> sd_rx_zero d"
  using assms by (auto simp: ioHdlcSwDriverInit_def Let_def drv_configure_store_def resolve_policy_def
      split: option.splits sum.splits)


section \<open>A receiver\<close>

definition sample_pool :: pool where
  "sample_pool = fmpInit (\<lambda>_. sample_tx_frame) 32 3"

definition sample_driver :: "bool \<Rightarrow> u8 \<Rightarrow> swdrv" where
  "sample_driver tr fff = (case ioHdlcSwDriverInit None sample_pool of
     Some d \<Rightarrow> snd (drv_configure_store 2 tr fff d))"

definition sample_receiver :: "bool \<Rightarrow> u8 \<Rightarrow> swdrv" where
  "sample_receiver tr fff = drv_start None sample_pool (sample_driver tr fff)"

lemma sample_pool_ok: "pool_ok sample_pool" "fp_framesize sample_pool = 32"
  unfolding sample_pool_def by (rule fmpInit_ok) (simp add: fmpInit_def hdlc_pool_init_watermark_def)

lemma sample_init:
  assumes "tr = False \<and> fff \<in> {0, 1, 2} \<or> tr = True \<and> fff = 0"
  obtains d0 where "ioHdlcSwDriverInit None sample_pool = Some d0"
    "drv_configure_store 2 tr fff d0 = (None, sample_driver tr fff)"
    "sd_framer (sample_driver tr fff) = (let cfg = \<lparr>dc_fcs_size = 2, dc_apply_transparency = tr, dc_frame_format_size = fff\<rparr>
      in \<lparr>fr_cfg = cfg, fr_backend = None, fr_policy = s_resolve_fcs_policy None no_sizes True cfg\<rparr>)"
proof -
  have caps: "init_caps None = Some s_swdriver_base_caps" by code_simp
  then obtain d0 where d0: "ioHdlcSwDriverInit None sample_pool = Some d0" "sd_caps d0 = s_swdriver_base_caps"
    "fr_backend (sd_framer d0) = None" "sd_offload d0 = no_sizes" "sd_materialize d0"
    by (simp add: ioHdlcSwDriverInit_def Let_def)
  have "drv_configure s_swdriver_base_caps 2 False 0 = Inr \<lparr>dc_fcs_size = 2, dc_apply_transparency = False, dc_frame_format_size = 0\<rparr>"
    "drv_configure s_swdriver_base_caps 2 False 1 = Inr \<lparr>dc_fcs_size = 2, dc_apply_transparency = False, dc_frame_format_size = 1\<rparr>"
    "drv_configure s_swdriver_base_caps 2 False 2 = Inr \<lparr>dc_fcs_size = 2, dc_apply_transparency = False, dc_frame_format_size = 2\<rparr>"
    "drv_configure s_swdriver_base_caps 2 True 0 = Inr \<lparr>dc_fcs_size = 2, dc_apply_transparency = True, dc_frame_format_size = 0\<rparr>"
    by code_simp+
  then have "drv_configure (sd_caps d0) 2 tr fff = Inr \<lparr>dc_fcs_size = 2, dc_apply_transparency = tr, dc_frame_format_size = fff\<rparr>"
    using assms d0(2) by auto
  then show ?thesis using d0
    by (intro that [of d0]) (simp_all add: drv_configure_store_def sample_driver_def resolve_policy_def Let_def)
qed

lemma sample_receiver_framer:
  assumes "tr = False \<and> fff \<in> {0, 1, 2} \<or> tr = True \<and> fff = 0"
  shows "sd_framer (sample_receiver tr fff) = (let cfg = \<lparr>dc_fcs_size = 2, dc_apply_transparency = tr, dc_frame_format_size = fff\<rparr>
      in \<lparr>fr_cfg = cfg, fr_backend = None, fr_policy = s_resolve_fcs_policy None no_sizes True cfg\<rparr>)"
  by (rule sample_init [OF assms]) (simp add: sample_receiver_def drv_start_def resolve_policy_def Let_def drv_simps)

lemma sample_receiver_facts:
  assumes "tr = False \<and> fff \<in> {0, 1, 2} \<or> tr = True \<and> fff = 0"
  shows "framer_ok (sd_framer (sample_receiver tr fff))" "frame_fcs (sd_framer (sample_receiver tr fff)) = 2"
  using assms unfolding sample_receiver_framer [OF assms] Let_def
  by (auto intro!: resolved_framer_ok simp: frame_fcs_def)


text \<open>A frame format field that announces one octet arms a transfer of no octets, which the driver asserts
  never to do.\<close>

theorem announced_one_octet:
  "sd_rx_zero (snd (rx_run [RxDone [0x7E], RxDone [0x80], RxDone [1]] (pool_refs sample_pool, sample_receiver False 2)))"
  by code_simp

end
