(* ===== verification/Hdlc_DriverLink.thy ===== *)
theory Hdlc_DriverLink
  imports Hdlc_DriverRx
begin

text \<open>
  From the transmit side to the receive side: the frames that the transmitter writes on the line are
  the ones the receiver delivers.
\<close>

section \<open>Wire images\<close>

definition plain_mode :: "framer \<Rightarrow> bool" where
  "plain_mode F \<longleftrightarrow> dc_frame_format_size (fr_cfg F) = 0 \<or> dc_apply_transparency (fr_cfg F)"

text \<open>The octets between two flags that a receiver with buffers of \<open>fs\<close> octets can follow.\<close>

definition wire_ok :: "framer \<Rightarrow> nat \<Rightarrow> u8 list \<Rightarrow> bool" where
  "wire_ok F fs w \<longleftrightarrow> 4 \<le> length w \<and> length w < fs
     \<and> (if plain_mode F then IOHDLC_FLAG \<notin> set w
        else take (frame_fff F) w = fff_octets (frame_fff F) (length w) \<and> length w < fff_limit (frame_fff F)
          \<and> hd w \<noteq> IOHDLC_FLAG)"

definition frame_content :: "swdrv \<Rightarrow> nat \<Rightarrow> u8 list" where
  "frame_content d f = take (unat (f_elen (sd_frame d f))) (f_bytes (sd_frame d f))"

text \<open>Everything but the frame under construction is as before.\<close>

definition same_rest :: "nat \<Rightarrow> swdrv \<Rightarrow> swdrv \<Rightarrow> bool" where
  "same_rest f d d' \<longleftrightarrow> sd_recept_q d' = sd_recept_q d \<and> sd_sem d' = sd_sem d \<and> sd_framer d' = sd_framer d
     \<and> fp_free (sd_pool d') = fp_free (sd_pool d) \<and> fp_framesize (sd_pool d') = fp_framesize (sd_pool d)
     \<and> (\<forall>g. g \<noteq> f \<longrightarrow> sd_frame d' g = sd_frame d g)"

lemma same_rest_trans: "same_rest f d d' \<Longrightarrow> same_rest f d' d'' \<Longrightarrow> same_rest f d d''"
  by (auto simp: same_rest_def)

lemma rx_feed_transfer:
  "length bs = sd_rx_len d \<Longrightarrow> 0 < sd_rx_len d \<Longrightarrow> rx_feed (bs @ rest) d = rx_feed rest (rx_transfer bs d)"
  by (subst rx_feed.simps) auto

section \<open>One octet\<close>

lemma frame_transfer:
  assumes "rx_ok h d" "sd_in_frame d = Some f" "length bs = sd_rx_len d" "0 < length bs"
    and "e = unat (f_elen (sd_frame d f))" "B = f_bytes (sd_frame d f)"
  shows "rx_transfer bs d = rx_octet f (sd_upd f (\<lambda>fr. fr\<lparr>f_bytes := take (e + 1 - length bs) B @ bs @ drop (e + 1) B\<rparr>) d)"
    and "byte_at (take (e + 1 - length bs) B @ bs @ drop (e + 1) B) e = last bs" "length bs \<le> e + 1" "e < length B"
proof -
  obtain off where off: "off + length bs = e + 1" "off + length bs \<le> length B"
    "rx_store bs d = sd_upd f (\<lambda>fr. fr\<lparr>f_bytes := take off B @ bs @ drop (off + length bs) B\<rparr>) d"
    by (rule rx_store_frame [OF assms(1-3)]) (use assms(5,6) in auto)
  have o: "off = e + 1 - length bs" using off(1) by simp
  show "rx_transfer bs d = rx_octet f (sd_upd f (\<lambda>fr. fr\<lparr>f_bytes := take (e + 1 - length bs) B @ bs @ drop (e + 1) B\<rparr>) d)"
    unfolding rx_transfer_def off(3) using assms(2) off(1) o by (simp add: s_on_rx_def has_def drv_simps)
  show "length bs \<le> e + 1" "e < length B" using off(1,2) by simp_all
  show "byte_at (take (e + 1 - length bs) B @ bs @ drop (e + 1) B) e = last bs"
  proof -
    have "e - off = length bs - 1" "off \<le> e" "off \<le> length B" "bs \<noteq> []"
      using off(1,2) assms(4) by (cases bs; simp)+
    moreover have "e < off + (length bs + length B) - Suc e" using off(1,2) by simp
    ultimately show ?thesis using off(1,2) unfolding o [symmetric] by (simp add: byte_at_def nth_append last_conv_nth)
  qed
qed

lemma accumulate_step:
  assumes "rx_ok h d" "sd_in_frame d = Some f" "sd_rx_len d = 1" "plain_mode (sd_framer d)" "x \<noteq> IOHDLC_FLAG"
    "unat (f_elen (sd_frame d f)) + 1 < fp_framesize (sd_pool d)"
  shows "sd_in_frame (rx_transfer [x] d) = Some f" "sd_rx_len (rx_transfer [x] d) = 1"
    "unat (f_elen (sd_frame (rx_transfer [x] d) f)) = unat (f_elen (sd_frame d f)) + 1"
    "frame_content (rx_transfer [x] d) f = frame_content d f @ [x]" "same_rest f d (rx_transfer [x] d)"
proof -
  define e where "e = unat (f_elen (sd_frame d f))"
  define B where "B = f_bytes (sd_frame d f)"
  have ft: "length [x] = sd_rx_len d" "0 < length [x]" using assms(3) by simp_all
  note t = frame_transfer [OF assms(1,2) ft e_def B_def]
  let ?d = "sd_upd f (\<lambda>fr. fr\<lparr>f_bytes := take (e + 1 - length [x]) B @ [x] @ drop (e + 1) B\<rparr>) d"
  have c: "rx_core h d" using assms(1) by (simp add: rx_ok_def)
  have e1: "unat (f_elen (sd_frame d f) + 1) = e + 1"
    using assms(6) rx_coreD(3) [OF c] by (simp add: elen_inc [of _ "fp_framesize (sd_pool d)"] e_def)
  have "rx_octet f ?d = rx_accumulate f ?d"
    using assms(4,5) t(2) by (simp add: rx_octet_def rx_data_octet_def Let_def drv_simps plain_mode_def e_def [symmetric])
  also have "\<dots> = rx_submit (RxBuf (e + 1)) 1 IOHDLC_RX_CONTINUE_PACKET (sd_upd f (\<lambda>fr. fr\<lparr>f_elen := f_elen (sd_frame d f) + 1\<rparr>) ?d)"
    using assms(2,6) e1 by (simp add: rx_accumulate_def Let_def drv_simps pool_simps rx_newframe_def e_def [symmetric])
  finally have r: "rx_transfer [x] d = rx_submit (RxBuf (e + 1)) 1 IOHDLC_RX_CONTINUE_PACKET
      (sd_upd f (\<lambda>fr. fr\<lparr>f_elen := f_elen (sd_frame d f) + 1\<rparr>) ?d)" using t(1) by simp
  show "sd_in_frame (rx_transfer [x] d) = Some f" "sd_rx_len (rx_transfer [x] d) = 1"
    "unat (f_elen (sd_frame (rx_transfer [x] d) f)) = unat (f_elen (sd_frame d f)) + 1"
    "same_rest f d (rx_transfer [x] d)"
    unfolding r using assms(2) e1 by (simp_all add: drv_simps pool_simps same_rest_def e_def)
  show "frame_content (rx_transfer [x] d) f = frame_content d f @ [x]"
    unfolding r frame_content_def using e1 t(4) by (simp add: drv_simps e_def [symmetric] B_def [symmetric])
qed

lemma feed_plain:
  assumes "rx_ok h d" "sd_in_frame d = Some f" "sd_rx_len d = 1" "plain_mode (sd_framer d)" "IOHDLC_FLAG \<notin> set w"
    "unat (f_elen (sd_frame d f)) + length w < fp_framesize (sd_pool d)"
  shows "\<exists>d'. rx_feed (w @ rest) d = rx_feed rest d' \<and> rx_ok h d' \<and> sd_in_frame d' = Some f \<and> sd_rx_len d' = 1
    \<and> unat (f_elen (sd_frame d' f)) = unat (f_elen (sd_frame d f)) + length w
    \<and> frame_content d' f = frame_content d f @ w \<and> same_rest f d d'"
  using assms
proof (induction w arbitrary: d)
  case Nil
  then show ?case by (intro exI [of _ d]) (simp add: same_rest_def)
next
  case (Cons x w)
  let ?d = "rx_transfer [x] d"
  have l1: "length [x] = sd_rx_len d" using Cons.prems(3) by simp
  have p: "x \<noteq> IOHDLC_FLAG" "unat (f_elen (sd_frame d f)) + 1 < fp_framesize (sd_pool d)" using Cons.prems(5,6) by auto
  note s = accumulate_step [OF Cons.prems(1-4) p]
  have sr: "sd_framer ?d = sd_framer d" "fp_framesize (sd_pool ?d) = fp_framesize (sd_pool d)"
    using s(5) by (simp_all add: same_rest_def)
  obtain d' where d': "rx_feed (w @ rest) ?d = rx_feed rest d'" "rx_ok h d'" "sd_in_frame d' = Some f" "sd_rx_len d' = 1"
    "unat (f_elen (sd_frame d' f)) = unat (f_elen (sd_frame ?d f)) + length w"
    "frame_content d' f = frame_content ?d f @ w" "same_rest f ?d d'"
    using Cons.IH [OF rx_transfer_ok [OF Cons.prems(1) l1] s(1,2)] Cons.prems(4-6) s(3) sr by auto
  moreover have "rx_feed ((x # w) @ rest) d = rx_feed (w @ rest) ?d"
    using rx_feed_transfer [OF l1, of "w @ rest"] Cons.prems(3) by simp
  ultimately show ?case using s(3,4) same_rest_trans [OF s(5)] by (intro exI [of _ d']) simp
qed

section \<open>The closing flag\<close>

text \<open>Ready for the first octet of a frame: a buffer is at hand and empty.\<close>

definition rx_ready :: "swdrv \<Rightarrow> nat \<Rightarrow> bool" where
  "rx_ready d f \<longleftrightarrow> sd_in_frame d = Some f \<and> f_elen (sd_frame d f) = 0 \<and> sd_rx_len d = 1"

text \<open>The flag that closes a frame opens the next, if the pool has a buffer for it.\<close>

lemma open_next:
  assumes "sd_in_frame d = None" "sd_stage d = Some IOHDLC_FLAG"
  defines "d' \<equiv> rx_newframe RxStage 1 IOHDLC_RX_START_PACKET d"
  shows "sd_recept_q d' = sd_recept_q d" "sd_sem d' = sd_sem d" "sd_framer d' = sd_framer d"
    "fp_framesize (sd_pool d') = fp_framesize (sd_pool d)" "fp_free (sd_pool d') = tl (fp_free (sd_pool d))"
    "fp_free (sd_pool d) \<noteq> [] \<Longrightarrow> rx_ready d' (hd (fp_free (sd_pool d)))"
    "g \<notin> set (fp_free (sd_pool d)) \<Longrightarrow> sd_frame d' g = sd_frame d g"
proof -
  let ?d = "d\<lparr>sd_stage := Some 0\<rparr>"
  have "sd_recept_q d' = sd_recept_q d \<and> sd_sem d' = sd_sem d \<and> sd_framer d' = sd_framer d
    \<and> fp_framesize (sd_pool d') = fp_framesize (sd_pool d) \<and> fp_free (sd_pool d') = tl (fp_free (sd_pool d))
    \<and> (fp_free (sd_pool d) \<noteq> [] \<longrightarrow> rx_ready d' (hd (fp_free (sd_pool d))))
    \<and> (g \<notin> set (fp_free (sd_pool d)) \<longrightarrow> sd_frame d' g = sd_frame d g)"
  proof (cases "fp_free (sd_pool d)")
    case Nil
    then show ?thesis using assms(1,2)
      by (simp add: d'_def rx_newframe_def sd_take_def Let_def take_none drv_simps sd_frame_def)
  next
    case (Cons f fs)
    note t = take_some [OF Cons]
    have e: "d' = rx_submit (RxBuf 0) 1 IOHDLC_RX_CONTINUE_PACKET (sd_upd f (\<lambda>fr. fr\<lparr>f_elen := 0\<rparr>)
        ((snd (sd_take ?d))\<lparr>sd_in_frame := Some f\<rparr>))"
      using assms(1,2) t(1) by (simp add: d'_def rx_newframe_def case_prod_beta Let_def sd_take_def)
    show ?thesis unfolding e using Cons t
      by (simp add: drv_simps pool_simps rx_ready_def sd_take_def Let_def sd_frame_def)
  qed
  then show "sd_recept_q d' = sd_recept_q d" "sd_sem d' = sd_sem d" "sd_framer d' = sd_framer d"
    "fp_framesize (sd_pool d') = fp_framesize (sd_pool d)" "fp_free (sd_pool d') = tl (fp_free (sd_pool d))"
    "fp_free (sd_pool d) \<noteq> [] \<Longrightarrow> rx_ready d' (hd (fp_free (sd_pool d)))"
    "g \<notin> set (fp_free (sd_pool d)) \<Longrightarrow> sd_frame d' g = sd_frame d g" by blast+
qed

lemma close_step:
  assumes "rx_ok h d" "sd_in_frame d = Some f" "length (r @ [IOHDLC_FLAG]) = sd_rx_len d"
    and "n = unat (f_elen (sd_frame d f))" "4 \<le> n"
  defines "d' \<equiv> rx_transfer (r @ [IOHDLC_FLAG]) d"
  shows "sd_recept_q d' = sd_recept_q d @ [f]" "sd_sem d' = sd_sem d + 1" "sd_framer d' = sd_framer d"
    "fp_framesize (sd_pool d') = fp_framesize (sd_pool d)" "fp_free (sd_pool d') = tl (fp_free (sd_pool d))"
    "fp_free (sd_pool d) \<noteq> [] \<Longrightarrow> rx_ready d' (hd (fp_free (sd_pool d)))"
    "g \<noteq> f \<Longrightarrow> g \<notin> set (fp_free (sd_pool d)) \<Longrightarrow> sd_frame d' g = sd_frame d g"
    "unat (f_elen (sd_frame d' f)) = n"
    "frame_content d' f = take (n - length r) (f_bytes (sd_frame d f)) @ r"
proof -
  define B where "B = f_bytes (sd_frame d f)"
  have pos: "0 < length (r @ [IOHDLC_FLAG])" by simp
  note t = frame_transfer [OF assms(1,2,3) pos assms(4) B_def]
  define L where "L = take (n + 1 - length (r @ [IOHDLC_FLAG])) B @ (r @ [IOHDLC_FLAG]) @ drop (n + 1) B"
  let ?d = "sd_upd f (\<lambda>fr. fr\<lparr>f_bytes := L\<rparr>) d"
  let ?e = "?d\<lparr>sd_recept_q := sd_recept_q ?d @ [f], sd_sem := sd_sem ?d + 1, sd_in_frame := None, sd_stage := Some IOHDLC_FLAG\<rparr>"
  have c: "rx_core h d" using assms(1) by (simp add: rx_ok_def)
  have nf: "f \<notin> set (fp_free (sd_pool d))"
    using rx_coreD(6) [OF c, of f] assms(2) by (auto simp: pool_refs_def rx_frames_def split: if_splits)
  have e4: "\<not> f_elen (sd_frame d f) < HDLC_BASIC_MIN_L" "f_elen (sd_frame d f) \<noteq> 0" "f_elen (sd_frame d f) \<noteq> 1"
    using assms(4,5) by (auto simp: HDLC_BASIC_MIN_L_def word_less_nat_alt)
  have "byte_at L n = IOHDLC_FLAG" using t(2) by (simp add: L_def)
  then have "rx_octet f ?d = rx_newframe RxStage 1 IOHDLC_RX_START_PACKET ?e"
    using e4 assms(4) by (simp add: rx_octet_def Let_def drv_simps)
  then have d': "d' = rx_newframe RxStage 1 IOHDLC_RX_START_PACKET ?e" using t(1) by (simp add: d'_def L_def)
  have "sd_in_frame ?e = None" "sd_stage ?e = Some IOHDLC_FLAG" by simp_all
  note op = open_next [OF this, folded d']
  show "sd_recept_q d' = sd_recept_q d @ [f]" "sd_sem d' = sd_sem d + 1" "sd_framer d' = sd_framer d"
    "fp_framesize (sd_pool d') = fp_framesize (sd_pool d)" "fp_free (sd_pool d') = tl (fp_free (sd_pool d))"
    "fp_free (sd_pool d) \<noteq> [] \<Longrightarrow> rx_ready d' (hd (fp_free (sd_pool d)))"
    "g \<noteq> f \<Longrightarrow> g \<notin> set (fp_free (sd_pool d)) \<Longrightarrow> sd_frame d' g = sd_frame d g"
    using op by (simp_all add: drv_simps pool_simps)
  have fr: "sd_frame d' f = (sd_frame d f)\<lparr>f_bytes := L\<rparr>" using op(7) [of f] nf by (simp add: drv_simps pool_simps)
  show "unat (f_elen (sd_frame d' f)) = n" unfolding fr using assms(4) by simp
  have "take n L = take (n - length r) B @ r"
    using t(3,4) by (simp add: L_def)
  then show "frame_content d' f = take (n - length r) (f_bytes (sd_frame d f)) @ r"
    unfolding frame_content_def fr using assms(4) by (simp add: B_def)
qed

section \<open>The frame format field\<close>

lemma short_form_read:
  assumes "n < 128"
  shows "unat (word_of_nat n :: u8) = n" "\<not> has (word_of_nat n :: u8) 0x80"
proof -
  show u: "unat (word_of_nat n :: u8) = n" using assms by (simp add: unat_of_nat)
  have "(0x80 :: u8) = 128" by simp
  have "(word_of_nat n :: u8) AND NOT (mask 7) = 0" unfolding and_not_mask_zero u using assms by simp
  moreover have "(0x80 :: u8) = NOT (mask 7)" by code_simp
  ultimately show "\<not> has (word_of_nat n :: u8) 0x80" by (simp add: has_def)
qed

lemma long_form_read:
  assumes "n < 4096"
  defines "b0 \<equiv> word_of_nat (128 + n div 256) :: u8" and "b1 \<equiv> word_of_nat n :: u8"
  shows "b0 AND 0xF0 = 0x80" "256 * unat (b0 AND 0x0F) + unat b1 = n" "b0 \<noteq> IOHDLC_FLAG"
proof -
  have all: "\<forall>k \<in> set [0..<16]. (word_of_nat (128 + k) :: u8) AND 0xF0 = 0x80
      \<and> unat ((word_of_nat (128 + k) :: u8) AND 0x0F) = k \<and> (word_of_nat (128 + k) :: u8) \<noteq> IOHDLC_FLAG" by code_simp
  have "n div 256 \<in> set [0..<16]" using assms(1) by auto
  with all have k: "b0 AND 0xF0 = 0x80" "unat (b0 AND 0x0F) = n div 256" "b0 \<noteq> IOHDLC_FLAG"
    unfolding b0_def by blast+
  have "unat b1 = n mod 256" by (simp add: b1_def unat_of_nat)
  with k show "b0 AND 0xF0 = 0x80" "256 * unat (b0 AND 0x0F) + unat b1 = n" "b0 \<noteq> IOHDLC_FLAG"
    by simp_all
qed

text \<open>One octet of the field, which the receiver examines with the frame it stands in.\<close>

lemma header_octet:
  assumes "rx_ok h d" "sd_in_frame d = Some f" "sd_rx_len d = 1" "e = unat (f_elen (sd_frame d f))"
    and "x \<noteq> IOHDLC_FLAG \<or> frame_fff (sd_framer d) = 2 \<and> e = 1"
  obtains B where "rx_transfer [x] d = rx_data_octet f (sd_upd f (\<lambda>fr. fr\<lparr>f_bytes := B\<rparr>) d)"
    "take e B = take e (f_bytes (sd_frame d f))" "byte_at B e = x" "length B = length (f_bytes (sd_frame d f))"
    "e < length B"
proof -
  define B0 where "B0 = f_bytes (sd_frame d f)"
  have ft: "length [x] = sd_rx_len d" "0 < length [x]" using assms(3) by simp_all
  note t = frame_transfer [OF assms(1,2) ft assms(4) B0_def]
  let ?B = "take (e + 1 - length [x]) B0 @ [x] @ drop (e + 1) B0"
  have "rx_octet f (sd_upd f (\<lambda>fr. fr\<lparr>f_bytes := ?B\<rparr>) d) = rx_data_octet f (sd_upd f (\<lambda>fr. fr\<lparr>f_bytes := ?B\<rparr>) d)"
    using assms(4,5) t(2) by (auto simp: rx_octet_def Let_def drv_simps frame_fff_def word_unat_eq_iff)
  then show ?thesis using t assms(4) by (intro that [of ?B]) (auto simp: B0_def)
qed

lemma header_short:
  assumes "rx_ok h d" "rx_ready d f" "frame_fff (sd_framer d) = 1" "\<not> dc_apply_transparency (fr_cfg (sd_framer d))"
    and "n < 128" "n \<noteq> 0" "n < fp_framesize (sd_pool d)" "(word_of_nat n :: u8) \<noteq> IOHDLC_FLAG"
  shows "sd_in_frame (rx_transfer [word_of_nat n] d) = Some f" "unat (f_elen (sd_frame (rx_transfer [word_of_nat n] d) f)) = n"
    "sd_rx_len (rx_transfer [word_of_nat n] d) = n" "same_rest f d (rx_transfer [word_of_nat n] d)"
    "take 1 (f_bytes (sd_frame (rx_transfer [word_of_nat n] d) f)) = [word_of_nat n]"
proof -
  note rd = assms(2) [unfolded rx_ready_def]
  have z: "0 = unat (f_elen (sd_frame d f))" using rd by simp
  have x: "(word_of_nat n :: u8) \<noteq> IOHDLC_FLAG \<or> frame_fff (sd_framer d) = 2 \<and> 0 = (1 :: nat)" using assms(8) by simp
  obtain B where B: "rx_transfer [word_of_nat n] d = rx_data_octet f (sd_upd f (\<lambda>fr. fr\<lparr>f_bytes := B\<rparr>) d)"
    "byte_at B 0 = word_of_nat n" "length B = length (f_bytes (sd_frame d f))" "0 < length B"
    using header_octet [OF assms(1) _ _ z x, of thesis] rd by auto
  have fff: "dc_frame_format_size (fr_cfg (sd_framer d)) = 1" using assms(3) by (simp add: frame_fff_def word_unat_eq_iff)
  have r: "rx_transfer [word_of_nat n] d = rx_submit (RxBuf 1) n IOHDLC_RX_CONTINUE_PACKET
      (sd_upd f (\<lambda>fr. fr\<lparr>f_elen := word_of_nat n\<rparr>) (sd_upd f (\<lambda>fr. fr\<lparr>f_bytes := B\<rparr>) d))"
    unfolding B(1) using assms(4-7) rd B(2) short_form_read [OF assms(5)] fff
    by (simp add: rx_data_octet_def Let_def drv_simps pool_simps rx_announced_def rx_newframe_def)
  have "take 1 B = [word_of_nat n]" using B(2,4) by (cases B) (auto simp: byte_at_def)
  then show "take 1 (f_bytes (sd_frame (rx_transfer [word_of_nat n] d) f)) = [word_of_nat n]"
    unfolding r by (simp add: drv_simps)
  show "sd_in_frame (rx_transfer [word_of_nat n] d) = Some f" "unat (f_elen (sd_frame (rx_transfer [word_of_nat n] d) f)) = n"
    "sd_rx_len (rx_transfer [word_of_nat n] d) = n" "same_rest f d (rx_transfer [word_of_nat n] d)"
    unfolding r using rd assms(5) by (simp_all add: drv_simps pool_simps same_rest_def unat_u16)
qed

lemma header_long_first:
  assumes "rx_ok h d" "rx_ready d f" "frame_fff (sd_framer d) = 2" "\<not> dc_apply_transparency (fr_cfg (sd_framer d))"
    and "x AND 0xF0 = 0x80" "x \<noteq> IOHDLC_FLAG"
  shows "sd_in_frame (rx_transfer [x] d) = Some f" "f_elen (sd_frame (rx_transfer [x] d) f) = 1"
    "sd_rx_len (rx_transfer [x] d) = 1" "same_rest f d (rx_transfer [x] d)"
    "byte_at (f_bytes (sd_frame (rx_transfer [x] d) f)) 0 = x"
proof -
  note rd = assms(2) [unfolded rx_ready_def]
  have z: "0 = unat (f_elen (sd_frame d f))" using rd by simp
  have x: "x \<noteq> IOHDLC_FLAG \<or> frame_fff (sd_framer d) = 2 \<and> 0 = (1 :: nat)" using assms(6) by simp
  obtain B where B: "rx_transfer [x] d = rx_data_octet f (sd_upd f (\<lambda>fr. fr\<lparr>f_bytes := B\<rparr>) d)" "byte_at B 0 = x"
    using header_octet [OF assms(1) _ _ z x, of thesis] rd by auto
  have fff: "dc_frame_format_size (fr_cfg (sd_framer d)) = 2" using assms(3) by (simp add: frame_fff_def word_unat_eq_iff)
  have r: "rx_transfer [x] d = rx_submit (RxBuf 1) 1 IOHDLC_RX_CONTINUE_PACKET
      (sd_upd f (\<lambda>fr. fr\<lparr>f_elen := 1\<rparr>) (sd_upd f (\<lambda>fr. fr\<lparr>f_bytes := B\<rparr>) d))"
    unfolding B(1) using assms(4,5) rd B(2) fff
    by (simp add: rx_data_octet_def Let_def drv_simps pool_simps rx_newframe_def)
  show "sd_in_frame (rx_transfer [x] d) = Some f" "f_elen (sd_frame (rx_transfer [x] d) f) = 1"
    "sd_rx_len (rx_transfer [x] d) = 1" "same_rest f d (rx_transfer [x] d)"
    "byte_at (f_bytes (sd_frame (rx_transfer [x] d) f)) 0 = x"
    unfolding r using rd B(2) by (simp_all add: drv_simps pool_simps same_rest_def)
qed

lemma header_long_second:
  assumes "rx_ok h d" "sd_in_frame d = Some f" "f_elen (sd_frame d f) = 1" "sd_rx_len d = 1"
    and "frame_fff (sd_framer d) = 2" "\<not> dc_apply_transparency (fr_cfg (sd_framer d))"
    and "byte_at (f_bytes (sd_frame d f)) 0 = x" "n = 256 * unat (x AND 0x0F) + unat y"
    and "n \<noteq> 0" "n < fp_framesize (sd_pool d)"
  shows "sd_in_frame (rx_transfer [y] d) = Some f" "unat (f_elen (sd_frame (rx_transfer [y] d) f)) = n"
    "sd_rx_len (rx_transfer [y] d) = n - 1" "same_rest f d (rx_transfer [y] d)"
    "take 2 (f_bytes (sd_frame (rx_transfer [y] d) f)) = [x, y]"
proof -
  have z: "1 = unat (f_elen (sd_frame d f))" using assms(3) by simp
  have yy: "y \<noteq> IOHDLC_FLAG \<or> frame_fff (sd_framer d) = 2 \<and> 1 = (1 :: nat)" using assms(5) by simp
  obtain B where B: "rx_transfer [y] d = rx_data_octet f (sd_upd f (\<lambda>fr. fr\<lparr>f_bytes := B\<rparr>) d)"
    "take 1 B = take 1 (f_bytes (sd_frame d f))" "byte_at B 1 = y" "1 < length B" "length B = length (f_bytes (sd_frame d f))"
    using header_octet [OF assms(1,2,4) z yy, of thesis] by auto
  have b0: "byte_at B 0 = x"
    using B(2,4,5) assms(7) by (cases B; cases "f_bytes (sd_frame d f)") (auto simp: byte_at_def)
  have fff: "dc_frame_format_size (fr_cfg (sd_framer d)) = 2" using assms(5) by (simp add: frame_fff_def word_unat_eq_iff)
  have nb: "n < 65536" using assms(1,10) rx_coreD(3) [of h d] by (simp add: rx_ok_def)
  have nn: "256 * unat (byte_at B 0 AND 0x0F) + unat (byte_at B 1) = n" using assms(8) b0 B(3) by simp
  have r: "rx_transfer [y] d = rx_submit (RxBuf 2) (n - 1) IOHDLC_RX_CONTINUE_PACKET
      (sd_upd f (\<lambda>fr. fr\<lparr>f_elen := word_of_nat n\<rparr>) (sd_upd f (\<lambda>fr. fr\<lparr>f_bytes := B\<rparr>) d))"
    unfolding B(1) rx_data_octet_def Let_def drv_simps using assms(2,3,6,9,10) fff
    by (simp add: drv_simps pool_simps rx_announced_def rx_newframe_def nn [simplified])
  obtain a b B' where "B = a # b # B'" using B(4) by (cases B; cases "tl B") auto
  then have "take 2 B = [x, y]" using b0 B(3) by (simp add: byte_at_def)
  then show "take 2 (f_bytes (sd_frame (rx_transfer [y] d) f)) = [x, y]" unfolding r by (simp add: drv_simps)
  show "sd_in_frame (rx_transfer [y] d) = Some f" "unat (f_elen (sd_frame (rx_transfer [y] d) f)) = n"
    "sd_rx_len (rx_transfer [y] d) = n - 1" "same_rest f d (rx_transfer [y] d)"
    unfolding r using assms(2) nb by (simp_all add: drv_simps pool_simps same_rest_def unat_u16)
qed

section \<open>A frame between two flags\<close>

text \<open>Up to the closing flag: the frame is in the buffer, or its rest is one transfer.\<close>

lemma frame_before_flag:
  assumes ok: "rx_ok h d" and rd: "rx_ready d f" and F: "framer_ok (sd_framer d)"
    and w: "wire_ok (sd_framer d) (fp_framesize (sd_pool d)) w"
  shows "\<exists>d' r. rx_feed (w @ [IOHDLC_FLAG] @ rest) d = rx_feed (r @ [IOHDLC_FLAG] @ rest) d' \<and> rx_ok h d'
    \<and> sd_in_frame d' = Some f \<and> unat (f_elen (sd_frame d' f)) = length w \<and> length r + 1 = sd_rx_len d'
    \<and> take (length w - length r) (f_bytes (sd_frame d' f)) @ r = w \<and> same_rest f d d'"
proof -
  have l: "4 \<le> length w" "length w < fp_framesize (sd_pool d)" using w by (simp_all add: wire_ok_def)
  note r0 = rd [unfolded rx_ready_def]
  have two: "frame_fff (sd_framer d) \<le> 2" by (rule framer_fff [OF F])
  consider "plain_mode (sd_framer d)" | "\<not> plain_mode (sd_framer d)" "frame_fff (sd_framer d) = 1"
    | "\<not> plain_mode (sd_framer d)" "frame_fff (sd_framer d) = 2"
  proof (cases "plain_mode (sd_framer d)")
    case False
    then have "frame_fff (sd_framer d) \<noteq> 0" by (auto simp: plain_mode_def frame_fff_def word_unat_eq_iff)
    then have "frame_fff (sd_framer d) = 1 \<or> frame_fff (sd_framer d) = 2" using two by linarith
    with False that(2,3) show ?thesis by blast
  qed (rule that(1))
  then show ?thesis
  proof cases
    case 1
    then have nf: "IOHDLC_FLAG \<notin> set w" using w by (simp add: wire_ok_def)
    have "frame_content d f = []" using r0 by (simp add: frame_content_def)
    moreover obtain d' where "rx_feed (w @ [IOHDLC_FLAG] @ rest) d = rx_feed ([IOHDLC_FLAG] @ rest) d'" "rx_ok h d'"
      "sd_in_frame d' = Some f" "sd_rx_len d' = 1" "unat (f_elen (sd_frame d' f)) = length w"
      "frame_content d' f = frame_content d f @ w" "same_rest f d d'"
      using feed_plain [OF ok _ _ 1 nf, of f "[IOHDLC_FLAG] @ rest"] r0 l by auto
    ultimately show ?thesis by (intro exI [of _ d'] exI [of _ "[]"]) (simp add: frame_content_def)
  next
    case 2
    have f: "take 1 w = [word_of_nat (length w)]" "length w < 128" "hd w \<noteq> IOHDLC_FLAG"
      using w 2 by (simp_all add: wire_ok_def fff_octets_def fff_limit_def)
    obtain r where wr: "w = word_of_nat (length w) # r" using f(1) l by (cases w) auto
    let ?x = "word_of_nat (length w) :: u8"
    have x: "?x \<noteq> IOHDLC_FLAG" using f(3) wr by (metis list.sel(1))
    have tr: "\<not> dc_apply_transparency (fr_cfg (sd_framer d))" using 2(1) by (simp add: plain_mode_def)
    have l1: "length [?x] = sd_rx_len d" using r0 by simp
    have n0: "length w \<noteq> 0" using l by linarith
    note hs = header_short [OF ok rd 2(2) tr f(2) n0 l(2) x]
    have "rx_feed (w @ [IOHDLC_FLAG] @ rest) d = rx_feed (r @ [IOHDLC_FLAG] @ rest) (rx_transfer [?x] d)"
      using rx_feed_transfer [OF l1, of "r @ [IOHDLC_FLAG] @ rest"] r0 by (subst wr) simp
    moreover have "length w = length r + 1" by (subst wr) simp
    ultimately show ?thesis using rx_transfer_ok [OF ok l1] hs wr
      by (intro exI [of _ "rx_transfer [?x] d"] exI [of _ r]) simp
  next
    case 3
    let ?n = "length w"
    let ?x = "word_of_nat (128 + ?n div 256) :: u8" and ?y = "word_of_nat ?n :: u8"
    have f: "take 2 w = [?x, ?y]" "?n < 4096"
      using w 3 by (simp_all add: wire_ok_def fff_octets_def fff_limit_def)
    obtain r where wr: "w = ?x # ?y # r" using f(1) l by (cases w; cases "tl w") auto
    have lr: "?n = length r + 2" by (subst wr) simp
    note lf = long_form_read [OF f(2)]
    have tr: "\<not> dc_apply_transparency (fr_cfg (sd_framer d))" using 3(1) by (simp add: plain_mode_def)
    let ?d1 = "rx_transfer [?x] d"
    let ?d2 = "rx_transfer [?y] ?d1"
    have l1: "length [?x] = sd_rx_len d" using r0 by simp
    note h1 = header_long_first [OF ok rd 3(2) tr lf(1,3)]
    note ok1 = rx_transfer_ok [OF ok l1]
    have F1: "frame_fff (sd_framer ?d1) = 2" "\<not> dc_apply_transparency (fr_cfg (sd_framer ?d1))"
      "?n < fp_framesize (sd_pool ?d1)" "?n \<noteq> 0" using h1(4) 3(2) tr l by (auto simp: same_rest_def)
    note h2 = header_long_second [OF ok1 h1(1-3) F1(1,2) h1(5) lf(2) [symmetric] F1(4,3)]
    have l2: "length [?y] = sd_rx_len ?d1" using h1(3) by simp
    have "rx_feed (w @ [IOHDLC_FLAG] @ rest) d = rx_feed ([?y] @ r @ [IOHDLC_FLAG] @ rest) ?d1"
      using rx_feed_transfer [OF l1, of "[?y] @ r @ [IOHDLC_FLAG] @ rest"] r0 by (subst wr) simp
    also have "\<dots> = rx_feed (r @ [IOHDLC_FLAG] @ rest) ?d2" using rx_feed_transfer [OF l2] h1(3) by simp
    finally show ?thesis using rx_transfer_ok [OF ok1 l2] h2 lr same_rest_trans [OF h1(4) h2(4)] wr
      by (intro exI [of _ ?d2] exI [of _ r]) simp
  qed
qed

lemma frame_received:
  assumes ok: "rx_ok h d" and rd: "rx_ready d f" and F: "framer_ok (sd_framer d)"
    and w: "wire_ok (sd_framer d) (fp_framesize (sd_pool d)) w"
  shows "\<exists>d'. rx_feed (w @ [IOHDLC_FLAG] @ rest) d = rx_feed rest d' \<and> rx_ok h d'
    \<and> sd_recept_q d' = sd_recept_q d @ [f] \<and> sd_sem d' = sd_sem d + 1 \<and> sd_framer d' = sd_framer d
    \<and> fp_framesize (sd_pool d') = fp_framesize (sd_pool d) \<and> fp_free (sd_pool d') = tl (fp_free (sd_pool d))
    \<and> (fp_free (sd_pool d) \<noteq> [] \<longrightarrow> rx_ready d' (hd (fp_free (sd_pool d)))) \<and> frame_content d' f = w
    \<and> (\<forall>g \<in> set (sd_recept_q d). sd_frame d' g = sd_frame d g)"
proof -
  obtain d1 r where d1: "rx_feed (w @ [IOHDLC_FLAG] @ rest) d = rx_feed (r @ [IOHDLC_FLAG] @ rest) d1" "rx_ok h d1"
    "sd_in_frame d1 = Some f" "unat (f_elen (sd_frame d1 f)) = length w" "length r + 1 = sd_rx_len d1"
    "take (length w - length r) (f_bytes (sd_frame d1 f)) @ r = w" "same_rest f d d1"
    using frame_before_flag [OF assms, of rest] by blast
  have len: "length (r @ [IOHDLC_FLAG]) = sd_rx_len d1" using d1(5) by simp
  have w4: "4 \<le> length w" using w by (simp add: wire_ok_def)
  let ?d2 = "rx_transfer (r @ [IOHDLC_FLAG]) d1"
  note cl = close_step [OF d1(2,3) len d1(4) [symmetric] w4]
  have feed: "rx_feed (w @ [IOHDLC_FLAG] @ rest) d = rx_feed rest ?d2"
    using d1(1) rx_feed_transfer [OF len, of rest] len by simp
  have old: "sd_frame ?d2 g = sd_frame d g" if "g \<in> set (sd_recept_q d)" for g
  proof -
    have c: "rx_core h d" using ok by (simp add: rx_ok_def)
    have "g \<notin> set (fp_free (sd_pool d))"
      using rx_coreD(6) [OF c, of g] that by (auto simp: pool_refs_def rx_frames_def split: if_splits)
    moreover have "g \<noteq> f" using core_in_frame(1) [OF c, of f] rd that by (auto simp: rx_ready_def)
    ultimately show ?thesis using cl(7) [of g] d1(7) by (simp add: same_rest_def)
  qed
  show ?thesis using feed rx_transfer_ok [OF d1(2) len] cl(1-6,9) d1(6,7) old
    by (intro exI [of _ ?d2]) (simp add: same_rest_def)
qed

definition on_line :: "u8 list list \<Rightarrow> u8 list" where
  "on_line ws = concat (map (\<lambda>w. w @ [IOHDLC_FLAG]) ws)"

lemma frames_received:
  assumes "rx_ok h d" "ws = [] \<or> rx_ready d f" "framer_ok (sd_framer d)"
    and "\<forall>w \<in> set ws. wire_ok (sd_framer d) (fp_framesize (sd_pool d)) w" "length ws \<le> Suc (length (fp_free (sd_pool d)))"
  shows "\<exists>d' fs. rx_feed (on_line ws @ rest) d = rx_feed rest d' \<and> rx_ok h d' \<and> sd_framer d' = sd_framer d
    \<and> sd_recept_q d' = sd_recept_q d @ fs \<and> map (frame_content d') fs = ws \<and> sd_sem d' = sd_sem d + length ws
    \<and> (\<forall>g \<in> set (sd_recept_q d). sd_frame d' g = sd_frame d g)"
  using assms
proof (induction ws arbitrary: d f)
  case Nil
  then show ?case by (intro exI [of _ d] exI [of _ "[]"]) (simp add: on_line_def)
next
  case (Cons w ws)
  have rd: "rx_ready d f" using Cons.prems(2) by simp
  obtain d1 where d1: "rx_feed (w @ [IOHDLC_FLAG] @ (on_line ws @ rest)) d = rx_feed (on_line ws @ rest) d1" "rx_ok h d1"
    "sd_recept_q d1 = sd_recept_q d @ [f]" "sd_sem d1 = sd_sem d + 1" "sd_framer d1 = sd_framer d"
    "fp_framesize (sd_pool d1) = fp_framesize (sd_pool d)" "fp_free (sd_pool d1) = tl (fp_free (sd_pool d))"
    "fp_free (sd_pool d) \<noteq> [] \<longrightarrow> rx_ready d1 (hd (fp_free (sd_pool d)))" "frame_content d1 f = w"
    "\<forall>g \<in> set (sd_recept_q d). sd_frame d1 g = sd_frame d g"
    using frame_received [OF Cons.prems(1) rd Cons.prems(3), of w "on_line ws @ rest"] Cons.prems(4) by (simp del: append_assoc) blast
  have "ws = [] \<or> rx_ready d1 (hd (fp_free (sd_pool d)))" "length ws \<le> Suc (length (fp_free (sd_pool d1)))"
    using Cons.prems(5) d1(7,8) by (cases "fp_free (sd_pool d)"; auto)+
  from Cons.IH [OF d1(2) this(1) _ _ this(2)] Cons.prems(3,4) d1(5,6) obtain d' fs
    where d': "rx_feed (on_line ws @ rest) d1 = rx_feed rest d'" "rx_ok h d'" "sd_framer d' = sd_framer d1"
      "sd_recept_q d' = sd_recept_q d1 @ fs" "map (frame_content d') fs = ws" "sd_sem d' = sd_sem d1 + length ws"
      "\<forall>g \<in> set (sd_recept_q d1). sd_frame d' g = sd_frame d1 g" by auto
  have "frame_content d' f = w" using d'(7) d1(3,9) by (simp add: frame_content_def)
  moreover have "\<forall>g \<in> set (sd_recept_q d). sd_frame d' g = sd_frame d g" using d'(7) d1(3,10) by auto
  moreover have "rx_feed (on_line (w # ws) @ rest) d = rx_feed rest d'" using d1(1) d'(1) by (simp add: on_line_def)
  ultimately show ?case using d' d1 by (intro exI [of _ d'] exI [of _ "f # fs"]) simp
qed

end
