(* ===== verification/Hdlc_DriverTrip.thy ===== *)
theory Hdlc_DriverTrip
  imports Hdlc_DriverLink
begin

text \<open>
  A frame sent by one driver is delivered by another: the octets submitted to the port, fed to a
  receiver with the same configuration, come out of its delivery as the frame that was sent.
\<close>

section \<open>The octets on the line\<close>

definition line_image :: "framer \<Rightarrow> nat \<Rightarrow> u8 list \<Rightarrow> u8 list" where
  "line_image F n bs = (if dc_apply_transparency (fr_cfg F) then stuff (framed F n bs) else framed F n bs)"

text \<open>What has to hold of a frame of \<open>n\<close> octets and of the buffers at both ends: the octets can be
  delimited by flags, and there is room for them and for the flag.\<close>

definition sendable :: "framer \<Rightarrow> nat \<Rightarrow> nat \<Rightarrow> u8 list \<Rightarrow> bool" where
  "sendable F fs n bs \<longleftrightarrow> frame_fff F \<le> n \<and> 4 \<le> n + frame_fcs F \<and> frame_fits F n
     \<and> length (line_image F n bs) < fs
     \<and> (if dc_apply_transparency (fr_cfg F) then True
        else if frame_fff F = 0 then IOHDLC_FLAG \<notin> set (framed F n bs)
        else frame_fff F = 1 \<longrightarrow> n + frame_fcs F \<noteq> 0x7E)"

lemma flag_byte: "k < 128 \<Longrightarrow> (word_of_nat k :: u8) = IOHDLC_FLAG \<Longrightarrow> k = 0x7E"
  using short_form_read(1) [of k] by (simp add: IOHDLC_FLAG_def)

lemma sendable_wire_ok:
  assumes F: "framer_ok F" and s: "sendable F fs n bs" and n: "n \<le> length bs"
  shows "wire_ok F fs (line_image F n bs)"
proof -
  have l: "length (framed F n bs) = n + frame_fcs F" using F s n by (intro length_framed) (auto simp: sendable_def)
  show ?thesis
  proof (cases "plain_mode F")
    case True
    have "4 \<le> length (line_image F n bs)"
      using s l length_stuff_ge [of "framed F n bs"] by (auto simp: line_image_def sendable_def)
    moreover have "IOHDLC_FLAG \<notin> set (line_image F n bs)"
      using s True stuff_no_flag by (auto simp: line_image_def sendable_def plain_mode_def frame_fff_def split: if_splits)
    ultimately show ?thesis using s True by (simp add: wire_ok_def sendable_def)
  next
    case False
    then have tr: "\<not> dc_apply_transparency (fr_cfg F)" and nz: "frame_fff F \<noteq> 0"
      by (auto simp: plain_mode_def frame_fff_def word_unat_eq_iff)
    then have f12: "frame_fff F = 1 \<or> frame_fff F = 2" using framer_fff [OF F] by linarith
    have fits: "n + frame_fcs F < fff_limit (frame_fff F)" using s by (simp add: sendable_def frame_fits_def)
    have im: "line_image F n bs = framed F n bs" using tr by (simp add: line_image_def)
    have tk: "take (frame_fff F) (framed F n bs) = fff_octets (frame_fff F) (n + frame_fcs F)"
      using framer_fff [OF F] by (simp add: framed_def with_fff_def length_fff)
    have "hd (framed F n bs) \<noteq> IOHDLC_FLAG"
      using f12
    proof
      assume f1: "frame_fff F = 1"
      then have "hd (framed F n bs) = word_of_nat (n + frame_fcs F)"
        by (simp add: framed_def with_fff_def fff_octets_def)
      moreover have "n + frame_fcs F \<noteq> 0x7E" using s tr f1 by (simp add: sendable_def)
      ultimately show ?thesis using flag_byte [of "n + frame_fcs F"] fits f1 by (auto simp: fff_limit_def)
    next
      assume f2: "frame_fff F = 2"
      then have "hd (framed F n bs) = word_of_nat (128 + (n + frame_fcs F) div 256)"
        by (simp add: framed_def with_fff_def fff_octets_def)
      then show ?thesis using long_form_read(3) [of "n + frame_fcs F"] fits f2 by (simp add: fff_limit_def)
    qed
    then show ?thesis using False s l tk fits unfolding im by (simp add: wire_ok_def sendable_def im)
  qed
qed

section \<open>The opening flag\<close>

lemma opening_flag:
  assumes ok: "rx_ok h d" and st: "sd_in_frame d = None \<and> fp_free (sd_pool d) \<noteq> [] \<or> rx_ready d f"
  shows "\<exists>d' f'. rx_feed (IOHDLC_FLAG # rest) d = rx_feed rest d' \<and> rx_ok h d' \<and> rx_ready d' f'
    \<and> sd_recept_q d' = sd_recept_q d \<and> sd_sem d' = sd_sem d \<and> sd_framer d' = sd_framer d
    \<and> fp_framesize (sd_pool d') = fp_framesize (sd_pool d)
    \<and> length (fp_free (sd_pool d)) \<le> Suc (length (fp_free (sd_pool d')))"
  using st
proof
  assume a: "sd_in_frame d = None \<and> fp_free (sd_pool d) \<noteq> []"
  then have len: "length [IOHDLC_FLAG] = sd_rx_len d" using ok by (simp add: rx_ok_def rx_armed_def)
  let ?e = "d\<lparr>sd_stage := Some IOHDLC_FLAG\<rparr>"
  have tr: "rx_transfer [IOHDLC_FLAG] d = rx_newframe RxStage 1 IOHDLC_RX_START_PACKET ?e"
    using a rx_store_stage(1) [OF ok _ len] by (simp add: rx_transfer_def s_on_rx_def has_def)
  have "sd_in_frame ?e = None" "sd_stage ?e = Some IOHDLC_FLAG" using a by simp_all
  note op = open_next [OF this, folded tr]
  have "rx_feed (IOHDLC_FLAG # rest) d = rx_feed rest (rx_transfer [IOHDLC_FLAG] d)"
    using rx_feed_transfer [OF len, of rest] len by simp
  then show ?thesis using rx_transfer_ok [OF ok len] op a by auto
next
  assume rd: "rx_ready d f"
  then have len: "length [IOHDLC_FLAG] = sd_rx_len d" and i: "sd_in_frame d = Some f" "0 = unat (f_elen (sd_frame d f))"
    by (simp_all add: rx_ready_def)
  have pos: "0 < length [IOHDLC_FLAG]" by simp
  note t = frame_transfer [OF ok i(1) len pos i(2) refl]
  let ?L = "take (0 + 1 - length [IOHDLC_FLAG]) (f_bytes (sd_frame d f)) @ [IOHDLC_FLAG] @ drop (0 + 1) (f_bytes (sd_frame d f))"
  have tr: "rx_transfer [IOHDLC_FLAG] d
      = rx_submit (RxBuf 0) 1 IOHDLC_RX_CONTINUE_PACKET (sd_upd f (\<lambda>fr. fr\<lparr>f_bytes := ?L\<rparr>) d)"
    using t(1,2) rd by (simp add: rx_octet_def Let_def drv_simps rx_ready_def)
  have "rx_feed (IOHDLC_FLAG # rest) d = rx_feed rest (rx_transfer [IOHDLC_FLAG] d)"
    using rx_feed_transfer [OF len, of rest] len by simp
  moreover have "rx_ready (rx_transfer [IOHDLC_FLAG] d) f" unfolding tr using rd by (simp add: rx_ready_def drv_simps)
  moreover have "rx_ok h (rx_transfer [IOHDLC_FLAG] d)" by (rule rx_transfer_ok [OF ok len])
  ultimately show ?thesis unfolding tr by (auto simp: drv_simps pool_simps)
qed

section \<open>The checks of the delivery\<close>

lemma and_submask_zero:
  assumes "(u :: 'a::len word) AND m = 0" "m AND v = v"
  shows "u AND v = 0"
proof -
  have "u AND v = (u AND m) AND v" unfolding and.assoc assms(2) by (rule refl)
  then show ?thesis using assms(1) by simp
qed

lemma declared_len_fff:
  assumes "t < fff_limit fff" "fff = 1 \<or> fff = 2" "take fff bs = fff_octets fff t"
  shows "unat (declared_len bs) = t"
  using assms(2)
proof
  assume f: "fff = 1"
  then obtain bs' where b: "bs = word_of_nat t # bs'" using assms(3) by (cases bs) (auto simp: fff_octets_def)
  have t: "t < 128" using assms(1) f by (simp add: fff_limit_def)
  have u: "unat (ucast (word_of_nat t :: u8) :: u16) = t" using t by (simp add: unsigned_ucast_eq unat_of_nat take_bit_eq_mod)
  have "(ucast (word_of_nat t :: u8) :: u16) AND NOT (mask 7) = 0" unfolding and_not_mask_zero u using t by simp
  then have "(ucast (word_of_nat t :: u8) :: u16) AND 0x80 = 0"
    by (rule and_submask_zero) code_simp
  then show ?thesis using u by (simp add: b declared_len_def byte_at_def)
next
  assume f: "fff = 2"
  let ?x = "word_of_nat (128 + t div 256) :: u8" and ?y = "word_of_nat t :: u8"
  obtain bs' where b: "bs = ?x # ?y # bs'"
    using assms(3) f by (cases bs; cases "tl bs") (auto simp: fff_octets_def)
  have t: "t < 4096" using assms(1) f by (simp add: fff_limit_def)
  have all: "\<forall>k \<in> set [0..<16]. (ucast (word_of_nat (128 + k) :: u8) :: u16) AND 0x80 \<noteq> 0
      \<and> push_bit 8 ((ucast (word_of_nat (128 + k) :: u8) :: u16) AND 0x0F) = word_of_nat (256 * k)" by code_simp
  have k: "t div 256 \<in> set [0..<16]" using t by auto
  have hi: "(ucast ?x :: u16) AND 0x80 \<noteq> 0" "push_bit 8 ((ucast ?x :: u16) AND 0x0F) = word_of_nat (256 * (t div 256))"
    using bspec [OF all k] by blast+
  have y: "unat (ucast ?y :: u16) = t mod 256" by (simp add: unsigned_ucast_eq unat_of_nat take_bit_eq_mod)
  have h: "unat (word_of_nat (256 * (t div 256)) :: u16) = 256 * (t div 256)" using t by (intro unat_u16) simp
  have "(word_of_nat (256 * (t div 256)) :: u16) AND ucast ?y = 0"
  proof -
    have "(ucast ?y :: u16) AND NOT (mask 8) = 0" unfolding and_not_mask_zero y by simp
    moreover have "\<forall>k \<in> set [0..<16]. NOT (mask 8) AND (word_of_nat (256 * k) :: u16) = word_of_nat (256 * k)" by code_simp
    ultimately show ?thesis unfolding and.commute [of _ "ucast ?y"] using k by (blast intro: and_submask_zero)
  qed
  then have "push_bit 8 ((ucast ?x :: u16) AND 0x0F) OR ucast ?y = word_of_nat (256 * (t div 256)) + ucast ?y"
    unfolding hi(2) using word_plus_and_or [of "word_of_nat (256 * (t div 256)) :: u16" "ucast ?y"] by (simp del: of_nat_mult)
  moreover have "unat ((word_of_nat (256 * (t div 256)) :: u16) + ucast ?y) = t"
    using h y t by (simp add: unat_word_ariths)
  ultimately show ?thesis using hi(1) by (simp add: b declared_len_def byte_at_def)
qed

lemma recv_check_accepts:
  assumes F: "framer_ok F" and s: "sendable F (length (f_bytes fm)) n bs" and n: "n \<le> length bs" "length (f_bytes fm) < 65536"
    and c: "take (unat (f_elen fm)) (f_bytes fm) = line_image F n bs" "unat (f_elen fm) < length (f_bytes fm)"
  shows "\<exists>fm'. recv_check F fm = Some (True, fm') \<and> unat (f_elen fm') = n + frame_fcs F
    \<and> take (n + frame_fcs F) (f_bytes fm') = framed F n bs"
proof -
  let ?t = "n + frame_fcs F"
  have l: "length (framed F n bs) = ?t" using F s n by (intro length_framed) (auto simp: sendable_def)
  have le: "unat (f_elen fm) = length (line_image F n bs)" using arg_cong [OF c(1), of length] c(2) by simp
  obtain b e where d: "(if dc_apply_transparency (fr_cfg F) then ioHdlcFrameTransparentDecode (f_bytes fm) (f_elen fm)
      else Some (f_bytes fm, f_elen fm)) = Some (b, e)" "unat e = ?t" "take ?t b = framed F n bs"
  proof (cases "dc_apply_transparency (fr_cfg F)")
    case True
    then have "drop 0 (take (unat (f_elen fm)) (f_bytes fm)) = stuff (framed F n bs)" using c(1) by (simp add: line_image_def)
    then obtain b where "dec_loop (f_bytes fm) (unat (f_elen fm)) 0 0 = Some (b, ?t)" "take ?t b = framed F n bs"
      using dec_loop_stuff [of 0 0 "unat (f_elen fm)" "f_bytes fm" "framed F n bs"] c(2) l by auto
    moreover have "?t < 65536" using le True l length_stuff_ge [of "framed F n bs"] c(2) n(2) by (simp add: line_image_def)
    ultimately show ?thesis using True
      by (intro that [of b "word_of_nat ?t"]) (simp_all only: ioHdlcFrameTransparentDecode_def option.case prod.case if_True unat_u16)
  next
    case False
    then show ?thesis using c le l by (intro that [of "f_bytes fm" "f_elen fm"]) (simp_all add: line_image_def)
  qed
  have chk: "(if 0 < dc_fcs_size (fr_cfg F) then rx_check_fn (fr_policy F) (fr_backend F) (dc_fcs_size (fr_cfg F)) (take (unat e) b)
      else Some True) = Some True"
  proof (cases "0 < dc_fcs_size (fr_cfg F)")
    case True
    show ?thesis unfolding d(2,3) framed_def
      using fcs_contract.check_own [OF framer_contract [OF F] compute_segments(1) [OF F True, of "[with_fff F n bs]"]] True by simp
  qed simp
  have "frame_fff F \<noteq> 0 \<Longrightarrow> declared_len b = e"
  proof -
    assume nz: "frame_fff F \<noteq> 0"
    then have f12: "frame_fff F = 1 \<or> frame_fff F = 2" using framer_fff [OF F] by linarith
    have "?t < fff_limit (frame_fff F)" using s by (simp add: sendable_def frame_fits_def)
    moreover have "frame_fff F \<le> ?t" using s by (simp add: sendable_def)
    then have "take (frame_fff F) b = take (frame_fff F) (framed F n bs)" using d(3) by (metis take_take min.absorb1)
    then have "take (frame_fff F) b = fff_octets (frame_fff F) ?t"
      using framer_fff [OF F] by (simp add: framed_def with_fff_def length_fff)
    ultimately have "unat (declared_len b) = ?t" by (intro declared_len_fff [OF _ f12])
    then show ?thesis using d(2) by (simp add: word_unat_eq_iff)
  qed
  then have "(if dc_frame_format_size (fr_cfg F) \<noteq> 0 \<and> 0 < e then declared_len b = e else True)"
    by (simp add: frame_fff_def word_unat_eq_iff)
  then show ?thesis unfolding recv_check_def Let_def d(1) option.case prod.case chk using d(2,3) by simp
qed

section \<open>Sending over an idle port\<close>

text \<open>The transmitter has nothing under way and the port takes what it gets.\<close>

definition tx_idle :: "swdrv \<Rightarrow> bool" where
  "tx_idle d \<longleftrightarrow> sd_inflight d = None \<and> sd_raw_q d = [] \<and> sd_busy d = [] \<and> sd_submit d = []"

lemma commit_idle:
  assumes "tx_idle d"
  shows "\<exists>d'. drv_commit g d = (0, d')
    \<and> sd_wire d' = sd_wire d @ [IOHDLC_FLAG # take (unat (f_tx_len (sd_frame d g))) (f_bytes (sd_frame d g))]"
  using assms by (simp add: tx_idle_def drv_commit_def tx_busy_def tx_submit_frame_def commit_tail_def
      s_try_start_next_tx_i_def Let_def drv_simps wire_image_def IOHDLC_FLAG_def sd_frame_def sd_upd_def pool_simps)

lemma prepare_plain_image:
  assumes F: "framer_ok (sd_framer d)" and tr: "\<not> dc_apply_transparency (fr_cfg (sd_framer d))"
    and fm: "fm = sd_frame d f" "n = unat (f_elen fm)" "f_refs fm \<noteq> 0" "f_tx_ctrl_len fm \<noteq> 0"
    and s: "sendable (sd_framer d) (length (f_bytes fm)) n (f_bytes fm)" "length (f_bytes fm) < 65536"
  shows "\<exists>d'. prepare_plain f d = (Inr f, d') \<and> (tx_idle d \<longrightarrow> tx_idle d') \<and> sd_wire d' = sd_wire d
    \<and> take (unat (f_tx_len (sd_frame d' f))) (f_bytes (sd_frame d' f)) = line_image (sd_framer d) n (f_bytes fm) @ [IOHDLC_FLAG]"
proof -
  let ?F = "sd_framer d"
  have le: "frame_fff ?F \<le> n" "frame_fits ?F n" using s(1) by (simp_all add: sendable_def)
  have im: "line_image ?F n (f_bytes fm) = framed ?F n (f_bytes fm)" using tr by (simp add: line_image_def)
  have nl: "n \<le> length (f_bytes fm)"
  proof (rule ccontr)
    assume "\<not> ?thesis"
    then have "length (framed ?F n (f_bytes fm)) = length (f_bytes fm) + frame_fcs ?F"
      using le framer_fff [OF F] s(1) length_fff [of "frame_fff ?F"] compute_segments(2) [OF F]
      by (simp add: framed_def with_fff_def sendable_def im)
    then show False using s(1) by (simp add: sendable_def im)
  qed
  then have l: "n + frame_fcs ?F < length (f_bytes fm)"
    using length_framed [OF F le(1)] s(1) by (simp add: sendable_def im)
  obtain fm' where m: "s_materialize_tx_frame ?F fm = Some (Inr fm')"
    "take (unat (f_tx_len fm')) (f_bytes fm') = framed ?F n (f_bytes fm) @ [IOHDLC_FLAG]"
    using materialized_image [OF F, of fm] le l s(2) fm(2,4) by auto
  have r: "f_refs fm' = f_refs fm"
    using m(1) by (auto simp: s_materialize_tx_frame_def Let_def split: option.splits sum.splits if_splits)
  let ?d = "sd_upd f (\<lambda>fr. fr\<lparr>f_refs := f_refs fr + 1\<rparr>) (sd_upd f (\<lambda>_. fm') d)"
  have "prepare_plain f d = (Inr f, ?d)"
    using m(1) r fm(1,3) by (simp add: prepare_plain_def sd_addref_def addref_frame_def sd_upd_def pool_simps sd_frame_def)
  then show ?thesis using m(2) im by (intro exI [of _ ?d]) (simp add: drv_simps tx_idle_def)
qed

text \<open>The state after a frame with the framed octets \<open>w\<close> was encoded into the buffer \<open>g\<close>.\<close>

definition encoded_state :: "nat \<Rightarrow> nat \<Rightarrow> u8 list \<Rightarrow> swdrv \<Rightarrow> swdrv" where
  "encoded_state f g w d =
     (let fm = sd_frame d f; B = f_bytes (sd_frame d g); m = word_of_nat (length (stuff w));
          d1 = sd_upd f (\<lambda>fr. fr\<lparr>f_bytes := w @ drop (length w) (f_bytes fm), f_elen := word_of_nat (length w)\<rparr>) d;
          d2 = sd_upd g (\<lambda>fr. fr\<lparr>f_bytes := stuff w @ drop (length (stuff w)) B, f_elen := m\<rparr>) (snd (sd_take d1));
          d3 = sd_gate_release f (sd_upd f (\<lambda>fr. fr\<lparr>f_elen := f_elen fm\<rparr>) d2)
      in sd_upd g (\<lambda>fr. fr\<lparr>f_bytes := stuff w @ [IOHDLC_FLAG] @ drop (length (stuff w) + 1) B, f_tx_len := m + 1\<rparr>)
           (sd_upd g (\<lambda>fr. fr\<lparr>f_gate_free := False\<rparr>) d3))"

lemma unat_fcs_size: "unat (ucast (dc_fcs_size (fr_cfg F)) :: u16) = frame_fcs F"
proof -
  have "unat (dc_fcs_size (fr_cfg F)) < 2 ^ LENGTH(8)" by (rule unsigned_less)
  then show ?thesis by (simp add: frame_fcs_def unsigned_ucast_eq take_bit_eq_mod)
qed

lemma prepare_encoded_state:
  assumes F: "framer_ok (sd_framer d)"
    and n: "n = unat (f_elen (sd_frame d f))" "frame_fff (sd_framer d) \<le> n" "frame_fits (sd_framer d) n"
    and w: "w = framed (sd_framer d) n (f_bytes (sd_frame d f))" "n + frame_fcs (sd_framer d) \<le> length (f_bytes (sd_frame d f))"
      "length (stuff w) < length (f_bytes (sd_frame d g))"
    and b: "length (f_bytes (sd_frame d g)) < 65536" "length (f_bytes (sd_frame d f)) < 65536"
    and g: "fp_free (sd_pool d) = g # gs" "g \<noteq> f" "f_gate_free (sd_frame d g)"
  shows "prepare_encoded f d = (Inr g, encoded_state f g w d)"
proof -
  let ?F = "sd_framer d" and ?t = "n + frame_fcs (sd_framer d)" and ?fm = "sd_frame d f"
  let ?B = "f_bytes (sd_frame d g)"
  have lw: "length w = ?t" using length_framed [OF F n(2)] w(1,2) by simp
  have fo: "frame_octets ?F n (f_bytes ?fm) = Some (Inr (w @ drop ?t (f_bytes ?fm)))"
    using frame_octets_spec [OF F n(2), of "f_bytes ?fm"] n(3) w b(2) by simp
  define wl where "wl = f_elen ?fm + ucast (dc_fcs_size (fr_cfg ?F))"
  have wl: "unat wl = ?t"
    using unat_fcs_size [of ?F] w(2) b(2) n(1) by (simp add: wl_def unat_word_ariths)
  then have wl': "wl = word_of_nat (length w)" unfolding lw wl [symmetric] by (simp add: word_of_unat)
  obtain e where enc: "enc_loop (w @ drop ?t (f_bytes ?fm)) ?t 0 ?B 0 False
      = Some (stuff w @ drop (length (stuff w)) ?B, length (stuff w), e)"
    using enc_loop_stuff [of 0 ?t "w @ drop ?t (f_bytes ?fm)" 0 ?B False] lw w(2,3) by auto
  let ?m = "word_of_nat (length (stuff w)) :: u16"
  have m: "unat ?m = length (stuff w)" using w(3) b(1) by (intro unat_u16) simp
  let ?d1 = "sd_upd f (\<lambda>fr. fr\<lparr>f_bytes := w @ drop ?t (f_bytes ?fm), f_elen := wl\<rparr>) d"
  have fr1: "fp_free (sd_pool ?d1) = g # gs" using g(1) by (simp add: drv_simps pool_simps)
  note t = take_some [OF fr1]
  have tk: "fst (sd_take ?d1) = Some g" using t(1) by (simp add: sd_take_def Let_def)
  let ?d2 = "snd (sd_take ?d1)"
  have fg: "sd_frame ?d2 g = fresh_frame (sd_frame d g)" "sd_frame ?d2 f = (sd_frame ?d1 f)"
    using t(3) g(2) by (simp_all add: sd_take_def Let_def sd_frame_def pool_simps sd_upd_def)
  have E: "ioHdlcFrameTransparentEncode (f_bytes (sd_frame ?d2 g)) (f_bytes (sd_frame ?d2 f)) wl
      = Some (stuff w @ drop (length (stuff w)) ?B, ?m, e)"
    unfolding fg ioHdlcFrameTransparentEncode_def wl using enc by (simp add: drv_simps fresh_frame_def)
  have P: "put_octets (unat ?m) [IOHDLC_FLAG] (stuff w @ drop (length (stuff w)) ?B)
      = Some (stuff w @ [IOHDLC_FLAG] @ drop (length (stuff w) + 1) ?B)"
    unfolding m using w(3) by (simp add: put_octets_def)
  let ?d3 = "sd_gate_release f (sd_upd f (\<lambda>fr. fr\<lparr>f_elen := f_elen ?fm\<rparr>)
      (sd_upd g (\<lambda>fr. fr\<lparr>f_bytes := stuff w @ drop (length (stuff w)) ?B, f_elen := ?m\<rparr>) ?d2))"
  have gate: "sd_gate_try g ?d3 = (True, sd_upd g (\<lambda>fr. fr\<lparr>f_gate_free := False\<rparr>) ?d3)"
    using g(2,3) by (simp add: sd_gate_try_def sd_gate_release_def drv_simps fg fresh_frame_def)
  have "prepare_encoded f d = (Inr g, sd_upd g (\<lambda>fr. fr\<lparr>f_bytes := stuff w @ [IOHDLC_FLAG] @ drop (length (stuff w) + 1) ?B,
      f_tx_len := ?m + 1\<rparr>) (sd_upd g (\<lambda>fr. fr\<lparr>f_gate_free := False\<rparr>) ?d3))"
    unfolding prepare_encoded_def Let_def n(1) [symmetric] fo option.case sum.case wl_def [symmetric]
    using tk E gate P by (simp add: case_prod_beta)
  then show ?thesis unfolding encoded_state_def Let_def wl' lw by simp
qed

lemma encoded_state_frame:
  assumes "fp_free (sd_pool d) = g # gs" "g \<noteq> f"
  shows "sd_frame (encoded_state f g w d) g = (sd_frame d g)\<lparr>f_bytes := stuff w @ [IOHDLC_FLAG]
      @ drop (length (stuff w) + 1) (f_bytes (sd_frame d g)), f_elen := word_of_nat (length (stuff w)),
      f_tx_len := word_of_nat (length (stuff w)) + 1, f_refs := 1, f_tx_ctrl_len := 0, f_openingflag := 0,
      f_gate_free := False, f_qaux_linked := False\<rparr>"
    "sd_frame (encoded_state f g w d) f = (sd_frame d f)\<lparr>f_bytes := w @ drop (length w) (f_bytes (sd_frame d f)), f_gate_free := True\<rparr>"
    "sd_wire (encoded_state f g w d) = sd_wire d" "sd_inflight (encoded_state f g w d) = sd_inflight d"
    "sd_raw_q (encoded_state f g w d) = sd_raw_q d" "sd_busy (encoded_state f g w d) = sd_busy d"
    "sd_submit (encoded_state f g w d) = sd_submit d" "sd_fault (encoded_state f g w d) = sd_fault d"
proof -
  let ?d1 = "sd_upd f (\<lambda>fr. fr\<lparr>f_bytes := w @ drop (length w) (f_bytes (sd_frame d f)), f_elen := word_of_nat (length w)\<rparr>) d"
  have fr1: "fp_free (sd_pool ?d1) = g # gs" using assms(1) by (simp add: drv_simps pool_simps)
  note t = take_some [OF fr1]
  have fg: "sd_frame (snd (sd_take ?d1)) g = fresh_frame (sd_frame d g)" "sd_frame (snd (sd_take ?d1)) f = sd_frame ?d1 f"
    using t(3) assms(2) by (simp_all add: sd_take_def Let_def sd_frame_def pool_simps sd_upd_def)
  show "sd_frame (encoded_state f g w d) g = (sd_frame d g)\<lparr>f_bytes := stuff w @ [IOHDLC_FLAG]
      @ drop (length (stuff w) + 1) (f_bytes (sd_frame d g)), f_elen := word_of_nat (length (stuff w)),
      f_tx_len := word_of_nat (length (stuff w)) + 1, f_refs := 1, f_tx_ctrl_len := 0, f_openingflag := 0,
      f_gate_free := False, f_qaux_linked := False\<rparr>"
    "sd_frame (encoded_state f g w d) f = (sd_frame d f)\<lparr>f_bytes := w @ drop (length w) (f_bytes (sd_frame d f)), f_gate_free := True\<rparr>"
    using assms(2) fg by (simp_all add: encoded_state_def Let_def drv_simps sd_gate_release_def fresh_frame_def)
  show "sd_wire (encoded_state f g w d) = sd_wire d" "sd_inflight (encoded_state f g w d) = sd_inflight d"
    "sd_raw_q (encoded_state f g w d) = sd_raw_q d" "sd_busy (encoded_state f g w d) = sd_busy d"
    "sd_submit (encoded_state f g w d) = sd_submit d" "sd_fault (encoded_state f g w d) = sd_fault d"
    by (simp_all add: encoded_state_def Let_def drv_simps sd_gate_release_def sd_take_def)
qed

lemma prepare_encoded_image:
  assumes F: "framer_ok (sd_framer d)" and tr: "dc_apply_transparency (fr_cfg (sd_framer d))"
    and fm: "fm = sd_frame d f" "n = unat (f_elen fm)" and len: "n + frame_fcs (sd_framer d) \<le> length (f_bytes fm)"
    and s: "sendable (sd_framer d) (length (f_bytes (sd_frame d g))) n (f_bytes fm)"
    and b: "length (f_bytes (sd_frame d g)) < 65536" "length (f_bytes fm) < 65536"
    and g: "fp_free (sd_pool d) = g # gs" "g \<noteq> f" "f_gate_free (sd_frame d g)"
  shows "\<exists>d'. prepare_encoded f d = (Inr g, d') \<and> (tx_idle d \<longrightarrow> tx_idle d') \<and> sd_wire d' = sd_wire d
    \<and> take (unat (f_tx_len (sd_frame d' g))) (f_bytes (sd_frame d' g)) = line_image (sd_framer d) n (f_bytes fm) @ [IOHDLC_FLAG]"
proof -
  let ?w = "framed (sd_framer d) n (f_bytes fm)"
  have st: "length (stuff ?w) < length (f_bytes (sd_frame d g))" "frame_fff (sd_framer d) \<le> n" "frame_fits (sd_framer d) n"
    using s tr by (simp_all add: sendable_def line_image_def)
  have "prepare_encoded f d = (Inr g, encoded_state f g ?w d)"
    using F st len b g fm by (intro prepare_encoded_state) simp_all
  moreover have "unat (word_of_nat (length (stuff ?w)) + 1 :: u16) = length (stuff ?w) + 1"
    using st(1) b(1) by (simp add: unat_word_ariths unat_of_nat)
  ultimately show ?thesis using tr encoded_state_frame [OF g(1,2), of ?w]
    by (simp add: line_image_def tx_idle_def)
qed

text \<open>What one transmission puts on the line.\<close>

lemma send_frame_wire:
  assumes F: "framer_ok (sd_framer d)" and P: "pool_ok (sd_pool d)" "fp_framesize (sd_pool d) < 65536"
    and f: "f < unat (fp_total (sd_pool d))" "pool_refs (sd_pool d) f \<noteq> 0" "f_gate_free (sd_frame d f)" "f_tx_ctrl_len (sd_frame d f) \<noteq> 0"
    and idle: "tx_idle d" and n: "n = unat (f_elen (sd_frame d f))" "n + frame_fcs (sd_framer d) \<le> fp_framesize (sd_pool d)"
    and s: "sendable (sd_framer d) (fp_framesize (sd_pool d)) n (f_bytes (sd_frame d f))"
    and g: "dc_apply_transparency (fr_cfg (sd_framer d)) \<Longrightarrow>
      fp_free (sd_pool d) \<noteq> [] \<and> f_gate_free (sd_frame d (hd (fp_free (sd_pool d))))"
  shows "\<exists>d'. drv_send_frame f d = (0, d')
    \<and> sd_wire d' = sd_wire d @ [IOHDLC_FLAG # line_image (sd_framer d) n (f_bytes (sd_frame d f)) @ [IOHDLC_FLAG]]"
proof -
  let ?d = "sd_upd f (\<lambda>fr. fr\<lparr>f_gate_free := False\<rparr>) d"
  let ?w = "line_image (sd_framer d) n (f_bytes (sd_frame d f)) @ [IOHDLC_FLAG]"
  have gt: "sd_gate_try f d = (True, ?d)" using f(3) by (simp add: sd_gate_try_def)
  have nf: "f \<notin> set (fp_free (sd_pool d))" and r0: "f_refs (sd_frame d f) \<noteq> 0"
    using f(2) by (auto simp: pool_refs_def sd_frame_def split: if_splits)
  have ln: "length (f_bytes (sd_frame d k)) = fp_framesize (sd_pool d)" if "k < unat (fp_total (sd_pool d))" for k
    using pool_okD(5) [OF P(1) that] by (simp add: sd_frame_def)
  have idle': "tx_idle ?d" using idle by (simp add: tx_idle_def drv_simps)
  have "\<exists>k d1. (if dc_apply_transparency (fr_cfg (sd_framer ?d)) then prepare_encoded f ?d else prepare_plain f ?d) = (Inr k, d1)
    \<and> tx_idle d1 \<and> sd_wire d1 = sd_wire d \<and> take (unat (f_tx_len (sd_frame d1 k))) (f_bytes (sd_frame d1 k)) = ?w"
  proof (cases "dc_apply_transparency (fr_cfg (sd_framer d))")
    case True
    then obtain g gs where fs: "fp_free (sd_pool d) = g # gs" "f_gate_free (sd_frame d g)"
      using g by (cases "fp_free (sd_pool d)") auto
    have gf: "g \<noteq> f" "g < unat (fp_total (sd_pool d))" using nf fs pool_okD(2) [OF P(1), of g] by auto
    show ?thesis
      using prepare_encoded_image [of ?d "sd_frame ?d f" f n g gs] True F fs gf idle' n s P(2) ln [OF f(1)] ln [OF gf(2)]
      by (auto simp: drv_simps pool_simps)
  next
    case False
    then show ?thesis
      using prepare_plain_image [of ?d "sd_frame ?d f" f n] F f(4) r0 idle' n s P(2) ln [OF f(1)]
      by (auto simp: drv_simps)
  qed
  then obtain k d1 where p: "(if dc_apply_transparency (fr_cfg (sd_framer ?d)) then prepare_encoded f ?d else prepare_plain f ?d) = (Inr k, d1)"
    "tx_idle d1" "sd_wire d1 = sd_wire d" "take (unat (f_tx_len (sd_frame d1 k))) (f_bytes (sd_frame d1 k)) = ?w" by blast
  obtain d2 where "drv_commit k d1 = (0, d2)" "sd_wire d2 = sd_wire d @ [IOHDLC_FLAG # ?w]"
    using commit_idle [OF p(2), of k] p(3,4) by auto
  then show ?thesis using gt p(1) by (intro exI [of _ d2]) (simp add: drv_send_frame_def)
qed

text \<open>What the delivery makes of it.\<close>

lemma recv_image:
  assumes ok: "rx_ok h d" and q: "sd_recept_q d = [r]" "sd_sem d = 1" and F: "framer_ok (sd_framer d)"
    and s: "sendable (sd_framer d) (fp_framesize (sd_pool d)) n bs" "n \<le> length bs"
    and c: "frame_content d r = line_image (sd_framer d) n bs"
  shows "\<exists>d'. drv_recv_frame d = (Some r, d') \<and> unat (f_elen (sd_frame d' r)) = n
    \<and> take n (f_bytes (sd_frame d' r)) = with_fff (sd_framer d) n bs"
proof -
  let ?F = "sd_framer d"
  have co: "rx_core h d" using ok by (simp add: rx_ok_def)
  have "r \<in> set (sd_recept_q d)" by (simp add: q(1))
  note el = queued_frame [OF co this]
  obtain fm where fm: "recv_check ?F (sd_frame d r) = Some (True, fm)" "unat (f_elen fm) = n + frame_fcs ?F"
    "take (n + frame_fcs ?F) (f_bytes fm) = framed ?F n bs"
    using recv_check_accepts [OF F, of "sd_frame d r" n bs] s el c by (auto simp: frame_content_def)
  let ?x = "f_elen fm - ucast (dc_fcs_size (fr_cfg ?F))"
  let ?d = "sd_upd r (\<lambda>_. fm\<lparr>f_elen := ?x\<rparr>) (d\<lparr>sd_sem := 0, sd_recept_q := []\<rparr>)"
  have "drv_recv_frame d = (Some r, ?d)"
    using q fm(1) by (subst drv_recv_frame.simps) (simp add: Let_def drv_simps)
  moreover have "unat ?x = n"
  proof -
    have u: "unat (ucast (dc_fcs_size (fr_cfg ?F)) :: u16) = frame_fcs ?F" by (rule unat_fcs_size)
    then show ?thesis using fm(2) by (simp add: unat_sub word_le_nat_alt)
  qed
  moreover have "take n (f_bytes fm) = with_fff ?F n bs"
  proof -
    have "length (with_fff ?F n bs) = n" using F s by (intro length_with_fff) (auto simp: sendable_def)
    then show ?thesis using arg_cong [OF fm(3), of "take n"] by (simp add: framed_def)
  qed
  ultimately show ?thesis by (intro exI [of _ ?d]) (simp add: drv_simps)
qed


text \<open>C29: frames sent back to back, each closing flag opening the next frame, are queued for delivery in
  the order sent and octet for octet, as many as there are buffers.\<close>

theorem frames_in_order:
  assumes "rx_ok h R" "framer_ok (sd_framer R)" "sd_in_frame R = None" "sd_recept_q R = []" "sd_sem R = 0"
    and "\<forall>w \<in> set ws. wire_ok (sd_framer R) (fp_framesize (sd_pool R)) w" "ws \<noteq> []" "length ws \<le> length (fp_free (sd_pool R))"
  shows "\<exists>R'. rx_feed (IOHDLC_FLAG # on_line ws) R = (R', []) \<and> map (frame_content R') (sd_recept_q R') = ws
    \<and> sd_sem R' = length ws"
proof -
  have st: "sd_in_frame R = None \<and> fp_free (sd_pool R) \<noteq> [] \<or> rx_ready R 0" using assms(3,7,8) by auto
  obtain R1 r where R1: "rx_feed (IOHDLC_FLAG # on_line ws) R = rx_feed (on_line ws) R1" "rx_ok h R1" "rx_ready R1 r"
    "sd_recept_q R1 = []" "sd_sem R1 = 0" "sd_framer R1 = sd_framer R" "fp_framesize (sd_pool R1) = fp_framesize (sd_pool R)"
    "length (fp_free (sd_pool R)) \<le> Suc (length (fp_free (sd_pool R1)))"
    using opening_flag [OF assms(1) st, of "on_line ws"] assms(4,5) by auto
  have rd: "ws = [] \<or> rx_ready R1 r" using R1(3) by simp
  obtain R2 fs where R2: "rx_feed (on_line ws @ []) R1 = rx_feed [] R2" "sd_recept_q R2 = fs" "map (frame_content R2) fs = ws"
    "sd_sem R2 = length ws"
    using frames_received [OF R1(2) rd, of "[]"] assms(2,6,8) R1(4-8) by auto
  have "sd_rx_len R2 = 0 \<or> length ([] :: u8 list) < sd_rx_len R2" by auto
  then have "rx_feed [] R2 = (R2, [])" by (subst rx_feed.simps) simp
  then show ?thesis using R1(1) R2 by auto
qed

text \<open>A sender that owns a frame of nine octets, a flag octet among them.\<close>

definition sample_sender :: swdrv where
  "sample_sender = sd_upd 2 (\<lambda>fr. fr\<lparr>f_bytes := f_bytes sample_tx_frame, f_elen := 9, f_tx_ctrl_len := 1\<rparr>)
     (snd (sd_take (sample_receiver False 2)))"

lemma sample_receiver_pool: "sd_pool (sample_receiver False 2) = sample_pool"
  by (simp add: sample_receiver_def drv_start_def resolve_policy_def Let_def drv_simps)

lemma sample_receiver_ok: "rx_ok (pool_refs sample_pool) (sample_receiver False 2)"
proof -
  have c: "False = False \<and> (2 :: u8) \<in> {0, 1, 2} \<or> False = True \<and> (2 :: u8) = 0" by simp
  obtain d0 where d0: "ioHdlcSwDriverInit None sample_pool = Some d0"
    "drv_configure_store 2 False 2 d0 = (None, sample_driver False 2)" using sample_init [OF c] by blast
  show ?thesis unfolding sample_receiver_def
    using drv_start_ok [OF sample_pool_ok(1) _ _ configured_idle [OF d0]] sample_pool_ok(2) by simp
qed

lemma sample_free: "fp_free sample_pool = [2, 1, 0]" "fp_total sample_pool = 3"
  by code_simp+

lemma sample_sender_facts:
  "pool_ok (sd_pool sample_sender)" "fp_framesize (sd_pool sample_sender) = 32" "fp_total (sd_pool sample_sender) = 3"
  "sd_framer sample_sender = sd_framer (sample_receiver False 2)"
  "f_elen (sd_frame sample_sender 2) = 9" "f_tx_ctrl_len (sd_frame sample_sender 2) = 1"
  "f_bytes (sd_frame sample_sender 2) = f_bytes sample_tx_frame"
  "pool_refs (sd_pool sample_sender) 2 = 1"
proof -
  note t = take_some [OF sample_free(1)]
  have p: "sd_pool (snd (sd_take (sample_receiver False 2))) = fst (snd (take_frame sample_pool))"
    by (simp add: sd_take_def Let_def sample_receiver_pool)
  have "length (f_bytes (fp_heap sample_pool 2)) = 32"
    using pool_okD(5) [OF sample_pool_ok(1), of 2] sample_free(2) sample_pool_ok(2) by simp
  then have l: "length (f_bytes sample_tx_frame) = length (f_bytes (fp_heap (fst (snd (take_frame sample_pool))) 2))"
    by (simp add: t fresh_frame_def sample_tx_frame_def)
  show "pool_ok (sd_pool sample_sender)"
    unfolding sample_sender_def drv_simps p using l
    by (intro upd_frame_ok(1) take_frame_ok sample_pool_ok(1)) simp_all
  show "fp_framesize (sd_pool sample_sender) = 32" "fp_total (sd_pool sample_sender) = 3"
    by (simp_all add: sample_sender_def drv_simps pool_simps p t sample_pool_ok(2) sample_free(2))
  show "sd_framer sample_sender = sd_framer (sample_receiver False 2)" "f_elen (sd_frame sample_sender 2) = 9"
    "f_tx_ctrl_len (sd_frame sample_sender 2) = 1" "f_bytes (sd_frame sample_sender 2) = f_bytes sample_tx_frame"
    by (simp_all add: sample_sender_def drv_simps)
  show "pool_refs (sd_pool sample_sender) 2 = 1" by code_simp
qed


theorem frames_in_order_witness:
  "\<exists>R'. rx_feed (IOHDLC_FLAG # on_line [[0x80, 6, 1, 2, 3, 4], [0x80, 5, 0x7E, 0x7E, 0x7E]]) (sample_receiver False 2) = (R', [])
    \<and> map (frame_content R') (sd_recept_q R') = [[0x80, 6, 1, 2, 3, 4], [0x80, 5, 0x7E, 0x7E, 0x7E]] \<and> sd_sem R' = 2"
proof -
  have c: "False = False \<and> (2 :: u8) \<in> {0, 1, 2} \<or> False = True \<and> (2 :: u8) = 0" by simp
  note F = sample_receiver_facts [OF c] and Fr = sample_receiver_framer [OF c]
  have m: "\<not> plain_mode (sd_framer (sample_receiver False 2))" "frame_fff (sd_framer (sample_receiver False 2)) = 2"
    unfolding Fr by (simp_all add: plain_mode_def frame_fff_def Let_def)
  have rx: "sd_in_frame (sample_receiver False 2) = None" "sd_recept_q (sample_receiver False 2) = []"
    "sd_sem (sample_receiver False 2) = 0" by code_simp+
  let ?ws = "[[0x80, 6, 1, 2, 3, 4], [0x80, 5, 0x7E, 0x7E, 0x7E]] :: u8 list list"
  have w: "\<forall>w \<in> set ?ws.
      wire_ok (sd_framer (sample_receiver False 2)) (fp_framesize (sd_pool (sample_receiver False 2))) w"
    using m by (simp add: wire_ok_def sample_receiver_pool sample_pool_ok fff_octets_def fff_limit_def IOHDLC_FLAG_def)
  have "?ws \<noteq> []" "length ?ws \<le> length (fp_free (sd_pool (sample_receiver False 2)))"
    by (simp_all add: sample_receiver_pool sample_free)
  from frames_in_order [OF sample_receiver_ok F(1) rx w this] show ?thesis by (simp add: numeral_2_eq_2)
qed

section \<open>Three runs at the edge\<close>

text \<open>A stop and a restart lose the frame under construction: nobody owns it, and it keeps a reference.\<close>

theorem restart_loses_frame:
  "let d = fst (rx_feed [0x7E] (sample_receiver False 2));
       e = drv_start None (sd_pool (drv_stop d)) (drv_stop d)
   in sd_in_frame d = Some 2 \<and> sd_in_frame e = None \<and> sd_recept_q e = [] \<and> sd_raw_q e = [] \<and> sd_inflight e = None
     \<and> f_refs (sd_frame e 2) = 1 \<and> fp_free (sd_pool e) = [1, 0]"
  by code_simp

text \<open>The minimum length is tested before the escapes are removed, so a frame of two octets of FCS and
  nothing else is delivered, with length 0.\<close>

theorem empty_frame_delivered:
  "let (fo, d) = drv_recv_frame (fst (rx_feed [0x7E, 0x7D, 0x20, 0x7D, 0x20, 0x7E] (sample_receiver True 0)))
   in fo = Some 2 \<and> f_elen (sd_frame d 2) = 0"
  by code_simp

text \<open>Without an FCS, the two octets of a supervisory frame are below the minimum and are dropped.\<close>

theorem short_frame_dropped:
  "let d = snd (drv_configure_store 0 False 0 (sample_driver False 0));
       e = fst (rx_feed [0x7E, 1, 0x11, 0x7E] (drv_start None sample_pool d))
   in sd_recept_q e = [] \<and> sd_sem e = 0 \<and> dc_fcs_size (fr_cfg (sd_framer d)) = 0"
  by code_simp

end
