(* ===== verification/Hdlc_DriverQueue.thy ===== *)
theory Hdlc_DriverQueue
  imports Hdlc_DriverTrip
begin

text \<open>
  The transmit pipeline: completions of the port drain the queue in order, and a transmission that is
  refused leaves no trace.
\<close>

section \<open>Releasing a frame\<close>

lemma sd_release_held:
  assumes "pool_ok (sd_pool d)" "pool_refs (sd_pool d) f \<noteq> 0"
  shows "pool_ok (sd_pool (sd_release f d))"
    "pool_refs (sd_pool (sd_release f d)) = (pool_refs (sd_pool d))(f := pool_refs (sd_pool d) f - 1)"
    "sd_fault (sd_release f d) = sd_fault d"
    "fp_framesize (sd_pool (sd_release f d)) = fp_framesize (sd_pool d)"
    "f_bytes (sd_frame (sd_release f d) g) = f_bytes (sd_frame d g)"
    "f_tx_len (sd_frame (sd_release f d) g) = f_tx_len (sd_frame d g)"
    "f_elen (sd_frame (sd_release f d) g) = f_elen (sd_frame d g)"
    "f_gate_free (sd_frame (sd_release f d) g) = f_gate_free (sd_frame d g)"
    "f_qaux_linked (sd_frame (sd_release f d) g) = f_qaux_linked (sd_frame d g)"
proof -
  from release_frame_ok [OF assms] obtain P c where P: "release_frame f (sd_pool d) = Some (P, c)" "pool_ok P"
    "pool_refs P = (pool_refs (sd_pool d))(f := pool_refs (sd_pool d) f - 1)"
    "fp_framesize P = fp_framesize (sd_pool d)" by blast
  note hp = release_heap [OF P(1)]
  show "pool_ok (sd_pool (sd_release f d))"
    "pool_refs (sd_pool (sd_release f d)) = (pool_refs (sd_pool d))(f := pool_refs (sd_pool d) f - 1)"
    "sd_fault (sd_release f d) = sd_fault d"
    "fp_framesize (sd_pool (sd_release f d)) = fp_framesize (sd_pool d)"
    "f_bytes (sd_frame (sd_release f d) g) = f_bytes (sd_frame d g)"
    "f_tx_len (sd_frame (sd_release f d) g) = f_tx_len (sd_frame d g)"
    "f_elen (sd_frame (sd_release f d) g) = f_elen (sd_frame d g)"
    "f_gate_free (sd_frame (sd_release f d) g) = f_gate_free (sd_frame d g)"
    "f_qaux_linked (sd_frame (sd_release f d) g) = f_qaux_linked (sd_frame d g)"
    using P by (simp_all add: sd_release_def sd_frame_def hp)
qed

lemma release_sel [drv_simps]:
  "sd_inflight (sd_release f d) = sd_inflight d" "sd_raw_q (sd_release f d) = sd_raw_q d"
  "sd_busy (sd_release f d) = sd_busy d" "sd_submit (sd_release f d) = sd_submit d" "sd_wire (sd_release f d) = sd_wire d"
  by (simp_all add: sd_release_def sd_failed_def split: option.splits)

lemma upd_refs [drv_simps]:
  "pool_refs (upd_frame f (\<lambda>fr. fr\<lparr>f_gate_free := b\<rparr>) P) = pool_refs P"
  "pool_refs (upd_frame f (\<lambda>fr. fr\<lparr>f_openingflag := x\<rparr>) P) = pool_refs P"
  "pool_refs (upd_frame f (\<lambda>fr. fr\<lparr>f_qaux_linked := b, f_openingflag := x\<rparr>) P) = pool_refs P"
  "pool_refs (upd_frame f (\<lambda>fr. fr\<lparr>f_openingflag := x, f_qaux_linked := b\<rparr>) P) = pool_refs P"
  by (auto simp: pool_refs_def pool_simps fun_eq_iff)

lemma upd_ok [drv_simps]:
  "pool_ok P \<Longrightarrow> pool_ok (upd_frame f (\<lambda>fr. fr\<lparr>f_gate_free := b\<rparr>) P)"
  "pool_ok P \<Longrightarrow> pool_ok (upd_frame f (\<lambda>fr. fr\<lparr>f_openingflag := x\<rparr>) P)"
  "pool_ok P \<Longrightarrow> pool_ok (upd_frame f (\<lambda>fr. fr\<lparr>f_qaux_linked := b, f_openingflag := x\<rparr>) P)"
  "pool_ok P \<Longrightarrow> pool_ok (upd_frame f (\<lambda>fr. fr\<lparr>f_openingflag := x, f_qaux_linked := b\<rparr>) P)"
  by (simp_all add: upd_frame_ok(1))

section \<open>Draining the queue\<close>

text \<open>The port completes the frame that is under way.\<close>

definition tx_complete :: "swdrv \<Rightarrow> swdrv" where
  "tx_complete d = (case sd_inflight d of None \<Rightarrow> d | Some f \<Rightarrow> s_on_tx_done (Some f) d)"

definition out_image :: "swdrv \<Rightarrow> nat \<Rightarrow> u8 list" where
  "out_image d f = take (unat (f_tx_len (sd_frame d f))) (f_bytes (sd_frame d f))"

definition tx_pipe :: "swdrv \<Rightarrow> nat list" where
  "tx_pipe d = (case sd_inflight d of None \<Rightarrow> [] | Some f \<Rightarrow> [f]) @ sd_raw_q d"

text \<open>The port takes every frame it is offered.\<close>

definition port_accepts :: "swdrv \<Rightarrow> bool" where
  "port_accepts d \<longleftrightarrow> sd_busy d = [] \<and> sd_submit d = []"

lemma done_starts_next:
  assumes "sd_inflight d = Some f" "sd_raw_q d = g # gs" "port_accepts d"
    and "pool_ok (sd_pool d)" "pool_refs (sd_pool d) f \<noteq> 0" "f \<noteq> g"
  defines "d' \<equiv> tx_complete d"
  shows "sd_inflight d' = Some g" "sd_raw_q d' = gs" "port_accepts d'" "pool_ok (sd_pool d')"
    "pool_refs (sd_pool d') = (pool_refs (sd_pool d))(f := pool_refs (sd_pool d) f - 1)"
    "sd_wire d' = sd_wire d @ [out_image d g]" "out_image d' k = out_image d k" "sd_fault d' = sd_fault d"
    "f_gate_free (sd_frame d' k) = (k = f \<or> f_gate_free (sd_frame d k))"
proof -
  let ?d1 = "sd_gate_release f (d\<lparr>sd_inflight := None\<rparr>)"
  let ?d2 = "sd_upd g (\<lambda>fr. fr\<lparr>f_qaux_linked := False, f_openingflag := 0\<rparr>) (?d1\<lparr>sd_busy := [], sd_raw_q := gs\<rparr>)"
  let ?d3 = "?d2\<lparr>sd_inflight := Some g, sd_submit := [], sd_wire := sd_wire ?d2 @ [wire_image (sd_frame ?d2 g)]\<rparr>"
  have e: "d' = sd_release f ?d3"
    using assms(1-3) by (simp add: d'_def tx_complete_def s_on_tx_done_def s_try_start_next_tx_i_def tx_busy_def tx_submit_frame_def
        port_accepts_def Let_def release_opt_def drv_simps sd_gate_release_def sd_frame_def)
  have ok: "pool_ok (sd_pool ?d3)" "pool_refs (sd_pool ?d3) = pool_refs (sd_pool d)"
    using assms(4) by (simp_all add: drv_simps sd_gate_release_def)
  have "pool_refs (sd_pool ?d3) f \<noteq> 0" using ok(2) assms(5) by simp
  note r = sd_release_held [OF ok(1) this]
  have im: "wire_image (sd_frame ?d2 g) = out_image d g"
    using assms(6) by (simp add: wire_image_def out_image_def drv_simps sd_gate_release_def sd_frame_def sd_upd_def pool_simps)
  have fr: "f_bytes (sd_frame ?d3 k) = f_bytes (sd_frame d k)" "f_tx_len (sd_frame ?d3 k) = f_tx_len (sd_frame d k)"
    "f_gate_free (sd_frame ?d3 k) = (k = f \<or> f_gate_free (sd_frame d k))"
    by (simp_all add: sd_frame_def sd_upd_def sd_gate_release_def pool_simps)
  show "sd_inflight d' = Some g" "sd_raw_q d' = gs" "port_accepts d'" "sd_wire d' = sd_wire d @ [out_image d g]"
    unfolding e im by (simp_all add: drv_simps port_accepts_def sd_gate_release_def)
  show "pool_ok (sd_pool d')" "pool_refs (sd_pool d') = (pool_refs (sd_pool d))(f := pool_refs (sd_pool d) f - 1)"
    using r(1,2) ok(2) unfolding e by simp_all
  show "sd_fault d' = sd_fault d" using r(3) unfolding e by (simp add: sd_gate_release_def drv_simps)
  show "out_image d' k = out_image d k" "f_gate_free (sd_frame d' k) = (k = f \<or> f_gate_free (sd_frame d k))"
    unfolding e out_image_def r(5,6,8) fr by simp_all
qed

lemma done_last:
  assumes "sd_inflight d = Some f" "sd_raw_q d = []" "port_accepts d"
    and "pool_ok (sd_pool d)" "pool_refs (sd_pool d) f \<noteq> 0"
  defines "d' \<equiv> tx_complete d"
  shows "sd_inflight d' = None" "sd_raw_q d' = []" "port_accepts d'" "pool_ok (sd_pool d')"
    "pool_refs (sd_pool d') = (pool_refs (sd_pool d))(f := pool_refs (sd_pool d) f - 1)"
    "sd_wire d' = sd_wire d" "sd_fault d' = sd_fault d"
    "f_gate_free (sd_frame d' k) = (k = f \<or> f_gate_free (sd_frame d k))"
proof -
  let ?d1 = "sd_gate_release f (d\<lparr>sd_inflight := None\<rparr>)"
  have e: "d' = sd_release f ?d1"
    using assms(1-3) by (simp add: d'_def tx_complete_def s_on_tx_done_def s_try_start_next_tx_i_def Let_def release_opt_def
        drv_simps sd_gate_release_def)
  have ok: "pool_ok (sd_pool ?d1)" "pool_refs (sd_pool ?d1) = pool_refs (sd_pool d)"
    using assms(4) by (simp_all add: drv_simps sd_gate_release_def)
  have "pool_refs (sd_pool ?d1) f \<noteq> 0" using ok(2) assms(5) by simp
  note r = sd_release_held [OF ok(1) this]
  have fr: "f_gate_free (sd_frame ?d1 k) = (k = f \<or> f_gate_free (sd_frame d k))"
    by (simp add: sd_frame_def sd_upd_def sd_gate_release_def pool_simps)
  show "sd_inflight d' = None" "sd_raw_q d' = []" "port_accepts d'" "sd_wire d' = sd_wire d"
    unfolding e using assms(2,3) by (simp_all add: drv_simps port_accepts_def sd_gate_release_def)
  show "pool_ok (sd_pool d')" "pool_refs (sd_pool d') = (pool_refs (sd_pool d))(f := pool_refs (sd_pool d) f - 1)"
    using r(1,2) ok(2) unfolding e by simp_all
  show "sd_fault d' = sd_fault d" using r(3) unfolding e by (simp add: sd_gate_release_def drv_simps)
  show "f_gate_free (sd_frame d' k) = (k = f \<or> f_gate_free (sd_frame d k))" unfolding e r(8) fr ..
qed

text \<open>C30: while the port keeps completing frames and accepts what it is offered, the queue empties: one
  completion for each frame puts all of them on the line, in the order they were queued and with
  the octets they had, opens their gates and gives back one reference of each.\<close>

theorem queue_drains:
  assumes "sd_inflight d = Some f" "distinct (f # sd_raw_q d)" "port_accepts d"
    and "pool_ok (sd_pool d)" "\<forall>g \<in> set (f # sd_raw_q d). pool_refs (sd_pool d) g \<noteq> 0"
  shows "\<exists>d'. (tx_complete ^^ length (tx_pipe d)) d = d' \<and> tx_pipe d' = [] \<and> sd_fault d' = sd_fault d
    \<and> sd_wire d' = sd_wire d @ map (out_image d) (sd_raw_q d)
    \<and> pool_refs (sd_pool d') = (\<lambda>g. if g \<in> set (tx_pipe d) then pool_refs (sd_pool d) g - 1 else pool_refs (sd_pool d) g)
    \<and> (\<forall>g \<in> set (tx_pipe d). f_gate_free (sd_frame d' g))"
proof -
  have "\<exists>d'. (tx_complete ^^ Suc (length q)) d = d' \<and> tx_pipe d' = [] \<and> sd_fault d' = sd_fault d
      \<and> sd_wire d' = sd_wire d @ map (out_image d) q
      \<and> pool_refs (sd_pool d') = (\<lambda>g. if g \<in> set (f # q) then pool_refs (sd_pool d) g - 1 else pool_refs (sd_pool d) g)
      \<and> (\<forall>g. f_gate_free (sd_frame d' g) \<longleftrightarrow> g \<in> set (f # q) \<or> f_gate_free (sd_frame d g))"
    if "sd_inflight d = Some f" "sd_raw_q d = q" "distinct (f # q)" "port_accepts d" "pool_ok (sd_pool d)"
      "\<forall>g \<in> set (f # q). pool_refs (sd_pool d) g \<noteq> 0" for q d f
    using that
  proof (induction q arbitrary: d f)
    case Nil
    have "pool_refs (sd_pool d) f \<noteq> 0" using Nil.prems(6) by simp
    note l = done_last [OF Nil.prems(1,2,4,5) this]
    show ?case using l by (auto simp: tx_pipe_def fun_eq_iff)
  next
    case (Cons g gs)
    have rf: "pool_refs (sd_pool d) f \<noteq> 0" "f \<noteq> g" using Cons.prems(3,6) by simp_all
    note s = done_starts_next [OF Cons.prems(1,2,4,5) rf]
    have "\<forall>k \<in> set (g # gs). pool_refs (sd_pool (tx_complete d)) k \<noteq> 0" "distinct (g # gs)"
      using Cons.prems(3,6) s(5) by auto
    from Cons.IH [OF s(1,2) this(2) s(3,4) this(1)] obtain d' where d': "(tx_complete ^^ Suc (length gs)) (tx_complete d) = d'"
      "tx_pipe d' = []" "sd_fault d' = sd_fault d" "sd_wire d' = sd_wire d @ out_image d g # map (out_image d) gs"
      "pool_refs (sd_pool d') = (\<lambda>k. if k \<in> set (g # gs) then pool_refs (sd_pool (tx_complete d)) k - 1 else pool_refs (sd_pool (tx_complete d)) k)"
      "\<forall>k. f_gate_free (sd_frame d' k) \<longleftrightarrow> k \<in> set (g # gs) \<or> f_gate_free (sd_frame (tx_complete d) k)"
      using s(6-8) by auto
    have "(tx_complete ^^ Suc (length (g # gs))) d = d'" using d'(1) by (simp add: funpow_swap1)
    then show ?case using d'(2-6) s(5,9) Cons.prems(3) by (intro exI [of _ d']) (auto simp: fun_eq_iff)
  qed
  from this [OF assms(1) refl assms(2-5)] show ?thesis using assms(1) by (auto simp: tx_pipe_def)
qed

section \<open>A refused transmission\<close>

text \<open>What a step leaves alone when it touches neither the line nor the queue.\<close>

definition tx_same :: "nat \<Rightarrow> swdrv \<Rightarrow> swdrv \<Rightarrow> bool" where
  "tx_same f d d' \<longleftrightarrow> sd_wire d' = sd_wire d \<and> sd_inflight d' = sd_inflight d \<and> sd_raw_q d' = sd_raw_q d
     \<and> sd_busy d' = sd_busy d \<and> sd_submit d' = sd_submit d \<and> sd_fault d' = sd_fault d
     \<and> f_elen (sd_frame d' f) = f_elen (sd_frame d f)"

text \<open>A frame in the hands of the caller, with room in its buffer for what the driver adds.\<close>

definition tx_frame_ok :: "nat \<Rightarrow> swdrv \<Rightarrow> bool" where
  "tx_frame_ok f d \<longleftrightarrow> pool_ok (sd_pool d) \<and> fp_framesize (sd_pool d) < 65536 \<and> f < unat (fp_total (sd_pool d))
     \<and> pool_refs (sd_pool d) f \<noteq> 0 \<and> pool_refs (sd_pool d) f < 255 \<and> f_tx_ctrl_len (sd_frame d f) \<noteq> 0
     \<and> \<not> f_qaux_linked (sd_frame d f) \<and> frame_fff (sd_framer d) \<le> unat (f_elen (sd_frame d f))
     \<and> unat (f_elen (sd_frame d f)) + frame_fcs (sd_framer d) < fp_framesize (sd_pool d)
     \<and> (dc_apply_transparency (fr_cfg (sd_framer d)) \<longrightarrow>
          length (stuff (framed (sd_framer d) (unat (f_elen (sd_frame d f))) (f_bytes (sd_frame d f)))) < fp_framesize (sd_pool d)
          \<and> (\<forall>g \<in> set (fp_free (sd_pool d)). f_gate_free (sd_frame d g)))"

lemma tx_frame_okD:
  assumes "tx_frame_ok f d"
  shows "pool_ok (sd_pool d)" "length (f_bytes (sd_frame d f)) = fp_framesize (sd_pool d)" "f \<notin> set (fp_free (sd_pool d))"
    "f_refs (sd_frame d f) \<noteq> 0" "g \<in> set (fp_free (sd_pool d)) \<Longrightarrow> length (f_bytes (sd_frame d g)) = fp_framesize (sd_pool d)"
proof -
  have p: "pool_ok (sd_pool d)" "f < unat (fp_total (sd_pool d))" "pool_refs (sd_pool d) f \<noteq> 0"
    using assms by (simp_all add: tx_frame_ok_def)
  show "pool_ok (sd_pool d)" by (rule p(1))
  show "length (f_bytes (sd_frame d f)) = fp_framesize (sd_pool d)"
    using pool_okD(5) [OF p(1,2)] by (simp add: sd_frame_def)
  show "f \<notin> set (fp_free (sd_pool d))" "f_refs (sd_frame d f) \<noteq> 0"
    using p(3) by (auto simp: pool_refs_def sd_frame_def split: if_splits)
  show "g \<in> set (fp_free (sd_pool d)) \<Longrightarrow> length (f_bytes (sd_frame d g)) = fp_framesize (sd_pool d)"
    using pool_okD(2,5) [OF p(1)] by (simp add: sd_frame_def)
qed

text \<open>The outcome of the preparation: refused, with the caller's frame as it was, or a frame \<open>k\<close> with one
  more reference.\<close>

definition prepared :: "nat \<Rightarrow> swdrv \<Rightarrow> (int + nat) \<times> swdrv \<Rightarrow> bool" where
  "prepared f d r \<longleftrightarrow> tx_same f d (snd r) \<and> (case fst r of
       Inl e \<Rightarrow> (e = 90 \<and> \<not> frame_fits (sd_framer d) (unat (f_elen (sd_frame d f)))
           \<or> e = 12 \<and> dc_apply_transparency (fr_cfg (sd_framer d)) \<and> fp_free (sd_pool d) = [])
         \<and> pool_refs (sd_pool (snd r)) = pool_refs (sd_pool d) \<and> f_gate_free (sd_frame (snd r) f)
     | Inr k \<Rightarrow> pool_ok (sd_pool (snd r)) \<and> pool_refs (sd_pool (snd r)) = (pool_refs (sd_pool d))(k := pool_refs (sd_pool d) k + 1)
         \<and> \<not> f_qaux_linked (sd_frame (snd r) k) \<and> (k = f \<or> f_gate_free (sd_frame (snd r) f)))"

lemma prepare_plain_effect:
  assumes F: "framer_ok (sd_framer d)" and tr: "\<not> dc_apply_transparency (fr_cfg (sd_framer d))" and ok: "tx_frame_ok f d"
  shows "prepared f d (prepare_plain f d)"
proof -
  let ?fm = "sd_frame d f" and ?F = "sd_framer d"
  let ?n = "unat (f_elen ?fm)"
  note D = tx_frame_okD [OF ok]
  note o = ok [unfolded tx_frame_ok_def]
  have m: "s_materialize_tx_frame ?F ?fm = Some (if frame_fits ?F ?n
      then Inr (?fm\<lparr>f_bytes := framed ?F ?n (f_bytes ?fm) @ [IOHDLC_FLAG] @ drop (?n + frame_fcs ?F + 1) (f_bytes ?fm),
        f_tx_len := word_of_nat (?n + frame_fcs ?F + 1)\<rparr>) else Inl EMSGSIZE)"
    using o D(2) F by (intro materialize_spec) auto
  show ?thesis
  proof (cases "frame_fits ?F ?n")
    case False
    then show ?thesis using m by (simp add: prepare_plain_def prepared_def tx_same_def sd_gate_release_def drv_simps)
  next
    case True
    let ?fm' = "?fm\<lparr>f_bytes := framed ?F ?n (f_bytes ?fm) @ [IOHDLC_FLAG] @ drop (?n + frame_fcs ?F + 1) (f_bytes ?fm),
        f_tx_len := word_of_nat (?n + frame_fcs ?F + 1)\<rparr>"
    let ?d = "sd_upd f (\<lambda>_. ?fm') d"
    have "length (framed ?F ?n (f_bytes ?fm)) = ?n + frame_fcs ?F" using o D(2) F by (intro length_framed) auto
    then have "length (f_bytes ?fm') = length (f_bytes ?fm)" using o D(2) by simp
    then have P: "pool_ok (sd_pool ?d)" "pool_refs (sd_pool ?d) = pool_refs (sd_pool d)"
      using upd_frame_ok [OF D(1), of "\<lambda>_. ?fm'" f] by (simp_all add: sd_upd_def sd_frame_def)
    have "pool_refs (sd_pool ?d) f \<noteq> 0" "pool_refs (sd_pool ?d) f < 255" using o P(2) by simp_all
    from addref_frame_ok [OF P(1) this] obtain P' where P': "addref_frame f (sd_pool ?d) = Some P'" "pool_ok P'"
      "pool_refs P' = (pool_refs (sd_pool ?d))(f := pool_refs (sd_pool ?d) f + 1)" by blast
    then have h: "fp_heap P' = (fp_heap (sd_pool ?d))(f := (fp_heap (sd_pool ?d) f)\<lparr>f_refs := f_refs (fp_heap (sd_pool ?d) f) + 1\<rparr>)"
      by (auto simp: addref_frame_def pool_simps split: if_splits)
    have "prepare_plain f d = (Inr f, ?d\<lparr>sd_pool := P'\<rparr>)"
      using m True P'(1) by (simp add: prepare_plain_def sd_addref_def)
    then show ?thesis using P' P(2) o h
      by (simp add: prepared_def tx_same_def drv_simps sd_frame_def pool_simps)
  qed
qed

lemma sd_upd_pool_ok:
  assumes "pool_ok (sd_pool d)" "f_refs (g (sd_frame d f)) = f_refs (sd_frame d f)"
    "length (f_bytes (g (sd_frame d f))) = length (f_bytes (sd_frame d f))"
  shows "pool_ok (sd_pool (sd_upd f g d))" "pool_refs (sd_pool (sd_upd f g d)) = pool_refs (sd_pool d)"
  using upd_frame_ok [of "sd_pool d" g f] assms by (simp_all add: sd_upd_def sd_frame_def)

lemma encoded_state_pool:
  assumes "pool_ok (sd_pool d)" "fp_free (sd_pool d) = g # gs" "g \<noteq> f"
    and "length w \<le> length (f_bytes (sd_frame d f))" "length (stuff w) < length (f_bytes (sd_frame d g))"
  shows "pool_ok (sd_pool (encoded_state f g w d))"
    "pool_refs (sd_pool (encoded_state f g w d)) = (pool_refs (sd_pool d))(g := 1)"
proof -
  let ?B = "f_bytes (sd_frame d g)" and ?fm = "sd_frame d f"
  let ?d1 = "sd_upd f (\<lambda>fr. fr\<lparr>f_bytes := w @ drop (length w) (f_bytes ?fm), f_elen := word_of_nat (length w)\<rparr>) d"
  let ?d2 = "snd (sd_take ?d1)"
  let ?d3 = "sd_upd g (\<lambda>fr. fr\<lparr>f_bytes := stuff w @ drop (length (stuff w)) ?B, f_elen := word_of_nat (length (stuff w))\<rparr>) ?d2"
  let ?d4 = "sd_upd f (\<lambda>fr. fr\<lparr>f_elen := f_elen ?fm\<rparr>) ?d3"
  let ?d5 = "sd_upd f (\<lambda>fr. fr\<lparr>f_gate_free := True\<rparr>) ?d4"
  let ?d6 = "sd_upd g (\<lambda>fr. fr\<lparr>f_gate_free := False\<rparr>) ?d5"
  have p1: "pool_ok (sd_pool ?d1)" "pool_refs (sd_pool ?d1) = pool_refs (sd_pool d)"
    using assms(1,4) by (intro sd_upd_pool_ok; simp)+
  have fr1: "fp_free (sd_pool ?d1) = g # gs" using assms(2) by (simp add: drv_simps pool_simps)
  note t = take_some [OF fr1]
  have p2: "pool_ok (sd_pool ?d2)" "pool_refs (sd_pool ?d2) = (pool_refs (sd_pool d))(g := 1)"
    using take_frame_ok [OF p1(1)] take_frame_refs(1) [OF p1(1) fr1] p1(2) by (simp_all add: sd_take_def Let_def)
  have fg: "sd_frame ?d2 g = fresh_frame (sd_frame d g)"
    using t(3) assms(3) by (simp add: sd_take_def Let_def sd_frame_def pool_simps sd_upd_def)
  have p3: "pool_ok (sd_pool ?d3)" "pool_refs (sd_pool ?d3) = (pool_refs (sd_pool d))(g := 1)"
    using p2 fg assms(5) sd_upd_pool_ok [OF p2(1), of "\<lambda>fr. fr\<lparr>f_bytes := stuff w @ drop (length (stuff w)) ?B,
      f_elen := word_of_nat (length (stuff w))\<rparr>" g] by (simp_all add: fresh_frame_def)
  have p4: "pool_ok (sd_pool ?d4)" "pool_refs (sd_pool ?d4) = (pool_refs (sd_pool d))(g := 1)"
    using p3 sd_upd_pool_ok [OF p3(1), of "\<lambda>fr. fr\<lparr>f_elen := f_elen ?fm\<rparr>" f] by simp_all
  have p5: "pool_ok (sd_pool ?d5)" "pool_refs (sd_pool ?d5) = (pool_refs (sd_pool d))(g := 1)"
    using p4 sd_upd_pool_ok [OF p4(1), of "\<lambda>fr. fr\<lparr>f_gate_free := True\<rparr>" f] by simp_all
  have p6: "pool_ok (sd_pool ?d6)" "pool_refs (sd_pool ?d6) = (pool_refs (sd_pool d))(g := 1)"
    using p5 sd_upd_pool_ok [OF p5(1), of "\<lambda>fr. fr\<lparr>f_gate_free := False\<rparr>" g] by simp_all
  have l6: "length (f_bytes (sd_frame ?d6 g)) = length ?B" using assms(3,5) by (simp add: drv_simps)
  show "pool_ok (sd_pool (encoded_state f g w d))"
    "pool_refs (sd_pool (encoded_state f g w d)) = (pool_refs (sd_pool d))(g := 1)"
    using p6 l6 assms(5) sd_upd_pool_ok [OF p6(1), of "\<lambda>fr. fr\<lparr>f_bytes := stuff w @ [IOHDLC_FLAG] @ drop (length (stuff w) + 1) ?B,
      f_tx_len := word_of_nat (length (stuff w)) + 1\<rparr>" g]
    by (simp_all add: encoded_state_def Let_def sd_gate_release_def)
qed

lemma prepare_encoded_effect:
  assumes F: "framer_ok (sd_framer d)" and tr: "dc_apply_transparency (fr_cfg (sd_framer d))" and ok: "tx_frame_ok f d"
  shows "prepared f d (prepare_encoded f d)"
proof -
  let ?fm = "sd_frame d f" and ?F = "sd_framer d"
  let ?n = "unat (f_elen ?fm)"
  let ?w = "framed ?F ?n (f_bytes ?fm)"
  note D = tx_frame_okD [OF ok]
  note o = ok [unfolded tx_frame_ok_def]
  have n: "frame_fff ?F \<le> ?n" "?n + frame_fcs ?F < 65536" "?n + frame_fcs ?F \<le> length (f_bytes ?fm)" using o D(2) by auto
  have lw: "length ?w = ?n + frame_fcs ?F" using length_framed [OF F n(1)] n(3) by simp
  note fo = frame_octets_spec [OF F n]
  show ?thesis
  proof (cases "frame_fits ?F ?n")
    case False
    then show ?thesis using fo by (simp add: prepare_encoded_def prepared_def tx_same_def sd_gate_release_def drv_simps)
  next
    case fits: True
    show ?thesis
    proof (cases "fp_free (sd_pool d)")
      case Nil
      let ?d1 = "sd_upd f (\<lambda>fr. fr\<lparr>f_bytes := ?w @ drop (?n + frame_fcs ?F) (f_bytes ?fm),
          f_elen := f_elen ?fm + ucast (dc_fcs_size (fr_cfg ?F))\<rparr>) d"
      have tk: "sd_take ?d1 = (None, ?d1)"
        using Nil by (simp add: sd_take_def Let_def take_none drv_simps pool_simps)
      have "prepare_encoded f d = (Inl 12, sd_gate_release f (sd_upd f (\<lambda>fr. fr\<lparr>f_elen := f_elen ?fm\<rparr>) ?d1))"
        unfolding prepare_encoded_def Let_def using fo fits tk by simp
      moreover have "pool_refs (sd_pool ?d1) = pool_refs (sd_pool d)"
        using D(1) lw n(3) by (intro sd_upd_pool_ok(2)) simp_all
      then have "pool_refs (sd_pool (sd_gate_release f (sd_upd f (\<lambda>fr. fr\<lparr>f_elen := f_elen ?fm\<rparr>) ?d1))) = pool_refs (sd_pool d)"
        by (simp add: sd_gate_release_def drv_simps) (simp add: pool_refs_def pool_simps fun_eq_iff)
      ultimately show ?thesis using tr Nil by (simp add: prepared_def tx_same_def sd_gate_release_def drv_simps)
    next
      case (Cons g gs)
      have g: "g \<noteq> f" "f_gate_free (sd_frame d g)" "length (f_bytes (sd_frame d g)) = fp_framesize (sd_pool d)"
        using D(3,5) o tr Cons by auto
      have st: "length (stuff ?w) < fp_framesize (sd_pool d)" using o tr by simp
      have e: "prepare_encoded f d = (Inr g, encoded_state f g ?w d)"
        using st g D(2) o Cons by (intro prepare_encoded_state [OF F refl n(1) fits refl n(3)]) simp_all
      have "pool_refs (sd_pool d) g = 0" using take_frame_refs(2) [OF D(1) Cons] .
      then show ?thesis
        using encoded_state_pool [OF D(1) Cons g(1), of ?w] encoded_state_frame [OF Cons g(1), of ?w] lw n(3) st g(3) D(2)
        by (simp add: e prepared_def tx_same_def)
    qed
  qed
qed

lemma commit_tail_returns: "fst (commit_tail d) = 0"
  by (simp add: commit_tail_def Let_def case_prod_beta split: option.split)

lemma commit_refused:
  assumes "drv_commit k d = (e, d')" "e \<noteq> 0" "\<not> f_qaux_linked (sd_frame d k)"
    and "pool_ok (sd_pool d)" "pool_refs (sd_pool d) k \<noteq> 0"
  shows "sd_submit d \<noteq> [] \<and> e = hd (sd_submit d) \<and> tx_pipe d = [] \<and> tx_pipe d' = [] \<and> sd_wire d' = sd_wire d
    \<and> pool_refs (sd_pool d') = (pool_refs (sd_pool d))(k := pool_refs (sd_pool d) k - 1) \<and> sd_fault d' = sd_fault d
    \<and> f_elen (sd_frame d' f) = f_elen (sd_frame d f) \<and> (f_gate_free (sd_frame d' f) \<longleftrightarrow> f = k \<or> f_gate_free (sd_frame d f))"
proof -
  define d1 where "d1 = d\<lparr>sd_busy := tl (sd_busy d)\<rparr>"
  have b1: "tx_busy d = (case sd_busy d of [] \<Rightarrow> False | b # bs \<Rightarrow> b, d1)" by (simp add: tx_busy_def d1_def)
  have f1: "sd_frame d1 = sd_frame d" by (simp add: d1_def sd_frame_def fun_eq_iff)
  have nt: "drv_commit k d \<noteq> commit_tail x" for x using assms(1,2) commit_tail_returns [of x] by (metis fst_conv)
  have sb: "snd (tx_busy d) = d1" by (simp add: b1)
  have idle: "\<not> fst (tx_busy d) \<and> sd_inflight (snd (tx_busy d)) = None \<and> sd_raw_q (snd (tx_busy d)) = []"
  proof (rule ccontr)
    assume n: "\<not> ?thesis"
    have "\<not> f_qaux_linked (sd_frame (snd (tx_busy d)) k)" using assms(3) unfolding sb f1 .
    then have "drv_commit k d = commit_tail (raw_enqueue False k (snd (tx_busy d)))"
      unfolding drv_commit_def Let_def case_prod_beta if_not_P [OF n] by (rule if_P)
    then show False using nt by blast
  qed
  let ?d2 = "(sd_upd k (\<lambda>fr. fr\<lparr>f_openingflag := IOHDLC_FLAG\<rparr>) d1)\<lparr>sd_inflight := Some k\<rparr>"
  obtain x xs where x: "sd_submit d = x # xs" "x \<noteq> 0"
  proof (cases "sd_submit d")
    case Nil
    then have "fst (tx_submit_frame k ?d2) = 0" by (simp add: tx_submit_frame_def drv_simps d1_def Let_def)
    then have "drv_commit k d = commit_tail (snd (tx_submit_frame k ?d2))"
      unfolding drv_commit_def Let_def case_prod_beta if_P [OF idle] unfolding sb by simp
    then show ?thesis using nt by blast
  next
    case (Cons x xs)
    have "x \<noteq> 0"
    proof
      assume "x = 0"
      then have "fst (tx_submit_frame k ?d2) = 0" using Cons by (simp add: tx_submit_frame_def drv_simps d1_def Let_def)
      then have "drv_commit k d = commit_tail (snd (tx_submit_frame k ?d2))"
        unfolding drv_commit_def Let_def case_prod_beta if_P [OF idle] unfolding sb by simp
      then show False using nt by blast
    qed
    with Cons show ?thesis by (rule that)
  qed
  define d3 where "d3 = sd_gate_release k ((sd_upd k (\<lambda>fr. fr\<lparr>f_openingflag := IOHDLC_FLAG\<rparr>) d1)
      \<lparr>sd_submit := xs, sd_inflight := None, sd_busy := tl (sd_busy d1)\<rparr>)"
  have R: "drv_commit k d = (x, sd_release k d3)"
    using x assms(1,2) unfolding drv_commit_def Let_def case_prod_beta if_P [OF idle] unfolding sb
    by (auto simp: tx_submit_frame_def tx_busy_def drv_simps d1_def d3_def Let_def split: if_splits)
  have p3: "pool_ok (sd_pool d3)" "pool_refs (sd_pool d3) = pool_refs (sd_pool d)"
    using assms(4) by (simp_all add: d3_def d1_def sd_gate_release_def drv_simps)
  have "pool_refs (sd_pool d3) k \<noteq> 0" using p3(2) assms(5) by simp
  note r = sd_release_held [OF p3(1) this]
  have f3: "f_elen (sd_frame d3 f) = f_elen (sd_frame d f)" "f_gate_free (sd_frame d3 f) \<longleftrightarrow> f = k \<or> f_gate_free (sd_frame d f)"
    by (simp_all add: d3_def d1_def sd_gate_release_def sd_frame_def sd_upd_def pool_simps)
  have e: "e = x" "d' = sd_release k d3" using R assms(1) by simp_all
  show ?thesis unfolding e r(3,7,8) f3 using r(2) p3(2) x idle [unfolded sb]
    by (simp add: tx_pipe_def drv_simps d3_def d1_def sd_gate_release_def)
qed

lemma send_refused_effect:
  assumes F: "framer_ok (sd_framer d)" and ok: "tx_frame_ok f d" and gate: "f_gate_free (sd_frame d f)"
    and s: "drv_send_frame f d = (e, d')" "e \<noteq> 0"
  shows "(e = 90 \<and> \<not> frame_fits (sd_framer d) (unat (f_elen (sd_frame d f)))
      \<or> e = 12 \<and> dc_apply_transparency (fr_cfg (sd_framer d)) \<and> fp_free (sd_pool d) = []
      \<or> sd_submit d \<noteq> [] \<and> e = hd (sd_submit d) \<and> tx_pipe d = [])
    \<and> sd_wire d' = sd_wire d \<and> tx_pipe d' = tx_pipe d \<and> pool_refs (sd_pool d') = pool_refs (sd_pool d)
    \<and> sd_fault d' = sd_fault d \<and> f_elen (sd_frame d' f) = f_elen (sd_frame d f) \<and> f_gate_free (sd_frame d' f)"
proof -
  let ?d = "sd_upd f (\<lambda>fr. fr\<lparr>f_gate_free := False\<rparr>) d"
  have gt: "sd_gate_try f d = (True, ?d)" using gate by (simp add: sd_gate_try_def)
  have ok': "tx_frame_ok f ?d" using ok tx_frame_okD(3) [OF ok] by (auto simp: tx_frame_ok_def drv_simps pool_simps)
  have F': "framer_ok (sd_framer ?d)" using F by (simp add: drv_simps)
  let ?r = "if dc_apply_transparency (fr_cfg (sd_framer ?d)) then prepare_encoded f ?d else prepare_plain f ?d"
  obtain p where r: "?r = p" by blast
  have prep: "prepared f ?d p" unfolding r [symmetric] using prepare_encoded_effect [OF F' _ ok'] prepare_plain_effect [OF F' _ ok'] by simp
  have send: "drv_send_frame f d = (case fst p of Inl e \<Rightarrow> (e, snd p) | Inr k \<Rightarrow> drv_commit k (snd p))"
    unfolding drv_send_frame_def Let_def case_prod_beta gt fst_conv snd_conv r by simp
  have same: "sd_wire (snd p) = sd_wire d" "tx_pipe (snd p) = tx_pipe d" "sd_submit (snd p) = sd_submit d"
    "sd_fault (snd p) = sd_fault d" "f_elen (sd_frame (snd p) f) = f_elen (sd_frame d f)"
    using prep by (simp_all add: prepared_def tx_same_def tx_pipe_def drv_simps)
  show ?thesis
  proof (cases "fst p")
    case (Inl a)
    then have "e = a" "d' = snd p" using send s(1) by simp_all
    then show ?thesis using prep Inl same by (auto simp: prepared_def drv_simps pool_simps)
  next
    case (Inr k)
    have c: "drv_commit k (snd p) = (e, d')" using send s(1) Inr by simp
    have q: "pool_ok (sd_pool (snd p))" "pool_refs (sd_pool (snd p)) = (pool_refs (sd_pool d))(k := pool_refs (sd_pool d) k + 1)"
      "\<not> f_qaux_linked (sd_frame (snd p) k)" "k = f \<or> f_gate_free (sd_frame (snd p) f)"
      using prep Inr by (simp_all add: prepared_def drv_simps)
    have "pool_refs (sd_pool (snd p)) k \<noteq> 0" using q(2) by simp
    from commit_refused [OF c s(2) q(3,1) this, of f] show ?thesis using same q(2,4) by (simp add: fun_upd_idem) blast
  qed
qed



text \<open>The sender in front of a port that is idle and rejects what it is offered.\<close>

definition refused_sender :: swdrv where
  "refused_sender = sample_sender\<lparr>sd_submit := [5]\<rparr>"


text \<open>Two frames in the pipeline, one of them under way.\<close>

definition loaded_sender :: swdrv where
  "loaded_sender = (snd (sd_take (snd (sd_take (sample_receiver False 2)))))\<lparr>sd_inflight := Some 2, sd_raw_q := [1]\<rparr>"

theorem queue_drains_witness:
  "\<exists>d'. (tx_complete ^^ length (tx_pipe loaded_sender)) loaded_sender = d' \<and> tx_pipe d' = []
    \<and> sd_wire d' = sd_wire loaded_sender @ map (out_image loaded_sender) [1]
    \<and> (\<forall>g \<in> {1, 2}. f_gate_free (sd_frame d' g))"
proof -
  have i: "sd_inflight loaded_sender = Some 2" and q: "sd_raw_q loaded_sender = [1]" by code_simp+
  have p: "sd_pool loaded_sender = fst (snd (take_frame (fst (snd (take_frame sample_pool)))))"
    by (simp add: loaded_sender_def sd_take_def Let_def sample_receiver_pool)
  have ok: "pool_ok (sd_pool loaded_sender)" unfolding p by (intro take_frame_ok sample_pool_ok(1))
  have a: "port_accepts loaded_sender" by code_simp
  have "pool_refs (sd_pool loaded_sender) 2 = 1" "pool_refs (sd_pool loaded_sender) 1 = 1" by code_simp+
  then have r: "\<forall>g \<in> set (2 # sd_raw_q loaded_sender). pool_refs (sd_pool loaded_sender) g \<noteq> 0" by (simp add: q)
  have d: "distinct (2 # sd_raw_q loaded_sender)" by (simp add: q)
  from queue_drains [OF i d a ok r] show ?thesis using i q by (auto simp: tx_pipe_def)
qed

end
