(* ===== verification/Hdlc_Events.thy ===== *)
theory Hdlc_Events
  imports Hdlc_Api
begin

text \<open>
  The event layer of \<open>os/linux/src/ioHdlcosal.c\<close> (the event source and event listener sections)
  and the application listeners of \<open>src/ioHdlc.c\<close> on top of it. Event sources, listeners and
  threads are numbered. The functions are first given as one step each; then a system of threads
  runs them with the interleavings their locks allow: a broadcast holds the lock of its source and
  visits one listener after the other, with the lock of the listener taken from the change of its
  flags to the change of the pending events of its thread.
\<close>

section \<open>Sources, listeners and thread events\<close>

record listener =
  el_thread :: nat
  el_events :: u32
  el_flags :: u32
  el_wflags :: u32

record events =
  ev_pending :: "nat \<Rightarrow> u32"
  ev_listener :: "nat \<Rightarrow> listener"
  ev_chain :: "nat \<Rightarrow> nat list"

definition iohdlc_evt_init :: "nat \<Rightarrow> events \<Rightarrow> events" where
  "iohdlc_evt_init src ev = ev\<lparr>ev_chain := (ev_chain ev)(src := [])\<rparr>"

definition iohdlc_evt_register :: "nat \<Rightarrow> nat \<Rightarrow> nat \<Rightarrow> u32 \<Rightarrow> u32 \<Rightarrow> events \<Rightarrow> events" where
  "iohdlc_evt_register src l t emask wflags ev =
     ev\<lparr>ev_listener := (ev_listener ev)(l := \<lparr>el_thread = t, el_events = emask, el_flags = 0, el_wflags = wflags\<rparr>),
        ev_chain := (ev_chain ev)(src := l # ev_chain ev src)\<rparr>"

text \<open>The search in the chain stops at the first match.\<close>

definition iohdlc_evt_unregister :: "nat \<Rightarrow> nat \<Rightarrow> events \<Rightarrow> events" where
  "iohdlc_evt_unregister src l ev = ev\<lparr>ev_chain := (ev_chain ev)(src := remove1 l (ev_chain ev src))\<rparr>"

definition deliver_flags :: "u32 \<Rightarrow> nat \<Rightarrow> events \<Rightarrow> events" where
  "deliver_flags flags l ev = (let e = ev_listener ev l in
     ev\<lparr>ev_listener := (ev_listener ev)(l := e\<lparr>el_flags := el_flags e OR (flags AND el_wflags e)\<rparr>)\<rparr>)"

definition deliver_pending :: "nat \<Rightarrow> events \<Rightarrow> events" where
  "deliver_pending l ev = (let e = ev_listener ev l; t = el_thread e in
     if has (el_flags e) (el_wflags e)
     then ev\<lparr>ev_pending := (ev_pending ev)(t := ev_pending ev t OR el_events e)\<rparr> else ev)"

definition iohdlc_evt_broadcast_flags :: "nat \<Rightarrow> u32 \<Rightarrow> events \<Rightarrow> events" where
  "iohdlc_evt_broadcast_flags src flags ev =
     fold (\<lambda>l ev. deliver_pending l (deliver_flags flags l ev)) (ev_chain ev src) ev"

text \<open>A wait when it ends: with the events that are pending, or with 0 when its time is up.\<close>

definition evt_matched :: "nat \<Rightarrow> u32 \<Rightarrow> events \<Rightarrow> u32" where
  "evt_matched t emask ev = ev_pending ev t AND emask"

definition iohdlc_evt_wait_any_timeout :: "nat \<Rightarrow> u32 \<Rightarrow> events \<Rightarrow> u32 \<times> events" where
  "iohdlc_evt_wait_any_timeout t emask ev = (let matched = evt_matched t emask ev in
     (matched, ev\<lparr>ev_pending := (ev_pending ev)(t := ev_pending ev t AND NOT matched)\<rparr>))"

definition iohdlc_evt_signal :: "nat \<Rightarrow> u32 \<Rightarrow> events \<Rightarrow> events" where
  "iohdlc_evt_signal t emask ev = ev\<lparr>ev_pending := (ev_pending ev)(t := ev_pending ev t OR emask)\<rparr>"

definition evt_get_and_clear_flags :: "nat \<Rightarrow> events \<Rightarrow> u32 \<times> events" where
  "evt_get_and_clear_flags l ev = (let e = ev_listener ev l in
     (el_flags e, ev\<lparr>ev_listener := (ev_listener ev)(l := e\<lparr>el_flags := 0\<rparr>)\<rparr>))"

section \<open>Application listeners\<close>

record app_listener =
  al_source :: "nat option"
  al_listener :: nat
  al_mask :: u32

definition ioHdlcAppListenerRegister ::
    "nat option \<Rightarrow> nat option \<Rightarrow> nat \<Rightarrow> u32 \<Rightarrow> u32 \<Rightarrow> events \<Rightarrow> errno + app_listener \<times> events" where
  "ioHdlcAppListenerRegister station listener t event_mask wanted_flags ev =
     (case (station, listener) of
        (Some src, Some l) \<Rightarrow>
          (if app_listener_args_ok event_mask wanted_flags
           then Inr (\<lparr>al_source = Some src, al_listener = l, al_mask = event_mask\<rparr>,
             iohdlc_evt_register src l t event_mask wanted_flags ev)
           else Inl EINVAL)
      | _ \<Rightarrow> Inl EINVAL)"

text \<open>A wait that no other thread runs into; \<open>None\<close> is a failed assertion.\<close>

definition ioHdlcAppListenerWait :: "nat \<Rightarrow> app_listener \<Rightarrow> events \<Rightarrow> (u32 \<times> events) option" where
  "ioHdlcAppListenerWait t a ev =
     (if al_source a = None then None
      else Some (let (flags, ev) = evt_get_and_clear_flags (al_listener a) ev in
        if flags \<noteq> 0 then (flags, snd (iohdlc_evt_wait_any_timeout t (al_mask a) ev))
        else (let (matched, ev) = iohdlc_evt_wait_any_timeout t (al_mask a) ev in
              if matched = 0 then (0, ev) else evt_get_and_clear_flags (al_listener a) ev)))"

definition ioHdlcAppListenerUnregister :: "nat \<Rightarrow> app_listener \<Rightarrow> events \<Rightarrow> (app_listener \<times> events) option" where
  "ioHdlcAppListenerUnregister t a ev =
     (case al_source a of
        None \<Rightarrow> None
      | Some src \<Rightarrow> Some (a\<lparr>al_source := None, al_mask := 0\<rparr>,
          snd (iohdlc_evt_wait_any_timeout t (al_mask a) (iohdlc_evt_unregister src (al_listener a) ev))))"

section \<open>Threads\<close>

text \<open>
  Where a thread is in a call of \<open>ioHdlcAppListenerWait\<close>: outside, with flags to return and the
  event bit to clear, blocked, or past the block. A broadcast in progress: its flags, the listeners
  left, and whether the lock of the first of them is taken.
\<close>

datatype wait_pc = Running | Draining nat u32 | Waiting nat | Woken nat

record ev_sys =
  es_ev :: events
  es_bcast :: "nat \<Rightarrow> (u32 \<times> nat list \<times> bool) option"
  es_pc :: "nat \<Rightarrow> wait_pc"
  es_sent :: "nat \<Rightarrow> u32"
  es_got :: "nat \<Rightarrow> u32"

datatype ev_action =
    Broadcast nat u32
  | BcastFlags nat
  | BcastPending nat
  | BcastEnd nat
  | ListenerRegister nat nat nat u32 u32
  | ListenerUnregister nat nat
  | ThreadSignal nat u32
  | OtherWait nat u32
  | WaitBegin nat nat
  | WaitDrain nat
  | WaitWake nat
  | WaitTimeout nat
  | WaitTake nat nat

abbreviation es_listener :: "ev_sys \<Rightarrow> nat \<Rightarrow> listener" where
  "es_listener y l \<equiv> ev_listener (es_ev y) l"

abbreviation es_chain :: "ev_sys \<Rightarrow> nat \<Rightarrow> nat list" where
  "es_chain y src \<equiv> ev_chain (es_ev y) src"

definition el_locked :: "ev_sys \<Rightarrow> nat \<Rightarrow> nat \<Rightarrow> bool" where
  "el_locked y src l = (case es_bcast y src of Some (fl, x # xs, True) \<Rightarrow> x = l | _ \<Rightarrow> False)"

fun ev_enabled :: "ev_action \<Rightarrow> ev_sys \<Rightarrow> bool" where
  "ev_enabled (Broadcast src fl) y = (es_bcast y src = None)"
| "ev_enabled (BcastFlags src) y = (case es_bcast y src of Some (fl, x # xs, False) \<Rightarrow> True | _ \<Rightarrow> False)"
| "ev_enabled (BcastPending src) y = (case es_bcast y src of Some (fl, x # xs, True) \<Rightarrow> True | _ \<Rightarrow> False)"
| "ev_enabled (BcastEnd src) y = (case es_bcast y src of Some (fl, [], b) \<Rightarrow> True | _ \<Rightarrow> False)"
| "ev_enabled (ListenerRegister src l t emask w) y =
     (es_bcast y src = None \<and> es_pc y t = Running \<and> emask \<noteq> 0
      \<and> l \<notin> set (es_chain y 0) \<and> l \<notin> set (es_chain y 1) \<and> src < 2)"
| "ev_enabled (ListenerUnregister src l) y =
     (es_bcast y src = None \<and> l \<in> set (es_chain y src) \<and> es_pc y (el_thread (es_listener y l)) = Running)"
| "ev_enabled (ThreadSignal t emask) y = (es_pc y t = Running)"
| "ev_enabled (OtherWait t emask) y = (es_pc y t = Running)"
| "ev_enabled (WaitBegin src l) y =
     (l \<in> set (es_chain y src) \<and> es_pc y (el_thread (es_listener y l)) = Running \<and> \<not> el_locked y src l)"
| "ev_enabled (WaitDrain t) y = (case es_pc y t of Draining l f \<Rightarrow> True | _ \<Rightarrow> False)"
| "ev_enabled (WaitWake t) y = (case es_pc y t of
     Waiting l \<Rightarrow> evt_matched t (el_events (es_listener y l)) (es_ev y) \<noteq> 0 | _ \<Rightarrow> False)"
| "ev_enabled (WaitTimeout t) y = (case es_pc y t of Waiting l \<Rightarrow> True | _ \<Rightarrow> False)"
| "ev_enabled (WaitTake src t) y = (case es_pc y t of
     Woken l \<Rightarrow> l \<in> set (es_chain y src) \<and> \<not> el_locked y src l | _ \<Rightarrow> False)"

fun ev_perform :: "ev_action \<Rightarrow> ev_sys \<Rightarrow> ev_sys" where
  "ev_perform (Broadcast src fl) y = y\<lparr>es_bcast := (es_bcast y)(src := Some (fl, es_chain y src, False))\<rparr>"
| "ev_perform (BcastFlags src) y = (case es_bcast y src of
     Some (fl, x # xs, b) \<Rightarrow> y\<lparr>es_ev := deliver_flags fl x (es_ev y),
       es_bcast := (es_bcast y)(src := Some (fl, x # xs, True)),
       es_sent := (es_sent y)(x := es_sent y x OR (fl AND el_wflags (es_listener y x)))\<rparr>
   | _ \<Rightarrow> y)"
| "ev_perform (BcastPending src) y = (case es_bcast y src of
     Some (fl, x # xs, b) \<Rightarrow> y\<lparr>es_ev := deliver_pending x (es_ev y),
       es_bcast := (es_bcast y)(src := Some (fl, xs, False))\<rparr>
   | _ \<Rightarrow> y)"
| "ev_perform (BcastEnd src) y = y\<lparr>es_bcast := (es_bcast y)(src := None)\<rparr>"
| "ev_perform (ListenerRegister src l t emask w) y =
     y\<lparr>es_ev := iohdlc_evt_register src l t emask w (es_ev y),
       es_sent := (es_sent y)(l := 0), es_got := (es_got y)(l := 0)\<rparr>"
| "ev_perform (ListenerUnregister src l) y = y\<lparr>es_ev := iohdlc_evt_unregister src l (es_ev y)\<rparr>"
| "ev_perform (ThreadSignal t emask) y = y\<lparr>es_ev := iohdlc_evt_signal t emask (es_ev y)\<rparr>"
| "ev_perform (OtherWait t emask) y = y\<lparr>es_ev := snd (iohdlc_evt_wait_any_timeout t emask (es_ev y))\<rparr>"
| "ev_perform (WaitBegin src l) y = (let (f, ev) = evt_get_and_clear_flags l (es_ev y); t = el_thread (es_listener y l) in
     y\<lparr>es_ev := ev, es_pc := (es_pc y)(t := if f \<noteq> 0 then Draining l f else Waiting l)\<rparr>)"
| "ev_perform (WaitDrain t) y = (case es_pc y t of
     Draining l f \<Rightarrow> y\<lparr>es_ev := snd (iohdlc_evt_wait_any_timeout t (el_events (es_listener y l)) (es_ev y)),
       es_pc := (es_pc y)(t := Running), es_got := (es_got y)(l := es_got y l OR f)\<rparr>
   | _ \<Rightarrow> y)"
| "ev_perform (WaitWake t) y = (case es_pc y t of
     Waiting l \<Rightarrow> y\<lparr>es_ev := snd (iohdlc_evt_wait_any_timeout t (el_events (es_listener y l)) (es_ev y)),
       es_pc := (es_pc y)(t := Woken l)\<rparr>
   | _ \<Rightarrow> y)"
| "ev_perform (WaitTimeout t) y = y\<lparr>es_pc := (es_pc y)(t := Running)\<rparr>"
| "ev_perform (WaitTake src t) y = (case es_pc y t of
     Woken l \<Rightarrow> (let (f, ev) = evt_get_and_clear_flags l (es_ev y) in
       y\<lparr>es_ev := ev, es_pc := (es_pc y)(t := Running), es_got := (es_got y)(l := es_got y l OR f)\<rparr>)
   | _ \<Rightarrow> y)"

definition ev_start :: ev_sys where
  "ev_start = \<lparr>es_ev = iohdlc_evt_init 0 (iohdlc_evt_init 1
       \<lparr>ev_pending = \<lambda>_. 0, ev_listener = \<lambda>_. \<lparr>el_thread = 0, el_events = 0, el_flags = 0, el_wflags = 0\<rparr>,
         ev_chain = \<lambda>_. []\<rparr>),
     es_bcast = \<lambda>_. None, es_pc = \<lambda>_. Running, es_sent = \<lambda>_. 0, es_got = \<lambda>_. 0\<rparr>"

inductive ev_reach :: "ev_sys \<Rightarrow> bool" where
  start: "ev_reach ev_start"
| step: "ev_reach y \<Longrightarrow> ev_enabled a y \<Longrightarrow> ev_reach (ev_perform a y)"

fun ev_run :: "ev_action list \<Rightarrow> ev_sys \<Rightarrow> ev_sys option" where
  "ev_run [] y = Some y"
| "ev_run (a # as) y = (if ev_enabled a y then ev_run as (ev_perform a y) else None)"

lemma ev_run_reach: "ev_reach y \<Longrightarrow> ev_run as y = Some z \<Longrightarrow> ev_reach z"
  by (induction as arbitrary: y) (auto intro: ev_reach.step split: if_splits)

section \<open>No notification is lost\<close>

text \<open>The flags a call is about to return.\<close>

definition es_held :: "ev_sys \<Rightarrow> nat \<Rightarrow> u32" where
  "es_held y l = (case es_pc y (el_thread (es_listener y l)) of Draining x f \<Rightarrow> (if x = l then f else 0) | _ \<Rightarrow> 0)"

definition listener_ok :: "ev_sys \<Rightarrow> nat \<Rightarrow> nat \<Rightarrow> bool" where
  "listener_ok y src l \<longleftrightarrow> (let e = es_listener y l in
     el_events e \<noteq> 0 \<and> el_flags e AND el_wflags e = el_flags e
     \<and> es_sent y l = es_got y l OR el_flags e OR es_held y l
     \<and> (es_pc y (el_thread e) = Waiting l \<and> el_flags e \<noteq> 0
          \<longrightarrow> evt_matched (el_thread e) (el_events e) (es_ev y) \<noteq> 0 \<or> el_locked y src l))"

definition pc_of :: "wait_pc \<Rightarrow> nat option" where
  "pc_of pc = (case pc of Running \<Rightarrow> None | Draining l f \<Rightarrow> Some l | Waiting l \<Rightarrow> Some l | Woken l \<Rightarrow> Some l)"

definition chains_ok :: "ev_sys \<Rightarrow> bool" where
  "chains_ok y \<longleftrightarrow>
     (\<forall>src l. l \<in> set (es_chain y src) \<longrightarrow> src < 2)
     \<and> set (es_chain y 0) \<inter> set (es_chain y 1) = {} \<and> (\<forall>src. distinct (es_chain y src))
     \<and> (\<forall>src fl ls b. es_bcast y src = Some (fl, ls, b) \<longrightarrow> set ls \<subseteq> set (es_chain y src) \<and> distinct ls)
     \<and> (\<forall>t l. pc_of (es_pc y t) = Some l \<longrightarrow> el_thread (es_listener y l) = t \<and> (\<exists>src. l \<in> set (es_chain y src)))"

definition ev_inv :: "ev_sys \<Rightarrow> bool" where
  "ev_inv y \<longleftrightarrow> chains_ok y \<and> (\<forall>src l. l \<in> set (es_chain y src) \<longrightarrow> listener_ok y src l)"

lemma pc_of_simps [simp]: "pc_of Running = None" "pc_of (Draining l f) = Some l" "pc_of (Waiting l) = Some l"
  "pc_of (Woken l) = Some l"
  by (simp_all add: pc_of_def)

lemma evt_parts [simp]:
  "ev_chain (deliver_flags fl x ev) = ev_chain ev" "ev_pending (deliver_flags fl x ev) = ev_pending ev"
  "ev_chain (deliver_pending x ev) = ev_chain ev" "ev_listener (deliver_pending x ev) = ev_listener ev"
  "ev_chain (iohdlc_evt_signal t m ev) = ev_chain ev" "ev_listener (iohdlc_evt_signal t m ev) = ev_listener ev"
  "ev_chain (snd (iohdlc_evt_wait_any_timeout t m ev)) = ev_chain ev"
  "ev_listener (snd (iohdlc_evt_wait_any_timeout t m ev)) = ev_listener ev"
  "ev_chain (snd (evt_get_and_clear_flags l ev)) = ev_chain ev"
  "ev_pending (snd (evt_get_and_clear_flags l ev)) = ev_pending ev"
  "fst (evt_get_and_clear_flags l ev) = el_flags (ev_listener ev l)"
  "ev_listener (iohdlc_evt_unregister src l ev) = ev_listener ev" "ev_pending (iohdlc_evt_unregister src l ev) = ev_pending ev"
  "ev_pending (iohdlc_evt_register src l t m w ev) = ev_pending ev"
  by (simp_all add: deliver_flags_def deliver_pending_def iohdlc_evt_signal_def iohdlc_evt_wait_any_timeout_def
    evt_get_and_clear_flags_def iohdlc_evt_unregister_def iohdlc_evt_register_def Let_def)

lemma ev_inv_start: "ev_inv ev_start"
  by (simp add: ev_inv_def chains_ok_def ev_start_def iohdlc_evt_init_def)

lemma chains_pc: "chains_ok y \<Longrightarrow> pc_of (es_pc y t) = Some l \<Longrightarrow> el_thread (es_listener y l) = t"
  by (simp add: chains_ok_def)

lemma chains_one: "chains_ok y \<Longrightarrow> l \<in> set (es_chain y a) \<Longrightarrow> l \<in> set (es_chain y b) \<Longrightarrow> a = b"
proof -
  assume c: "chains_ok y" and l: "l \<in> set (es_chain y a)" "l \<in> set (es_chain y b)"
  then have "a < 2" "b < 2" "set (es_chain y 0) \<inter> set (es_chain y 1) = {}" by (auto simp: chains_ok_def)
  then show "a = b" using l by (auto dest!: less_2_cases)
qed

text \<open>What a step changes of the chains, of the broadcasts in progress and of the calls.\<close>

definition el_static :: "listener \<Rightarrow> nat \<times> u32 \<times> u32" where
  "el_static e = (el_thread e, el_events e, el_wflags e)"

lemma static_parts [simp]:
  "el_static (ev_listener (deliver_flags fl x ev) l) = el_static (ev_listener ev l)"
  "el_static (ev_listener (snd (evt_get_and_clear_flags x ev)) l) = el_static (ev_listener ev l)"
  by (simp_all add: el_static_def deliver_flags_def evt_get_and_clear_flags_def Let_def)

lemma static_perform:
  assumes "\<forall>s l t m w. a \<noteq> ListenerRegister s l t m w"
  shows "el_static (es_listener (ev_perform a y) l) = el_static (es_listener y l)"
  using assms
  by (cases a) (auto simp: split_beta Let_def split: option.split list.split wait_pc.split)

lemma chain_perform:
  assumes "\<forall>s l t m w. a \<noteq> ListenerRegister s l t m w" "\<forall>s l. a \<noteq> ListenerUnregister s l"
  shows "es_chain (ev_perform a y) = es_chain y"
  using assms
  by (cases a) (auto simp: split_beta Let_def split: option.split list.split wait_pc.split)

lemma same_chains:
  assumes "\<forall>s l t m w. a \<noteq> ListenerRegister s l t m w" "\<forall>s l. a \<noteq> ListenerUnregister s l"
  shows "es_chain (ev_perform a y) = es_chain y"
    "el_thread (es_listener (ev_perform a y) l) = el_thread (es_listener y l)"
    "el_events (es_listener (ev_perform a y) l) = el_events (es_listener y l)"
    "el_wflags (es_listener (ev_perform a y) l) = el_wflags (es_listener y l)"
  using chain_perform [OF assms] static_perform [OF assms(1), of y l] by (simp_all add: el_static_def)

lemma bcast_perform:
  assumes "es_bcast (ev_perform a y) src = Some (fl, ls, b)"
  shows "(\<exists>x b'. es_bcast y src = Some (fl, ls, b') \<or> es_bcast y src = Some (fl, x # ls, b'))
    \<or> (a = Broadcast src fl \<and> ls = es_chain y src)"
  using assms
  by (cases a) (auto simp: split_beta Let_def split: if_splits option.splits list.splits wait_pc.splits)

lemma pc_perform:
  assumes "pc_of (es_pc (ev_perform a y) t) = Some l"
  shows "pc_of (es_pc y t) = Some l \<or> (\<exists>src. a = WaitBegin src l \<and> t = el_thread (es_listener y l))"
  using assms
  by (cases a) (auto simp: split_beta Let_def split: if_splits option.splits list.splits wait_pc.splits)

definition chain_sets :: "(nat \<Rightarrow> nat list) \<Rightarrow> bool" where
  "chain_sets ch \<longleftrightarrow> (\<forall>src l. l \<in> set (ch src) \<longrightarrow> src < 2) \<and> set (ch 0) \<inter> set (ch 1) = {} \<and> (\<forall>src. distinct (ch src))"

lemma chains_ok_iff:
  "chains_ok y \<longleftrightarrow> chain_sets (es_chain y)
     \<and> (\<forall>src fl ls b. es_bcast y src = Some (fl, ls, b) \<longrightarrow> set ls \<subseteq> set (es_chain y src) \<and> distinct ls)
     \<and> (\<forall>t l. pc_of (es_pc y t) = Some l \<longrightarrow> el_thread (es_listener y l) = t \<and> (\<exists>src. l \<in> set (es_chain y src)))"
  by (auto simp: chains_ok_def chain_sets_def)

lemma chains_perform_same:
  assumes c: "chains_ok y" and e: "ev_enabled a y"
    and n: "\<forall>s l t m w. a \<noteq> ListenerRegister s l t m w" "\<forall>s l. a \<noteq> ListenerUnregister s l"
  shows "chains_ok (ev_perform a y)"
proof -
  note s = same_chains [OF n, of y]
  note c' = c [unfolded chains_ok_iff]
  have b: "set ls \<subseteq> set (es_chain y src) \<and> distinct ls"
    if "es_bcast (ev_perform a y) src = Some (fl, ls, b)" for src fl ls b
    using bcast_perform [OF that] c' by (fastforce simp: chain_sets_def)
  have p: "el_thread (es_listener y l) = t \<and> (\<exists>src. l \<in> set (es_chain y src))"
    if "pc_of (es_pc (ev_perform a y) t) = Some l" for t l
    using pc_perform [OF that] c' e by auto
  show ?thesis unfolding chains_ok_iff s using c' b p by blast
qed

lemma chains_register:
  assumes c: "chains_ok y" and e: "ev_enabled (ListenerRegister src l t m w) y"
  shows "chains_ok (ev_perform (ListenerRegister src l t m w) y)"
proof -
  note c' = c [unfolded chains_ok_iff]
  have f: "l \<notin> set (es_chain y s)" for s
    using e c' unfolding chain_sets_def by (cases "s < 2") (auto dest: less_2_cases)
  have ch: "es_chain (ev_perform (ListenerRegister src l t m w) y) = (es_chain y)(src := l # es_chain y src)"
    by (simp add: iohdlc_evt_register_def fun_upd_def)
  have "chain_sets ((es_chain y)(src := l # es_chain y src))"
    using c' f e by (auto simp: chain_sets_def dest: less_2_cases)
  moreover have "set ls \<subseteq> set (((es_chain y)(src := l # es_chain y src)) s) \<and> distinct ls"
    if "es_bcast y s = Some (fl, ls, b)" for s fl ls b
    using c' that by auto
  moreover have "el_thread (es_listener (ev_perform (ListenerRegister src l t m w) y) x) = t'
      \<and> (\<exists>s. x \<in> set (((es_chain y)(src := l # es_chain y src)) s))" if "pc_of (es_pc y t') = Some x" for t' x
  proof -
    from c' that obtain s where s: "el_thread (es_listener y x) = t'" "x \<in> set (es_chain y s)" by blast
    then have "x \<noteq> l" using f by auto
    then show ?thesis using s by (auto simp: iohdlc_evt_register_def intro!: exI [of _ s])
  qed
  ultimately show ?thesis unfolding chains_ok_iff ch by simp
qed

lemma chains_unregister:
  assumes c: "chains_ok y" and e: "ev_enabled (ListenerUnregister src l) y"
  shows "chains_ok (ev_perform (ListenerUnregister src l) y)"
proof -
  note c' = c [unfolded chains_ok_iff]
  let ?c = "(es_chain y)(src := remove1 l (es_chain y src))"
  have ch: "es_chain (ev_perform (ListenerUnregister src l) y) = ?c"
    by (simp add: iohdlc_evt_unregister_def fun_upd_def)
  have m: "set (remove1 l (es_chain y src)) = set (es_chain y src) - {l}"
    using c' by (simp add: chain_sets_def)
  have "chain_sets ?c" using c' m unfolding chain_sets_def
    by (auto simp: distinct_remove1 split: if_splits)
  moreover have "set ls \<subseteq> set (?c s) \<and> distinct ls" if "es_bcast y s = Some (fl, ls, b)" for s fl ls b
    using c' that e by auto
  moreover have "el_thread (es_listener y x) = t \<and> (\<exists>s. x \<in> set (?c s))" if "pc_of (es_pc y t) = Some x" for t x
  proof -
    from c' that obtain s where s: "el_thread (es_listener y x) = t" "x \<in> set (es_chain y s)" by blast
    then have "x \<noteq> l" using e that by auto
    then show ?thesis using s m by (intro conjI exI [of _ s]) auto
  qed
  ultimately show ?thesis unfolding chains_ok_iff ch by simp
qed

lemma chains_perform: "chains_ok y \<Longrightarrow> ev_enabled a y \<Longrightarrow> chains_ok (ev_perform a y)"
  using chains_perform_same chains_register chains_unregister by (cases a) blast+

section \<open>The listeners\<close>

lemma sub_or: "(a AND w = a \<Longrightarrow> (a OR (fl AND w)) AND w = a OR (fl AND w))" for a w fl :: u32
  by (simp add: bit.conj_disj_distrib2 and.assoc)

lemma matched_or: "m \<noteq> 0 \<Longrightarrow> (p OR m) AND m \<noteq> 0" for p m :: u32
  using and_or_self [of p m] by simp

lemma or_and_nz: "p AND m \<noteq> 0 \<Longrightarrow> (p OR k) AND m \<noteq> 0" for p m k :: u32
  by (simp add: bit.conj_disj_distrib2 or_eq_0_iff)

text \<open>A listener stays right when its flags, its call, its thread's events and the locks stay.\<close>

lemma listener_ok_cong:
  assumes "es_listener y' l = es_listener y l" "es_pc y' (el_thread (es_listener y l)) = es_pc y (el_thread (es_listener y l))"
    "es_sent y' l = es_sent y l" "es_got y' l = es_got y l"
    "evt_matched (el_thread (es_listener y l)) (el_events (es_listener y l)) (es_ev y) \<noteq> 0 \<Longrightarrow>
       evt_matched (el_thread (es_listener y l)) (el_events (es_listener y l)) (es_ev y') \<noteq> 0"
    "el_locked y src l \<Longrightarrow> el_locked y' src l"
    "listener_ok y src l"
  shows "listener_ok y' src l"
  using assms by (auto simp: listener_ok_def Let_def es_held_def)

lemma locked_iff: "el_locked y src l \<longleftrightarrow> (\<exists>fl xs. es_bcast y src = Some (fl, l # xs, True))"
  by (auto simp: el_locked_def split: option.split list.split bool.split)

lemma ok_broadcast:
  assumes "ev_enabled (Broadcast s fl) y" "listener_ok y src l"
  shows "listener_ok (ev_perform (Broadcast s fl) y) src l"
  using assms(1) by (intro listener_ok_cong [OF _ _ _ _ _ _ assms(2)]) (auto simp: el_locked_def)

lemma enabled_bcast:
  "ev_enabled (BcastFlags s) y \<longleftrightarrow> (\<exists>fl x xs. es_bcast y s = Some (fl, x # xs, False))"
  "ev_enabled (BcastPending s) y \<longleftrightarrow> (\<exists>fl x xs. es_bcast y s = Some (fl, x # xs, True))"
  by (auto split: option.split list.split bool.split)

lemma ok_flags:
  assumes c: "chains_ok y" and e: "ev_enabled (BcastFlags s) y" and l: "l \<in> set (es_chain y src)" "listener_ok y src l"
  shows "listener_ok (ev_perform (BcastFlags s) y) src l"
proof -
  from e obtain fl x xs where b: "es_bcast y s = Some (fl, x # xs, False)"
    unfolding enabled_bcast by blast
  show ?thesis
  proof (cases "x = l")
    case True
    have "set (x # xs) \<subseteq> set (es_chain y s)" using c b unfolding chains_ok_def by blast
    then have "x \<in> set (es_chain y s)" by simp
    with True l(1) c have "s = src" by (metis chains_one)
    then have k: "el_locked (ev_perform (BcastFlags s) y) src l" using b True by (simp add: el_locked_def)
    let ?e = "es_listener y l" let ?h = "es_held y l"
    have h: "es_held (ev_perform (BcastFlags s) y) l = ?h" using b True by (simp add: es_held_def deliver_flags_def Let_def)
    let ?z = "ev_perform (BcastFlags s) y" and ?d = "fl AND el_wflags ?e"
    have z: "es_listener ?z l = ?e\<lparr>el_flags := el_flags ?e OR ?d\<rparr>" "es_sent ?z l = es_sent y l OR ?d" "es_got ?z l = es_got y l"
      using b True by (simp_all add: deliver_flags_def Let_def)
    have o: "(g OR f OR h) OR d = g OR (f OR d) OR h" for g f h d :: u32
      by (rule bit_word_eqI) (auto simp: bit_simps)
    have a: "(el_flags ?e OR ?d) AND el_wflags ?e = el_flags ?e OR ?d"
      using l(2) by (intro sub_or) (simp add: listener_ok_def Let_def)
    have "el_events ?e \<noteq> 0" "es_sent y l OR ?d = es_got y l OR (el_flags ?e OR ?d) OR ?h"
      using l(2) unfolding o [symmetric] by (simp_all add: listener_ok_def Let_def)
    then show ?thesis using k a unfolding listener_ok_def Let_def z h by simp
  next
    case False
    then show ?thesis using b
      by (intro listener_ok_cong [OF _ _ _ _ _ _ l(2)])
        (auto simp: deliver_flags_def evt_matched_def el_locked_def Let_def)
  qed
qed

lemma ok_pending:
  assumes c: "chains_ok y" and e: "ev_enabled (BcastPending s) y" and l: "l \<in> set (es_chain y src)" "listener_ok y src l"
  shows "listener_ok (ev_perform (BcastPending s) y) src l"
proof -
  from e obtain fl x xs where b: "es_bcast y s = Some (fl, x # xs, True)"
    unfolding enabled_bcast by blast
  show ?thesis
  proof (cases "x = l")
    case True
    show ?thesis using b True l(2)
      by (auto simp: listener_ok_def Let_def deliver_pending_def es_held_def evt_matched_def matched_or has_def
        split: wait_pc.split)
  next
    case False
    then show ?thesis using b
      by (intro listener_ok_cong [OF _ _ _ _ _ _ l(2)])
        (auto simp: deliver_pending_def evt_matched_def el_locked_def Let_def or_and_nz)
  qed
qed

lemma ok_end:
  assumes "ev_enabled (BcastEnd s) y" "listener_ok y src l"
  shows "listener_ok (ev_perform (BcastEnd s) y) src l"
  using assms(1) by (intro listener_ok_cong [OF _ _ _ _ _ _ assms(2)])
    (auto simp: el_locked_def split: option.splits list.splits)

lemma ok_register:
  assumes e: "ev_enabled (ListenerRegister s x t m w) y" and c: "chains_ok y"
    and l: "l \<in> set (es_chain y src) \<Longrightarrow> listener_ok y src l"
    and i: "l \<in> set (es_chain (ev_perform (ListenerRegister s x t m w) y) src)"
  shows "listener_ok (ev_perform (ListenerRegister s x t m w) y) src l"
proof (cases "l = x")
  case True
  then show ?thesis using e by (simp add: listener_ok_def iohdlc_evt_register_def es_held_def)
next
  case False
  then have "l \<in> set (es_chain y src)" using i by (auto simp: iohdlc_evt_register_def split: if_splits)
  from l [OF this] False show ?thesis
    by (elim listener_ok_cong [rotated -1]) (simp_all add: iohdlc_evt_register_def evt_matched_def el_locked_def)
qed

lemma ok_unregister:
  assumes "listener_ok y src l"
  shows "listener_ok (ev_perform (ListenerUnregister s x) y) src l"
  by (rule listener_ok_cong [OF _ _ _ _ _ _ assms]) (simp_all add: evt_matched_def el_locked_def)

lemma ok_signal:
  assumes "listener_ok y src l"
  shows "listener_ok (ev_perform (ThreadSignal t m) y) src l"
  by (rule listener_ok_cong [OF _ _ _ _ _ _ assms])
    (auto simp: evt_matched_def el_locked_def iohdlc_evt_signal_def dest: or_and_nz)

text \<open>The steps of a thread inside a wait.\<close>

lemma wait_other: "t \<noteq> t' \<Longrightarrow> evt_matched t m (snd (iohdlc_evt_wait_any_timeout t' k ev)) = evt_matched t m ev"
  by (simp add: evt_matched_def iohdlc_evt_wait_any_timeout_def Let_def)

lemma ok_other_wait:
  assumes "ev_enabled (OtherWait t m) y" "listener_ok y src l"
  shows "listener_ok (ev_perform (OtherWait t m) y) src l"
proof (cases "t = el_thread (es_listener y l)")
  case True
  then show ?thesis using assms by (simp add: listener_ok_def Let_def es_held_def)
next
  case False
  then show ?thesis
    by (intro listener_ok_cong [OF _ _ _ _ _ _ assms(2)]) (simp_all add: wait_other el_locked_def)
qed

lemma ok_begin:
  assumes e: "ev_enabled (WaitBegin s x) y" and l: "listener_ok y src l"
  shows "listener_ok (ev_perform (WaitBegin s x) y) src l"
proof (cases "el_thread (es_listener y l) = el_thread (es_listener y x)")
  case True
  then show ?thesis using e l
    by (auto simp: listener_ok_def Let_def es_held_def split_beta evt_get_and_clear_flags_def)
next
  case False
  then show ?thesis
    by (intro listener_ok_cong [OF _ _ _ _ _ _ l])
      (auto simp: evt_matched_def el_locked_def split_beta Let_def evt_get_and_clear_flags_def)
qed

lemma ok_drain:
  assumes e: "ev_enabled (WaitDrain t) y" and c: "chains_ok y" and l: "listener_ok y src l"
  shows "listener_ok (ev_perform (WaitDrain t) y) src l"
proof -
  from e obtain x f where p: "es_pc y t = Draining x f" by (auto split: wait_pc.splits)
  have x: "el_thread (es_listener y x) = t" using chains_pc [OF c, of t x] p by simp
  show ?thesis
  proof (cases "el_thread (es_listener y l) = t")
    case True
    then show ?thesis using p x l
      by (auto simp: listener_ok_def Let_def es_held_def or.assoc or.commute or.left_commute)
  next
    case False
    then have "l \<noteq> x" using x by auto
    then show ?thesis using False p
      by (intro listener_ok_cong [OF _ _ _ _ _ _ l]) (simp_all add: wait_other el_locked_def)
  qed
qed

lemma ok_wake:
  assumes e: "ev_enabled (WaitWake t) y" and l: "listener_ok y src l"
  shows "listener_ok (ev_perform (WaitWake t) y) src l"
proof -
  from e obtain x where p: "es_pc y t = Waiting x" by (auto split: wait_pc.splits)
  show ?thesis
  proof (cases "el_thread (es_listener y l) = t")
    case True
    then show ?thesis using p l by (auto simp: listener_ok_def Let_def es_held_def)
  next
    case False
    then show ?thesis using p
      by (intro listener_ok_cong [OF _ _ _ _ _ _ l]) (simp_all add: wait_other el_locked_def)
  qed
qed

lemma ok_timeout:
  assumes e: "ev_enabled (WaitTimeout t) y" and l: "listener_ok y src l"
  shows "listener_ok (ev_perform (WaitTimeout t) y) src l"
proof -
  from e obtain x where p: "es_pc y t = Waiting x" by (auto split: wait_pc.splits)
  then show ?thesis using l by (auto simp: listener_ok_def Let_def es_held_def el_locked_def)
qed

lemma ok_take:
  assumes e: "ev_enabled (WaitTake s t) y" and c: "chains_ok y" and l: "listener_ok y src l"
  shows "listener_ok (ev_perform (WaitTake s t) y) src l"
proof -
  from e obtain x where p: "es_pc y t = Woken x" by (auto split: wait_pc.splits)
  have x: "el_thread (es_listener y x) = t" using chains_pc [OF c, of t x] p by simp
  show ?thesis
  proof (cases "el_thread (es_listener y l) = t")
    case True
    then show ?thesis using p x l
      by (auto simp: listener_ok_def Let_def es_held_def split_beta evt_get_and_clear_flags_def
        or.assoc or.commute or.left_commute)
  next
    case False
    then have "l \<noteq> x" using x by auto
    then show ?thesis using False p
      by (intro listener_ok_cong [OF _ _ _ _ _ _ l])
        (simp_all add: evt_matched_def el_locked_def split_beta evt_get_and_clear_flags_def Let_def)
  qed
qed

lemma ev_inv_perform:
  assumes i: "ev_inv y" and e: "ev_enabled a y"
  shows "ev_inv (ev_perform a y)"
proof -
  have c: "chains_ok y" and ok: "l \<in> set (es_chain y src) \<Longrightarrow> listener_ok y src l" for src l
    using i by (auto simp: ev_inv_def)
  have "listener_ok (ev_perform a y) src l" if m: "l \<in> set (es_chain (ev_perform a y) src)" for src l
  proof (cases "\<exists>s x t m w. a = ListenerRegister s x t m w")
    case True
    then obtain s x t k w where a: "a = ListenerRegister s x t k w" by blast
    show ?thesis unfolding a
      by (rule ok_register [OF e [unfolded a] c ok m [unfolded a]])
  next
    case False
    have l: "l \<in> set (es_chain y src)"
    proof (cases a)
      case (ListenerUnregister s x)
      then show ?thesis using m by (auto simp: iohdlc_evt_unregister_def split: if_splits dest: set_remove1_subset [THEN subsetD])
    qed (use m chain_perform [of a y] False in auto)
    note k = ok [OF l]
    show ?thesis
    proof (cases a)
      case (ListenerRegister s x t m w)
      then show ?thesis using False by simp
    qed (use e in \<open>simp_all only: ok_broadcast [OF _ k] ok_flags [OF c _ l k] ok_pending [OF c _ l k] ok_end [OF _ k]
        ok_unregister [OF k] ok_signal [OF k] ok_other_wait [OF _ k] ok_begin [OF _ k] ok_drain [OF _ c k]
        ok_wake [OF _ k] ok_timeout [OF _ k] ok_take [OF _ c k]\<close>)
  qed
  then show ?thesis using chains_perform [OF c e] by (simp add: ev_inv_def)
qed

lemma ev_reach_inv: "ev_reach y \<Longrightarrow> ev_inv y"
  by (induction rule: ev_reach.induct) (simp_all add: ev_inv_start ev_inv_perform)


text \<open>A listener of thread 5 that waits for flag 1 while another thread broadcasts flags 1 and 2.\<close>

definition ev_sample :: "ev_action list" where
  "ev_sample = [ListenerRegister 0 7 5 4 1, WaitBegin 0 7, Broadcast 0 3, BcastFlags 0]"


text \<open>
  A wait can return 0 before its time is up: a broadcast that arrives between the wait of the thread
  event and the reading of the flags leaves the event pending, and the next wait ends with it, and
  finds no flags.
\<close>

definition ev_stale :: "ev_action list" where
  "ev_stale = [ListenerRegister 0 7 5 4 1, WaitBegin 0 7, Broadcast 0 1, BcastFlags 0, BcastPending 0, BcastEnd 0,
     WaitWake 5, Broadcast 0 1, BcastFlags 0, BcastPending 0, BcastEnd 0, WaitTake 0 5,
     WaitBegin 0 7, WaitWake 5]"

theorem wait_ends_early:
  "\<exists>y. ev_run ev_stale ev_start = Some y \<and> es_pc y 5 = Woken 7 \<and> el_flags (es_listener y 7) = 0
     \<and> es_got y 7 = 1 \<and> ev_enabled (WaitTake 0 5) y"
  by (simp add: ev_stale_def ev_start_def iohdlc_evt_init_def iohdlc_evt_register_def deliver_pending_def
      evt_get_and_clear_flags_def el_locked_def deliver_flags_def iohdlc_evt_wait_any_timeout_def evt_matched_def Let_def has_def)

section \<open>Listeners between two threads\<close>

text \<open>A broadcast that no other thread runs into reaches every listener of the source once.\<close>

lemma fold_deliver:
  assumes "distinct ls"
  shows "ev_listener (fold (\<lambda>l ev. deliver_pending l (deliver_flags fl l ev)) ls ev) x =
    (if x \<in> set ls then (ev_listener ev x)\<lparr>el_flags := el_flags (ev_listener ev x) OR (fl AND el_wflags (ev_listener ev x))\<rparr>
     else ev_listener ev x)"
  using assms by (induction ls arbitrary: ev) (auto simp: deliver_flags_def Let_def)

lemma broadcast_listener:
  assumes "distinct (ev_chain ev src)"
  shows "ev_listener (iohdlc_evt_broadcast_flags src fl ev) x =
    (if x \<in> set (ev_chain ev src)
     then (ev_listener ev x)\<lparr>el_flags := el_flags (ev_listener ev x) OR (fl AND el_wflags (ev_listener ev x))\<rparr>
     else ev_listener ev x)"
  unfolding iohdlc_evt_broadcast_flags_def by (rule fold_deliver [OF assms])

lemma static_broadcast [simp]:
  "el_static (ev_listener (iohdlc_evt_broadcast_flags src fl ev) l) = el_static (ev_listener ev l)"
proof -
  have "el_static (ev_listener (fold (\<lambda>l ev. deliver_pending l (deliver_flags fl l ev)) ls ev) l) = el_static (ev_listener ev l)"
    for ls ev by (induction ls arbitrary: ev) simp_all
  then show ?thesis by (simp add: iohdlc_evt_broadcast_flags_def)
qed

lemma pending_deliver: "evt_matched t m ev \<noteq> 0 \<Longrightarrow> evt_matched t m (deliver_pending l (deliver_flags fl l ev)) \<noteq> 0"
  by (auto simp: deliver_pending_def evt_matched_def Let_def dest: or_and_nz)

lemma pending_broadcast: "evt_matched t m ev \<noteq> 0 \<Longrightarrow> evt_matched t m (iohdlc_evt_broadcast_flags src fl ev) \<noteq> 0"
proof -
  have "evt_matched t m ev \<noteq> 0 \<Longrightarrow> evt_matched t m (fold (\<lambda>l ev. deliver_pending l (deliver_flags fl l ev)) ls ev) \<noteq> 0"
    for ls ev by (induction ls arbitrary: ev) (simp_all add: pending_deliver)
  then show "evt_matched t m ev \<noteq> 0 \<Longrightarrow> ?thesis" by (simp add: iohdlc_evt_broadcast_flags_def)
qed

text \<open>A broadcast with a wanted flag leaves the thread of the listener awake.\<close>

lemma broadcast_wakes:
  assumes "l \<in> set (ev_chain ev src)" "el_static (ev_listener ev l) = (t, em, w)" "has (fl AND w) w" "em \<noteq> 0"
  shows "evt_matched t em (iohdlc_evt_broadcast_flags src fl ev) \<noteq> 0"
proof -
  let ?d = "\<lambda>l ev. deliver_pending l (deliver_flags fl l ev)"
  have "evt_matched t em (fold ?d ls ev) \<noteq> 0"
    if "l \<in> set ls" "el_static (ev_listener ev l) = (t, em, w)" for ls ev
    using that
  proof (induction ls arbitrary: ev)
    case (Cons x ls)
    show ?case
    proof (cases "l \<in> set ls")
      case True
      then show ?thesis using Cons by simp
    next
      case False
      then have x: "x = l" using Cons.prems(1) by simp
      have "evt_matched t em (?d l ev) \<noteq> 0"
        using Cons.prems(2) assms(3,4) matched_or [of em]
        by (simp add: el_static_def deliver_pending_def deliver_flags_def evt_matched_def Let_def has_or)
      moreover have "evt_matched t em (fold ?d ls ev') \<noteq> 0" if "evt_matched t em ev' \<noteq> 0" for ev'
        using that by (induction ls arbitrary: ev') (simp_all add: pending_deliver)
      ultimately show ?thesis by (simp add: x)
    qed
  qed simp
  from this [OF assms(1,2)] show ?thesis by (simp add: iohdlc_evt_broadcast_flags_def)
qed

text \<open>A registered application listener returns what is broadcast next, at once.\<close>

lemma app_wait_returns:
  assumes "ioHdlcAppListenerRegister (Some src) (Some l) t m w ev = Inr (a, ev')" "fl AND w \<noteq> 0"
    "distinct (ev_chain ev src)" "l \<notin> set (ev_chain ev src)"
  shows "\<exists>ev''. ioHdlcAppListenerWait t a (iohdlc_evt_broadcast_flags src fl ev') = Some (fl AND w, ev'')"
proof -
  have a: "a = \<lparr>al_source = Some src, al_listener = l, al_mask = m\<rparr>" "ev' = iohdlc_evt_register src l t m w ev"
    using assms(1) by (auto simp: ioHdlcAppListenerRegister_def split: if_splits)
  have d: "distinct (ev_chain ev' src)" "l \<in> set (ev_chain ev' src)"
    using assms(3,4) by (simp_all add: a(2) iohdlc_evt_register_def)
  have "ev_listener ev' l = \<lparr>el_thread = t, el_events = m, el_flags = 0, el_wflags = w\<rparr>"
    by (simp add: a(2) iohdlc_evt_register_def)
  then show ?thesis using broadcast_listener [OF d(1), of fl l] d(2) assms(2)
    by (simp add: ioHdlcAppListenerWait_def a(1) evt_get_and_clear_flags_def Let_def)
qed

section \<open>The flag word of the core\<close>

text \<open>
  What the core relies on: flags posted are kept, coalesced and restricted to the wanted ones, until
  they are taken together. Both the flag word of the station model and a registered listener of the
  event layer are such a box.
\<close>

locale flag_box =
  fixes ok :: "'s \<Rightarrow> bool" and post :: "u32 \<Rightarrow> 's \<Rightarrow> 's" and take_all :: "'s \<Rightarrow> u32 \<times> 's"
    and content :: "'s \<Rightarrow> u32" and wanted :: u32
  assumes post_ok: "ok s \<Longrightarrow> ok (post fl s)"
    and post_content: "ok s \<Longrightarrow> content (post fl s) = content s OR (fl AND wanted)"
    and take_fst: "ok s \<Longrightarrow> fst (take_all s) = content s"
    and take_content: "ok s \<Longrightarrow> content (snd (take_all s)) = 0"
begin

lemma posts_content: "ok s \<Longrightarrow> content (fold post fls s) = content s OR (fold (OR) fls 0 AND wanted)"
proof (induction fls arbitrary: s)
  case (Cons fl fls)
  have f: "fold (OR) fls a = a OR fold (OR) fls 0" for a :: u32
  proof (induction fls arbitrary: a)
    case (Cons x fls)
    have "fold (OR) fls (x OR a) = (x OR a) OR fold (OR) fls 0" "fold (OR) fls x = x OR fold (OR) fls 0"
      by (rule Cons.IH)+
    then show ?case by (simp add: or.assoc or.left_commute)
  qed simp
  show ?case using Cons post_ok [OF Cons.prems] post_content [OF Cons.prems]
    by (simp add: f [of fl] bit.conj_disj_distrib2 or.assoc)
qed simp

lemma take_after_posts: "ok s \<Longrightarrow> fst (take_all (fold post fls s)) = content s OR (fold (OR) fls 0 AND wanted)"
proof -
  assume o: "ok s"
  then have "ok (fold post fls s)" by (induction fls arbitrary: s) (simp_all add: post_ok)
  then show ?thesis using posts_content [OF o] by (simp add: take_fst)
qed

end

definition cm_take :: "station \<Rightarrow> u32 \<times> station" where
  "cm_take s = (result iohdlc_evt_get_and_clear_flags s, exec iohdlc_evt_get_and_clear_flags s)"

interpretation cm_flags: flag_box "\<lambda>s. True" "\<lambda>fl. exec (ioHdlcBroadcastFlags fl)" cm_take s_cm_flags tx_flags_mask
  by unfold_locales (simp_all add: ioHdlcBroadcastFlags_def cm_take_def iohdlc_evt_get_and_clear_flags_def)

definition listens :: "nat \<Rightarrow> nat \<Rightarrow> u32 \<Rightarrow> events \<Rightarrow> bool" where
  "listens src l w ev \<longleftrightarrow> distinct (ev_chain ev src) \<and> l \<in> set (ev_chain ev src) \<and> el_wflags (ev_listener ev l) = w"

lemma chain_broadcast [simp]: "ev_chain (iohdlc_evt_broadcast_flags src fl ev) = ev_chain ev"
proof -
  have "ev_chain (fold (\<lambda>l ev. deliver_pending l (deliver_flags fl l ev)) ls ev) = ev_chain ev" for ls ev
    by (induction ls arbitrary: ev) simp_all
  then show ?thesis by (simp add: iohdlc_evt_broadcast_flags_def)
qed

interpretation evt_flags: flag_box "listens src l w" "iohdlc_evt_broadcast_flags src" "evt_get_and_clear_flags l"
    "\<lambda>ev. el_flags (ev_listener ev l)" w for src l w
  by unfold_locales (auto simp: listens_def broadcast_listener evt_get_and_clear_flags_def Let_def)

end
