(* ===== verification/Hdlc_Runner.thy ===== *)
theory Hdlc_Runner
  imports Hdlc_Events Hdlc_Driver
begin

text \<open>
  The runner of \<open>src/ioHdlc_runner.c\<close>, with the outer loops of the two threads it creates
  (\<open>ioHdlcTxEntry\<close> and \<open>ioHdlcRxEntry\<close> of \<open>src/ioHdlc_core.c\<close>), as a system of three threads:
  the caller of \<open>ioHdlcRunnerStart\<close> and \<open>ioHdlcRunnerStop\<close>, the transmit thread and the receive
  thread. The transmit thread waits on the listener \<open>cm_listener\<close> of the event layer. What the
  threads do for the protocol between two waits is left out: it is the subject of the other
  theories. Tear-down of a station (\<open>ioHdlcStationDeinit\<close>) is at the end.
\<close>

section \<open>State\<close>

record runner_ctx =
  rc_tx_thread :: bool
  rc_rx_thread :: bool
  rc_tx_started :: bool
  rc_rx_started :: bool

text \<open>
  The transmit thread: not created, created, blocked in \<open>ioHdlcWaitEvents\<close>, past its wait, with
  flags in hand, ended. The receive thread: not created, at the head of its loop, in
  \<open>hdlcRecvFrame\<close>, without a frame, ended.
\<close>

datatype tx_state = TxAbsent | TxCreated | TxBlocked | TxAwake | TxServing u32 | TxEnded

datatype rx_state = RxAbsent | RxHead | RxReceiving | RxNoFrame | RxEnded

datatype caller = Idle | StartTx | StartRx | AbortWake | AbortJoin | StopWake | StopTx | StopRx

record runner =
  ru_ev :: events
  ru_ctx :: "runner_ctx option"
  ru_stop :: bool
  ru_started :: bool
  ru_flags :: u8
  ru_heap :: nat
  ru_tx :: tx_state
  ru_rx :: rx_state
  ru_caller :: caller
  ru_result :: "errno option"
  ru_c_peer :: bool
  ru_heard :: bool
  ru_fault :: bool

definition cm_es :: nat where "cm_es = 0"
definition cm_listener :: nat where "cm_listener = 0"
definition tx_thread_id :: nat where "tx_thread_id = 0"

definition ru_post :: "u32 \<Rightarrow> runner \<Rightarrow> runner" where
  "ru_post fl r = r\<lparr>ru_ev := iohdlc_evt_broadcast_flags cm_es fl (ru_ev r)\<rparr>"

section \<open>Starting\<close>

definition runner_start :: "bool \<Rightarrow> runner \<Rightarrow> runner" where
  "runner_start malloc_ok r =
     (if \<not> malloc_ok then r\<lparr>ru_result := Some ENOMEM\<rparr>
      else r\<lparr>ru_ctx := Some \<lparr>rc_tx_thread = False, rc_rx_thread = False, rc_tx_started = False, rc_rx_started = False\<rparr>,
        ru_heap := ru_heap r + 1, ru_stop := False, ru_started := False, ru_flags := ru_flags r OR IOHDLC_FLG_IDL,
        ru_caller := StartTx\<rparr>)"

definition runner_give_up :: "runner \<Rightarrow> runner" where
  "runner_give_up r = r\<lparr>ru_heap := ru_heap r - 1, ru_ctx := None, ru_started := False,
     ru_result := Some EAGAIN, ru_caller := Idle\<rparr>"

definition runner_create_tx :: "bool \<Rightarrow> runner \<Rightarrow> runner" where
  "runner_create_tx create_ok r =
     (if \<not> create_ok then runner_give_up r
      else r\<lparr>ru_tx := TxCreated,
        ru_ctx := map_option (\<lambda>c. c\<lparr>rc_tx_thread := True, rc_tx_started := True\<rparr>) (ru_ctx r), ru_caller := StartRx\<rparr>)"

definition runner_create_rx :: "bool \<Rightarrow> runner \<Rightarrow> runner" where
  "runner_create_rx create_ok r =
     (if \<not> create_ok then r\<lparr>ru_stop := True, ru_caller := AbortWake\<rparr>
      else r\<lparr>ru_rx := RxHead,
        ru_ctx := map_option (\<lambda>c. c\<lparr>rc_rx_thread := True, rc_rx_started := True\<rparr>) (ru_ctx r),
        ru_started := True, ru_result := None, ru_caller := Idle\<rparr>)"

text \<open>The broadcast of all flags that is to wake the transmit thread; \<open>ru_heard\<close> notes whether it
  had its listener registered.\<close>

definition runner_wake :: "caller \<Rightarrow> runner \<Rightarrow> runner" where
  "runner_wake next_step r = (ru_post 0xFFFFFFFF r)\<lparr>ru_heard := (cm_listener \<in> set (ev_chain (ru_ev r) cm_es)),
     ru_caller := next_step\<rparr>"

definition runner_abort_join :: "runner \<Rightarrow> runner" where
  "runner_abort_join r = runner_give_up (r\<lparr>ru_tx := TxAbsent\<rparr>)"

section \<open>Stopping\<close>

definition runner_stop :: "runner \<Rightarrow> runner" where
  "runner_stop r = (if ru_ctx r = None then r\<lparr>ru_started := False, ru_result := None\<rparr>
     else r\<lparr>ru_stop := True, ru_caller := StopWake\<rparr>)"

definition runner_joins :: "(runner_ctx \<Rightarrow> bool) \<Rightarrow> (runner_ctx \<Rightarrow> bool) \<Rightarrow> runner \<Rightarrow> bool" where
  "runner_joins started thread r = (case ru_ctx r of None \<Rightarrow> False | Some c \<Rightarrow> started c \<and> thread c)"

definition runner_join_tx :: "runner \<Rightarrow> runner" where
  "runner_join_tx r =
     (if runner_joins rc_tx_started rc_tx_thread r
      then r\<lparr>ru_tx := TxAbsent, ru_ctx := map_option (\<lambda>c. c\<lparr>rc_tx_started := False\<rparr>) (ru_ctx r), ru_caller := StopRx\<rparr>
      else r\<lparr>ru_caller := StopRx\<rparr>)"

definition runner_join_rx :: "runner \<Rightarrow> runner" where
  "runner_join_rx r =
     (let r = (if runner_joins rc_rx_started rc_rx_thread r then r\<lparr>ru_rx := RxAbsent\<rparr> else r) in
      r\<lparr>ru_heap := ru_heap r - 1, ru_ctx := None, ru_started := False, ru_result := None, ru_caller := Idle\<rparr>)"

section \<open>The threads\<close>

text \<open>Both threads stop the timers of the current peer when they end; there may be none.\<close>

definition stop_timers :: "runner \<Rightarrow> runner" where
  "stop_timers r = r\<lparr>ru_fault := ru_fault r \<or> \<not> ru_c_peer r\<rparr>"

definition tx_register :: "runner \<Rightarrow> runner" where
  "tx_register r = r\<lparr>ru_ev := iohdlc_evt_register cm_es cm_listener tx_thread_id 1 tx_flags_mask (ru_ev r), ru_tx := TxBlocked\<rparr>"

definition tx_wait_ends :: "runner \<Rightarrow> runner" where
  "tx_wait_ends r = r\<lparr>ru_ev := snd (iohdlc_evt_wait_any_timeout tx_thread_id 1 (ru_ev r)), ru_tx := TxAwake\<rparr>"

definition tx_get_flags :: "runner \<Rightarrow> runner" where
  "tx_get_flags r = (let (fl, ev) = evt_get_and_clear_flags cm_listener (ru_ev r) in r\<lparr>ru_ev := ev, ru_tx := TxServing fl\<rparr>)"

text \<open>After the stop check the flags are served; \<open>left\<close> are the flags kept for the next round.\<close>

definition tx_serve :: "u32 \<Rightarrow> runner \<Rightarrow> runner" where
  "tx_serve left r =
     (if ru_stop r
      then stop_timers (r\<lparr>ru_ev := iohdlc_evt_unregister cm_es cm_listener (ru_ev r), ru_tx := TxEnded\<rparr>)
      else r\<lparr>ru_tx := (if ru_c_peer r \<and> left \<noteq> 0 then TxServing left else TxBlocked)\<rparr>)"

definition rx_step :: "bool \<Rightarrow> runner \<Rightarrow> runner" where
  "rx_step frame r = (case ru_rx r of
     RxHead \<Rightarrow> (if ru_stop r then stop_timers (r\<lparr>ru_rx := RxEnded\<rparr>) else r\<lparr>ru_rx := RxReceiving\<rparr>)
   | RxReceiving \<Rightarrow> (if frame then r\<lparr>ru_flags := ru_flags r AND NOT IOHDLC_FLG_IDL, ru_rx := RxHead\<rparr>
       else r\<lparr>ru_rx := RxNoFrame\<rparr>)
   | RxNoFrame \<Rightarrow> (if ru_stop r then stop_timers (r\<lparr>ru_rx := RxEnded\<rparr>)
       else (let r = r\<lparr>ru_flags := ru_flags r OR IOHDLC_FLG_IDL, ru_rx := RxHead\<rparr> in
         if has (ru_flags r) IOHDLC_FLG_TWA then ru_post IOHDLC_EVT_LINE_IDLE r else r))
   | _ \<Rightarrow> r)"

section \<open>The system\<close>

datatype ru_action =
    CallStart bool
  | CreateTx bool
  | CreateRx bool
  | WakeToAbort
  | JoinToAbort
  | CallStop
  | WakeToStop
  | JoinTx
  | JoinRx
  | TxRegister
  | TxWake
  | TxFlags
  | TxServe u32
  | RxStep bool
  | Post u32

fun ru_enabled :: "ru_action \<Rightarrow> runner \<Rightarrow> bool" where
  "ru_enabled (CallStart b) r = (ru_caller r = Idle \<and> ru_ctx r = None)"
| "ru_enabled (CreateTx b) r = (ru_caller r = StartTx)"
| "ru_enabled (CreateRx b) r = (ru_caller r = StartRx)"
| "ru_enabled WakeToAbort r = (ru_caller r = AbortWake)"
| "ru_enabled JoinToAbort r = (ru_caller r = AbortJoin \<and> ru_tx r = TxEnded)"
| "ru_enabled CallStop r = (ru_caller r = Idle)"
| "ru_enabled WakeToStop r = (ru_caller r = StopWake)"
| "ru_enabled JoinTx r = (ru_caller r = StopTx \<and> (runner_joins rc_tx_started rc_tx_thread r \<longrightarrow> ru_tx r = TxEnded))"
| "ru_enabled JoinRx r = (ru_caller r = StopRx \<and> (runner_joins rc_rx_started rc_rx_thread r \<longrightarrow> ru_rx r = RxEnded))"
| "ru_enabled TxRegister r = (ru_tx r = TxCreated)"
| "ru_enabled TxWake r = (ru_tx r = TxBlocked \<and> evt_matched tx_thread_id 1 (ru_ev r) \<noteq> 0)"
| "ru_enabled TxFlags r = (ru_tx r = TxAwake)"
| "ru_enabled (TxServe left) r = (case ru_tx r of TxServing fl \<Rightarrow> True | _ \<Rightarrow> False)"
| "ru_enabled (RxStep b) r = (ru_rx r \<notin> {RxAbsent, RxEnded})"
| "ru_enabled (Post fl) r = True"

fun ru_perform :: "ru_action \<Rightarrow> runner \<Rightarrow> runner" where
  "ru_perform (CallStart b) r = runner_start b r"
| "ru_perform (CreateTx b) r = runner_create_tx b r"
| "ru_perform (CreateRx b) r = runner_create_rx b r"
| "ru_perform WakeToAbort r = runner_wake AbortJoin r"
| "ru_perform JoinToAbort r = runner_abort_join r"
| "ru_perform CallStop r = runner_stop r"
| "ru_perform WakeToStop r = runner_wake StopTx r"
| "ru_perform JoinTx r = runner_join_tx r"
| "ru_perform JoinRx r = runner_join_rx r"
| "ru_perform TxRegister r = tx_register r"
| "ru_perform TxWake r = tx_wait_ends r"
| "ru_perform TxFlags r = tx_get_flags r"
| "ru_perform (TxServe left) r = tx_serve left r"
| "ru_perform (RxStep b) r = rx_step b r"
| "ru_perform (Post fl) r = ru_post fl r"

definition ru_initial :: "bool \<Rightarrow> u8 \<Rightarrow> runner" where
  "ru_initial c_peer flags = \<lparr>ru_ev = iohdlc_evt_init cm_es \<lparr>ev_pending = \<lambda>_. 0,
       ev_listener = \<lambda>_. \<lparr>el_thread = 0, el_events = 0, el_flags = 0, el_wflags = 0\<rparr>, ev_chain = \<lambda>_. []\<rparr>,
     ru_ctx = None, ru_stop = False, ru_started = False, ru_flags = flags, ru_heap = 0, ru_tx = TxAbsent, ru_rx = RxAbsent,
     ru_caller = Idle, ru_result = None, ru_c_peer = c_peer, ru_heard = False, ru_fault = False\<rparr>"

inductive ru_reach :: "runner \<Rightarrow> bool" where
  start: "ru_reach (ru_initial c fl)"
| step: "ru_reach r \<Longrightarrow> ru_enabled a r \<Longrightarrow> ru_reach (ru_perform a r)"

fun ru_run :: "ru_action list \<Rightarrow> runner \<Rightarrow> runner option" where
  "ru_run [] r = Some r"
| "ru_run (a # as) r = (if ru_enabled a r then ru_run as (ru_perform a r) else None)"

lemma ru_run_reach: "ru_reach r \<Longrightarrow> ru_run as r = Some z \<Longrightarrow> ru_reach z"
  by (induction as arbitrary: r) (auto intro: ru_reach.step split: if_splits)

section \<open>Threads and contexts\<close>

definition tx_registered :: "tx_state \<Rightarrow> bool" where
  "tx_registered t = (case t of TxBlocked \<Rightarrow> True | TxAwake \<Rightarrow> True | TxServing fl \<Rightarrow> True | _ \<Rightarrow> False)"

definition ctx_with :: "bool \<Rightarrow> bool \<Rightarrow> bool \<Rightarrow> runner_ctx" where
  "ctx_with tx rx tx_started = \<lparr>rc_tx_thread = tx, rc_rx_thread = rx, rc_tx_started = tx_started, rc_rx_started = rx\<rparr>"

definition runner_off :: "runner \<Rightarrow> bool" where
  "runner_off r \<longleftrightarrow> ru_ctx r = None \<and> ru_heap r = 0 \<and> \<not> ru_started r \<and> ru_tx r = TxAbsent \<and> ru_rx r = RxAbsent"

definition runner_on :: "runner \<Rightarrow> bool" where
  "runner_on r \<longleftrightarrow> ru_ctx r = Some (ctx_with True True True) \<and> ru_heap r = 1 \<and> ru_started r \<and> \<not> ru_stop r
     \<and> ru_tx r \<notin> {TxAbsent, TxEnded} \<and> ru_rx r \<notin> {RxAbsent, RxEnded}"

definition caller_ok :: "runner \<Rightarrow> bool" where
  "caller_ok r = (case ru_caller r of
     Idle \<Rightarrow> runner_off r \<or> runner_on r
   | StartTx \<Rightarrow> ru_ctx r = Some (ctx_with False False False) \<and> ru_heap r = 1 \<and> \<not> ru_stop r \<and> ru_tx r = TxAbsent \<and> ru_rx r = RxAbsent
   | StartRx \<Rightarrow> ru_ctx r = Some (ctx_with True False True) \<and> ru_heap r = 1 \<and> \<not> ru_stop r \<and> ru_tx r \<notin> {TxAbsent, TxEnded}
       \<and> ru_rx r = RxAbsent
   | StopWake \<Rightarrow> ru_ctx r = Some (ctx_with True True True) \<and> ru_heap r = 1 \<and> ru_stop r \<and> ru_tx r \<noteq> TxAbsent \<and> ru_rx r \<noteq> RxAbsent
   | StopTx \<Rightarrow> ru_ctx r = Some (ctx_with True True True) \<and> ru_heap r = 1 \<and> ru_stop r \<and> ru_tx r \<noteq> TxAbsent \<and> ru_rx r \<noteq> RxAbsent
   | StopRx \<Rightarrow> ru_ctx r = Some (ctx_with True True False) \<and> ru_heap r = 1 \<and> ru_stop r \<and> ru_tx r = TxAbsent \<and> ru_rx r \<noteq> RxAbsent
   | _ \<Rightarrow> ru_ctx r = Some (ctx_with True False True) \<and> ru_heap r = 1 \<and> ru_stop r \<and> ru_tx r \<noteq> TxAbsent \<and> ru_rx r = RxAbsent)"

definition wake_ok :: "runner \<Rightarrow> bool" where
  "wake_ok r \<longleftrightarrow>
     ev_chain (ru_ev r) cm_es = (if tx_registered (ru_tx r) then [cm_listener] else [])
     \<and> (tx_registered (ru_tx r) \<longrightarrow> el_static (ev_listener (ru_ev r) cm_listener) = (tx_thread_id, 1, tx_flags_mask))
     \<and> (ru_caller r \<in> {AbortJoin, StopTx} \<and> ru_heard r \<longrightarrow>
          ru_tx r \<noteq> TxCreated \<and> (ru_tx r = TxBlocked \<longrightarrow> evt_matched tx_thread_id 1 (ru_ev r) \<noteq> 0))"

lemma all_wanted: "has (0xFFFFFFFF AND tx_flags_mask) tx_flags_mask"
proof -
  have f: "(0xFFFFFFFF :: u32) = -1" by simp
  have "(0xFFFFFFFF :: u32) AND x = x" for x unfolding f by (rule and.left_neutral)
  moreover have "tx_flags_mask \<noteq> 0" by (simp add: tx_flags_mask_def or_eq_0_iff IOHDLC_EVT_C_RPLYTMO_def)
  ultimately show ?thesis by (simp add: has_def)
qed

lemma wake_broadcast:
  assumes "wake_ok r" "tx_registered (ru_tx r)"
  shows "evt_matched tx_thread_id 1 (iohdlc_evt_broadcast_flags cm_es 0xFFFFFFFF (ru_ev r)) \<noteq> 0"
  using assms by (intro broadcast_wakes [OF _ _ all_wanted, where l = cm_listener]) (simp_all add: wake_ok_def)

lemma ctx_upd [simp]:
  "(ctx_with False False False)\<lparr>rc_tx_thread := True, rc_tx_started := True\<rparr> = (ctx_with True False True)"
  "(ctx_with True False True)\<lparr>rc_rx_thread := True, rc_rx_started := True\<rparr> = (ctx_with True True True)"
  "(ctx_with True True True)\<lparr>rc_tx_started := False\<rparr> = (ctx_with True True False)"
  "\<lparr>rc_tx_thread = False, rc_rx_thread = False, rc_tx_started = False, rc_rx_started = False\<rparr> = ctx_with False False False"
  by (simp_all add: ctx_with_def)

lemma ctx_parts [simp]: "rc_tx_started (ctx_with a b c) = c" "rc_tx_thread (ctx_with a b c) = a"
  by (simp_all add: ctx_with_def)

lemma joins_ctx [simp]:
  "ru_ctx r = Some (ctx_with a b c) \<Longrightarrow> runner_joins rc_tx_started rc_tx_thread r = (c \<and> a)"
  "ru_ctx r = Some (ctx_with a b c) \<Longrightarrow> runner_joins rc_rx_started rc_rx_thread r = b"
  by (auto simp: runner_joins_def ctx_with_def)

text \<open>The caller does not mind what the threads do, as long as they end only when asked to.\<close>

lemma caller_ok_threads:
  assumes "caller_ok r"
    and "ru_caller r' = ru_caller r" "ru_ctx r' = ru_ctx r" "ru_heap r' = ru_heap r" "ru_started r' = ru_started r" "ru_stop r' = ru_stop r"
    and "ru_tx r' = TxAbsent \<longleftrightarrow> ru_tx r = TxAbsent" "ru_rx r' = RxAbsent \<longleftrightarrow> ru_rx r = RxAbsent"
    and "\<not> ru_stop r \<Longrightarrow> ru_tx r' = TxEnded \<Longrightarrow> ru_tx r = TxEnded"
    and "\<not> ru_stop r \<Longrightarrow> ru_rx r' = RxEnded \<Longrightarrow> ru_rx r = RxEnded"
  shows "caller_ok r'"
  using assms by (cases "ru_caller r") (auto simp: caller_ok_def runner_off_def runner_on_def)

lemma caller_perform:
  assumes "caller_ok r" "ru_enabled a r"
  shows "caller_ok (ru_perform a r)"
proof (cases a)
  case (CallStart b)
  then show ?thesis using assms
    by (auto simp: caller_ok_def runner_start_def runner_off_def runner_on_def)
next
  case (CreateTx b)
  then show ?thesis using assms
    by (auto simp: caller_ok_def runner_create_tx_def runner_give_up_def runner_off_def)
next
  case (CreateRx b)
  then show ?thesis using assms
    by (auto simp: caller_ok_def runner_create_rx_def runner_on_def)
next
  case WakeToAbort
  then show ?thesis using assms by (auto simp: caller_ok_def runner_wake_def ru_post_def)
next
  case JoinToAbort
  then show ?thesis using assms by (auto simp: caller_ok_def runner_abort_join_def runner_give_up_def runner_off_def)
next
  case CallStop
  then show ?thesis using assms by (auto simp: caller_ok_def runner_stop_def runner_off_def runner_on_def)
next
  case WakeToStop
  then show ?thesis using assms by (auto simp: caller_ok_def runner_wake_def ru_post_def)
next
  case JoinTx
  then show ?thesis using assms by (auto simp: caller_ok_def runner_join_tx_def)
next
  case JoinRx
  then show ?thesis using assms by (auto simp: caller_ok_def runner_join_rx_def runner_off_def Let_def)
qed (use assms in \<open>auto intro!: caller_ok_threads [OF assms(1)] simp: tx_register_def tx_wait_ends_def tx_get_flags_def
    tx_serve_def rx_step_def stop_timers_def ru_post_def split_beta Let_def split: tx_state.splits rx_state.splits\<close>)

section \<open>Waking the transmit thread\<close>

lemma registered_simps [simp]:
  "\<not> tx_registered TxAbsent" "\<not> tx_registered TxCreated" "\<not> tx_registered TxEnded"
  "tx_registered TxBlocked" "tx_registered TxAwake" "tx_registered (TxServing fl)"
  by (simp_all add: tx_registered_def)

lemma wake_ok_post: "wake_ok r \<Longrightarrow> wake_ok (ru_post fl r)"
  by (simp add: wake_ok_def ru_post_def pending_broadcast)

lemma wake_ok_same:
  assumes "wake_ok r" "ru_ev r' = ru_ev r" "tx_registered (ru_tx r') = tx_registered (ru_tx r)"
    "ru_caller r' \<in> {AbortJoin, StopTx} \<Longrightarrow> ru_caller r' = ru_caller r \<and> ru_heard r' = ru_heard r \<and> ru_tx r' = ru_tx r"
  shows "wake_ok r'"
  using assms by (auto simp: wake_ok_def)

lemma wake_wake:
  assumes "wake_ok r"
  shows "wake_ok (runner_wake c r)"
  using assms wake_broadcast [OF assms]
  by (cases "ru_tx r") (simp_all add: wake_ok_def runner_wake_def ru_post_def)

lemma wake_register:
  assumes "wake_ok r" "ru_tx r = TxCreated"
  shows "wake_ok (tx_register r)"
  using assms
  by (simp add: wake_ok_def tx_register_def iohdlc_evt_register_def el_static_def) blast

lemma wake_thread:
  assumes "wake_ok r"
  shows "ru_tx r = TxBlocked \<Longrightarrow> wake_ok (tx_wait_ends r)"
    "ru_tx r = TxAwake \<Longrightarrow> wake_ok (tx_get_flags r)"
  using assms by (simp_all add: wake_ok_def tx_wait_ends_def tx_get_flags_def split_beta)

lemma wake_serve:
  assumes "wake_ok r" "caller_ok r" "ru_tx r = TxServing fl"
  shows "wake_ok (tx_serve left r)"
  using assms
  by (auto simp: wake_ok_def tx_serve_def stop_timers_def iohdlc_evt_unregister_def caller_ok_def)

lemma wake_rx: "wake_ok r \<Longrightarrow> wake_ok (rx_step b r)"
  by (auto simp: rx_step_def stop_timers_def Let_def intro!: wake_ok_post split: rx_state.split elim!: wake_ok_same)

lemma wake_perform:
  assumes w: "wake_ok r" and c: "caller_ok r" and e: "ru_enabled a r"
  shows "wake_ok (ru_perform a r)"
proof (cases a)
  case (TxServe left)
  then obtain fl where "ru_tx r = TxServing fl" using e by (auto split: tx_state.splits)
  then show ?thesis using TxServe wake_serve [OF w c] by simp
next
  case (CreateTx b)
  then show ?thesis using e c
    by (auto simp: runner_create_tx_def runner_give_up_def caller_ok_def intro: wake_ok_same [OF w])
next
  case JoinTx
  then show ?thesis using e c
    by (auto simp: runner_join_tx_def caller_ok_def intro: wake_ok_same [OF w])
next
  case JoinToAbort
  then show ?thesis using e
    by (auto simp: runner_abort_join_def runner_give_up_def intro: wake_ok_same [OF w])
qed (use e w in \<open>auto simp: wake_wake wake_register wake_thread wake_rx wake_ok_post runner_start_def runner_create_rx_def
    runner_stop_def runner_join_rx_def Let_def intro: wake_ok_same [OF w]\<close>)

lemma fault_perform:
  assumes "ru_c_peer r \<Longrightarrow> \<not> ru_fault r"
  shows "ru_c_peer (ru_perform a r) = ru_c_peer r" "ru_c_peer r \<Longrightarrow> \<not> ru_fault (ru_perform a r)"
proof -
  note defs = runner_start_def runner_create_tx_def runner_give_up_def runner_create_rx_def runner_wake_def ru_post_def
    runner_abort_join_def runner_stop_def runner_join_tx_def runner_join_rx_def tx_register_def tx_wait_ends_def
    tx_get_flags_def tx_serve_def rx_step_def stop_timers_def
  show "ru_c_peer (ru_perform a r) = ru_c_peer r"
    by (cases a) (simp_all add: defs split_beta Let_def split: rx_state.split)
  show "\<not> ru_fault (ru_perform a r)" if "ru_c_peer r"
    using assms that by (cases a) (simp_all add: defs split_beta Let_def split: rx_state.split)
qed

definition result_ok :: "runner \<Rightarrow> bool" where
  "result_ok r \<longleftrightarrow> ru_result r \<in> {None, Some ENOMEM, Some EAGAIN}
     \<and> (ru_caller r = Idle \<and> ru_result r \<noteq> None \<longrightarrow> ru_ctx r = None)"

lemma result_perform:
  assumes "result_ok r" "ru_enabled a r"
  shows "result_ok (ru_perform a r)"
proof (cases a)
  case (RxStep b)
  then show ?thesis using assms
    by (simp add: result_ok_def rx_step_def stop_timers_def ru_post_def Let_def split: rx_state.split)
qed (use assms in \<open>auto simp: result_ok_def runner_start_def runner_create_tx_def runner_give_up_def runner_create_rx_def
    runner_wake_def ru_post_def runner_abort_join_def runner_stop_def runner_join_tx_def runner_join_rx_def tx_register_def
    tx_wait_ends_def tx_get_flags_def tx_serve_def stop_timers_def split_beta Let_def\<close>)

lemma ru_reach_inv:
  assumes "ru_reach r"
  shows "caller_ok r \<and> wake_ok r \<and> result_ok r \<and> (ru_c_peer r \<longrightarrow> \<not> ru_fault r)"
  using assms
proof induction
  case (start c fl)
  then show ?case
    by (simp add: ru_initial_def caller_ok_def runner_off_def wake_ok_def result_ok_def iohdlc_evt_init_def)
next
  case (step r a)
  then show ?case using caller_perform wake_perform result_perform fault_perform [of r a] by auto
qed

section \<open>Starting and stopping\<close>


text \<open>A start whose receive thread cannot be created.\<close>

definition failed_start :: "ru_action list" where
  "failed_start = [CallStart True, CreateTx True, TxRegister, CreateRx False, WakeToAbort, TxWake, TxFlags, TxServe 0, JoinToAbort]"

lemmas runner_steps = runner_start_def runner_create_tx_def runner_give_up_def runner_create_rx_def runner_wake_def ru_post_def
  runner_abort_join_def runner_stop_def runner_join_tx_def runner_join_rx_def runner_joins_def tx_register_def tx_wait_ends_def
  tx_get_flags_def tx_serve_def rx_step_def stop_timers_def split_beta Let_def ru_initial_def iohdlc_evt_init_def
  iohdlc_evt_register_def iohdlc_evt_unregister_def iohdlc_evt_broadcast_flags_def iohdlc_evt_wait_any_timeout_def
  evt_get_and_clear_flags_def deliver_flags_def deliver_pending_def evt_matched_def cm_es_def cm_listener_def tx_thread_id_def


text \<open>The steps that are left to a stop, or to an abandoned start, once it has broadcast.\<close>

fun ru_internal :: "ru_action \<Rightarrow> bool" where
  "ru_internal TxRegister = True"
| "ru_internal TxWake = True"
| "ru_internal TxFlags = True"
| "ru_internal (TxServe left) = True"
| "ru_internal (RxStep b) = True"
| "ru_internal JoinToAbort = True"
| "ru_internal JoinTx = True"
| "ru_internal JoinRx = True"
| "ru_internal a = False"

fun ru_post_action :: "ru_action \<Rightarrow> bool" where
  "ru_post_action (Post fl) = True"
| "ru_post_action a = False"

definition stop_left :: "runner \<Rightarrow> nat" where
  "stop_left r =
     (case ru_tx r of TxCreated \<Rightarrow> 4 | TxBlocked \<Rightarrow> 3 | TxAwake \<Rightarrow> 2 | TxServing fl \<Rightarrow> 1 | _ \<Rightarrow> 0)
     + (case ru_rx r of RxReceiving \<Rightarrow> 2 | RxHead \<Rightarrow> 1 | RxNoFrame \<Rightarrow> 1 | _ \<Rightarrow> 0)
     + (case ru_caller r of AbortJoin \<Rightarrow> 1 | StopTx \<Rightarrow> 2 | StopRx \<Rightarrow> 1 | _ \<Rightarrow> 0)"

definition stopping :: "runner \<Rightarrow> bool" where
  "stopping r \<longleftrightarrow> ru_stop r \<and> (ru_caller r \<in> {AbortJoin, StopTx} \<and> ru_heard r \<or> ru_caller r \<in> {StopRx, Idle})"

lemma stopping_step:
  assumes s: "stopping r" and c: "caller_ok r" and a: "ru_internal a" and e: "ru_enabled a r"
  shows "stopping (ru_perform a r) \<and> stop_left (ru_perform a r) < stop_left r"
proof (cases a)
  case (TxServe left)
  then obtain fl where "ru_tx r = TxServing fl" using e by (auto split: tx_state.splits)
  then show ?thesis using s TxServe by (simp add: stopping_def stop_left_def tx_serve_def stop_timers_def)
next
  case (RxStep b)
  then show ?thesis using s e
    by (simp add: stopping_def stop_left_def rx_step_def stop_timers_def split: rx_state.split)
next
  case JoinToAbort
  then show ?thesis using s e
    by (simp add: stopping_def stop_left_def runner_abort_join_def runner_give_up_def)
next
  case JoinTx
  then show ?thesis using s e c
    by (simp add: stopping_def stop_left_def runner_join_tx_def caller_ok_def)
next
  case JoinRx
  then show ?thesis using s e c
    by (simp add: stopping_def stop_left_def runner_join_rx_def caller_ok_def Let_def)
qed (use assms in \<open>auto simp: stopping_def stop_left_def tx_register_def tx_wait_ends_def tx_get_flags_def split_beta\<close>)

lemma stopping_post: "stopping (ru_post fl r) = stopping r" "stop_left (ru_post fl r) = stop_left r"
  by (simp_all add: stopping_def stop_left_def ru_post_def)

lemma stopping_moves:
  assumes s: "stopping r" and c: "caller_ok r" and w: "wake_ok r" and i: "ru_caller r \<noteq> Idle"
  shows "\<exists>a. ru_internal a \<and> ru_enabled a r"
proof (cases "ru_caller r = StopRx")
  case True
  then have "ru_enabled JoinRx r \<or> ru_enabled (RxStep True) r" using c by (auto simp: caller_ok_def)
  then show ?thesis using ru_internal.simps by metis
next
  case False
  then have j: "ru_caller r \<in> {AbortJoin, StopTx}" "ru_heard r" using s i by (auto simp: stopping_def)
  then have p: "ru_tx r \<noteq> TxAbsent" using c by (auto simp: caller_ok_def)
  have "ru_enabled (if ru_caller r = AbortJoin then JoinToAbort else JoinTx) r" if "ru_tx r = TxEnded"
    using that j(1) by auto
  moreover have "ru_enabled TxWake r" if "ru_tx r = TxBlocked" using w j that by (auto simp: wake_ok_def)
  moreover have "ru_tx r \<noteq> TxCreated" using w j by (auto simp: wake_ok_def)
  moreover have "ru_enabled TxFlags r" if "ru_tx r = TxAwake" using that by simp
  moreover have "ru_enabled (TxServe 0) r" if "ru_tx r = TxServing fl" for fl using that by simp
  ultimately show ?thesis using p by (metis ru_internal.simps(2-4,6,7) tx_state.exhaust)
qed

text \<open>C39: A stop of the runner, or a start given up for want of a receive thread, returns, once its
  broadcast has found the transmit thread registered: whatever the two threads still receive or
  serve, and whatever else is posted, some thread can move until the call has returned, and there
  are at most eight moves in all.\<close>
theorem runner_stop_returns:
  assumes "ru_reach r" "stopping r" "ru_run as r = Some z" "\<forall>a \<in> set as. ru_internal a \<or> ru_post_action a"
  shows "length (filter ru_internal as) + stop_left z \<le> stop_left r \<and> stop_left r \<le> 8
    \<and> (ru_caller z = Idle \<or> (\<exists>a. ru_internal a \<and> ru_enabled a z))"
proof -
  have "length (filter ru_internal as) + stop_left z \<le> stop_left r \<and> stopping z \<and> ru_reach z"
    using assms
  proof (induction as arbitrary: r)
    case (Cons a as)
    have e: "ru_enabled a r" and z: "ru_run as (ru_perform a r) = Some z" using Cons.prems(3) by (auto split: if_splits)
    have n: "ru_reach (ru_perform a r)" using Cons.prems(1) e by (rule ru_reach.step)
    show ?case
    proof (cases "ru_internal a")
      case True
      then have "stopping (ru_perform a r) \<and> stop_left (ru_perform a r) < stop_left r"
        using stopping_step [OF Cons.prems(2) _ True e] ru_reach_inv [OF Cons.prems(1)] by blast
      then show ?thesis using Cons.IH [OF n _ z] Cons.prems(4) True by auto
    next
      case False
      then obtain fl where "a = Post fl" using Cons.prems(4) by (cases a) auto
      then show ?thesis using Cons.IH [OF n _ z] Cons.prems(2,4) by (simp add: stopping_post)
    qed
  qed simp
  moreover have "stop_left r \<le> 8" by (simp add: stop_left_def split: tx_state.split rx_state.split caller.split)
  ultimately show ?thesis using stopping_moves [of z] ru_reach_inv [of z] by blast
qed

definition stopped_run :: "ru_action list" where
  "stopped_run = [CallStart True, CreateTx True, TxRegister, CreateRx True, RxStep False, CallStop, WakeToStop]"

theorem runner_stop_returns_witness:
  "\<exists>r. ru_run stopped_run (ru_initial True 0) = Some r \<and> (\<exists>a. ru_internal a \<and> ru_enabled a r)"
proof -
  have "\<exists>r. ru_run stopped_run (ru_initial True 0) = Some r \<and> ru_caller r = StopTx \<and> stopping r"
    using all_wanted by (simp add: stopped_run_def runner_steps stopping_def)
  then obtain r where r: "ru_run stopped_run (ru_initial True 0) = Some r" "ru_caller r = StopTx" "stopping r" by blast
  from runner_stop_returns [OF ru_run_reach [OF ru_reach.start r(1)] r(3), of "[]" r] r show ?thesis by auto
qed

text \<open>
  The condition is needed: the transmit thread tests the stop flag only after a wait, and a stop whose
  broadcast comes before the thread has registered its listener waits for it forever.
\<close>

definition early_stop :: "ru_action list" where
  "early_stop = [CallStart True, CreateTx True, CreateRx True, CallStop, WakeToStop, TxRegister, RxStep False]"

theorem early_stop_hangs:
  "\<exists>r. ru_run early_stop (ru_initial True 0) = Some r \<and> ru_caller r = StopTx \<and> (\<forall>a. ru_internal a \<longrightarrow> \<not> ru_enabled a r)"
proof -
  have "\<exists>r. ru_run early_stop (ru_initial True 0) = Some r \<and> ru_caller r = StopTx \<and> ru_tx r = TxBlocked
      \<and> ru_rx r = RxEnded \<and> evt_matched tx_thread_id 1 (ru_ev r) = 0 \<and> runner_joins rc_tx_started rc_tx_thread r"
    by (simp add: early_stop_def runner_steps)
  then obtain r where r: "ru_run early_stop (ru_initial True 0) = Some r" "ru_caller r = StopTx" "ru_tx r = TxBlocked"
    "ru_rx r = RxEnded" "evt_matched tx_thread_id 1 (ru_ev r) = 0" "runner_joins rc_tx_started rc_tx_thread r" by blast
  have "\<not> ru_enabled a r" if "ru_internal a" for a using that r by (cases a) simp_all
  then show ?thesis using r by blast
qed

text \<open>A station with no peer has no timers the threads could stop when they end.\<close>

theorem stop_without_peer_faults:
  "\<exists>r. ru_run [CallStart True, CreateTx True, TxRegister, CreateRx True, CallStop, RxStep False] (ru_initial False 0) = Some r
     \<and> ru_fault r"
  by (simp add: runner_steps)

end
