(* ===== verification/Hdlc_Deinit.thy ===== *)
theory Hdlc_Deinit
  imports Hdlc_Runner
begin

text \<open>
  Tear-down of a station: \<open>ioHdlcStationDeinit\<close> of \<open>src/ioHdlc.c\<close>, with the stop of the runner as
  one call, when its threads run without further events, and the timers of the peers.
\<close>

section \<open>A stop as one call\<close>

text \<open>The thread that moves: the caller when it can, then the transmit and the receive thread.\<close>

definition next_move :: "runner \<Rightarrow> ru_action option" where
  "next_move r = find (\<lambda>a. ru_enabled a r) [JoinToAbort, JoinTx, JoinRx, TxRegister, TxWake, TxFlags, TxServe 0, RxStep False]"

fun run_out :: "nat \<Rightarrow> runner \<Rightarrow> runner" where
  "run_out 0 r = r"
| "run_out (Suc n) r =
     (if ru_caller r = Idle then r
      else (case next_move r of None \<Rightarrow> r | Some a \<Rightarrow> run_out n (ru_perform a r)))"

definition ioHdlcRunnerStop :: "runner \<Rightarrow> runner" where
  "ioHdlcRunnerStop r = (let r = runner_stop r in
     if ru_caller r = StopWake then run_out 8 (runner_wake StopTx r) else r)"

lemma next_move_internal: "next_move r = Some a \<Longrightarrow> ru_internal a \<and> ru_enabled a r"
  by (auto simp: next_move_def simp del: ru_enabled.simps split: if_splits)

lemma next_move_some: "ru_internal a \<Longrightarrow> ru_enabled a r \<Longrightarrow> next_move r \<noteq> None"
  by (cases a) (auto simp: next_move_def find_None_iff split: tx_state.splits)

lemma run_out_idle:
  assumes "ru_reach r" "stopping r" "stop_left r \<le> n"
  shows "ru_reach (run_out n r) \<and> stopping (run_out n r) \<and> ru_caller (run_out n r) = Idle"
  using assms
proof (induction n arbitrary: r)
  case 0
  then have "ru_caller r = Idle" by (auto simp: stop_left_def stopping_def)
  then show ?case using 0 by simp
next
  case (Suc n)
  note i = ru_reach_inv [OF Suc.prems(1)]
  show ?case
  proof (cases "ru_caller r = Idle")
    case True
    then show ?thesis using Suc.prems by simp
  next
    case False
    then obtain b where b: "ru_internal b \<and> ru_enabled b r" using stopping_moves [OF Suc.prems(2)] i by blast
    then obtain a where a: "next_move r = Some a" using next_move_some [of b r] by auto
    note e = next_move_internal [OF a]
    have "stopping (ru_perform a r) \<and> stop_left (ru_perform a r) < stop_left r"
      using stopping_step [OF Suc.prems(2) _ conjunct1 [OF e] conjunct2 [OF e]] i by blast
    then show ?thesis
      using Suc.IH [of "ru_perform a r"] ru_reach.step [OF Suc.prems(1) conjunct2 [OF e]] Suc.prems(3) False a by simp
  qed
qed

text \<open>A stop of a runner that is on, and whose transmit thread has started to listen, leaves it off.\<close>

lemma runner_stop_off:
  assumes r: "ru_reach r" "ru_caller r = Idle" and t: "ru_tx r \<noteq> TxCreated"
  shows "runner_off (ioHdlcRunnerStop r) \<and> ru_reach (ioHdlcRunnerStop r) \<and> ru_caller (ioHdlcRunnerStop r) = Idle"
proof -
  note i = ru_reach_inv [OF r(1)]
  have s: "ru_reach (runner_stop r)" using ru_reach.step [OF r(1), of CallStop] r(2) by simp
  show ?thesis
  proof (cases "ru_ctx r")
    case None
    then have "ioHdlcRunnerStop r = runner_stop r" using r(2) by (simp add: ioHdlcRunnerStop_def Let_def runner_stop_def)
    moreover have "runner_off (runner_stop r)"
      using i r(2) None by (auto simp: caller_ok_def runner_off_def runner_on_def runner_stop_def)
    ultimately show ?thesis using s r(2) None by (simp add: runner_stop_def)
  next
    case (Some c)
    then have on: "runner_on r" using i r(2) by (auto simp: caller_ok_def runner_off_def)
    let ?s = "runner_stop r"
    have w: "ru_caller ?s = StopWake" "ru_tx ?s = ru_tx r" "ru_stop ?s" "ru_ev ?s = ru_ev r"
      using Some by (simp_all add: runner_stop_def)
    let ?w = "runner_wake StopTx ?s"
    have rw: "ru_reach ?w" using ru_reach.step [OF s, of WakeToStop] w(1) by simp
    have "tx_registered (ru_tx r)" using on t by (cases "ru_tx r") (auto simp: runner_on_def)
    then have "stopping ?w" using i w by (simp add: stopping_def runner_wake_def ru_post_def wake_ok_def)
    moreover from this have "stop_left ?w \<le> 8" by (simp add: stop_left_def split: tx_state.split rx_state.split caller.split)
    ultimately have o: "ru_reach (run_out 8 ?w) \<and> stopping (run_out 8 ?w) \<and> ru_caller (run_out 8 ?w) = Idle"
      by (intro run_out_idle rw)
    then have "runner_off (run_out 8 ?w)"
      using ru_reach_inv [of "run_out 8 ?w"] by (auto simp: caller_ok_def runner_on_def stopping_def)
    then show ?thesis using o w(1) by (simp add: ioHdlcRunnerStop_def Let_def)
  qed
qed

section \<open>Tear-down\<close>

text \<open>A timer of the OSAL: its object and whether its resources are valid. The list of peers of a
  station that was never initialised is \<open>None\<close>.\<close>

record station_rt =
  rt_runner :: runner
  rt_driver :: "swdrv option"
  rt_driver_started :: bool
  rt_peers :: "nat list option"
  rt_timers :: "nat \<Rightarrow> timer_kind \<Rightarrow> bool \<times> vtimer"

definition iohdlc_vt_deinit :: "bool \<times> vtimer \<Rightarrow> bool \<times> vtimer" where
  "iohdlc_vt_deinit v = (if \<not> fst v then v else (False, (snd v)\<lparr>t_armed := False, t_expired := False\<rparr>))"

definition deinit_timers :: "nat list \<Rightarrow> station_rt \<Rightarrow> station_rt" where
  "deinit_timers ps rt = fold (\<lambda>p rt. rt\<lparr>rt_timers := (rt_timers rt)(p := iohdlc_vt_deinit \<circ> rt_timers rt p)\<rparr>) ps rt"

definition ioHdlcStationDeinit :: "station_rt option \<Rightarrow> errno + station_rt" where
  "ioHdlcStationDeinit station =
     (case station of
        None \<Rightarrow> Inl EINVAL
      | Some rt \<Rightarrow>
          (let r = rt_runner rt;
               rt = (if ru_started r \<or> ru_ctx r \<noteq> None then rt\<lparr>rt_runner := ioHdlcRunnerStop r\<rparr> else rt);
               rt = rt\<lparr>rt_driver := map_option drv_stop (rt_driver rt)\<rparr>;
               rt = (case rt_peers rt of None \<Rightarrow> rt | Some ps \<Rightarrow> deinit_timers ps rt)
           in Inr (rt\<lparr>rt_runner := (rt_runner rt)\<lparr>ru_stop := False, ru_started := False, ru_ctx := None\<rparr>,
                rt_driver_started := False\<rparr>)))"

lemma deinit_timers_parts:
  "rt_runner (deinit_timers ps rt) = rt_runner rt \<and> rt_driver (deinit_timers ps rt) = rt_driver rt
   \<and> rt_peers (deinit_timers ps rt) = rt_peers rt \<and> rt_driver_started (deinit_timers ps rt) = rt_driver_started rt"
  unfolding deinit_timers_def by (induction ps arbitrary: rt) simp_all

lemma vt_deinit_twice [simp]: "iohdlc_vt_deinit (iohdlc_vt_deinit v) = iohdlc_vt_deinit v"
  by (simp add: iohdlc_vt_deinit_def)

lemma deinit_timers_at:
  "rt_timers (deinit_timers ps rt) p = (if p \<in> set ps then iohdlc_vt_deinit \<circ> rt_timers rt p else rt_timers rt p)"
  unfolding deinit_timers_def by (induction ps arbitrary: rt) (auto simp: fun_eq_iff)

lemma drv_stop_stopped: "\<not> sd_started (drv_stop d)"
  by (simp add: drv_stop_def)

text \<open>After a tear-down nothing runs: the runner is off, the driver is stopped, no timer of a peer is
  valid or armed.\<close>

lemma deinit_quiet:
  assumes "ru_reach (rt_runner rt)" "ru_caller (rt_runner rt) = Idle" "ru_tx (rt_runner rt) \<noteq> TxCreated"
    and "ioHdlcStationDeinit (Some rt) = Inr rt'"
  shows "runner_off (rt_runner rt')" "rt_driver rt' = Some d \<Longrightarrow> \<not> sd_started d"
    "rt_peers rt' = Some ps \<Longrightarrow> p \<in> set ps \<Longrightarrow> \<not> fst (rt_timers rt' p k)"
proof -
  let ?r = "rt_runner rt"
  note off = runner_stop_off [OF assms(1-3)]
  have n: "runner_off ?r" if "\<not> (ru_started ?r \<or> ru_ctx ?r \<noteq> None)"
    using ru_reach_inv [OF assms(1)] assms(2) that by (auto simp: caller_ok_def runner_on_def)
  note eq = assms(4) [unfolded ioHdlcStationDeinit_def Let_def, simplified, symmetric]
  show "runner_off (rt_runner rt')"
    using off n unfolding eq by (auto simp: deinit_timers_parts runner_off_def split: option.split)
  show "\<not> sd_started d" if "rt_driver rt' = Some d"
    using that unfolding eq by (auto simp: deinit_timers_parts drv_stop_stopped split: option.splits)
  show "\<not> fst (rt_timers rt' p k)" if "rt_peers rt' = Some ps" "p \<in> set ps"
    using that unfolding eq by (auto simp: deinit_timers_parts deinit_timers_at iohdlc_vt_deinit_def split: option.splits if_splits)
qed

text \<open>A second tear-down changes nothing.\<close>

lemma deinit_twice:
  assumes "ioHdlcStationDeinit (Some rt) = Inr rt'"
  shows "ioHdlcStationDeinit (Some rt') = Inr rt'"
proof -
  note eq = assms [unfolded ioHdlcStationDeinit_def Let_def, simplified, symmetric]
  have r: "\<not> ru_started (rt_runner rt')" "ru_ctx (rt_runner rt') = None" "\<not> ru_stop (rt_runner rt')"
    "\<not> rt_driver_started rt'" unfolding eq by simp_all
  have dd: "drv_stop \<circ> drv_stop = drv_stop" by (rule ext) (simp add: drv_stop_def)
  have d: "map_option drv_stop (rt_driver rt') = rt_driver rt'"
    unfolding eq by (simp add: deinit_timers_parts option.map_comp dd split: option.split)
  have t: "deinit_timers ps rt' = rt'" if "rt_peers rt' = Some ps" for ps
  proof -
    have "rt_timers (deinit_timers ps rt') p k = rt_timers rt' p k" for p k
      using that unfolding eq by (auto simp: deinit_timers_at deinit_timers_parts split: option.splits if_splits)
    then have "rt_timers (deinit_timers ps rt') = rt_timers rt'" by blast
    then show ?thesis using deinit_timers_parts [of ps rt'] by (intro station_rt.equality) simp_all
  qed
  show ?thesis using r d t by (simp add: ioHdlcStationDeinit_def Let_def split: option.split)
qed

end
