(* ===== verification/Hdlc_LinkManager.thy ===== *)
theory Hdlc_LinkManager
  imports Hdlc_Events
begin

text \<open>
  The link manager of \<open>utils/link_manager/src/ioHdlc_link_manager.c\<close>: a loop that watches the state
  of one peer, reports its changes and, in active mode, connects it again. The thread that runs the
  loop waits on two listeners that share one event bit, one for the application events of the
  station and one for the stop request. The loop is cut at its locks, event operations and waits;
  other threads broadcast, request the stop and change the state of the peer in between. The hooks
  of the application and the call that connects are environment.
\<close>

section \<open>State\<close>

record lm_config =
  lmc_event_mask :: u32
  lmc_retry_interval_ms :: u32
  lmc_mode :: u8
  lmc_active :: bool
  lmc_connect :: bool

datatype lm_pc =
    LmOut
  | LmRegister
  | LmRegisterStop
  | LmNotify lm_pc
  | LmHead
  | LmDecide
  | LmWait "u32 option"
  | LmDrain
  | LmBlocked "u32 option"
  | LmTakeFlags
  | LmStopFlags
  | LmTry
  | LmConnect
  | LmAfter
  | LmDeadline
  | LmUnregisterStop
  | LmUnregister
  | LmDone

record link_manager =
  lm_cfg :: lm_config
  lm_ev :: events
  lm_pc :: lm_pc
  lm_running :: bool
  lm_stop :: bool
  lm_posting :: bool
  lm_posted :: bool
  lm_peer :: peer_state
  lm_last :: peer_state
  lm_retry :: "u32 option"
  lm_now :: u32
  lm_reports :: "peer_state list"

text \<open>The sources \<open>app_es\<close> of the station and \<open>stop_es\<close>, their listeners, and the thread.\<close>

definition lm_app_es :: nat where "lm_app_es = 0"
definition stop_es :: nat where "stop_es = 1"
definition lm_listener :: nat where "lm_listener = 0"
definition stop_listener :: nat where "stop_listener = 1"
definition lm_thread :: nat where "lm_thread = 0"
definition IOHDLC_LINK_MANAGER_STOP_FLAG :: u32 where "IOHDLC_LINK_MANAGER_STOP_FLAG = 0x01"
definition IOHDLC_APP_EVT_MASK_DEFAULT :: u32 where "IOHDLC_APP_EVT_MASK_DEFAULT = 0x80000000"

section \<open>Initialisation\<close>

text \<open>\<open>None\<close> is a failed assertion.\<close>

definition ioHdlcLinkManagerObjectInit :: "station \<Rightarrow> lm_config \<Rightarrow> events \<Rightarrow> peer_state \<Rightarrow> u32 \<Rightarrow> link_manager option" where
  "ioHdlcLinkManagerObjectInit s cfg ev peer now =
     (if lmc_event_mask cfg \<noteq> 0 \<and> lmc_event_mask cfg AND (lmc_event_mask cfg - 1) = 0
        \<and> lmc_event_mask cfg \<noteq> IOHDLC_APP_EVT_MASK_DEFAULT
        \<and> (lmc_active cfg \<longrightarrow> lmc_retry_interval_ms cfg \<noteq> 0)
        \<and> (lmc_active cfg \<longrightarrow> IOHDLC_MODE_TO_UCMD (lmc_mode cfg) \<noteq> 0)
        \<and> (\<not> lmc_active cfg \<or> lmc_connect cfg \<or> \<not> IOHDLC_IS_SEC s \<or> lmc_mode cfg = IOHDLC_OM_ABM)
      then Some \<lparr>lm_cfg = cfg, lm_ev = iohdlc_evt_init stop_es ev, lm_pc = LmOut, lm_running = False, lm_stop = False,
        lm_posting = False, lm_posted = False, lm_peer = peer, lm_last = IOHDLC_PEER_STATE_INVALID, lm_retry = None, lm_now = now,
        lm_reports = []\<rparr>
      else None)"

section \<open>The loop\<close>

definition lm_enter :: "link_manager \<Rightarrow> (errno + bool) \<times> link_manager" where
  "lm_enter m = (if lm_running m then (Inl EBUSY, m)
     else if lm_stop m then (Inr False, m)
     else (Inr True, m\<lparr>lm_running := True, lm_last := IOHDLC_PEER_STATE_INVALID, lm_retry := None,
       lm_reports := [], lm_pc := LmRegister\<rparr>))"

definition notifyState :: "link_manager \<Rightarrow> link_manager" where
  "notifyState m = (if lm_peer m = lm_last m then m
     else m\<lparr>lm_last := lm_peer m, lm_reports := lm_reports m @ [lm_peer m]\<rparr>)"

definition lm_decide :: "link_manager \<Rightarrow> link_manager" where
  "lm_decide m =
     (if \<not> lmc_active (lm_cfg m) \<or> lm_peer m = IOHDLC_PEER_STATE_CONNECTED
      then m\<lparr>lm_retry := None, lm_pc := LmWait None\<rparr>
      else (case lm_retry m of
              None \<Rightarrow> m\<lparr>lm_pc := LmTry\<rparr>
            | Some deadline \<Rightarrow>
                (if sint (lm_now m - deadline) < 0 then m\<lparr>lm_pc := LmWait (Some (deadline - lm_now m))\<rparr>
                 else m\<lparr>lm_retry := None, lm_pc := LmTry\<rparr>)))"

text \<open>The wait of \<open>ioHdlcAppListenerWait\<close> and the reading of the stop flags of \<open>waitEvent\<close>.\<close>

definition lm_wait_begin :: "u32 option \<Rightarrow> link_manager \<Rightarrow> link_manager" where
  "lm_wait_begin tmo m = (let (flags, ev) = evt_get_and_clear_flags lm_listener (lm_ev m) in
     m\<lparr>lm_ev := ev, lm_pc := if flags \<noteq> 0 then LmDrain else LmBlocked tmo\<rparr>)"

definition lm_wait_any :: "lm_pc \<Rightarrow> link_manager \<Rightarrow> link_manager" where
  "lm_wait_any pc m = m\<lparr>lm_ev := snd (iohdlc_evt_wait_any_timeout lm_thread (lmc_event_mask (lm_cfg m)) (lm_ev m)),
     lm_pc := pc\<rparr>"

definition lm_flags :: "nat \<Rightarrow> lm_pc \<Rightarrow> link_manager \<Rightarrow> link_manager" where
  "lm_flags l pc m = m\<lparr>lm_ev := snd (evt_get_and_clear_flags l (lm_ev m)), lm_pc := pc\<rparr>"

definition lm_wanted :: u32 where
  "lm_wanted = IOHDLC_APP_LINK_UP OR IOHDLC_APP_LINK_DOWN OR IOHDLC_APP_LINK_LOST"

text \<open>One step of the thread that runs the loop; \<open>answer\<close> is that of the hook \<open>is_ready\<close>.\<close>

definition lm_step :: "bool \<Rightarrow> link_manager \<Rightarrow> link_manager" where
  "lm_step answer m =
     (let em = lmc_event_mask (lm_cfg m) in
      case lm_pc m of
        LmOut \<Rightarrow> m
      | LmRegister \<Rightarrow> m\<lparr>lm_ev := iohdlc_evt_register lm_app_es lm_listener lm_thread em lm_wanted (lm_ev m),
          lm_pc := LmRegisterStop\<rparr>
      | LmRegisterStop \<Rightarrow>
          m\<lparr>lm_ev := iohdlc_evt_register stop_es stop_listener lm_thread em IOHDLC_LINK_MANAGER_STOP_FLAG (lm_ev m),
          lm_pc := LmNotify LmHead\<rparr>
      | LmNotify pc \<Rightarrow> (notifyState m)\<lparr>lm_pc := pc\<rparr>
      | LmHead \<Rightarrow> m\<lparr>lm_pc := if lm_stop m then LmUnregisterStop else LmDecide\<rparr>
      | LmDecide \<Rightarrow> lm_decide m
      | LmWait tmo \<Rightarrow> lm_wait_begin tmo m
      | LmDrain \<Rightarrow> lm_wait_any LmStopFlags m
      | LmBlocked tmo \<Rightarrow> lm_wait_any LmTakeFlags m
      | LmTakeFlags \<Rightarrow> lm_flags lm_listener LmStopFlags m
      | LmStopFlags \<Rightarrow> lm_flags stop_listener (LmNotify LmHead) m
      | LmTry \<Rightarrow> m\<lparr>lm_pc := if answer then LmConnect else LmDeadline\<rparr>
      | LmConnect \<Rightarrow> m\<lparr>lm_pc := if lm_stop m then LmUnregisterStop else LmNotify LmAfter\<rparr>
      | LmAfter \<Rightarrow> m\<lparr>lm_pc := if lm_peer m = IOHDLC_PEER_STATE_CONNECTED then LmHead else LmDeadline\<rparr>
      | LmDeadline \<Rightarrow> m\<lparr>lm_retry := Some (lm_now m + lmc_retry_interval_ms (lm_cfg m)), lm_pc := LmHead\<rparr>
      | LmUnregisterStop \<Rightarrow> m\<lparr>lm_ev := iohdlc_evt_unregister stop_es stop_listener (lm_ev m), lm_pc := LmUnregister\<rparr>
      | LmUnregister \<Rightarrow> lm_wait_any LmDone (m\<lparr>lm_ev := iohdlc_evt_unregister lm_app_es lm_listener (lm_ev m)\<rparr>)
      | LmDone \<Rightarrow> m\<lparr>lm_running := False, lm_pc := LmOut\<rparr>)"

text \<open>A stop: the flag under the lock, then the broadcast; \<open>lm_posted\<close> notes that it is done.\<close>

definition lm_stop_flag :: "link_manager \<Rightarrow> link_manager" where
  "lm_stop_flag m = m\<lparr>lm_stop := True, lm_posting := True\<rparr>"

definition lm_stop_post :: "link_manager \<Rightarrow> link_manager" where
  "lm_stop_post m = m\<lparr>lm_ev := iohdlc_evt_broadcast_flags stop_es IOHDLC_LINK_MANAGER_STOP_FLAG (lm_ev m),
     lm_posting := False, lm_posted := True\<rparr>"

section \<open>The system\<close>

datatype lm_action =
    LmEnter
  | LmMove bool
  | LmTimeout
  | StopFlag
  | StopPost
  | PeerChange peer_state
  | AppPost u32
  | OtherEvents u32
  | Tick u32

fun lm_enabled :: "lm_action \<Rightarrow> link_manager \<Rightarrow> bool" where
  "lm_enabled LmEnter m = True"
| "lm_enabled (LmMove b) m = (case lm_pc m of
     LmOut \<Rightarrow> False
   | LmBlocked tmo \<Rightarrow> evt_matched lm_thread (lmc_event_mask (lm_cfg m)) (lm_ev m) \<noteq> 0
   | _ \<Rightarrow> True)"
| "lm_enabled LmTimeout m = (case lm_pc m of LmBlocked (Some t) \<Rightarrow> True | _ \<Rightarrow> False)"
| "lm_enabled StopFlag m = True"
| "lm_enabled StopPost m = lm_posting m"
| "lm_enabled (PeerChange st) m = (st \<noteq> IOHDLC_PEER_STATE_INVALID)"
| "lm_enabled (AppPost fl) m = True"
| "lm_enabled (OtherEvents em) m = (em AND lmc_event_mask (lm_cfg m) = 0)"
| "lm_enabled (Tick n) m = True"

fun lm_perform :: "lm_action \<Rightarrow> link_manager \<Rightarrow> link_manager" where
  "lm_perform LmEnter m = snd (lm_enter m)"
| "lm_perform (LmMove b) m = lm_step b m"
| "lm_perform LmTimeout m = m\<lparr>lm_pc := LmStopFlags\<rparr>"
| "lm_perform StopFlag m = lm_stop_flag m"
| "lm_perform StopPost m = lm_stop_post m"
| "lm_perform (PeerChange st) m = m\<lparr>lm_peer := st\<rparr>"
| "lm_perform (AppPost fl) m = m\<lparr>lm_ev := iohdlc_evt_broadcast_flags lm_app_es fl (lm_ev m)\<rparr>"
| "lm_perform (OtherEvents em) m = m\<lparr>lm_ev := snd (iohdlc_evt_wait_any_timeout lm_thread em (lm_ev m))\<rparr>"
| "lm_perform (Tick n) m = m\<lparr>lm_now := lm_now m + n\<rparr>"

inductive lm_reach :: "link_manager \<Rightarrow> bool" where
  start: "ioHdlcLinkManagerObjectInit s cfg ev peer now = Some m \<Longrightarrow> peer \<noteq> IOHDLC_PEER_STATE_INVALID \<Longrightarrow> lm_reach m"
| step: "lm_reach m \<Longrightarrow> lm_enabled a m \<Longrightarrow> lm_reach (lm_perform a m)"

fun lm_run :: "lm_action list \<Rightarrow> link_manager \<Rightarrow> link_manager option" where
  "lm_run [] m = Some m"
| "lm_run (a # as) m = (if lm_enabled a m then lm_run as (lm_perform a m) else None)"

lemma lm_run_reach: "lm_reach m \<Longrightarrow> lm_run as m = Some z \<Longrightarrow> lm_reach z"
  by (induction as arbitrary: m) (auto intro: lm_reach.step split: if_splits)

section \<open>The stop is heard\<close>

definition lm_listening :: "lm_pc \<Rightarrow> bool" where
  "lm_listening pc = (pc \<notin> {LmOut, LmRegister, LmRegisterStop, LmUnregister, LmDone})"

text \<open>From the test of the stop flag to the wait that may block.\<close>

definition lm_may_block :: "lm_pc \<Rightarrow> bool" where
  "lm_may_block pc = (case pc of LmDecide \<Rightarrow> True | LmWait tmo \<Rightarrow> True | LmBlocked tmo \<Rightarrow> True | _ \<Rightarrow> False)"

definition lm_inv :: "link_manager \<Rightarrow> bool" where
  "lm_inv m \<longleftrightarrow> lmc_event_mask (lm_cfg m) \<noteq> 0 \<and> lm_running m = (lm_pc m \<noteq> LmOut)
     \<and> (\<forall>pc. lm_pc m = LmNotify pc \<longrightarrow> pc = LmHead \<or> pc = LmAfter)
     \<and> ev_chain (lm_ev m) stop_es = (if lm_listening (lm_pc m) then [stop_listener] else [])
     \<and> (lm_listening (lm_pc m) \<longrightarrow> el_static (ev_listener (lm_ev m) stop_listener)
          = (lm_thread, lmc_event_mask (lm_cfg m), IOHDLC_LINK_MANAGER_STOP_FLAG))
     \<and> (lm_posted m \<longrightarrow> lm_stop m) \<and> (lm_posting m \<longrightarrow> lm_stop m)
     \<and> (lm_posted m \<and> lm_may_block (lm_pc m) \<longrightarrow> evt_matched lm_thread (lmc_event_mask (lm_cfg m)) (lm_ev m) \<noteq> 0)"

lemma lm_pc_simps [simp]:
  "\<not> lm_listening LmOut" "\<not> lm_listening LmRegister" "\<not> lm_listening LmRegisterStop" "\<not> lm_listening LmUnregister"
  "\<not> lm_listening LmDone" "lm_listening LmHead" "lm_listening LmDecide" "lm_listening LmDrain" "lm_listening LmTakeFlags"
  "lm_listening LmStopFlags" "lm_listening LmTry" "lm_listening LmConnect" "lm_listening LmAfter" "lm_listening LmDeadline"
  "lm_listening LmUnregisterStop" "lm_listening (LmNotify pc)" "lm_listening (LmWait tmo)" "lm_listening (LmBlocked tmo)"
  by (simp_all add: lm_listening_def)

lemma lm_block_simps [simp]:
  "\<not> lm_may_block LmOut" "\<not> lm_may_block LmRegister" "\<not> lm_may_block LmRegisterStop" "\<not> lm_may_block LmUnregister"
  "\<not> lm_may_block LmDone" "\<not> lm_may_block LmHead" "lm_may_block LmDecide" "\<not> lm_may_block LmDrain" "\<not> lm_may_block LmTakeFlags"
  "\<not> lm_may_block LmStopFlags" "\<not> lm_may_block LmTry" "\<not> lm_may_block LmConnect" "\<not> lm_may_block LmAfter"
  "\<not> lm_may_block LmDeadline" "\<not> lm_may_block LmUnregisterStop" "\<not> lm_may_block (LmNotify pc)" "lm_may_block (LmWait tmo)"
  "lm_may_block (LmBlocked tmo)"
  by (simp_all add: lm_may_block_def)

lemma lm_ids [simp]: "lm_app_es \<noteq> stop_es" "stop_es \<noteq> lm_app_es" "lm_listener \<noteq> stop_listener" "stop_listener \<noteq> lm_listener"
  by (simp_all add: lm_app_es_def stop_es_def lm_listener_def stop_listener_def)

lemma chain_register [simp]:
  "ev_chain (iohdlc_evt_register src l t em w ev) x = (if x = src then l # ev_chain ev x else ev_chain ev x)"
  "el_static (ev_listener (iohdlc_evt_register src l t em w ev) y) = (if y = l then (t, em, w) else el_static (ev_listener ev y))"
  "evt_matched t' m (iohdlc_evt_register src l t em w ev) = evt_matched t' m ev"
  by (simp_all add: iohdlc_evt_register_def el_static_def evt_matched_def)

lemma chain_unregister [simp]:
  "ev_chain (iohdlc_evt_unregister src l ev) x = (if x = src then remove1 l (ev_chain ev x) else ev_chain ev x)"
  "evt_matched t m (iohdlc_evt_unregister src l ev) = evt_matched t m ev"
  by (simp_all add: iohdlc_evt_unregister_def evt_matched_def)

lemma matched_take [simp]: "evt_matched t m (snd (evt_get_and_clear_flags l ev)) = evt_matched t m ev"
  by (simp add: evt_matched_def)

lemma lm_inv_step: "lm_inv m \<Longrightarrow> lm_enabled (LmMove b) m \<Longrightarrow> lm_inv (lm_step b m)"
  by (cases "lm_pc m") (auto simp: lm_inv_def lm_step_def Let_def lm_decide_def lm_wait_begin_def lm_wait_any_def lm_flags_def
    notifyState_def split_beta split: option.split)

lemma wait_other_bits:
  assumes "em AND m = 0"
  shows "evt_matched t m (snd (iohdlc_evt_wait_any_timeout t em ev)) = evt_matched t m ev"
proof -
  have "bit (evt_matched t m (snd (iohdlc_evt_wait_any_timeout t em ev))) n = bit (evt_matched t m ev) n" for n
    using arg_cong [OF assms, of "\<lambda>w. bit w n"]
    by (auto simp: iohdlc_evt_wait_any_timeout_def evt_matched_def Let_def bit_and_iff bit_or_iff bit_not_iff dest: bit_imp_le_length)
  then show ?thesis by (simp add: bit_eq_iff)
qed

lemma lm_inv_perform: "lm_inv m \<Longrightarrow> lm_enabled a m \<Longrightarrow> lm_inv (lm_perform a m)"
proof (cases a)
  case (LmMove b)
  then show "lm_inv m \<Longrightarrow> lm_enabled a m \<Longrightarrow> ?thesis" using lm_inv_step by simp
next
  case StopPost
  have s: "has (IOHDLC_LINK_MANAGER_STOP_FLAG AND IOHDLC_LINK_MANAGER_STOP_FLAG) IOHDLC_LINK_MANAGER_STOP_FLAG"
    by (simp add: has_def IOHDLC_LINK_MANAGER_STOP_FLAG_def)
  have "evt_matched lm_thread (lmc_event_mask (lm_cfg m))
      (iohdlc_evt_broadcast_flags stop_es IOHDLC_LINK_MANAGER_STOP_FLAG (lm_ev m)) \<noteq> 0"
    if "lm_inv m" "lm_listening (lm_pc m)"
    by (rule broadcast_wakes [OF _ _ s]) (use that in \<open>auto simp: lm_inv_def\<close>)
  moreover have "lm_may_block (lm_pc m) \<Longrightarrow> lm_listening (lm_pc m)" by (cases "lm_pc m") simp_all
  ultimately show "lm_inv m \<Longrightarrow> lm_enabled a m \<Longrightarrow> ?thesis" using StopPost by (auto simp: lm_inv_def lm_stop_post_def)
next
  case (AppPost fl)
  then show "lm_inv m \<Longrightarrow> lm_enabled a m \<Longrightarrow> ?thesis" by (auto simp: lm_inv_def pending_broadcast)
next
  case LmTimeout
  then show "lm_inv m \<Longrightarrow> lm_enabled a m \<Longrightarrow> ?thesis" by (auto simp: lm_inv_def split: lm_pc.splits)
qed (auto simp: lm_inv_def lm_enter_def lm_stop_flag_def wait_other_bits)

lemma lm_reach_inv: "lm_reach m \<Longrightarrow> lm_inv m"
proof (induction rule: lm_reach.induct)
  case (start s cfg ev peer now m)
  then show ?case by (auto simp: ioHdlcLinkManagerObjectInit_def lm_inv_def iohdlc_evt_init_def split: if_splits)
qed (rule lm_inv_perform)

text \<open>The states reported form no repetition, and the last of them is the state remembered.\<close>

definition lm_told :: "link_manager \<Rightarrow> bool" where
  "lm_told m \<longleftrightarrow> successively (\<noteq>) (IOHDLC_PEER_STATE_INVALID # lm_reports m)
     \<and> last (IOHDLC_PEER_STATE_INVALID # lm_reports m) = lm_last m"

lemma lm_told_notify: "lm_told m \<Longrightarrow> lm_told (notifyState m)"
proof -
  let ?r = "IOHDLC_PEER_STATE_INVALID # lm_reports m"
  assume t: "lm_told m"
  show ?thesis
  proof (cases "lm_peer m = lm_last m")
    case False
    then have "successively (\<noteq>) (?r @ [lm_peer m])"
      using t unfolding lm_told_def successively_append_iff by auto
    then show ?thesis using False by (simp add: lm_told_def notifyState_def)
  qed (use t in \<open>simp add: notifyState_def\<close>)
qed

lemma lm_told_perform: "lm_told m \<Longrightarrow> lm_told (lm_perform a m)"
proof -
  assume t: "lm_told m"
  have step: "lm_told (lm_step b m)" for b
    using t lm_told_notify [OF t]
    by (cases "lm_pc m") (auto simp: lm_told_def lm_step_def Let_def lm_decide_def lm_wait_begin_def lm_wait_any_def
      lm_flags_def split_beta split: option.split)
  show ?thesis using t step
    by (cases a) (auto simp: lm_told_def lm_enter_def lm_stop_flag_def lm_stop_post_def)
qed

lemma lm_reach_told: "lm_reach m \<Longrightarrow> lm_told m"
proof (induction rule: lm_reach.induct)
  case (start s cfg ev peer now m)
  then show ?case by (auto simp: ioHdlcLinkManagerObjectInit_def lm_told_def split: if_splits)
qed (rule lm_told_perform)

section \<open>A stop ends the loop\<close>

text \<open>The steps left, at most, once the stop flag is set and its broadcast done.\<close>

fun lm_left :: "lm_pc \<Rightarrow> nat" where
  "lm_left LmOut = 0"
| "lm_left LmDone = 1"
| "lm_left LmUnregister = 2"
| "lm_left LmUnregisterStop = 3"
| "lm_left LmHead = 4"
| "lm_left LmDeadline = 5"
| "lm_left LmAfter = 6"
| "lm_left (LmNotify pc) = (if pc = LmAfter then 7 else 5)"
| "lm_left LmStopFlags = 6"
| "lm_left LmTakeFlags = 7"
| "lm_left LmDrain = 7"
| "lm_left LmRegisterStop = 6"
| "lm_left LmRegister = 7"
| "lm_left (LmBlocked tmo) = 8"
| "lm_left LmConnect = 8"
| "lm_left (LmWait tmo) = 9"
| "lm_left LmTry = 9"
| "lm_left LmDecide = 10"

definition lm_own :: "lm_action \<Rightarrow> bool" where
  "lm_own a = (case a of LmMove b \<Rightarrow> True | LmTimeout \<Rightarrow> True | _ \<Rightarrow> False)"

lemma lm_left_step: "lm_inv m \<Longrightarrow> lm_stop m \<Longrightarrow> lm_pc m \<noteq> LmOut \<Longrightarrow> lm_left (lm_pc (lm_step b m)) < lm_left (lm_pc m)"
  by (cases "lm_pc m") (auto simp: lm_inv_def lm_step_def Let_def lm_decide_def lm_wait_begin_def lm_wait_any_def lm_flags_def
    notifyState_def split_beta split: option.split)

lemma lm_stop_perform: "lm_stop m \<Longrightarrow> lm_stop (lm_perform a m)"
  by (cases a) (auto simp: lm_enter_def lm_stop_flag_def lm_stop_post_def lm_step_def Let_def lm_decide_def lm_wait_begin_def
    lm_wait_any_def lm_flags_def notifyState_def split_beta split: lm_pc.split option.split)

lemma lm_posted_perform: "lm_posted m \<Longrightarrow> lm_posted (lm_perform a m)"
  by (cases a) (auto simp: lm_enter_def lm_stop_flag_def lm_stop_post_def lm_step_def Let_def lm_decide_def lm_wait_begin_def
    lm_wait_any_def lm_flags_def notifyState_def split_beta split: lm_pc.split option.split)

lemma lm_left_perform:
  assumes "lm_inv m" "lm_stop m" "lm_enabled a m"
  shows "lm_left (lm_pc (lm_perform a m)) + (if lm_own a then 1 else 0) \<le> lm_left (lm_pc m)"
proof (cases a)
  case (LmMove b)
  then have "lm_pc m \<noteq> LmOut" using assms(3) by auto
  from lm_left_step [OF assms(1,2) this, of b] LmMove show ?thesis by (simp add: lm_own_def)
qed (use assms in \<open>auto simp: lm_own_def lm_enter_def lm_stop_flag_def lm_stop_post_def split: lm_pc.splits\<close>)

lemma lm_run_left:
  assumes "lm_reach m" "lm_stop m" "lm_run as m = Some z"
  shows "length (filter lm_own as) + lm_left (lm_pc z) \<le> lm_left (lm_pc m)"
  using assms
proof (induction as arbitrary: m)
  case (Cons a as)
  from Cons.prems(3) have e: "lm_enabled a m" "lm_run as (lm_perform a m) = Some z" by (auto split: if_splits)
  have "length (filter lm_own as) + lm_left (lm_pc z) \<le> lm_left (lm_pc (lm_perform a m))"
    by (rule Cons.IH [OF lm_reach.step [OF Cons.prems(1) e(1)] lm_stop_perform [OF Cons.prems(2)] e(2)])
  then show ?case using lm_left_perform [OF lm_reach_inv [OF Cons.prems(1)] Cons.prems(2) e(1)] by (auto split: if_splits)
qed simp

lemma lm_run_posted: "lm_posted m \<Longrightarrow> lm_run as m = Some z \<Longrightarrow> lm_posted z"
proof (induction as arbitrary: m)
  case (Cons a as)
  then show ?case using Cons.IH [OF lm_posted_perform [OF Cons.prems(1)]] by (simp split: if_splits)
qed simp

text \<open>C37: After \<open>ioHdlcLinkManagerStop\<close> has returned, at any point of the loop and whatever the other
  threads, the peer, the clock, the hooks and the timeouts of the waits do meanwhile: the loop takes
  at most ten more steps, and as long as it has not returned it can take its next step, so it is
  never left blocked; when it has, no listener of it is registered for the stop any more and
  another call may run.\<close>
theorem link_manager_stops:
  assumes "lm_reach m" "lm_posted m" "lm_run as m = Some z"
  shows "length (filter lm_own as) \<le> 10 \<and> (lm_pc z \<noteq> LmOut \<longrightarrow> lm_enabled (LmMove b) z)
    \<and> (lm_pc z = LmOut \<longrightarrow> \<not> lm_running z \<and> ev_chain (lm_ev z) stop_es = [])"
proof -
  have i: "lm_inv m" "lm_inv z"
    using lm_reach_inv [OF assms(1)] lm_reach_inv [OF lm_run_reach [OF assms(1,3)]] .
  have t: "lm_stop m" using i(1) assms(2) by (simp add: lm_inv_def)
  have "lm_left (lm_pc m) \<le> 10" by (cases "lm_pc m") auto
  then have "length (filter lm_own as) \<le> 10" using lm_run_left [OF assms(1) t assms(3)] by linarith
  moreover have "lm_pc z \<noteq> LmOut \<longrightarrow> lm_enabled (LmMove b) z"
    using i(2) lm_run_posted [OF assms(2,3)] by (cases "lm_pc z") (simp_all add: lm_inv_def)
  moreover have "lm_pc z = LmOut \<longrightarrow> \<not> lm_running z \<and> ev_chain (lm_ev z) stop_es = []"
    using i(2) by (auto simp: lm_inv_def)
  ultimately show ?thesis by blast
qed

text \<open>A passive manager, stopped while it waits for an event.\<close>

definition lm_sample_cfg :: lm_config where
  "lm_sample_cfg = \<lparr>lmc_event_mask = 4, lmc_retry_interval_ms = 0, lmc_mode = 0, lmc_active = False, lmc_connect = False\<rparr>"

definition lm_sample_run :: "lm_action list" where
  "lm_sample_run = [LmEnter, LmMove True, LmMove True, LmMove True, LmMove True, LmMove True, LmMove True, StopFlag, StopPost]"

definition lm_sample :: link_manager where
  "lm_sample = \<lparr>lm_cfg = lm_sample_cfg, lm_ev = es_ev ev_start, lm_pc = LmOut, lm_running = False, lm_stop = False,
     lm_posting = False, lm_posted = False, lm_peer = IOHDLC_PEER_STATE_DISCONNECTED, lm_last = IOHDLC_PEER_STATE_INVALID,
     lm_retry = None, lm_now = 50, lm_reports = []\<rparr>"

lemma lm_sample_init:
  "ioHdlcLinkManagerObjectInit s lm_sample_cfg (es_ev ev_start) IOHDLC_PEER_STATE_DISCONNECTED 50 = Some lm_sample"
  by (simp add: ioHdlcLinkManagerObjectInit_def lm_sample_cfg_def lm_sample_def iohdlc_evt_init_def ev_start_def
    stop_es_def IOHDLC_APP_EVT_MASK_DEFAULT_def fun_upd_twist)

lemma lm_sample_waits:
  "case lm_run lm_sample_run lm_sample of None \<Rightarrow> False | Some z \<Rightarrow> lm_pc z = LmBlocked None \<and> lm_posted z"
  by code_simp

theorem link_manager_stops_witness:
  "\<exists>z. lm_run lm_sample_run lm_sample = Some z \<and> lm_pc z = LmBlocked None \<and> lm_enabled (LmMove True) z"
proof -
  obtain z where z: "lm_run lm_sample_run lm_sample = Some z" "lm_pc z = LmBlocked None" "lm_posted z"
    using lm_sample_waits by (auto split: option.splits)
  have "lm_reach lm_sample" by (rule lm_reach.start [OF lm_sample_init]) simp
  from link_manager_stops [OF lm_run_reach [OF this z(1)] z(3), of "[]" z] z show ?thesis by simp
qed

section \<open>The retry deadline\<close>

text \<open>After a failed attempt the next one waits for the interval, if the interval fits a signed difference.\<close>

lemma minus_negative:
  fixes i :: u32
  assumes "i \<noteq> 0" "i \<le> 0x80000000"
  shows "sint (- i) < 0"
proof -
  have "unat (i - 1) < 2 ^ 31" using assms by (simp add: unat_minus_one word_le_nat_alt unat_gt_0)
  then have "\<not> bit (unat (i - 1)) 31" by (simp add: bit_iff_odd)
  then have "bit (- i) 31" by (simp add: minus_eq_not_minus_1 bit_not_iff bit_unsigned_iff)
  then show ?thesis using bit_last_iff [of "- i"] by simp
qed

lemma retry_waits:
  assumes "lmc_active (lm_cfg m)" "lm_peer m \<noteq> IOHDLC_PEER_STATE_CONNECTED" "lm_pc m = LmDeadline"
    "lmc_retry_interval_ms (lm_cfg m) \<noteq> 0" "lmc_retry_interval_ms (lm_cfg m) \<le> 0x80000000"
  shows "lm_pc (lm_decide (lm_step b m)) = LmWait (Some (lmc_retry_interval_ms (lm_cfg m)))"
  using assms minus_negative by (simp add: lm_step_def lm_decide_def Let_def)

text \<open>A longer interval is accepted by the initialisation and never waited for.\<close>

definition long_retry :: lm_config where
  "long_retry = \<lparr>lmc_event_mask = 4, lmc_retry_interval_ms = 0x80000001, lmc_mode = IOHDLC_OM_ABM, lmc_active = True, lmc_connect = False\<rparr>"

theorem long_retry_not_waited:
  "ioHdlcLinkManagerObjectInit s long_retry ev IOHDLC_PEER_STATE_DISCONNECTED now \<noteq> None
   \<and> (lm_cfg m = long_retry \<and> lm_peer m = IOHDLC_PEER_STATE_DISCONNECTED \<and> lm_pc m = LmDeadline
      \<longrightarrow> lm_pc (lm_decide (lm_step b m)) = LmTry)"
proof -
  have "IOHDLC_MODE_TO_UCMD IOHDLC_OM_ABM \<noteq> 0" by code_simp
  moreover have "\<not> sint (- 0x80000001 :: u32) < 0" by (simp add: sint_uint)
  ultimately show ?thesis
    by (simp add: ioHdlcLinkManagerObjectInit_def long_retry_def lm_step_def lm_decide_def Let_def IOHDLC_APP_EVT_MASK_DEFAULT_def)
qed

end
