(* ===== verification/Hdlc_Osal.thy ===== *)
theory Hdlc_Osal
  imports Hdlc_Init
begin

text \<open>
  The virtual timers, the binary semaphore and the clock of \<open>os/linux/src/ioHdlcosal.c\<close>, over POSIX
  timers, mutexes and condition variables with the behaviour POSIX documents. The expiry of a POSIX
  timer starts a thread that runs \<open>timer_signal_handler\<close> when it gets the lock of the timer; other
  threads may set or reset the timer in between. A condition variable may wake a thread without cause.
\<close>

section \<open>Time\<close>

text \<open>Seconds and nanoseconds; the absolute end of a wait of \<open>ms\<close> milliseconds.\<close>

definition timespec_after :: "nat \<Rightarrow> nat \<times> nat \<Rightarrow> nat \<times> nat" where
  "timespec_after ms ts =
     (let sec = fst ts + ms div 1000; nsec = snd ts + (ms mod 1000) * 1000000 in
      if nsec \<ge> 1000000000 then (sec + 1, nsec - 1000000000) else (sec, nsec))"

definition nanoseconds :: "nat \<times> nat \<Rightarrow> nat" where
  "nanoseconds ts = fst ts * 1000000000 + snd ts"

lemma timespec_after_spec:
  assumes "snd ts < 1000000000"
  shows "nanoseconds (timespec_after ms ts) = nanoseconds ts + ms * 1000000" "snd (timespec_after ms ts) < 1000000000"
proof -
  obtain q r where m: "ms = q * 1000 + r" "ms div 1000 = q" "ms mod 1000 = r" "r < 1000"
    by (metis div_mult_mod_eq mod_less_divisor zero_less_numeral)
  show "nanoseconds (timespec_after ms ts) = nanoseconds ts + ms * 1000000" "snd (timespec_after ms ts) < 1000000000"
    using assms m(4) unfolding timespec_after_def nanoseconds_def Let_def m(2,3) unfolding m(1) by (auto simp: algebra_simps)
qed

text \<open>The system time in milliseconds, from the seconds and microseconds of the day; it wraps around.\<close>

definition iohdlc_get_systime :: "nat \<times> nat \<Rightarrow> u32" where
  "iohdlc_get_systime tv = word_of_nat (fst tv * 1000 + snd tv div 1000)"

text \<open>The difference of two times is right across the wrap-around, up to its range.\<close>

lemma systime_difference:
  assumes "fst tv * 1000 + snd tv div 1000 + ms = fst tv' * 1000 + snd tv' div 1000" "ms < 2 ^ 32"
  shows "unat (iohdlc_get_systime tv' - iohdlc_get_systime tv) = ms"
proof -
  have "iohdlc_get_systime tv' = iohdlc_get_systime tv + word_of_nat ms"
    unfolding iohdlc_get_systime_def assms(1) [symmetric] by simp
  then show ?thesis using assms(2) by (simp add: unat_of_nat)
qed

section \<open>Virtual timers\<close>

text \<open>The fields of the timer; the time at which its POSIX timer expires; the handlers that were started
  and wait for the lock; the clock; when the timer was last set to fire; and the calls of the callback,
  each with its time and the time it was due.\<close>

record posix_timer =
  pt_armed :: bool
  pt_expired :: bool
  pt_initialized :: bool
  pt_callback :: "nat option"
  pt_evt_flag :: u32
  pt_posix :: "nat option"
  pt_handlers :: nat
  pt_now :: nat
  pt_due :: nat
  pt_calls :: "(nat \<times> nat) list"
  pt_fault :: bool

text \<open>A time of zero disarms a POSIX timer.\<close>

definition timer_settime :: "nat \<Rightarrow> posix_timer \<Rightarrow> posix_timer" where
  "timer_settime value t = t\<lparr>pt_posix := (if value = 0 then None else Some (pt_now t + value))\<rparr>"

definition posix_vt_init :: "u32 \<Rightarrow> nat \<Rightarrow> posix_timer" where
  "posix_vt_init evt_flag now = \<lparr>pt_armed = False, pt_expired = False, pt_initialized = True, pt_callback = None,
     pt_evt_flag = evt_flag, pt_posix = None, pt_handlers = 0, pt_now = now, pt_due = 0, pt_calls = [], pt_fault = False\<rparr>"

definition it_value :: "u32 \<Rightarrow> nat" where
  "it_value delay_ms = unat delay_ms div 1000 * 1000000000 + unat delay_ms mod 1000 * 1000000"

definition posix_vt_set :: "u32 \<Rightarrow> nat option \<Rightarrow> posix_timer \<Rightarrow> posix_timer" where
  "posix_vt_set delay_ms callback t =
     (let t = (if pt_armed t then timer_settime 0 t else t);
          t = t\<lparr>pt_callback := callback, pt_armed := True, pt_expired := False, pt_due := pt_now t + it_value delay_ms\<rparr>
      in timer_settime (it_value delay_ms) t)"

definition posix_vt_reset :: "posix_timer \<Rightarrow> posix_timer" where
  "posix_vt_reset t =
     (let t = (if pt_armed t then (timer_settime 0 t)\<lparr>pt_armed := False\<rparr> else t) in t\<lparr>pt_expired := False\<rparr>)"

definition posix_vt_is_armed :: "posix_timer \<Rightarrow> bool" where
  "posix_vt_is_armed t = pt_armed t"

text \<open>A handler that has the lock.\<close>

definition timer_signal_handler :: "posix_timer \<Rightarrow> posix_timer" where
  "timer_signal_handler t =
     (let t = t\<lparr>pt_handlers := pt_handlers t - 1\<rparr> in
      if pt_armed t
      then t\<lparr>pt_armed := False, pt_expired := True,
        pt_calls := (if pt_callback t = None then pt_calls t else pt_calls t @ [(pt_now t, pt_due t)])\<rparr>
      else t)"

definition posix_vt_deinit :: "posix_timer \<Rightarrow> posix_timer" where
  "posix_vt_deinit t =
     (if \<not> pt_initialized t then t
      else (timer_settime 0 t)\<lparr>pt_callback := None, pt_armed := False, pt_expired := False, pt_initialized := False\<rparr>)"

datatype vt_act = VtSet u32 "nat option" | VtReset | VtExpire | VtHandler | VtAdvance nat | VtDeinit

text \<open>The lock is gone after the end of the timer: a handler that still waits for it is a fault.\<close>

fun vt_enabled :: "vt_act \<Rightarrow> posix_timer \<Rightarrow> bool" where
  "vt_enabled (VtSet d cb) t = pt_initialized t"
| "vt_enabled VtReset t = pt_initialized t"
| "vt_enabled VtExpire t = (case pt_posix t of None \<Rightarrow> False | Some x \<Rightarrow> x \<le> pt_now t)"
| "vt_enabled VtHandler t = (0 < pt_handlers t)"
| "vt_enabled (VtAdvance n) t = True"
| "vt_enabled VtDeinit t = True"

fun vt_perform :: "vt_act \<Rightarrow> posix_timer \<Rightarrow> posix_timer" where
  "vt_perform (VtSet d cb) t = posix_vt_set d cb t"
| "vt_perform VtReset t = posix_vt_reset t"
| "vt_perform VtExpire t = t\<lparr>pt_posix := None, pt_handlers := pt_handlers t + 1\<rparr>"
| "vt_perform VtHandler t = (timer_signal_handler t)\<lparr>pt_fault := pt_fault t \<or> \<not> pt_initialized t\<rparr>"
| "vt_perform (VtAdvance n) t = t\<lparr>pt_now := pt_now t + n\<rparr>"
| "vt_perform VtDeinit t = posix_vt_deinit t"

fun vt_run :: "vt_act list \<Rightarrow> posix_timer \<Rightarrow> posix_timer option" where
  "vt_run [] t = Some t"
| "vt_run (a # as) t = (if vt_enabled a t then vt_run as (vt_perform a t) else None)"

text \<open>Runs in which a timer is set, with a delay and a callback, when no handler of it waits, and comes to
  its end likewise.\<close>

definition vt_calm_act :: "vt_act \<Rightarrow> posix_timer \<Rightarrow> bool" where
  "vt_calm_act a t = (case a of VtSet d cb \<Rightarrow> pt_handlers t = 0 \<and> d \<noteq> 0 \<and> cb \<noteq> None
     | VtDeinit \<Rightarrow> pt_handlers t = 0 | _ \<Rightarrow> True)"

inductive vt_calm :: "posix_timer \<Rightarrow> bool" where
  start: "vt_calm (posix_vt_init flag now)"
| step: "vt_calm t \<Longrightarrow> vt_enabled a t \<Longrightarrow> vt_calm_act a t \<Longrightarrow> vt_calm (vt_perform a t)"

definition vt_inv :: "posix_timer \<Rightarrow> bool" where
  "vt_inv t \<longleftrightarrow> (\<forall>(at, due) \<in> set (pt_calls t). due \<le> at) \<and> \<not> pt_fault t
     \<and> (if pt_armed t then pt_initialized t \<and> pt_callback t \<noteq> None
          \<and> (pt_posix t = Some (pt_due t) \<and> pt_handlers t = 0 \<or> pt_posix t = None \<and> pt_handlers t = 1 \<and> pt_due t \<le> pt_now t)
        else pt_posix t = None \<and> pt_handlers t \<le> 1)
     \<and> (\<not> pt_initialized t \<longrightarrow> pt_handlers t = 0)"

lemma it_value_pos: "d \<noteq> 0 \<Longrightarrow> it_value d \<noteq> 0"
proof
  assume "d \<noteq> 0" "it_value d = 0"
  then have "unat d div 1000 = 0" "unat d mod 1000 = 0" by (auto simp: it_value_def)
  then have "unat d = 0" by (metis div_mult_mod_eq mult_is_0 add_0)
  then show False using \<open>d \<noteq> 0\<close> by (simp add: unat_eq_zero)
qed

lemma vt_inv_perform: "vt_inv t \<Longrightarrow> vt_enabled a t \<Longrightarrow> vt_calm_act a t \<Longrightarrow> vt_inv (vt_perform a t)"
  by (cases a) (auto simp: vt_inv_def vt_calm_act_def posix_vt_set_def posix_vt_reset_def timer_signal_handler_def
    posix_vt_deinit_def timer_settime_def it_value_pos Let_def split: if_splits option.splits)

lemma vt_calm_inv: "vt_calm t \<Longrightarrow> vt_inv t"
proof (induction rule: vt_calm.induct)
  case (start flag now)
  show ?case by (simp add: vt_inv_def posix_vt_init_def)
qed (rule vt_inv_perform)

text \<open>The timers of the core, which have no clock, are what remains of these when only the two flags are
  looked at; the expiry there is the handler here.\<close>

definition vt_like :: "posix_timer \<Rightarrow> vtimer \<Rightarrow> bool" where
  "vt_like t v \<longleftrightarrow> pt_armed t = t_armed v \<and> pt_expired t = t_expired v"

lemma posix_vt_refines:
  assumes "vt_like t v"
  shows "vt_like (posix_vt_set d cb t) (iohdlc_vt_set d v)"
    "vt_like (posix_vt_reset t) (iohdlc_vt_reset v)"
    "posix_vt_is_armed t = iohdlc_vt_is_armed v"
    "pt_armed t \<Longrightarrow> vt_like (timer_signal_handler t) (v\<lparr>t_armed := False, t_expired := True\<rparr>)"
    "\<not> pt_armed t \<Longrightarrow> vt_like (timer_signal_handler t) v"
  using assms by (auto simp: vt_like_def posix_vt_set_def posix_vt_reset_def posix_vt_is_armed_def timer_signal_handler_def
    timer_settime_def iohdlc_vt_set_def iohdlc_vt_reset_def iohdlc_vt_is_armed_def Let_def)

text \<open>No callback without a set: while the timer is only reset, not set, nothing is called.\<close>

lemma vt_reset_silent:
  assumes "vt_run as t = Some z" "\<not> pt_armed t" "\<forall>d cb. VtSet d cb \<notin> set as"
  shows "pt_calls z = pt_calls t \<and> \<not> pt_armed z"
  using assms
proof (induction as arbitrary: t)
  case (Cons a as)
  then have r: "vt_run as (vt_perform a t) = Some z" by (simp split: if_splits)
  have "pt_calls (vt_perform a t) = pt_calls t \<and> \<not> pt_armed (vt_perform a t)"
    using Cons.prems(2,3) by (cases a) (auto simp: posix_vt_reset_def timer_signal_handler_def posix_vt_deinit_def
      timer_settime_def Let_def)
  then show ?case using Cons.IH [OF r] Cons.prems(3) by simp
qed simp


definition vt_sample :: "vt_act list" where
  "vt_sample = [VtSet 5 (Some 1), VtAdvance 5000000, VtExpire]"


text \<open>
  Without the condition a timer fires early: a handler started by an expiry finds the timer armed again
  by a thread that set it in between, and takes the new setting for its own. A timer set with no delay
  is armed and never fires, and a handler under way outlives the end of the timer.
\<close>

theorem vt_fires_early:
  "\<exists>t. vt_run [VtSet 1000 (Some 1), VtAdvance 1000000000, VtExpire, VtSet 5000 (Some 1), VtHandler] (posix_vt_init 1 0) = Some t
     \<and> pt_calls t = [(1000000000, 6000000000)] \<and> \<not> pt_armed t \<and> pt_posix t = Some 6000000000"
  by (simp add: posix_vt_set_def posix_vt_init_def timer_settime_def it_value_def timer_signal_handler_def Let_def)

theorem vt_no_delay_never_fires:
  "\<exists>t. vt_run [VtSet 0 (Some 1), VtAdvance n] (posix_vt_init 1 0) = Some t
     \<and> pt_armed t \<and> \<not> vt_enabled VtExpire t \<and> \<not> vt_enabled VtHandler t"
  by (simp add: posix_vt_set_def posix_vt_init_def timer_settime_def it_value_def Let_def)

theorem vt_handler_after_deinit:
  "\<exists>t. vt_run [VtSet 1 (Some 1), VtAdvance 1000000, VtExpire, VtDeinit, VtHandler] (posix_vt_init 1 0) = Some t \<and> pt_fault t"
  by (simp add: posix_vt_set_def posix_vt_init_def timer_settime_def it_value_def timer_signal_handler_def
    posix_vt_deinit_def Let_def)

section \<open>Binary semaphores\<close>

text \<open>The flag; the threads that wait on the condition variable, each with whether its wait is timed; the
  threads woken from it that wait for the mutex; and the numbers of signals and of successful waits so
  far. Each step is what a thread does from taking the mutex to leaving it, by its end or by waiting. A
  signal of the condition variable wakes at least one of the threads that wait on it; a thread may also
  wake without cause; and a timed wait may return \<open>ETIMEDOUT\<close>, which then has not used up a signal.\<close>

definition IOHDLC_TIME_INFINITE :: u32 where "IOHDLC_TIME_INFINITE = 0xFFFFFFFF"
definition IOHDLC_TIME_IMMEDIATE :: u32 where "IOHDLC_TIME_IMMEDIATE = 0"

record bsem =
  bs_signaled :: bool
  bs_waiting :: "(nat \<times> bool) list"
  bs_woken :: "(nat \<times> bool) list"
  bs_signals :: nat
  bs_passed :: nat

definition iohdlc_bsem_init :: "bool \<Rightarrow> bsem" where
  "iohdlc_bsem_init taken = \<lparr>bs_signaled = \<not> taken, bs_waiting = [], bs_woken = [], bs_signals = 0, bs_passed = 0\<rparr>"

definition bsem_wake :: "nat set \<Rightarrow> bsem \<Rightarrow> bsem" where
  "bsem_wake ths b = b\<lparr>bs_waiting := [w \<leftarrow> bs_waiting b. fst w \<notin> ths],
     bs_woken := bs_woken b @ [w \<leftarrow> bs_waiting b. fst w \<in> ths]\<rparr>"

definition iohdlc_bsem_signal :: "nat set \<Rightarrow> bsem \<Rightarrow> bsem" where
  "iohdlc_bsem_signal ths b = bsem_wake ths (b\<lparr>bs_signaled := True, bs_signals := bs_signals b + 1\<rparr>)"

definition bsem_consume :: "bsem \<Rightarrow> bsem" where
  "bsem_consume b = b\<lparr>bs_signaled := False, bs_passed := bs_passed b + 1\<rparr>"

text \<open>The test of the loops: the wait succeeds, or the thread goes on to wait.\<close>

definition bsem_test :: "nat \<times> bool \<Rightarrow> bsem \<Rightarrow> (errno + unit) option \<times> bsem" where
  "bsem_test w b = (if bs_signaled b then (Some (Inr ()), bsem_consume b) else (None, b\<lparr>bs_waiting := bs_waiting b @ [w]\<rparr>))"

definition iohdlc_bsem_wait_timeout :: "nat \<Rightarrow> u32 \<Rightarrow> bsem \<Rightarrow> (errno + unit) option \<times> bsem" where
  "iohdlc_bsem_wait_timeout th timeout b =
     (if timeout = IOHDLC_TIME_INFINITE then bsem_test (th, False) b
      else if timeout = IOHDLC_TIME_IMMEDIATE then
        (if \<not> bs_signaled b then (Some (Inl ETIMEDOUT), b) else (Some (Inr ()), bsem_consume b))
      else bsem_test (th, True) b)"

text \<open>A woken thread has the mutex again; a timed wait is over.\<close>

definition bsem_resume :: "nat \<times> bool \<Rightarrow> bsem \<Rightarrow> (errno + unit) option \<times> bsem" where
  "bsem_resume w b = bsem_test w (b\<lparr>bs_woken := remove1 w (bs_woken b)\<rparr>)"

definition bsem_timed_out :: "nat \<times> bool \<Rightarrow> bsem \<Rightarrow> (errno + unit) option \<times> bsem" where
  "bsem_timed_out w b = (Some (Inl ETIMEDOUT), b\<lparr>bs_waiting := remove1 w (bs_waiting b)\<rparr>)"

datatype bsem_act = BsSignal "nat set" | BsWait nat u32 | BsSpurious nat | BsResume "nat \<times> bool" | BsTimeout "nat \<times> bool"

fun bsem_enabled :: "bsem_act \<Rightarrow> bsem \<Rightarrow> bool" where
  "bsem_enabled (BsSignal ths) b = (bs_waiting b = [] \<or> (\<exists>w \<in> set (bs_waiting b). fst w \<in> ths))"
| "bsem_enabled (BsWait th timeout) b = (\<forall>w \<in> set (bs_waiting b @ bs_woken b). fst w \<noteq> th)"
| "bsem_enabled (BsSpurious th) b = True"
| "bsem_enabled (BsResume w) b = (w \<in> set (bs_woken b))"
| "bsem_enabled (BsTimeout w) b = (w \<in> set (bs_waiting b) \<and> snd w)"

fun bsem_perform :: "bsem_act \<Rightarrow> bsem \<Rightarrow> (errno + unit) option \<times> bsem" where
  "bsem_perform (BsSignal ths) b = (None, iohdlc_bsem_signal ths b)"
| "bsem_perform (BsWait th timeout) b = iohdlc_bsem_wait_timeout th timeout b"
| "bsem_perform (BsSpurious th) b = (None, bsem_wake {th} b)"
| "bsem_perform (BsResume w) b = bsem_resume w b"
| "bsem_perform (BsTimeout w) b = bsem_timed_out w b"

inductive bsem_reachable :: "bool \<Rightarrow> bsem \<Rightarrow> bool" for taken where
  start: "bsem_reachable taken (iohdlc_bsem_init taken)"
| step: "bsem_reachable taken b \<Longrightarrow> bsem_enabled a b \<Longrightarrow> bsem_reachable taken (snd (bsem_perform a b))"

definition bsem_inv :: "bool \<Rightarrow> bsem \<Rightarrow> bool" where
  "bsem_inv taken b \<longleftrightarrow> (bs_signaled b \<and> bs_waiting b \<noteq> [] \<longrightarrow> bs_woken b \<noteq> [])
     \<and> bs_passed b + of_bool (bs_signaled b) \<le> bs_signals b + of_bool (\<not> taken)"

lemma bsem_inv_test: "bs_passed b + of_bool (bs_signaled b) \<le> bs_signals b + of_bool (\<not> taken) \<Longrightarrow> bsem_inv taken (snd (bsem_test w b))"
  by (auto simp: bsem_inv_def bsem_test_def bsem_consume_def)

lemma bsem_inv_perform: "bsem_inv taken b \<Longrightarrow> bsem_enabled a b \<Longrightarrow> bsem_inv taken (snd (bsem_perform a b))"
proof (cases a)
  case (BsSignal ths)
  then show "bsem_inv taken b \<Longrightarrow> bsem_enabled a b \<Longrightarrow> ?thesis"
    by (auto simp: bsem_inv_def iohdlc_bsem_signal_def bsem_wake_def filter_empty_conv split: if_splits)
next
  case (BsWait th timeout)
  then show "bsem_inv taken b \<Longrightarrow> bsem_enabled a b \<Longrightarrow> ?thesis"
    using bsem_inv_test [of b taken] by (auto simp: bsem_inv_def iohdlc_bsem_wait_timeout_def bsem_consume_def)
next
  case (BsSpurious th)
  then show "bsem_inv taken b \<Longrightarrow> bsem_enabled a b \<Longrightarrow> ?thesis"
    by (auto simp: bsem_inv_def bsem_wake_def filter_empty_conv)
next
  case (BsResume w)
  then show "bsem_inv taken b \<Longrightarrow> bsem_enabled a b \<Longrightarrow> ?thesis"
    using bsem_inv_test [of "b\<lparr>bs_woken := remove1 w (bs_woken b)\<rparr>" taken w] by (simp add: bsem_inv_def [of taken b] bsem_resume_def)
next
  case (BsTimeout w)
  then show "bsem_inv taken b \<Longrightarrow> bsem_enabled a b \<Longrightarrow> ?thesis"
    by (cases "bs_waiting b") (auto simp: bsem_inv_def bsem_timed_out_def)
qed

text \<open>Waits that succeed do not outnumber the signals, and a signal that finds threads waiting is not lost:
  a woken thread is on its way, and the first to get the mutex takes the signal.\<close>

theorem bsem_no_lost_wakeup:
  assumes "bsem_reachable taken b"
  shows "bs_passed b \<le> bs_signals b + of_bool (\<not> taken)"
    and "bs_signaled b \<Longrightarrow> bs_waiting b \<noteq> [] \<Longrightarrow> \<exists>w. bsem_enabled (BsResume w) b"
    and "bs_signaled b \<Longrightarrow> bsem_enabled (BsResume w) b \<Longrightarrow> fst (bsem_perform (BsResume w) b) = Some (Inr ())"
proof -
  have i: "bsem_inv taken b" using assms
  proof induction
    case start
    show ?case by (simp add: bsem_inv_def iohdlc_bsem_init_def)
  qed (rule bsem_inv_perform)
  then show "bs_passed b \<le> bs_signals b + of_bool (\<not> taken)" by (simp add: bsem_inv_def)
  show "bs_signaled b \<Longrightarrow> bs_waiting b \<noteq> [] \<Longrightarrow> \<exists>w. bsem_enabled (BsResume w) b"
    using i by (cases "bs_woken b") (auto simp: bsem_inv_def)
  show "bs_signaled b \<Longrightarrow> bsem_enabled (BsResume w) b \<Longrightarrow> fst (bsem_perform (BsResume w) b) = Some (Inr ())"
    by (simp add: bsem_resume_def bsem_test_def)
qed

end
