(* ===== verification/Hdlc_Port.thy ===== *)
theory Hdlc_Port
  imports Hdlc_Driver
begin

text \<open>
  The interface of a stream port (\<open>include/ioHdlcstreamport.h\<close>): the callbacks of the driver, the
  error flags, and, as a locale, what the transmit pipeline of the software driver relies on when it
  asks \<open>tx_busy\<close> and then calls \<open>tx_submit_frame\<close>. The ports of \<open>os/chibios\<close> are in the theories
  that interpret it.
\<close>

section \<open>Callbacks and errors\<close>

definition IOHDLC_STREAM_ERR_OVERRUN :: u32 where "IOHDLC_STREAM_ERR_OVERRUN = 0x01"
definition IOHDLC_STREAM_ERR_FRAMING :: u32 where "IOHDLC_STREAM_ERR_FRAMING = 0x02"
definition IOHDLC_STREAM_ERR_PARITY :: u32 where "IOHDLC_STREAM_ERR_PARITY = 0x04"
definition IOHDLC_STREAM_ERR_OTHER :: u32 where "IOHDLC_STREAM_ERR_OTHER = 0x10"
definition IOHDLC_PORT_AST_TX_DONE_IN_ISR :: u32 where "IOHDLC_PORT_AST_TX_DONE_IN_ISR = 8"

text \<open>The calls of the callbacks, with the number of the frame where there is one.\<close>

datatype stream_event =
    on_rx
  | on_tx_done "nat option"
  | on_tx_error_i "nat option" u32
  | on_tx_ready_i
  | on_rx_error u32

text \<open>The frames whose transmission was reported as done or failed, in order.\<close>

fun reported :: "stream_event list \<Rightarrow> nat list" where
  "reported [] = []"
| "reported (on_tx_done (Some f) # es) = f # reported es"
| "reported (on_tx_error_i (Some f) e # es) = f # reported es"
| "reported (e # es) = reported es"

lemma reported_append [simp]: "reported (xs @ ys) = reported xs @ reported ys"
  by (induction xs rule: reported.induct) simp_all

definition opt_list :: "'a option \<Rightarrow> 'a list" where
  "opt_list x = (case x of None \<Rightarrow> [] | Some a \<Rightarrow> [a])"

lemma opt_list_simps [simp]: "opt_list None = []" "opt_list (Some a) = [a]"
  by (simp_all add: opt_list_def)

lemma reported_one [simp]: "reported [on_tx_done x] = opt_list x" "reported [on_tx_error_i x e] = opt_list x"
  by (cases x; simp)+

text \<open>What a port sends for a frame: the image the driver has prepared, after the opening flag.\<close>

definition port_image :: "frame \<Rightarrow> u8 list" where
  "port_image fm = (if f_openingflag fm = IOHDLC_FLAG then [IOHDLC_FLAG] else []) @ take (unat (f_tx_len fm)) (f_bytes fm)"

lemma port_image_wire: "f_openingflag fm \<in> {0, IOHDLC_FLAG} \<Longrightarrow> port_image fm = wire_image fm"
  by (auto simp: port_image_def wire_image_def IOHDLC_FLAG_def)

section \<open>What the transmit pipeline relies on\<close>

definition answer_code :: "errno option \<Rightarrow> int" where
  "answer_code r = (case r of None \<Rightarrow> 0 | Some e \<Rightarrow> if e = EAGAIN then 11 else if e = EBUSY then 16 else 5)"

locale stream_port =
  fixes ok :: "'p \<Rightarrow> bool" and busy :: "'p \<Rightarrow> bool" and submit :: "frame \<Rightarrow> nat \<Rightarrow> 'p \<Rightarrow> errno option \<times> 'p"
  assumes accepts: "ok p \<Longrightarrow> \<not> busy p \<Longrightarrow> port_image fm \<noteq> [] \<Longrightarrow> fst (submit fm f p) = None"
    and taken: "ok p \<Longrightarrow> \<not> busy p \<Longrightarrow> port_image fm \<noteq> [] \<Longrightarrow> busy (snd (submit fm f p))"
begin

text \<open>With the answers of such a port no frame is refused: none is given up by the pipeline, and a
  frame that is ready starts when the port is free.\<close>

lemma next_not_given_up:
  assumes "ok p" "port_image fm \<noteq> []"
  shows "fst (s_try_start_next_tx_i b (d\<lparr>sd_busy := [busy p], sd_submit := [answer_code (fst (submit fm f p))]\<rparr>)) = None"
  using assms accepts [of p fm f]
  by (auto simp: s_try_start_next_tx_i_def tx_busy_def tx_submit_frame_def answer_code_def Let_def sd_upd_def
    split: option.split list.split)

lemma next_starts:
  assumes "ok p" "\<not> busy p" "port_image fm \<noteq> []" "sd_inflight d = None" "sd_raw_q d = f # fs"
  shows "sd_inflight (snd (s_try_start_next_tx_i b (d\<lparr>sd_busy := [busy p], sd_submit := [answer_code (fst (submit fm f p))]\<rparr>))) = Some f"
  using assms accepts [of p fm f]
  by (simp add: s_try_start_next_tx_i_def tx_busy_def tx_submit_frame_def answer_code_def Let_def sd_upd_def)

end

end
