(* ===== verification/Hdlc_Uart.thy ===== *)
theory Hdlc_Uart
  imports Hdlc_Port
begin

text \<open>
  The UART stream port of \<open>os/chibios/src/ioHdlcstream_uart.c\<close> over a ChibiOS UART driver, which is
  represented by its two states and by the documented effect of its calls: a start makes a side
  active and must find it not active, the end of a transfer makes it complete and, after the
  callback, idle unless the callback has started another one. Pointers are numbers. The interrupt
  handlers are cut at the callback into the software driver; in between the driver calls the port.
\<close>

section \<open>State\<close>

datatype uart_tx = UART_TX_IDLE | UART_TX_ACTIVE | UART_TX_COMPLETE
datatype uart_rx = UART_RX_IDLE | UART_RX_ACTIVE | UART_RX_COMPLETE

text \<open>The callback in progress.\<close>

datatype uart_isr = UartNone | UartTxDone | UartRx | UartRxError

text \<open>\<open>up_inflight\<close> and \<open>up_armed\<close> are what the driver knows: the frame it has handed over and not got
  back, and whether a buffer of it is with the port. The last fields record frames and calls.\<close>

record uart =
  up_started :: bool
  up_txstate :: uart_tx
  up_rxstate :: uart_rx
  up_tx_framep :: "nat option"
  up_rx_ptr :: "nat option"
  up_rx_n :: nat
  up_caps :: stream_caps
  up_isr :: uart_isr
  up_fault :: bool
  up_inflight :: "nat option"
  up_armed :: bool
  up_taken :: "nat list"
  up_wire :: "u8 list list"
  up_told :: "stream_event list"

definition chibios_uart_caps :: stream_caps where
  "chibios_uart_caps = \<lparr>sc_constraints = 0, sc_assists = IOHDLC_PORT_AST_TX_DONE_IN_ISR OR IOHDLC_PORT_AST_TX_NEEDS_CONTIG,
     sc_offload = [0, 0, 0, 0]\<rparr>"

definition ioHdlcStreamPortChibiosUartObjectInit :: uart where
  "ioHdlcStreamPortChibiosUartObjectInit = \<lparr>up_started = False, up_txstate = UART_TX_IDLE, up_rxstate = UART_RX_IDLE,
     up_tx_framep = None, up_rx_ptr = None, up_rx_n = 0, up_caps = chibios_uart_caps, up_isr = UartNone, up_fault = False,
     up_inflight = None, up_armed = False, up_taken = [], up_wire = [], up_told = []\<rparr>"

definition chb_start :: "uart \<Rightarrow> uart" where
  "chb_start u = u\<lparr>up_tx_framep := None, up_started := True, up_txstate := UART_TX_IDLE, up_rxstate := UART_RX_IDLE\<rparr>"

definition chb_stop :: "uart \<Rightarrow> uart" where
  "chb_stop u = u\<lparr>up_started := False, up_txstate := UART_TX_IDLE, up_rxstate := UART_RX_IDLE\<rparr>"

section \<open>Transmission\<close>

definition chb_tx_busy :: "uart \<Rightarrow> bool" where
  "chb_tx_busy u = (up_tx_framep u \<noteq> None \<or> up_txstate u = UART_TX_ACTIVE)"

definition chb_tx_submit :: "u8 list \<Rightarrow> nat \<Rightarrow> uart \<Rightarrow> uart" where
  "chb_tx_submit octets cookie u =
     u\<lparr>up_fault := up_fault u \<or> octets = [] \<or> chb_tx_busy u, up_tx_framep := Some cookie, up_txstate := UART_TX_ACTIVE,
       up_wire := up_wire u @ [octets]\<rparr>"

definition chb_tx_submit_frame :: "frame \<Rightarrow> nat \<Rightarrow> uart \<Rightarrow> errno option \<times> uart" where
  "chb_tx_submit_frame fm f u =
     (if chb_tx_busy u then (Some EAGAIN, u) else (None, chb_tx_submit (port_image fm) f u))"

definition chb_txend_cb :: "uart \<Rightarrow> uart" where
  "chb_txend_cb u = (let done_fp = up_tx_framep u in
     u\<lparr>up_txstate := UART_TX_COMPLETE, up_tx_framep := None, up_told := up_told u @ [on_tx_done done_fp],
       up_inflight := (if up_inflight u = done_fp then None else up_inflight u), up_isr := UartTxDone\<rparr>)"

section \<open>Reception\<close>

definition chb_rx_submit :: "nat \<Rightarrow> nat \<Rightarrow> uart \<Rightarrow> bool \<times> uart" where
  "chb_rx_submit ptr len u =
     (if up_rxstate u = UART_RX_ACTIVE then (False, u\<lparr>up_fault := up_fault u \<or> len = 0\<rparr>)
      else (True, u\<lparr>up_fault := up_fault u \<or> len = 0, up_rx_ptr := Some ptr, up_rx_n := len, up_rxstate := UART_RX_ACTIVE\<rparr>))"

definition chb_rx_cancel :: "uart \<Rightarrow> uart" where
  "chb_rx_cancel u = u\<lparr>up_rxstate := UART_RX_IDLE, up_rx_ptr := None, up_rx_n := 0\<rparr>"

definition chb_rxend_cb :: "uart \<Rightarrow> uart" where
  "chb_rxend_cb u = u\<lparr>up_rxstate := UART_RX_COMPLETE, up_rx_ptr := None, up_rx_n := 0, up_told := up_told u @ [on_rx],
     up_armed := False, up_isr := UartRx\<rparr>"

text \<open>The flags of the UART driver: parity, framing and overrun error.\<close>

definition rx_error_mask :: "bool \<Rightarrow> bool \<Rightarrow> bool \<Rightarrow> u32" where
  "rx_error_mask parity framing overrun =
     (let m = (if parity then IOHDLC_STREAM_ERR_PARITY else 0) OR (if framing then IOHDLC_STREAM_ERR_FRAMING else 0)
            OR (if overrun then IOHDLC_STREAM_ERR_OVERRUN else 0)
      in if m = 0 then IOHDLC_STREAM_ERR_OTHER else m)"

definition chb_rxerr_cb :: "bool \<Rightarrow> bool \<Rightarrow> bool \<Rightarrow> uart \<Rightarrow> uart" where
  "chb_rxerr_cb parity framing overrun u =
     u\<lparr>up_told := up_told u @ [on_rx_error (rx_error_mask parity framing overrun)], up_isr := UartRxError\<rparr>"

definition chb_timeout_cb :: "uart \<Rightarrow> uart" where
  "chb_timeout_cb u = u\<lparr>up_told := up_told u @ [on_rx_error IOHDLC_STREAM_ERR_TMO], up_isr := UartRxError\<rparr>"

text \<open>Every error the driver is told has a flag, and only the timeout has that of the timeout.\<close>

lemma rx_error_mask_flags:
  "rx_error_mask p f v \<noteq> 0 \<and> \<not> has (rx_error_mask p f v) IOHDLC_STREAM_ERR_TMO"
  by (cases p; cases f; cases v)
    (simp_all add: rx_error_mask_def has_def IOHDLC_STREAM_ERR_TMO_def IOHDLC_STREAM_ERR_OTHER_def IOHDLC_STREAM_ERR_PARITY_def
      IOHDLC_STREAM_ERR_FRAMING_def IOHDLC_STREAM_ERR_OVERRUN_def)

section \<open>The port between the driver and the hardware\<close>

text \<open>
  The driver hands a frame over only when it has none with the port and the port is not busy, and a
  buffer only when it has none there; after a callback about reception it always has one there. A
  frame is submitted by a thread or in the callback of a transmission.
\<close>

datatype uart_act =
    UartStart
  | UartSubmit frame nat
  | UartTxEnd
  | UartRxEnd
  | UartRxErr bool bool bool
  | UartTimeout
  | UartArm nat nat
  | UartCancel
  | UartReturn
  | UartStop

fun uart_enabled :: "uart_act \<Rightarrow> uart \<Rightarrow> bool" where
  "uart_enabled UartStart u = (\<not> up_started u)"
| "uart_enabled (UartSubmit fm f) u = (up_started u \<and> up_isr u \<in> {UartNone, UartTxDone} \<and> up_inflight u = None
     \<and> \<not> chb_tx_busy u \<and> port_image fm \<noteq> [])"
| "uart_enabled UartTxEnd u = (up_isr u = UartNone \<and> up_txstate u = UART_TX_ACTIVE)"
| "uart_enabled UartRxEnd u = (up_isr u = UartNone \<and> up_rxstate u = UART_RX_ACTIVE)"
| "uart_enabled (UartRxErr p fr ov) u = (up_isr u = UartNone \<and> up_rxstate u = UART_RX_ACTIVE)"
| "uart_enabled UartTimeout u = (up_isr u = UartNone \<and> up_rxstate u = UART_RX_ACTIVE)"
| "uart_enabled (UartArm ptr n) u = (up_started u \<and> up_isr u \<in> {UartNone, UartRx, UartRxError} \<and> \<not> up_armed u \<and> n \<noteq> 0)"
| "uart_enabled UartCancel u = (up_isr u = UartRxError \<and> up_armed u)"
| "uart_enabled UartReturn u = (up_isr u \<noteq> UartNone \<and> (up_isr u \<in> {UartRx, UartRxError} \<longrightarrow> up_armed u))"
| "uart_enabled UartStop u = (up_started u \<and> up_isr u = UartNone)"

text \<open>The end of a callback; after the stop of the port the driver takes its frame back itself.\<close>

definition uart_return :: "uart \<Rightarrow> uart" where
  "uart_return u = u\<lparr>up_isr := UartNone,
     up_txstate := (if up_txstate u = UART_TX_COMPLETE then UART_TX_IDLE else up_txstate u),
     up_rxstate := (if up_rxstate u = UART_RX_COMPLETE then UART_RX_IDLE else up_rxstate u)\<rparr>"

definition uart_stopped :: "uart \<Rightarrow> uart" where
  "uart_stopped u = (chb_stop u)\<lparr>up_told := up_told u @ [on_tx_error_i (up_inflight u) 0], up_inflight := None, up_armed := False\<rparr>"

fun uart_perform :: "uart_act \<Rightarrow> uart \<Rightarrow> uart" where
  "uart_perform UartStart u = chb_start u"
| "uart_perform (UartSubmit fm f) u = (let (r, v) = chb_tx_submit_frame fm f u in
     if r = None then v\<lparr>up_inflight := Some f, up_taken := up_taken u @ [f]\<rparr> else v\<lparr>up_fault := True\<rparr>)"
| "uart_perform UartTxEnd u = chb_txend_cb u"
| "uart_perform UartRxEnd u = chb_rxend_cb u"
| "uart_perform (UartRxErr p fr ov) u = chb_rxerr_cb p fr ov u"
| "uart_perform UartTimeout u = chb_timeout_cb u"
| "uart_perform (UartArm ptr n) u = (let (r, v) = chb_rx_submit ptr n u in v\<lparr>up_armed := True, up_fault := up_fault v \<or> \<not> r\<rparr>)"
| "uart_perform UartCancel u = (chb_rx_cancel u)\<lparr>up_armed := False\<rparr>"
| "uart_perform UartReturn u = uart_return u"
| "uart_perform UartStop u = uart_stopped u"

inductive uart_reach :: "uart \<Rightarrow> bool" where
  start: "uart_reach ioHdlcStreamPortChibiosUartObjectInit"
| step: "uart_reach u \<Longrightarrow> uart_enabled a u \<Longrightarrow> uart_reach (uart_perform a u)"

definition uart_inv :: "uart \<Rightarrow> bool" where
  "uart_inv u \<longleftrightarrow> \<not> up_fault u \<and> up_taken u = reported (up_told u) @ opt_list (up_inflight u)
     \<and> (up_started u \<longrightarrow> up_tx_framep u = up_inflight u \<and> (up_inflight u \<noteq> None) = (up_txstate u = UART_TX_ACTIVE))
     \<and> up_armed u = (up_rxstate u = UART_RX_ACTIVE) \<and> (\<not> up_started u \<longrightarrow> up_isr u = UartNone \<and> \<not> up_armed u
        \<and> up_inflight u = None \<and> up_txstate u = UART_TX_IDLE)"

lemma uart_inv_perform: "uart_inv u \<Longrightarrow> uart_enabled a u \<Longrightarrow> uart_inv (uart_perform a u)"
  by (cases a) (auto simp: uart_inv_def chb_start_def chb_tx_submit_frame_def chb_tx_submit_def chb_tx_busy_def chb_txend_cb_def
    chb_rxend_cb_def chb_rxerr_cb_def chb_timeout_cb_def chb_rx_submit_def chb_rx_cancel_def uart_return_def uart_stopped_def
    chb_stop_def Let_def)

lemma uart_reach_inv: "uart_reach u \<Longrightarrow> uart_inv u"
proof (induction rule: uart_reach.induct)
  case start
  show ?case by (simp add: uart_inv_def ioHdlcStreamPortChibiosUartObjectInit_def)
qed (rule uart_inv_perform)

text \<open>No assertion of the port fails; every frame taken is reported once, in order, but for the one that
  is being sent; and between the callbacks the driver's buffer is being filled.\<close>

lemma uart_frames_reported:
  "uart_reach u \<Longrightarrow> \<not> up_fault u \<and> up_taken u = reported (up_told u) @ opt_list (up_inflight u)
     \<and> up_armed u = (up_rxstate u = UART_RX_ACTIVE)"
  using uart_reach_inv [of u] by (simp add: uart_inv_def)

interpretation uart_port: stream_port up_started chb_tx_busy chb_tx_submit_frame
  by unfold_locales (simp_all add: chb_tx_submit_frame_def chb_tx_submit_def chb_tx_busy_def)

end
