(* ===== verification/Hdlc_Spi.thy ===== *)
theory Hdlc_Spi
  imports Hdlc_Port
begin

text \<open>
  The SPI stream port of \<open>os/chibios/src/ioHdlcstream_spi.c\<close>. Transmission and reception exclude each
  other. A slave raises the line DATA_READY while it has a frame to send; a master reads only after a
  rising edge of the line. The ChibiOS SPI driver is represented by the transfer it has in progress:
  a start must find none, a stop and a platform abort leave none. Chip select, cache maintenance and
  the platform hooks that only prepare registers are left out; the answers of the hooks that return
  one are arguments. Buffers and frames are numbers.

  The interrupt handlers, and the submission of a frame that gives up a pending reception, are cut at
  the callback into the software driver, which calls the port from there.
\<close>

section \<open>State\<close>

datatype spi_hw = SpiIdle | SpiSending "u8 list" | SpiReceiving nat

text \<open>The callback in progress outside the system lock.\<close>

datatype spi_isr = SpiNone | SpiTxDone | SpiRx | SpiRxError

text \<open>The fields of the context; then the world around it: the transfer in progress, the level of
  DATA_READY, the callbacks in progress (an interrupt handler's, \<open>on_tx_ready_i\<close>, and \<open>on_rx_error\<close> in
  the midst of a submission, with its image, frame and preparation flag); what the driver knows (the
  frame it has handed over and not got back, whether a buffer of it is with the port); and records.\<close>

record spi =
  sp_is_master :: bool
  sp_started :: bool
  sp_tx_framep :: "nat option"
  sp_tx_active :: bool
  sp_rx_ptr :: "nat option"
  sp_rx_n :: nat
  sp_rx_mode :: rx_mode
  sp_rx_active :: bool
  sp_rx_allowed :: bool
  sp_slave_tx_needs_prepare :: bool
  sp_slave_rx_watchdog_gate :: bool
  sp_limit :: u16
  sp_rx_ticks :: u16
  sp_tx_ticks :: u16
  sp_vt :: bool
  sp_dr_last_high :: bool
  sp_dr_epoch_active :: bool
  sp_dr_captured :: bool
  sp_dr_collision :: bool
  sp_hw :: spi_hw
  sp_line :: bool
  sp_isr :: spi_isr
  sp_ready :: bool
  sp_pending :: "(u8 list \<times> nat \<times> bool) option"
  sp_fault :: bool
  sp_inflight :: "nat option"
  sp_armed :: bool
  sp_taken :: "nat list"
  sp_told :: "stream_event list"

definition chibios_spi_caps :: stream_caps where
  "chibios_spi_caps = \<lparr>sc_constraints = IOHDLC_PORT_CONSTR_TWA_ONLY OR IOHDLC_PORT_CONSTR_NRM_ONLY,
     sc_assists = IOHDLC_PORT_AST_TX_DONE_IN_ISR OR IOHDLC_PORT_AST_TX_NEEDS_CONTIG, sc_offload = [0, 0, 0, 0]\<rparr>"

text \<open>The delay of the watchdog in periods, rounded up, at least one and at most a 16-bit count.\<close>

definition watchdog_ticks :: "u32 \<Rightarrow> u32 \<Rightarrow> u16" where
  "watchdog_ticks period watchdog_us =
     (let ticks = (ucast watchdog_us + ucast period - 1) div ucast period :: 64 word;
          ticks = (if ticks = 0 then 1 else ticks);
          ticks = (if ticks > 65535 then 65535 else ticks)
      in ucast ticks)"

section \<open>Effects outside the port\<close>

definition spi_begin :: "spi_hw \<Rightarrow> spi \<Rightarrow> spi" where
  "spi_begin h p = p\<lparr>sp_fault := sp_fault p \<or> sp_hw p \<noteq> SpiIdle, sp_hw := h\<rparr>"

definition spi_stop_transfer :: "spi \<Rightarrow> spi" where
  "spi_stop_transfer p = p\<lparr>sp_hw := SpiIdle\<rparr>"

definition tell_tx_done :: "nat option \<Rightarrow> spi \<Rightarrow> spi" where
  "tell_tx_done fo p = p\<lparr>sp_told := sp_told p @ [on_tx_done fo],
     sp_inflight := (if sp_inflight p = fo then None else sp_inflight p)\<rparr>"

definition tell_tx_error :: "nat option \<Rightarrow> u32 \<Rightarrow> spi \<Rightarrow> spi" where
  "tell_tx_error fo e p = p\<lparr>sp_told := sp_told p @ [on_tx_error_i fo e], sp_inflight := None\<rparr>"

definition tell_rx :: "stream_event \<Rightarrow> spi \<Rightarrow> spi" where
  "tell_rx e p = p\<lparr>sp_told := sp_told p @ [e], sp_armed := False\<rparr>"

definition tell_tx_ready :: "spi \<Rightarrow> spi" where
  "tell_tx_ready p = p\<lparr>sp_told := sp_told p @ [on_tx_ready_i], sp_ready := True\<rparr>"

section \<open>Reception of the master\<close>

definition chb_spi_start_receive_i :: "nat \<Rightarrow> spi \<Rightarrow> spi" where
  "chb_spi_start_receive_i len p = spi_begin (SpiReceiving len) p"

definition chb_spi_try_start_master_rx_i :: "spi \<Rightarrow> bool \<times> spi" where
  "chb_spi_try_start_master_rx_i p =
     (if sp_rx_ptr p = None \<or> sp_rx_active p \<or> sp_tx_active p \<or> sp_dr_collision p then (False, p)
      else if sp_hw p \<noteq> SpiIdle then (False, p)
      else
        let go = (\<lambda>p. (True, chb_spi_start_receive_i (sp_rx_n p)
               (p\<lparr>sp_rx_active := True, sp_rx_allowed := (if sp_rx_n p > 1 then False else sp_rx_allowed p)\<rparr>)))
        in if \<not> sp_rx_allowed p
           then (if \<not> sp_dr_captured p then (False, p) else go (p\<lparr>sp_dr_captured := False, sp_rx_allowed := True\<rparr>))
           else if sp_rx_mode p = IOHDLC_RX_START_PACKET then (False, p)
           else go p)"

definition chb_spi_abort_master_tx_i :: "spi \<Rightarrow> nat option \<times> spi" where
  "chb_spi_abort_master_tx_i p = (sp_tx_framep p, (spi_stop_transfer p)\<lparr>sp_tx_active := False, sp_tx_framep := None,
     sp_dr_captured := False, sp_dr_collision := True, sp_rx_allowed := False\<rparr>)"

definition chb_spi_master_tx_blocked_i :: "spi \<Rightarrow> bool" where
  "chb_spi_master_tx_blocked_i p = (sp_tx_active p \<or> sp_rx_active p \<or> sp_dr_epoch_active p)"

section \<open>The DATA_READY interrupt\<close>

definition dr_clear :: "spi \<Rightarrow> spi" where
  "dr_clear p = p\<lparr>sp_dr_epoch_active := False, sp_dr_captured := False, sp_dr_collision := False, sp_rx_allowed := False\<rparr>"

text \<open>A rising edge: it breaks off a transmission, or it is a credit to read.\<close>

definition dr_rising :: "spi \<Rightarrow> spi" where
  "dr_rising p =
     (let p = p\<lparr>sp_dr_epoch_active := True\<rparr> in
      if sp_tx_active p
      then (let (framep, p) = chb_spi_abort_master_tx_i p in tell_tx_error framep IOHDLC_STREAM_ERR_OTHER p)
      else if sp_dr_collision p then p
      else snd (chb_spi_try_start_master_rx_i (if sp_rx_allowed p then p else p\<lparr>sp_dr_captured := True\<rparr>)))"

definition chb_spi_data_ready_i :: "spi \<Rightarrow> spi" where
  "chb_spi_data_ready_i p =
     (if \<not> sp_started p then p\<lparr>sp_fault := sp_fault p \<or> \<not> sp_is_master p\<rparr>
      else
        (let dr_was_high = sp_dr_last_high p; dr_high = sp_line p;
             p = p\<lparr>sp_dr_last_high := dr_high, sp_fault := sp_fault p \<or> \<not> sp_is_master p\<rparr>
         in if \<not> dr_was_high \<and> \<not> dr_high then
              (if sp_tx_active p
               then (let (framep, p) = chb_spi_abort_master_tx_i p in tell_tx_error framep IOHDLC_STREAM_ERR_OTHER (dr_clear p))
               else tell_tx_ready (dr_clear p))
            else if dr_was_high \<and> \<not> dr_high then tell_tx_ready (dr_clear p)
            else dr_rising (if dr_was_high then dr_clear p else p)))"

section \<open>Completion and errors of a transfer\<close>

definition chb_spi_data_cb :: "spi \<Rightarrow> spi" where
  "chb_spi_data_cb p =
     (let p = spi_stop_transfer p in
      if \<not> sp_started p then p
      else if sp_tx_active p then
        (let framep = sp_tx_framep p in
         tell_tx_done framep (p\<lparr>sp_tx_active := False, sp_tx_framep := None,
           sp_tx_ticks := (if sp_is_master p then sp_tx_ticks p else 0), sp_isr := SpiTxDone\<rparr>))
      else if sp_rx_active p then
        (let p = (if sp_is_master p then p\<lparr>sp_rx_allowed := (if sp_rx_n p > 1 then False else sp_rx_allowed p)\<rparr>
                  else p\<lparr>sp_rx_active := False, sp_slave_tx_needs_prepare := True\<rparr>)
         in tell_rx on_rx (p\<lparr>sp_rx_ptr := None, sp_rx_n := 0, sp_isr := SpiRx\<rparr>))
      else p)"

text \<open>The rest of the handler after \<open>on_tx_done\<close>, and after \<open>on_rx\<close>.\<close>

definition after_tx_done :: "spi \<Rightarrow> spi" where
  "after_tx_done p =
     (let p = p\<lparr>sp_isr := SpiNone\<rparr> in
      if \<not> sp_started p then p
      else if \<not> sp_tx_active p \<and> sp_rx_ptr p \<noteq> None then
        (if sp_is_master p then snd (chb_spi_try_start_master_rx_i p)
         else (chb_spi_start_receive_i (sp_rx_n p) (p\<lparr>sp_rx_active := True\<rparr>))\<lparr>sp_line := False\<rparr>)
      else if \<not> sp_tx_active p \<and> \<not> sp_is_master p then p\<lparr>sp_line := False\<rparr>
      else p)"

definition after_rx :: "spi \<Rightarrow> spi" where
  "after_rx p =
     (let p = p\<lparr>sp_isr := SpiNone\<rparr> in
      if sp_is_master p then tell_tx_ready (snd (chb_spi_try_start_master_rx_i (p\<lparr>sp_rx_active := False\<rparr>))) else p)"

definition rx_reset :: "spi \<Rightarrow> spi" where
  "rx_reset p = p\<lparr>sp_rx_active := False, sp_rx_ptr := None, sp_rx_n := 0, sp_rx_mode := IOHDLC_RX_START_PACKET,
     sp_slave_tx_needs_prepare := False, sp_slave_rx_watchdog_gate := False, sp_rx_ticks := 0, sp_tx_ticks := 0\<rparr>"

definition chb_spi_error_cb :: "spi \<Rightarrow> spi" where
  "chb_spi_error_cb p =
     (let p = spi_stop_transfer p in
      if \<not> sp_started p then p
      else
        (let tx_failed = sp_tx_active p; framep = sp_tx_framep p;
             p = dr_clear (rx_reset (p\<lparr>sp_tx_active := False, sp_tx_framep := None,
                   sp_line := (if sp_is_master p then sp_line p else False)\<rparr>))
         in if tx_failed then tell_tx_error framep IOHDLC_STREAM_ERR_OTHER p
            else tell_rx (on_rx_error IOHDLC_STREAM_ERR_OVERRUN) (p\<lparr>sp_isr := SpiRxError\<rparr>)))"

text \<open>\<open>handled\<close> is the answer of the platform's abort; if it has not aborted, the transfer is stopped.\<close>

definition spi_abort_slave :: "bool \<Rightarrow> spi \<Rightarrow> spi" where
  "spi_abort_slave handled p = (if \<not> handled then spi_stop_transfer p else p\<lparr>sp_hw := SpiIdle\<rparr>)"

definition ioHdlcStreamSpiSlaveOverrunI :: "bool \<Rightarrow> spi \<Rightarrow> spi" where
  "ioHdlcStreamSpiSlaveOverrunI handled p =
     (if \<not> sp_started p then p
      else
        (let framep = sp_tx_framep p; tx_aborted = sp_tx_active p;
             p = (dr_clear (rx_reset ((spi_abort_slave handled p)\<lparr>sp_tx_active := False, sp_tx_framep := None\<rparr>)))\<lparr>sp_line := False\<rparr>;
             p = (if tx_aborted then tell_tx_error framep IOHDLC_STREAM_ERR_OTHER p else p)
         in tell_rx (on_rx_error IOHDLC_STREAM_ERR_OVERRUN) (p\<lparr>sp_isr := SpiRxError\<rparr>)))"

section \<open>The watchdog of the slave\<close>

definition chb_spi_slave_watchdog_timeout :: "bool \<Rightarrow> spi \<Rightarrow> spi" where
  "chb_spi_slave_watchdog_timeout handled p =
     (let p = p\<lparr>sp_vt := False\<rparr> in
      if sp_is_master p \<or> \<not> sp_started p then p
      else if sp_tx_active p then
        (let p = p\<lparr>sp_tx_ticks := sp_tx_ticks p + 1, sp_rx_ticks := 0\<rparr> in
         if sp_tx_ticks p \<ge> sp_limit p then
           (let framep = sp_tx_framep p;
                p = (rx_reset ((spi_abort_slave handled p)\<lparr>sp_tx_active := False, sp_tx_framep := None\<rparr>))\<lparr>sp_line := False\<rparr>
            in tell_rx (on_rx_error IOHDLC_STREAM_ERR_OVERRUN)
                 ((tell_tx_error framep IOHDLC_STREAM_ERR_TMO p)\<lparr>sp_vt := True, sp_isr := SpiRxError\<rparr>))
         else p\<lparr>sp_vt := True\<rparr>)
      else if sp_rx_active p \<and> sp_slave_rx_watchdog_gate p then
        (let p = p\<lparr>sp_rx_ticks := sp_rx_ticks p + 1, sp_tx_ticks := 0\<rparr> in
         if sp_rx_ticks p \<ge> sp_limit p
         then tell_rx (on_rx_error IOHDLC_STREAM_ERR_OVERRUN)
                ((rx_reset (spi_abort_slave handled p))\<lparr>sp_vt := True, sp_isr := SpiRxError\<rparr>)
         else p\<lparr>sp_vt := True\<rparr>)
      else p\<lparr>sp_rx_ticks := 0, sp_tx_ticks := 0, sp_vt := True\<rparr>)"

section \<open>Port operations\<close>

definition chb_spi_tx_busy :: "spi \<Rightarrow> bool" where
  "chb_spi_tx_busy p = (if \<not> sp_started p then False
     else if sp_is_master p then chb_spi_master_tx_blocked_i p else sp_tx_active p)"

text \<open>The end of a submission, from the store of the cookie on.\<close>

definition tx_submit_rest :: "u8 list \<Rightarrow> nat \<Rightarrow> bool \<Rightarrow> spi \<Rightarrow> spi" where
  "tx_submit_rest octets cookie needs p =
     (let p = p\<lparr>sp_tx_framep := Some cookie, sp_tx_active := True\<rparr>;
          p = (if sp_is_master p then p\<lparr>sp_dr_captured := False, sp_rx_allowed := False\<rparr> else p);
          p = (if needs then p\<lparr>sp_slave_tx_needs_prepare := False\<rparr> else p)
      in if sp_is_master p then spi_begin (SpiSending octets) p
         else (spi_begin (SpiSending octets) (p\<lparr>sp_slave_rx_watchdog_gate := False, sp_rx_ticks := 0, sp_tx_ticks := 0,
             sp_line := False\<rparr>))\<lparr>sp_line := True\<rparr>)"

text \<open>\<open>cancelled\<close> is the answer of the platform's cancellation of the reception of a slave.\<close>

definition chb_spi_tx_submit :: "bool \<Rightarrow> u8 list \<Rightarrow> nat \<Rightarrow> spi \<Rightarrow> bool \<times> spi" where
  "chb_spi_tx_submit cancelled octets cookie p =
     (let p = p\<lparr>sp_fault := sp_fault p \<or> octets = []\<rparr> in
      if \<not> sp_started p then (False, p)
      else
        (let p = p\<lparr>sp_fault := sp_fault p \<or> sp_tx_active p\<rparr>;
             needs = (\<not> sp_is_master p \<and> sp_slave_tx_needs_prepare p)
         in if sp_is_master p \<and> chb_spi_master_tx_blocked_i p then (False, p)
            else
              (let (discard_rx, needs, p) =
                 (if sp_rx_active p then
                    (if sp_is_master p then (sp_rx_ptr p \<noteq> None, needs, spi_stop_transfer (p\<lparr>sp_rx_active := False\<rparr>))
                     else if cancelled then (True, False, p\<lparr>sp_rx_active := False, sp_hw := SpiIdle, sp_slave_tx_needs_prepare := False\<rparr>)
                     else (True, True, spi_stop_transfer (p\<lparr>sp_rx_active := False\<rparr>)))
                  else (sp_rx_ptr p \<noteq> None, needs, p))
               in if discard_rx
                  then (True, tell_rx (on_rx_error IOHDLC_STREAM_ERR_OVERRUN)
                         (p\<lparr>sp_tx_active := True, sp_pending := Some (octets, cookie, needs)\<rparr>))
                  else (True, tx_submit_rest octets cookie needs p))))"

definition chb_spi_tx_submit_frame :: "bool \<Rightarrow> frame \<Rightarrow> nat \<Rightarrow> spi \<Rightarrow> errno option \<times> spi" where
  "chb_spi_tx_submit_frame cancelled fm f p =
     (let (accepted, p) = chb_spi_tx_submit cancelled (port_image fm) f p in (if accepted then None else Some EIO, p))"

definition chb_spi_rx_submit :: "nat \<Rightarrow> nat \<Rightarrow> rx_mode \<Rightarrow> spi \<Rightarrow> bool \<times> spi" where
  "chb_spi_rx_submit ptr len mode p =
     (let p = p\<lparr>sp_fault := sp_fault p \<or> len = 0\<rparr> in
      if \<not> sp_started p then (False, p)
      else
        (let p = p\<lparr>sp_rx_ptr := Some ptr, sp_rx_n := len, sp_rx_mode := mode\<rparr> in
         if sp_is_master p then (True, if \<not> sp_tx_active p then snd (chb_spi_try_start_master_rx_i p) else p)
         else
           (let p = p\<lparr>sp_slave_rx_watchdog_gate := (mode \<noteq> IOHDLC_RX_START_PACKET), sp_rx_ticks := 0\<rparr> in
            (True, if \<not> sp_tx_active p then chb_spi_start_receive_i len (p\<lparr>sp_rx_active := True\<rparr>) else p))))"

definition chb_spi_rx_cancel :: "spi \<Rightarrow> spi" where
  "chb_spi_rx_cancel p =
     (let p = (if sp_is_master p \<and> sp_rx_active p then (spi_stop_transfer p)\<lparr>sp_rx_active := False\<rparr> else p);
          p = (dr_clear p)\<lparr>sp_rx_ptr := None, sp_rx_n := 0, sp_rx_mode := IOHDLC_RX_START_PACKET\<rparr>
      in if sp_is_master p then p else p\<lparr>sp_slave_rx_watchdog_gate := False, sp_rx_ticks := 0, sp_tx_ticks := 0\<rparr>)"

section \<open>Initialisation, start and stop\<close>

text \<open>\<open>period\<close> and \<open>delay\<close> are the build constants of the watchdog in microseconds.\<close>

definition ioHdlcStreamPortChibiosSpiObjectInit :: "u32 \<Rightarrow> u32 \<Rightarrow> bool \<Rightarrow> bool \<Rightarrow> spi" where
  "ioHdlcStreamPortChibiosSpiObjectInit period delay is_master line =
     \<lparr>sp_is_master = is_master, sp_started = False, sp_tx_framep = None, sp_tx_active = is_master, sp_rx_ptr = None,
       sp_rx_n = 0, sp_rx_mode = IOHDLC_RX_START_PACKET, sp_rx_active = (\<not> is_master), sp_rx_allowed = False,
       sp_slave_tx_needs_prepare = False, sp_slave_rx_watchdog_gate = False, sp_limit = watchdog_ticks period delay,
       sp_rx_ticks = 0, sp_tx_ticks = 0, sp_vt = False, sp_dr_last_high = False, sp_dr_epoch_active = False,
       sp_dr_captured = False, sp_dr_collision = False, sp_hw = SpiIdle, sp_line = line, sp_isr = SpiNone, sp_ready = False,
       sp_pending = None, sp_fault = False, sp_inflight = None, sp_armed = False, sp_taken = [], sp_told = []\<rparr>"

definition ioHdlcStreamSpiSetSlaveWatchdogDelay :: "u32 \<Rightarrow> u32 \<Rightarrow> spi \<Rightarrow> spi" where
  "ioHdlcStreamSpiSetSlaveWatchdogDelay period delay p = p\<lparr>sp_limit := watchdog_ticks period delay\<rparr>"

definition chb_spi_start :: "spi \<Rightarrow> spi" where
  "chb_spi_start p = (dr_clear (rx_reset (p\<lparr>sp_tx_framep := None, sp_tx_active := False\<rparr>)))
     \<lparr>sp_dr_last_high := False, sp_line := (if sp_is_master p then sp_line p else False), sp_vt := (\<not> sp_is_master p),
       sp_started := True\<rparr>"

definition chb_spi_stop :: "bool \<Rightarrow> spi \<Rightarrow> spi" where
  "chb_spi_stop handled p =
     (let p = (dr_clear (rx_reset (p\<lparr>sp_started := False, sp_tx_framep := None, sp_tx_active := False\<rparr>)))
            \<lparr>sp_dr_last_high := False, sp_vt := False, sp_line := (if sp_is_master p then sp_line p else False)\<rparr>
      in if sp_is_master p then spi_stop_transfer p else spi_abort_slave handled p)"

end
