(* ===== verification/Hdlc_SpiSafe.thy ===== *)
theory Hdlc_SpiSafe
  imports Hdlc_Spi
begin

text \<open>
  The SPI port between the software driver, the SPI hardware, the line DATA_READY and the watchdog, as
  a transition system, and what holds in every state it can reach: the hardware never gets a second
  transfer, frames are reported once, and a port that has a buffer listens.
\<close>

section \<open>The system\<close>

text \<open>
  The driver hands a frame over only when it has none with the port and the port is not busy: from a
  thread, or in \<open>on_tx_done\<close> or \<open>on_tx_ready_i\<close>. In a callback about reception it passes a buffer,
  after an error it cancels first. The interrupts of the port do not preempt each other, but for the
  one of DATA_READY, which preempts the callbacks outside the system lock. An overrun between the
  start of the port and the first buffer is left out.
\<close>

datatype spi_act =
    SpiStart
  | SpiStop bool
  | Submit bool frame nat
  | Arm nat nat rx_mode
  | Cancel
  | Return
  | Complete
  | Fail
  | Overrun bool
  | Watchdog bool
  | LineTo bool
  | DrEdge

definition spi_quiet :: "spi \<Rightarrow> bool" where
  "spi_quiet p = (sp_isr p = SpiNone \<and> \<not> sp_ready p \<and> sp_pending p = None)"

fun spi_enabled :: "spi_act \<Rightarrow> spi \<Rightarrow> bool" where
  "spi_enabled SpiStart p = (\<not> sp_started p)"
| "spi_enabled (SpiStop h) p = (sp_started p \<and> spi_quiet p)"
| "spi_enabled (Submit c fm f) p = (sp_started p \<and> sp_pending p = None \<and> (sp_ready p \<or> sp_isr p \<in> {SpiNone, SpiTxDone})
     \<and> sp_inflight p = None \<and> \<not> chb_spi_tx_busy p \<and> port_image fm \<noteq> [])"
| "spi_enabled (Arm ptr n m) p = (sp_started p \<and> \<not> sp_armed p \<and> n \<noteq> 0
     \<and> (if sp_pending p \<noteq> None then sp_rx_ptr p = None else \<not> sp_ready p \<and> sp_isr p \<noteq> SpiTxDone))"
| "spi_enabled Cancel p = (sp_started p \<and> \<not> sp_armed p \<and> (sp_pending p \<noteq> None \<or> \<not> sp_ready p \<and> sp_isr p = SpiRxError))"
| "spi_enabled Return p = (if sp_pending p \<noteq> None then sp_armed p else if sp_ready p then True
     else (case sp_isr p of SpiNone \<Rightarrow> False | SpiTxDone \<Rightarrow> True | _ \<Rightarrow> sp_armed p))"
| "spi_enabled Complete p = (spi_quiet p \<and> sp_hw p \<noteq> SpiIdle)"
| "spi_enabled Fail p = (spi_quiet p \<and> sp_hw p \<noteq> SpiIdle)"
| "spi_enabled (Overrun h) p = (spi_quiet p \<and> sp_started p \<and> \<not> sp_is_master p \<and> sp_armed p)"
| "spi_enabled (Watchdog h) p = (spi_quiet p \<and> sp_vt p)"
| "spi_enabled (LineTo b) p = sp_is_master p"
| "spi_enabled DrEdge p = (sp_is_master p \<and> sp_started p \<and> \<not> sp_ready p \<and> sp_pending p = None)"

text \<open>A driver that stops the port reports its frame to itself.\<close>

definition spi_submit :: "bool \<Rightarrow> frame \<Rightarrow> nat \<Rightarrow> spi \<Rightarrow> spi" where
  "spi_submit c fm f p = (let (r, q) = chb_spi_tx_submit_frame c fm f p in
     if r = None then q\<lparr>sp_inflight := Some f, sp_taken := sp_taken q @ [f]\<rparr> else q\<lparr>sp_fault := True\<rparr>)"

definition spi_return :: "spi \<Rightarrow> spi" where
  "spi_return p = (case sp_pending p of
     Some (octets, cookie, needs) \<Rightarrow> tx_submit_rest octets cookie needs (p\<lparr>sp_pending := None\<rparr>)
   | None \<Rightarrow> if sp_ready p then p\<lparr>sp_ready := False\<rparr>
     else (case sp_isr p of SpiNone \<Rightarrow> p | SpiTxDone \<Rightarrow> after_tx_done p | SpiRx \<Rightarrow> after_rx p | SpiRxError \<Rightarrow> p\<lparr>sp_isr := SpiNone\<rparr>))"

fun spi_perform :: "spi_act \<Rightarrow> spi \<Rightarrow> spi" where
  "spi_perform SpiStart p = chb_spi_start p"
| "spi_perform (SpiStop h) p = (tell_tx_error (sp_inflight p) 0 (chb_spi_stop h p))\<lparr>sp_armed := False\<rparr>"
| "spi_perform (Submit c fm f) p = spi_submit c fm f p"
| "spi_perform (Arm ptr n m) p = (let (r, q) = chb_spi_rx_submit ptr n m p in q\<lparr>sp_armed := True, sp_fault := sp_fault q \<or> \<not> r\<rparr>)"
| "spi_perform Cancel p = chb_spi_rx_cancel p"
| "spi_perform Return p = spi_return p"
| "spi_perform Complete p = chb_spi_data_cb p"
| "spi_perform Fail p = chb_spi_error_cb p"
| "spi_perform (Overrun h) p = ioHdlcStreamSpiSlaveOverrunI h p"
| "spi_perform (Watchdog h) p = chb_spi_slave_watchdog_timeout h p"
| "spi_perform (LineTo b) p = p\<lparr>sp_line := b\<rparr>"
| "spi_perform DrEdge p = chb_spi_data_ready_i p"

inductive spi_reach :: "spi \<Rightarrow> bool" where
  start: "0 < period \<Longrightarrow> spi_reach (ioHdlcStreamPortChibiosSpiObjectInit period delay is_master line)"
| step: "spi_reach p \<Longrightarrow> spi_enabled a p \<Longrightarrow> spi_reach (spi_perform a p)"

fun spi_run :: "spi_act list \<Rightarrow> spi \<Rightarrow> spi option" where
  "spi_run [] p = Some p"
| "spi_run (a # as) p = (if spi_enabled a p then spi_run as (spi_perform a p) else None)"

lemma spi_run_reach: "spi_reach p \<Longrightarrow> spi_run as p = Some q \<Longrightarrow> spi_reach q"
  by (induction as arbitrary: p) (auto intro: spi_reach.step split: if_splits)

section \<open>The invariant\<close>

definition is_sending :: "spi_hw \<Rightarrow> bool" where
  "is_sending h = (case h of SpiSending im \<Rightarrow> True | _ \<Rightarrow> False)"

lemma is_sending_simps [simp]: "is_sending (SpiSending im)" "\<not> is_sending SpiIdle" "\<not> is_sending (SpiReceiving n)"
  by (simp_all add: is_sending_def)

text \<open>Transfers; frames and buffers; the line.\<close>

definition hw_ok :: "spi \<Rightarrow> bool" where
  "hw_ok p \<longleftrightarrow> (let master_rx = (sp_is_master p \<and> sp_isr p = SpiRx) in
     if sp_pending p \<noteq> None then sp_tx_active p \<and> \<not> sp_rx_active p \<and> sp_hw p = SpiIdle \<and> \<not> master_rx
     else (case sp_hw p of
         SpiIdle \<Rightarrow> \<not> sp_tx_active p \<and> sp_rx_active p = master_rx
       | SpiSending im \<Rightarrow> sp_tx_active p \<and> \<not> sp_rx_active p \<and> \<not> master_rx
       | SpiReceiving n \<Rightarrow> \<not> sp_tx_active p \<and> sp_rx_active p \<and> n = sp_rx_n p \<and> sp_rx_ptr p \<noteq> None \<and> \<not> master_rx
           \<and> \<not> (\<not> sp_is_master p \<and> sp_isr p = SpiTxDone)))"

definition own_ok :: "spi \<Rightarrow> bool" where
  "own_ok p \<longleftrightarrow> (sp_inflight p = None) = (\<not> sp_tx_active p)
     \<and> (case sp_pending p of
          None \<Rightarrow> sp_tx_framep p = sp_inflight p \<and> (sp_armed p \<or> sp_rx_ptr p = None)
        | Some (im, c, n) \<Rightarrow> im \<noteq> [] \<and> sp_inflight p = Some c)"

definition line_ok :: "spi \<Rightarrow> bool" where
  "line_ok p \<longleftrightarrow> (if sp_is_master p
     then (if sp_dr_epoch_active p then \<not> sp_tx_active p \<and> \<not> (sp_dr_captured p \<and> sp_dr_collision p)
           else \<not> sp_dr_captured p \<and> \<not> sp_dr_collision p \<and> \<not> sp_rx_allowed p)
     else \<not> sp_ready p \<and> (if sp_pending p \<noteq> None \<or> sp_isr p = SpiTxDone \<and> \<not> sp_tx_active p then True
       else sp_line p = sp_tx_active p))"

definition spi_inv :: "spi \<Rightarrow> bool" where
  "spi_inv p \<longleftrightarrow> \<not> sp_fault p \<and> sp_taken p = reported (sp_told p) @ opt_list (sp_inflight p)
     \<and> (if sp_started p then hw_ok p \<and> own_ok p \<and> line_ok p
        else spi_quiet p \<and> sp_hw p = SpiIdle \<and> sp_inflight p = None \<and> \<not> sp_armed p \<and> \<not> sp_vt p)"

lemmas inv_defs = hw_ok_def own_ok_def line_ok_def Let_def

declare not_None_eq [simp del]

text \<open>What a start of a reception by the master does.\<close>

definition can_rx :: "spi \<Rightarrow> bool" where
  "can_rx p \<longleftrightarrow> sp_rx_ptr p \<noteq> None \<and> \<not> sp_rx_active p \<and> \<not> sp_tx_active p \<and> \<not> sp_dr_collision p \<and> sp_hw p = SpiIdle
     \<and> (if sp_rx_allowed p then sp_rx_mode p = IOHDLC_RX_CONTINUE_PACKET else sp_dr_captured p)"

lemma try_start:
  "snd (chb_spi_try_start_master_rx_i p) =
     (if can_rx p then p\<lparr>sp_hw := SpiReceiving (sp_rx_n p), sp_rx_active := True, sp_rx_allowed := (sp_rx_n p \<le> 1),
        sp_dr_captured := (sp_rx_allowed p \<and> sp_dr_captured p)\<rparr> else p)"
  by (cases "sp_rx_mode p")
    (auto simp: chb_spi_try_start_master_rx_i_def can_rx_def chb_spi_start_receive_i_def spi_begin_def Let_def)

lemma inv_start: "spi_inv p \<Longrightarrow> \<not> sp_started p \<Longrightarrow> spi_inv (chb_spi_start p)"
  by (auto simp: spi_inv_def inv_defs chb_spi_start_def dr_clear_def rx_reset_def spi_quiet_def)

lemma inv_stop: "spi_inv p \<Longrightarrow> sp_started p \<Longrightarrow> spi_quiet p
    \<Longrightarrow> spi_inv ((tell_tx_error (sp_inflight p) 0 (chb_spi_stop h p))\<lparr>sp_armed := False\<rparr>)"
  by (auto simp: spi_inv_def chb_spi_stop_def dr_clear_def rx_reset_def spi_quiet_def tell_tx_error_def spi_abort_slave_def
    spi_stop_transfer_def Let_def)

lemma inv_try: "spi_inv p \<Longrightarrow> sp_started p \<Longrightarrow> sp_is_master p \<Longrightarrow> spi_inv (snd (chb_spi_try_start_master_rx_i p))"
proof (cases "can_rx p")
  case True
  assume a: "spi_inv p" "sp_started p" "sp_is_master p"
  from True have c: "sp_rx_ptr p \<noteq> None" "\<not> sp_rx_active p" "\<not> sp_tx_active p" "\<not> sp_dr_collision p" "sp_hw p = SpiIdle"
    "sp_rx_allowed p \<or> sp_dr_captured p" by (auto simp: can_rx_def split: if_splits)
  have p: "sp_pending p = None" using a c(3) by (auto simp: spi_inv_def hw_ok_def Let_def split: if_splits)
  have e: "sp_dr_epoch_active p" using a c(6) by (auto simp: spi_inv_def line_ok_def split: if_splits)
  show ?thesis using a True c(1-5) p e by (simp add: try_start spi_inv_def inv_defs)
qed (simp add: try_start)

lemma started_busy: "spi_inv p \<Longrightarrow> \<not> spi_quiet p \<Longrightarrow> sp_started p"
  by (simp add: spi_inv_def split: if_splits)

lemma inv_arm_master:
  assumes "spi_inv p" "spi_enabled (Arm ptr n m) p" "sp_is_master p"
  shows "spi_inv (spi_perform (Arm ptr n m) p)"
proof -
  define q where "q = p\<lparr>sp_rx_ptr := Some ptr, sp_rx_n := n, sp_rx_mode := m, sp_armed := True\<rparr>"
  have q: "spi_inv q" "sp_started q" "sp_is_master q" using assms by ((cases "sp_hw p"; cases "sp_pending p"; auto simp: q_def spi_inv_def inv_defs)+)
  have "spi_perform (Arm ptr n m) p = (if sp_tx_active p then q else snd (chb_spi_try_start_master_rx_i q))"
    using assms by (simp add: q_def chb_spi_rx_submit_def try_start can_rx_def Let_def spi_inv_def)
  then show ?thesis using q(1) inv_try [OF q] by simp
qed

lemma inv_arm_slave:
  assumes "spi_inv p" "spi_enabled (Arm ptr n m) p" "\<not> sp_is_master p"
  shows "spi_inv (spi_perform (Arm ptr n m) p)"
proof -
  have "sp_hw p = SpiIdle" if "\<not> sp_tx_active p"
    using assms that by (cases "sp_hw p"; cases "sp_pending p"; auto simp: spi_inv_def inv_defs)
  then show ?thesis using assms
    by (cases "sp_hw p"; cases "sp_pending p"; auto simp: spi_inv_def inv_defs chb_spi_rx_submit_def chb_spi_start_receive_i_def spi_begin_def Let_def)
qed

lemma inv_cancel:
  assumes "spi_inv p" "spi_enabled Cancel p"
  shows "spi_inv (chb_spi_rx_cancel p)"
  using assms
  by (cases "sp_hw p"; cases "sp_pending p"; auto simp: spi_inv_def inv_defs chb_spi_rx_cancel_def Let_def dr_clear_def spi_stop_transfer_def)

lemmas submit_defs = spi_submit_def chb_spi_tx_submit_frame_def chb_spi_tx_submit_def Let_def tx_submit_rest_def spi_begin_def
  chb_spi_tx_busy_def tell_rx_def spi_stop_transfer_def

lemma inv_submit_master:
  assumes "spi_inv p" "spi_enabled (Submit c fm f) p" "sp_is_master p"
  shows "spi_inv (spi_submit c fm f p)"
proof -
  have "\<not> chb_spi_master_tx_blocked_i p" using assms by (simp add: chb_spi_tx_busy_def split: if_splits)
  then have b: "\<not> sp_rx_active p" "\<not> sp_tx_active p" "\<not> sp_dr_epoch_active p" "\<not> chb_spi_master_tx_blocked_i p"
    by (simp_all add: chb_spi_master_tx_blocked_i_def)
  have h: "sp_hw p = SpiIdle" using assms b by (cases "sp_hw p"; cases "sp_pending p"; auto simp: spi_inv_def inv_defs)
  show ?thesis
  proof (cases "sp_rx_ptr p")
    case None
    then show ?thesis using assms b h by (cases "sp_hw p"; cases "sp_pending p"; auto simp: spi_inv_def inv_defs submit_defs chb_spi_master_tx_blocked_i_def)
  next
    case (Some r)
    then show ?thesis using assms b h by (cases "sp_hw p"; cases "sp_pending p"; auto simp: spi_inv_def inv_defs submit_defs chb_spi_master_tx_blocked_i_def)
  qed
qed

lemma inv_submit_slave:
  assumes "spi_inv p" "spi_enabled (Submit c fm f) p" "\<not> sp_is_master p"
  shows "spi_inv (spi_submit c fm f p)"
proof (cases "sp_rx_active p")
  case True
  have "sp_rx_ptr p \<noteq> None" using assms True by (cases "sp_hw p"; cases "sp_pending p"; auto simp: spi_inv_def inv_defs)
  then show ?thesis using assms True by (cases c) (auto simp: spi_inv_def inv_defs submit_defs)
next
  case False
  have h: "sp_hw p = SpiIdle" using assms False by (cases "sp_hw p"; cases "sp_pending p"; auto simp: spi_inv_def inv_defs chb_spi_tx_busy_def)
  show ?thesis using assms False h by (cases "sp_rx_ptr p") (auto simp: spi_inv_def inv_defs submit_defs)
qed

lemma inv_rest:
  assumes "spi_inv p" "sp_pending p = Some (im, c, n)" "sp_armed p"
  shows "spi_inv (tx_submit_rest im c n (p\<lparr>sp_pending := None\<rparr>))"
proof -
  have "sp_started p" using started_busy [OF assms(1)] assms(2) by (simp add: spi_quiet_def)
  then show ?thesis using assms
    by (cases "sp_hw p"; cases "sp_pending p"; auto simp: spi_inv_def inv_defs tx_submit_rest_def spi_begin_def Let_def)
qed

lemma inv_after_tx:
  assumes "spi_inv p" "sp_pending p = None" "\<not> sp_ready p" "sp_isr p = SpiTxDone"
  shows "spi_inv (after_tx_done p)"
proof -
  have s: "sp_started p" using started_busy [OF assms(1)] assms(4) by (simp add: spi_quiet_def)
  define q where "q = p\<lparr>sp_isr := SpiNone\<rparr>"
  show ?thesis
  proof (cases "sp_is_master p")
    case True
    have q: "spi_inv q" "sp_started q" "sp_is_master q" using assms s True by ((cases "sp_hw p"; cases "sp_pending p"; auto simp: q_def spi_inv_def inv_defs)+)
    have "after_tx_done p = (if \<not> sp_tx_active p \<and> sp_rx_ptr p \<noteq> None then snd (chb_spi_try_start_master_rx_i q) else q)"
      using s True by (simp add: after_tx_done_def Let_def q_def)
    then show ?thesis using q(1) inv_try [OF q] by simp
  next
    case False
    have "sp_hw p = SpiIdle" if "\<not> sp_tx_active p" using assms False s that by (cases "sp_hw p"; cases "sp_pending p"; auto simp: spi_inv_def inv_defs)
    then show ?thesis using assms s False
      by (cases "sp_hw p"; cases "sp_pending p"; auto simp: spi_inv_def inv_defs after_tx_done_def Let_def chb_spi_start_receive_i_def spi_begin_def)
  qed
qed

lemma inv_ready: "spi_inv p \<Longrightarrow> sp_started p \<Longrightarrow> sp_is_master p \<Longrightarrow> spi_inv (tell_tx_ready p)"
  by (cases "sp_hw p"; cases "sp_pending p"; auto simp: spi_inv_def inv_defs tell_tx_ready_def)

lemma inv_after_rx:
  assumes "spi_inv p" "sp_pending p = None" "\<not> sp_ready p" "sp_isr p = SpiRx"
  shows "spi_inv (after_rx p)"
proof -
  have s: "sp_started p" using started_busy [OF assms(1)] assms(4) by (simp add: spi_quiet_def)
  define q where "q = p\<lparr>sp_isr := SpiNone, sp_rx_active := False\<rparr>"
  show ?thesis
  proof (cases "sp_is_master p")
    case True
    have q: "spi_inv q" "sp_started q" "sp_is_master q" using assms s True by ((cases "sp_hw p"; cases "sp_pending p"; auto simp: q_def spi_inv_def inv_defs)+)
    then have "spi_inv (tell_tx_ready (snd (chb_spi_try_start_master_rx_i q)))"
      using inv_try [OF q] by (intro inv_ready) (simp_all add: try_start)
    then show ?thesis using True by (simp add: after_rx_def Let_def q_def)
  next
    case False
    then show ?thesis using assms s by (cases "sp_hw p"; cases "sp_pending p"; auto simp: spi_inv_def inv_defs after_rx_def Let_def)
  qed
qed

lemma inv_complete:
  assumes "spi_inv p" "spi_enabled Complete p"
  shows "spi_inv (chb_spi_data_cb p)"
proof -
  have s: "sp_started p" "spi_quiet p" using assms by ((cases "sp_hw p"; cases "sp_pending p"; auto simp: spi_inv_def split: if_splits)+)
  show ?thesis
  proof (cases "sp_tx_active p")
    case True
    then show ?thesis using assms(1) s
      by (cases "sp_hw p"; cases "sp_pending p"; auto simp: spi_inv_def inv_defs chb_spi_data_cb_def Let_def tell_tx_done_def spi_stop_transfer_def spi_quiet_def)
  next
    case False
    have r: "sp_rx_active p" using assms False s by (cases "sp_hw p"; cases "sp_pending p"; auto simp: spi_inv_def inv_defs spi_quiet_def)
    show ?thesis using assms(1) s False r
      by (cases "sp_hw p"; cases "sp_pending p"; auto simp: spi_inv_def inv_defs chb_spi_data_cb_def Let_def tell_rx_def spi_stop_transfer_def spi_quiet_def)
  qed
qed

lemma inv_fail:
  assumes "spi_inv p" "spi_enabled Fail p"
  shows "spi_inv (chb_spi_error_cb p)"
proof -
  have s: "sp_started p" "spi_quiet p" using assms by ((cases "sp_hw p"; cases "sp_pending p"; auto simp: spi_inv_def split: if_splits)+)
  then show ?thesis using assms(1)
    by (cases "sp_hw p"; cases "sp_pending p"; auto simp: spi_inv_def inv_defs chb_spi_error_cb_def Let_def tell_rx_def tell_tx_error_def
      spi_stop_transfer_def spi_quiet_def dr_clear_def rx_reset_def)
qed

lemma inv_overrun:
  assumes "spi_inv p" "spi_enabled (Overrun h) p"
  shows "spi_inv (ioHdlcStreamSpiSlaveOverrunI h p)"
  using assms
  by (cases "sp_hw p"; cases "sp_pending p"; auto simp: spi_inv_def inv_defs ioHdlcStreamSpiSlaveOverrunI_def Let_def tell_rx_def tell_tx_error_def
    spi_stop_transfer_def spi_abort_slave_def spi_quiet_def dr_clear_def rx_reset_def)

lemma inv_watchdog:
  assumes "spi_inv p" "spi_enabled (Watchdog h) p"
  shows "spi_inv (chb_spi_slave_watchdog_timeout h p)"
proof -
  have s: "sp_started p" "spi_quiet p" using assms by ((cases "sp_hw p"; cases "sp_pending p"; auto simp: spi_inv_def split: if_splits)+)
  show ?thesis
  proof (cases "sp_is_master p")
    case True
    then show ?thesis using assms(1) s by (cases "sp_hw p"; cases "sp_pending p"; auto simp: spi_inv_def inv_defs chb_spi_slave_watchdog_timeout_def Let_def)
  next
    case False
    note d = chb_spi_slave_watchdog_timeout_def Let_def tell_rx_def tell_tx_error_def spi_stop_transfer_def spi_abort_slave_def rx_reset_def
    consider "sp_tx_active p" "sp_limit p \<le> sp_tx_ticks p + 1" | "sp_tx_active p" "\<not> sp_limit p \<le> sp_tx_ticks p + 1"
      | "\<not> sp_tx_active p" by blast
    then show ?thesis
    proof cases
      case 1
      then show ?thesis using assms(1) s False by (cases "sp_hw p"; cases "sp_pending p"; auto simp: spi_inv_def inv_defs d spi_quiet_def)
    next
      case 2
      then show ?thesis using assms(1) s False by (cases "sp_hw p"; cases "sp_pending p"; auto simp: spi_inv_def inv_defs d spi_quiet_def)
    next
      case 3
      then show ?thesis using assms(1) s False by (cases "sp_hw p"; cases "sp_pending p"; auto simp: spi_inv_def inv_defs d spi_quiet_def)
    qed
  qed
qed

lemma inv_dr_clear: "spi_inv p \<Longrightarrow> sp_started p \<Longrightarrow> sp_is_master p \<Longrightarrow> spi_inv (dr_clear p)"
  by (cases "sp_hw p"; cases "sp_pending p"; auto simp: spi_inv_def inv_defs dr_clear_def)

lemma inv_abort:
  assumes "spi_inv p" "sp_started p" "sp_is_master p" "sp_pending p = None" "sp_tx_active p"
  shows "spi_inv (let (f, q) = chb_spi_abort_master_tx_i (p\<lparr>sp_dr_epoch_active := True\<rparr>) in tell_tx_error f e q)"
    "spi_inv (let (f, q) = chb_spi_abort_master_tx_i p in tell_tx_error f e (dr_clear q))"
  using assms
  by ((cases "sp_hw p"; cases "sp_pending p"; auto simp: spi_inv_def inv_defs chb_spi_abort_master_tx_i_def tell_tx_error_def spi_stop_transfer_def dr_clear_def)+)

lemma inv_rising:
  assumes "spi_inv p" "sp_started p" "sp_is_master p" "sp_pending p = None"
  shows "spi_inv (dr_rising p)"
proof (cases "sp_tx_active p")
  case True
  then show ?thesis using inv_abort(1) [OF assms] by (simp add: dr_rising_def Let_def)
next
  case False
  define q where "q = p\<lparr>sp_dr_epoch_active := True\<rparr>"
  define r where "r = (if sp_rx_allowed q then q else q\<lparr>sp_dr_captured := True\<rparr>)"
  have q: "spi_inv q" using assms False by (cases "sp_hw p"; cases "sp_pending p"; auto simp: q_def spi_inv_def inv_defs split: if_splits)
  have r: "spi_inv r" "sp_started r" "sp_is_master r" if "\<not> sp_dr_collision p"
    using that assms False by ((cases "sp_hw p"; auto simp: r_def q_def spi_inv_def inv_defs split: if_splits)+)
  have "dr_rising p = (if sp_dr_collision p then q else snd (chb_spi_try_start_master_rx_i r))"
    using False by (simp add: dr_rising_def q_def r_def Let_def)
  then show ?thesis using q inv_try [OF r] by simp
qed

lemma inv_dr:
  assumes "spi_inv p" "spi_enabled DrEdge p"
  shows "spi_inv (chb_spi_data_ready_i p)"
proof -
  define q where "q = p\<lparr>sp_dr_last_high := sp_line p, sp_fault := sp_fault p \<or> \<not> sp_is_master p\<rparr>"
  have q: "spi_inv q" "sp_started q" "sp_is_master q" "sp_pending q = None"
    using assms by ((cases "sp_hw p"; cases "sp_pending p"; auto simp: q_def spi_inv_def inv_defs)+)
  have c: "spi_inv (dr_clear q)" "sp_started (dr_clear q)" "sp_is_master (dr_clear q)" "sp_pending (dr_clear q) = None"
    using inv_dr_clear [OF q(1-3)] q by (simp_all add: dr_clear_def)
  have "chb_spi_data_ready_i p =
      (if \<not> sp_dr_last_high p \<and> \<not> sp_line p
       then (if sp_tx_active q then (let (f, q) = chb_spi_abort_master_tx_i q in tell_tx_error f IOHDLC_STREAM_ERR_OTHER (dr_clear q))
             else tell_tx_ready (dr_clear q))
       else if sp_dr_last_high p \<and> \<not> sp_line p then tell_tx_ready (dr_clear q)
       else dr_rising (if sp_dr_last_high p then dr_clear q else q))"
    using assms by (simp add: chb_spi_data_ready_i_def q_def Let_def spi_inv_def)
  then show ?thesis using inv_abort(2) [OF q] inv_ready [OF c(1-3)] inv_rising [OF c] inv_rising [OF q] by simp
qed

lemma inv_return:
  assumes "spi_inv p" "spi_enabled Return p"
  shows "spi_inv (spi_return p)"
proof (cases "sp_pending p")
  case (Some x)
  then show ?thesis using assms inv_rest [OF assms(1)] by (cases x) (simp add: spi_return_def)
next
  case None
  show ?thesis
  proof (cases "sp_ready p")
    case True
    have s: "sp_started p" using started_busy [OF assms(1)] True by (simp add: spi_quiet_def)
    show ?thesis using assms(1) None True s by (cases "sp_hw p"; auto simp: spi_return_def spi_inv_def inv_defs)
  next
    case False
    then show ?thesis
    proof (cases "sp_isr p")
      case SpiRxError
      have s: "sp_started p" using started_busy [OF assms(1)] SpiRxError by (simp add: spi_quiet_def)
      show ?thesis using assms(1) None False s SpiRxError by (cases "sp_hw p"; auto simp: spi_return_def spi_inv_def inv_defs)
    qed (use assms None False inv_after_tx inv_after_rx in \<open>simp_all add: spi_return_def\<close>)
  qed
qed

lemma spi_inv_perform: "spi_inv p \<Longrightarrow> spi_enabled a p \<Longrightarrow> spi_inv (spi_perform a p)"
proof (cases a)
  case (Arm ptr n m)
  then show "spi_inv p \<Longrightarrow> spi_enabled a p \<Longrightarrow> ?thesis" using inv_arm_master inv_arm_slave by blast
next
  case (Submit c fm f)
  then show "spi_inv p \<Longrightarrow> spi_enabled a p \<Longrightarrow> ?thesis"
    using inv_submit_master [of p c fm f] inv_submit_slave [of p c fm f] by (cases "sp_is_master p") (simp_all del: spi_enabled.simps)
next
  case (LineTo b)
  then show "spi_inv p \<Longrightarrow> spi_enabled a p \<Longrightarrow> ?thesis"
    by (cases "sp_started p"; cases "sp_hw p"; cases "sp_pending p"; auto simp: spi_inv_def inv_defs spi_quiet_def)
qed (simp_all add: inv_start inv_stop inv_cancel inv_return inv_complete inv_fail inv_overrun inv_watchdog inv_dr
    del: spi_enabled.simps, simp_all add: inv_start inv_stop)

lemma spi_reach_inv: "spi_reach p \<Longrightarrow> spi_inv p"
proof (induction rule: spi_reach.induct)
  case (start period delay is_master line)
  show ?case by (simp add: spi_inv_def ioHdlcStreamPortChibiosSpiObjectInit_def spi_quiet_def)
qed (rule spi_inv_perform)



section \<open>The watchdog\<close>

lemma watchdog_ticks_pos: "watchdog_ticks period us \<noteq> 0"
proof -
  have "(ucast t :: u16) \<noteq> 0" if "t \<noteq> 0" "t \<le> 65535" for t :: "64 word"
  proof
    assume "(ucast t :: u16) = 0"
    moreover have "unat (ucast t :: u16) = unat t mod 65536" by (simp add: unsigned_ucast_eq take_bit_eq_mod unat_mod)
    moreover have "unat t < 65536" "unat t \<noteq> 0" using that by (simp_all add: word_le_nat_alt unat_eq_zero)
    ultimately show False by simp
  qed
  then show ?thesis by (simp add: watchdog_ticks_def Let_def not_le)
qed

text \<open>The count of a watched transmission stays below the limit.\<close>

definition ticks_ok :: "spi \<Rightarrow> bool" where
  "ticks_ok p \<longleftrightarrow> sp_limit p \<noteq> 0 \<and> sp_tx_ticks p < sp_limit p"

lemma ticks_zero: "ticks_ok p \<Longrightarrow> sp_limit q = sp_limit p \<Longrightarrow> sp_tx_ticks q = 0 \<or> sp_tx_ticks q = sp_tx_ticks p \<Longrightarrow> ticks_ok q"
  by (auto simp: ticks_ok_def word_gt_0)

lemma ticks_watchdog: "ticks_ok p \<Longrightarrow> ticks_ok (chb_spi_slave_watchdog_timeout h p)"
  by (auto simp: ticks_ok_def chb_spi_slave_watchdog_timeout_def Let_def tell_rx_def tell_tx_error_def rx_reset_def spi_abort_slave_def
    spi_stop_transfer_def word_gt_0 not_le)

lemma ticks_try: "sp_limit (snd (chb_spi_try_start_master_rx_i p)) = sp_limit p"
  "sp_tx_ticks (snd (chb_spi_try_start_master_rx_i p)) = sp_tx_ticks p"
  by (simp_all add: try_start)

lemmas act_defs = chb_spi_start_def dr_clear_def rx_reset_def tell_tx_error_def chb_spi_stop_def Let_def spi_abort_slave_def
  spi_stop_transfer_def chb_spi_rx_submit_def chb_spi_start_receive_i_def spi_begin_def chb_spi_rx_cancel_def spi_return_def
  tx_submit_rest_def after_tx_done_def after_rx_def tell_tx_ready_def chb_spi_data_cb_def tell_tx_done_def tell_rx_def
  chb_spi_error_cb_def ioHdlcStreamSpiSlaveOverrunI_def chb_spi_data_ready_i_def dr_rising_def chb_spi_abort_master_tx_i_def

lemma ticks_return: "ticks_ok p \<Longrightarrow> ticks_ok (spi_return p)"
  by (cases "sp_pending p"; cases "sp_isr p"; cases "sp_is_master p"; cases "sp_ready p"; erule ticks_zero;
    simp add: act_defs ticks_try split_beta)

lemma ticks_perform:
  assumes "ticks_ok p"
  shows "ticks_ok (spi_perform a p)"
proof (cases a)
  case (Watchdog h)
  then show ?thesis using ticks_watchdog [OF assms] by simp
next
  case Return
  then show ?thesis using ticks_return [OF assms] by simp
next
  case (Submit c fm f)
  then show ?thesis using assms by (cases "sp_is_master p"; cases "sp_rx_active p"; intro ticks_zero [OF assms]; simp add: submit_defs split_beta)
qed (intro ticks_zero [OF assms]; simp add: act_defs ticks_try split_beta)+

lemma spi_reach_ticks: "spi_reach p \<Longrightarrow> ticks_ok p"
proof (induction rule: spi_reach.induct)
  case (start period delay is_master line)
  show ?case using watchdog_ticks_pos by (simp add: ticks_ok_def ioHdlcStreamPortChibiosSpiObjectInit_def word_gt_0)
qed (rule ticks_perform)

lemma watchdog_step:
  assumes "\<not> sp_is_master p" "sp_started p" "sp_tx_active p" "ticks_ok p"
  shows "if sp_limit p \<le> sp_tx_ticks p + 1
    then sp_told (chb_spi_slave_watchdog_timeout h p) = sp_told p @ [on_tx_error_i (sp_tx_framep p) IOHDLC_STREAM_ERR_TMO,
           on_rx_error IOHDLC_STREAM_ERR_OVERRUN]
      \<and> sp_hw (chb_spi_slave_watchdog_timeout h p) = SpiIdle \<and> \<not> sp_line (chb_spi_slave_watchdog_timeout h p)
    else chb_spi_slave_watchdog_timeout h p = p\<lparr>sp_vt := True, sp_tx_ticks := sp_tx_ticks p + 1, sp_rx_ticks := 0\<rparr>"
  using assms by (simp add: chb_spi_slave_watchdog_timeout_def act_defs)


section \<open>Runs of a slave and a master\<close>

definition spi_frame :: frame where
  "spi_frame = \<lparr>f_bytes = [0x03, 0x7E], f_elen = 1, f_tx_len = 2, f_refs = 1, f_tx_ctrl_len = 1, f_openingflag = IOHDLC_FLAG,
     f_gate_free = False, f_qaux_linked = False\<rparr>"

definition a_master :: spi where
  "a_master = ioHdlcStreamPortChibiosSpiObjectInit 100 300 True False"

definition a_slave :: spi where
  "a_slave = ioHdlcStreamPortChibiosSpiObjectInit 100 300 False False"

text \<open>A master that waits for a packet; a slave that gives up its reception to send frame 7.\<close>

definition master_waits :: "spi_act list" where
  "master_waits = [SpiStart, Arm 1 1 IOHDLC_RX_START_PACKET]"

definition slave_sends :: "spi_act list" where
  "slave_sends = [SpiStart, Arm 1 1 IOHDLC_RX_START_PACKET, Submit True spi_frame 7, Cancel, Arm 1 1 IOHDLC_RX_START_PACKET, Return]"

definition after_run :: "spi_act list \<Rightarrow> spi \<Rightarrow> (spi \<Rightarrow> bool) \<Rightarrow> bool" where
  "after_run as p Q = (case spi_run as p of None \<Rightarrow> False | Some q \<Rightarrow> Q q)"

lemma after_runD: "after_run as p Q \<Longrightarrow> spi_reach p \<Longrightarrow> \<exists>q. spi_run as p = Some q \<and> spi_reach q \<and> Q q"
  using spi_run_reach by (auto simp: after_run_def split: option.splits)

lemma samples_reach: "spi_reach a_master" "spi_reach a_slave"
  unfolding a_master_def a_slave_def by (rule spi_reach.start, simp)+

lemma slave_run: "after_run slave_sends a_slave (\<lambda>q. sp_started q \<and> \<not> sp_is_master q \<and> spi_quiet q \<and> sp_inflight q = Some 7
    \<and> sp_hw q = SpiSending [0x7E, 0x03, 0x7E] \<and> sp_line q \<and> sp_limit q = 3 \<and> sp_told q = [on_rx_error 1])"
  by code_simp

lemma master_run: "after_run master_waits a_master (\<lambda>q. sp_started q \<and> sp_is_master q \<and> spi_quiet q \<and> sp_armed q
    \<and> sp_hw q = SpiIdle \<and> \<not> sp_dr_last_high q)"
  by code_simp




declare not_None_eq [simp]

end
