(* ===== verification/Hdlc_SpiListen.thy ===== *)
theory Hdlc_SpiListen
  imports Hdlc_SpiSafe
begin

text \<open>
  The SPI port keeps listening: a buffer of the driver is never forgotten, a slave that does not send
  receives, and a master answers every DATA_READY edge it may answer. The one exception is a
  transfer error of the hardware during a transmission, shown by a run. At the end, the port as an
  instance of the interface \<open>stream_port\<close>.
\<close>

declare not_None_eq [simp del]

section \<open>Runs without a transfer error during a transmission\<close>

inductive spi_calm :: "spi \<Rightarrow> bool" where
  start: "0 < period \<Longrightarrow> spi_calm (ioHdlcStreamPortChibiosSpiObjectInit period delay is_master line)"
| step: "spi_calm p \<Longrightarrow> spi_enabled a p \<Longrightarrow> \<not> (a = Fail \<and> sp_tx_active p) \<Longrightarrow> spi_calm (spi_perform a p)"

lemma spi_calm_reach: "spi_calm p \<Longrightarrow> spi_reach p"
  by (induction rule: spi_calm.induct) (rule spi_reach.intros; assumption)+

definition listen_ok :: "spi \<Rightarrow> bool" where
  "listen_ok p \<longleftrightarrow> (sp_started p \<longrightarrow> (sp_armed p \<longrightarrow> sp_rx_ptr p \<noteq> None)
     \<and> (if sp_is_master p then (sp_isr p = SpiTxDone \<or> \<not> can_rx p) \<and> (sp_dr_epoch_active p \<longrightarrow> sp_dr_last_high p)
        else sp_armed p \<longrightarrow> sp_tx_active p \<or> sp_isr p = SpiTxDone \<or> sp_rx_active p))"

lemma can_rx_try: "\<not> can_rx (snd (chb_spi_try_start_master_rx_i p))"
  by (simp add: try_start can_rx_def)

lemma try_parts [simp]:
  "sp_started (snd (chb_spi_try_start_master_rx_i p)) = sp_started p" "sp_is_master (snd (chb_spi_try_start_master_rx_i p)) = sp_is_master p"
  "sp_armed (snd (chb_spi_try_start_master_rx_i p)) = sp_armed p" "sp_rx_ptr (snd (chb_spi_try_start_master_rx_i p)) = sp_rx_ptr p"
  "sp_isr (snd (chb_spi_try_start_master_rx_i p)) = sp_isr p" "sp_tx_active (snd (chb_spi_try_start_master_rx_i p)) = sp_tx_active p"
  "sp_dr_epoch_active (snd (chb_spi_try_start_master_rx_i p)) = sp_dr_epoch_active p"
  "sp_dr_last_high (snd (chb_spi_try_start_master_rx_i p)) = sp_dr_last_high p"
  by (simp_all add: try_start)

lemma listen_try:
  assumes "sp_armed p \<longrightarrow> sp_rx_ptr p \<noteq> None" "sp_is_master p" "sp_dr_epoch_active p \<longrightarrow> sp_dr_last_high p"
  shows "listen_ok (snd (chb_spi_try_start_master_rx_i p))"
  using assms can_rx_try by (simp add: listen_ok_def)

lemma can_rx_tell [simp]: "can_rx (tell_tx_ready p) = can_rx p" "can_rx (tell_tx_error f e p) = can_rx p"
  by (simp_all add: can_rx_def tell_tx_ready_def tell_tx_error_def)

lemma can_rx_other [simp]: "can_rx (p\<lparr>sp_ready := b\<rparr>) = can_rx p" "can_rx (p\<lparr>sp_line := b\<rparr>) = can_rx p"
  "can_rx (p\<lparr>sp_isr := i\<rparr>) = can_rx p"
  by (simp_all add: can_rx_def)

lemma listen_ready: "listen_ok p \<Longrightarrow> listen_ok (tell_tx_ready p)"
  unfolding listen_ok_def can_rx_tell by (simp add: tell_tx_ready_def)

lemma no_rx [intro]: "sp_rx_ptr p = None \<Longrightarrow> \<not> can_rx p" "sp_tx_active p \<Longrightarrow> \<not> can_rx p" "sp_rx_active p \<Longrightarrow> \<not> can_rx p"
  "sp_dr_collision p \<Longrightarrow> \<not> can_rx p" "\<not> sp_rx_allowed p \<Longrightarrow> \<not> sp_dr_captured p \<Longrightarrow> \<not> can_rx p"
  by (simp_all add: can_rx_def)

lemma listen_arm:
  assumes "listen_ok p" "spi_inv p" "spi_enabled (Arm ptr n m) p"
  shows "listen_ok (spi_perform (Arm ptr n m) p)"
proof (cases "sp_is_master p")
  case True
  define q where "q = p\<lparr>sp_rx_ptr := Some ptr, sp_rx_n := n, sp_rx_mode := m, sp_armed := True\<rparr>"
  have "spi_perform (Arm ptr n m) p = (if sp_tx_active p then q else snd (chb_spi_try_start_master_rx_i q))"
    using assms True by (simp add: q_def chb_spi_rx_submit_def try_start can_rx_def Let_def spi_inv_def)
  moreover have "listen_ok (snd (chb_spi_try_start_master_rx_i q))"
    by (rule listen_try) (use assms True in \<open>simp_all add: q_def listen_ok_def\<close>)
  moreover have "listen_ok q" if "sp_tx_active p"
    using assms(1,3) that True no_rx(2) [of q] by (simp add: listen_ok_def q_def)
  ultimately show ?thesis by simp
next
  case False
  then show ?thesis using assms by (simp add: listen_ok_def chb_spi_rx_submit_def chb_spi_start_receive_i_def spi_begin_def Let_def)
qed

lemma listen_submit:
  assumes "listen_ok p" "spi_enabled (Submit c fm f) p"
  shows "listen_ok (spi_submit c fm f p)"
proof -
  have "sp_tx_active (spi_submit c fm f p)" "sp_started (spi_submit c fm f p)"
    using assms(2) by (auto simp: submit_defs split_beta chb_spi_master_tx_blocked_i_def)
  moreover have "sp_is_master (spi_submit c fm f p) = sp_is_master p" "sp_dr_epoch_active (spi_submit c fm f p) = sp_dr_epoch_active p"
    "sp_dr_last_high (spi_submit c fm f p) = sp_dr_last_high p" "sp_rx_ptr (spi_submit c fm f p) = sp_rx_ptr p"
    "sp_armed (spi_submit c fm f p) \<Longrightarrow> sp_armed p"
    by (auto simp: submit_defs split_beta split: if_splits)
  ultimately show ?thesis using assms no_rx(2) [of "spi_submit c fm f p"] by (auto simp: listen_ok_def)
qed

lemma listen_return:
  assumes "listen_ok p" "spi_inv p" "spi_enabled Return p"
  shows "listen_ok (spi_return p)"
proof (cases "sp_pending p")
  case (Some x)
  obtain im c n where x: "x = (im, c, n)" by (cases x) auto
  let ?q = "tx_submit_rest im c n (p\<lparr>sp_pending := None\<rparr>)"
  have "sp_tx_active ?q" by (simp add: tx_submit_rest_def spi_begin_def Let_def)
  then show ?thesis using assms(1) Some x no_rx(2) [of ?q]
    by (simp add: spi_return_def listen_ok_def) (simp add: tx_submit_rest_def spi_begin_def Let_def)
next
  case None
  have s: "sp_started p" using started_busy [OF assms(2)] assms(3) None by (cases "sp_isr p") (auto simp: spi_quiet_def split: if_splits)
  show ?thesis
  proof (cases "sp_ready p")
    case True
    then show ?thesis using assms(1) None by (simp add: spi_return_def listen_ok_def)
  next
    case False
    show ?thesis
    proof (cases "sp_isr p")
      case SpiTxDone
      define q where "q = p\<lparr>sp_isr := SpiNone\<rparr>"
      show ?thesis
      proof (cases "sp_is_master p")
        case True
        have t: "listen_ok (snd (chb_spi_try_start_master_rx_i q))"
          by (rule listen_try) (use assms True s in \<open>simp_all add: q_def listen_ok_def\<close>)
        have "listen_ok q" if "sp_tx_active p \<or> sp_rx_ptr p = None"
          using that assms(1) True no_rx(1,2) [of q] by (auto simp: listen_ok_def q_def)
        then show ?thesis using t None False SpiTxDone True s by (auto simp: spi_return_def after_tx_done_def Let_def q_def)
      next
        case False
        then show ?thesis using assms(1) None \<open>\<not> sp_ready p\<close> SpiTxDone s
          by (auto simp: spi_return_def after_tx_done_def listen_ok_def Let_def chb_spi_start_receive_i_def spi_begin_def)
      qed
    next
      case SpiRx
      show ?thesis
      proof (cases "sp_is_master p")
        case True
        have t: "listen_ok (snd (chb_spi_try_start_master_rx_i (p\<lparr>sp_isr := SpiNone, sp_rx_active := False\<rparr>)))"
          by (rule listen_try) (use assms True s in \<open>simp_all add: listen_ok_def\<close>)
        then show ?thesis using None False SpiRx True listen_ready [OF t] by (simp add: spi_return_def after_rx_def Let_def)
      next
        case False
        then show ?thesis using assms(1) None \<open>\<not> sp_ready p\<close> SpiRx by (simp add: spi_return_def after_rx_def listen_ok_def)
      qed
    qed (use assms(1) None False s in \<open>auto simp: spi_return_def listen_ok_def split: if_splits\<close>)
  qed
qed

lemma listen_complete:
  assumes "listen_ok p" "spi_inv p" "spi_enabled Complete p"
  shows "listen_ok (chb_spi_data_cb p)"
proof -
  have s: "sp_started p" using assms(2,3) by (auto simp: spi_inv_def split: if_splits)
  have "sp_tx_active p \<or> sp_rx_active p" using assms(2,3) s
    by (cases "sp_hw p") (auto simp: spi_inv_def hw_ok_def spi_quiet_def)
  then show ?thesis using assms(1) s
    by (auto simp: chb_spi_data_cb_def Let_def listen_ok_def tell_tx_done_def tell_rx_def spi_stop_transfer_def can_rx_def)
qed

lemma listen_dr:
  assumes "listen_ok p" "spi_inv p" "spi_enabled DrEdge p"
  shows "listen_ok (chb_spi_data_ready_i p)"
proof -
  have m: "sp_is_master p" "sp_started p" "sp_armed p \<longrightarrow> sp_rx_ptr p \<noteq> None" using assms(1,3) by (simp_all add: listen_ok_def)
  have c: "listen_ok (dr_clear q)" if "sp_is_master q" "sp_armed q \<longrightarrow> sp_rx_ptr q \<noteq> None" for q
    using that no_rx(5) [of "dr_clear q"] by (simp add: listen_ok_def dr_clear_def)
  have e: "listen_ok (tell_tx_error f e q)" if "listen_ok q" for f e q using that unfolding listen_ok_def can_rx_tell by (simp add: tell_tx_error_def)
  have r: "listen_ok (dr_rising q)" if "sp_is_master q" "sp_armed q \<longrightarrow> sp_rx_ptr q \<noteq> None" "sp_dr_last_high q" for q
  proof -
    consider "sp_tx_active q" | "\<not> sp_tx_active q" "sp_dr_collision q" | "\<not> sp_tx_active q" "\<not> sp_dr_collision q" by blast
    then show ?thesis
    proof cases
      case 1
      have "listen_ok (snd (chb_spi_abort_master_tx_i (q\<lparr>sp_dr_epoch_active := True\<rparr>)))"
        using that by (simp add: listen_ok_def chb_spi_abort_master_tx_i_def spi_stop_transfer_def can_rx_def)
      then show ?thesis using 1 e by (simp add: dr_rising_def Let_def split_beta)
    next
      case 2
      then show ?thesis using that by (simp add: dr_rising_def Let_def listen_ok_def can_rx_def)
    next
      case 3
      then show ?thesis using that by (auto simp: dr_rising_def Let_def intro!: listen_try)
    qed
  qed
  show ?thesis using m
    by (auto simp: chb_spi_data_ready_i_def Let_def chb_spi_abort_master_tx_i_def spi_stop_transfer_def intro!: e c r listen_ready)
      (simp_all add: dr_clear_def)
qed

lemma listen_watchdog: "listen_ok p \<Longrightarrow> listen_ok (chb_spi_slave_watchdog_timeout h p)"
  by (auto simp: chb_spi_slave_watchdog_timeout_def Let_def listen_ok_def tell_rx_def tell_tx_error_def rx_reset_def spi_abort_slave_def
    spi_stop_transfer_def can_rx_def)

lemma listen_perform:
  assumes "listen_ok p" "spi_inv p" "spi_enabled a p" "\<not> (a = Fail \<and> sp_tx_active p)"
  shows "listen_ok (spi_perform a p)"
proof (cases a)
  case SpiStart
  then show ?thesis using assms(2,3) by (simp add: listen_ok_def act_defs can_rx_def spi_inv_def)
next
  case (SpiStop h)
  then show ?thesis by (simp add: listen_ok_def act_defs)
next
  case Cancel
  then show ?thesis using assms(3) by (simp add: listen_ok_def act_defs can_rx_def)
next
  case Fail
  then show ?thesis using assms(4) by (simp add: listen_ok_def act_defs can_rx_def)
next
  case (Overrun h)
  then show ?thesis using assms(3) by (simp add: listen_ok_def act_defs can_rx_def)
next
  case (LineTo b)
  then show ?thesis using assms(1) by (simp add: listen_ok_def)
next
  case (Watchdog h)
  then show ?thesis using listen_watchdog [OF assms(1)] by simp
next
  case (Arm ptr n m)
  then show ?thesis using listen_arm assms by blast
qed (use assms in \<open>simp_all only: listen_submit listen_return listen_complete listen_dr spi_perform.simps\<close>)

lemma spi_calm_listen: "spi_calm p \<Longrightarrow> listen_ok p"
proof (induction rule: spi_calm.induct)
  case (start period delay is_master line)
  show ?case by (simp add: listen_ok_def ioHdlcStreamPortChibiosSpiObjectInit_def)
next
  case (step p a)
  then show ?case using listen_perform spi_reach_inv [OF spi_calm_reach] by blast
qed

text \<open>C34: In every state the port can reach without a transfer error during a transmission, with the driver's
  buffer at the port and no callback in progress: the port has the buffer; a slave that sends nothing
  is receiving; and a master with no transfer in progress has no permission to read left unused, and
  starts to receive into the buffer with the next rising edge of DATA_READY.\<close>
theorem spi_listens:
  assumes "spi_calm p" "sp_started p" "spi_quiet p" "sp_armed p"
  shows "sp_rx_ptr p \<noteq> None
    \<and> (sp_hw p = SpiIdle \<longrightarrow> sp_is_master p \<and> \<not> can_rx p
        \<and> (\<not> sp_dr_last_high p \<longrightarrow> sp_hw (chb_spi_data_ready_i (p\<lparr>sp_line := True\<rparr>)) = SpiReceiving (sp_rx_n p)))"
proof -
  have i: "spi_inv p" by (rule spi_reach_inv [OF spi_calm_reach [OF assms(1)]])
  have l: "sp_rx_ptr p \<noteq> None" "sp_is_master p \<Longrightarrow> \<not> can_rx p" "sp_is_master p \<Longrightarrow> sp_dr_epoch_active p \<Longrightarrow> sp_dr_last_high p"
    "\<not> sp_is_master p \<Longrightarrow> sp_tx_active p \<or> sp_rx_active p"
    using spi_calm_listen [OF assms(1)] assms(2-4) by (simp_all add: listen_ok_def spi_quiet_def split: if_splits)
  show ?thesis
  proof (cases "sp_hw p")
    case SpiIdle
    have a: "\<not> sp_tx_active p" "\<not> sp_rx_active p" using i assms(2,3) SpiIdle by (simp_all add: spi_inv_def hw_ok_def spi_quiet_def)
    then have m: "sp_is_master p" using l(4) by blast
    have "sp_hw (chb_spi_data_ready_i (p\<lparr>sp_line := True\<rparr>)) = SpiReceiving (sp_rx_n p)" if "\<not> sp_dr_last_high p"
    proof -
      have "\<not> sp_dr_captured p \<and> \<not> sp_dr_collision p \<and> \<not> sp_rx_allowed p"
        using i assms(2) l(3) m that by (auto simp: spi_inv_def line_ok_def split: if_splits)
      then show ?thesis using a m l(1) assms(2) SpiIdle that
        by (simp add: chb_spi_data_ready_i_def dr_rising_def Let_def try_start can_rx_def)
    qed
    then show ?thesis using l m by blast
  qed (use l in simp_all)
qed

lemma spi_run_calm: "spi_calm p \<Longrightarrow> Fail \<notin> set as \<Longrightarrow> spi_run as p = Some q \<Longrightarrow> spi_calm q"
proof (induction as arbitrary: p)
  case (Cons a as)
  then have "spi_enabled a p" "spi_run as (spi_perform a p) = Some q" "a \<noteq> Fail" by (auto split: if_splits)
  then show ?case using Cons.IH [OF spi_calm.step [OF Cons.prems(1)]] Cons.prems(2) by auto
qed simp

theorem spi_listens_witness:
  "\<exists>q. spi_run master_waits a_master = Some q \<and> sp_hw (chb_spi_data_ready_i (q\<lparr>sp_line := True\<rparr>)) = SpiReceiving (sp_rx_n q)"
proof -
  obtain q where q: "spi_run master_waits a_master = Some q" "sp_started q" "spi_quiet q" "sp_armed q" "sp_hw q = SpiIdle"
    "\<not> sp_dr_last_high q" using after_runD [OF master_run samples_reach(1)] by blast
  have "spi_calm a_master" unfolding a_master_def by (rule spi_calm.start) simp
  then have "spi_calm q" by (rule spi_run_calm [OF _ _ q(1)]) (simp add: master_waits_def)
  from spi_listens [OF this q(2-4)] q show ?thesis by blast
qed

section \<open>The exception\<close>

text \<open>
  A transfer error during a transmission: the handler takes the buffer of the driver from the port but
  reports only the frame. The driver believes the buffer is with the port, and does not give it
  another one; the slave does not receive, and neither does the watchdog find anything to end.
\<close>

lemma error_run: "after_run (slave_sends @ [Fail, Watchdog True, Watchdog True, Watchdog True, Watchdog True]) a_slave
    (\<lambda>q. sp_armed q \<and> spi_quiet q \<and> sp_rx_ptr q = None \<and> sp_hw q = SpiIdle \<and> sp_inflight q = None)"
  by code_simp

theorem tx_error_deafens:
  "\<exists>q. spi_run (slave_sends @ [Fail, Watchdog True, Watchdog True, Watchdog True, Watchdog True]) a_slave = Some q
     \<and> spi_reach q \<and> sp_armed q \<and> spi_quiet q \<and> sp_rx_ptr q = None \<and> sp_hw q = SpiIdle \<and> sp_inflight q = None"
  using after_runD [OF error_run samples_reach(2)] by blast

section \<open>The port the driver relies on\<close>

interpretation spi_port: stream_port "\<lambda>p. sp_started p \<and> \<not> sp_fault p" chb_spi_tx_busy "chb_spi_tx_submit_frame cancelled"
    for cancelled
  by unfold_locales
    (auto simp: chb_spi_tx_submit_frame_def chb_spi_tx_submit_def chb_spi_tx_busy_def chb_spi_master_tx_blocked_i_def
      tx_submit_rest_def tell_rx_def spi_begin_def spi_stop_transfer_def Let_def split_beta)

text \<open>A frame that waits in the driver's queue starts on a port that has become free, and is never given up.\<close>

lemma spi_next_starts:
  assumes "spi_reach p" "sp_started p" "\<not> chb_spi_tx_busy p" "port_image fm \<noteq> []" "sd_inflight d = None" "sd_raw_q d = f # fs"
  shows "sd_inflight (snd (s_try_start_next_tx_i b (d\<lparr>sd_busy := [chb_spi_tx_busy p],
    sd_submit := [answer_code (fst (chb_spi_tx_submit_frame c fm f p))]\<rparr>))) = Some f"
  using assms spi_reach_inv [OF assms(1)] by (intro spi_port.next_starts) (simp_all add: spi_inv_def)

declare not_None_eq [simp]

end
